(* ===== verification/Prelude.thy ===== *)
theory Prelude
  imports Main "HOL-Library.List_Lexorder" "HOL-Library.Product_Lexorder"
begin

text \<open>
  What every component of the model shares: Python strings, the exceptions the sources raise
  and the result type that carries them, and a few list functions of the Python built-ins.

  \<^item> A Python \<open>str\<close> is a sequence of Unicode code points, so it is a list of naturals, the
    code points themselves (\<open>ord\<close>); lone surrogates are allowed, as in Python. \<open>u ''abc''\<close> is
    the string of an ASCII literal. The order of such lists is the order of Python strings.
  \<^item> \<open>bytes\<close> are lists of naturals below 256.
  \<^item> A call that can raise returns \<open>py_exn + 'a\<close>: \<open>Inl\<close> the exception, \<open>Inr\<close> the value.
    The predicates \<open>is_ValueError\<close> and \<open>is_OSError\<close> are the class tests of the
    \<open>except\<close> clauses.
\<close>

named_theorems run \<open>evaluating the model on a concrete input by the simplifier\<close>

section \<open>Strings\<close>

type_synonym ustr = "nat list"
type_synonym bytes = "nat list"

definition u :: "string \<Rightarrow> ustr" where
  "u s = map of_char s"

named_theorems ustr_simps \<open>reading a literal code point by code point\<close>

lemma length_u [simp]: "length (u s) = length s"
  by (simp add: u_def)

lemma u_inj [simp]: "u s = u t \<longleftrightarrow> s = t"
  by (simp add: u_def inj_map_eq_map inj_of_char)

lemma u_Nil [simp]: "u [] = []"
  by (simp add: u_def)

lemma u_eq_Nil [simp]: "u s = [] \<longleftrightarrow> s = []" "[] = u s \<longleftrightarrow> s = []"
  by (auto simp: u_def)

lemma u_Cons [ustr_simps]: "u (c # s) = of_char c # u s"
  by (simp add: u_def)

lemma set_u_lt: "x \<in> set (u s) \<Longrightarrow> x < 256"
  by (auto simp: u_def)

text \<open>\<open>str.isspace\<close>, the characters \<open>strip()\<close> removes.\<close>

definition py_space :: "nat \<Rightarrow> bool" where
  "py_space c \<longleftrightarrow> 9 \<le> c \<and> c \<le> 13 \<or> 28 \<le> c \<and> c \<le> 32 \<or> c = 133 \<or> c = 160 \<or> c = 5760
     \<or> 8192 \<le> c \<and> c \<le> 8202 \<or> c = 8232 \<or> c = 8233 \<or> c = 8239 \<or> c = 8287 \<or> c = 12288"

definition py_strip :: "ustr \<Rightarrow> ustr" where
  "py_strip s = rev (dropWhile py_space (rev (dropWhile py_space s)))"

definition py_rstrip_char :: "nat \<Rightarrow> ustr \<Rightarrow> ustr" where
  "py_rstrip_char c s = rev (dropWhile (\<lambda>x. x = c) (rev s))"

definition surrogate :: "nat \<Rightarrow> bool" where
  "surrogate c \<longleftrightarrow> 55296 \<le> c \<and> c \<le> 57343"

text \<open>\<open>sep.join(parts)\<close>, \<open>s.replace(a, b)\<close> on single code points, \<open>s.startswith(p)\<close>, and
  \<open>s.split(c)\<close> on a single code point.\<close>

fun py_join :: "'a list \<Rightarrow> 'a list list \<Rightarrow> 'a list" where
  "py_join sep [] = []"
| "py_join sep [x] = x"
| "py_join sep (x # y # xs) = x @ sep @ py_join sep (y # xs)"

definition py_replace1 :: "nat \<Rightarrow> nat \<Rightarrow> ustr \<Rightarrow> ustr" where
  "py_replace1 a b s = map (\<lambda>c. if c = a then b else c) s"

fun py_startswith :: "'a list \<Rightarrow> 'a list \<Rightarrow> bool" where
  "py_startswith s [] = True"
| "py_startswith [] (p # ps) = False"
| "py_startswith (c # s) (p # ps) = (c = p \<and> py_startswith s ps)"

fun py_split :: "nat \<Rightarrow> ustr \<Rightarrow> ustr list" where
  "py_split c [] = [[]]"
| "py_split c (x # xs) =
     (if x = c then [] # py_split c xs
      else case py_split c xs of [] \<Rightarrow> [[x]] | p # ps \<Rightarrow> (x # p) # ps)"

lemma py_startswith_iff: "py_startswith s p \<longleftrightarrow> take (length p) s = p"
  by (induction s p rule: py_startswith.induct) auto

lemma py_split_not_Nil [simp]: "py_split c s \<noteq> []"
  by (cases s) (auto split: list.splits)

lemma py_join_Cons: "xs \<noteq> [] \<Longrightarrow> py_join sep (x # xs) = x @ sep @ py_join sep xs"
  by (cases xs) auto

lemma py_join_split [simp]: "py_join [c] (py_split c s) = s"
proof (induction s)
  case (Cons x xs)
  obtain p ps where ps: "py_split c xs = p # ps"
    using py_split_not_Nil[of c xs] by (cases "py_split c xs") auto
  show ?case
    using Cons ps by (cases ps) auto
qed simp

lemma py_split_append: "py_split c (s @ c # t) = py_split c s @ py_split c t"
proof (induction s)
  case (Cons x xs)
  obtain p ps where ps: "py_split c xs = p # ps"
    using py_split_not_Nil[of c xs] by (cases "py_split c xs") auto
  show ?case using Cons ps by auto
qed simp

lemma py_split_single: "c \<notin> set s \<Longrightarrow> py_split c s = [s]"
  by (induction s) auto

lemma py_split_pieces: "p \<in> set (py_split c s) \<Longrightarrow> c \<notin> set p"
proof (induction s arbitrary: p)
  case (Cons x xs)
  obtain q qs where qs: "py_split c xs = q # qs"
    using py_split_not_Nil[of c xs] by (cases "py_split c xs") auto
  show ?case using Cons qs by (auto split: if_splits)
qed simp

lemma py_split_join:
  "ps \<noteq> [] \<Longrightarrow> \<forall>p \<in> set ps. c \<notin> set p \<Longrightarrow> py_split c (py_join [c] ps) = ps"
proof (induction ps)
  case (Cons p ps)
  show ?case
  proof (cases "ps = []")
    case True
    then show ?thesis using Cons.prems by (simp add: py_split_single)
  next
    case False
    then show ?thesis using Cons by (simp add: py_join_Cons py_split_append py_split_single)
  qed
qed simp

lemma length_py_join:
  "length (py_join sep xs) = sum_list (map length xs) + (length xs - 1) * length sep"
  by (induction sep xs rule: py_join.induct) (auto simp: algebra_simps)

section \<open>Exceptions and results\<close>

datatype py_exn =
    ValueError string
  | TypeError string
  | KeyError
  | IndexError
  | AttributeError
  | OverflowError
  | ArithmeticError
  | UnicodeError
  | JSONDecodeError
  | ConfigError string
  | CacheValidationError
  | PathError string
  | FileError string
  | DeadlineError string
  | OSError string
  | FileNotFoundError
  | TimeoutError
  | RuntimeError string
  | RecursionError
  | StructError
  | TooManyWindows
  | ProtocolError string
  | InvocationError
  | MarkerValidationError
  | ProcessTokenMissing
  | ProcessTokenUnprovable
  | MarkerPrimitiveError
  | SnapshotError
  | GuardError string
  | JobError string
  | ResourceError string

text \<open>The class tests: \<open>UnicodeError\<close>, \<open>JSONDecodeError\<close>, \<open>ConfigError\<close>,
  \<open>CacheValidationError\<close>, \<open>PathError\<close>, \<open>ProtocolError\<close>, \<open>InvocationError\<close>, \<open>MarkerValidationError\<close>,
  \<open>ProcessTokenMissing\<close> and \<open>_TooManyWindows\<close> derive from \<open>ValueError\<close>; \<open>FileError\<close> from
  \<open>PathError\<close>; \<open>DeadlineError\<close> from \<open>FileError\<close>; \<open>OverflowError\<close> from
  \<open>ArithmeticError\<close>; \<open>FileNotFoundError\<close>, \<open>TimeoutError\<close> and \<open>MarkerPrimitiveError\<close> from \<open>OSError\<close>;
  \<open>StructError\<close>, the \<open>struct.error\<close>, from none of them; the rest, \<open>RecursionError\<close> among them, from
  \<open>RuntimeError\<close>. \<open>ResourceError\<close> stands for the error classes of the Codex resource modules, by the name of the
  class.\<close>

fun is_ValueError :: "py_exn \<Rightarrow> bool" where
  "is_ValueError (ValueError _) = True"
| "is_ValueError UnicodeError = True"
| "is_ValueError JSONDecodeError = True"
| "is_ValueError (ConfigError _) = True"
| "is_ValueError CacheValidationError = True"
| "is_ValueError (PathError _) = True"
| "is_ValueError (FileError _) = True"
| "is_ValueError (DeadlineError _) = True"
| "is_ValueError TooManyWindows = True"
| "is_ValueError (ProtocolError _) = True"
| "is_ValueError InvocationError = True"
| "is_ValueError MarkerValidationError = True"
| "is_ValueError ProcessTokenMissing = True"
| "is_ValueError _ = False"

fun is_TypeError :: "py_exn \<Rightarrow> bool" where
  "is_TypeError (TypeError _) = True"
| "is_TypeError _ = False"

fun is_OSError :: "py_exn \<Rightarrow> bool" where
  "is_OSError (OSError _) = True"
| "is_OSError FileNotFoundError = True"
| "is_OSError TimeoutError = True"
| "is_OSError MarkerPrimitiveError = True"
| "is_OSError _ = False"

fun is_FileError :: "py_exn \<Rightarrow> bool" where
  "is_FileError (FileError _) = True"
| "is_FileError (DeadlineError _) = True"
| "is_FileError _ = False"

definition rbind :: "'e + 'a \<Rightarrow> ('a \<Rightarrow> 'e + 'b) \<Rightarrow> 'e + 'b" where
  "rbind m f = (case m of Inl e \<Rightarrow> Inl e | Inr x \<Rightarrow> f x)"

named_theorems result_simps \<open>running and inverting chains of results\<close>

lemma rbind_simps [simp, result_simps]: "rbind (Inl e) f = Inl e" "rbind (Inr x) f = f x"
  by (simp_all add: rbind_def)

lemma rbind_Inr_iff [result_simps]: "rbind m f = Inr y \<longleftrightarrow> (\<exists>x. m = Inr x \<and> f x = Inr y)"
  by (cases m) auto

lemma rbind_Inl_iff [result_simps]:
  "rbind m f = Inl e \<longleftrightarrow> m = Inl e \<or> (\<exists>x. m = Inr x \<and> f x = Inl e)"
  by (cases m) auto

text \<open>With this congruence the simplifier evaluates the first step of a chain before it looks at the
  rest.\<close>

lemma rbind_run_cong: "m = m' \<Longrightarrow> rbind m f = rbind m' f"
  by simp

lemmas run_cong = rbind_run_cong let_weak_cong

fun rmap :: "('a \<Rightarrow> 'e + 'b) \<Rightarrow> 'a list \<Rightarrow> 'e + 'b list" where
  "rmap f [] = Inr []"
| "rmap f (x # xs) = rbind (f x) (\<lambda>y. rbind (rmap f xs) (\<lambda>ys. Inr (y # ys)))"

definition ropt :: "('a \<Rightarrow> 'e + 'b) \<Rightarrow> 'a option \<Rightarrow> 'e + 'b option" where
  "ropt f x = (case x of None \<Rightarrow> Inr None | Some y \<Rightarrow> rbind (f y) (\<lambda>z. Inr (Some z)))"

lemma ropt_simps [simp, result_simps]:
  "ropt f None = Inr None" "ropt f (Some y) = rbind (f y) (\<lambda>z. Inr (Some z))"
  by (simp_all add: ropt_def)

lemma ropt_Inr_iff:
  "ropt f x = Inr y \<longleftrightarrow> (x = None \<and> y = None \<or> (\<exists>a b. x = Some a \<and> y = Some b \<and> f a = Inr b))"
  by (cases x) (auto simp: result_simps)

lemma rmap_length: "rmap f xs = Inr ys \<Longrightarrow> length ys = length xs"
  by (induction xs arbitrary: ys) (auto simp: rbind_Inr_iff)

lemma rmap_list_all2: "rmap f xs = Inr ys \<longleftrightarrow> list_all2 (\<lambda>x y. f x = Inr y) xs ys"
  by (induction xs arbitrary: ys) (auto simp: rbind_Inr_iff list_all2_Cons1)

lemma rmap_set: "rmap f xs = Inr ys \<Longrightarrow> y \<in> set ys \<Longrightarrow> \<exists>x \<in> set xs. f x = Inr y"
  by (induction xs arbitrary: ys) (auto simp: rbind_Inr_iff)

lemma rmap_Inr_all: "rmap f xs = Inr ys \<Longrightarrow> x \<in> set xs \<Longrightarrow> \<exists>y. f x = Inr y"
  by (induction xs arbitrary: ys) (auto simp: rbind_Inr_iff)

lemma rmap_cong: "xs = ys \<Longrightarrow> (\<And>x. x \<in> set ys \<Longrightarrow> f x = g x) \<Longrightarrow> rmap f xs = rmap g ys"
  by (induction ys arbitrary: xs) auto

lemma rmap_Inr: "(\<And>x. x \<in> set xs \<Longrightarrow> f x = Inr (g x)) \<Longrightarrow> rmap f xs = Inr (map g xs)"
  by (induction xs) auto

section \<open>Built-ins on lists\<close>

text \<open>\<open>min(xs, key=f)\<close>: the first of the elements with the least key.\<close>

fun min_by :: "('a \<Rightarrow> 'k::linorder) \<Rightarrow> 'a \<Rightarrow> 'a list \<Rightarrow> 'a" where
  "min_by f x [] = x"
| "min_by f x (y # ys) = min_by f (if f y < f x then y else x) ys"

lemma min_by_in: "min_by f x xs \<in> set (x # xs)"
proof (induction xs arbitrary: x)
  case (Cons y ys)
  show ?case using Cons[of "if f y < f x then y else x"] by (auto split: if_splits)
qed simp

lemma min_by_le: "y \<in> set (x # xs) \<Longrightarrow> f (min_by f x xs) \<le> f y"
proof (induction xs arbitrary: x y)
  case (Cons z zs)
  let ?w = "if f z < f x then z else x"
  have "f (min_by f ?w zs) \<le> f ?w" by (rule Cons.IH) simp
  moreover have "f ?w \<le> f x" "f ?w \<le> f z" by auto
  moreover have "\<And>y. y \<in> set zs \<Longrightarrow> f (min_by f ?w zs) \<le> f y" by (rule Cons.IH) simp
  ultimately show ?case using Cons.prems by (auto intro: order_trans)
qed simp

text \<open>An association list read as a Python dict: keys are looked up from the left.\<close>

definition dict_get :: "'k \<Rightarrow> ('k \<times> 'v) list \<Rightarrow> 'v option" where
  "dict_get k d = map_of d k"

text \<open>\<open>d[k] = v\<close>: an existing key keeps its place, a new one goes last.\<close>

fun dict_put :: "'k \<Rightarrow> 'v \<Rightarrow> ('k \<times> 'v) list \<Rightarrow> ('k \<times> 'v) list" where
  "dict_put k v [] = [(k, v)]"
| "dict_put k v ((k', w) # d) = (if k = k' then (k, v) # d else (k', w) # dict_put k v d)"

lemma dict_get_put [simp]: "dict_get k' (dict_put k v d) = (if k' = k then Some v else dict_get k' d)"
  by (induction k v d rule: dict_put.induct) (auto simp: dict_get_def)

lemma dict_put_keys: "map fst (dict_put k v d) = (if k \<in> fst ` set d then map fst d else map fst d @ [k])"
  by (induction k v d rule: dict_put.induct) auto

lemma dict_put_distinct: "distinct (map fst d) \<Longrightarrow> distinct (map fst (dict_put k v d))"
  by (auto simp: dict_put_keys)

lemma dict_get_None_iff: "dict_get k d = None \<longleftrightarrow> k \<notin> fst ` set d"
  by (simp add: dict_get_def map_of_eq_None_iff)

lemmas [run] = u_Cons py_strip_def py_rstrip_char_def py_space_def surrogate_def dict_get_def Let_def ropt_def

end
