(* ===== verification/PyNum.thy ===== *)
theory PyNum
  imports Prelude
begin

text \<open>
  Python numbers: the decimal text of an integer, the binary double (\<open>float\<close>), and
  \<open>decimal.Decimal\<close>.

  \<^item> A finite double is \<open>FFin sign m e\<close>, the number \<open>\<plusminus>m * 2^e\<close>; \<open>float_of\<close> rounds a
    fraction to the nearest double, ties to even, to infinity above the range.
  \<^item> A finite decimal is \<open>DFin sign coeff exp\<close>. Addition, division and multiplication follow
    the decimal specification (\<open>_pydecimal\<close>) at the precision given as an argument, rounding
    half to even. The exponent limits of the context (\<open>\<plusminus>999999\<close>) are not modelled: the program
    only computes on texts of at most 256 characters.
\<close>

section \<open>Decimal digits\<close>

fun nat_digits :: "nat \<Rightarrow> nat list" where
  "nat_digits n = (if n < 10 then [n] else nat_digits (n div 10) @ [n mod 10])"

declare nat_digits.simps [simp del]

definition digits_nat :: "nat list \<Rightarrow> nat" where
  "digits_nat ds = foldl (\<lambda>a d. 10 * a + d) 0 ds"

text \<open>The ASCII text of a natural number and of an integer (\<open>str(n)\<close>), and \<open>int\<close> of digits.\<close>

definition str_nat :: "nat \<Rightarrow> ustr" where
  "str_nat n = map (\<lambda>d. 48 + d) (nat_digits n)"

definition str_int :: "int \<Rightarrow> ustr" where
  "str_int i = (if i < 0 then 45 # str_nat (nat (- i)) else str_nat (nat i))"

definition is_digit :: "nat \<Rightarrow> bool" where
  "is_digit c \<longleftrightarrow> 48 \<le> c \<and> c \<le> 57"

definition digits_val :: "ustr \<Rightarrow> nat" where
  "digits_val s = digits_nat (map (\<lambda>c. c - 48) s)"

text \<open>\<open>f"{n:0kd}"\<close>: at least \<open>k\<close> digits, zeros in front.\<close>

fun pad_digits :: "nat \<Rightarrow> nat \<Rightarrow> nat list" where
  "pad_digits 0 n = []"
| "pad_digits (Suc k) n = pad_digits k (n div 10) @ [n mod 10]"

definition str_pad :: "nat \<Rightarrow> nat \<Rightarrow> ustr" where
  "str_pad k n = map (\<lambda>d. 48 + d) (pad_digits k n)"

lemma foldl_digits: "foldl (\<lambda>a d. 10 * a + d) a ds = a * 10 ^ length ds + digits_nat ds"
proof (induction ds arbitrary: a)
  case (Cons d ds)
  show ?case
    using Cons[of "10 * a + d"] Cons[of d] by (simp add: digits_nat_def algebra_simps)
qed (simp add: digits_nat_def)

lemma digits_nat_simps [simp]:
  "digits_nat [] = 0" "digits_nat (d # ds) = d * 10 ^ length ds + digits_nat ds"
  "digits_nat (xs @ ys) = digits_nat xs * 10 ^ length ys + digits_nat ys"
    apply (simp add: digits_nat_def)
   apply (simp add: digits_nat_def foldl_digits[of d, unfolded digits_nat_def])
  apply (simp add: digits_nat_def foldl_digits[of "foldl _ 0 xs", unfolded digits_nat_def])
  done

lemma nat_digits_Nil [simp]: "nat_digits n \<noteq> []" "[] \<noteq> nat_digits n"
  by (subst nat_digits.simps, simp)+

lemma nat_digits_le: "d \<in> set (nat_digits n) \<Longrightarrow> d \<le> 9"
proof (induction n rule: nat_digits.induct)
  case (1 n)
  then show ?case by (subst (asm) nat_digits.simps) (auto split: if_splits)
qed

lemma digits_nat_digits [simp]: "digits_nat (nat_digits n) = n"
proof (induction n rule: nat_digits.induct)
  case (1 n)
  show ?case
  proof (cases "n < 10")
    case False
    then have "digits_nat (nat_digits n) = digits_nat (nat_digits (n div 10)) * 10 + n mod 10"
      by (subst nat_digits.simps) simp
    then show ?thesis using 1 False by simp
  qed (simp add: nat_digits.simps)
qed

lemma digits_nat_lt: "\<forall>d \<in> set ds. d \<le> 9 \<Longrightarrow> digits_nat ds < 10 ^ length ds"
proof (induction ds)
  case (Cons d ds)
  then have "digits_nat ds < 10 ^ length ds" "d \<le> 9" by auto
  then have "d * 10 ^ length ds + digits_nat ds < (d + 1) * 10 ^ length ds" by (simp add: algebra_simps)
  also have "\<dots> \<le> 10 * 10 ^ length ds" using \<open>d \<le> 9\<close> by (intro mult_right_mono) auto
  finally show ?case by simp
qed simp

lemma hd_nat_digits: "0 < n \<Longrightarrow> hd (nat_digits n) \<noteq> 0"
proof (induction n rule: nat_digits.induct)
  case (1 n)
  then show ?case
    by (subst nat_digits.simps) (auto simp: hd_append div_greater_zero_iff)
qed

lemma nat_digits_of_digits:
  assumes "ds \<noteq> []" "\<forall>d \<in> set ds. d \<le> 9" "length ds = 1 \<or> hd ds \<noteq> 0"
  shows "nat_digits (digits_nat ds) = ds"
  using assms
proof (induction ds rule: rev_induct)
  case (snoc d ds)
  show ?case
  proof (cases "ds = []")
    case True
    then show ?thesis using snoc.prems by (simp add: nat_digits.simps)
  next
    case False
    have "length ds = 1 \<or> hd ds \<noteq> 0" using snoc.prems False by auto
    then have IH: "nat_digits (digits_nat ds) = ds" using snoc False by auto
    have "hd ds \<noteq> 0" using snoc.prems False by auto
    obtain x xs where ds: "ds = x # xs" using False by (cases ds) auto
    then have "1 * 1 \<le> x * 10 ^ length xs"
      using \<open>hd ds \<noteq> 0\<close> by (intro mult_le_mono) auto
    then have "0 < digits_nat ds" using ds by simp
    then have "\<not> digits_nat (ds @ [d]) < 10" by simp
    moreover have "d \<le> 9" using snoc.prems by simp
    ultimately show ?thesis using IH by (subst nat_digits.simps) simp
  qed
qed simp

lemma length_pad_digits [simp]: "length (pad_digits k n) = k"
  by (induction k arbitrary: n) auto

lemma pad_digits_le: "d \<in> set (pad_digits k n) \<Longrightarrow> d \<le> 9"
  by (induction k arbitrary: n) auto

lemma digits_nat_pad: "digits_nat (pad_digits k n) = n mod 10 ^ k"
proof (induction k arbitrary: n)
  case (Suc k)
  have "n mod (10 * 10 ^ k) = 10 * (n div 10 mod 10 ^ k) + n mod 10"
    by (simp add: mod_mult2_eq)
  then show ?case using Suc[of "n div 10"] by (simp add: mult.commute)
qed simp

lemma pad_digits_of_digits:
  "\<forall>d \<in> set ds. d \<le> 9 \<Longrightarrow> pad_digits (length ds) (digits_nat ds) = ds"
proof (induction ds rule: rev_induct)
  case (snoc d ds)
  then have "(digits_nat ds * 10 + d) div 10 = digits_nat ds" by simp
  then show ?case using snoc by simp
qed simp

lemma length_str_pad [simp]: "length (str_pad k n) = k"
  by (simp add: str_pad_def)

lemma str_nat_digits: "c \<in> set (str_nat n) \<Longrightarrow> is_digit c"
  by (auto simp: str_nat_def is_digit_def dest: nat_digits_le)

lemma str_pad_digits: "c \<in> set (str_pad k n) \<Longrightarrow> is_digit c"
  by (auto simp: str_pad_def is_digit_def dest: pad_digits_le)

lemma digits_val_str [simp]: "digits_val (str_nat n) = n"
  by (simp add: digits_val_def str_nat_def comp_def)

lemma digits_val_pad [simp]: "digits_val (str_pad k n) = n mod 10 ^ k"
  by (simp add: digits_val_def str_pad_def comp_def digits_nat_pad)

lemma str_pad_val: "\<forall>c \<in> set s. is_digit c \<Longrightarrow> str_pad (length s) (digits_val s) = s"
proof -
  assume d: "\<forall>c \<in> set s. is_digit c"
  have "\<forall>x \<in> set (map (\<lambda>c. c - 48) s). x \<le> 9" using d by (auto simp: is_digit_def)
  from pad_digits_of_digits[OF this]
  have "pad_digits (length s) (digits_val s) = map (\<lambda>c. c - 48) s" by (simp add: digits_val_def)
  moreover have "map (\<lambda>d. 48 + d) (map (\<lambda>c. c - 48) s) = s"
    using d by (auto simp: is_digit_def intro!: map_idI)
  ultimately show ?thesis by (simp add: str_pad_def)
qed

lemma digits_val_lt: "\<forall>c \<in> set s. is_digit c \<Longrightarrow> digits_val s < 10 ^ length s"
  using digits_nat_lt[of "map (\<lambda>c. c - 48) s"] by (fastforce simp: is_digit_def digits_val_def)

lemma digits_val_Nil [simp]: "digits_val [] = 0"
  by (simp add: digits_val_def)

lemma digits_val_append [simp]:
  "digits_val (s @ t) = digits_val s * 10 ^ length t + digits_val t"
  by (simp add: digits_val_def)

lemma str_nat_Nil [simp]: "str_nat n \<noteq> []" "[] \<noteq> str_nat n"
  by (simp_all add: str_nat_def)

lemma hd_str_nat: "hd (str_nat n) = 48 \<longleftrightarrow> n = 0"
  using hd_nat_digits[of n] by (cases "n = 0") (auto simp: str_nat_def hd_map nat_digits.simps)

lemma str_nat_0 [simp]: "str_nat 0 = [48]"
  by (simp add: str_nat_def nat_digits.simps)

section \<open>Doubles\<close>

datatype pyfloat = FFin bool nat int | FInf bool | FNaN

fun bitlen :: "nat \<Rightarrow> nat" where
  "bitlen n = (if n = 0 then 0 else Suc (bitlen (n div 2)))"

declare bitlen.simps [simp del]

definition scale2 :: "nat \<Rightarrow> nat \<Rightarrow> int \<Rightarrow> nat \<times> nat" where
  "scale2 n d e = (if 0 \<le> e then (n, d * 2 ^ nat e) else (n * 2 ^ nat (- e), d))"

text \<open>The double nearest to \<open>n / d\<close>.\<close>

definition float_of :: "bool \<Rightarrow> nat \<Rightarrow> nat \<Rightarrow> pyfloat" where
  "float_of s n d =
     (if n = 0 then FFin s 0 (-1074) else
      let e0 = int (bitlen n) - int (bitlen d) - 53;
          (n0, d0) = scale2 n d e0;
          e1 = (if n0 div d0 < 2 ^ 53 then e0 else e0 + 1);
          e = max e1 (-1074);
          (n1, d1) = scale2 n d e;
          q = n1 div d1;
          r = n1 mod d1;
          m = (if 2 * r > d1 \<or> 2 * r = d1 \<and> odd q then q + 1 else q);
          (m', e') = (if m = 2 ^ 53 then (2 ^ 52, e + 1) else (m, e)) in
      if e' > 971 then FInf s else FFin s m' e')"

text \<open>\<open>float(n)\<close> of an integer raises \<open>OverflowError\<close> out of range.\<close>

definition float_of_int :: "int \<Rightarrow> py_exn + pyfloat" where
  "float_of_int i =
     (case float_of (i < 0) (nat \<bar>i\<bar>) 1 of FInf _ \<Rightarrow> Inl OverflowError | f \<Rightarrow> Inr f)"

fun float_finite :: "pyfloat \<Rightarrow> bool" where
  "float_finite (FFin _ _ _) = True"
| "float_finite _ = False"

text \<open>A finite double against an integer, exactly: \<open>float_cmp f k\<close> is the sign of \<open>f - k\<close>.\<close>

definition float_num :: "bool \<Rightarrow> nat \<Rightarrow> int \<Rightarrow> int \<times> nat" where
  "float_num s m e =
     (let v = (if s then - int m else int m) in
      if 0 \<le> e then (v * 2 ^ nat e, 1) else (v, 2 ^ nat (- e)))"

fun float_less_int :: "pyfloat \<Rightarrow> int \<Rightarrow> bool" where
  "float_less_int (FFin s m e) k = (let (n, d) = float_num s m e in n < k * int d)"
| "float_less_int (FInf s) k = s"
| "float_less_int FNaN k = False"

fun float_gt_int :: "pyfloat \<Rightarrow> int \<Rightarrow> bool" where
  "float_gt_int (FFin s m e) k = (let (n, d) = float_num s m e in n > k * int d)"
| "float_gt_int (FInf s) k = (\<not> s)"
| "float_gt_int FNaN k = False"

fun float_eq_int :: "pyfloat \<Rightarrow> int \<Rightarrow> bool" where
  "float_eq_int (FFin s m e) k = (let (n, d) = float_num s m e in n = k * int d)"
| "float_eq_int _ k = False"

text \<open>\<open>int(x)\<close> truncates towards zero; it raises on infinities and NaN.\<close>

fun int_of_float :: "pyfloat \<Rightarrow> py_exn + int" where
  "int_of_float (FFin s m e) =
     (let q = (if 0 \<le> e then m * 2 ^ nat e else m div 2 ^ nat (- e)) in
      Inr (if s then - int q else int q))"
| "int_of_float (FInf s) = Inl OverflowError"
| "int_of_float FNaN = Inl (ValueError ''cannot convert float NaN to integer'')"

text \<open>The product of two doubles, rounded.\<close>

fun float_mul :: "pyfloat \<Rightarrow> pyfloat \<Rightarrow> pyfloat" where
  "float_mul (FFin s m e) (FFin t k f) =
     (let x = e + f in
      if 0 \<le> x then float_of (s \<noteq> t) (m * k * 2 ^ nat x) 1
      else float_of (s \<noteq> t) (m * k) (2 ^ nat (- x)))"
| "float_mul (FInf s) (FInf t) = FInf (s \<noteq> t)"
| "float_mul (FInf s) (FFin t m e) = (if m = 0 then FNaN else FInf (s \<noteq> t))"
| "float_mul (FFin t m e) (FInf s) = (if m = 0 then FNaN else FInf (s \<noteq> t))"
| "float_mul _ _ = FNaN"

text \<open>\<open>repr(x)\<close>: the shortest decimal that reads back as \<open>x\<close>, the closest to \<open>x\<close> of these,
  in fixed notation for decimal exponents from -4 to 15.\<close>

fun dec_point :: "nat \<Rightarrow> nat \<Rightarrow> nat \<Rightarrow> int" where
  "dec_point 0 n d = 0"
| "dec_point (Suc fuel) n d =
     (if d \<le> n then (if n < 10 * d then 1 else dec_point fuel n (10 * d) + 1)
      else if d \<le> 10 * n then 0 else dec_point fuel (10 * n) d - 1)"

definition scale10 :: "nat \<Rightarrow> nat \<Rightarrow> int \<Rightarrow> nat \<times> nat" where
  "scale10 n d e = (if 0 \<le> e then (n, d * 10 ^ nat e) else (n * 10 ^ nat (- e), d))"

definition unscale10 :: "nat \<Rightarrow> int \<Rightarrow> nat \<times> nat" where
  "unscale10 k e = (if 0 \<le> e then (k * 10 ^ nat e, 1) else (k, 10 ^ nat (- e)))"

fun shortest :: "nat \<Rightarrow> nat \<Rightarrow> pyfloat \<Rightarrow> nat \<Rightarrow> nat \<Rightarrow> int \<Rightarrow> nat \<times> int" where
  "shortest 0 k x n d p = (0, 0)"
| "shortest (Suc fuel) k x n d p =
     (let e = p - int k;
          (n1, d1) = scale10 n d e;
          lo = n1 div d1;
          r = n1 mod d1;
          back = (\<lambda>c. (case unscale10 c e of (a, b) \<Rightarrow> float_of False a b = x));
          near = (if 2 * r < d1 \<or> 2 * r = d1 \<and> even lo then [lo, lo + 1] else [lo + 1, lo]) in
      case filter back near of c # _ \<Rightarrow> (c, e) | [] \<Rightarrow> shortest fuel (k + 1) x n d p)"

fun strip_zeros :: "nat \<Rightarrow> nat \<Rightarrow> int \<Rightarrow> nat \<times> int" where
  "strip_zeros 0 c e = (c, e)"
| "strip_zeros (Suc fuel) c e = (if c mod 10 = 0 then strip_zeros fuel (c div 10) (e + 1) else (c, e))"

definition float_repr :: "pyfloat \<Rightarrow> ustr" where
  "float_repr x = (case x of
     FNaN \<Rightarrow> u ''nan''
   | FInf s \<Rightarrow> (if s then u ''-inf'' else u ''inf'')
   | FFin s m e \<Rightarrow>
       (if s then [45] else []) @
       (if m = 0 then u ''0.0'' else
        let (n, d) = (if 0 \<le> e then (m * 2 ^ nat e, 1) else (m, 2 ^ nat (- e)));
            p = dec_point 2000 n d;
            (c0, e0) = shortest 18 1 (FFin False m e) n d p;
            (c, k) = strip_zeros 20 c0 e0;
            ds = str_nat c;
            pt = int (length ds) + k in
        if -4 < pt \<and> pt \<le> 16 then
          (if pt \<le> 0 then u ''0.'' @ replicate (nat (- pt)) 48 @ ds
           else if int (length ds) \<le> pt then ds @ replicate (nat pt - length ds) 48 @ u ''.0''
           else take (nat pt) ds @ [46] @ drop (nat pt) ds)
        else take 1 ds @ (if length ds = 1 then [] else 46 # drop 1 ds) @ [101] @
          (if pt - 1 < 0 then [45] else [43]) @
          (let x = nat \<bar>pt - 1\<bar> in if x < 10 then 48 # str_nat x else str_nat x)))"

section \<open>Decimals\<close>

datatype dec = DFin bool nat int | DInf bool | DNaN

fun dec_finite :: "dec \<Rightarrow> bool" where
  "dec_finite (DFin _ _ _) = True"
| "dec_finite _ = False"

text \<open>Comparison of two finite decimals, on a common exponent.\<close>

definition dec_int :: "int \<Rightarrow> bool \<Rightarrow> nat \<Rightarrow> int \<Rightarrow> int" where
  "dec_int e s c x = (if s then - int (c * 10 ^ nat (x - e)) else int (c * 10 ^ nat (x - e)))"

fun dec_less :: "dec \<Rightarrow> dec \<Rightarrow> bool" where
  "dec_less (DFin s c e) (DFin t d f) = (dec_int (min e f) s c e < dec_int (min e f) t d f)"
| "dec_less (DFin s c e) (DInf t) = (\<not> t)"
| "dec_less (DInf s) (DFin t d f) = s"
| "dec_less (DInf s) (DInf t) = (s \<and> \<not> t)"
| "dec_less _ _ = False"

fun dec_eq :: "dec \<Rightarrow> dec \<Rightarrow> bool" where
  "dec_eq (DFin s c e) (DFin t d f) = (dec_int (min e f) s c e = dec_int (min e f) t d f)"
| "dec_eq (DInf s) (DInf t) = (s = t)"
| "dec_eq _ _ = False"

definition dec0 :: dec where
  "dec0 = DFin False 0 0"

fun dec_neg :: "dec \<Rightarrow> bool" where
  "dec_neg (DFin s c e) = (s \<and> c \<noteq> 0)"
| "dec_neg (DInf s) = s"
| "dec_neg DNaN = False"

text \<open>Rounding of a coefficient to \<open>prec\<close> digits, half to even.\<close>

definition dec_fix :: "nat \<Rightarrow> nat \<Rightarrow> int \<Rightarrow> nat \<times> int" where
  "dec_fix prec c e =
     (let k = length (nat_digits c) - prec in
      if k = 0 then (c, e)
      else let p = 10 ^ k; q = c div p; r = c mod p;
               q' = (if 2 * r > p \<or> 2 * r = p \<and> odd q then q + 1 else q) in
           if q' = 10 ^ prec then (10 ^ (prec - 1), e + int k + 1) else (q', e + int k))"

text \<open>Sum, quotient and product of non-negative finite decimals.\<close>

definition dec_add :: "nat \<Rightarrow> nat \<times> int \<Rightarrow> nat \<times> int \<Rightarrow> nat \<times> int" where
  "dec_add prec a b = (case (a, b) of ((c, e), (d, f)) \<Rightarrow>
     dec_fix prec (c * 10 ^ nat (e - min e f) + d * 10 ^ nat (f - min e f)) (min e f))"

fun reduce_exp :: "nat \<Rightarrow> nat \<Rightarrow> int \<Rightarrow> int \<Rightarrow> nat \<times> int" where
  "reduce_exp 0 c e ideal = (c, e)"
| "reduce_exp (Suc fuel) c e ideal =
     (if e < ideal \<and> c mod 10 = 0 then reduce_exp fuel (c div 10) (e + 1) ideal else (c, e))"

definition dec_div :: "nat \<Rightarrow> nat \<times> int \<Rightarrow> nat \<times> int \<Rightarrow> nat \<times> int" where
  "dec_div prec a b = (case (a, b) of ((c, e), (d, f)) \<Rightarrow>
     if c = 0 then (0, e - f)
     else let shift = int (length (nat_digits d)) - int (length (nat_digits c)) + int prec + 1;
              x = e - f - shift;
              n = (if 0 \<le> shift then c * 10 ^ nat shift else c);
              m = (if 0 \<le> shift then d else d * 10 ^ nat (- shift));
              q = n div m in
          if n mod m \<noteq> 0 then dec_fix prec (if q mod 5 = 0 then q + 1 else q) x
          else case reduce_exp (nat shift) q x (e - f) of (q', x') \<Rightarrow> dec_fix prec q' x')"

definition dec_mul :: "nat \<Rightarrow> nat \<times> int \<Rightarrow> nat \<times> int \<Rightarrow> nat \<times> int" where
  "dec_mul prec a b = (case (a, b) of ((c, e), (d, f)) \<Rightarrow> dec_fix prec (c * d) (e + f))"

text \<open>\<open>format(d, "f")\<close> of a finite decimal.\<close>

definition fixed_text :: "nat \<Rightarrow> int \<Rightarrow> ustr" where
  "fixed_text c e0 =
     (let e = (if c = 0 \<and> 0 < e0 then 0 else e0);
          ds = str_nat c;
          dot = int (length ds) + e in
      if dot \<le> 0 then u ''0.'' @ replicate (nat (- dot)) 48 @ ds
      else if int (length ds) \<le> dot then ds @ replicate (nat (dot - int (length ds))) 48
      else take (nat dot) ds @ [46] @ drop (nat dot) ds)"

fun dec_format_f :: "dec \<Rightarrow> ustr" where
  "dec_format_f (DFin s c e) = (if s then [45] else []) @ fixed_text c e"
| "dec_format_f (DInf s) = (if s then u ''-Infinity'' else u ''Infinity'')"
| "dec_format_f DNaN = u ''NaN''"

text \<open>\<open>Decimal(text)\<close>: white space around it and underscores are dropped; a sign, digits with an
  optional point and exponent, or a name of an infinity or a NaN.\<close>

definition lower_ascii :: "ustr \<Rightarrow> ustr" where
  "lower_ascii s = map (\<lambda>c. if 65 \<le> c \<and> c \<le> 90 then c + 32 else c) s"

definition sign_of :: "ustr \<Rightarrow> bool \<times> ustr" where
  "sign_of s = (case s of c # r \<Rightarrow> if c = 45 then (True, r) else if c = 43 then (False, r) else (False, s)
     | [] \<Rightarrow> (False, s))"

definition dec_exponent :: "ustr \<Rightarrow> int option" where
  "dec_exponent s = (case s of
     [] \<Rightarrow> Some 0
   | c # r \<Rightarrow>
       if c = 101 \<or> c = 69 then
         (let (neg, ds) = sign_of r in
          if ds = [] \<or> \<not> list_all is_digit ds then None
          else Some (if neg then - int (digits_val ds) else int (digits_val ds)))
       else None)"

definition dec_parse :: "ustr \<Rightarrow> py_exn + dec" where
  "dec_parse t =
     (let (neg, s) = sign_of (filter (\<lambda>c. c \<noteq> 95) (py_strip t));
          whole = takeWhile is_digit s;
          r = dropWhile is_digit s;
          frac = (case r of c # r' \<Rightarrow> if c = 46 then takeWhile is_digit r' else [] | [] \<Rightarrow> []);
          tail = (case r of c # r' \<Rightarrow> if c = 46 then dropWhile is_digit r' else r | [] \<Rightarrow> []) in
      if whole @ frac \<noteq> [] then
        (case dec_exponent tail of
           Some x \<Rightarrow> Inr (DFin neg (digits_val (whole @ frac)) (x - int (length frac)))
         | None \<Rightarrow> Inl ArithmeticError)
      else if lower_ascii s \<in> {u ''inf'', u ''infinity''} then Inr (DInf neg)
      else if (\<exists>p \<in> {u ''nan'', u ''snan''}. py_startswith (lower_ascii s) p
                 \<and> list_all is_digit (drop (length p) s)) then Inr DNaN
      else Inl ArithmeticError)"

section \<open>Evaluation\<close>

lemma nat_digits_run [run]:
  "nat_digits (numeral k) =
     (if numeral k < (10::nat) then [numeral k] else nat_digits (numeral k div 10) @ [numeral k mod 10])"
  "nat_digits 0 = [0]" "nat_digits (Suc 0) = [1]" "nat_digits 1 = [1]"
  by (subst nat_digits.simps, simp)+

lemma pad_digits_run [run]:
  "pad_digits (numeral k) n = pad_digits (pred_numeral k) (n div 10) @ [n mod 10]"
  unfolding numeral_eq_Suc[of k] by simp

lemma strip_zeros_run [run]:
  "strip_zeros (numeral k) c e = (if c mod 10 = 0 then strip_zeros (pred_numeral k) (c div 10) (e + 1) else (c, e))"
  unfolding numeral_eq_Suc[of k] by simp

lemma reduce_exp_run [run]:
  "reduce_exp (numeral k) c e i =
     (if e < i \<and> c mod 10 = 0 then reduce_exp (pred_numeral k) (c div 10) (e + 1) i else (c, e))"
  unfolding numeral_eq_Suc[of k] by simp

lemma bitlen_run [run]: "bitlen 0 = 0" "bitlen (numeral k) = Suc (bitlen (numeral k div 2))" "bitlen (Suc 0) = 1"
  "bitlen 1 = 1"
proof -
  show z: "bitlen 0 = 0" by (subst bitlen.simps) simp
  show "bitlen (numeral k) = Suc (bitlen (numeral k div 2))" by (subst bitlen.simps) simp
  show "bitlen (Suc 0) = 1" "bitlen 1 = 1" by (subst bitlen.simps, simp add: z)+
qed

lemmas [run] = str_nat_def str_int_def str_pad_def is_digit_def digits_val_def digits_nat_def dec0_def dec_int_def dec_fix_def dec_add_def
  dec_div_def dec_mul_def fixed_text_def sign_of_def dec_exponent_def dec_parse_def lower_ascii_def
  scale2_def float_of_def float_of_int_def float_num_def

end
