(* ===== verification/PyDecimal.thy ===== *)
theory PyDecimal
  imports PyNum
begin

text \<open>
  Facts on the fixed-point text of decimals: \<open>Decimal(format(d, "f")) = d\<close> for an exponent that is
  not positive, and the removal of trailing zeros.
\<close>

definition text_char :: "nat \<Rightarrow> bool" where
  "text_char c \<longleftrightarrow> is_digit c \<or> c = 46"

lemma str_nat_all: "list_all is_digit (str_nat n)"
  by (simp add: list_all_iff str_nat_digits)

lemma text_char_strip: "list_all text_char s \<Longrightarrow> py_strip s = s"
proof -
  assume "list_all text_char s"
  then have "\<forall>c \<in> set s. \<not> py_space c"
    by (auto simp: list_all_iff text_char_def is_digit_def py_space_def)
  then have "dropWhile py_space s = s" "dropWhile py_space (rev s) = rev s"
    using dropWhile_eq_self_iff[of py_space s] dropWhile_eq_self_iff[of py_space "rev s"]
    by (auto simp: hd_rev)
  then show ?thesis by (simp add: py_strip_def)
qed

lemma text_char_filter: "list_all text_char s \<Longrightarrow> filter (\<lambda>c. c \<noteq> 95) s = s"
  by (induction s) (auto simp: text_char_def is_digit_def)

lemma text_char_sign: "list_all text_char s \<Longrightarrow> sign_of s = (False, s)"
  by (cases s) (auto simp: sign_of_def text_char_def is_digit_def)

lemma digits_text: "list_all is_digit s \<Longrightarrow> list_all text_char s"
  by (auto simp: list_all_iff text_char_def)

lemma take_digits: "list_all is_digit s \<Longrightarrow> takeWhile is_digit (s @ 46 # t) = s"
  "list_all is_digit s \<Longrightarrow> dropWhile is_digit (s @ 46 # t) = 46 # t"
  "list_all is_digit s \<Longrightarrow> takeWhile is_digit s = s"
  "list_all is_digit s \<Longrightarrow> dropWhile is_digit s = []"
  by (induction s) (auto simp: is_digit_def)

lemma dec_parse_digits:
  assumes "list_all is_digit w" "w \<noteq> []"
  shows "dec_parse w = Inr (DFin False (digits_val w) 0)"
proof -
  have t: "list_all text_char w" using assms by (simp add: digits_text)
  show ?thesis
    using assms by (simp add: dec_parse_def text_char_strip[OF t] text_char_filter[OF t]
        text_char_sign[OF t] take_digits dec_exponent_def)
qed

lemma dec_parse_point:
  assumes "list_all is_digit w" "list_all is_digit f" "w @ f \<noteq> []"
  shows "dec_parse (w @ 46 # f) = Inr (DFin False (digits_val (w @ f)) (- int (length f)))"
proof -
  have t: "list_all text_char (w @ 46 # f)" using assms by (simp add: digits_text text_char_def)
  show ?thesis
    unfolding dec_parse_def text_char_strip[OF t] text_char_filter[OF t] text_char_sign[OF t]
    using assms by (auto simp: take_digits dec_exponent_def simp del: digits_val_append)
qed

lemma digits_val_zeros: "digits_val (replicate k 48) = 0"
  by (induction k) (simp_all add: digits_val_def)

text \<open>The three shapes of a fixed-point text.\<close>

lemma fixed_text_int: "fixed_text c 0 = str_nat c"
  by (simp add: fixed_text_def Let_def)

lemma fixed_text_point:
  assumes "e < 0"
  obtains w f where "fixed_text c e = w @ 46 # f" "list_all is_digit w" "list_all is_digit f"
    "w \<noteq> []" "digits_val (w @ f) = c" "- int (length f) = e" "last f = last (str_nat c)" "f \<noteq> []"
    "w = [48] \<or> hd w \<noteq> 48"
proof (cases "int (length (str_nat c)) + e \<le> 0")
  case True
  let ?z = "replicate (nat (- (int (length (str_nat c)) + e))) 48"
  have 1: "fixed_text c e = [48] @ 46 # (?z @ str_nat c)"
    using True assms by (simp add: fixed_text_def Let_def u_Cons)
  have 2: "list_all is_digit (?z @ str_nat c)"
    by (auto simp: list_all_iff is_digit_def dest: str_nat_digits[unfolded is_digit_def])
  have 3: "digits_val ([48] @ ?z @ str_nat c) = c"
    using digits_val_append[of "[48] @ ?z" "str_nat c"] digits_val_append[of "[48]" ?z]
    by (simp add: digits_val_zeros del: digits_val_append) (simp add: digits_val_def)
  have 4: "- int (length (?z @ str_nat c)) = e" using True by simp
  show ?thesis by (rule that[OF 1 _ 2 _ 3 4]) (simp_all add: is_digit_def)
next
  case False
  let ?d = "nat (int (length (str_nat c)) + e)"
  have l: "?d < length (str_nat c)" using False assms by linarith
  have 1: "fixed_text c e = take ?d (str_nat c) @ 46 # drop ?d (str_nat c)"
    using False assms by (simp add: fixed_text_def Let_def)
  have 2: "list_all is_digit (take ?d (str_nat c))" "list_all is_digit (drop ?d (str_nat c))"
    by (auto simp: list_all_iff str_nat_digits dest: in_set_takeD in_set_dropD)
  have 3: "digits_val (take ?d (str_nat c) @ drop ?d (str_nat c)) = c"
    by (simp del: digits_val_append)
  have 4: "- int (length (drop ?d (str_nat c))) = e" using False l by simp
  have 5: "take ?d (str_nat c) \<noteq> []" "drop ?d (str_nat c) \<noteq> []" using False l by auto
  have 6: "hd (take ?d (str_nat c)) \<noteq> 48"
  proof
    assume "hd (take ?d (str_nat c)) = 48"
    then have "c = 0" using hd_str_nat[of c] 5 by simp
    then show False using l False by simp
  qed
  show ?thesis by (rule that[OF 1 2 5(1) 3 4 _ 5(2)]) (use l 6 in simp_all)
qed

lemma dec_parse_fixed: "e \<le> 0 \<Longrightarrow> dec_parse (fixed_text c e) = Inr (DFin False c e)"
proof (cases "e = 0")
  case True
  then show ?thesis by (simp add: fixed_text_int dec_parse_digits str_nat_all)
next
  case False
  assume "e \<le> 0"
  then have e: "e < 0" using False by simp
  obtain w f where f: "fixed_text c e = w @ 46 # f" "list_all is_digit w" "list_all is_digit f"
    "w \<noteq> []" "digits_val (w @ f) = c" "- int (length f) = e"
    by (rule fixed_text_point[OF e])
  then have "dec_parse (w @ 46 # f) = Inr (DFin False (digits_val (w @ f)) (- int (length f)))"
    by (intro dec_parse_point) auto
  then show ?thesis unfolding f(1,5,6) .
qed

lemma fixed_text_ascii: "c \<in> set (fixed_text n e) \<Longrightarrow> c < 128 \<and> 45 \<le> c"
  using str_nat_digits[of c n]
  by (auto simp: fixed_text_def Let_def is_digit_def u_Cons split: if_splits
      dest: in_set_takeD in_set_dropD)

lemma fixed_text_not_Nil [simp]: "fixed_text c e \<noteq> []"
  by (auto simp: fixed_text_def Let_def)

section \<open>Trailing zeros\<close>

lemma strip_zeros_val:
  "strip_zeros fuel c e = (c', e') \<Longrightarrow> e \<le> e' \<and> c = c' * 10 ^ nat (e' - e)"
proof (induction fuel c e rule: strip_zeros.induct)
  case (2 fuel c e)
  show ?case
  proof (cases "c mod 10 = 0")
    case True
    then have IH: "e + 1 \<le> e'" "c div 10 = c' * 10 ^ nat (e' - (e + 1))" using 2 by auto
    have "nat (e' - e) = Suc (nat (e' - (e + 1)))" using IH(1) by simp
    moreover have "c = 10 * (c div 10)" using True by presburger
    ultimately show ?thesis using IH by simp
  qed (use 2 in auto)
qed simp

lemma strip_zeros_stop:
  "0 < c \<Longrightarrow> c < 10 ^ fuel \<Longrightarrow> strip_zeros fuel c e = (c', e') \<Longrightarrow> c' mod 10 \<noteq> 0"
proof (induction fuel c e rule: strip_zeros.induct)
  case (2 fuel c e)
  show ?case
  proof (cases "c mod 10 = 0")
    case True
    moreover have "0 < c div 10" "c div 10 < 10 ^ fuel"
      using True 2 by (auto simp: div_less_iff_less_mult mult.commute div_greater_zero_iff)
    ultimately show ?thesis using 2 by simp
  qed (use 2 in auto)
qed simp

lemma strip_zeros_same: "c mod 10 \<noteq> 0 \<Longrightarrow> strip_zeros fuel c e = (c, e)"
  by (cases fuel) auto

lemma digits_lt: "n < 10 ^ length (nat_digits n)"
  using digits_nat_lt[of "nat_digits n"] nat_digits_le by fastforce

lemma length_str_nat: "length (str_nat n) = length (nat_digits n)"
  by (simp add: str_nat_def)

lemma nat_digits_mult: "0 < c \<Longrightarrow> nat_digits (c * 10 ^ k) = nat_digits c @ replicate k 0"
proof (induction k)
  case (Suc k)
  have "c * 10 ^ Suc k = 10 * (c * 10 ^ k)" by simp
  moreover have "0 < c * 10 ^ k" using Suc by simp
  ultimately have "nat_digits (c * 10 ^ Suc k) = nat_digits (c * 10 ^ k) @ [0]"
    by (subst nat_digits.simps) auto
  then show ?case using Suc by (simp add: replicate_append_same)
qed simp

lemma fixed_text_zeros: "0 < c \<Longrightarrow> 0 \<le> e \<Longrightarrow> fixed_text c e = str_nat (c * 10 ^ nat e)"
proof -
  assume "0 < c" "0 \<le> e"
  moreover have "0 < int (length (str_nat c))" by simp
  ultimately have "\<not> int (length (str_nat c)) + e \<le> 0" by linarith
  with \<open>0 < c\<close> \<open>0 \<le> e\<close> show ?thesis by (simp add: fixed_text_def Let_def str_nat_def nat_digits_mult)
qed

lemma last_str_nat: "last (str_nat n) = 48 + n mod 10"
proof -
  have "last (nat_digits n) = n mod 10" by (subst nat_digits.simps) simp
  then show ?thesis by (simp add: str_nat_def last_map)
qed

section \<open>Value\<close>

text \<open>The rational value of a decimal with a common denominator: \<open>c * 10 ^ e\<close> in units of
  \<open>10 ^ k\<close> for any \<open>k \<le> e\<close>. Equality of decimals does not depend on the unit.\<close>

lemma dec_int_shift: "k \<le> e \<Longrightarrow> e \<le> x \<Longrightarrow> dec_int k s c x = dec_int e s c x * 10 ^ nat (e - k)"
proof -
  assume "k \<le> e" "e \<le> x"
  then have "nat (x - k) = nat (x - e) + nat (e - k)" by simp
  then show ?thesis by (simp add: dec_int_def power_add)
qed

lemma dec_eq_iff: "k \<le> e \<Longrightarrow> k \<le> f \<Longrightarrow> dec_eq (DFin s c e) (DFin t d f) \<longleftrightarrow> dec_int k s c e = dec_int k t d f"
  using dec_int_shift[of k "min e f" e s c] dec_int_shift[of k "min e f" f t d] by simp

lemma dec_less_iff: "k \<le> e \<Longrightarrow> k \<le> f \<Longrightarrow> dec_less (DFin s c e) (DFin t d f) \<longleftrightarrow> dec_int k s c e < dec_int k t d f"
  using dec_int_shift[of k "min e f" e s c] dec_int_shift[of k "min e f" f t d] by simp

end
