(* ===== verification/PyTime.thy ===== *)
theory PyTime
  imports PyNum
begin

text \<open>
  \<open>datetime.datetime\<close>: a wall-clock reading in microseconds since 0001-01-01T00:00:00, and the
  offset of its zone when it has one. \<open>None\<close> is a naive value (\<open>tzinfo\<close> or \<open>utcoffset()\<close> is
  \<open>None\<close>). Aware values are compared in UTC.

  The calendar is proleptic Gregorian: \<open>ymd_days\<close> counts the days before a date and \<open>days_ymd\<close> is
  its inverse (\<open>ymd_days_ymd\<close>). The text format of the documents,
  \<open>%Y-%m-%dT%H:%M:%S.%fZ\<close> with a four-digit year, is written by \<open>stamp_text\<close> and read by
  \<open>stamp_parse\<close>, and \<open>stamp_parse_text\<close> is the round trip.
\<close>

record datetime =
  dt_us :: int
  dt_off :: "int option"

definition aware :: "datetime \<Rightarrow> bool" where
  "aware d \<longleftrightarrow> dt_off d \<noteq> None"

text \<open>Microseconds of the UTC reading, and \<open>astimezone(timezone.utc)\<close>, which raises
  \<open>OverflowError\<close> out of the years 1 to 9999.\<close>

definition utc_us :: "datetime \<Rightarrow> int" where
  "utc_us d = (case dt_off d of None \<Rightarrow> dt_us d | Some z \<Rightarrow> dt_us d - z)"

definition max_us :: int where
  "max_us = 3652059 * 86400000000"

definition in_range :: "int \<Rightarrow> bool" where
  "in_range t \<longleftrightarrow> 0 \<le> t \<and> t < max_us"

definition utc_of :: "int \<Rightarrow> datetime" where
  "utc_of t = \<lparr>dt_us = t, dt_off = Some 0\<rparr>"

definition to_utc :: "datetime \<Rightarrow> py_exn + datetime" where
  "to_utc d = (if in_range (utc_us d) then Inr (utc_of (utc_us d)) else Inl OverflowError)"

definition dt_le :: "datetime \<Rightarrow> datetime \<Rightarrow> bool" where
  "dt_le a b \<longleftrightarrow> utc_us a \<le> utc_us b"

section \<open>The calendar\<close>

definition leap :: "nat \<Rightarrow> bool" where
  "leap y \<longleftrightarrow> y mod 4 = 0 \<and> (y mod 100 \<noteq> 0 \<or> y mod 400 = 0)"

definition month_days :: "nat \<Rightarrow> nat \<Rightarrow> nat" where
  "month_days y m = (if m = 2 then (if leap y then 29 else 28)
     else if m = 4 \<or> m = 6 \<or> m = 9 \<or> m = 11 then 30 else 31)"

definition year_days :: "nat \<Rightarrow> nat" where
  "year_days y = (if leap y then 366 else 365)"

fun days_before_year :: "nat \<Rightarrow> nat" where
  "days_before_year y = (let p = y - 1 in p * 365 + p div 4 - p div 100 + p div 400)"

fun days_before_month :: "nat \<Rightarrow> nat \<Rightarrow> nat" where
  "days_before_month y 0 = 0"
| "days_before_month y (Suc m) = days_before_month y m + (if m = 0 then 0 else month_days y m)"

definition valid_ymd :: "nat \<Rightarrow> nat \<Rightarrow> nat \<Rightarrow> bool" where
  "valid_ymd y m d \<longleftrightarrow> 1 \<le> y \<and> y \<le> 9999 \<and> 1 \<le> m \<and> m \<le> 12 \<and> 1 \<le> d \<and> d \<le> month_days y m"

definition ymd_days :: "nat \<Rightarrow> nat \<Rightarrow> nat \<Rightarrow> nat" where
  "ymd_days y m d = days_before_year y + days_before_month y m + (d - 1)"

declare days_before_year.simps [simp del]

text \<open>The date of a day number: the year by estimate and correction, the month by a scan.\<close>

fun find_month :: "nat \<Rightarrow> nat \<Rightarrow> nat \<Rightarrow> nat \<Rightarrow> nat \<times> nat" where
  "find_month 0 y m n = (m, n)"
| "find_month (Suc k) y m n = (if n < month_days y m then (m, n) else find_month k y (m + 1) (n - month_days y m))"

definition find_year :: "nat \<Rightarrow> nat" where
  "find_year n = (let e = (n * 400) div 146097 + 1 in
     if days_before_year (e + 1) \<le> n then e + 1 else if days_before_year e \<le> n then e else e - 1)"

definition days_ymd :: "nat \<Rightarrow> nat \<times> nat \<times> nat" where
  "days_ymd n = (let y = find_year n; (m, d) = find_month 11 y 1 (n - days_before_year y) in (y, m, d + 1))"

lemma days_before_year_Suc: "1 \<le> y \<Longrightarrow> days_before_year (Suc y) = days_before_year y + year_days y"
proof -
  assume "1 \<le> y"
  then obtain p where p: "y = Suc p" by (cases y) auto
  have d4: "Suc p div 4 = p div 4 + (if Suc p mod 4 = 0 then 1 else 0)"
    and d100: "Suc p div 100 = p div 100 + (if Suc p mod 100 = 0 then 1 else 0)"
    and d400: "Suc p div 400 = p div 400 + (if Suc p mod 400 = 0 then 1 else 0)"
    by (simp_all add: div_Suc)
  have v: "100 dvd (400::nat)" "4 dvd (100::nat)" by simp_all
  have m: "Suc p mod 400 = 0 \<Longrightarrow> Suc p mod 100 = 0" "Suc p mod 100 = 0 \<Longrightarrow> Suc p mod 4 = 0"
    unfolding mod_eq_0_iff_dvd using dvd_trans[OF v(1)] dvd_trans[OF v(2)] by simp_all
  have le: "p div 100 \<le> p div 4" by (rule div_le_mono2) auto
  have e: "days_before_year (Suc (Suc p)) = Suc p * 365 + Suc p div 4 - Suc p div 100 + Suc p div 400"
    "days_before_year (Suc p) = p * 365 + p div 4 - p div 100 + p div 400"
    by (simp_all add: Let_def days_before_year.simps)
  have r: "Suc n * 365 + (a + (if A then 1 else 0)) - (b + (if B then 1 else 0)) + (c + (if C then 1 else 0))
      = (n * 365 + a - b + c) + (if A \<and> (\<not> B \<or> C) then 366 else 365)"
    if "C \<Longrightarrow> B" "B \<Longrightarrow> A" "b \<le> a" for n a b c :: nat and A B C
    using that by (cases A; cases B; cases C; simp)
  show ?thesis
    unfolding p e d4 d100 d400 year_days_def leap_def by (rule r[OF m le])
qed

lemma days_before_year_mono: "1 \<le> a \<Longrightarrow> a \<le> b \<Longrightarrow> days_before_year a \<le> days_before_year b"
proof (induction b)
  case (Suc b)
  then show ?case
    by (cases "a = Suc b") (auto simp: days_before_year_Suc intro: trans_le_add1)
qed simp

lemma find_year:
  assumes "1 \<le> y" "days_before_year y \<le> n" "n < days_before_year (Suc y)"
  shows "find_year n = y"
proof -
  define p where "p = y - 1"
  have y: "y = p + 1" using assms by (simp add: p_def)
  have lo: "p * 365 + p div 4 - p div 100 + p div 400 \<le> n"
    using assms(2) by (simp add: y Let_def days_before_year.simps)
  have hi: "n < (p + 1) * 365 + (p + 1) div 4 - (p + 1) div 100 + (p + 1) div 400"
    using assms(3) by (simp add: y Let_def days_before_year.simps)
  define e where "e = (n * 400) div 146097 + 1"
  have a: "e \<le> y + 1" "y \<le> e + 1"
  proof -
    define k where "k = (n * 400) div 146097"
    have k: "146097 * k \<le> n * 400" "n * 400 < 146097 * (k + 1)"
      using div_times_less_eq_dividend[of "n * 400" 146097] dividend_less_div_times[of 146097 "n * 400"]
      by (simp_all add: k_def mult.commute)
    have q: "4 * (m div 4) \<le> m" "m < 4 * (m div 4) + 4" "100 * (m div 100) \<le> m" "m < 100 * (m div 100) + 100"
        "400 * (m div 400) \<le> m" "m < 400 * (m div 400) + 400" "m div 100 \<le> m div 4" for m :: nat
      by (simp_all add: div_le_mono2)
    have l: "146097 * m \<le> 400 * n + 699" if "m * 365 + a - b + c \<le> n" "m < 4 * a + 4" "100 * b \<le> m"
        "m < 400 * c + 400" "b \<le> a" for m a b c :: nat
      using that by linarith
    have r: "400 * n < 146097 * m" if "n < m * 365 + a - b + c" "4 * a \<le> m" "m < 100 * b + 100"
        "400 * c \<le> m" "b \<le> a" for m a b c :: nat
      using that by linarith
    have "146097 * p \<le> 400 * n + 699" by (rule l[OF lo]) (rule q)+
    moreover have "400 * n < 146097 * (p + 1)" by (rule r[OF hi]) (rule q)+
    ultimately have "146097 * k < 146097 * (p + 1)" "146097 * p < 146097 * (k + 1) + 699"
      using k by linarith+
    note b = this
    have "k \<le> p" using b(1) by simp
    moreover have "p \<le> k + 1"
    proof (rule ccontr)
      assume "\<not> p \<le> k + 1"
      then have "146097 * (k + 2) \<le> 146097 * p" by (intro mult_le_mono2) simp
      then show False using b(2) by simp
    qed
    ultimately show "e \<le> y + 1" "y \<le> e + 1" by (simp_all add: e_def k_def y)
  qed
  have s: "z \<le> y" if "1 \<le> z" "days_before_year z \<le> n" for z
  proof (rule ccontr)
    assume "\<not> z \<le> y"
    then have "days_before_year (Suc y) \<le> days_before_year z" by (intro days_before_year_mono) auto
    then show False using that assms(3) by linarith
  qed
  have t: "\<And>z. 1 \<le> z \<Longrightarrow> z \<le> y \<Longrightarrow> days_before_year z \<le> n"
    using assms(2) days_before_year_mono le_trans by blast
  have fy: "find_year n = (if days_before_year (e + 1) \<le> n then e + 1
      else if days_before_year e \<le> n then e else e - 1)"
    by (simp only: find_year_def e_def Let_def)
  have "e \<ge> 1" by (simp add: e_def)
  consider "y = e + 1" | "y = e" | "y = e - 1" "e > 1" using a assms(1) by linarith
  then show ?thesis
  proof cases
    case 1
    then show ?thesis using assms(2) by (simp add: fy)
  next
    case 2
    then have "\<not> days_before_year (e + 1) \<le> n" using s[of "e + 1"] by auto
    then show ?thesis using 2 assms(2) by (simp add: fy)
  next
    case 3
    then have "\<not> days_before_year (e + 1) \<le> n" "\<not> days_before_year e \<le> n"
      using s[of "e + 1"] s[of e] by auto
    then show ?thesis using 3 by (simp add: fy)
  qed
qed

lemma month_days_pos: "28 \<le> month_days y m" "month_days y m \<le> 31"
  by (auto simp: month_days_def)

lemma find_month_step:
  "j \<le> k \<Longrightarrow> days_before_month y (m0 + j) - days_before_month y m0 + r = n \<Longrightarrow> 1 \<le> m0
     \<Longrightarrow> r < month_days y (m0 + j) \<Longrightarrow> find_month k y m0 n = (m0 + j, r)"
proof (induction j arbitrary: k m0 n)
  case 0
  then show ?case by (cases k) auto
next
  case (Suc j)
  obtain k' where k: "k = Suc k'" using Suc.prems by (cases k) auto
  have mono: "days_before_month y a \<le> days_before_month y (a + b)" for a b
    by (induction b) (auto intro: trans_le_add1)
  have m: "days_before_month y (Suc m0) = days_before_month y m0 + month_days y m0"
    using Suc.prems by simp
  have le: "days_before_month y (Suc m0) \<le> days_before_month y (Suc m0 + j)" by (rule mono)
  then have n: "n = month_days y m0 + (days_before_month y (Suc m0 + j) - days_before_month y (Suc m0) + r)"
    using Suc.prems m by simp
  have "find_month k' y (Suc m0) (n - month_days y m0) = (Suc m0 + j, r)"
    using Suc.prems k n by (intro Suc.IH) auto
  then show ?case using n k by simp
qed

lemma days_before_month_le: "valid_ymd y m d \<Longrightarrow> days_before_month y m + d \<le> year_days y"
proof -
  assume v: "valid_ymd y m d"
  then have d: "d \<le> month_days y m" by (simp add: valid_ymd_def)
  have "1 \<le> m" "m \<le> 12" using v by (auto simp: valid_ymd_def)
  then have "m \<in> {1, 2, 3, 4, 5, 6, 7, 8, 9, 10, 11, 12}" unfolding insert_iff empty_iff by presburger
  then have "days_before_month y m + month_days y m \<le> year_days y"
    by (elim insertE emptyE) (simp_all add: eval_nat_numeral month_days_def year_days_def)
  then show ?thesis using d by simp
qed

lemma days_ymd_days:
  assumes "valid_ymd y m d"
  shows "days_ymd (ymd_days y m d) = (y, m, d)"
proof -
  have v: "1 \<le> y" "1 \<le> m" "m \<le> 12" "1 \<le> d" "d \<le> month_days y m" using assms by (auto simp: valid_ymd_def)
  let ?n = "ymd_days y m d"
  have n: "?n = days_before_year y + (days_before_month y m + (d - 1))"
    by (simp add: ymd_days_def)
  have "days_before_month y m + (d - 1) < year_days y"
    using days_before_month_le[OF assms] v by linarith
  then have "?n < days_before_year (Suc y)" unfolding n days_before_year_Suc[OF v(1)] by linarith
  then have y: "find_year ?n = y" using v n by (intro find_year) auto
  have "find_month 11 y 1 (days_before_month y m + (d - 1)) = (1 + (m - 1), d - 1)"
    by (rule find_month_step) (use v in auto)
  then show ?thesis
    unfolding days_ymd_def y Let_def using n v by (simp)
qed

lemma ymd_days_lt: "valid_ymd y m d \<Longrightarrow> ymd_days y m d < 3652059"
proof -
  assume a: "valid_ymd y m d"
  then have "1 \<le> y" "y \<le> 9999" "1 \<le> d" by (auto simp: valid_ymd_def)
  then have "days_before_year (Suc y) \<le> days_before_year 10000"
    by (intro days_before_year_mono) auto
  also have "\<dots> = 3652059" by (simp add: Let_def days_before_year.simps)
  finally show ?thesis
    using days_before_month_le[OF a] \<open>1 \<le> d\<close> days_before_year_Suc[OF \<open>1 \<le> y\<close>]
    unfolding ymd_days_def by linarith
qed

section \<open>The text of a timestamp\<close>

text \<open>\<open>strftime("%Y-%m-%dT%H:%M:%S.%fZ")\<close> and the fields of a wall-clock reading. The year is
  written with four digits, as on the platform the program runs on.\<close>

definition dt_fields :: "nat \<Rightarrow> (nat \<times> nat \<times> nat) \<times> nat \<times> nat \<times> nat \<times> nat" where
  "dt_fields t = (let s = t div 1000000; r = s mod 86400 in
     (days_ymd (s div 86400), r div 3600, r div 60 mod 60, r mod 60, t mod 1000000))"

definition of_fields :: "nat \<Rightarrow> nat \<Rightarrow> nat \<Rightarrow> nat \<Rightarrow> nat \<Rightarrow> nat \<Rightarrow> nat \<Rightarrow> nat" where
  "of_fields y m d h mi s f = ((ymd_days y m d * 24 + h) * 60 + mi) * 60 * 1000000 + s * 1000000 + f"

definition stamp_text :: "int \<Rightarrow> ustr" where
  "stamp_text t = (case dt_fields (nat t) of ((y, m, d), h, mi, s, f) \<Rightarrow>
     str_pad 4 y @ [45] @ str_pad 2 m @ [45] @ str_pad 2 d @ [84] @ str_pad 2 h @ [58] @
     str_pad 2 mi @ [58] @ str_pad 2 s @ [46] @ str_pad 6 f @ [90])"

text \<open>\<open>strptime\<close> of this format on a text of its full width, in ASCII digits: the callers
  check the width and the digits with a regular expression or compare the result with the text.\<close>

definition stamp_shape :: "ustr \<Rightarrow> bool" where
  "stamp_shape s \<longleftrightarrow> length s = 27 \<and> s ! 4 = 45 \<and> s ! 7 = 45 \<and> s ! 10 = 84 \<and> s ! 13 = 58 \<and> s ! 16 = 58
     \<and> s ! 19 = 46 \<and> s ! 26 = 90
     \<and> list_all is_digit (take 4 s @ take 2 (drop 5 s) @ take 2 (drop 8 s) @ take 2 (drop 11 s) @
          take 2 (drop 14 s) @ take 2 (drop 17 s) @ take 6 (drop 20 s))"

definition stamp_parse :: "ustr \<Rightarrow> py_exn + int" where
  "stamp_parse s =
     (let fld = (\<lambda>i k. digits_val (take k (drop i s)));
          y = fld 0 4; m = fld 5 2; d = fld 8 2; h = fld 11 2; mi = fld 14 2; sec = fld 17 2; f = fld 20 6 in
      if stamp_shape s \<and> valid_ymd y m d \<and> h < 24 \<and> mi < 60 \<and> sec < 60
      then Inr (int (of_fields y m d h mi sec f))
      else Inl (ValueError ''time data does not match format''))"

lemma fields_of_fields:
  assumes "valid_ymd y m d" "h < 24" "mi < 60" "s < 60" "f < 1000000"
  shows "dt_fields (of_fields y m d h mi s f) = ((y, m, d), h, mi, s, f)"
proof -
  let ?t = "of_fields y m d h mi s f"
  have dm: "(x * k + f) div k = x" "(x * k + f) mod k = f" if "f < k" for x k f :: nat
    using that by simp_all
  have t: "?t = (((ymd_days y m d * 24 + h) * 60 + mi) * 60 + s) * 1000000 + f"
    by (simp add: of_fields_def algebra_simps)
  have s: "?t div 1000000 = (ymd_days y m d * 24 + h) * 60 * 60 + mi * 60 + s" "?t mod 1000000 = f"
    using dm[OF assms(5), of "((ymd_days y m d * 24 + h) * 60 + mi) * 60 + s"]
    unfolding t by (simp_all add: algebra_simps)
  have r: "h * 3600 + mi * 60 + s < 86400" using assms by linarith
  have e: "(ymd_days y m d * 24 + h) * 60 * 60 + mi * 60 + s = ymd_days y m d * 86400 + (h * 3600 + mi * 60 + s)"
    by (simp add: algebra_simps)
  have d: "?t div 1000000 div 86400 = ymd_days y m d" "?t div 1000000 mod 86400 = h * 3600 + mi * 60 + s"
    unfolding s(1) e using r by simp_all
  have m60: "mi * 60 + s < 3600" using assms by linarith
  have "h * 3600 + mi * 60 + s = 3600 * h + (mi * 60 + s)" by simp
  then have h: "(h * 3600 + mi * 60 + s) div 3600 = h" using m60 by simp
  have "h * 3600 + mi * 60 + s = (h * 60 + mi) * 60 + s" by simp
  then have k: "(h * 3600 + mi * 60 + s) div 60 = h * 60 + mi" "(h * 3600 + mi * 60 + s) mod 60 = s"
    using dm[OF assms(4), of "h * 60 + mi"] by metis+
  show ?thesis
    unfolding dt_fields_def Let_def d s(2) h k days_ymd_days[OF assms(1)] using assms(3) by simp
qed

lemma take_all_digits: "k \<le> n \<Longrightarrow> list_all is_digit (str_pad k m)"
  by (simp add: list_all_iff str_pad_digits)

lemma stamp_parse_fields:
  assumes "valid_ymd y m d" "h < 24" "mi < 60" "s < 60" "f < 1000000"
  shows "stamp_parse (str_pad 4 y @ [45] @ str_pad 2 m @ [45] @ str_pad 2 d @ [84] @ str_pad 2 h @ [58] @
     str_pad 2 mi @ [58] @ str_pad 2 s @ [46] @ str_pad 6 f @ [90]) = Inr (int (of_fields y m d h mi s f))"
proof -
  have v: "y mod 10 ^ 4 = y" "m mod 10 ^ 2 = m" "d mod 10 ^ 2 = d"
    using assms month_days_pos(2)[of y m] by (auto simp: valid_ymd_def)
  then have "y mod 10000 = y" "m mod 100 = m" "d mod 100 = d" by simp_all
  moreover have "list_all is_digit (str_pad k n)" for k n by (simp add: list_all_iff str_pad_digits)
  ultimately show ?thesis
    using assms
    by (simp add: stamp_parse_def stamp_shape_def nth_append Let_def)
qed

text \<open>Every day number in range is the day of a valid date, so every reading in range is written
  in the format and read back.\<close>

lemma find_month_valid:
  "1 \<le> m0 \<Longrightarrow> m0 + k = 12 \<Longrightarrow> n < days_before_month y 12 + 31 - days_before_month y m0 \<Longrightarrow>
   \<exists>m r. find_month k y m0 n = (m, r) \<and> m0 \<le> m \<and> m \<le> 12 \<and> r < month_days y m
     \<and> days_before_month y m + r = days_before_month y m0 + n"
proof (induction k arbitrary: m0 n)
  case 0
  then show ?case by (simp add: month_days_def)
next
  case (Suc k)
  show ?case
  proof (cases "n < month_days y m0")
    case True
    then show ?thesis using Suc.prems by simp
  next
    case False
    have m: "days_before_month y (m0 + 1) = days_before_month y m0 + month_days y m0"
      using Suc.prems by simp
    have "\<exists>m r. find_month k y (m0 + 1) (n - month_days y m0) = (m, r) \<and> m0 + 1 \<le> m \<and> m \<le> 12
        \<and> r < month_days y m \<and> days_before_month y m + r = days_before_month y (m0 + 1) + (n - month_days y m0)"
      using Suc.prems m False by (intro Suc.IH) auto
    then show ?thesis using m False by auto
  qed
qed

lemma year_exists:
  "\<exists>y. 1 \<le> y \<and> days_before_year y \<le> n \<and> n < days_before_year (Suc y)"
proof (induction n)
  case 0
  show ?case by (rule exI[of _ 1]) (simp add: days_before_year.simps)
next
  case (Suc n)
  then obtain y where y: "1 \<le> y" "days_before_year y \<le> n" "n < days_before_year (Suc y)" by blast
  show ?case
  proof (cases "Suc n < days_before_year (Suc y)")
    case True
    then show ?thesis using y by (intro exI[of _ y]) auto
  next
    case False
    then have e: "Suc n = days_before_year (Suc y)" using y by simp
    have "days_before_year (Suc y) < days_before_year (Suc (Suc y))"
      using days_before_year_Suc[of "Suc y"] by (simp add: year_days_def)
    then show ?thesis using e by (intro exI[of _ "Suc y"]) auto
  qed
qed

lemma days_ymd_valid:
  assumes "n < 3652059"
  shows "\<exists>y m d. days_ymd n = (y, m, d) \<and> valid_ymd y m d \<and> ymd_days y m d = n"
proof -
  obtain y where y: "1 \<le> y" "days_before_year y \<le> n" "n < days_before_year (Suc y)"
    using year_exists by blast
  have y2: "y \<le> 9999"
  proof (rule ccontr)
    assume "\<not> y \<le> 9999"
    then have "days_before_year 10000 \<le> days_before_year y" by (intro days_before_year_mono) auto
    moreover have "days_before_year 10000 = 3652059" by (simp add: Let_def days_before_year.simps)
    ultimately show False using y assms by linarith
  qed
  define r where "r = n - days_before_year y"
  have r: "r < year_days y" using y unfolding r_def days_before_year_Suc[OF y(1)] by linarith
  have t: "days_before_month y 12 + 31 - days_before_month y 1 = year_days y"
    by (simp add: eval_nat_numeral month_days_def year_days_def)
  obtain m d where m: "find_month 11 y 1 r = (m, d)" "1 \<le> m" "m \<le> 12" "d < month_days y m"
      "days_before_month y m + d = days_before_month y 1 + r"
    using find_month_valid[of 1 11 r y] r t by auto
  have "valid_ymd y m (d + 1)" using y y2 m by (simp add: valid_ymd_def)
  moreover have "ymd_days y m (d + 1) = n" using m(5) y by (simp add: ymd_days_def r_def)
  moreover have "days_ymd n = (y, m, d + 1)"
    unfolding days_ymd_def find_year[OF y] Let_def using m(1) by (simp add: r_def)
  ultimately show ?thesis by blast
qed

lemma dt_fields_valid:
  assumes "t < 3652059 * 86400000000"
  obtains y m d h mi s f where "dt_fields t = ((y, m, d), h, mi, s, f)" "valid_ymd y m d"
    "h < 24" "mi < 60" "s < 60" "f < 1000000" "of_fields y m d h mi s f = t"
proof -
  define a where "a = t div 1000000"
  define n where "n = a div 86400"
  define r where "r = a mod 86400"
  have t: "t = a * 1000000 + t mod 1000000" by (simp add: a_def)
  have a: "a = n * 86400 + r" by (simp add: n_def r_def)
  have "a < 3652059 * 86400" using assms t by linarith
  then have n: "n < 3652059" by (simp add: n_def div_less_iff_less_mult)
  obtain y m d where d: "days_ymd n = (y, m, d)" "valid_ymd y m d" "ymd_days y m d = n"
    using days_ymd_valid[OF n] by blast
  have r: "r < 86400" by (simp add: r_def)
  have x: "r = r div 60 * 60 + r mod 60" by simp
  have x': "r div 60 = r div 3600 * 60 + r div 60 mod 60"
    using div_mult2_eq[of r 60 60] by simp
  show ?thesis
  proof (rule that[of y m d "r div 3600" "r div 60 mod 60" "r mod 60" "t mod 1000000"])
    show "dt_fields t = ((y, m, d), r div 3600, r div 60 mod 60, r mod 60, t mod 1000000)"
      by (simp add: dt_fields_def Let_def a_def[symmetric] n_def[symmetric] r_def[symmetric] d(1))
    show "r div 3600 < 24" using r by (simp add: div_less_iff_less_mult)
    have "of_fields y m d (r div 3600) (r div 60 mod 60) (r mod 60) (t mod 1000000)
        = ((n * 24 + r div 3600) * 60 + r div 60 mod 60) * 60000000 + r mod 60 * 1000000 + t mod 1000000"
      by (simp add: of_fields_def d(3))
    also have "\<dots> = t"
    proof -
      have g: "((n * 24 + h) * 60 + mi) * 60000000 + s * 1000000 + f = t"
        if "t = a * 1000000 + f" "a = n * 86400 + r" "r = q * 60 + s" "q = h * 60 + mi" for t a n h mi s f r q :: nat
        unfolding that by simp
      show ?thesis by (rule g[OF t a x x'])
    qed
    finally show "of_fields y m d (r div 3600) (r div 60 mod 60) (r mod 60) (t mod 1000000) = t" .
  qed (use d in simp_all)
qed

lemma stamp_parse_text: "in_range t \<Longrightarrow> stamp_parse (stamp_text t) = Inr t"
proof -
  assume "in_range t"
  then have t: "0 \<le> t" "nat t < 3652059 * 86400000000" by (auto simp: in_range_def max_us_def)
  obtain y m d h mi s f where e: "dt_fields (nat t) = ((y, m, d), h, mi, s, f)" "valid_ymd y m d"
    "h < 24" "mi < 60" "s < 60" "f < 1000000" "of_fields y m d h mi s f = nat t"
    by (rule dt_fields_valid[OF t(2)])
  show ?thesis using stamp_parse_fields[OF e(2-6)] e(1,7) t by (simp add: stamp_text_def)
qed

lemma length_stamp_text [simp]: "length (stamp_text t) = 27"
  by (simp add: stamp_text_def split: prod.split)

lemma stamp_text_ascii: "c \<in> set (stamp_text t) \<Longrightarrow> c < 128 \<and> 45 \<le> c"
  by (auto simp: stamp_text_def is_digit_def split: prod.splits dest!: str_pad_digits)

lemma stamp_text_inj: "in_range t \<Longrightarrow> in_range t' \<Longrightarrow> stamp_text t = stamp_text t' \<Longrightarrow> t = t'"
  by (metis stamp_parse_text sum.inject(2))

lemma of_fields_range:
  assumes "valid_ymd y m d" "h < 24" "mi < 60" "s < 60" "f < 1000000"
  shows "in_range (int (of_fields y m d h mi s f))"
proof -
  have g: "((n * 24 + h) * 60 + mi) * 60 * 1000000 + s * 1000000 + f < 3652059 * 86400000000"
    if "n < 3652059" "h < 24" "mi < 60" "s < 60" "f < 1000000" for n :: nat
  proof -
    have "n + 1 \<le> 3652059" using that by simp
    then have "(n + 1) * 86400000000 \<le> 3652059 * 86400000000" by (rule mult_le_mono1)
    moreover have "h * 3600000000 + mi * 60000000 + s * 1000000 + f < 86400000000" using that by linarith
    ultimately show ?thesis by simp
  qed
  have "of_fields y m d h mi s f < 3652059 * 86400000000"
    unfolding of_fields_def by (rule g[OF ymd_days_lt[OF assms(1)] assms(2-)])
  then show ?thesis by (simp add: in_range_def max_us_def)
qed

lemma stamp_parse_range: "stamp_parse s = Inr t \<Longrightarrow> in_range t"
proof -
  assume a: "stamp_parse s = Inr t"
  have "list_all is_digit (take 6 (drop 20 s))" "length (take 6 (drop 20 s)) = 6"
    using a by (auto simp: stamp_parse_def stamp_shape_def Let_def split: if_splits)
  then have "digits_val (take 6 (drop 20 s)) < 10 ^ 6"
    using digits_val_lt[of "take 6 (drop 20 s)"] by (simp add: list_all_iff)
  then show ?thesis
    using a by (auto simp: stamp_parse_def Let_def split: if_splits intro!: of_fields_range)
qed

section \<open>Evaluation\<close>

lemma find_month_run [run]:
  "find_month (numeral k) y m n =
     (if n < month_days y m then (m, n) else find_month (pred_numeral k) y (m + 1) (n - month_days y m))"
  unfolding numeral_eq_Suc[of k] by simp

lemma days_before_month_run [run]:
  "days_before_month y (numeral k) =
     days_before_month y (pred_numeral k) + (if pred_numeral k = 0 then 0 else month_days y (pred_numeral k))"
  unfolding numeral_eq_Suc[of k] by simp

lemmas [run] = aware_def utc_us_def max_us_def in_range_def utc_of_def to_utc_def dt_le_def leap_def month_days_def
  days_before_year.simps ymd_days_def find_year_def days_ymd_def dt_fields_def of_fields_def stamp_text_def valid_ymd_def
  stamp_shape_def stamp_parse_def

end
