(* ===== verification/Utf8.thy ===== *)
theory Utf8
  imports Prelude
begin

text \<open>
  \<open>str.encode("utf-8")\<close> and \<open>bytes.decode("utf-8")\<close> in Python's strict mode: encoding fails
  on a surrogate, decoding fails on overlong forms, surrogates, stray continuation bytes and
  values past U+10FFFF.
\<close>

section \<open>Encoding\<close>

definition utf8_char :: "nat \<Rightarrow> bytes" where
  "utf8_char c =
     (if c < 128 then [c]
      else if c < 2048 then [192 + c div 64, 128 + c mod 64]
      else if c < 65536 then [224 + c div 4096, 128 + c div 64 mod 64, 128 + c mod 64]
      else [240 + c div 262144, 128 + c div 4096 mod 64, 128 + c div 64 mod 64, 128 + c mod 64])"

definition encodable :: "nat \<Rightarrow> bool" where
  "encodable c \<longleftrightarrow> c < 1114112 \<and> \<not> surrogate c"

definition utf8 :: "ustr \<Rightarrow> bytes" where
  "utf8 s = concat (map utf8_char s)"

definition utf8_encode :: "ustr \<Rightarrow> py_exn + bytes" where
  "utf8_encode s = (if list_all encodable s then Inr (utf8 s) else Inl UnicodeError)"

section \<open>Decoding\<close>

definition cont_byte :: "nat \<Rightarrow> bool" where
  "cont_byte b \<longleftrightarrow> 128 \<le> b \<and> b < 192"

fun utf8_decode :: "bytes \<Rightarrow> py_exn + ustr" where
  "utf8_decode [] = Inr []"
| "utf8_decode (b # r) =
     (if b < 128 then rbind (utf8_decode r) (\<lambda>s. Inr (b # s))
      else if b < 192 then Inl UnicodeError
      else if b < 224 then
        (case r of
           b1 # r1 \<Rightarrow>
             let c = (b - 192) * 64 + (b1 - 128) in
             if cont_byte b1 \<and> 128 \<le> c then rbind (utf8_decode r1) (\<lambda>s. Inr (c # s))
             else Inl UnicodeError
         | _ \<Rightarrow> Inl UnicodeError)
      else if b < 240 then
        (case r of
           b1 # b2 # r2 \<Rightarrow>
             let c = (b - 224) * 4096 + (b1 - 128) * 64 + (b2 - 128) in
             if cont_byte b1 \<and> cont_byte b2 \<and> 2048 \<le> c \<and> \<not> surrogate c
             then rbind (utf8_decode r2) (\<lambda>s. Inr (c # s))
             else Inl UnicodeError
         | _ \<Rightarrow> Inl UnicodeError)
      else
        (case r of
           b1 # b2 # b3 # r3 \<Rightarrow>
             let c = (b - 240) * 262144 + (b1 - 128) * 4096 + (b2 - 128) * 64 + (b3 - 128) in
             if cont_byte b1 \<and> cont_byte b2 \<and> cont_byte b3 \<and> 65536 \<le> c \<and> c < 1114112
             then rbind (utf8_decode r3) (\<lambda>s. Inr (c # s))
             else Inl UnicodeError
         | _ \<Rightarrow> Inl UnicodeError))"

section \<open>Facts\<close>

lemma utf8_simps [simp]: "utf8 [] = []" "utf8 (c # s) = utf8_char c @ utf8 s"
  "utf8 (s @ t) = utf8 s @ utf8 t"
  by (simp_all add: utf8_def)

lemma utf8_char_bytes: "c < 1114112 \<Longrightarrow> b \<in> set (utf8_char c) \<Longrightarrow> b < 256"
  by (auto simp: utf8_char_def split: if_splits)

lemma utf8_bytes: "list_all encodable s \<Longrightarrow> b \<in> set (utf8 s) \<Longrightarrow> b < 256"
  by (induction s) (auto simp: encodable_def dest: utf8_char_bytes)

lemma utf8_char_length: "1 \<le> length (utf8_char c)" "length (utf8_char c) \<le> 4"
  by (auto simp: utf8_char_def)

lemma utf8_length_le: "length s \<le> length (utf8 s)"
proof (induction s)
  case (Cons a s)
  then show ?case using utf8_char_length(1)[of a] by simp
qed simp

lemma utf8_length_upper: "length (utf8 s) \<le> 4 * length s"
proof (induction s)
  case (Cons a s)
  then show ?case using utf8_char_length(2)[of a] by simp
qed simp

lemma utf8_ascii: "\<forall>c \<in> set s. c < 128 \<Longrightarrow> utf8 s = s"
  by (induction s) (auto simp: utf8_char_def)

lemma utf8_char_eq_Nil [simp]: "utf8_char c \<noteq> []"
  by (auto simp: utf8_char_def)

lemma decode_char:
  assumes "encodable c"
  shows "utf8_decode (utf8_char c @ r) = rbind (utf8_decode r) (\<lambda>s. Inr (c # s))"
proof -
  have a: "c = 64 * (c div 64) + c mod 64"
    and b: "c div 64 = 64 * (c div 4096) + c div 64 mod 64"
    and d: "c div 4096 = 64 * (c div 262144) + c div 4096 mod 64"
    using div_mult2_eq[of c 64 64] div_mult2_eq[of c 4096 64]
    by (simp_all add: mult_div_mod_eq)
  have 3: "c div 4096 * 4096 + c div 64 mod 64 * 64 + c mod 64 = c"
    using a b by linarith
  have 4: "c div 262144 * 262144 + c div 4096 mod 64 * 4096 + c div 64 mod 64 * 64 + c mod 64 = c"
    using a b d by linarith
  consider "c < 128" | "128 \<le> c" "c < 2048" | "2048 \<le> c" "c < 65536" | "65536 \<le> c" by linarith
  then show ?thesis
  proof cases
    case 1 then show ?thesis by (simp add: utf8_char_def)
  next
    case 2
    then have "c div 64 < 32" by simp
    with 2 show ?thesis
      by (simp add: utf8_char_def cont_byte_def Let_def)
  next
    case 3
    then have "c div 4096 < 16" by simp
    with 3 assms \<open>c div 4096 * 4096 + c div 64 mod 64 * 64 + c mod 64 = c\<close> show ?thesis
      by (simp add: utf8_char_def cont_byte_def encodable_def Let_def)
  next
    case 4
    then have "c div 262144 < 8" using assms by (simp add: encodable_def div_less_iff_less_mult)
    with 4 assms \<open>c div 262144 * 262144 + c div 4096 mod 64 * 4096 + c div 64 mod 64 * 64 + c mod 64 = c\<close>
    show ?thesis
      by (simp add: utf8_char_def cont_byte_def encodable_def Let_def)
  qed
qed

lemma utf8_decode_encode: "list_all encodable s \<Longrightarrow> utf8_decode (utf8 s) = Inr s"
  by (induction s) (simp_all add: decode_char)

lemma utf8_encode_decode: "utf8_encode s = Inr b \<Longrightarrow> utf8_decode b = Inr s"
  by (auto simp: utf8_encode_def utf8_decode_encode split: if_splits)

lemma utf8_inj: "list_all encodable s \<Longrightarrow> list_all encodable t \<Longrightarrow> utf8 s = utf8 t \<Longrightarrow> s = t"
  by (metis utf8_decode_encode sum.inject(2))

lemma encodable_u [simp]: "list_all encodable (u s)"
  by (auto simp: list_all_iff encodable_def surrogate_def dest: set_u_lt)

lemmas [run] = utf8_char_def encodable_def utf8_encode_def cont_byte_def

end
