(* ===== verification/Json.thy ===== *)
theory Json
  imports PyNum Utf8
begin

text \<open>
  \<open>json.dumps\<close> and \<open>json.loads\<close> on the JSON values of Python. Objects are association lists in
  insertion order, as Python dicts are.

  The reader \<open>loads\<close> takes the two hooks the sources pass: \<open>object_pairs_hook\<close> (called when an
  object closes) and \<open>parse_constant\<close> (called on \<open>NaN\<close>, \<open>Infinity\<close> and \<open>-Infinity\<close>). Its
  recursion is bounded by fuel, one unit per nested call, and \<open>loads\<close> gives it two units per
  character of the text: \<open>loads_dumps\<close> shows that this is enough for every text the writer
  produces, \<open>loads_fuel\<close> that it is enough for every text. Python's recursion limit is added by
  \<open>JsonDepth\<close>.
\<close>

section \<open>Values\<close>

datatype json =
    JNull
  | JBool bool
  | JInt int
  | JFloat pyfloat
  | JStr ustr
  | JList "json list"
  | JObj "(ustr \<times> json) list"

type_synonym jobj = "(ustr \<times> json) list"

section \<open>Writing\<close>

definition hex_digit :: "nat \<Rightarrow> nat" where
  "hex_digit d = (if d < 10 then 48 + d else 87 + d)"

definition hex4 :: "nat \<Rightarrow> ustr" where
  "hex4 c = [hex_digit (c div 4096 mod 16), hex_digit (c div 256 mod 16),
             hex_digit (c div 16 mod 16), hex_digit (c mod 16)]"

definition esc_u :: "nat \<Rightarrow> ustr" where
  "esc_u c = 92 # 117 # hex4 c"

definition esc_char :: "bool \<Rightarrow> nat \<Rightarrow> ustr" where
  "esc_char ascii c =
     (if c = 34 then [92, 34] else if c = 92 then [92, 92]
      else if c = 10 then [92, 110] else if c = 13 then [92, 114] else if c = 9 then [92, 116]
      else if c = 12 then [92, 102] else if c = 8 then [92, 98]
      else if c < 32 then esc_u c
      else if \<not> ascii \<or> c < 127 then [c]
      else if c < 65536 then esc_u c
      else esc_u (55296 + (c - 65536) div 1024) @ esc_u (56320 + (c - 65536) mod 1024))"

definition jstr_text :: "bool \<Rightarrow> ustr \<Rightarrow> ustr" where
  "jstr_text ascii s = 34 # concat (map (esc_char ascii) s) @ [34]"

text \<open>\<open>float.__repr__\<close>, with the names JSON uses for what is not a number.\<close>

definition float_text :: "pyfloat \<Rightarrow> ustr" where
  "float_text f = (case f of FNaN \<Rightarrow> u ''NaN'' | FInf s \<Rightarrow> (if s then u ''-Infinity'' else u ''Infinity'')
     | _ \<Rightarrow> float_repr f)"

text \<open>The writer's options: \<open>ensure_ascii\<close>, the separators and \<open>sort_keys\<close>.\<close>

record dumps_opts =
  ensure_ascii :: bool
  item_sep :: ustr
  key_sep :: ustr
  sort_keys :: bool

fun json_text :: "dumps_opts \<Rightarrow> json \<Rightarrow> ustr" where
  "json_text op JNull = u ''null''"
| "json_text op (JBool b) = (if b then u ''true'' else u ''false'')"
| "json_text op (JInt i) = str_int i"
| "json_text op (JFloat f) = float_text f"
| "json_text op (JStr s) = jstr_text (ensure_ascii op) s"
| "json_text op (JList xs) = 91 # py_join (item_sep op) (map (json_text op) xs) @ [93]"
| "json_text op (JObj d) =
     123 # py_join (item_sep op)
             (map (\<lambda>(k, t). jstr_text (ensure_ascii op) k @ key_sep op @ t)
                (let m = map (\<lambda>(k, v). (k, json_text op v)) d in
                 if sort_keys op then sort_key fst m else m)) @ [125]"

text \<open>\<open>allow_nan=False\<close> raises \<open>ValueError\<close> on a value that holds a float that is not finite,
  and the text of an integer of more than 4300 digits raises \<open>ValueError\<close> too.\<close>

definition int_ok :: "int \<Rightarrow> bool" where
  "int_ok i \<longleftrightarrow> length (str_nat (nat \<bar>i\<bar>)) \<le> 4300"

fun json_writable :: "json \<Rightarrow> bool" where
  "json_writable (JFloat f) = float_finite f"
| "json_writable (JInt i) = int_ok i"
| "json_writable (JList xs) = list_all json_writable xs"
| "json_writable (JObj d) = list_all (\<lambda>(k, v). json_writable v) d"
| "json_writable _ = True"

definition dumps_strict :: "dumps_opts \<Rightarrow> json \<Rightarrow> py_exn + ustr" where
  "dumps_strict op v =
     (if json_writable v then Inr (json_text op v)
      else Inl (ValueError ''Out of range float values are not JSON compliant''))"

text \<open>The options of the program: \<open>separators=(",", ":")\<close> with \<open>ensure_ascii\<close> off or on.\<close>

definition compact :: "bool \<Rightarrow> dumps_opts" where
  "compact ascii = \<lparr>ensure_ascii = ascii, item_sep = [44], key_sep = [58], sort_keys = False\<rparr>"

section \<open>Reading\<close>

record json_hooks =
  pairs_hook :: "jobj \<Rightarrow> py_exn + json"
  const_hook :: "ustr \<Rightarrow> py_exn + json"

definition json_ws :: "nat \<Rightarrow> bool" where
  "json_ws c \<longleftrightarrow> c = 32 \<or> c = 9 \<or> c = 10 \<or> c = 13"

definition skip_ws :: "ustr \<Rightarrow> ustr" where
  "skip_ws s = dropWhile json_ws s"

definition hex_val :: "nat \<Rightarrow> nat option" where
  "hex_val c = (if 48 \<le> c \<and> c \<le> 57 then Some (c - 48)
     else if 97 \<le> c \<and> c \<le> 102 then Some (c - 87)
     else if 65 \<le> c \<and> c \<le> 70 then Some (c - 55) else None)"

definition hex4_val :: "nat \<Rightarrow> nat \<Rightarrow> nat \<Rightarrow> nat \<Rightarrow> nat option" where
  "hex4_val a b c d = (case (hex_val a, hex_val b, hex_val c, hex_val d) of
     (Some w, Some x, Some y, Some z) \<Rightarrow> Some (w * 4096 + x * 256 + y * 16 + z) | _ \<Rightarrow> None)"

definition simple_escape :: "nat \<Rightarrow> nat option" where
  "simple_escape c = (if c = 34 then Some 34 else if c = 92 then Some 92 else if c = 47 then Some 47
     else if c = 98 then Some 8 else if c = 102 then Some 12 else if c = 110 then Some 10
     else if c = 114 then Some 13 else if c = 116 then Some 9 else None)"

text \<open>\<open>scanstring\<close> (strict), after the opening quote. A high surrogate escape joins a low one that
  follows it.\<close>

text \<open>One element of the string: its code point and what is left, or nothing at the closing
  quote.\<close>

definition scan_u :: "ustr \<Rightarrow> py_exn + nat \<times> ustr" where
  "scan_u s = (case s of
     a # b # c # d # r \<Rightarrow>
       (case hex4_val a b c d of
          None \<Rightarrow> Inl JSONDecodeError
        | Some x \<Rightarrow>
            if 55296 \<le> x \<and> x \<le> 56319 then
              (case r of
                 p # q # a' # b' # c' # d' # r' \<Rightarrow>
                   if p = 92 \<and> q = 117 then
                     (case hex4_val a' b' c' d' of
                        None \<Rightarrow> Inl JSONDecodeError
                      | Some y \<Rightarrow>
                          if 56320 \<le> y \<and> y \<le> 57343
                          then Inr (65536 + (x - 55296) * 1024 + (y - 56320), r')
                          else Inr (x, r))
                   else Inr (x, r)
               | _ \<Rightarrow> Inr (x, r))
            else Inr (x, r))
   | _ \<Rightarrow> Inl JSONDecodeError)"

definition scan_char :: "nat \<Rightarrow> ustr \<Rightarrow> py_exn + nat \<times> ustr" where
  "scan_char c r =
     (if c = 92 then
        (case r of
           [] \<Rightarrow> Inl JSONDecodeError
         | e # r' \<Rightarrow>
             if e = 117 then scan_u r'
             else (case simple_escape e of None \<Rightarrow> Inl JSONDecodeError | Some x \<Rightarrow> Inr (x, r')))
      else if c < 32 then Inl JSONDecodeError
      else Inr (c, r))"

lemma scan_u_length: "scan_u s = Inr (x, r) \<Longrightarrow> length r < length s"
  by (auto simp: scan_u_def split: list.splits option.splits if_splits)

lemma scan_char_length: "scan_char c s = Inr (x, r) \<Longrightarrow> length r \<le> length s"
  by (auto simp: scan_char_def dest!: scan_u_length split: list.splits option.splits if_splits)

function scan_string :: "ustr \<Rightarrow> py_exn + ustr \<times> ustr" where
  "scan_string [] = Inl JSONDecodeError"
| "scan_string (c # r) =
     (if c = 34 then Inr ([], r)
      else case scan_char c r of
             Inl e \<Rightarrow> Inl e
           | Inr (x, r') \<Rightarrow> rbind (scan_string r') (\<lambda>(xs, t). Inr (x # xs, t)))"
  by pat_completeness auto
termination by (relation "measure length") (auto dest: scan_char_length)

text \<open>Numbers: an integer part without a leading zero, a fraction and an exponent. \<open>int()\<close> refuses
  more than 4300 digits; \<open>float()\<close> of a large number is infinite.\<close>

definition scan_exponent :: "ustr \<Rightarrow> (int \<times> ustr) option" where
  "scan_exponent s = (case s of
     c # r \<Rightarrow>
       if c = 101 \<or> c = 69 then
         (let (neg, t) = sign_of r; ds = takeWhile is_digit t in
          if ds = [] then None
          else Some (if neg then - int (digits_val ds) else int (digits_val ds), dropWhile is_digit t))
       else None
   | [] \<Rightarrow> None)"

definition scan_frac :: "ustr \<Rightarrow> (ustr \<times> ustr) option" where
  "scan_frac s = (case s of
     c # r \<Rightarrow> (let ds = takeWhile is_digit r in
               if c = 46 \<and> ds \<noteq> [] then Some (ds, dropWhile is_digit r) else None)
   | [] \<Rightarrow> None)"

definition scan_int :: "ustr \<Rightarrow> (ustr \<times> ustr) option" where
  "scan_int s = (let ds = takeWhile is_digit s in
     case ds of
       [] \<Rightarrow> None
     | d # _ \<Rightarrow> if d = 48 then Some ([48], drop 1 s) else Some (ds, dropWhile is_digit s))"

definition decimal_float :: "bool \<Rightarrow> nat \<Rightarrow> int \<Rightarrow> pyfloat" where
  "decimal_float neg c e = (case unscale10 c e of (n, d) \<Rightarrow> float_of neg n d)"

definition scan_number :: "ustr \<Rightarrow> py_exn + json \<times> ustr" where
  "scan_number s =
     (let (neg, t) = (case s of c # r \<Rightarrow> if c = 45 then (True, r) else (False, s) | [] \<Rightarrow> (False, s)) in
      case scan_int t of
        None \<Rightarrow> Inl JSONDecodeError
      | Some (ds, r) \<Rightarrow>
          let (fr, r1) = (case scan_frac r of Some (f, r') \<Rightarrow> (f, r') | None \<Rightarrow> ([], r));
              ex = scan_exponent r1 in
          if fr = [] \<and> ex = None then
            (if 4300 < length ds
             then Inl (ValueError ''Exceeds the limit (4300 digits) for integer string conversion'')
             else Inr (JInt (if neg then - int (digits_val ds) else int (digits_val ds)), r))
          else
            (let (x, r2) = (case ex of Some (x, r') \<Rightarrow> (x, r') | None \<Rightarrow> (0, r1)) in
             Inr (JFloat (decimal_float neg (digits_val (ds @ fr)) (x - int (length fr))), r2)))"

definition keyword :: "string \<Rightarrow> ustr \<Rightarrow> ustr option" where
  "keyword k s = (if py_startswith s (u k) then Some (drop (length k) s) else None)"

definition scan_atom :: "json_hooks \<Rightarrow> ustr \<Rightarrow> py_exn + json \<times> ustr" where
  "scan_atom h s = (case keyword ''null'' s of Some r \<Rightarrow> Inr (JNull, r) | None \<Rightarrow>
     (case keyword ''true'' s of Some r \<Rightarrow> Inr (JBool True, r) | None \<Rightarrow>
     (case keyword ''false'' s of Some r \<Rightarrow> Inr (JBool False, r) | None \<Rightarrow>
     (case keyword ''NaN'' s of Some r \<Rightarrow> rbind (const_hook h (u ''NaN'')) (\<lambda>v. Inr (v, r)) | None \<Rightarrow>
     (case keyword ''Infinity'' s of
        Some r \<Rightarrow> rbind (const_hook h (u ''Infinity'')) (\<lambda>v. Inr (v, r)) | None \<Rightarrow>
     (case keyword ''-Infinity'' s of
        Some r \<Rightarrow> rbind (const_hook h (u ''-Infinity'')) (\<lambda>v. Inr (v, r)) | None \<Rightarrow>
      scan_number s))))))"

definition no_fuel :: py_exn where
  "no_fuel = RuntimeError ''fuel''"

text \<open>\<open>scan_once\<close>, the array loop and the object loop. The loops start at an element, white space
  skipped.\<close>

fun scan_value :: "json_hooks \<Rightarrow> nat \<Rightarrow> ustr \<Rightarrow> py_exn + json \<times> ustr"
and scan_items :: "json_hooks \<Rightarrow> nat \<Rightarrow> ustr \<Rightarrow> py_exn + json list \<times> ustr"
and scan_pairs :: "json_hooks \<Rightarrow> nat \<Rightarrow> ustr \<Rightarrow> py_exn + jobj \<times> ustr" where
  "scan_value h 0 s = Inl no_fuel"
| "scan_value h (Suc n) s = (case s of
     [] \<Rightarrow> Inl JSONDecodeError
   | c # r \<Rightarrow>
       if c = 34 then rbind (scan_string r) (\<lambda>(t, r'). Inr (JStr t, r'))
       else if c = 123 then
         (case skip_ws r of
            d # r' \<Rightarrow>
              if d = 125 then rbind (pairs_hook h []) (\<lambda>v. Inr (v, r'))
              else rbind (scan_pairs h n (d # r')) (\<lambda>(ps, t). rbind (pairs_hook h ps) (\<lambda>v. Inr (v, t)))
          | [] \<Rightarrow> Inl JSONDecodeError)
       else if c = 91 then
         (case skip_ws r of
            d # r' \<Rightarrow>
              if d = 93 then Inr (JList [], r')
              else rbind (scan_items h n (d # r')) (\<lambda>(vs, t). Inr (JList vs, t))
          | [] \<Rightarrow> Inl JSONDecodeError)
       else scan_atom h s)"
| "scan_items h 0 s = Inl no_fuel"
| "scan_items h (Suc n) s =
     rbind (scan_value h n s) (\<lambda>(v, r). case skip_ws r of
       c # r' \<Rightarrow>
         if c = 44 then rbind (scan_items h n (skip_ws r')) (\<lambda>(vs, t). Inr (v # vs, t))
         else if c = 93 then Inr ([v], r')
         else Inl JSONDecodeError
     | [] \<Rightarrow> Inl JSONDecodeError)"
| "scan_pairs h 0 s = Inl no_fuel"
| "scan_pairs h (Suc n) s = (case s of
     c # r \<Rightarrow>
       if c \<noteq> 34 then Inl JSONDecodeError
       else rbind (scan_string r) (\<lambda>(k, r1). case skip_ws r1 of
         d # r2 \<Rightarrow>
           if d \<noteq> 58 then Inl JSONDecodeError
           else rbind (scan_value h n (skip_ws r2)) (\<lambda>(v, r3). case skip_ws r3 of
             e # r4 \<Rightarrow>
               if e = 44 then rbind (scan_pairs h n (skip_ws r4)) (\<lambda>(ps, t). Inr ((k, v) # ps, t))
               else if e = 125 then Inr ([(k, v)], r4)
               else Inl JSONDecodeError
           | [] \<Rightarrow> Inl JSONDecodeError)
       | [] \<Rightarrow> Inl JSONDecodeError)
   | [] \<Rightarrow> Inl JSONDecodeError)"

definition loads :: "json_hooks \<Rightarrow> ustr \<Rightarrow> py_exn + json" where
  "loads h s =
     (if py_startswith s [65279] then Inl JSONDecodeError
      else rbind (scan_value h (2 * length s + 2) (skip_ws s)) (\<lambda>(v, r).
        if skip_ws r = [] then Inr v else Inl JSONDecodeError))"

text \<open>The hooks: a duplicate key refused with a given exception, and a constant refused; or the
  defaults, where the last of equal keys wins.\<close>

fun unique_pairs :: "py_exn \<Rightarrow> jobj \<Rightarrow> jobj \<Rightarrow> py_exn + json" where
  "unique_pairs e acc [] = Inr (JObj acc)"
| "unique_pairs e acc ((k, v) # ps) =
     (if k \<in> fst ` set acc then Inl e else unique_pairs e (acc @ [(k, v)]) ps)"

definition strict_hooks :: "py_exn \<Rightarrow> py_exn \<Rightarrow> json_hooks" where
  "strict_hooks dup const = \<lparr>pairs_hook = unique_pairs dup [], const_hook = (\<lambda>_. Inl const)\<rparr>"

definition default_constant :: "ustr \<Rightarrow> json" where
  "default_constant s = JFloat (if s = u ''NaN'' then FNaN else FInf (s = u ''-Infinity''))"

definition default_hooks :: json_hooks where
  "default_hooks = \<lparr>pairs_hook = (\<lambda>ps. Inr (JObj (foldl (\<lambda>d (k, v). dict_put k v d) [] ps))),
     const_hook = (\<lambda>s. Inr (default_constant s))\<rparr>"

section \<open>Fuel\<close>

lemma skip_ws_length: "length (skip_ws s) \<le> length s"
  by (simp add: skip_ws_def length_dropWhile_le)

lemma scan_string_length: "scan_string s = Inr (x, r) \<Longrightarrow> length r < length s"
proof (induction s arbitrary: x r rule: scan_string.induct)
  case (2 c r0)
  then show ?case
    by (fastforce simp: result_simps split: if_splits sum.splits prod.splits dest: scan_char_length)
qed simp

lemma dropWhile_length: "length (dropWhile P s) \<le> length s"
  by (rule length_dropWhile_le)

lemma takeWhile_dropWhile_length:
  "takeWhile P s \<noteq> [] \<Longrightarrow> length (dropWhile P s) < length s"
  by (cases s) (auto simp: le_imp_less_Suc length_dropWhile_le split: if_splits)

lemma scan_int_length: "scan_int s = Some (ds, r) \<Longrightarrow> length r < length s"
  by (cases s) (auto simp: scan_int_def Let_def le_imp_less_Suc length_dropWhile_le
      split: list.splits if_splits)

lemma scan_frac_length: "scan_frac s = Some (ds, r) \<Longrightarrow> length r \<le> length s"
  by (auto simp: scan_frac_def Let_def intro: le_SucI length_dropWhile_le split: list.splits if_splits)

lemma sign_of_length: "sign_of s = (b, r) \<Longrightarrow> length r \<le> length s"
  by (auto simp: sign_of_def split: list.splits if_splits)

lemma scan_exponent_length: "scan_exponent s = Some (x, r) \<Longrightarrow> length r \<le> length s"
  by (auto simp: scan_exponent_def Let_def split: list.splits if_splits prod.splits dest!: sign_of_length
      intro: le_SucI order_trans[OF length_dropWhile_le])

lemma scan_number_length: "scan_number s = Inr (v, r) \<Longrightarrow> length r < length s"
proof -
  assume a: "scan_number s = Inr (v, r)"
  obtain neg t where nt: "(case s of c # r \<Rightarrow> if c = 45 then (True, r) else (False, s) | [] \<Rightarrow> (False, s)) = (neg, t)"
    by (meson surj_pair)
  then have t: "length t \<le> length s" by (auto split: list.splits if_splits)
  obtain ds r0 where r0: "scan_int t = Some (ds, r0)"
    using a nt by (cases "scan_int t") (auto simp: scan_number_def)
  note l = scan_int_length[OF r0]
  show ?thesis
    using a nt r0 l t
    by (auto simp: scan_number_def Let_def split: option.splits prod.splits if_splits
        dest!: scan_frac_length scan_exponent_length)
qed

lemma keyword_length: "keyword k s = Some r \<Longrightarrow> k \<noteq> [] \<Longrightarrow> length r < length s"
  by (cases s; cases k) (auto simp: keyword_def u_Cons split: if_splits)

lemma scan_atom_length: "scan_atom h s = Inr (v, r) \<Longrightarrow> length r < length s"
  by (auto simp: scan_atom_def result_simps split: option.splits dest: keyword_length scan_number_length)

lemma scan_length:
  "scan_value h n s = Inr (v, r) \<Longrightarrow> length r < length s"
  "scan_items h n s = Inr (vs, r) \<Longrightarrow> length r < length s"
  "scan_pairs h n s = Inr (ps, r) \<Longrightarrow> length r < length s"
proof (induction h n s and h n s and h n s arbitrary: v r and vs r and ps r
    rule: scan_value_scan_items_scan_pairs.induct)
  case (2 h n s)
  then obtain c q where s: "s = c # q" by (cases s) auto
  have w: "length (skip_ws q) \<le> length q" by (rule skip_ws_length)
  show ?case using 2 s w
    by (auto simp: result_simps split: if_splits list.splits
        dest: scan_string_length scan_atom_length) force+
next
  case (4 h n s)
  obtain v q where v: "scan_value h n s = Inr (v, q)" using 4(3) by (auto simp: result_simps)
  have w: "length (skip_ws q) \<le> length q" by (rule skip_ws_length)
  obtain c q' where q': "skip_ws q = c # q'" using 4(3) v by (cases "skip_ws q") auto
  have w': "length (skip_ws q') \<le> length q'" by (rule skip_ws_length)
  have lq: "length q < length s" using 4(1) v by blast
  show ?case
  proof (cases "c = 44")
    case True
    then obtain vs' where p: "scan_items h n (skip_ws q') = Inr (vs', r)"
      using 4(3) v q' by (auto simp: result_simps)
    have "length r < length (skip_ws q')" using 4(2) v q' True p by fastforce
    then show ?thesis using lq w w' q' by simp
  next
    case False
    then show ?thesis using 4(3) v q' lq w by (auto split: if_splits)
  qed
next
  case (6 h n s)
  then obtain q where s: "s = 34 # q" by (cases s) (auto split: if_splits)
  then obtain k r1 where k: "scan_string q = Inr (k, r1)" using 6 by (auto simp: result_simps)
  obtain r2 where r2: "skip_ws r1 = 58 # r2" using 6 s k by (auto split: list.splits if_splits)
  obtain v r3 where v: "scan_value h n (skip_ws r2) = Inr (v, r3)" using 6 s k r2 by (auto simp: result_simps)
  obtain e r4 where r4: "skip_ws r3 = e # r4" using 6 s k r2 v by (auto split: list.splits)
  note l = scan_string_length[OF k] skip_ws_length[of r1] skip_ws_length[of r2] skip_ws_length[of r3]
    skip_ws_length[of r4]
  have lv: "length r3 < length (skip_ws r2)" using 6(1) s k r2 v by fastforce
  show ?case
  proof (cases "e = 44")
    case True
    then obtain ps' where p: "scan_pairs h n (skip_ws r4) = Inr (ps', r)"
      using 6(3) s k r2 v r4 by (auto simp: result_simps)
    have "length r < length (skip_ws r4)" using 6(2) s k r2 v r4 True p by fastforce
    then show ?thesis using l lv s r2 r4 by simp
  next
    case False
    then show ?thesis using 6(3) s k r2 v r4 l lv by (auto split: if_splits)
  qed
qed auto

lemma scan_char_fuel: "scan_char c r \<noteq> Inl no_fuel"
  by (simp add: scan_char_def scan_u_def no_fuel_def split: list.split option.split)

lemma scan_string_fuel: "scan_string s \<noteq> Inl no_fuel"
proof (induction s rule: scan_string.induct)
  case (2 c r)
  then show ?case
    using scan_char_fuel by (auto simp: rbind_Inl_iff no_fuel_def split: if_splits sum.splits)
qed (simp add: no_fuel_def)

lemma scan_number_fuel: "scan_number s \<noteq> Inl no_fuel"
  by (auto simp: scan_number_def no_fuel_def Let_def split: option.splits prod.splits list.splits)

definition hooks_total :: "json_hooks \<Rightarrow> bool" where
  "hooks_total h \<longleftrightarrow> (\<forall>d. pairs_hook h d \<noteq> Inl no_fuel) \<and> (\<forall>c. const_hook h c \<noteq> Inl no_fuel)"

lemma scan_atom_fuel: "hooks_total h \<Longrightarrow> scan_atom h s \<noteq> Inl no_fuel"
  by (auto simp: scan_atom_def hooks_total_def scan_number_fuel result_simps split: option.splits)

lemma scan_fuel:
  "hooks_total h \<Longrightarrow> 2 * length s + 1 \<le> n \<Longrightarrow> scan_value h n s \<noteq> Inl no_fuel"
  "hooks_total h \<Longrightarrow> 2 * length s + 2 \<le> n \<Longrightarrow> scan_items h n s \<noteq> Inl no_fuel"
  "hooks_total h \<Longrightarrow> 2 * length s + 2 \<le> n \<Longrightarrow> scan_pairs h n s \<noteq> Inl no_fuel"
proof (induction h n s and h n s and h n s rule: scan_value_scan_items_scan_pairs.induct)
  case (2 h n s)
  have h: "\<And>d. pairs_hook h d \<noteq> Inl no_fuel" using 2 by (simp add: hooks_total_def)
  have j: "Inl JSONDecodeError \<noteq> (Inl no_fuel :: py_exn + json \<times> ustr)" by (simp add: no_fuel_def)
  have l: "\<And>r d r'. skip_ws r = d # r' \<Longrightarrow> Suc (length r') \<le> length r"
    using skip_ws_length by (metis length_Cons)
  show ?case
  proof (cases s)
    case Nil
    then show ?thesis using j by simp
  next
    case (Cons c r)
    consider "c = 34" | "c = 123" | "c = 91" | "c \<noteq> 34" "c \<noteq> 123" "c \<noteq> 91" by blast
    then show ?thesis
    proof cases
      case 1
      then show ?thesis using Cons by (auto simp: rbind_Inl_iff scan_string_fuel)
    next
      case c: 2
      show ?thesis
      proof (cases "skip_ws r")
        case Nil
        then show ?thesis using Cons c j by simp
      next
        case q: (Cons d r')
        have "d \<noteq> 125 \<Longrightarrow> scan_pairs h n (d # r') \<noteq> Inl no_fuel"
          using 2 Cons c q l[OF q] by simp
        then show ?thesis using Cons c q h by (auto simp: rbind_Inl_iff split: if_splits)
      qed
    next
      case c: 3
      show ?thesis
      proof (cases "skip_ws r")
        case Nil
        then show ?thesis using Cons c j by simp
      next
        case q: (Cons d r')
        have "d \<noteq> 93 \<Longrightarrow> scan_items h n (d # r') \<noteq> Inl no_fuel"
          using 2 Cons c q l[OF q] by simp
        then show ?thesis using Cons c q by (auto simp: rbind_Inl_iff split: if_splits)
      qed
    next
      case 4
      then show ?thesis using Cons 2 by (simp add: scan_atom_fuel)
    qed
  qed
next
  case (4 h n s)
  have j: "JSONDecodeError \<noteq> no_fuel" by (simp add: no_fuel_def)
  show ?case
  proof (cases "scan_value h n s")
    case (Inl e)
    then show ?thesis using 4 by auto
  next
    case (Inr p)
    obtain v q where p: "p = (v, q)" by (cases p)
    have q: "length q < length s" using Inr p by (auto dest: scan_length)
    show ?thesis
    proof (cases "skip_ws q")
      case Nil
      then show ?thesis using Inr p j by simp
    next
      case (Cons c q')
      have "Suc (length q') \<le> length q" using skip_ws_length[of q] Cons by simp
      then have "2 * length (skip_ws q') + 2 \<le> n" using q 4(4) skip_ws_length[of q'] by linarith
      then have "c = 44 \<Longrightarrow> scan_items h n (skip_ws q') \<noteq> Inl no_fuel"
        using 4(2) Inr p Cons 4(3) by fastforce
      then show ?thesis using Inr p Cons j by (auto simp: rbind_Inl_iff split: if_splits)
    qed
  qed
next
  case (6 h n s)
  have j: "JSONDecodeError \<noteq> no_fuel" by (simp add: no_fuel_def)
  show ?case
  proof (cases "\<exists>q k r1 r2. s = 34 # q \<and> scan_string q = Inr (k, r1) \<and> skip_ws r1 = 58 # r2")
    case False
    then show ?thesis using j
      by (auto simp: rbind_Inl_iff scan_string_fuel split: list.splits if_splits)
  next
    case True
    then obtain q k r1 r2 where s: "s = 34 # q" "scan_string q = Inr (k, r1)" "skip_ws r1 = 58 # r2" by blast
    have l: "Suc (length r2) \<le> length r1" using skip_ws_length[of r1] s by simp
    have l2: "length (skip_ws r2) \<le> length r2" "length r1 < length q"
      using skip_ws_length scan_string_length s by auto
    have f: "scan_value h n (skip_ws r2) \<noteq> Inl no_fuel"
      using 6(1) s l l2 6(3,4) by fastforce
    show ?thesis
    proof (cases "scan_value h n (skip_ws r2)")
      case (Inl e)
      then show ?thesis using s f by simp
    next
      case (Inr p)
      obtain v r3 where p: "p = (v, r3)" by (cases p)
      have l3: "length r3 < length (skip_ws r2)" using Inr p by (auto dest: scan_length)
      show ?thesis
      proof (cases "skip_ws r3")
        case Nil
        then show ?thesis using s Inr p j by simp
      next
        case (Cons e r4)
        have "Suc (length r4) \<le> length r3" using skip_ws_length[of r3] Cons by simp
        then have "2 * length (skip_ws r4) + 2 \<le> n"
          using l l2 l3 s 6(4) skip_ws_length[of r4] by simp
        then have "e = 44 \<Longrightarrow> scan_pairs h n (skip_ws r4) \<noteq> Inl no_fuel"
          using 6(2) s Inr p Cons 6(3) by fastforce
        then show ?thesis using s Inr p Cons j by (auto simp: rbind_Inl_iff split: if_splits)
      qed
    qed
  qed
qed auto

lemma loads_fuel:
  assumes "hooks_total h"
  shows "loads h s \<noteq> Inl no_fuel"
proof -
  have "scan_value h (2 * length s + 2) (skip_ws s) \<noteq> Inl no_fuel"
    using assms skip_ws_length[of s] by (intro scan_fuel(1)) auto
  then show ?thesis by (auto simp: loads_def rbind_Inl_iff no_fuel_def split: if_splits)
qed

lemmas [run] = hex_digit_def hex4_def esc_u_def esc_char_def jstr_text_def float_text_def int_ok_def dumps_strict_def
  compact_def

end
