(* ===== verification/JsonRoundtrip.thy ===== *)
theory JsonRoundtrip
  imports Json
begin

text \<open>
  What \<open>json.dumps\<close> writes, \<open>json.loads\<close> reads back: for values without floats, with integers
  of at most 4300 digits, whose objects have distinct keys, with separators that are a comma and a
  colon followed by white space, and (when only ASCII is written) without surrogates.
\<close>

lemma hex_val_digit: "d < 16 \<Longrightarrow> hex_val (hex_digit d) = Some d"
  by (auto simp: hex_val_def hex_digit_def)

lemma hex4_val:
  assumes "c < 65536"
  obtains w x y z where "hex4 c = [w, x, y, z]" "hex4_val w x y z = Some c"
proof -
  have a: "c = 16 * (c div 16) + c mod 16" "c div 16 = 16 * (c div 256) + c div 16 mod 16"
    "c div 256 = 16 * (c div 4096) + c div 256 mod 16"
    using div_mult2_eq[of c 16 16] div_mult2_eq[of c 256 16] by (simp_all add: mult_div_mod_eq)
  have b: "c div 4096 < 16" using assms by (simp add: div_less_iff_less_mult)
  have "c div 4096 * 4096 + c div 256 mod 16 * 256 + c div 16 mod 16 * 16 + c mod 16 = c"
    using a by linarith
  moreover have "c div 4096 mod 16 = c div 4096" using b by simp
  ultimately have "hex4_val (hex_digit (c div 4096 mod 16)) (hex_digit (c div 256 mod 16))
      (hex_digit (c div 16 mod 16)) (hex_digit (c mod 16)) = Some c"
    using hex_val_digit[OF b] by (simp add: hex4_val_def hex_val_digit)
  then show ?thesis by (intro that) (simp_all only: hex4_def)
qed

lemma scan_char_esc_u: "c < 65536 \<Longrightarrow> \<not> surrogate c \<Longrightarrow> scan_char 92 (drop 1 (esc_u c) @ t) = Inr (c, t)"
  by (erule hex4_val) (auto simp: scan_char_def esc_u_def scan_u_def surrogate_def)

definition str_ok :: "bool \<Rightarrow> ustr \<Rightarrow> bool" where
  "str_ok ascii s \<longleftrightarrow> (\<forall>c \<in> set s. c < 1114112 \<and> (ascii \<longrightarrow> \<not> surrogate c))"

lemma scan_pair_escape:
  assumes "65536 \<le> c" "c < 1114112"
  shows "scan_char 92 (drop 1 (esc_u (55296 + (c - 65536) div 1024) @ esc_u (56320 + (c - 65536) mod 1024)) @ t)
           = Inr (c, t)"
proof -
  define hi lo where "hi = 55296 + (c - 65536) div 1024" "lo = 56320 + (c - 65536) mod 1024"
  have h: "hi < 65536" "lo < 65536" "55296 \<le> hi" "hi \<le> 56319" "56320 \<le> lo" "lo \<le> 57343"
    using assms by (auto simp: hi_lo_def)
  have "65536 + (hi - 55296) * 1024 + (lo - 56320) = c"
    using assms by (simp add: hi_lo_def)
  moreover obtain w x y z where "hex4 hi = [w, x, y, z]" "hex4_val w x y z = Some hi"
    using h(1) by (rule hex4_val)
  moreover obtain w' x' y' z' where "hex4 lo = [w', x', y', z']" "hex4_val w' x' y' z' = Some lo"
    using h(2) by (rule hex4_val)
  ultimately show ?thesis
    unfolding hi_lo_def[symmetric] using h by (simp add: scan_char_def esc_u_def scan_u_def)
qed

lemma scan_string_step:
  assumes "c < 1114112" "a \<longrightarrow> \<not> surrogate c"
  shows "\<exists>e es. esc_char a c = e # es \<and> e \<noteq> 34 \<and> scan_char e (es @ t) = Inr (c, t)"
proof -
  consider "c < 32" | "c = 34 \<or> c = 92" | "32 \<le> c" "c \<noteq> 34" "c \<noteq> 92" "\<not> a \<or> c < 127"
    | "127 \<le> c" "a" "c < 65536" | "a" "65536 \<le> c"
    by linarith
  then show ?thesis
  proof cases
    case 1
    have "\<not> surrogate c" "c < 65536" using 1 by (auto simp: surrogate_def)
    note s = scan_char_esc_u[OF this(2,1), of t]
    show ?thesis using 1 s
      by (auto simp: esc_char_def esc_u_def scan_char_def simple_escape_def)
  next
    case 2 then show ?thesis by (auto simp: esc_char_def scan_char_def simple_escape_def)
  next
    case 3 then show ?thesis by (auto simp: esc_char_def scan_char_def)
  next
    case 4
    then show ?thesis using scan_char_esc_u[of c t] assms by (auto simp: esc_char_def esc_u_def)
  next
    case 5
    then show ?thesis using scan_pair_escape[of c t] assms by (auto simp: esc_char_def esc_u_def)
  qed
qed

lemma scan_string_text:
  "str_ok a s \<Longrightarrow> scan_string (concat (map (esc_char a) s) @ 34 # t) = Inr (s, t)"
proof (induction s)
  case (Cons c s)
  obtain e es where "esc_char a c = e # es" "e \<noteq> 34"
    "scan_char e (es @ concat (map (esc_char a) s) @ 34 # t) = Inr (c, concat (map (esc_char a) s) @ 34 # t)"
    using scan_string_step[of c a "concat (map (esc_char a) s) @ 34 # t"] Cons.prems
    by (auto simp: str_ok_def)
  then show ?case using Cons by (simp add: str_ok_def)
qed simp

lemma scan_jstr: "str_ok a s \<Longrightarrow> scan_string (drop 1 (jstr_text a s) @ t) = Inr (s, t)"
  using scan_string_text[of a s t] by (simp add: jstr_text_def)

section \<open>Numbers\<close>

text \<open>What may follow a value: nothing, or a character that cannot continue a number.\<close>

definition stops :: "ustr \<Rightarrow> bool" where
  "stops t \<longleftrightarrow> (case t of [] \<Rightarrow> True | c # _ \<Rightarrow> \<not> is_digit c \<and> c \<noteq> 46 \<and> c \<noteq> 101 \<and> c \<noteq> 69)"

lemma takeWhile_digits: "\<forall>c \<in> set s. is_digit c \<Longrightarrow> stops t \<Longrightarrow>
    takeWhile is_digit (s @ t) = s \<and> dropWhile is_digit (s @ t) = t"
  by (cases t) (auto simp: stops_def)

lemma scan_int_str: "stops t \<Longrightarrow> scan_int (str_nat n @ t) = Some (str_nat n, t)"
proof -
  assume t: "stops t"
  have d: "\<forall>c \<in> set (str_nat n). is_digit c" by (simp add: str_nat_digits)
  note w = takeWhile_digits[OF d t]
  obtain c cs where c: "str_nat n = c # cs" by (cases "str_nat n") auto
  show ?thesis
  proof (cases "n = 0")
    case True
    then show ?thesis using t w by (simp add: scan_int_def)
  next
    case False
    then have "c \<noteq> 48" using hd_str_nat[of n] c by simp
    then show ?thesis using w c by (simp add: scan_int_def Let_def)
  qed
qed

lemma no_frac: "stops t \<Longrightarrow> scan_frac t = None \<and> scan_exponent t = None"
  by (cases t) (auto simp: stops_def scan_frac_def scan_exponent_def)

lemma scan_number_nat:
  assumes "stops t" "length (str_nat n) \<le> 4300"
  shows "scan_number (str_nat n @ t) = Inr (JInt (int n), t)"
    and "scan_number (45 # str_nat n @ t) = Inr (JInt (- int n), t)"
proof -
  obtain c cs where c: "str_nat n = c # cs" by (cases "str_nat n") auto
  then have "is_digit c" using str_nat_digits[of c n] by auto
  then have "c \<noteq> 45" by (auto simp: is_digit_def)
  moreover note scan_int_str[OF assms(1), of n] no_frac[OF assms(1)] digits_val_str[of n]
  ultimately show "scan_number (str_nat n @ t) = Inr (JInt (int n), t)"
    "scan_number (45 # str_nat n @ t) = Inr (JInt (- int n), t)"
    using assms(2) c by (simp_all add: scan_number_def)
qed

lemma scan_number_int: "stops t \<Longrightarrow> int_ok i \<Longrightarrow> scan_number (str_int i @ t) = Inr (JInt i, t)"
  using scan_number_nat[of t "nat \<bar>i\<bar>"] by (auto simp: str_int_def int_ok_def abs_if split: if_splits)

lemma small_int_ok: "\<bar>i\<bar> < 10 ^ k \<Longrightarrow> 0 < k \<Longrightarrow> k \<le> 4300 \<Longrightarrow> int_ok i"
proof -
  assume a: "\<bar>i\<bar> < 10 ^ k" "0 < k" "k \<le> 4300"
  have "\<And>n k. n < 10 ^ k \<Longrightarrow> 0 < k \<Longrightarrow> length (nat_digits n) \<le> k"
  proof -
    fix n k :: nat
    show "n < 10 ^ k \<Longrightarrow> 0 < k \<Longrightarrow> length (nat_digits n) \<le> k"
    proof (induction n arbitrary: k rule: nat_digits.induct)
      case (1 n)
      show ?case
      proof (cases "n < 10")
        case False
        obtain k' where k': "k = Suc k'" using 1 by (cases k) auto
        then have "n div 10 < 10 ^ k'" using 1 by (simp add: div_less_iff_less_mult mult.commute)
        moreover have "0 < k'" using False 1 k' by (cases k') auto
        ultimately have "length (nat_digits (n div 10)) \<le> k'" using 1(1)[OF False] by blast
        then show ?thesis using False k' by (subst nat_digits.simps) simp
      qed (use 1 in \<open>simp add: nat_digits.simps\<close>)
    qed
  qed
  moreover have "nat \<bar>i\<bar> < 10 ^ k" using a by (simp add: nat_less_iff)
  ultimately have "length (nat_digits (nat \<bar>i\<bar>)) \<le> k" using a(2) by blast
  also note a(3)
  finally show ?thesis by (simp add: int_ok_def str_nat_def)
qed

section \<open>Values\<close>

fun json_ok :: "bool \<Rightarrow> json \<Rightarrow> bool" where
  "json_ok a (JInt i) = int_ok i"
| "json_ok a (JFloat f) = False"
| "json_ok a (JStr s) = str_ok a s"
| "json_ok a (JList xs) = list_all (json_ok a) xs"
| "json_ok a (JObj d) = (distinct (map fst d) \<and> list_all (\<lambda>(k, v). str_ok a k \<and> json_ok a v) d)"
| "json_ok a _ = True"

definition seps_ok :: "dumps_opts \<Rightarrow> bool" where
  "seps_ok op \<longleftrightarrow> \<not> sort_keys op \<and> (\<exists>w w'. item_sep op = 44 # w \<and> key_sep op = 58 # w'
     \<and> list_all json_ws w \<and> list_all json_ws w')"

definition hook_ok :: "json_hooks \<Rightarrow> bool" where
  "hook_ok h \<longleftrightarrow> (\<forall>d. distinct (map fst d) \<longrightarrow> pairs_hook h d = Inr (JObj d))"

lemma unique_pairs_distinct:
  "distinct (map fst (acc @ ps)) \<Longrightarrow> unique_pairs e acc ps = Inr (JObj (acc @ ps))"
proof (induction ps arbitrary: acc)
  case (Cons p ps)
  obtain k v where p: "p = (k, v)" by (cases p)
  have "k \<notin> fst ` set acc" using Cons.prems p by (auto simp: image_iff)
  moreover have "distinct (map fst ((acc @ [(k, v)]) @ ps))" using Cons.prems p by simp
  ultimately show ?case using Cons.IH[of "acc @ [(k, v)]"] p by simp
qed simp

lemma strict_hook_ok [simp]: "hook_ok (strict_hooks e f)"
  by (simp add: hook_ok_def strict_hooks_def unique_pairs_distinct)

lemma foldl_dict_put:
  "distinct (map fst (acc @ ps)) \<Longrightarrow> foldl (\<lambda>d (k, v). dict_put k v d) acc ps = acc @ ps"
proof (induction ps arbitrary: acc)
  case (Cons p ps)
  obtain k v where p: "p = (k, v)" by (cases p)
  have n: "k \<notin> fst ` set acc" using Cons.prems p by (auto simp: image_iff)
  have "dict_put k v acc = acc @ [(k, v)]" using n by (induction acc) auto
  then show ?case using Cons.IH[of "acc @ [(k, v)]"] Cons.prems p by simp
qed simp

lemma default_hook_ok [simp]: "hook_ok default_hooks"
  by (simp add: hook_ok_def default_hooks_def foldl_dict_put)

lemma skip_ws_all: "list_all json_ws w \<Longrightarrow> skip_ws (w @ s) = skip_ws s"
  by (induction w) (auto simp: skip_ws_def)

lemma skip_ws_stop: "s = c # r \<Longrightarrow> \<not> json_ws c \<Longrightarrow> skip_ws s = s"
  by (simp add: skip_ws_def)

lemma str_nat_Cons: obtains c r where "str_nat n = c # r" "is_digit c"
  by (metis list.exhaust list.set_intros(1) str_nat_Nil(1) str_nat_digits)

lemma str_int_Cons: obtains c r where "str_int i = c # r" "c = 45 \<or> is_digit c"
  by (cases "i < 0") (auto simp: str_int_def intro: str_nat_Cons[of "nat i"])

lemma json_text_hd:
  assumes "json_ok a v"
  obtains c r where "json_text op v = c # r" "\<not> json_ws c" "c \<noteq> 125" "c \<noteq> 93" "c < 128"
proof (cases v)
  case (JInt i)
  obtain c r where "str_int i = c # r" "c = 45 \<or> is_digit c" by (rule str_int_Cons)
  then show ?thesis using JInt that[of c r] by (auto simp: json_ws_def is_digit_def)
next
  case (JBool b)
  then show ?thesis using that by (cases b) (auto simp: u_Cons json_ws_def)
qed (use assms that in \<open>auto simp: u_Cons json_ws_def jstr_text_def\<close>)

lemma scan_atom_int: "stops t \<Longrightarrow> int_ok i \<Longrightarrow> scan_atom h (str_int i @ t) = Inr (JInt i, t)"
proof -
  assume t: "stops t" "int_ok i"
  obtain c r where c: "str_int i = c # r" "c = 45 \<or> is_digit c" by (rule str_int_Cons)
  have "keyword ''-Infinity'' (str_int i @ t) = None"
  proof (cases "i < 0")
    case True
    obtain d ds where "str_nat (nat (- i)) = d # ds" "is_digit d" by (rule str_nat_Cons)
    then show ?thesis using True by (auto simp: str_int_def keyword_def u_Cons is_digit_def)
  next
    case False
    obtain d ds where "str_nat (nat i) = d # ds" "is_digit d" by (rule str_nat_Cons)
    then show ?thesis using False by (auto simp: str_int_def keyword_def u_Cons is_digit_def)
  qed
  moreover have "keyword k (str_int i @ t) = None"
    if "k \<in> {''null'', ''true'', ''false'', ''NaN'', ''Infinity''}" for k
    using c that by (auto simp: keyword_def u_Cons is_digit_def)
  ultimately show ?thesis using scan_number_int[OF t] by (simp add: scan_atom_def)
qed

lemma json_text_list: "json_text op (JList (x # xs)) =
   91 # json_text op x @ concat (map (\<lambda>y. item_sep op @ json_text op y) xs) @ [93]"
proof -
  have "py_join sep (t # ts) = t @ concat (map (\<lambda>y. sep @ y) ts)" for sep t and ts :: "ustr list"
  proof (induction ts arbitrary: t)
    case (Cons a ts)
    show ?case using Cons[of a] by simp
  qed simp
  then show ?thesis by (simp add: comp_def)
qed

lemma json_text_obj: "\<not> sort_keys op \<Longrightarrow> json_text op (JObj ((k, v) # d)) =
   123 # jstr_text (ensure_ascii op) k @ key_sep op @ json_text op v @
   concat (map (\<lambda>(k, v). item_sep op @ jstr_text (ensure_ascii op) k @ key_sep op @ json_text op v) d) @ [125]"
proof -
  assume s: "\<not> sort_keys op"
  have "py_join sep (t # ts) = t @ concat (map (\<lambda>y. sep @ y) ts)" for sep t and ts :: "ustr list"
  proof (induction ts arbitrary: t)
    case (Cons a ts)
    show ?case using Cons[of a] by simp
  qed simp
  then show ?thesis using s by (simp add: comp_def split_def)
qed

text \<open>The claim for one value, and from it the claims for the loops.\<close>

definition reads :: "json_hooks \<Rightarrow> dumps_opts \<Rightarrow> json \<Rightarrow> bool" where
  "reads h op v \<longleftrightarrow> (\<forall>n t. stops t \<longrightarrow> length (json_text op v) < n \<longrightarrow>
     scan_value h n (json_text op v @ t) = Inr (v, t))"

lemma item_sep_skip:
  assumes "seps_ok op"
  obtains w where "item_sep op = 44 # w" "list_all json_ws w"
  using assms by (auto simp: seps_ok_def)

lemma key_sep_skip:
  assumes "seps_ok op"
  obtains w where "key_sep op = 58 # w" "list_all json_ws w"
  using assms by (auto simp: seps_ok_def)

lemma skip_ws_Cons: "skip_ws [] = []" "\<not> json_ws c \<Longrightarrow> skip_ws (c # r) = c # r"
  by (simp_all add: skip_ws_def)

lemma json_text_skip:
  "json_ok a v \<Longrightarrow> list_all json_ws w \<Longrightarrow> skip_ws (w @ json_text op v @ t) = json_text op v @ t"
  by (rule json_text_hd[of a v op]) (auto simp: skip_ws_all skip_ws_Cons)

lemma jstr_skip: "list_all json_ws w \<Longrightarrow> skip_ws (w @ jstr_text a k @ t) = jstr_text a k @ t"
  by (simp add: skip_ws_all skip_ws_Cons jstr_text_def json_ws_def)

lemma stops_close: "stops (93 # t)" "stops (125 # t)"
  by (simp_all add: stops_def is_digit_def)

lemma stops_item: "seps_ok op \<Longrightarrow> stops (item_sep op @ t)"
  by (rule item_sep_skip) (auto simp: stops_def is_digit_def)

lemma scan_items_text:
  assumes seps: "seps_ok op"
    and "list_all (reads h op) (x # xs)" "list_all (json_ok a) (x # xs)"
    "length (json_text op x @ concat (map (\<lambda>y. item_sep op @ json_text op y) xs) @ [93]) < n"
  shows "scan_items h n (json_text op x @ concat (map (\<lambda>y. item_sep op @ json_text op y) xs) @ 93 # t)
           = Inr (x # xs, t)"
  using assms(2-)
proof (induction xs arbitrary: x n)
  case Nil
  then obtain m where n: "n = Suc m" by (cases n) auto
  have "scan_value h m (json_text op x @ 93 # t) = Inr (x, 93 # t)"
    using Nil n stops_close stops_item[OF seps] by (simp add: reads_def)
  then show ?case using n by (simp add: skip_ws_def json_ws_def)
next
  case (Cons y ys)
  obtain m where n: "n = Suc m" using Cons by (cases n) auto
  obtain w where w: "item_sep op = 44 # w" "list_all json_ws w" by (rule item_sep_skip[OF seps])
  let ?r = "json_text op y @ concat (map (\<lambda>y. item_sep op @ json_text op y) ys) @ 93 # t"
  have 1: "scan_value h m (json_text op x @ item_sep op @ ?r) = Inr (x, item_sep op @ ?r)"
    using Cons.prems n stops_close stops_item[OF seps] by (simp add: reads_def)
  have 2: "scan_items h m ?r = Inr (y # ys, t)"
    using Cons.prems n by (intro Cons.IH) (auto simp: w(1))
  have 3: "skip_ws (item_sep op @ ?r) = 44 # w @ ?r" by (simp add: w(1) skip_ws_def json_ws_def)
  have 4: "skip_ws (w @ ?r) = ?r" using Cons.prems w json_text_skip[of a y w] by simp
  show ?case using n 1 2 3 4 by simp
qed

lemma scan_pairs_text:
  assumes seps: "seps_ok op"
    and "reads h op v" "list_all (\<lambda>(k, v). reads h op v) d"
    "str_ok (ensure_ascii op) k" "json_ok (ensure_ascii op) v"
    "list_all (\<lambda>(k, v). str_ok (ensure_ascii op) k \<and> json_ok (ensure_ascii op) v) d"
    "length (jstr_text (ensure_ascii op) k @ key_sep op @ json_text op v @
       concat (map (\<lambda>(k, v). item_sep op @ jstr_text (ensure_ascii op) k @ key_sep op @ json_text op v) d)
       @ [125]) < n"
  shows "scan_pairs h n (jstr_text (ensure_ascii op) k @ key_sep op @ json_text op v @
       concat (map (\<lambda>(k, v). item_sep op @ jstr_text (ensure_ascii op) k @ key_sep op @ json_text op v) d)
       @ 125 # t) = Inr ((k, v) # d, t)"
  using assms(2-)
proof (induction d arbitrary: k v n)
  case Nil
  then obtain m where n: "n = Suc m" by (cases n) auto
  obtain w where w: "key_sep op = 58 # w" "list_all json_ws w" by (rule key_sep_skip[OF seps])
  have 1: "scan_value h m (json_text op v @ 125 # t) = Inr (v, 125 # t)"
    using Nil n stops_close stops_item[OF seps] by (simp add: reads_def)
  have 2: "skip_ws (w @ json_text op v @ 125 # t) = json_text op v @ 125 # t"
    using Nil w by (simp add: json_text_skip)
  show ?case
    using n 1 2 w scan_string_text[OF Nil(3), of "58 # w @ json_text op v @ 125 # t"]
    by (simp add: jstr_text_def skip_ws_def json_ws_def)
next
  case (Cons p d)
  obtain k' v' where p: "p = (k', v')" by (cases p)
  obtain m where n: "n = Suc m" using Cons by (cases n) auto
  obtain w where w: "key_sep op = 58 # w" "list_all json_ws w" by (rule key_sep_skip[OF seps])
  obtain z where z: "item_sep op = 44 # z" "list_all json_ws z" by (rule item_sep_skip[OF seps])
  let ?q = "jstr_text (ensure_ascii op) k' @ key_sep op @ json_text op v' @
    concat (map (\<lambda>(k, v). item_sep op @ jstr_text (ensure_ascii op) k @ key_sep op @ json_text op v) d)
    @ 125 # t"
  let ?r = "item_sep op @ ?q"
  have 1: "scan_value h m (json_text op v @ ?r) = Inr (v, ?r)"
    using Cons.prems n stops_close stops_item[OF seps] p by (simp add: reads_def)
  have 2: "scan_pairs h m ?q = Inr ((k', v') # d, t)"
    using Cons.prems n p by (intro Cons.IH) (auto simp: z(1))
  have 3: "skip_ws ?r = 44 # z @ ?q" by (simp add: z(1) skip_ws_def json_ws_def)
  have 4: "skip_ws (z @ ?q) = ?q" using z by (simp add: jstr_skip)
  have 5: "skip_ws (w @ json_text op v @ ?r) = json_text op v @ ?r"
    using Cons.prems w by (simp add: json_text_skip)
  have 6: "scan_string (concat (map (esc_char (ensure_ascii op)) k) @ 34 # key_sep op @ json_text op v @ ?r)
      = Inr (k, key_sep op @ json_text op v @ ?r)"
    by (rule scan_string_text) (use Cons.prems in simp)
  have 7: "skip_ws (key_sep op @ json_text op v @ ?r) = 58 # w @ json_text op v @ ?r"
    by (simp add: w(1) skip_ws_def json_ws_def)
  have 8: "jstr_text (ensure_ascii op) k @ key_sep op @ json_text op v @ ?r =
    34 # (concat (map (esc_char (ensure_ascii op)) k) @ 34 # key_sep op @ json_text op v @ ?r)"
    by (simp add: jstr_text_def)
  have "scan_pairs h (Suc m) (jstr_text (ensure_ascii op) k @ key_sep op @ json_text op v @ ?r)
    = Inr ((k, v) # (k', v') # d, t)"
    unfolding 8 using 1 2 3 4 5 6 7 by (simp del: append_assoc)
  then show ?case using n p by simp
qed

lemma json_reads:
  assumes seps: "seps_ok op" and hook: "hook_ok h"
  shows "json_ok (ensure_ascii op) v \<Longrightarrow> reads h op v"
proof (induction v)
  case (JStr s)
  then show ?case unfolding reads_def
    by (auto simp: jstr_text_def scan_string_text gr0_conv_Suc dest!: less_imp_Suc_add)
next
  case (JInt i)
  obtain c r where c: "str_int i = c # r" "c = 45 \<or> is_digit c" by (rule str_int_Cons)
  show ?case unfolding reads_def
  proof (intro allI impI)
    fix n t assume a: "stops t" "length (json_text op (JInt i)) < n"
    then obtain m where "n = Suc m" by (cases n) auto
    moreover have "scan_atom h (str_int i @ t) = Inr (JInt i, t)"
      using a JInt by (simp add: scan_atom_int)
    ultimately show "scan_value h n (json_text op (JInt i) @ t) = Inr (JInt i, t)"
      using c by (auto simp: is_digit_def)
  qed
next
  case (JList xs)
  show ?case unfolding reads_def
  proof (intro allI impI)
    fix n t assume a: "stops t" "length (json_text op (JList xs)) < n"
    then obtain m where n: "n = Suc m" by (cases n) auto
    show "scan_value h n (json_text op (JList xs) @ t) = Inr (JList xs, t)"
    proof (cases xs)
      case Nil
      then show ?thesis using n by (simp add: skip_ws_def json_ws_def)
    next
      case (Cons y ys)
      have r: "list_all (reads h op) (y # ys)" using JList Cons by (auto simp: list_all_iff)
      have i: "scan_items h m (json_text op y @ concat (map (\<lambda>y. item_sep op @ json_text op y) ys) @ 93 # t)
          = Inr (y # ys, t)"
        using r JList.prems a(2) n unfolding Cons json_text_list by (intro scan_items_text[OF seps]) auto
      obtain c q where c: "json_text op y = c # q" "\<not> json_ws c" "c \<noteq> 125" "c \<noteq> 93"
        using JList.prems Cons by (auto intro: json_text_hd[of "ensure_ascii op" y op])
      show ?thesis unfolding Cons json_text_list using i c n
        by (simp add: skip_ws_def)
    qed
  qed
next
  case (JObj d)
  show ?case unfolding reads_def
  proof (intro allI impI)
    fix n t assume a: "stops t" "length (json_text op (JObj d)) < n"
    then obtain m where n: "n = Suc m" by (cases n) auto
    have ns: "\<not> sort_keys op" using seps by (simp add: seps_ok_def)
    have hk: "pairs_hook h d = Inr (JObj d)" using hook JObj.prems by (simp add: hook_ok_def)
    show "scan_value h n (json_text op (JObj d) @ t) = Inr (JObj d, t)"
    proof (cases d)
      case Nil
      then show ?thesis using n hk by (simp add: skip_ws_def json_ws_def)
    next
      case (Cons p d')
      obtain k v where p: "p = (k, v)" by (cases p)
      have r: "reads h op v" "list_all (\<lambda>(k, v). reads h op v) d'"
        using JObj Cons p by (auto simp: list_all_iff) blast+
      have i: "scan_pairs h m (jstr_text (ensure_ascii op) k @ key_sep op @ json_text op v @
          concat (map (\<lambda>(k, v). item_sep op @ jstr_text (ensure_ascii op) k @ key_sep op @ json_text op v) d')
          @ 125 # t) = Inr ((k, v) # d', t)"
        using r JObj.prems a(2) n unfolding Cons p json_text_obj[OF ns] by (intro scan_pairs_text[OF seps]) auto
      show ?thesis unfolding Cons p json_text_obj[OF ns] using i n hk Cons p
        by (simp add: skip_ws_def jstr_text_def json_ws_def)
    qed
  qed
qed (auto simp: reads_def scan_atom_def keyword_def u_Cons dest!: less_imp_Suc_add)

lemma loads_dumps:
  assumes "seps_ok op" "hook_ok h" "json_ok (ensure_ascii op) v" "list_all json_ws w"
  shows "loads h (json_text op v @ w) = Inr v"
proof -
  obtain c r where c: "json_text op v = c # r" "\<not> json_ws c" "c \<noteq> 125" "c \<noteq> 93" "c < 128"
    by (rule json_text_hd[OF assms(3)])
  have "stops w" using assms(4) by (cases w) (auto simp: stops_def json_ws_def is_digit_def)
  moreover have "length (json_text op v) < 2 * length (json_text op v @ w) + 2" by simp
  ultimately have "scan_value h (2 * length (json_text op v @ w) + 2) (json_text op v @ w) = Inr (v, w)"
    using json_reads[OF assms(1-3)] unfolding reads_def by blast
  moreover have "skip_ws w = []" using skip_ws_all[OF assms(4), of "[]"] by (simp add: skip_ws_def)
  moreover have "skip_ws (json_text op v @ w) = json_text op v @ w" using c by (simp add: skip_ws_def)
  moreover have "\<not> py_startswith (json_text op v @ w) [65279]"
    using c by auto
  ultimately show ?thesis by (simp add: loads_def)
qed

lemma compact_seps [simp]: "seps_ok (compact a)"
  by (auto simp: seps_ok_def compact_def)

text \<open>A text that UTF-8 can encode holds only encodable strings, so the read back of what was
  written and encoded needs no assumption on the strings.\<close>

fun json_plain :: "json \<Rightarrow> bool" where
  "json_plain (JFloat f) = False"
| "json_plain (JList xs) = list_all json_plain xs"
| "json_plain (JObj d) = (distinct (map fst d) \<and> list_all (\<lambda>(k, v). json_plain v) d)"
| "json_plain _ = True"

lemma encodable_str: "list_all encodable (concat (map (esc_char False) s)) \<Longrightarrow> list_all encodable s"
proof (induction s)
  case (Cons c s)
  have "encodable c"
  proof (cases "c < 1114112 \<and> \<not> surrogate c")
    case False
    then have "esc_char False c = [c]" by (auto simp: esc_char_def surrogate_def)
    then show ?thesis using Cons by simp
  qed (simp add: encodable_def)
  then show ?case using Cons by simp
qed simp

lemma encodable_str_ok: "list_all encodable s \<Longrightarrow> str_ok a s"
  by (auto simp: str_ok_def list_all_iff encodable_def)

lemma set_join: "set (py_join sep xs) \<supseteq> \<Union> (set ` set xs)"
  by (induction sep xs rule: py_join.induct) auto

lemma encodable_sub: "set s \<subseteq> set t \<Longrightarrow> list_all encodable t \<Longrightarrow> list_all encodable s"
  by (auto simp: list_all_iff)

lemma item_text_sub: "x \<in> set xs \<Longrightarrow> set (json_text op x) \<subseteq> set (json_text op (JList xs))"
  using set_join[of "map (json_text op) xs" "item_sep op"] by auto

lemma pair_text_sub:
  assumes "\<not> sort_keys op" "(k, v) \<in> set d"
  shows "set (jstr_text (ensure_ascii op) k) \<subseteq> set (json_text op (JObj d))"
    and "set (json_text op v) \<subseteq> set (json_text op (JObj d))"
proof -
  let ?f = "\<lambda>(k, v). jstr_text (ensure_ascii op) k @ key_sep op @ json_text op v"
  have t: "json_text op (JObj d) = 123 # py_join (item_sep op) (map ?f d) @ [125]"
    using assms(1) by (simp add: comp_def split_def)
  have "set (?f (k, v)) \<subseteq> set (py_join (item_sep op) (map ?f d))"
    using set_join[of "map ?f d" "item_sep op"] assms(2) by (auto simp del: split_paired_All)
  then show "set (jstr_text (ensure_ascii op) k) \<subseteq> set (json_text op (JObj d))"
    "set (json_text op v) \<subseteq> set (json_text op (JObj d))"
    unfolding t by auto
qed

lemma encodable_ok:
  assumes "\<not> ensure_ascii op" "\<not> sort_keys op"
  shows "json_plain v \<Longrightarrow> json_writable v \<Longrightarrow> list_all encodable (json_text op v) \<Longrightarrow> json_ok False v"
proof (induction v)
  case (JStr s)
  then show ?case using encodable_str assms by (auto simp: jstr_text_def intro: encodable_str_ok)
next
  case (JList xs)
  have "json_ok False x" if x: "x \<in> set xs" for x
  proof (rule JList.IH[OF x])
    show "list_all encodable (json_text op x)" by (rule encodable_sub[OF item_text_sub[OF x] JList.prems(3)])
  qed (use JList.prems x in \<open>auto simp: list_all_iff\<close>)
  then show ?case by (simp add: list_all_iff)
next
  case (JObj d)
  have "str_ok False k \<and> json_ok False v" if x: "(k, v) \<in> set d" for k v
  proof -
    have "list_all encodable (jstr_text False k)" "list_all encodable (json_text op v)"
      using encodable_sub[OF pair_text_sub(1)[OF assms(2) x] JObj.prems(3)]
        encodable_sub[OF pair_text_sub(2)[OF assms(2) x] JObj.prems(3)] assms(1) by simp_all
    moreover have "json_plain v" "json_writable v" using JObj.prems x by (auto simp: list_all_iff)
    ultimately show ?thesis
      using JObj.IH[OF x, of v] encodable_str by (auto simp: jstr_text_def intro: encodable_str_ok)
  qed
  then show ?case using JObj.prems by (auto simp: list_all_iff)
qed auto

lemma read_written:
  assumes "dumps_strict (compact False) v = Inr t" "utf8_encode (t @ w) = Inr b" "json_plain v" "hook_ok h"
    "list_all json_ws w"
  shows "rbind (utf8_decode b) (loads h) = Inr v"
proof -
  have t: "t = json_text (compact False) v" "json_writable v"
    using assms(1) by (auto simp: dumps_strict_def split: if_splits)
  have e: "list_all encodable (json_text (compact False) v)"
    using assms(2) t by (auto simp: utf8_encode_def split: if_splits)
  have "json_ok False v" using assms(3) t(2) e by (intro encodable_ok[of "compact False"]) (auto simp: compact_def)
  then have "loads h (json_text (compact False) v @ w) = Inr v"
    using assms by (intro loads_dumps compact_seps) (auto simp: compact_def)
  then show ?thesis using utf8_encode_decode[OF assms(2)] t by simp
qed

end
