(* ===== verification/Model.thy ===== *)
theory Model
  imports PyDecimal PyTime JsonRoundtrip
begin

text \<open>
  \<open>model.py\<close>: the closed vocabularies, the canonical forms of identities and decimals, and the
  frozen data classes with the checks of their \<open>__post_init__\<close>.

  \<^item> Every \<open>class C(str, Enum)\<close> is a datatype; \<open>x_value\<close> is the text a member is equal to,
    \<open>x_members\<close> the members in order. A member is a \<open>str\<close>, so an argument of type \<open>object\<close> that may be
    a member is the JSON string of its text.
  \<^item> A data class is a record, and \<open>mk_c\<close> its construction: the arguments, checked in the order of
    \<open>__post_init__\<close>, give the record or the exception.
  \<^item> \<open>nfc\<close> is \<open>unicodedata.normalize("NFC", _)\<close>, a table of the Unicode standard: a parameter, of
    which \<open>nfc_law\<close> states what the standard promises.
\<close>

section \<open>Vocabularies\<close>

datatype provider_key =
    Codex
  | OpencodeGo

fun pk_value :: "provider_key \<Rightarrow> ustr" where
  "pk_value Codex = u ''codex''"
| "pk_value OpencodeGo = u ''opencode_go''"

definition pk_members :: "provider_key list" where
  "pk_members = [Codex, OpencodeGo]"

datatype provider_state =
    Loading
  | Success
  | StUnavailable
  | SafeErr

fun ps_value :: "provider_state \<Rightarrow> ustr" where
  "ps_value Loading = u ''loading''"
| "ps_value Success = u ''success''"
| "ps_value StUnavailable = u ''unavailable''"
| "ps_value SafeErr = u ''safe_error''"

definition ps_members :: "provider_state list" where
  "ps_members = [Loading, Success, StUnavailable, SafeErr]"

datatype provider_outcome =
    OSnapshot
  | OUndetected
  | ONotRun
  | OExecError

fun po_value :: "provider_outcome \<Rightarrow> ustr" where
  "po_value OSnapshot = u ''snapshot''"
| "po_value OUndetected = u ''undetected''"
| "po_value ONotRun = u ''not_run''"
| "po_value OExecError = u ''execution_error''"

definition po_members :: "provider_outcome list" where
  "po_members = [OSnapshot, OUndetected, ONotRun, OExecError]"

datatype public_state =
    PAvailable
  | PPartial
  | PUnavailable
  | PUnauthorized
  | PRateLimited
  | PTransient
  | PInvalidData

fun pub_value :: "public_state \<Rightarrow> ustr" where
  "pub_value PAvailable = u ''available''"
| "pub_value PPartial = u ''partial''"
| "pub_value PUnavailable = u ''unavailable''"
| "pub_value PUnauthorized = u ''unauthorized''"
| "pub_value PRateLimited = u ''rate_limited''"
| "pub_value PTransient = u ''transient_error''"
| "pub_value PInvalidData = u ''invalid_data''"

definition pub_members :: "public_state list" where
  "pub_members = [PAvailable, PPartial, PUnavailable, PUnauthorized, PRateLimited, PTransient, PInvalidData]"

datatype freshness =
    Fresh
  | Stale

fun fr_value :: "freshness \<Rightarrow> ustr" where
  "fr_value Fresh = u ''fresh''"
| "fr_value Stale = u ''stale''"

definition fr_members :: "freshness list" where
  "fr_members = [Fresh, Stale]"

datatype window_kind =
    KCommercial
  | KTechnical
  | KOther

fun wk_value :: "window_kind \<Rightarrow> ustr" where
  "wk_value KCommercial = u ''commercial_quota''"
| "wk_value KTechnical = u ''technical_rate_limit''"
| "wk_value KOther = u ''other''"

definition wk_members :: "window_kind list" where
  "wk_members = [KCommercial, KTechnical, KOther]"

datatype metric_kind =
    MCommercial
  | MTechnical

fun mk_value :: "metric_kind \<Rightarrow> ustr" where
  "mk_value MCommercial = u ''commercial_quota''"
| "mk_value MTechnical = u ''technical_rate_limit''"

definition mk_members :: "metric_kind list" where
  "mk_members = [MCommercial, MTechnical]"

datatype availability =
    AKnown
  | AUnlimited
  | ADisabled
  | AUnavailable
  | AUnknown
  | ANotAuthorized
  | ANotApplicable
  | AInvalid
  | AError

fun av_value :: "availability \<Rightarrow> ustr" where
  "av_value AKnown = u ''known''"
| "av_value AUnlimited = u ''unlimited''"
| "av_value ADisabled = u ''disabled''"
| "av_value AUnavailable = u ''unavailable''"
| "av_value AUnknown = u ''unknown''"
| "av_value ANotAuthorized = u ''not_authorized''"
| "av_value ANotApplicable = u ''not_applicable''"
| "av_value AInvalid = u ''invalid''"
| "av_value AError = u ''error''"

definition av_members :: "availability list" where
  "av_members = [AKnown, AUnlimited, ADisabled, AUnavailable, AUnknown, ANotAuthorized, ANotApplicable, AInvalid, AError]"

datatype error_code =
    ETimeout
  | EProvider
  | EInternal
  | EConfiguration
  | EInvocation
  | EInvalidData
  | EUnknownState
  | EGuardAcquisition
  | EGuardWait
  | EDeadline
  | ECleanup

fun ec_value :: "error_code \<Rightarrow> ustr" where
  "ec_value ETimeout = u ''timeout''"
| "ec_value EProvider = u ''provider_error''"
| "ec_value EInternal = u ''internal_error''"
| "ec_value EConfiguration = u ''configuration_invalid''"
| "ec_value EInvocation = u ''invocation_invalid''"
| "ec_value EInvalidData = u ''invalid_provider_data''"
| "ec_value EUnknownState = u ''unknown_provider_state''"
| "ec_value EGuardAcquisition = u ''guard_acquisition_failed''"
| "ec_value EGuardWait = u ''guard_wait_timeout''"
| "ec_value EDeadline = u ''deadline_exhausted''"
| "ec_value ECleanup = u ''cleanup_failed''"

definition ec_members :: "error_code list" where
  "ec_members = [ETimeout, EProvider, EInternal, EConfiguration, EInvocation, EInvalidData, EUnknownState, EGuardAcquisition, EGuardWait, EDeadline, ECleanup]"

text \<open>\<open>PROVIDER_ORDER\<close>, the source identities and the bounds.\<close>

definition provider_order :: "provider_key list" where
  "provider_order = [Codex, OpencodeGo]"

definition codex_source_id :: ustr where
  "codex_source_id = u ''codex-app-server-v2''"

definition opencode_source_id :: ustr where
  "opencode_source_id = u ''opencode-go-api''"

definition max_display_label :: nat where
  "max_display_label = 64"

definition max_quota_windows :: nat where
  "max_quota_windows = 32"

definition max_quantity_digits :: nat where
  "max_quantity_digits = 128"

definition max_quantity_text :: nat where
  "max_quantity_text = 256"

text \<open>\<open>_enum\<close>: \<open>enum(value)\<close>, any failure as \<open>ValueError(message)\<close>.\<close>

definition enum_of :: "'a list \<Rightarrow> ('a \<Rightarrow> ustr) \<Rightarrow> json \<Rightarrow> string \<Rightarrow> py_exn + 'a" where
  "enum_of members val v msg = (case v of
     JStr s \<Rightarrow> (case find (\<lambda>x. val x = s) members of Some x \<Rightarrow> Inr x | None \<Rightarrow> Inl (ValueError msg))
   | _ \<Rightarrow> Inl (ValueError msg))"

lemma pk_member [simp]: "enum_of pk_members pk_value (JStr (pk_value x)) msg = Inr x"
  by (cases x) (simp_all add: enum_of_def pk_members_def)

lemma pk_value_inj [simp]: "pk_value x = pk_value y \<longleftrightarrow> x = y"
  by (cases x; cases y) simp_all

lemma ps_member [simp]: "enum_of ps_members ps_value (JStr (ps_value x)) msg = Inr x"
  by (cases x) (simp_all add: enum_of_def ps_members_def)

lemma ps_value_inj [simp]: "ps_value x = ps_value y \<longleftrightarrow> x = y"
  by (cases x; cases y) simp_all

lemma po_member [simp]: "enum_of po_members po_value (JStr (po_value x)) msg = Inr x"
  by (cases x) (simp_all add: enum_of_def po_members_def)

lemma po_value_inj [simp]: "po_value x = po_value y \<longleftrightarrow> x = y"
  by (cases x; cases y) simp_all

lemma pub_member [simp]: "enum_of pub_members pub_value (JStr (pub_value x)) msg = Inr x"
  by (cases x) (simp_all add: enum_of_def pub_members_def)

lemma pub_value_inj [simp]: "pub_value x = pub_value y \<longleftrightarrow> x = y"
  by (cases x; cases y) simp_all

lemma fr_member [simp]: "enum_of fr_members fr_value (JStr (fr_value x)) msg = Inr x"
  by (cases x) (simp_all add: enum_of_def fr_members_def)

lemma fr_value_inj [simp]: "fr_value x = fr_value y \<longleftrightarrow> x = y"
  by (cases x; cases y) simp_all

lemma wk_member [simp]: "enum_of wk_members wk_value (JStr (wk_value x)) msg = Inr x"
  by (cases x) (simp_all add: enum_of_def wk_members_def)

lemma wk_value_inj [simp]: "wk_value x = wk_value y \<longleftrightarrow> x = y"
  by (cases x; cases y) simp_all

lemma mk_member [simp]: "enum_of mk_members mk_value (JStr (mk_value x)) msg = Inr x"
  by (cases x) (simp_all add: enum_of_def mk_members_def)

lemma mk_value_inj [simp]: "mk_value x = mk_value y \<longleftrightarrow> x = y"
  by (cases x; cases y) simp_all

lemma av_member [simp]: "enum_of av_members av_value (JStr (av_value x)) msg = Inr x"
  by (cases x) (simp_all add: enum_of_def av_members_def)

lemma av_value_inj [simp]: "av_value x = av_value y \<longleftrightarrow> x = y"
  by (cases x; cases y) simp_all

lemma ec_member [simp]: "enum_of ec_members ec_value (JStr (ec_value x)) msg = Inr x"
  by (cases x) (simp_all add: enum_of_def ec_members_def)

lemma ec_value_inj [simp]: "ec_value x = ec_value y \<longleftrightarrow> x = y"
  by (cases x; cases y) simp_all

text \<open>The order of the window kinds is \<open>_KIND_ORDER\<close>.\<close>

fun kind_order :: "window_kind \<Rightarrow> nat" where
  "kind_order KCommercial = 0"
| "kind_order KTechnical = 1"
| "kind_order KOther = 2"

instantiation window_kind :: linorder
begin

definition less_eq_window_kind :: "window_kind \<Rightarrow> window_kind \<Rightarrow> bool" where
  "a \<le> b \<longleftrightarrow> kind_order a \<le> kind_order b"

definition less_window_kind :: "window_kind \<Rightarrow> window_kind \<Rightarrow> bool" where
  "a < b \<longleftrightarrow> kind_order a < kind_order b"

instance
proof
  fix a b :: window_kind
  show "a \<le> b \<Longrightarrow> b \<le> a \<Longrightarrow> a = b"
    by (cases a; cases b) (simp_all add: less_eq_window_kind_def)
qed (auto simp: less_eq_window_kind_def less_window_kind_def)

end

section \<open>Labels, identities, timestamps, sources\<close>

definition label :: "json \<Rightarrow> py_exn + ustr option" where
  "label v = (case v of
     JNull \<Rightarrow> Inr None
   | JStr s \<Rightarrow>
       if s = [] \<or> max_display_label < length s \<or> (\<exists>c \<in> set s. c < 32)
       then Inl (ValueError ''invalid provider label'') else Inr (Some s)
   | _ \<Rightarrow> Inl (ValueError ''invalid provider label''))"

definition identity_char :: "nat \<Rightarrow> bool" where
  "identity_char c \<longleftrightarrow> \<not> (c \<le> 31 \<or> c = 127 \<or> surrogate c)"

definition canonical_identity :: "(ustr \<Rightarrow> ustr) \<Rightarrow> json \<Rightarrow> string \<Rightarrow> py_exn + ustr" where
  "canonical_identity nfc v msg = (case v of
     JStr s \<Rightarrow>
       if s = [] \<or> py_strip s \<noteq> s then Inl (ValueError msg)
       else if 64 < length (nfc s) then Inl (ValueError msg)
       else if \<not> list_all identity_char (nfc s) then Inl (ValueError msg)
       else Inr (nfc s)
   | _ \<Rightarrow> Inl (ValueError msg))"

definition check_aware :: "datetime \<Rightarrow> string \<Rightarrow> py_exn + datetime" where
  "check_aware d msg = (if aware d then Inr d else Inl (ValueError msg))"

definition source_id :: "ustr option \<Rightarrow> py_exn + ustr option" where
  "source_id v = (case v of
     Some s \<Rightarrow> if s \<in> {codex_source_id, opencode_source_id} then Inr v
               else Inl (ValueError ''invalid source id'')
   | None \<Rightarrow> Inr None)"

text \<open>What the Unicode standard says of NFC that the code relies on: it is idempotent, keeps a
  text that is not empty so, and adds no white space at the ends.\<close>

definition nfc_law :: "(ustr \<Rightarrow> ustr) \<Rightarrow> bool" where
  "nfc_law nfc \<longleftrightarrow> (\<forall>s. nfc (nfc s) = nfc s \<and> (s \<noteq> [] \<longrightarrow> nfc s \<noteq> []) \<and>
     (py_strip s = s \<longrightarrow> py_strip (nfc s) = nfc s) \<and> ((\<forall>c \<in> set s. c < 128) \<longrightarrow> nfc s = s))"

text \<open>The identities the constructor returns.\<close>

definition identity_ok :: "(ustr \<Rightarrow> ustr) \<Rightarrow> ustr \<Rightarrow> bool" where
  "identity_ok nfc s \<longleftrightarrow> s \<noteq> [] \<and> py_strip s = s \<and> nfc s = s \<and> length s \<le> 64 \<and> list_all identity_char s"

lemma canonical_identity_ok:
  "nfc_law nfc \<Longrightarrow> canonical_identity nfc v msg = Inr s \<Longrightarrow> identity_ok nfc s"
  by (auto simp: canonical_identity_def identity_ok_def nfc_law_def split: json.splits if_splits)

lemma canonical_identity_same: "identity_ok nfc s \<Longrightarrow> canonical_identity nfc (JStr s) msg = Inr s"
  by (auto simp: canonical_identity_def identity_ok_def)

section \<open>Decimals\<close>

definition canonical_decimal :: "dec \<Rightarrow> py_exn + dec" where
  "canonical_decimal v = (case v of
     DFin s c e \<Rightarrow>
       if dec_neg v then Inl (ValueError ''invalid quota quantity'')
       else if c = 0 then Inr dec0
       else
         let (c', e') = strip_zeros (length (nat_digits c)) c e;
             n = int (length (nat_digits c'));
             position = n + e';
             rendered_length = (if position \<le> 0 then 2 - position + n
                                else if n \<le> position then position else n + 1) in
         if int max_quantity_digits < n \<or> int max_quantity_text < rendered_length
         then Inl (ValueError ''quota quantity exceeds canonical limits'')
         else
           let fixed = dec_format_f (DFin False c' e');
               canonical = (if 46 \<in> set fixed then py_rstrip_char 46 (py_rstrip_char 48 fixed) else fixed) in
           if max_quantity_text < length canonical
           then Inl (ValueError ''quota quantity exceeds canonical limits'')
           else dec_parse canonical
   | _ \<Rightarrow> Inl (ValueError ''invalid quota quantity''))"

definition parse_canonical_decimal :: "json \<Rightarrow> py_exn + dec" where
  "parse_canonical_decimal v = (case v of
     JStr s \<Rightarrow>
       if s = [] \<or> max_quantity_text < length s then Inl (ValueError ''invalid quota quantity'')
       else if \<not> list_all (\<lambda>c. c < 128) s then Inl (ValueError ''invalid quota quantity'')
       else (case dec_parse s of
               Inl _ \<Rightarrow> Inl (ValueError ''invalid quota quantity'')
             | Inr parsed \<Rightarrow>
                 rbind (canonical_decimal parsed) (\<lambda>canonical.
                   if dec_format_f canonical \<noteq> s then Inl (ValueError ''invalid quota quantity'')
                   else Inr canonical))
   | _ \<Rightarrow> Inl (ValueError ''invalid quota quantity''))"

text \<open>The canonical decimals: a non-negative coefficient, an exponent that is not positive, no
  zero at the end of a fraction, within the limits.\<close>

fun canon_dec :: "dec \<Rightarrow> bool" where
  "canon_dec (DFin s c e) \<longleftrightarrow> \<not> s \<and> e \<le> 0 \<and> (e < 0 \<longrightarrow> c mod 10 \<noteq> 0)
     \<and> length (nat_digits (fst (strip_zeros (length (nat_digits c)) c e))) \<le> max_quantity_digits
     \<and> length (fixed_text c e) \<le> max_quantity_text"
| "canon_dec _ = False"

lemma dropWhile_last: "s \<noteq> [] \<Longrightarrow> last s \<noteq> c \<Longrightarrow> py_rstrip_char c s = s"
  by (cases s rule: rev_cases) (simp_all add: py_rstrip_char_def)

lemma zeros_tail:
  assumes "xs @ replicate m z = ys @ replicate n z" "xs \<noteq> []" "ys \<noteq> []" "last xs \<noteq> z" "last ys \<noteq> z"
  shows "length xs = length ys"
proof -
  have t: "takeWhile (\<lambda>x. x = z) (rev (xs @ replicate m z)) = replicate m z"
    if "xs \<noteq> []" "last xs \<noteq> z" for xs m
    using that by (cases xs rule: rev_cases) (simp_all add: takeWhile_append2 takeWhile_tail)
  have "replicate m z = replicate n z" using t[OF assms(2,4), of m] t[OF assms(3,5), of n] assms(1) by simp
  then have "m = n" by (metis length_replicate)
  then show ?thesis using assms(1) by simp
qed

lemma digits_no_point: "list_all is_digit s \<Longrightarrow> 46 \<notin> set s"
  by (auto simp: list_all_iff is_digit_def)

lemma fixed_strip:
  assumes "c mod 10 \<noteq> 0" "fixed = dec_format_f (DFin False c e)"
  shows "(if 46 \<in> set fixed then py_rstrip_char 46 (py_rstrip_char 48 fixed) else fixed) = fixed"
proof (cases "e < 0")
  case False
  then have "fixed = str_nat (c * 10 ^ nat e)" using assms by (simp add: fixed_text_zeros)
  then show ?thesis using digits_no_point[OF str_nat_all] by simp
next
  case True
  obtain w f where f: "fixed_text c e = w @ 46 # f" "list_all is_digit f"
    "last f = last (str_nat c)" "f \<noteq> []"
    by (rule fixed_text_point[OF True])
  have l: "last fixed = 48 + c mod 10" using f assms by (simp add: last_str_nat)
  have "last fixed \<noteq> 46" "last fixed \<noteq> 48" "fixed \<noteq> []" using l assms by simp_all
  then show ?thesis by (simp add: dropWhile_last)
qed

text \<open>The rendered length the code computes is the length of the text.\<close>

lemma fixed_length:
  assumes "0 < c"
  shows "int (length (fixed_text c e)) =
    (let n = int (length (nat_digits c)); position = n + e in
     if position \<le> 0 then 2 - position + n else if n \<le> position then position else n + 1)"
  using assms by (simp add: fixed_text_def Let_def length_str_nat)

lemma canonical_decimal_spec:
  assumes "canonical_decimal (DFin s c e) = Inr d"
  shows "canon_dec d \<and> (\<exists>c' e'. d = DFin False c' e' \<and> dec_eq (DFin s c e) d)"
proof (cases "c = 0")
  case True
  then have "d = dec0" using assms by (simp add: canonical_decimal_def)
  then show ?thesis using True by (auto simp: dec0_def fixed_text_int nat_digits.simps dec_int_def
        max_quantity_digits_def max_quantity_text_def)
next
  case False
  then have s: "\<not> s" using assms by (auto simp: canonical_decimal_def split: if_splits)
  obtain c' e' where z: "strip_zeros (length (nat_digits c)) c e = (c', e')" by (meson surj_pair)
  have v: "e \<le> e'" "c = c' * 10 ^ nat (e' - e)" using strip_zeros_val[OF z] by auto
  have m: "c' mod 10 \<noteq> 0" using strip_zeros_stop[OF _ digits_lt z] False by simp
  then have pos: "0 < c'" by (cases c') auto
  let ?fixed = "dec_format_f (DFin False c' e')"
  have lim: "length (nat_digits c') \<le> max_quantity_digits" "length (fixed_text c' e') \<le> max_quantity_text"
    and p: "dec_parse (fixed_text c' e') = Inr d"
    using assms False s z fixed_strip[OF m refl, of e']
    by (auto simp: canonical_decimal_def Let_def split: if_splits)
  show ?thesis
  proof (cases "e' \<le> 0")
    case True
    then have d: "d = DFin False c' e'" using p by (simp add: dec_parse_fixed)
    have "dec_eq (DFin s c e) d"
      unfolding d using v s by (subst dec_eq_iff[of e]) (auto simp: dec_int_def)
    then show ?thesis using d lim m True by (simp add: strip_zeros_same)
  next
    case False
    let ?n = "c' * 10 ^ nat e'"
    have f: "fixed_text c' e' = str_nat ?n" using False pos by (simp add: fixed_text_zeros)
    then have d: "d = DFin False ?n 0" using p by (simp add: dec_parse_digits str_nat_all)
    obtain c2 e2 where z2: "strip_zeros (length (nat_digits ?n)) ?n 0 = (c2, e2)" by (meson surj_pair)
    have v2: "0 \<le> e2" "?n = c2 * 10 ^ nat e2" using strip_zeros_val[OF z2] by auto
    have m2: "c2 mod 10 \<noteq> 0" using strip_zeros_stop[OF _ digits_lt z2] pos by simp
    have pos2: "0 < c2" using m2 by (cases c2) auto
    have "nat_digits c' @ replicate (nat e') 0 = nat_digits c2 @ replicate (nat e2) 0"
      using v2(2) nat_digits_mult[OF pos] nat_digits_mult[OF pos2] by metis
    moreover have "last (nat_digits c') \<noteq> 0" "last (nat_digits c2) \<noteq> 0"
      using m m2 last_str_nat[of c'] last_str_nat[of c2] by (auto simp: str_nat_def last_map)
    ultimately have "length (nat_digits c2) = length (nat_digits c')"
      by (metis zeros_tail nat_digits_Nil(1))
    then have l2: "length (nat_digits c2) \<le> max_quantity_digits" using lim by simp
    have "dec_eq (DFin s c e) d"
    proof (cases "e \<le> 0")
      case True
      have "nat (e' - e) = nat e' + nat (- e)" using True False by simp
      then show ?thesis unfolding d using v s True
        by (subst dec_eq_iff[of e]) (auto simp: dec_int_def power_add)
    next
      case e: False
      have "nat e' = nat (e' - e) + nat e" using e v by simp
      then show ?thesis unfolding d using v s e
        by (subst dec_eq_iff[of 0]) (auto simp: dec_int_def power_add)
    qed
    then show ?thesis using d lim l2 f z2 by (simp add: fixed_text_int)
  qed
qed

lemma canonical_decimal_canon:
  assumes "canon_dec d"
  shows "canonical_decimal d = Inr d"
proof -
  obtain c e where d: "d = DFin False c e" and e: "e \<le> 0" "e < 0 \<longrightarrow> c mod 10 \<noteq> 0"
    and lt: "length (fixed_text c e) \<le> max_quantity_text"
    using assms by (cases d) auto
  show ?thesis
  proof (cases "c = 0")
    case True
    then have "e = 0" using e by (cases "e = 0") auto
    then show ?thesis using True d by (simp add: canonical_decimal_def dec0_def)
  next
    case False
    obtain c' e' where z: "strip_zeros (length (nat_digits c)) c e = (c', e')" by (meson surj_pair)
    have lim: "length (nat_digits c') \<le> max_quantity_digits" using assms d z by simp
    have m: "c' mod 10 \<noteq> 0" using strip_zeros_stop[OF _ digits_lt z] False by simp
    then have pos: "0 < c'" by (cases c') auto
    have t: "fixed_text c' e' = fixed_text c e"
    proof (cases "e < 0")
      case True
      then show ?thesis using e z by (simp add: strip_zeros_same)
    next
      case False
      then have e0: "e = 0" using e by simp
      then have "0 \<le> e'" "c = c' * 10 ^ nat e'" using strip_zeros_val[OF z] by auto
      then show ?thesis using pos e0 by (simp add: fixed_text_zeros fixed_text_int)
    qed
    have "\<not> int max_quantity_text < (let n = int (length (nat_digits c')); position = n + e' in
        if position \<le> 0 then 2 - position + n else if n \<le> position then position else n + 1)"
      unfolding fixed_length[OF pos, symmetric] t using lt by simp
    moreover have "46 \<in> set (fixed_text c e) \<Longrightarrow>
        py_rstrip_char 46 (py_rstrip_char 48 (fixed_text c e)) = fixed_text c e"
      using fixed_strip[OF m refl, of e'] t by simp
    ultimately have "canonical_decimal d = dec_parse (fixed_text c' e')"
      using False d lim lt t z by (simp add: canonical_decimal_def Let_def)
    then show ?thesis unfolding t using d e by (simp add: dec_parse_fixed)
  qed
qed

lemma parse_canonical_text:
  assumes "canon_dec d"
  shows "parse_canonical_decimal (JStr (dec_format_f d)) = Inr d"
proof -
  obtain c e where d: "d = DFin False c e" and e: "e \<le> 0"
    and lt: "length (fixed_text c e) \<le> max_quantity_text"
    using assms by (cases d) auto
  have "list_all (\<lambda>c. c < 128) (fixed_text c e)"
    using fixed_text_ascii by (auto simp: list_all_iff)
  then show ?thesis
    using assms d e lt canonical_decimal_canon[OF assms]
    by (simp add: parse_canonical_decimal_def dec_parse_fixed)
qed

lemma canonical_decimal_ok: "canonical_decimal v = Inr d \<Longrightarrow> canon_dec d"
  using canonical_decimal_spec by (cases v) (auto simp: canonical_decimal_def)

lemma parse_canonical_ok:
  "parse_canonical_decimal v = Inr d \<Longrightarrow> canon_dec d \<and> v = JStr (dec_format_f d)"
  by (auto simp: parse_canonical_decimal_def result_simps canonical_decimal_ok
      split: json.splits if_splits sum.splits)

text \<open>The value is kept, and the canonical form is unique: two canonical decimals of the same value
  are the same.\<close>

lemma dec_int_nonneg: "dec_int k False c e = int (c * 10 ^ nat (e - k))"
  by (simp add: dec_int_def)

lemma canon_dec_unique:
  assumes "canon_dec d" "canon_dec d'" "dec_eq d d'"
  shows "d = d'"
proof -
  have aux: "x = y \<and> e = f"
    if "e \<le> f" "f \<le> 0" "e < 0 \<longrightarrow> x mod 10 \<noteq> 0" "dec_eq (DFin False x e) (DFin False y f)" for x y e f
  proof -
    have "int x = int (y * 10 ^ nat (f - e))"
      using that(4) dec_eq_iff[of e e f False x False y] that(1) by (simp add: dec_int_nonneg)
    then have x: "x = y * 10 ^ nat (f - e)" by linarith
    show ?thesis
    proof (cases "e = f")
      case False
      then have "nat (f - e) = Suc (nat (f - e - 1))" "e < 0" using that by auto
      then have "x mod 10 = 0" using x by simp
      then show ?thesis using that(3) \<open>e < 0\<close> by simp
    qed (use x in simp)
  qed
  obtain c e c' e' where d: "d = DFin False c e" "d' = DFin False c' e'"
    and e: "e \<le> 0" "e < 0 \<longrightarrow> c mod 10 \<noteq> 0" "e' \<le> 0" "e' < 0 \<longrightarrow> c' mod 10 \<noteq> 0"
    using assms(1,2) by (cases d; cases d') auto
  have "dec_eq (DFin False c' e') (DFin False c e)" using assms(3) d by (simp add: min.commute)
  then show ?thesis
    using aux[of e e' c c'] aux[of e' e c' c] e assms(3) d by (cases "e \<le> e'") auto
qed

section \<open>The data classes\<close>

type_synonym safe_error = error_code

record quantity =
  q_value :: dec
  q_metric :: metric_kind
  q_unit :: ustr

definition mk_quantity :: "(ustr \<Rightarrow> ustr) \<Rightarrow> dec \<Rightarrow> json \<Rightarrow> json \<Rightarrow> py_exn + quantity" where
  "mk_quantity nfc value metric un =
     rbind (canonical_decimal value) (\<lambda>v.
     rbind (enum_of mk_members mk_value metric ''invalid quota metric'') (\<lambda>m.
     rbind (canonical_identity nfc un ''invalid quota unit'') (\<lambda>n.
     Inr \<lparr>q_value = v, q_metric = m, q_unit = n\<rparr>)))"

record window =
  w_kind :: window_kind
  w_scope :: ustr
  w_period :: ustr
  w_plan_id :: "ustr option"
  w_availability :: availability
  w_source_id :: "ustr option"
  w_limit :: "quantity option"
  w_used :: "quantity option"
  w_remaining :: "quantity option"
  w_reset_at :: "datetime option"

definition somes :: "'a option list \<Rightarrow> 'a list" where
  "somes xs = map the (filter (\<lambda>x. x \<noteq> None) xs)"

definition w_quantities :: "window \<Rightarrow> quantity list" where
  "w_quantities w = somes [w_limit w, w_used w, w_remaining w]"

fun expected_metric :: "window_kind \<Rightarrow> metric_kind option" where
  "expected_metric KCommercial = Some MCommercial"
| "expected_metric KTechnical = Some MTechnical"
| "expected_metric KOther = None"

text \<open>\<open>used.value + remaining.value\<close> in the default context of 28 digits.\<close>

fun dec_sum28 :: "dec \<Rightarrow> dec \<Rightarrow> dec" where
  "dec_sum28 (DFin s c e) (DFin t d f) = (case dec_add 28 (c, e) (d, f) of (x, k) \<Rightarrow> DFin False x k)"
| "dec_sum28 _ _ = DNaN"

definition above :: "quantity option \<Rightarrow> quantity \<Rightarrow> bool" where
  "above q l = (case q of Some x \<Rightarrow> dec_less (q_value l) (q_value x) | None \<Rightarrow> False)"

definition sum_differs :: "quantity option \<Rightarrow> quantity option \<Rightarrow> quantity \<Rightarrow> bool" where
  "sum_differs us re l = (case (us, re) of
     (Some x, Some r) \<Rightarrow> \<not> dec_eq (dec_sum28 (q_value x) (q_value r)) (q_value l) | _ \<Rightarrow> False)"

text \<open>The checks of \<open>QuotaWindowView.__post_init__\<close> on the values, after the fields are
  canonical.\<close>

definition window_values_check :: "window \<Rightarrow> py_exn + window" where
  "window_values_check w =
     (let values = w_quantities w in
      if w_availability w = AKnown then
        if values = [] then Inl (ValueError ''known quota window requires a quantity'')
        else if (case expected_metric (w_kind w) of None \<Rightarrow> False
                 | Some m \<Rightarrow> \<exists>q \<in> set values. q_metric q \<noteq> m)
        then Inl (ValueError ''quota quantities must match their window kind'')
        else if length (remdups (map (\<lambda>q. (q_metric q, q_unit q)) values)) \<noteq> 1
        then Inl (ValueError ''quota quantities must use the same metric and unit'')
        else (case w_limit w of
                None \<Rightarrow> Inr w
              | Some l \<Rightarrow>
                  if above (w_used w) l then Inl (ValueError ''used quota cannot exceed limit'')
                  else if above (w_remaining w) l then Inl (ValueError ''remaining quota cannot exceed limit'')
                  else if sum_differs (w_used w) (w_remaining w) l
                  then Inl (ValueError ''used and remaining quota must equal limit'')
                  else Inr w)
      else if values \<noteq> [] \<or> w_reset_at w \<noteq> None
      then Inl (ValueError ''non-known quota cannot contain numeric values or a reset'')
      else Inr w)"

definition mk_window ::
  "(ustr \<Rightarrow> ustr) \<Rightarrow> json \<Rightarrow> json \<Rightarrow> json \<Rightarrow> json option \<Rightarrow> json \<Rightarrow> ustr option \<Rightarrow> quantity option
     \<Rightarrow> quantity option \<Rightarrow> quantity option \<Rightarrow> datetime option \<Rightarrow> py_exn + window" where
  "mk_window nfc kind scope period plan avail src limit used remaining reset =
     rbind (enum_of wk_members wk_value kind ''invalid quota window kind'') (\<lambda>k.
     rbind (enum_of av_members av_value avail ''invalid quota availability'') (\<lambda>a.
     rbind (canonical_identity nfc scope ''invalid quota scope'') (\<lambda>sc.
     rbind (canonical_identity nfc period ''invalid quota period'') (\<lambda>pe.
     rbind (ropt (\<lambda>p. canonical_identity nfc p ''invalid quota plan id'') plan) (\<lambda>pl.
     rbind (source_id src) (\<lambda>so.
     rbind (ropt (\<lambda>r. check_aware r ''invalid quota reset timestamp'') reset) (\<lambda>re.
     window_values_check
       \<lparr>w_kind = k, w_scope = sc, w_period = pe, w_plan_id = pl, w_availability = a, w_source_id = so,
        w_limit = limit, w_used = used, w_remaining = remaining, w_reset_at = re\<rparr>)))))))"

record resets =
  r_available_count :: int
  r_next_expires_at :: "datetime option"

definition mk_resets :: "json \<Rightarrow> datetime option \<Rightarrow> py_exn + resets" where
  "mk_resets count expiry = (case count of
     JInt n \<Rightarrow>
       if n < 0 then Inl (ValueError ''invalid reset count'')
       else rbind (ropt (\<lambda>d. check_aware d ''invalid reset expiry'') expiry) (\<lambda>e.
         if e \<noteq> None \<and> n = 0 then Inl (ValueError ''zero reset count cannot have expiry'')
         else Inr \<lparr>r_available_count = n, r_next_expires_at = e\<rparr>)
   | _ \<Rightarrow> Inl (ValueError ''invalid reset count''))"

text \<open>\<open>value.__post_init__()\<close> called again on an existing view.\<close>

definition recheck_resets :: "resets \<Rightarrow> py_exn + resets" where
  "recheck_resets r = mk_resets (JInt (r_available_count r)) (r_next_expires_at r)"

record snapshot =
  s_public_state :: public_state
  s_freshness :: freshness
  s_status_observed_at :: datetime
  s_fetched_at :: datetime
  s_data_at :: datetime
  s_source_id :: "ustr option"
  s_windows :: "window list"
  s_resets :: "resets option"

definition window_identity :: "window \<Rightarrow> window_kind \<times> ustr \<times> ustr" where
  "window_identity w = (w_kind w, w_scope w, w_period w)"

definition mk_snapshot ::
  "json \<Rightarrow> json \<Rightarrow> datetime \<Rightarrow> datetime \<Rightarrow> datetime \<Rightarrow> ustr option \<Rightarrow> window list \<Rightarrow> resets option
     \<Rightarrow> py_exn + snapshot" where
  "mk_snapshot pub fresh status fetched data src windows rs =
     rbind (enum_of pub_members pub_value pub ''invalid public provider state'') (\<lambda>p.
     rbind (enum_of fr_members fr_value fresh ''invalid snapshot freshness'') (\<lambda>f.
     rbind (ropt recheck_resets rs) (\<lambda>_.
     rbind (check_aware status ''invalid status timestamp'') (\<lambda>_.
     rbind (check_aware fetched ''invalid fetched timestamp'') (\<lambda>_.
     rbind (check_aware data ''invalid data timestamp'') (\<lambda>_.
     if \<not> dt_le status fetched \<or> \<not> dt_le data fetched
     then Inl (ValueError ''snapshot timestamps cannot be newer than fetched_at'')
     else rbind (source_id src) (\<lambda>so.
       if max_quota_windows < length windows then Inl (ValueError ''snapshot contains too many quota windows'')
       else if \<not> distinct (map window_identity windows)
       then Inl (ValueError ''snapshot cannot contain ambiguous quota windows'')
       else if p = PRateLimited \<and> (\<exists>w \<in> set windows. w_kind w \<noteq> KTechnical)
       then Inl (ValueError ''rate-limited snapshots can only contain technical windows'')
       else Inr \<lparr>s_public_state = p, s_freshness = f, s_status_observed_at = status, s_fetched_at = fetched,
         s_data_at = data, s_source_id = so, s_windows = windows, s_resets = rs\<rparr>)))))))"

definition legacy_state_for_snapshot :: "snapshot \<Rightarrow> provider_state" where
  "legacy_state_for_snapshot s =
     (if s_freshness s = Stale then StUnavailable
      else if s_public_state s = PAvailable then Success
      else if s_public_state s = PUnavailable then StUnavailable
      else if s_public_state s = PPartial then Success else StUnavailable)"

record view =
  v_provider :: provider_key
  v_state :: provider_state
  v_error :: "safe_error option"
  v_display_label :: "ustr option"
  v_outcome :: "provider_outcome option"
  v_snapshot :: "snapshot option"
  v_not_run_reason :: "ustr option"

definition view_outcome_check ::
  "provider_state \<Rightarrow> safe_error option \<Rightarrow> snapshot option \<Rightarrow> provider_outcome \<Rightarrow> py_exn + provider_outcome" where
  "view_outcome_check state err snap out =
     (if out = OSnapshot \<and> snap = None then Inl (ValueError ''snapshot outcome requires a snapshot'')
      else if out = OSnapshot \<and> (state = SafeErr \<or> err \<noteq> None)
      then Inl (ValueError ''snapshot cannot carry an execution error'')
      else if out \<noteq> OSnapshot \<and> snap \<noteq> None then Inl (ValueError ''only snapshot outcome may carry a snapshot'')
      else if out = OExecError \<and> state \<noteq> SafeErr then Inl (ValueError ''execution_error requires safe_error state'')
      else if out \<noteq> OExecError \<and> err \<noteq> None \<and> out \<noteq> OSnapshot
      then Inl (ValueError ''only execution_error may carry an error code'')
      else Inr out)"

definition view_outcome ::
  "provider_state \<Rightarrow> safe_error option \<Rightarrow> json option \<Rightarrow> snapshot option \<Rightarrow> py_exn + provider_outcome option" where
  "view_outcome state err outcome snap = (case outcome of
     None \<Rightarrow> if snap \<noteq> None then Inl (ValueError ''snapshot requires a snapshot outcome'') else Inr None
   | Some x \<Rightarrow>
       rbind (enum_of po_members po_value x ''invalid provider outcome'') (\<lambda>out.
       rbind (view_outcome_check state err snap out) (\<lambda>out. Inr (Some out))))"

definition mk_view ::
  "json \<Rightarrow> json \<Rightarrow> safe_error option \<Rightarrow> json \<Rightarrow> json option \<Rightarrow> snapshot option \<Rightarrow> ustr option
     \<Rightarrow> py_exn + view" where
  "mk_view provider state err lbl outcome snap reason =
     rbind (enum_of pk_members pk_value provider ''invalid provider key'') (\<lambda>p.
     rbind (enum_of ps_members ps_value state ''invalid provider state'') (\<lambda>st.
     if st = SafeErr \<and> err = None then Inl (ValueError ''safe_error requires a safe error code'')
     else if st \<noteq> SafeErr \<and> err \<noteq> None then Inl (ValueError ''only safe_error may carry an error code'')
     else
       rbind (view_outcome st err outcome snap) (\<lambda>out.
       rbind (label lbl) (\<lambda>l.
       if reason \<noteq> None \<and> out \<noteq> Some ONotRun
       then Inl (ValueError ''only not_run may carry a not-run reason'')
       else Inr \<lparr>v_provider = p, v_state = st, v_error = err, v_display_label = l, v_outcome = out,
         v_snapshot = snap, v_not_run_reason = reason\<rparr>))))"

record document =
  d_providers :: "view list"
  d_error :: "safe_error option"

definition mk_document :: "view list \<Rightarrow> safe_error option \<Rightarrow> py_exn + document" where
  "mk_document providers err =
     (if map v_provider providers \<noteq> provider_order
      then Inl (ValueError ''providers must be ordered codex, opencode_go'')
      else Inr \<lparr>d_providers = providers, d_error = err\<rparr>)"

definition ordered :: "view \<Rightarrow> view \<Rightarrow> safe_error option \<Rightarrow> py_exn + document" where
  "ordered codex opencode err = mk_document [codex, opencode] err"

section \<open>Well-formed values\<close>

text \<open>What every constructed value satisfies: the invariants of the frozen classes. \<open>quantity_ok\<close>
  to \<open>view_ok\<close> say it of the fields, \<open>mk_quantity_ok\<close> to \<open>mk_view_ok\<close> that the constructors
  establish it, and \<open>mk_window_same\<close> to \<open>mk_view_same\<close> that constructing a value again from its own fields gives it back.\<close>

definition quantity_ok :: "(ustr \<Rightarrow> ustr) \<Rightarrow> quantity \<Rightarrow> bool" where
  "quantity_ok nfc q \<longleftrightarrow> canon_dec (q_value q) \<and> identity_ok nfc (q_unit q)"

definition opt_all :: "('a \<Rightarrow> bool) \<Rightarrow> 'a option \<Rightarrow> bool" where
  "opt_all P x \<longleftrightarrow> (case x of None \<Rightarrow> True | Some y \<Rightarrow> P y)"

lemma opt_all_simps [simp]: "opt_all P None" "opt_all P (Some y) = P y"
  by (simp_all add: opt_all_def)

definition safe_source :: "ustr option \<Rightarrow> bool" where
  "safe_source s \<longleftrightarrow> s \<in> {None, Some codex_source_id, Some opencode_source_id}"

definition window_ok :: "(ustr \<Rightarrow> ustr) \<Rightarrow> window \<Rightarrow> bool" where
  "window_ok nfc w \<longleftrightarrow> identity_ok nfc (w_scope w) \<and> identity_ok nfc (w_period w)
     \<and> opt_all (identity_ok nfc) (w_plan_id w) \<and> safe_source (w_source_id w)
     \<and> list_all (quantity_ok nfc) (w_quantities w) \<and> opt_all aware (w_reset_at w)
     \<and> window_values_check w = Inr w"

definition resets_ok :: "resets \<Rightarrow> bool" where
  "resets_ok r \<longleftrightarrow> 0 \<le> r_available_count r \<and> opt_all aware (r_next_expires_at r)
     \<and> (r_next_expires_at r \<noteq> None \<longrightarrow> r_available_count r \<noteq> 0)"

definition snapshot_ok :: "(ustr \<Rightarrow> ustr) \<Rightarrow> snapshot \<Rightarrow> bool" where
  "snapshot_ok nfc s \<longleftrightarrow> aware (s_status_observed_at s) \<and> aware (s_fetched_at s) \<and> aware (s_data_at s)
     \<and> dt_le (s_status_observed_at s) (s_fetched_at s) \<and> dt_le (s_data_at s) (s_fetched_at s)
     \<and> safe_source (s_source_id s) \<and> list_all (window_ok nfc) (s_windows s)
     \<and> length (s_windows s) \<le> max_quota_windows \<and> distinct (map window_identity (s_windows s))
     \<and> (s_public_state s = PRateLimited \<longrightarrow> (\<forall>w \<in> set (s_windows s). w_kind w = KTechnical))
     \<and> opt_all resets_ok (s_resets s)"

definition label_ok :: "ustr \<Rightarrow> bool" where
  "label_ok s \<longleftrightarrow> s \<noteq> [] \<and> length s \<le> max_display_label \<and> (\<forall>c \<in> set s. 32 \<le> c)"

definition view_ok :: "(ustr \<Rightarrow> ustr) \<Rightarrow> view \<Rightarrow> bool" where
  "view_ok nfc v \<longleftrightarrow> (v_state v = SafeErr \<longleftrightarrow> v_error v \<noteq> None)
     \<and> (v_outcome v = Some OSnapshot \<longleftrightarrow> v_snapshot v \<noteq> None)
     \<and> (v_outcome v = Some OSnapshot \<longrightarrow> v_state v \<noteq> SafeErr)
     \<and> (v_outcome v = Some OExecError \<longrightarrow> v_state v = SafeErr)
     \<and> (v_state v = SafeErr \<longrightarrow> v_outcome v \<in> {None, Some OExecError})
     \<and> opt_all (snapshot_ok nfc) (v_snapshot v) \<and> opt_all label_ok (v_display_label v)
     \<and> (v_not_run_reason v \<noteq> None \<longrightarrow> v_outcome v = Some ONotRun)"

lemma source_id_Inr: "source_id v = Inr so \<longleftrightarrow> so = v \<and> safe_source v"
  by (auto simp: source_id_def safe_source_def split: option.splits)

lemma source_same: "safe_source v \<Longrightarrow> source_id v = Inr v"
  by (simp add: source_id_Inr)

lemma check_aware_Inr: "check_aware d msg = Inr d' \<longleftrightarrow> d' = d \<and> aware d"
  by (auto simp: check_aware_def)

lemma window_values_check_Inr: "window_values_check w = Inr w' \<Longrightarrow> w' = w"
  by (auto simp: window_values_check_def Let_def split: if_splits option.splits)

lemma mk_quantity_ok: "nfc_law nfc \<Longrightarrow> mk_quantity nfc v m un = Inr q \<Longrightarrow> quantity_ok nfc q"
  by (auto simp: mk_quantity_def result_simps quantity_ok_def canonical_identity_ok canonical_decimal_ok)

lemma mk_window_ok:
  assumes "nfc_law nfc" "list_all (quantity_ok nfc) (somes [l, us, r])"
    "mk_window nfc k sc pe pl av so l us r re = Inr w"
  shows "window_ok nfc w"
proof -
  obtain k' a' sc' pe' pl' so' re' where x:
    "canonical_identity nfc sc ''invalid quota scope'' = Inr sc'"
    "canonical_identity nfc pe ''invalid quota period'' = Inr pe'"
    "ropt (\<lambda>p. canonical_identity nfc p ''invalid quota plan id'') pl = Inr pl'"
    "source_id so = Inr so'" "ropt (\<lambda>r. check_aware r ''invalid quota reset timestamp'') re = Inr re'"
    "window_values_check \<lparr>w_kind = k', w_scope = sc', w_period = pe', w_plan_id = pl', w_availability = a',
       w_source_id = so', w_limit = l, w_used = us, w_remaining = r, w_reset_at = re'\<rparr> = Inr w"
    using assms(3) unfolding mk_window_def rbind_Inr_iff by blast
  note w = window_values_check_Inr[OF x(6)]
  have "window_values_check w = Inr w" using x(6) unfolding w .
  moreover have "identity_ok nfc sc'" "identity_ok nfc pe'" "opt_all (identity_ok nfc) pl'"
    using x(1-3) canonical_identity_ok[OF assms(1)] by (auto simp: ropt_Inr_iff)
  ultimately show ?thesis
    using x(4,5) assms(2)
    by (auto simp: window_ok_def w w_quantities_def source_id_Inr ropt_Inr_iff check_aware_Inr)
qed

lemma mk_resets_ok: "mk_resets c e = Inr r \<Longrightarrow> resets_ok r"
  by (auto simp: mk_resets_def result_simps resets_ok_def ropt_Inr_iff check_aware_Inr
      split: json.splits if_splits)

lemma recheck_resets_same: "resets_ok r \<Longrightarrow> recheck_resets r = Inr r"
  by (cases r; cases "r_next_expires_at r")
    (auto simp: recheck_resets_def mk_resets_def resets_ok_def check_aware_def)

lemma recheck_resets_ok: "recheck_resets r = Inr r' \<Longrightarrow> r' = r \<and> resets_ok r"
proof -
  assume a: "recheck_resets r = Inr r'"
  then have "resets_ok r'" by (auto simp: recheck_resets_def dest: mk_resets_ok)
  moreover have "r' = r" using a
    by (auto simp: recheck_resets_def mk_resets_def result_simps ropt_Inr_iff check_aware_Inr split: if_splits)
  ultimately show ?thesis by simp
qed

lemma mk_snapshot_ok:
  assumes "list_all (window_ok nfc) ws" "mk_snapshot p f st fe da so ws rs = Inr s"
  shows "snapshot_ok nfc s"
  using assms
  by (auto simp: mk_snapshot_def result_simps snapshot_ok_def source_id_Inr ropt_Inr_iff check_aware_Inr
      split: if_splits dest: recheck_resets_ok)

lemma label_ok: "label v = Inr l \<Longrightarrow> opt_all label_ok l"
  by (force simp: label_def label_ok_def split: json.splits if_splits)

lemma mk_view_ok:
  assumes "opt_all (snapshot_ok nfc) snap" "mk_view p st e l o' snap re = Inr v"
  shows "view_ok nfc v"
proof -
  have o: "view_outcome (v_state v) e o' snap = Inr (v_outcome v)"
    and v: "v_error v = e" "v_snapshot v = snap" "opt_all label_ok (v_display_label v)"
      "v_state v = SafeErr \<longleftrightarrow> e \<noteq> None" "v_not_run_reason v \<noteq> None \<longrightarrow> v_outcome v = Some ONotRun"
    using assms(2) by (auto simp: mk_view_def result_simps dest!: label_ok split: if_splits)
  show ?thesis
    using o v assms(1)
    by (auto simp: view_ok_def view_outcome_def result_simps view_outcome_check_def
        split: option.splits if_splits)
qed

text \<open>Constructing a well-formed value again from its own fields gives it back.\<close>

lemma mk_quantity_same:
  "quantity_ok nfc q \<Longrightarrow> mk_quantity nfc (q_value q) (JStr (mk_value (q_metric q))) (JStr (q_unit q)) = Inr q"
  by (simp add: quantity_ok_def mk_quantity_def canonical_identity_same canonical_decimal_canon)

lemma mk_window_same:
  "window_ok nfc w \<Longrightarrow> mk_window nfc (JStr (wk_value (w_kind w))) (JStr (w_scope w)) (JStr (w_period w))
     (map_option JStr (w_plan_id w)) (JStr (av_value (w_availability w))) (w_source_id w)
     (w_limit w) (w_used w) (w_remaining w) (w_reset_at w) = Inr w"
  by (cases w; cases "w_plan_id w"; cases "w_reset_at w")
    (simp_all add: window_ok_def mk_window_def canonical_identity_same source_same check_aware_def)

lemma mk_snapshot_same:
  assumes "snapshot_ok nfc s"
  shows "mk_snapshot (JStr (pub_value (s_public_state s))) (JStr (fr_value (s_freshness s)))
     (s_status_observed_at s) (s_fetched_at s) (s_data_at s) (s_source_id s) (s_windows s) (s_resets s) = Inr s"
proof -
  note k = assms[unfolded snapshot_ok_def]
  have r: "ropt recheck_resets (s_resets s) = Inr (s_resets s)"
    using k by (cases "s_resets s") (auto simp: recheck_resets_same)
  have t: "\<not> (\<not> dt_le (s_status_observed_at s) (s_fetched_at s) \<or> \<not> dt_le (s_data_at s) (s_fetched_at s))"
    "\<not> max_quota_windows < length (s_windows s)"
    "\<not> (s_public_state s = PRateLimited \<and> (\<exists>w \<in> set (s_windows s). w_kind w \<noteq> KTechnical))"
    "distinct (map window_identity (s_windows s))" "source_id (s_source_id s) = Inr (s_source_id s)"
    using k by (auto simp: source_same)
  have c: "check_aware (s_status_observed_at s) m = Inr (s_status_observed_at s)"
    "check_aware (s_fetched_at s) m = Inr (s_fetched_at s)" "check_aware (s_data_at s) m = Inr (s_data_at s)" for m
    using k by (auto simp: check_aware_def)
  show ?thesis
    unfolding mk_snapshot_def pub_member fr_member r c rbind_simps using t by simp
qed

definition label_json :: "ustr option \<Rightarrow> json" where
  "label_json l = (case l of None \<Rightarrow> JNull | Some s \<Rightarrow> JStr s)"

lemma label_same: "opt_all label_ok l \<Longrightarrow> label (label_json l) = Inr l"
  by (cases l) (auto simp: label_def label_json_def label_ok_def)

lemma mk_view_same:
  assumes "view_ok nfc v"
  shows "mk_view (JStr (pk_value (v_provider v))) (JStr (ps_value (v_state v))) (v_error v)
     (label_json (v_display_label v)) (map_option (\<lambda>x. JStr (po_value x)) (v_outcome v)) (v_snapshot v)
     (v_not_run_reason v) = Inr v"
proof -
  note k = assms[unfolded view_ok_def]
  have o: "view_outcome (v_state v) (v_error v) (map_option (\<lambda>x. JStr (po_value x)) (v_outcome v)) (v_snapshot v)
      = Inr (v_outcome v)"
  proof (cases "v_outcome v")
    case None
    then show ?thesis using k by (simp add: view_outcome_def)
  next
    case (Some x)
    then have "view_outcome_check (v_state v) (v_error v) (v_snapshot v) x = Inr x"
      using k unfolding view_outcome_check_def by (cases x; cases "v_error v") simp_all
    then show ?thesis using Some by (simp add: view_outcome_def)
  qed
  have l: "label (label_json (v_display_label v)) = Inr (v_display_label v)"
    using k by (simp add: label_same)
  have e: "\<not> (v_state v = SafeErr \<and> v_error v = None)" "\<not> (v_state v \<noteq> SafeErr \<and> v_error v \<noteq> None)"
    "\<not> (v_not_run_reason v \<noteq> None \<and> v_outcome v \<noteq> Some ONotRun)"
    using k by blast+
  show ?thesis
    unfolding mk_view_def pk_member ps_member rbind_simps o l using e by simp
qed

lemmas [run] = provider_order_def codex_source_id_def opencode_source_id_def max_display_label_def
  max_quota_windows_def max_quantity_digits_def max_quantity_text_def enum_of_def pk_members_def ps_members_def
  po_members_def pub_members_def fr_members_def wk_members_def mk_members_def av_members_def ec_members_def
  label_def identity_char_def canonical_identity_def check_aware_def source_id_def identity_ok_def canonical_decimal_def
  parse_canonical_decimal_def mk_quantity_def somes_def w_quantities_def above_def sum_differs_def
  window_values_check_def mk_window_def mk_resets_def recheck_resets_def window_identity_def mk_snapshot_def
  legacy_state_for_snapshot_def view_outcome_check_def view_outcome_def mk_view_def mk_document_def ordered_def
  quantity_ok_def opt_all_def safe_source_def window_ok_def resets_ok_def snapshot_ok_def label_ok_def view_ok_def

lemma nfc_law_id: "nfc_law (\<lambda>s. s)"
  by (simp add: nfc_law_def)

section \<open>A concrete view\<close>

definition sample_quantity :: "nat \<Rightarrow> int \<Rightarrow> quantity" where
  "sample_quantity c e = \<lparr>q_value = DFin False c e, q_metric = MCommercial, q_unit = u ''req''\<rparr>"

definition sample_window :: "ustr option \<Rightarrow> string \<Rightarrow> window" where
  "sample_window src p = \<lparr>w_kind = KCommercial, w_scope = u ''account'', w_period = u p, w_plan_id = Some (u ''pro''),
     w_availability = AKnown, w_source_id = src, w_limit = Some (sample_quantity 100 0),
     w_used = Some (sample_quantity 405 (- 1)), w_remaining = Some (sample_quantity 595 (- 1)),
     w_reset_at = Some \<lparr>dt_us = 63072000000000, dt_off = Some 3600000000\<rparr>\<rparr>"

definition sample_snapshot :: "ustr \<Rightarrow> snapshot" where
  "sample_snapshot src = \<lparr>s_public_state = PAvailable, s_freshness = Fresh, s_status_observed_at = utc_of 0,
     s_fetched_at = utc_of 86400000001, s_data_at = utc_of 5, s_source_id = Some src,
     s_windows = [sample_window (Some codex_source_id) ''monthly'', sample_window (Some opencode_source_id) ''weekly''],
     s_resets = Some \<lparr>r_available_count = 3, r_next_expires_at = None\<rparr>\<rparr>"

definition sample_view :: view where
  "sample_view = \<lparr>v_provider = Codex, v_state = Success, v_error = None, v_display_label = Some (u ''Pro''),
     v_outcome = Some OSnapshot, v_snapshot = Some (sample_snapshot codex_source_id), v_not_run_reason = None\<rparr>"

lemmas sample_defs = sample_view_def sample_snapshot_def sample_window_def sample_quantity_def

lemma sample_view_ok: "view_ok (\<lambda>s. s) sample_view"
  by (simp add: run sample_defs)

section \<open>Properties\<close>

text \<open>C3: \<open>_canonical_decimal\<close> keeps the value, its result is in canonical form, canonicalising again
  changes nothing, and the fixed-point text of the result reads back as the result.\<close>

theorem canonical_decimal_correct:
  assumes "canonical_decimal v = Inr d"
  shows "canon_dec d \<and> dec_eq v d \<and> canonical_decimal d = Inr d
     \<and> parse_canonical_decimal (JStr (dec_format_f d)) = Inr d"
proof -
  obtain s c e where v: "v = DFin s c e" using assms by (cases v) (auto simp: canonical_decimal_def)
  have "canon_dec d" "dec_eq v d" using canonical_decimal_spec assms v by blast+
  then show ?thesis by (simp add: canonical_decimal_canon parse_canonical_text)
qed

theorem canonical_decimal_correct_witness:
  "canonical_decimal (DFin False 12500 (- 4)) = Inr (DFin False 125 (- 2))
     \<and> parse_canonical_decimal (JStr (u ''1.25'')) = Inr (DFin False 125 (- 2))"
proof -
  have c: "canonical_decimal (DFin False 12500 (- 4)) = Inr (DFin False 125 (- 2))"
    by (simp add: run cong: run_cong)
  have t: "dec_format_f (DFin False 125 (- 2)) = u ''1.25''"
    by (simp add: run cong: run_cong)
  show ?thesis using canonical_decimal_correct[OF c] c unfolding t by blast
qed

lemma dec_fix_small: "length (nat_digits c) \<le> prec \<Longrightarrow> dec_fix prec c e = (c, e)"
  by (simp add: dec_fix_def)

text \<open>C4: a known window with a limit, a used and a remaining quantity satisfies used + remaining =
  limit exactly whenever the sum has at most 28 digits on the common exponent (the default decimal
  context rounds longer sums, see \<open>window_sum_rounds\<close>).\<close>

theorem window_sum_exact:
  assumes "window_ok nfc w" "w_availability w = AKnown"
    and q: "w_limit w = Some l" "w_used w = Some us" "w_remaining w = Some r"
    and v: "q_value us = DFin False c e" "q_value r = DFin False d f"
    and small: "length (nat_digits (c * 10 ^ nat (e - min e f) + d * 10 ^ nat (f - min e f))) \<le> 28"
  shows "dec_eq (DFin False (c * 10 ^ nat (e - min e f) + d * 10 ^ nat (f - min e f)) (min e f)) (q_value l)"
proof -
  have "window_values_check w = Inr w" using assms(1) by (simp add: window_ok_def)
  then have "\<not> sum_differs (Some us) (Some r) l"
    using assms(2) q by (auto simp: window_values_check_def Let_def split: if_splits)
  then show ?thesis
    using v small by (simp add: sum_differs_def dec_add_def dec_fix_small del: dec_eq.simps)
qed

theorem window_sum_exact_witness:
  "dec_eq (DFin False (405 + 595) (- 1)) (DFin False 100 0)"
  using window_sum_exact[of "\<lambda>s. s" "sample_window (Some codex_source_id) ''monthly''" _ _ _ 405 "- 1" 595 "- 1"]
  by (simp add: run sample_defs)

text \<open>Beyond 28 digits the check compares a rounded sum, here at one input: a window whose used and remaining
  quantities exceed the limit by one is accepted, and one that adds up exactly is refused.\<close>

lemma window_sum_rounds:
  "(let q = (\<lambda>c. Some \<lparr>q_value = DFin False c 0, q_metric = MCommercial, q_unit = u ''req''\<rparr>);
              w = (\<lambda>l. (sample_window (Some codex_source_id) ''monthly'')
                \<lparr>w_limit := q l, w_used := q (10 ^ 28), w_remaining := q 1, w_reset_at := None\<rparr>) in
     window_values_check (w (10 ^ 28)) = Inr (w (10 ^ 28))
     \<and> window_values_check (w (10 ^ 28 + 1)) = Inl (ValueError ''used and remaining quota must equal limit''))"
  by (simp add: run sample_defs cong: run_cong)

end
