(* ===== verification/HelperWire.thy ===== *)
theory HelperWire
  imports Model
begin

text \<open>
  The wire format between the Codex worker process and its parent (\<open>codex_helper.py\<close>): the child
  writes one \<open>ProviderView\<close> as compact JSON (\<open>payload\<close>), the parent reads it back (\<open>decode\<close>) and
  turns anything malformed into an internal error. The parent trusts a window only when its source
  is the Codex source; of any other it keeps the identity and nothing else (\<open>wire_window\<close>).

  \<open>decode_payload\<close> is the round trip: what the parent reads is the redacted view, whatever the
  view was. \<open>\d\<close> in \<open>_CANONICAL_TIMESTAMP\<close> is read as an ASCII digit.
\<close>

definition max_response :: nat where
  "max_response = 64 * 1024"

text \<open>The hooks of \<open>_load_json\<close>: duplicate keys and constants raise \<open>ValueError\<close>.\<close>

definition wire_hooks :: json_hooks where
  "wire_hooks = strict_hooks (ValueError ''duplicate JSON field'') (ValueError ''invalid JSON number'')"

definition load_json :: "bytes \<Rightarrow> py_exn + json" where
  "load_json payload =
     (if payload = [] \<or> max_response < length payload then Inl (ValueError ''invalid JSON payload'')
      else (case rbind (utf8_decode payload) (loads wire_hooks) of
              Inl e \<Rightarrow> Inl (if is_ValueError e then ValueError ''invalid JSON payload'' else e)
            | Inr v \<Rightarrow> Inr v))"

text \<open>\<open>_object(value, fields)\<close>: a dict with exactly these keys. A lookup after it cannot fail.\<close>

definition wire_object :: "json \<Rightarrow> string list \<Rightarrow> py_exn + jobj" where
  "wire_object v ks = (case v of
     JObj d \<Rightarrow> if set (map fst d) = set (map u ks) then Inr d else Inl (ValueError ''invalid JSON object'')
   | _ \<Rightarrow> Inl (ValueError ''invalid JSON object''))"

definition fld :: "string \<Rightarrow> jobj \<Rightarrow> json" where
  "fld k d = (case dict_get (u k) d of Some v \<Rightarrow> v | None \<Rightarrow> JNull)"

definition enum_value :: "'a list \<Rightarrow> ('a \<Rightarrow> ustr) \<Rightarrow> json \<Rightarrow> py_exn + 'a" where
  "enum_value members val v = enum_of members val v ''invalid enum''"

definition jopt :: "('a \<Rightarrow> json) \<Rightarrow> 'a option \<Rightarrow> json" where
  "jopt f x = (case x of None \<Rightarrow> JNull | Some y \<Rightarrow> f y)"

definition wire_timestamp :: "datetime \<Rightarrow> py_exn + json" where
  "wire_timestamp d = rbind (to_utc d) (\<lambda>t. Inr (JStr (stamp_text (dt_us t))))"

definition decode_timestamp :: "json \<Rightarrow> py_exn + datetime" where
  "decode_timestamp v = (case v of
     JStr s \<Rightarrow> (case stamp_parse s of Inr t \<Rightarrow> Inr (utc_of t) | Inl _ \<Rightarrow> Inl (ValueError ''invalid timestamp''))
   | _ \<Rightarrow> Inl (ValueError ''invalid timestamp''))"

definition wire_source :: "(ustr \<Rightarrow> ustr) \<Rightarrow> json \<Rightarrow> ustr option" where
  "wire_source nfc v = (case v of JStr s \<Rightarrow> Some (py_strip (nfc s)) | _ \<Rightarrow> None)"

definition expected_source :: "provider_key \<Rightarrow> ustr" where
  "expected_source p = (if p = Codex then codex_source_id else opencode_source_id)"

definition source_for_provider :: "(ustr \<Rightarrow> ustr) \<Rightarrow> json \<Rightarrow> provider_key \<Rightarrow> ustr option" where
  "source_for_provider nfc v p =
     (if wire_source nfc v = Some (expected_source p) then Some (expected_source p) else None)"

section \<open>Writing\<close>

definition quantity_payload :: "quantity \<Rightarrow> json" where
  "quantity_payload q = JObj [(u ''metric'', JStr (mk_value (q_metric q))),
     (u ''value'', JStr (dec_format_f (q_value q))), (u ''unit'', JStr (q_unit q))]"

definition jresult_opt :: "('a \<Rightarrow> py_exn + json) \<Rightarrow> 'a option \<Rightarrow> py_exn + json" where
  "jresult_opt f x = (case x of None \<Rightarrow> Inr JNull | Some y \<Rightarrow> f y)"

definition window_payload :: "window \<Rightarrow> py_exn + json" where
  "window_payload w = rbind (jresult_opt wire_timestamp (w_reset_at w)) (\<lambda>reset. Inr (JObj [
     (u ''kind'', JStr (wk_value (w_kind w))),
     (u ''scope'', JStr (w_scope w)),
     (u ''period'', JStr (w_period w)),
     (u ''plan_id'', jopt JStr (w_plan_id w)),
     (u ''availability'', JStr (av_value (w_availability w))),
     (u ''source_id'', jopt JStr (w_source_id w)),
     (u ''reset_at'', reset),
     (u ''limit'', jopt quantity_payload (w_limit w)),
     (u ''used'', jopt quantity_payload (w_used w)),
     (u ''remaining'', jopt quantity_payload (w_remaining w))]))"

definition reset_payload :: "resets option \<Rightarrow> py_exn + json" where
  "reset_payload v = (case v of
     None \<Rightarrow> Inr JNull
   | Some r \<Rightarrow> rbind (recheck_resets r) (\<lambda>_. rbind (jresult_opt wire_timestamp (r_next_expires_at r)) (\<lambda>e.
       Inr (JObj [(u ''available_count'', JInt (r_available_count r)), (u ''next_expires_at'', e)]))))"

definition snapshot_payload :: "snapshot \<Rightarrow> py_exn + json" where
  "snapshot_payload s =
     rbind (wire_timestamp (s_status_observed_at s)) (\<lambda>st.
     rbind (wire_timestamp (s_fetched_at s)) (\<lambda>fe.
     rbind (wire_timestamp (s_data_at s)) (\<lambda>da.
     rbind (rmap window_payload (s_windows s)) (\<lambda>ws.
     rbind (reset_payload (s_resets s)) (\<lambda>rs.
     Inr (JObj [
       (u ''public_state'', JStr (pub_value (s_public_state s))),
       (u ''freshness'', JStr (fr_value (s_freshness s))),
       (u ''status_observed_at'', st),
       (u ''fetched_at'', fe),
       (u ''data_at'', da),
       (u ''source_id'', jopt JStr (s_source_id s)),
       (u ''windows'', JList ws),
       (u ''rate_limit_reset_credits'', rs)]))))))"

definition view_payload :: "view \<Rightarrow> py_exn + json" where
  "view_payload v = rbind (jresult_opt snapshot_payload (v_snapshot v)) (\<lambda>s. Inr (JObj [
     (u ''provider'', JStr (pk_value (v_provider v))),
     (u ''state'', JStr (ps_value (v_state v))),
     (u ''outcome'', jopt (\<lambda>x. JStr (po_value x)) (v_outcome v)),
     (u ''display_label'', jopt JStr (v_display_label v)),
     (u ''error'', jopt (\<lambda>e. JObj [(u ''code'', JStr (ec_value e))]) (v_error v)),
     (u ''snapshot'', s)]))"

definition payload :: "view \<Rightarrow> py_exn + bytes" where
  "payload v =
     rbind (view_payload v) (\<lambda>item.
     rbind (dumps_strict (compact False) item) (\<lambda>t.
     rbind (utf8_encode t) (\<lambda>b.
     if max_response < length b then Inl (ValueError ''response oversize'') else Inr b)))"

section \<open>Reading\<close>

definition error_view :: "error_code \<Rightarrow> view" where
  "error_view c = \<lparr>v_provider = Codex, v_state = SafeErr, v_error = Some c, v_display_label = None,
     v_outcome = Some OExecError, v_snapshot = None, v_not_run_reason = None\<rparr>"

definition nullable :: "(json \<Rightarrow> py_exn + 'a) \<Rightarrow> json \<Rightarrow> py_exn + 'a option" where
  "nullable f v = (if v = JNull then Inr None else rbind (f v) (\<lambda>x. Inr (Some x)))"

definition decode_quantity :: "(ustr \<Rightarrow> ustr) \<Rightarrow> json \<Rightarrow> py_exn + quantity" where
  "decode_quantity nfc v =
     rbind (wire_object v [''metric'', ''value'', ''unit'']) (\<lambda>item.
     rbind (enum_value mk_members mk_value (fld ''metric'' item)) (\<lambda>m.
     rbind (canonical_identity nfc (fld ''unit'' item) ''invalid quota unit'') (\<lambda>un.
     rbind (parse_canonical_decimal (fld ''value'' item)) (\<lambda>d.
     mk_quantity nfc d (JStr (mk_value m)) (JStr un)))))"

definition window_fields :: "string list" where
  "window_fields = [''kind'', ''scope'', ''period'', ''plan_id'', ''availability'', ''source_id'', ''reset_at'',
     ''limit'', ''used'', ''remaining'']"

definition trusted :: "bool \<Rightarrow> (json \<Rightarrow> py_exn + 'a) \<Rightarrow> json \<Rightarrow> py_exn + 'a option" where
  "trusted t f v = (if t then nullable f v else Inr None)"

definition decode_window :: "(ustr \<Rightarrow> ustr) \<Rightarrow> provider_key \<Rightarrow> json \<Rightarrow> py_exn + window" where
  "decode_window nfc p v =
     rbind (wire_object v window_fields) (\<lambda>item.
     let src = source_for_provider nfc (fld ''source_id'' item) p; t = (src \<noteq> None) in
     rbind (trusted t (\<lambda>x. canonical_identity nfc x ''invalid quota plan id'') (fld ''plan_id'' item)) (\<lambda>plan.
     rbind (trusted t decode_timestamp (fld ''reset_at'' item)) (\<lambda>reset.
     rbind (if t then enum_value av_members av_value (fld ''availability'' item) else Inr AUnavailable) (\<lambda>av.
     rbind (enum_value wk_members wk_value (fld ''kind'' item)) (\<lambda>k.
     rbind (canonical_identity nfc (fld ''scope'' item) ''invalid quota scope'') (\<lambda>sc.
     rbind (canonical_identity nfc (fld ''period'' item) ''invalid quota period'') (\<lambda>pe.
     rbind (trusted t (decode_quantity nfc) (fld ''limit'' item)) (\<lambda>l.
     rbind (trusted t (decode_quantity nfc) (fld ''used'' item)) (\<lambda>us.
     rbind (trusted t (decode_quantity nfc) (fld ''remaining'' item)) (\<lambda>re.
     mk_window nfc (JStr (wk_value k)) (JStr sc) (JStr pe) (map_option JStr plan) (JStr (av_value av)) src
       l us re reset))))))))))"

definition decode_resets :: "json \<Rightarrow> py_exn + resets option" where
  "decode_resets v =
     nullable (\<lambda>v. rbind (wire_object v [''available_count'', ''next_expires_at'']) (\<lambda>item.
       rbind (nullable decode_timestamp (fld ''next_expires_at'' item)) (\<lambda>e.
       mk_resets (fld ''available_count'' item) e))) v"

definition snapshot_fields :: "string list" where
  "snapshot_fields = [''public_state'', ''freshness'', ''status_observed_at'', ''fetched_at'', ''data_at'', ''source_id'',
     ''windows'', ''rate_limit_reset_credits'']"

definition decode_snapshot :: "(ustr \<Rightarrow> ustr) \<Rightarrow> provider_key \<Rightarrow> json \<Rightarrow> py_exn + snapshot" where
  "decode_snapshot nfc p v =
     rbind (wire_object v snapshot_fields) (\<lambda>item.
     case fld ''windows'' item of
       JList windows \<Rightarrow>
         if max_quota_windows < length windows then Inl (ValueError ''invalid quota windows'')
         else rbind (rmap (decode_window nfc p) windows) (\<lambda>ws.
           if \<not> distinct (map window_identity ws) then Inl (ValueError ''duplicate quota window'')
           else
             rbind (enum_value pub_members pub_value (fld ''public_state'' item)) (\<lambda>pub.
             rbind (enum_value fr_members fr_value (fld ''freshness'' item)) (\<lambda>fr.
             rbind (decode_timestamp (fld ''status_observed_at'' item)) (\<lambda>st.
             rbind (decode_timestamp (fld ''fetched_at'' item)) (\<lambda>fe.
             rbind (decode_timestamp (fld ''data_at'' item)) (\<lambda>da.
             rbind (decode_resets (fld ''rate_limit_reset_credits'' item)) (\<lambda>rs.
             mk_snapshot (JStr (pub_value pub)) (JStr (fr_value fr)) st fe da
               (source_for_provider nfc (fld ''source_id'' item) p) ws rs)))))))
     | _ \<Rightarrow> Inl (ValueError ''invalid quota windows''))"

definition wire_fields :: "string list" where
  "wire_fields = [''provider'', ''state'', ''outcome'', ''display_label'', ''error'', ''snapshot'']"

definition decode_label :: "json \<Rightarrow> py_exn + json" where
  "decode_label l = (case l of
     JNull \<Rightarrow> Inr JNull
   | JStr s \<Rightarrow>
       if max_display_label < length s \<or> (\<exists>c \<in> set s. c < 32) then Inl (ValueError ''invalid display label'')
       else rbind (utf8_encode s) (\<lambda>_. Inr (JStr s))
   | _ \<Rightarrow> Inl (ValueError ''invalid display label''))"

definition decode_error :: "provider_state \<Rightarrow> json \<Rightarrow> py_exn + error_code option" where
  "decode_error state raw =
     (if state = SafeErr then
        rbind (wire_object raw [''code'']) (\<lambda>item.
        rbind (enum_value ec_members ec_value (fld ''code'' item)) (\<lambda>c. Inr (Some c)))
      else if raw \<noteq> JNull then Inl (ValueError ''unexpected helper error'') else Inr None)"

definition decode_outcome_check ::
  "provider_state \<Rightarrow> provider_outcome option \<Rightarrow> error_code option \<Rightarrow> snapshot option \<Rightarrow> py_exn + unit" where
  "decode_outcome_check state outcome err snap =
     (if outcome = Some OSnapshot \<and> (snap = None \<or> state = SafeErr \<or> err \<noteq> None)
      then Inl (ValueError ''contradictory helper snapshot'')
      else if outcome = Some OSnapshot \<and> state \<noteq> legacy_state_for_snapshot (the snap)
      then Inl (ValueError ''contradictory helper snapshot state'')
      else if outcome \<noteq> Some OSnapshot \<and> snap \<noteq> None then Inl (ValueError ''unexpected helper snapshot'')
      else if outcome \<in> {Some OUndetected, Some ONotRun} \<and> state \<noteq> StUnavailable
      then Inl (ValueError ''contradictory helper outcome'')
      else if outcome = Some OExecError \<and> state \<noteq> SafeErr
      then Inl (ValueError ''contradictory helper error'')
      else Inr ())"

definition decode_view :: "(ustr \<Rightarrow> ustr) \<Rightarrow> json \<Rightarrow> py_exn + view" where
  "decode_view nfc j =
     rbind (wire_object j wire_fields) (\<lambda>v.
     rbind (enum_value pk_members pk_value (fld ''provider'' v)) (\<lambda>p.
     if p \<noteq> Codex then Inl (ValueError ''invalid helper provider'')
     else
       rbind (enum_value ps_members ps_value (fld ''state'' v)) (\<lambda>state.
       rbind (nullable (enum_value po_members po_value) (fld ''outcome'' v)) (\<lambda>outcome.
       rbind (decode_label (fld ''display_label'' v)) (\<lambda>lbl.
       rbind (decode_error state (fld ''error'' v)) (\<lambda>err.
       rbind (nullable (decode_snapshot nfc p) (fld ''snapshot'' v)) (\<lambda>snap.
       rbind (decode_outcome_check state outcome err snap) (\<lambda>_.
       mk_view (JStr (pk_value p)) (JStr (ps_value state)) err lbl
         (map_option (\<lambda>x. JStr (po_value x)) outcome) snap None))))))))"

definition decode :: "(ustr \<Rightarrow> ustr) \<Rightarrow> bytes \<Rightarrow> view" where
  "decode nfc b = (case rbind (load_json b) (decode_view nfc) of Inr v \<Rightarrow> v | Inl _ \<Rightarrow> error_view EInternal)"

section \<open>The round trip\<close>

text \<open>What the parent keeps: times in UTC, no not-run reason, and of a window from another source
  its identity alone.\<close>

definition utc_dt :: "datetime \<Rightarrow> datetime" where
  "utc_dt d = utc_of (utc_us d)"

definition wire_window :: "window \<Rightarrow> window" where
  "wire_window w =
     (if w_source_id w = Some codex_source_id then w\<lparr>w_reset_at := map_option utc_dt (w_reset_at w)\<rparr>
      else w\<lparr>w_plan_id := None, w_availability := AUnavailable, w_source_id := None, w_limit := None,
             w_used := None, w_remaining := None, w_reset_at := None\<rparr>)"

definition wire_resets :: "resets \<Rightarrow> resets" where
  "wire_resets r = r\<lparr>r_next_expires_at := map_option utc_dt (r_next_expires_at r)\<rparr>"

definition wire_snapshot :: "snapshot \<Rightarrow> snapshot" where
  "wire_snapshot s = s\<lparr>s_status_observed_at := utc_dt (s_status_observed_at s),
     s_fetched_at := utc_dt (s_fetched_at s), s_data_at := utc_dt (s_data_at s),
     s_source_id := (if s_source_id s = Some codex_source_id then s_source_id s else None),
     s_windows := map wire_window (s_windows s), s_resets := map_option wire_resets (s_resets s)\<rparr>"

definition wire_view :: "view \<Rightarrow> view" where
  "wire_view v = v\<lparr>v_snapshot := map_option wire_snapshot (v_snapshot v), v_not_run_reason := None\<rparr>"

lemma fld_simps [simp]: "fld k ((u k', v) # d) = (if k = k' then v else fld k d)"
  by (simp add: fld_def dict_get_def)

lemma utc_dt_simps [simp]: "aware (utc_dt d)" "dt_le (utc_dt a) (utc_dt b) = dt_le a b" "utc_us (utc_dt d) = utc_us d"
  by (simp_all add: utc_dt_def utc_of_def aware_def dt_le_def utc_us_def)

lemma timestamp_trip: "wire_timestamp d = Inr j \<Longrightarrow> decode_timestamp j = Inr (utc_dt d) \<and> j \<noteq> JNull"
  by (auto simp: wire_timestamp_def to_utc_def decode_timestamp_def utc_dt_def stamp_parse_text utc_of_def
      split: if_splits)

lemma timestamp_opt_trip:
  "jresult_opt wire_timestamp x = Inr j \<Longrightarrow> nullable decode_timestamp j = Inr (map_option utc_dt x)"
  by (cases x) (auto simp: jresult_opt_def nullable_def dest: timestamp_trip)

lemma quantity_trip: "quantity_ok nfc q \<Longrightarrow> decode_quantity nfc (quantity_payload q) = Inr q"
proof -
  assume q: "quantity_ok nfc q"
  have "wire_object (quantity_payload q) [''metric'', ''value'', ''unit''] =
      Inr [(u ''metric'', JStr (mk_value (q_metric q))), (u ''value'', JStr (dec_format_f (q_value q))),
           (u ''unit'', JStr (q_unit q))]"
    by (simp add: wire_object_def quantity_payload_def)
  then show ?thesis
    using q mk_quantity_same[OF q]
    by (simp add: decode_quantity_def enum_value_def canonical_identity_same parse_canonical_text quantity_ok_def)
qed

lemma quantity_opt_trip:
  "opt_all (quantity_ok nfc) q \<Longrightarrow> nullable (decode_quantity nfc) (jopt quantity_payload q) = Inr q"
  by (cases q) (auto simp: nullable_def jopt_def quantity_trip quantity_payload_def[THEN arg_cong, of "\<lambda>x. x = JNull"])

lemma identity_opt_trip:
  "opt_all (identity_ok nfc) x \<Longrightarrow> nullable (\<lambda>v. canonical_identity nfc v msg) (jopt JStr x) = Inr x"
  by (cases x) (auto simp: nullable_def jopt_def canonical_identity_same)

lemma source_trip:
  assumes "nfc_law nfc" "safe_source so"
  shows "source_for_provider nfc (jopt JStr so) Codex = (if so = Some codex_source_id then so else None)"
proof -
  have a: "\<forall>c \<in> set codex_source_id. c < 128" "\<forall>c \<in> set opencode_source_id. c < 128"
    by (simp_all add: codex_source_id_def opencode_source_id_def u_Cons)
  have s: "py_strip codex_source_id = codex_source_id" "py_strip opencode_source_id = opencode_source_id"
    "opencode_source_id \<noteq> codex_source_id"
    by (simp_all add: codex_source_id_def opencode_source_id_def u_Cons py_strip_def py_space_def)
  have "nfc codex_source_id = codex_source_id" "nfc opencode_source_id = opencode_source_id"
    using assms(1) a by (simp_all add: nfc_law_def)
  then show ?thesis
    using assms(2) s
    by (auto simp: safe_source_def source_for_provider_def wire_source_def jopt_def expected_source_def)
qed

lemma window_values_check_reset:
  "window_values_check w = Inr w \<Longrightarrow>
   window_values_check (w\<lparr>w_reset_at := map_option utc_dt (w_reset_at w)\<rparr>) = Inr (w\<lparr>w_reset_at := map_option utc_dt (w_reset_at w)\<rparr>)"
  by (auto simp: window_values_check_def Let_def w_quantities_def split: if_splits option.splits)

lemma wire_window_ok:
  assumes "window_ok nfc w"
  shows "window_ok nfc (wire_window w)"
proof (cases "w_source_id w = Some codex_source_id")
  case True
  then show ?thesis
    using assms window_values_check_reset[of w]
    by (cases "w_reset_at w") (auto simp: window_ok_def wire_window_def w_quantities_def)
next
  case False
  then show ?thesis
    using assms by (auto simp: window_ok_def wire_window_def w_quantities_def somes_def safe_source_def
        window_values_check_def Let_def)
qed

lemma quantities_opt:
  "list_all P (w_quantities w) \<longleftrightarrow> opt_all P (w_limit w) \<and> opt_all P (w_used w) \<and> opt_all P (w_remaining w)"
  by (cases "w_limit w"; cases "w_used w"; cases "w_remaining w") (simp_all add: w_quantities_def somes_def)

lemma window_trip:
  assumes "nfc_law nfc" "window_ok nfc w" "window_payload w = Inr j"
  shows "decode_window nfc Codex j = Inr (wire_window w)"
proof -
  obtain reset where r: "jresult_opt wire_timestamp (w_reset_at w) = Inr reset"
    and j: "j = JObj [
     (u ''kind'', JStr (wk_value (w_kind w))),
     (u ''scope'', JStr (w_scope w)),
     (u ''period'', JStr (w_period w)),
     (u ''plan_id'', jopt JStr (w_plan_id w)),
     (u ''availability'', JStr (av_value (w_availability w))),
     (u ''source_id'', jopt JStr (w_source_id w)),
     (u ''reset_at'', reset),
     (u ''limit'', jopt quantity_payload (w_limit w)),
     (u ''used'', jopt quantity_payload (w_used w)),
     (u ''remaining'', jopt quantity_payload (w_remaining w))]"
    using assms(3) by (auto simp: window_payload_def result_simps)
  note ok = assms(2)[unfolded window_ok_def quantities_opt]
  have src: "source_for_provider nfc (jopt JStr (w_source_id w)) Codex
      = (if w_source_id w = Some codex_source_id then w_source_id w else None)"
    using ok by (intro source_trip[OF assms(1)]) simp
  have same: "mk_window nfc (JStr (wk_value (w_kind w))) (JStr (w_scope w)) (JStr (w_period w))
     (map_option JStr (w_plan_id (wire_window w))) (JStr (av_value (w_availability (wire_window w))))
     (w_source_id (wire_window w)) (w_limit (wire_window w)) (w_used (wire_window w)) (w_remaining (wire_window w))
     (w_reset_at (wire_window w)) = Inr (wire_window w)"
    using mk_window_same[OF wire_window_ok[OF assms(2)]] by (simp add: wire_window_def split: if_splits)
  have o': "wire_object j window_fields = Inr (case j of JObj d \<Rightarrow> d | _ \<Rightarrow> [])"
    by (auto simp: wire_object_def window_fields_def j)
  show ?thesis
  proof (cases "w_source_id w = Some codex_source_id")
    case True
    then show ?thesis
      using same ok r src
      by (simp add: decode_window_def o' Let_def trusted_def enum_value_def canonical_identity_same
          identity_opt_trip timestamp_opt_trip quantity_opt_trip wire_window_def)
        (simp add: j identity_opt_trip timestamp_opt_trip quantity_opt_trip canonical_identity_same)
  next
    case False
    then show ?thesis
      using same ok src
      by (simp add: decode_window_def o' Let_def trusted_def enum_value_def canonical_identity_same
          wire_window_def)
        (simp add: j canonical_identity_same)
  qed
qed

lemma wire_resets_ok: "resets_ok r \<Longrightarrow> resets_ok (wire_resets r)"
  by (cases "r_next_expires_at r") (auto simp: resets_ok_def wire_resets_def)

lemma resets_trip:
  assumes "opt_all resets_ok r" "reset_payload r = Inr j"
  shows "decode_resets j = Inr (map_option wire_resets r)"
proof (cases r)
  case None
  then show ?thesis using assms by (simp add: reset_payload_def decode_resets_def nullable_def)
next
  case (Some x)
  obtain e where e: "jresult_opt wire_timestamp (r_next_expires_at x) = Inr e"
    and j: "j = JObj [(u ''available_count'', JInt (r_available_count x)), (u ''next_expires_at'', e)]"
    using assms Some by (auto simp: reset_payload_def result_simps)
  have "recheck_resets (wire_resets x) = Inr (wire_resets x)"
    using assms Some by (simp add: recheck_resets_same wire_resets_ok)
  then have m: "mk_resets (JInt (r_available_count x)) (map_option utc_dt (r_next_expires_at x)) = Inr (wire_resets x)"
    by (simp add: recheck_resets_def wire_resets_def)
  show ?thesis
    using Some m timestamp_opt_trip[OF e]
    unfolding decode_resets_def nullable_def[of "\<lambda>v. rbind (wire_object v _) _"] by (simp add: j wire_object_def)
qed

lemma wire_window_identity [simp]: "window_identity (wire_window w) = window_identity w"
  by (simp add: window_identity_def wire_window_def)

lemma wire_window_identities [simp]:
  "map (window_identity \<circ> wire_window) ws = map window_identity ws"
  by simp

lemma wire_window_kind [simp]: "w_kind (wire_window w) = w_kind w"
  by (simp add: wire_window_def)

lemma wire_snapshot_ok:
  assumes "snapshot_ok nfc s"
  shows "snapshot_ok nfc (wire_snapshot s)"
proof -
  have "distinct (map window_identity (map wire_window (s_windows s)))"
    using assms unfolding map_map wire_window_identities by (simp add: snapshot_ok_def)
  then show ?thesis
    using assms by (cases "s_resets s")
      (auto simp: snapshot_ok_def wire_snapshot_def safe_source_def list_all_iff wire_window_ok wire_resets_ok)
qed

lemma rmap_map: "list_all2 (\<lambda>x y. f x = Inr y) xs ys \<Longrightarrow> (\<And>x y. x \<in> set xs \<Longrightarrow> f x = Inr y \<Longrightarrow> g y = Inr (h x))
    \<Longrightarrow> rmap g ys = Inr (map h xs)"
  by (induction xs ys rule: list_all2_induct) (simp, fastforce)

lemma snapshot_trip:
  assumes "nfc_law nfc" "snapshot_ok nfc s" "snapshot_payload s = Inr j"
  shows "decode_snapshot nfc Codex j = Inr (wire_snapshot s) \<and> j \<noteq> JNull"
proof -
  obtain st fe da ws rs where t: "wire_timestamp (s_status_observed_at s) = Inr st"
      "wire_timestamp (s_fetched_at s) = Inr fe" "wire_timestamp (s_data_at s) = Inr da"
    and ws: "rmap window_payload (s_windows s) = Inr ws" and rs: "reset_payload (s_resets s) = Inr rs"
    and j: "j = JObj [
       (u ''public_state'', JStr (pub_value (s_public_state s))),
       (u ''freshness'', JStr (fr_value (s_freshness s))),
       (u ''status_observed_at'', st),
       (u ''fetched_at'', fe),
       (u ''data_at'', da),
       (u ''source_id'', jopt JStr (s_source_id s)),
       (u ''windows'', JList ws),
       (u ''rate_limit_reset_credits'', rs)]"
    using assms(3) by (auto simp: snapshot_payload_def result_simps)
  note ok = assms(2)[unfolded snapshot_ok_def list_all_iff]
  have w: "rmap (decode_window nfc Codex) ws = Inr (map wire_window (s_windows s))"
    using ws[unfolded rmap_list_all2] by (rule rmap_map) (use ok assms(1) window_trip in blast)
  have len: "length ws = length (s_windows s)" using ws by (rule rmap_length)
  have src: "source_for_provider nfc (jopt JStr (s_source_id s)) Codex
      = (if s_source_id s = Some codex_source_id then s_source_id s else None)"
    using ok by (intro source_trip[OF assms(1)]) simp
  have d: "map (window_identity \<circ> wire_window) (s_windows s) = map window_identity (s_windows s)" by simp
  have r: "decode_resets rs = Inr (map_option wire_resets (s_resets s))"
    using ok rs by (intro resets_trip) auto
  have o': "wire_object j snapshot_fields = Inr (case j of JObj d \<Rightarrow> d | _ \<Rightarrow> [])"
    by (auto simp: wire_object_def snapshot_fields_def j)
  have "decode_snapshot nfc Codex j = Inr (wire_snapshot s)"
    using mk_snapshot_same[OF wire_snapshot_ok[OF assms(2)]] t[THEN timestamp_trip] ok
    unfolding decode_snapshot_def o' rbind_simps
    by (simp add: j w len src d r enum_value_def wire_snapshot_def)
  then show ?thesis by (simp add: j)
qed

text \<open>The states a helper view is in: the parent refuses any other combination.\<close>

definition helper_state :: "view \<Rightarrow> bool" where
  "helper_state v \<longleftrightarrow> v_provider v = Codex
     \<and> (case v_snapshot v of Some s \<Rightarrow> v_state v = legacy_state_for_snapshot s | None \<Rightarrow> True)
     \<and> (v_outcome v \<in> {Some OUndetected, Some ONotRun} \<longrightarrow> v_state v = StUnavailable)"

lemma wire_view_ok: "view_ok nfc v \<Longrightarrow> view_ok nfc (wire_view v)"
  by (cases "v_snapshot v") (auto simp: view_ok_def wire_view_def wire_snapshot_ok)

lemma legacy_wire [simp]: "legacy_state_for_snapshot (wire_snapshot s) = legacy_state_for_snapshot s"
  by (simp add: legacy_state_for_snapshot_def wire_snapshot_def)

lemma decode_label_same:
  "opt_all label_ok l \<Longrightarrow> opt_all (list_all encodable) l \<Longrightarrow> decode_label (jopt JStr l) = Inr (label_json l)"
  by (cases l) (auto simp: decode_label_def jopt_def label_json_def label_ok_def utf8_encode_def)

lemma view_trip:
  assumes "nfc_law nfc" "view_ok nfc v" "helper_state v" "view_payload v = Inr j"
    "opt_all (list_all encodable) (v_display_label v)"
  shows "decode_view nfc j = Inr (wire_view v)"
proof -
  obtain s where s: "jresult_opt snapshot_payload (v_snapshot v) = Inr s"
    and j: "j = JObj [
     (u ''provider'', JStr (pk_value (v_provider v))),
     (u ''state'', JStr (ps_value (v_state v))),
     (u ''outcome'', jopt (\<lambda>x. JStr (po_value x)) (v_outcome v)),
     (u ''display_label'', jopt JStr (v_display_label v)),
     (u ''error'', jopt (\<lambda>e. JObj [(u ''code'', JStr (ec_value e))]) (v_error v)),
     (u ''snapshot'', s)]"
    using assms(4) by (auto simp: view_payload_def result_simps)
  note ok = assms(2)[unfolded view_ok_def] and st = assms(3)[unfolded helper_state_def]
  have snap: "nullable (decode_snapshot nfc Codex) s = Inr (map_option wire_snapshot (v_snapshot v))"
    using s ok snapshot_trip[OF assms(1)]
    by (cases "v_snapshot v") (auto simp: jresult_opt_def nullable_def)
  have out: "nullable (enum_value po_members po_value) (jopt (\<lambda>x. JStr (po_value x)) (v_outcome v)) = Inr (v_outcome v)"
    by (cases "v_outcome v") (auto simp: nullable_def jopt_def enum_value_def)
  have err: "decode_error (v_state v) (jopt (\<lambda>e. JObj [(u ''code'', JStr (ec_value e))]) (v_error v)) = Inr (v_error v)"
    using ok by (cases "v_error v") (auto simp: decode_error_def jopt_def wire_object_def enum_value_def)
  have chk: "decode_outcome_check (v_state v) (v_outcome v) (v_error v) (map_option wire_snapshot (v_snapshot v)) = Inr ()"
    using ok st by (cases "v_snapshot v"; cases "v_error v") (auto simp: decode_outcome_check_def)
  have o': "wire_object j wire_fields = Inr (case j of JObj d \<Rightarrow> d | _ \<Rightarrow> [])"
    by (auto simp: wire_object_def wire_fields_def j)
  have p: "v_provider v = Codex" using st by simp
  have mk: "mk_view (JStr (pk_value Codex)) (JStr (ps_value (v_state v))) (v_error v) (label_json (v_display_label v))
     (map_option (\<lambda>x. JStr (po_value x)) (v_outcome v)) (map_option wire_snapshot (v_snapshot v)) None = Inr (wire_view v)"
    using mk_view_same[OF wire_view_ok[OF assms(2)]] p by (simp add: wire_view_def)
  have l: "decode_label (jopt JStr (v_display_label v)) = Inr (label_json (v_display_label v))"
    using ok assms(5) by (intro decode_label_same) auto
  show ?thesis
    unfolding decode_view_def o' rbind_simps
    using mk p by (simp add: j snap out err chk l enum_value_def del: pk_value.simps)
qed

lemma payload_plain: "view_payload v = Inr j \<Longrightarrow> json_plain j"
proof -
  assume a: "view_payload v = Inr j"
  have q: "json_plain (jopt quantity_payload q)" for q
    by (cases q) (simp_all add: jopt_def quantity_payload_def)
  have i: "json_plain (jopt JStr x)" for x by (cases x) (simp_all add: jopt_def)
  have t: "json_plain j" if "jresult_opt wire_timestamp x = Inr j" for x j
    using that by (cases x) (auto simp: jresult_opt_def wire_timestamp_def result_simps)
  have t': "json_plain j" if "wire_timestamp x = Inr j" for x j
    using that by (auto simp: wire_timestamp_def result_simps)
  have w: "json_plain j" if "window_payload w = Inr j" for w j
    using that by (auto simp: window_payload_def result_simps q i dest: t)
  have r: "json_plain j" if "reset_payload x = Inr j" for x j
    using that by (cases x) (auto simp: reset_payload_def result_simps dest: t)
  have s: "json_plain j" if snap: "snapshot_payload x = Inr j" for x j
  proof -
    obtain st fe da ws rs where c: "wire_timestamp (s_status_observed_at x) = Inr st"
        "wire_timestamp (s_fetched_at x) = Inr fe" "wire_timestamp (s_data_at x) = Inr da"
        "rmap window_payload (s_windows x) = Inr ws" "reset_payload (s_resets x) = Inr rs"
      and j: "j = JObj [
       (u ''public_state'', JStr (pub_value (s_public_state x))),
       (u ''freshness'', JStr (fr_value (s_freshness x))),
       (u ''status_observed_at'', st),
       (u ''fetched_at'', fe),
       (u ''data_at'', da),
       (u ''source_id'', jopt JStr (s_source_id x)),
       (u ''windows'', JList ws),
       (u ''rate_limit_reset_credits'', rs)]"
      using snap by (auto simp: snapshot_payload_def result_simps)
    have "list_all json_plain ws" using rmap_set[OF c(4)] w by (auto simp: list_all_iff)
    then show ?thesis using t'[OF c(1)] t'[OF c(2)] t'[OF c(3)] r[OF c(5)] by (simp add: j i)
  qed
  have o': "json_plain (jopt (\<lambda>x. JStr (po_value x)) x)" "json_plain (jopt (\<lambda>e. JObj [(u ''code'', JStr (ec_value e))]) y)" for x y
    by (cases x; simp add: jopt_def) (cases y; simp add: jopt_def)
  show ?thesis
    using a by (cases "v_snapshot v") (auto simp: view_payload_def result_simps jresult_opt_def i o' dest: s)
qed

text \<open>A payload that was written holds a label that UTF-8 encodes.\<close>

lemma payload_label:
  assumes "view_payload v = Inr j" "json_ok False j" "list_all encodable (json_text (compact False) j)"
  shows "opt_all (list_all encodable) (v_display_label v)"
proof (cases "v_display_label v")
  case (Some l)
  obtain d where j: "j = JObj d" and d: "(u ''display_label'', JStr l) \<in> set d"
    using assms(1) Some by (auto simp: view_payload_def result_simps jopt_def)
  have "set (json_text (compact False) (JStr l)) \<subseteq> set (json_text (compact False) j)"
    unfolding j by (rule pair_text_sub(2)[OF _ d]) (simp add: compact_def)
  then have "list_all encodable (json_text (compact False) (JStr l))"
    using assms(3) by (rule encodable_sub)
  then show ?thesis using Some encodable_str by (simp add: jstr_text_def compact_def)
qed simp

text \<open>C1: what the parent reads from the worker is exactly the view the worker sent, redacted: times in
  UTC, and windows of another source stripped to their identity. The hypothesis \<open>payload v = Inr b\<close>
  says that the worker did send the view (the text fits the response limit and UTF-8 encodes it).\<close>

theorem decode_payload_trip:
  assumes "nfc_law nfc" "view_ok nfc v" "helper_state v" "payload v = Inr b"
  shows "decode nfc b = wire_view v"
proof -
  obtain j t where j: "view_payload v = Inr j" and t: "dumps_strict (compact False) j = Inr t"
    and b: "utf8_encode t = Inr b" "length b \<le> max_response"
    using assms(4) by (auto simp: payload_def result_simps split: if_splits)
  have tt: "t = json_text (compact False) j" "json_writable j"
    using t by (auto simp: dumps_strict_def split: if_splits)
  have e: "list_all encodable t" using b by (auto simp: utf8_encode_def split: if_splits)
  have plain: "json_plain j" using j by (rule payload_plain)
  have ok: "json_ok False j"
    using plain tt e by (intro encodable_ok[of "compact False"]) (auto simp: compact_def)
  have lbl: "opt_all (list_all encodable) (v_display_label v)"
    using payload_label[OF j ok] e tt by simp
  have r: "rbind (utf8_decode b) (loads wire_hooks) = Inr j"
    by (rule read_written[OF t, of "[]"]) (use b plain in \<open>simp_all add: wire_hooks_def\<close>)
  obtain c r' where "t = c # r'" using json_text_hd[OF ok] tt by metis
  then have "b \<noteq> []" using b(1) by (auto simp: utf8_encode_def split: if_splits)
  then have "load_json b = Inr j" using r b(2) by (simp add: load_json_def)
  then show ?thesis using view_trip[OF assms(1-3) j lbl] by (simp add: decode_def)
qed

lemmas [run] = utc_dt_def wire_window_def wire_resets_def wire_snapshot_def wire_view_def jopt_def jresult_opt_def
  wire_timestamp_def quantity_payload_def window_payload_def reset_payload_def snapshot_payload_def
  view_payload_def payload_def max_response_def helper_state_def

theorem decode_payload_trip_witness:
  "\<exists>b. payload sample_view = Inr b \<and> decode (\<lambda>s. s) b = wire_view sample_view
     \<and> wire_view sample_view \<noteq> sample_view"
proof -
  have "payload sample_view \<noteq> Inl e" for e
    by (simp add: run sample_defs cong: run_cong)
  then obtain b where b: "payload sample_view = Inr b" by (cases "payload sample_view") auto
  have h: "helper_state sample_view" by (simp add: run sample_defs)
  have "wire_view sample_view \<noteq> sample_view" by (simp add: run sample_defs)
  then show ?thesis using decode_payload_trip[OF nfc_law_id sample_view_ok h b] b by blast
qed

definition bare_window :: "window \<Rightarrow> bool" where
  "bare_window w \<longleftrightarrow> w_plan_id w = None \<and> w_availability w = AUnavailable \<and> w_quantities w = [] \<and> w_reset_at w = None"

definition redacted :: "window \<Rightarrow> bool" where
  "redacted w \<longleftrightarrow> w_source_id w = Some codex_source_id \<or> w_source_id w = None \<and> bare_window w"

lemma decode_quantity_ok: "nfc_law nfc \<Longrightarrow> decode_quantity nfc v = Inr q \<Longrightarrow> quantity_ok nfc q"
  by (auto simp: decode_quantity_def result_simps intro: mk_quantity_ok)

lemma trusted_Inr: "trusted t f v = Inr x \<Longrightarrow> (\<And>v y. f v = Inr y \<Longrightarrow> P y) \<Longrightarrow> opt_all P x \<and> (\<not> t \<longrightarrow> x = None)"
  by (auto simp: trusted_def nullable_def result_simps split: if_splits)

lemma decode_window_sound:
  assumes n: "nfc_law nfc" and d: "decode_window nfc Codex v = Inr w"
  shows "window_ok nfc w \<and> redacted w"
proof -
  obtain item where item: "wire_object v window_fields = Inr item"
    using d by (auto simp: decode_window_def result_simps)
  define src where "src = source_for_provider nfc (fld ''source_id'' item) Codex"
  obtain plan reset av k sc pe l us re where
    c: "trusted (src \<noteq> None) (\<lambda>x. canonical_identity nfc x ''invalid quota plan id'') (fld ''plan_id'' item) = Inr plan"
      "trusted (src \<noteq> None) decode_timestamp (fld ''reset_at'' item) = Inr reset"
      "(if src \<noteq> None then enum_value av_members av_value (fld ''availability'' item) else Inr AUnavailable) = Inr av"
      "trusted (src \<noteq> None) (decode_quantity nfc) (fld ''limit'' item) = Inr l"
      "trusted (src \<noteq> None) (decode_quantity nfc) (fld ''used'' item) = Inr us"
      "trusted (src \<noteq> None) (decode_quantity nfc) (fld ''remaining'' item) = Inr re"
    and m: "mk_window nfc (JStr (wk_value k)) (JStr sc) (JStr pe) (map_option JStr plan) (JStr (av_value av)) src
       l us re reset = Inr w"
    using d item unfolding decode_window_def src_def Let_def by (auto simp: result_simps)
  have q: "opt_all (quantity_ok nfc) l" "opt_all (quantity_ok nfc) us" "opt_all (quantity_ok nfc) re"
    using trusted_Inr[OF c(4), of "quantity_ok nfc"] trusted_Inr[OF c(5), of "quantity_ok nfc"]
      trusted_Inr[OF c(6), of "quantity_ok nfc"] decode_quantity_ok[OF n] by blast+
  have ok: "window_ok nfc w"
    using q by (intro mk_window_ok[OF n _ m]) (cases l; cases us; cases re; simp add: somes_def)
  have w: "w_plan_id w = None \<longleftrightarrow> plan = None" "w_availability w = av" "w_source_id w = src"
    "w_limit w = l" "w_used w = us" "w_remaining w = re" "w_reset_at w = None \<longleftrightarrow> reset = None"
    using m by (auto simp: mk_window_def result_simps source_id_Inr ropt_Inr_iff check_aware_Inr
        dest!: window_values_check_Inr)
  have "src = None \<or> src = Some codex_source_id"
    by (simp add: src_def source_for_provider_def expected_source_def)
  then have "redacted w"
    using w c by (auto simp: redacted_def bare_window_def w_quantities_def somes_def trusted_def)
  with ok show ?thesis by simp
qed

lemma decode_snapshot_sound:
  assumes n: "nfc_law nfc" and d: "decode_snapshot nfc Codex v = Inr s"
  shows "snapshot_ok nfc s \<and> list_all redacted (s_windows s)"
proof -
  obtain item where item: "wire_object v snapshot_fields = Inr item"
    using d by (auto simp: decode_snapshot_def result_simps)
  then obtain windows where win: "fld ''windows'' item = JList windows"
    using d by (cases "fld ''windows'' item") (auto simp: decode_snapshot_def)
  obtain ws a b c e f g h where ws: "rmap (decode_window nfc Codex) windows = Inr ws"
    and m: "mk_snapshot a b c e f g ws h = Inr s"
    using d item win by (auto simp: decode_snapshot_def result_simps split: if_splits)
  have "list_all (\<lambda>w. window_ok nfc w \<and> redacted w) ws"
    using rmap_set[OF ws] decode_window_sound[OF n] by (fastforce simp: list_all_iff)
  moreover have "s_windows s = ws"
    using m by (auto simp: mk_snapshot_def result_simps split: if_splits)
  ultimately show ?thesis using mk_snapshot_ok[OF _ m, of nfc] by (auto simp: list_all_iff)
qed

lemma error_view_ok: "view_ok nfc (error_view c)" "helper_state (error_view c)"
  by (simp_all add: view_ok_def error_view_def helper_state_def)

lemma decode_view_sound:
  assumes n: "nfc_law nfc" and d: "decode_view nfc j = Inr v"
  shows "view_ok nfc v \<and> helper_state v \<and> opt_all (\<lambda>s. list_all redacted (s_windows s)) (v_snapshot v)"
proof -
  obtain p raw state outcome lbl err snap where p: "p = Codex"
    and s: "nullable (decode_snapshot nfc p) raw = Inr snap"
    and c: "decode_outcome_check state outcome err snap = Inr ()"
    and m: "mk_view (JStr (pk_value p)) (JStr (ps_value state)) err lbl
         (map_option (\<lambda>x. JStr (po_value x)) outcome) snap None = Inr v"
    using d by (auto simp: decode_view_def result_simps split: if_splits)
  have sn: "opt_all (\<lambda>s. snapshot_ok nfc s \<and> list_all redacted (s_windows s)) snap"
    using s p decode_snapshot_sound[OF n] by (auto simp: nullable_def result_simps split: if_splits)
  have v: "v_provider v = p" "v_state v = state" "v_snapshot v = snap" "v_outcome v = outcome"
    using m by (auto simp: mk_view_def result_simps view_outcome_def view_outcome_check_def
        split: if_splits option.splits simp del: pk_value.simps ps_value.simps po_value.simps)
  have "view_ok nfc v" using sn by (intro mk_view_ok[OF _ m]) (cases snap; simp)
  moreover have "helper_state v"
    using c v p by (auto simp: helper_state_def decode_outcome_check_def split: if_splits option.splits)
  ultimately show ?thesis using sn v by (cases snap) auto
qed

text \<open>C2: whatever bytes arrive, the parent ends with a well-formed Codex view in a consistent state,
  whose windows from any source but the Codex one carry no plan, quantity or reset.\<close>

theorem decode_sound:
  assumes "nfc_law nfc"
  shows "view_ok nfc (decode nfc b) \<and> helper_state (decode nfc b)
     \<and> opt_all (\<lambda>s. list_all redacted (s_windows s)) (v_snapshot (decode nfc b))"
proof (cases "rbind (load_json b) (decode_view nfc)")
  case (Inl e)
  then show ?thesis by (simp add: decode_def error_view_ok) (simp add: error_view_def)
next
  case (Inr v)
  then obtain j where "decode_view nfc j = Inr v" by (auto simp: result_simps)
  then show ?thesis using decode_view_sound[OF assms] Inr by (simp add: decode_def)
qed

theorem decode_sound_witness:
  "view_ok (\<lambda>s. s) (decode (\<lambda>s. s) [123, 125]) \<and> decode (\<lambda>s. s) [] = error_view EInternal"
  using decode_sound[OF nfc_law_id, of "[123, 125]"] by (simp add: decode_def load_json_def)

end
