(* ===== verification/Projection.thy ===== *)
theory Projection
  imports HelperWire
begin

text \<open>
  \<open>projection.py\<close>: from the views of one run to the JSON document the widget shows.

  \<^item> The dicts the code builds are records here (\<open>pwindow\<close>, \<open>pitem\<close>, \<open>pdoc\<close>), and \<open>window_json\<close>,
    \<open>item_json\<close> and \<open>doc_json\<close> are the dicts, with their keys in the order of the code.
  \<^item> \<open>platform\<close> holds what comes from outside: the Unicode tables behind \<open>normalize\<close> and
    \<open>str.capitalize\<close>, the local time zone and the locale's date format.
  \<^item> The document is cut to size by a tooltip limit, found by binary search (\<open>limit_search\<close>).
\<close>

section \<open>Parameters and texts\<close>

record platform =
  nfc :: "ustr \<Rightarrow> ustr"
  capitalize :: "ustr \<Rightarrow> ustr"
  to_local :: "int \<Rightarrow> py_exn + int"
  locale_format :: "int \<Rightarrow> py_exn + ustr"

text \<open>What the documentation of Python and Unicode says of them: NFC as before, and \<open>capitalize\<close>
  keeps the length of an ASCII text, in ASCII.\<close>

definition platform_law :: "platform \<Rightarrow> bool" where
  "platform_law px \<longleftrightarrow> nfc_law (nfc px) \<and>
     (\<forall>s. (\<forall>c \<in> set s. c < 128) \<longrightarrow> length (capitalize px s) = length s \<and> (\<forall>c \<in> set (capitalize px s). c < 128))"

datatype failure_evidence = CredentialInvalid | EvTimeout | EvRateLimited | EvUnavailable

definition em_dash :: ustr where
  "em_dash = [8212]"

definition middle_dot :: ustr where
  "middle_dot = [32, 183, 32]"

definition max_document_bytes :: nat where
  "max_document_bytes = 65536"

definition max_tooltip_scalars :: nat where
  "max_tooltip_scalars = 4096"

definition opencode_fixed_periods :: "ustr list" where
  "opencode_fixed_periods = [u ''five_hour'', u ''monthly'', u ''weekly'']"

definition provider_display_name :: "provider_key \<Rightarrow> ustr" where
  "provider_display_name p = (if p = Codex then u ''Codex'' else u ''OpenCode Go'')"

definition not_run_text :: "ustr \<Rightarrow> ustr option" where
  "not_run_text r = map_of
     [(u ''disabled'', u ''provider disabled''),
      (u ''invalid_configuration'', u ''configuration invalid''),
      (u ''invocation_invalid'', u ''invocation invalid''),
      (u ''document_aborted'', u ''document aborted''),
      (u ''guard_wait_timeout'', u ''guard wait timeout''),
      (u ''deadline_exhausted'', u ''deadline exhausted'')] r"

definition failures :: "ustr \<Rightarrow> (ustr \<times> ustr) option" where
  "failures c = map_of
     [(u ''invocation_invalid'', (u ''configuration'', u ''invocation_invalid'')),
      (u ''configuration_invalid'', (u ''configuration'', u ''invalid_configuration'')),
      (u ''internal_error'', (u ''document'', u ''document_aborted'')),
      (u ''guard_acquisition_failed'', (u ''guard_wait'', u ''document_aborted'')),
      (u ''guard_wait_timeout'', (u ''guard_wait'', u ''guard_wait_timeout'')),
      (u ''deadline_exhausted'', (u ''document'', u ''deadline_exhausted''))] c"

section \<open>Windows\<close>

record pquantity =
  pq_value :: ustr
  pq_metric :: metric_kind
  pq_unit :: ustr

record pwindow =
  pw_kind :: window_kind
  pw_scope :: ustr
  pw_period :: ustr
  pw_plan_id :: "ustr option"
  pw_availability :: availability
  pw_source_id :: "ustr option"
  pw_limit :: "pquantity option"
  pw_used :: "pquantity option"
  pw_remaining :: "pquantity option"
  pw_reset_at :: "ustr option"

definition identity :: "ustr \<Rightarrow> string \<Rightarrow> py_exn + ustr" where
  "identity s msg =
     (if s = [] \<or> py_strip s \<noteq> s \<or> 64 < length s \<or> \<not> list_all identity_char s
      then Inl (ValueError msg) else Inr s)"

definition presentation_identity :: "ustr \<Rightarrow> ustr" where
  "presentation_identity s = (if \<exists>c \<in> set s. c \<in> {59, 61, 92} then jstr_text False s else s)"

definition source :: "platform \<Rightarrow> ustr option \<Rightarrow> provider_key \<Rightarrow> ustr option" where
  "source px v p = (case v of
     None \<Rightarrow> None
   | Some s \<Rightarrow> (let candidate = py_strip (nfc px s) in
                if candidate = expected_source p then Some candidate else None))"

definition timestamp :: "datetime \<Rightarrow> py_exn + ustr" where
  "timestamp d =
     (if \<not> aware d then Inl (ValueError ''invalid current timestamp'')
      else rbind (to_utc d) (\<lambda>t. Inr (stamp_text (dt_us t))))"

definition strip_fraction :: "ustr \<Rightarrow> ustr" where
  "strip_fraction s = (if 46 \<in> set s then py_rstrip_char 46 (py_rstrip_char 48 s) else s)"

definition or_zero :: "ustr \<Rightarrow> ustr" where
  "or_zero s = (if s = [] then [48] else s)"

definition pquantity_of :: "quantity \<Rightarrow> py_exn + pquantity" where
  "pquantity_of q =
     (if \<not> dec_finite (q_value q) \<or> dec_neg (q_value q) then Inl (ValueError ''invalid current quantity'')
      else rbind (identity (q_unit q) ''invalid current unit'') (\<lambda>n.
        Inr \<lparr>pq_value = or_zero (strip_fraction (dec_format_f (q_value q))), pq_metric = q_metric q, pq_unit = n\<rparr>))"

definition when_trusted :: "bool \<Rightarrow> ('a \<Rightarrow> py_exn + 'b) \<Rightarrow> 'a option \<Rightarrow> py_exn + 'b option" where
  "when_trusted t f x = (if t then ropt f x else Inr None)"

definition pwindow_of :: "platform \<Rightarrow> window \<Rightarrow> provider_key \<Rightarrow> py_exn + pwindow" where
  "pwindow_of px w p =
     (let src = source px (w_source_id w) p; t = (src \<noteq> None) in
      rbind (when_trusted t (\<lambda>x. identity x ''invalid current plan id'') (w_plan_id w)) (\<lambda>plan.
      rbind (identity (w_scope w) ''invalid current scope'') (\<lambda>sc.
      rbind (identity (w_period w) ''invalid current period'') (\<lambda>pe.
      rbind (when_trusted t pquantity_of (w_limit w)) (\<lambda>l.
      rbind (when_trusted t pquantity_of (w_used w)) (\<lambda>us.
      rbind (when_trusted t pquantity_of (w_remaining w)) (\<lambda>re.
      rbind (when_trusted t timestamp (w_reset_at w)) (\<lambda>rs.
      Inr \<lparr>pw_kind = w_kind w, pw_scope = sc, pw_period = pe, pw_plan_id = plan,
        pw_availability = (if t then w_availability w else AUnavailable), pw_source_id = src,
        pw_limit = l, pw_used = us, pw_remaining = re, pw_reset_at = rs\<rparr>))))))))"

definition opencode_placeholder :: "ustr \<Rightarrow> ustr \<Rightarrow> pwindow" where
  "opencode_placeholder period scope =
     \<lparr>pw_kind = KCommercial, pw_scope = scope, pw_period = period, pw_plan_id = None,
      pw_availability = AUnavailable, pw_source_id = None, pw_limit = None, pw_used = None,
      pw_remaining = None, pw_reset_at = None\<rparr>"

text \<open>\<open>_opencode_windows\<close>: the windows that are not commercial are kept; of the commercial ones,
  exactly one slot for each fixed period, a placeholder where there is no single trusted window. Only a
  \<open>TypeError\<close> or a \<open>ValueError\<close> of the single candidate becomes a placeholder; any other exception, such as
  the \<open>OverflowError\<close> of a reset time outside the calendar, leaves the function.\<close>

definition candidate_window :: "platform \<Rightarrow> window \<Rightarrow> ustr \<Rightarrow> py_exn + pwindow" where
  "candidate_window px candidate period = (case pwindow_of px candidate OpencodeGo of
     Inr w \<Rightarrow> Inr w
   | Inl e \<Rightarrow> if is_TypeError e \<or> is_ValueError e then Inr (opencode_placeholder period (u ''account'')) else Inl e)"

definition opencode_slot :: "platform \<Rightarrow> window list \<Rightarrow> ustr \<Rightarrow> py_exn + pwindow" where
  "opencode_slot px matches period =
     (case matches of
        [candidate] \<Rightarrow>
          rbind (candidate_window px candidate period) (\<lambda>normalized.
          Inr (if pw_availability normalized \<noteq> AKnown \<or> pw_source_id normalized \<noteq> Some opencode_source_id
               then opencode_placeholder period (pw_scope normalized) else normalized))
      | _ \<Rightarrow> Inr (opencode_placeholder period (u ''account'')))"

definition opencode_matches :: "window list \<Rightarrow> ustr \<Rightarrow> window list" where
  "opencode_matches ws period =
     filter (\<lambda>w. w_kind w = KCommercial \<and> identity (w_period w) ''invalid current period'' = Inr period) ws"

definition opencode_windows :: "platform \<Rightarrow> snapshot \<Rightarrow> py_exn + pwindow list" where
  "opencode_windows px s =
     (if s_public_state s = PRateLimited then
        rmap (\<lambda>w. pwindow_of px w OpencodeGo) (filter (\<lambda>w. w_kind w = KTechnical) (s_windows s))
      else if s_public_state s \<noteq> PAvailable \<and> s_public_state s \<noteq> PPartial then
        rmap (\<lambda>w. pwindow_of px w OpencodeGo) (s_windows s)
      else
        rbind (rmap (\<lambda>w. pwindow_of px w OpencodeGo) (filter (\<lambda>w. w_kind w \<noteq> KCommercial) (s_windows s))) (\<lambda>preserved.
        rbind (rmap (\<lambda>p. opencode_slot px (opencode_matches (s_windows s) p) p) opencode_fixed_periods) (\<lambda>fixed.
        Inr (preserved @ fixed))))"

type_synonym sort_tuple = "window_kind \<times> ustr \<times> ustr \<times> bool \<times> ustr \<times> bool \<times> ustr"

definition or_empty :: "ustr option \<Rightarrow> ustr" where
  "or_empty x = (case x of None \<Rightarrow> [] | Some s \<Rightarrow> s)"

definition window_sort_key :: "pwindow \<Rightarrow> sort_tuple" where
  "window_sort_key w = (pw_kind w, pw_scope w, pw_period w, pw_plan_id w \<noteq> None, or_empty (pw_plan_id w),
     pw_source_id w \<noteq> None, or_empty (pw_source_id w))"

section \<open>Errors and percentages\<close>

type_synonym perror = "ustr \<times> ustr"

definition evidence_code :: "failure_evidence \<Rightarrow> ustr" where
  "evidence_code e = (case e of CredentialInvalid \<Rightarrow> u ''credential_invalid'' | EvTimeout \<Rightarrow> u ''provider_timeout''
     | EvRateLimited \<Rightarrow> u ''provider_rate_limited'' | EvUnavailable \<Rightarrow> u ''provider_unavailable'')"

definition provider_error :: "error_code \<Rightarrow> failure_evidence option \<Rightarrow> perror" where
  "provider_error code evidence = (case evidence of
     Some e \<Rightarrow> (evidence_code e, u ''provider'')
   | None \<Rightarrow>
       (case code of
          ETimeout \<Rightarrow> u ''provider_timeout''
        | EInvalidData \<Rightarrow> u ''invalid_provider_data''
        | EUnknownState \<Rightarrow> u ''unknown_provider_state''
        | EGuardWait \<Rightarrow> u ''guard_wait_timeout''
        | EDeadline \<Rightarrow> u ''deadline_exhausted''
        | _ \<Rightarrow> u ''provider_failed'', u ''provider''))"

text \<open>A rendered quantity is always the text of a decimal; the parse never fails on one.\<close>

definition dec_of_text :: "ustr \<Rightarrow> dec" where
  "dec_of_text s = (case dec_parse s of Inr d \<Rightarrow> d | Inl _ \<Rightarrow> DNaN)"

fun quotient_percent :: "dec \<Rightarrow> dec \<Rightarrow> dec" where
  "quotient_percent (DFin s c e) (DFin t d f) =
     (case dec_mul 34 (dec_div 34 (c, e) (d, f)) (100, 0) of (x, k) \<Rightarrow> DFin False x k)"
| "quotient_percent _ _ = DNaN"

definition significant_digits :: "ustr \<Rightarrow> nat" where
  "significant_digits s =
     (let ds = dropWhile (\<lambda>c. c = 48) (filter (\<lambda>c. c \<noteq> 46) s) in if ds = [] then 1 else length ds)"

definition render_percentage :: "dec \<Rightarrow> ustr option" where
  "render_percentage v =
     (if dec_less v dec0 \<or> dec_less (DFin False 100 0) v then None
      else let rendered = or_zero (strip_fraction (dec_format_f v)) in
        if 128 < length rendered + 1 \<or> 34 < significant_digits rendered then None else Some rendered)"

definition percentage :: "pwindow \<Rightarrow> ustr option" where
  "percentage w =
     (if pw_availability w \<noteq> AKnown then None
      else case (pw_limit w, pw_remaining w) of
        (Some l, Some r) \<Rightarrow>
          if pq_metric l \<noteq> pq_metric r \<or> pq_unit l \<noteq> pq_unit r then None
          else let lv = dec_of_text (pq_value l); rv = dec_of_text (pq_value r) in
            if \<not> dec_less dec0 lv \<or> dec_less rv dec0 \<or> dec_less lv rv \<or> \<not> dec_finite lv \<or> \<not> dec_finite rv then None
            else render_percentage (quotient_percent rv lv)
      | _ \<Rightarrow> None)"

section \<open>Presentation\<close>

definition bounded_summary :: "ustr \<Rightarrow> ustr \<Rightarrow> ustr" where
  "bounded_summary base qualifier =
     (if length base + length qualifier \<le> 128 then base @ qualifier
      else take (128 - length qualifier) base @ qualifier)"

definition spaced :: "platform \<Rightarrow> ustr \<Rightarrow> ustr" where
  "spaced px s = capitalize px (py_replace1 95 32 s)"

definition tooltip_period :: "platform \<Rightarrow> ustr \<Rightarrow> ustr" where
  "tooltip_period px p =
     (if p = u ''five_hour'' then u ''5h'' else if p = u ''monthly'' then u ''Monthly''
      else if p = u ''weekly'' then u ''Weekly'' else spaced px p)"

definition tooltip_state :: "platform \<Rightarrow> ustr \<Rightarrow> ustr" where
  "tooltip_state px s = spaced px s"

text \<open>\<open>_format_local_datetime\<close>: the locale's format of the local time, or a fixed one when that
  fails or is empty. The exceptions of the \<open>except\<close> clauses are the ones \<open>time_error\<close> names.\<close>

definition time_error :: "py_exn \<Rightarrow> bool" where
  "time_error e \<longleftrightarrow> e = OverflowError \<or> is_OSError e \<or> is_ValueError e"

definition stable_datetime :: "int \<Rightarrow> ustr" where
  "stable_datetime t = (case dt_fields (nat t) of ((y, m, d), h, mi, s, f) \<Rightarrow>
     str_pad 4 y @ [45] @ str_pad 2 m @ [45] @ str_pad 2 d @ [32] @ str_pad 2 h @ [58] @
     str_pad 2 mi @ [58] @ str_pad 2 s)"

definition format_local :: "platform \<Rightarrow> int \<Rightarrow> py_exn + ustr" where
  "format_local px t =
     rbind (to_local px t) (\<lambda>l.
     case locale_format px l of
       Inr s \<Rightarrow> Inr (if s = [] then stable_datetime l else s)
     | Inl e \<Rightarrow> if time_error e then Inr (stable_datetime l) else Inl e)"

text \<open>\<open>_tooltip_timestamp\<close>. An exception of the formatter that is not in the \<open>except\<close> clause would
  leave the projection; the platform's conversions raise none.\<close>

definition tooltip_timestamp :: "platform \<Rightarrow> ustr option \<Rightarrow> ustr option" where
  "tooltip_timestamp px v = (case v of
     None \<Rightarrow> None
   | Some s \<Rightarrow> (case stamp_parse s of
       Inl _ \<Rightarrow> None
     | Inr t \<Rightarrow> (case format_local px t of Inl _ \<Rightarrow> None | Inr f \<Rightarrow> if f = [] then None else Some f)))"

record depleted =
  dp_kind :: window_kind
  dp_scope :: ustr
  dp_period :: ustr
  dp_plan_id :: "ustr option"
  dp_unit :: ustr
  dp_source_id :: "ustr option"
  dp_remaining_percentage :: ustr

record presentation =
  pr_most_depleted :: "depleted option"
  pr_compact :: ustr
  pr_alternate :: ustr
  pr_tooltip :: ustr

definition eligible :: "pwindow list \<Rightarrow> (pwindow \<times> ustr) list" where
  "eligible ws = map (\<lambda>w. (w, the (percentage w))) (filter (\<lambda>w. percentage w \<noteq> None) ws)"

text \<open>\<open>min(eligible, key=(Decimal(percentage), sort key))\<close>: the first of the least.\<close>

definition less_eligible :: "pwindow \<times> ustr \<Rightarrow> pwindow \<times> ustr \<Rightarrow> bool" where
  "less_eligible a b =
     (let x = dec_of_text (snd a); y = dec_of_text (snd b) in
      dec_less x y \<or> dec_eq x y \<and> window_sort_key (fst a) < window_sort_key (fst b))"

fun least_eligible :: "pwindow \<times> ustr \<Rightarrow> (pwindow \<times> ustr) list \<Rightarrow> pwindow \<times> ustr" where
  "least_eligible best [] = best"
| "least_eligible best (x # xs) = least_eligible (if less_eligible x best then x else best) xs"

definition depleted_of :: "pwindow \<times> ustr \<Rightarrow> depleted" where
  "depleted_of x = (case x of (w, pct) \<Rightarrow>
     \<lparr>dp_kind = pw_kind w, dp_scope = pw_scope w, dp_period = pw_period w, dp_plan_id = pw_plan_id w,
      dp_unit = (case pw_remaining w of Some q \<Rightarrow> pq_unit q | None \<Rightarrow> []), dp_source_id = pw_source_id w,
      dp_remaining_percentage = pct\<rparr>)"

definition window_lines :: "platform \<Rightarrow> pwindow \<Rightarrow> ustr list" where
  "window_lines px w =
     (tooltip_period px (pw_period w) @
        (case percentage w of Some pct \<Rightarrow> u '': '' @ pct @ [37] | None \<Rightarrow> u '': Unavailable'')) #
     (case tooltip_timestamp px (pw_reset_at w) of Some r \<Rightarrow> [u ''  Renews: '' @ r] | None \<Rightarrow> [])"

type_synonym presets = "int \<times> ustr option"

definition reset_lines :: "platform \<Rightarrow> presets option \<Rightarrow> ustr list" where
  "reset_lines px rs = (case rs of
     None \<Rightarrow> []
   | Some (n, e) \<Rightarrow>
       (u ''Quota resets available: '' @ str_int n) #
       (case tooltip_timestamp px e of Some x \<Rightarrow> [u ''Next reset expiry: '' @ x] | None \<Rightarrow> []))"

text \<open>The tooltip: three lines always, then lines as long as the limit allows.\<close>

fun fill_tooltip :: "nat \<Rightarrow> ustr \<Rightarrow> ustr list \<Rightarrow> ustr" where
  "fill_tooltip limit tip [] = tip"
| "fill_tooltip limit tip (line # rest) =
     (let candidate = (if tip = [] then line else tip @ [10] @ line) in
      if limit < length candidate then tip else fill_tooltip limit candidate rest)"

definition failed_presentation :: "provider_key \<Rightarrow> provider_outcome \<Rightarrow> ustr option \<Rightarrow> perror option \<Rightarrow> presentation" where
  "failed_presentation p outcome reason err =
     (let base = (if outcome = OUndetected then u ''Provider not detected'' else u ''Quota unavailable'');
          text = (if outcome = OExecError then
                    base @ middle_dot @
                      (case err of
                         Some (c, _) \<Rightarrow> if c = u ''provider_timeout'' then u ''timeout'' else u ''request failed''
                       | None \<Rightarrow> u ''request failed'')
                  else base);
          detail = (case err of Some (c, _) \<Rightarrow> Some c | None \<Rightarrow> not_run_text (or_empty reason));
          tip = provider_display_name p @ [10] @ text in
      \<lparr>pr_most_depleted = None, pr_compact = em_dash, pr_alternate = text,
       pr_tooltip = (case detail of Some d \<Rightarrow> tip @ u '': '' @ d | None \<Rightarrow> tip)\<rparr>)"

definition qualifier :: "public_state \<Rightarrow> freshness \<Rightarrow> ustr" where
  "qualifier ps fr =
     (if ps = PPartial then middle_dot @ u ''partial'' else []) @ (if fr = Stale then middle_dot @ u ''stale'' else [])"

definition head_lines :: "platform \<Rightarrow> provider_key \<Rightarrow> public_state \<Rightarrow> freshness \<Rightarrow> ustr list" where
  "head_lines px p ps fr =
     [provider_display_name p,
      u ''State: '' @ tooltip_state px (pub_value ps) @ middle_dot @ tooltip_state px (fr_value fr),
      u ''Quota remaining:'']"

definition snapshot_presentation ::
  "platform \<Rightarrow> provider_key \<Rightarrow> pwindow list \<Rightarrow> public_state \<Rightarrow> freshness \<Rightarrow> nat \<Rightarrow> presets option \<Rightarrow> presentation" where
  "snapshot_presentation px p ws ps fr limit rs =
     (let ordered_windows = sort_key window_sort_key ws;
          (dep, compact_text, base) =
            (case eligible ordered_windows of
               [] \<Rightarrow> (None, em_dash, u ''Quota unavailable'')
             | x # xs \<Rightarrow>
                 (let sel = least_eligible x xs in
                  (Some (depleted_of sel), snd sel @ [37],
                   tooltip_period px (pw_period (fst sel)) @ u '': '' @ snd sel @ u ''% left'')));
          body = concat (map (window_lines px) ordered_windows) @
                 (if ordered_windows = [] then [u ''No quota windows''] else []) @ reset_lines px rs in
      \<lparr>pr_most_depleted = dep, pr_compact = compact_text,
       pr_alternate = bounded_summary base (qualifier ps fr),
       pr_tooltip = fill_tooltip limit (py_join [10] (head_lines px p ps fr)) body\<rparr>)"

definition presentation_of ::
  "platform \<Rightarrow> provider_key \<Rightarrow> provider_outcome \<Rightarrow> pwindow list \<Rightarrow> public_state option \<Rightarrow> freshness option
     \<Rightarrow> ustr option \<Rightarrow> nat \<Rightarrow> perror option \<Rightarrow> presets option \<Rightarrow> py_exn + presentation" where
  "presentation_of px p outcome ws ps fr reason limit err rs =
     (if outcome \<noteq> OSnapshot then Inr (failed_presentation p outcome reason err)
      else case (ps, fr) of
        (Some s, Some f) \<Rightarrow> Inr (snapshot_presentation px p ws s f limit rs)
      | _ \<Rightarrow> Inl (ValueError ''invalid snapshot presentation''))"

end
