(* ===== verification/Document.thy ===== *)
theory Document
  imports Projection JsonRoundtrip "HOL-Library.Sublist"
begin

text \<open>
  \<open>projection.py\<close>, second half: one item per provider (\<open>item_facts\<close> and its presentation), the
  general texts, the document of a run, its encoding and the search for the largest tooltip limit
  under which the document fits in 65,536 bytes.

  \<open>limit_search_spec\<close> says what the search returns for any encoder, \<open>doc_json_mono\<close> that a larger
  limit never gives a shorter document; together they make the document the fullest that fits.
\<close>

section \<open>Input\<close>

record projection_input =
  in_document :: document
  in_enabled :: "provider_key list"
  in_evidence :: "failure_evidence option"

definition mk_input :: "document \<Rightarrow> json list \<Rightarrow> failure_evidence option \<Rightarrow> py_exn + projection_input" where
  "mk_input d enabled evidence =
     rbind (rmap (\<lambda>p. enum_of pk_members pk_value p ''invalid enabled provider set'') enabled) (\<lambda>ps.
       Inr \<lparr>in_document = d, in_enabled = ps, in_evidence = evidence\<rparr>)"

section \<open>Items\<close>

record pitem =
  pi_provider :: provider_key
  pi_outcome :: provider_outcome
  pi_public_state :: "public_state option"
  pi_freshness :: "freshness option"
  pi_status_observed_at :: "ustr option"
  pi_fetched_at :: "ustr option"
  pi_data_at :: "ustr option"
  pi_source_id :: "ustr option"
  pi_windows :: "pwindow list"
  pi_resets :: "presets option"
  pi_error :: "perror option"
  pi_reason :: "ustr option"

text \<open>An item with its presentation, \<open>item.update(_presentation(...))\<close>.\<close>

type_synonym shown = "pitem \<times> presentation"

definition blank_item :: "provider_key \<Rightarrow> provider_outcome \<Rightarrow> pitem" where
  "blank_item p out = \<lparr>pi_provider = p, pi_outcome = out, pi_public_state = None, pi_freshness = None,
     pi_status_observed_at = None, pi_fetched_at = None, pi_data_at = None, pi_source_id = None,
     pi_windows = [], pi_resets = None, pi_error = None, pi_reason = None\<rparr>"

definition reset_credits :: "resets option \<Rightarrow> py_exn + presets option" where
  "reset_credits v = ropt (\<lambda>r. rbind (recheck_resets r) (\<lambda>r.
     rbind (ropt timestamp (r_next_expires_at r)) (\<lambda>e. Inr (r_available_count r, e)))) v"

definition provider_outcome_of :: "provider_key list \<Rightarrow> view \<Rightarrow> py_exn + provider_outcome" where
  "provider_outcome_of enabled v = (case v_outcome v of
     Some out \<Rightarrow> Inr out
   | None \<Rightarrow>
       if v_snapshot v \<noteq> None then Inr OSnapshot
       else if v_state v = SafeErr then Inr OExecError
       else if v_state v = StUnavailable then
         Inr (if v_provider v \<in> set enabled then OUndetected else ONotRun)
       else Inl (ValueError ''provider outcome is not representable''))"

definition snapshot_windows :: "platform \<Rightarrow> provider_key \<Rightarrow> snapshot \<Rightarrow> py_exn + pwindow list" where
  "snapshot_windows px p s =
     (if p = OpencodeGo then opencode_windows px s else rmap (\<lambda>w. pwindow_of px w p) (s_windows s))"

definition snapshot_item :: "platform \<Rightarrow> view \<Rightarrow> py_exn + pitem" where
  "snapshot_item px v = (case v_snapshot v of
     None \<Rightarrow> Inl (ValueError ''invalid current snapshot outcome'')
   | Some s \<Rightarrow>
       if v_error v \<noteq> None then Inl (ValueError ''invalid current snapshot outcome'')
       else
         rbind (timestamp (s_status_observed_at s)) (\<lambda>ob.
         rbind (timestamp (s_fetched_at s)) (\<lambda>fe.
         rbind (timestamp (s_data_at s)) (\<lambda>da.
         rbind (reset_credits (s_resets s)) (\<lambda>rs.
         rbind (snapshot_windows px (v_provider v) s) (\<lambda>ws.
         let sorted = sort_key window_sort_key ws in
         if max_quota_windows < length sorted then Inl TooManyWindows
         else Inr ((blank_item (v_provider v) OSnapshot)
           \<lparr>pi_public_state := Some (s_public_state s), pi_freshness := Some (s_freshness s),
            pi_status_observed_at := Some ob, pi_fetched_at := Some fe, pi_data_at := Some da,
            pi_source_id := source px (s_source_id s) (v_provider v), pi_resets := rs,
            pi_windows := sorted\<rparr>)))))))"

definition run_reasons :: "ustr list" where
  "run_reasons = [u ''disabled'', u ''document_aborted'', u ''guard_wait_timeout'', u ''deadline_exhausted'']"

definition enabled_reason :: "ustr option \<Rightarrow> bool" where
  "enabled_reason r \<longleftrightarrow> (case r of Some s \<Rightarrow> s \<in> set run_reasons | None \<Rightarrow> False)"

definition reason_or_disabled :: "ustr option \<Rightarrow> ustr" where
  "reason_or_disabled r = (case r of None \<Rightarrow> u ''disabled'' | Some s \<Rightarrow> if s = [] then u ''disabled'' else s)"

definition item_facts ::
  "platform \<Rightarrow> provider_key list \<Rightarrow> failure_evidence option \<Rightarrow> view \<Rightarrow> py_exn + pitem" where
  "item_facts px enabled evidence v =
     rbind (provider_outcome_of enabled v) (\<lambda>out.
     let p = v_provider v in
     case out of
       OSnapshot \<Rightarrow> snapshot_item px v
     | OUndetected \<Rightarrow>
         if v_snapshot v \<noteq> None \<or> v_error v \<noteq> None then Inl (ValueError ''invalid current undetected outcome'')
         else Inr (blank_item p OUndetected)
     | ONotRun \<Rightarrow>
         if v_snapshot v \<noteq> None \<or> v_error v \<noteq> None \<or> p \<in> set enabled \<and> \<not> enabled_reason (v_not_run_reason v)
         then Inl (ValueError ''invalid current not-run outcome'')
         else Inr ((blank_item p ONotRun)\<lparr>pi_reason := Some (reason_or_disabled (v_not_run_reason v))\<rparr>)
     | OExecError \<Rightarrow>
         (case v_error v of
            None \<Rightarrow> Inl (ValueError ''invalid current execution-error outcome'')
          | Some code \<Rightarrow>
              if v_snapshot v \<noteq> None then Inl (ValueError ''invalid current execution-error outcome'')
              else Inr ((blank_item p OExecError)
                \<lparr>pi_error := Some (provider_error code (if p = OpencodeGo then evidence else None))\<rparr>)))"

definition present :: "platform \<Rightarrow> nat \<Rightarrow> pitem \<Rightarrow> py_exn + shown" where
  "present px limit i =
     rbind (presentation_of px (pi_provider i) (pi_outcome i) (pi_windows i) (pi_public_state i)
       (pi_freshness i) (pi_reason i) limit (pi_error i) (pi_resets i)) (\<lambda>pr. Inr (i, pr))"

definition provider_item ::
  "platform \<Rightarrow> provider_key list \<Rightarrow> nat \<Rightarrow> failure_evidence option \<Rightarrow> view \<Rightarrow> py_exn + shown" where
  "provider_item px enabled limit evidence v = rbind (item_facts px enabled evidence v) (present px limit)"

section \<open>The document\<close>

text \<open>\<open>_general\<close>: the texts of the providers that are not disabled, joined.\<close>

record general =
  g_compact :: ustr
  g_alternate :: ustr
  g_tooltip :: ustr

definition provider_letter :: "provider_key \<Rightarrow> nat" where
  "provider_letter p = (if p = Codex then 67 else 79)"

definition general_of :: "shown list \<Rightarrow> general" where
  "general_of items =
     (let selected = filter (\<lambda>x. pi_reason (fst x) \<noteq> Some (u ''disabled'')) items in
      if selected = [] then
        \<lparr>g_compact = em_dash, g_alternate = u ''No providers enabled'', g_tooltip = u ''No providers enabled''\<rparr>
      else
        \<lparr>g_compact = py_join middle_dot
           (map (\<lambda>(i, pr). provider_letter (pi_provider i) # 61 # pr_compact pr) selected),
         g_alternate = py_join middle_dot
           (map (\<lambda>(i, pr). provider_letter (pi_provider i) # 58 # 32 # pr_alternate pr) selected),
         g_tooltip = py_join [10, 10] (map (\<lambda>x. pr_tooltip (snd x)) selected)\<rparr>)"

record pdoc =
  pd_state :: ustr
  pd_error :: "perror option"
  pd_general :: general
  pd_providers :: "shown list"

definition successful :: "provider_outcome \<Rightarrow> bool" where
  "successful out \<longleftrightarrow> out = OSnapshot \<or> out = OUndetected"

definition execution_state :: "safe_error option \<Rightarrow> provider_outcome list \<Rightarrow> ustr \<times> perror option" where
  "execution_state err outs = (case err of
     Some ECleanup \<Rightarrow> (u ''execution_error'', Some (u ''cleanup_failed'', u ''cleanup''))
   | Some EGuardWait \<Rightarrow> (u ''not_run'', Some (ec_value EGuardWait, u ''guard_wait''))
   | Some EDeadline \<Rightarrow> (u ''not_run'', Some (ec_value EDeadline, u ''document''))
   | Some code \<Rightarrow> (u ''execution_error'', Some (ec_value code, u ''guard_wait''))
   | None \<Rightarrow>
       if list_all successful outs then (u ''complete'', None)
       else if list_ex successful outs then (u ''partial'', None)
       else if list_all (\<lambda>out. out = ONotRun) outs then (u ''not_run'', None)
       else (u ''execution_error'', Some (u ''provider_failed'', u ''provider'')))"

definition view_dict :: "view list \<Rightarrow> (provider_key \<times> view) list" where
  "view_dict vs = foldl (\<lambda>d v. dict_put (v_provider v) v d) [] vs"

definition project_at :: "platform \<Rightarrow> projection_input \<Rightarrow> nat \<Rightarrow> py_exn + pdoc" where
  "project_at px inp limit =
     (let views = view_dict (d_providers (in_document inp)) in
      if map fst views \<noteq> provider_order then Inl (ValueError ''document providers are not canonical'')
      else
        rbind (rmap (\<lambda>(p, v). provider_item px (in_enabled inp) limit
                       (if p = OpencodeGo then in_evidence inp else None) v) views) (\<lambda>items.
        let (st, err) = execution_state (d_error (in_document inp)) (map (\<lambda>x. pi_outcome (fst x)) items) in
        Inr \<lparr>pd_state = st, pd_error = err, pd_general = general_of items, pd_providers = items\<rparr>))"

definition project_document :: "platform \<Rightarrow> projection_input \<Rightarrow> py_exn + pdoc" where
  "project_document px inp = project_at px inp max_tooltip_scalars"

section \<open>The JSON of a document\<close>

definition jstr :: "ustr option \<Rightarrow> json" where
  "jstr = jopt JStr"

definition pquantity_json :: "pquantity \<Rightarrow> json" where
  "pquantity_json q = JObj [(u ''value'', JStr (pq_value q)), (u ''metric'', JStr (mk_value (pq_metric q))),
     (u ''unit'', JStr (pq_unit q))]"

definition pwindow_json :: "pwindow \<Rightarrow> json" where
  "pwindow_json w = JObj [(u ''kind'', JStr (wk_value (pw_kind w))), (u ''scope'', JStr (pw_scope w)),
     (u ''period'', JStr (pw_period w)), (u ''plan_id'', jstr (pw_plan_id w)),
     (u ''availability'', JStr (av_value (pw_availability w))), (u ''source_id'', jstr (pw_source_id w)),
     (u ''limit'', jopt pquantity_json (pw_limit w)), (u ''used'', jopt pquantity_json (pw_used w)),
     (u ''remaining'', jopt pquantity_json (pw_remaining w)), (u ''reset_at'', jstr (pw_reset_at w))]"

definition presets_json :: "presets \<Rightarrow> json" where
  "presets_json r = JObj [(u ''available_count'', JInt (fst r)), (u ''next_expires_at'', jstr (snd r))]"

definition perror_json :: "perror \<Rightarrow> json" where
  "perror_json e = JObj [(u ''code'', JStr (fst e)), (u ''phase'', JStr (snd e))]"

definition depleted_json :: "depleted \<Rightarrow> json" where
  "depleted_json d = JObj [(u ''kind'', JStr (wk_value (dp_kind d))), (u ''scope'', JStr (dp_scope d)),
     (u ''period'', JStr (dp_period d)), (u ''plan_id'', jstr (dp_plan_id d)), (u ''unit'', JStr (dp_unit d)),
     (u ''source_id'', jstr (dp_source_id d)), (u ''remaining_percentage'', JStr (dp_remaining_percentage d))]"

definition facts_json :: "pitem \<Rightarrow> jobj" where
  "facts_json i =
     [(u ''provider'', JStr (pk_value (pi_provider i))), (u ''outcome'', JStr (po_value (pi_outcome i))),
      (u ''public_state'', jstr (map_option pub_value (pi_public_state i))),
      (u ''freshness'', jstr (map_option fr_value (pi_freshness i))),
      (u ''status_observed_at'', jstr (pi_status_observed_at i)), (u ''fetched_at'', jstr (pi_fetched_at i)),
      (u ''data_at'', jstr (pi_data_at i)), (u ''source_id'', jstr (pi_source_id i)),
      (u ''windows'', JList (map pwindow_json (pi_windows i))),
      (u ''rate_limit_reset_credits'', jopt presets_json (pi_resets i)),
      (u ''execution_error'', jopt perror_json (pi_error i)), (u ''not_run_reason'', jstr (pi_reason i))]"

definition presentation_json :: "presentation \<Rightarrow> jobj" where
  "presentation_json pr =
     [(u ''most_depleted_window'', jopt depleted_json (pr_most_depleted pr)),
      (u ''compact_text'', JStr (pr_compact pr)), (u ''alternate_text'', JStr (pr_alternate pr)),
      (u ''tooltip_text'', JStr (pr_tooltip pr))]"

definition shown_json :: "shown \<Rightarrow> json" where
  "shown_json x = JObj (facts_json (fst x) @ presentation_json (snd x))"

definition general_json :: "general \<Rightarrow> json" where
  "general_json g = JObj [(u ''compact_text'', JStr (g_compact g)), (u ''alternate_text'', JStr (g_alternate g)),
     (u ''tooltip_text'', JStr (g_tooltip g))]"

definition doc_json :: "pdoc \<Rightarrow> json" where
  "doc_json d = JObj [(u ''execution_state'', JStr (pd_state d)), (u ''execution_error'', jopt perror_json (pd_error d)),
     (u ''general'', general_json (pd_general d)), (u ''providers'', JList (map shown_json (pd_providers d)))]"

section \<open>Encoding\<close>

definition encode_json :: "json \<Rightarrow> py_exn + bytes" where
  "encode_json j = rbind (dumps_strict (compact False) j) (\<lambda>t. utf8_encode (t @ [10]))"

definition encode :: "pdoc \<Rightarrow> py_exn + bytes" where
  "encode d = encode_json (doc_json d)"

text \<open>The search over \<open>low..high\<close>: halving the interval, keeping the last candidate whose size fits.\<close>

function limit_search :: "('a \<Rightarrow> bool) \<Rightarrow> (nat \<Rightarrow> py_exn + 'a) \<Rightarrow> int \<Rightarrow> int \<Rightarrow> 'a option \<Rightarrow> py_exn + 'a option" where
  "limit_search fits f low high best =
     (if low \<le> high then
        rbind (f (nat ((low + high) div 2))) (\<lambda>c.
          if fits c then limit_search fits f ((low + high) div 2 + 1) high (Some c)
          else limit_search fits f low ((low + high) div 2 - 1) best)
      else Inr best)"
  by pat_completeness auto
termination
  by (relation "measure (\<lambda>(fits, f, low, high, best). nat (high + 1 - low))") auto

declare limit_search.simps [simp del]

definition failed_item :: "ustr \<Rightarrow> provider_key \<Rightarrow> shown" where
  "failed_item reason p =
     ((blank_item p ONotRun)\<lparr>pi_reason := Some reason\<rparr>, failed_presentation p ONotRun (Some reason) None)"

definition failure_doc :: "ustr \<Rightarrow> ustr \<Rightarrow> ustr \<Rightarrow> pdoc" where
  "failure_doc value phase reason =
     (let items = map (failed_item reason) provider_order in
      \<lparr>pd_state = u ''execution_error'', pd_error = Some (value, phase), pd_general = general_of items,
       pd_providers = items\<rparr>)"

definition project_failure_bytes :: "ustr \<Rightarrow> py_exn + bytes" where
  "project_failure_bytes value = (case failures value of
     None \<Rightarrow> Inl (ValueError ''unsupported current document failure'')
   | Some (phase, reason) \<Rightarrow> encode (failure_doc value phase reason))"

definition fits_document :: "bytes \<Rightarrow> bool" where
  "fits_document b \<longleftrightarrow> length b \<le> max_document_bytes"

definition encode_at :: "platform \<Rightarrow> projection_input \<Rightarrow> nat \<Rightarrow> py_exn + bytes" where
  "encode_at px inp limit = rbind (project_at px inp limit) encode"

definition project_bytes :: "platform \<Rightarrow> projection_input \<Rightarrow> py_exn + bytes" where
  "project_bytes px inp = (case encode_at px inp max_tooltip_scalars of
     Inl TooManyWindows \<Rightarrow> project_failure_bytes (u ''internal_error'')
   | Inl e \<Rightarrow> Inl e
   | Inr b \<Rightarrow>
       if fits_document b then Inr b
       else rbind (limit_search fits_document (encode_at px inp) 0 (int max_tooltip_scalars) None) (\<lambda>best.
         case best of Some c \<Rightarrow> Inr c | None \<Rightarrow> project_failure_bytes (u ''internal_error'')))"

definition not_run_view :: "ustr \<Rightarrow> provider_key \<Rightarrow> py_exn + view" where
  "not_run_view reason p = mk_view (JStr (pk_value p)) (JStr (ps_value StUnavailable)) None JNull
     (Some (JStr (po_value ONotRun))) None (Some reason)"

definition project_not_run_bytes :: "platform \<Rightarrow> ustr \<Rightarrow> py_exn + bytes" where
  "project_not_run_bytes px reason =
     (if reason \<notin> {u ''guard_wait_timeout'', u ''deadline_exhausted''}
      then Inl (ValueError ''unsupported current not-run reason'')
      else
        rbind (not_run_view reason Codex) (\<lambda>c.
        rbind (not_run_view reason OpencodeGo) (\<lambda>g.
        rbind (ordered c g (Some (if reason = u ''guard_wait_timeout'' then EGuardWait else EDeadline))) (\<lambda>d.
        rbind (mk_input d [] None) (project_bytes px)))))"

end
