(* ===== verification/DocumentFacts.thy ===== *)
theory DocumentFacts
  imports Document
begin

text \<open>
  What the projection promises of the bytes it returns: the size, the single line feed, and that the
  tooltip limit it settles on is the largest that fits.
\<close>

section \<open>The search\<close>

lemma limit_search_spec:
  assumes "0 \<le> low" and "\<And>l. low \<le> l \<Longrightarrow> l \<le> high \<Longrightarrow> f (nat l) = Inr (g (nat l))"
    and "\<And>l l'. low \<le> l \<Longrightarrow> l \<le> l' \<Longrightarrow> l' \<le> high \<Longrightarrow> fits (g (nat l')) \<Longrightarrow> fits (g (nat l))"
  shows "(\<forall>l. low \<le> l \<and> l \<le> high \<longrightarrow> \<not> fits (g (nat l))) \<and> limit_search fits f low high best = Inr best
    \<or> (\<exists>m. low \<le> m \<and> m \<le> high \<and> fits (g (nat m)) \<and> (\<forall>l. m < l \<and> l \<le> high \<longrightarrow> \<not> fits (g (nat l)))
         \<and> limit_search fits f low high best = Inr (Some (g (nat m))))"
  using assms
proof (induction fits f low high best rule: limit_search.induct)
  case (1 fits f low high best)
  let ?m = "(low + high) div 2"
  show ?case
  proof (cases "low \<le> high")
    case False
    then show ?thesis by (subst (1) limit_search.simps) auto
  next
    case True
    have m: "low \<le> ?m" "?m \<le> high" using True by auto
    have fm: "f (nat ?m) = Inr (g (nat ?m))" using "1.prems"(2) m by blast
    show ?thesis
    proof (cases "fits (g (nat ?m))")
      case fit: True
      have step: "limit_search fits f low high best = limit_search fits f (?m + 1) high (Some (g (nat ?m)))"
        using True fm fit by (subst limit_search.simps) simp
      from "1.IH"(1)[OF True fit] "1.prems" m
      consider (none) "\<forall>l. ?m + 1 \<le> l \<and> l \<le> high \<longrightarrow> \<not> fits (g (nat l))"
            "limit_search fits f (?m + 1) high (Some (g (nat ?m))) = Inr (Some (g (nat ?m)))"
        | (more) n where "?m + 1 \<le> n" "n \<le> high" "fits (g (nat n))" "\<forall>l. n < l \<and> l \<le> high \<longrightarrow> \<not> fits (g (nat l))"
            "limit_search fits f (?m + 1) high (Some (g (nat ?m))) = Inr (Some (g (nat n)))"
        by (smt (verit, best))
      then show ?thesis
      proof cases
        case none
        then show ?thesis unfolding step using m fit by (intro disjI2 exI[of _ ?m]) auto
      next
        case more
        then show ?thesis unfolding step using m by (intro disjI2 exI[of _ n]) auto
      qed
    next
      case no: False
      have step: "limit_search fits f low high best = limit_search fits f low (?m - 1) best"
        using True fm no by (subst limit_search.simps) simp
      have above: "\<not> fits (g (nat l))" if "?m \<le> l" "l \<le> high" for l
        using "1.prems"(3)[of ?m l] that m no by auto
      from "1.IH"(2)[OF True no] "1.prems" m
      consider (none) "\<forall>l. low \<le> l \<and> l \<le> ?m - 1 \<longrightarrow> \<not> fits (g (nat l))"
            "limit_search fits f low (?m - 1) best = Inr best"
        | (more) n where "low \<le> n" "n \<le> ?m - 1" "fits (g (nat n))" "\<forall>l. n < l \<and> l \<le> ?m - 1 \<longrightarrow> \<not> fits (g (nat l))"
            "limit_search fits f low (?m - 1) best = Inr (Some (g (nat n)))"
        by (smt (verit, best))
      then show ?thesis
      proof cases
        case none
        have "\<not> fits (g (nat l))" if "low \<le> l" "l \<le> high" for l
          using none(1) above[of l] that by (cases "l \<le> ?m - 1") auto
        then show ?thesis unfolding step using none(2) by blast
      next
        case more
        have "\<not> fits (g (nat l))" if "n < l" "l \<le> high" for l
          using more(4) above[of l] that by (cases "l \<le> ?m - 1") auto
        then show ?thesis unfolding step using more m by (intro disjI2 exI[of _ n]) auto
      qed
    qed
  qed
qed

section \<open>Shorter texts, shorter documents\<close>

text \<open>\<open>jsub v w\<close>: the same JSON but for string values, each a subsequence of the other's.\<close>

inductive jsub :: "json \<Rightarrow> json \<Rightarrow> bool" where
  same: "jsub v v"
| str: "subseq s t \<Longrightarrow> jsub (JStr s) (JStr t)"
| list: "list_all2 jsub xs ys \<Longrightarrow> jsub (JList xs) (JList ys)"
| obj: "list_all2 (\<lambda>a b. fst a = fst b \<and> jsub (snd a) (snd b)) d e \<Longrightarrow> jsub (JObj d) (JObj e)"

lemma subseq_concat_map: "subseq s t \<Longrightarrow> subseq (concat (map f s)) (concat (map f t))"
  by (induction rule: list_emb.induct) (auto intro: list_emb_append2 list_emb_append_mono)

lemma jstr_text_sub: "subseq s t \<Longrightarrow> subseq (jstr_text a s) (jstr_text a t)"
  by (auto simp: jstr_text_def intro!: list_emb_append_mono subseq_concat_map)

lemma py_join_sub: "list_all2 subseq xs ys \<Longrightarrow> subseq (py_join sep xs) (py_join sep ys)"
proof (induction rule: list_all2_induct)
  case (Cons x xs y ys)
  show ?case
  proof (cases "xs = []")
    case True
    then show ?thesis using Cons by auto
  next
    case False
    then have "ys \<noteq> []" using Cons by auto
    then show ?thesis using Cons False by (simp add: py_join_Cons list_emb_append_mono)
  qed
qed simp

lemma jsub_text:
  assumes "\<not> sort_keys op"
  shows "jsub v w \<Longrightarrow> subseq (json_text op v) (json_text op w)"
proof (induction rule: jsub.induct)
  case (str s t)
  then show ?case by (simp add: jstr_text_sub)
next
  case (list xs ys)
  have "list_all2 subseq (map (json_text op) xs) (map (json_text op) ys)"
    using list by (auto simp: list_all2_conv_all_nth)
  then show ?case by (auto intro!: list_emb_append_mono py_join_sub)
next
  case (obj d e)
  let ?f = "\<lambda>(k, v). jstr_text (ensure_ascii op) k @ key_sep op @ json_text op v"
  have t: "json_text op (JObj d) = 123 # py_join (item_sep op) (map ?f d) @ [125]" for d
    using assms by (simp add: comp_def split_def)
  have "list_all2 subseq (map ?f d) (map ?f e)"
    using obj by (auto simp: list_all2_conv_all_nth split_def intro!: list_emb_append_mono)
  then show ?case unfolding t by (auto intro!: list_emb_append_mono py_join_sub)
qed simp

lemma jsub_writable: "jsub v w \<Longrightarrow> json_writable w \<Longrightarrow> json_writable v"
  by (induction rule: jsub.induct)
    (auto simp: list_all_length list_all2_conv_all_nth split_def)

lemma subseq_utf8: "subseq s t \<Longrightarrow> subseq (utf8 s) (utf8 t)"
  unfolding utf8_def by (rule subseq_concat_map)

lemma encode_json_mono:
  assumes "jsub v w" "encode_json w = Inr c"
  shows "\<exists>b. encode_json v = Inr b \<and> length b \<le> length c"
proof -
  let ?t = "\<lambda>v. json_text (compact False) v @ [10]"
  have w: "json_writable w" "list_all encodable (?t w)" and c: "c = utf8 (?t w)"
    using assms(2) by (auto simp: encode_json_def dumps_strict_def utf8_encode_def split: if_splits)
  have sub: "subseq (?t v) (?t w)"
    using jsub_text[OF _ assms(1), of "compact False"] by (auto simp: compact_def intro: list_emb_append_mono)
  then have "set (?t v) \<subseteq> set (?t w)" by (auto dest: list_emb_set)
  then have "list_all encodable (?t v)" using w(2) by (rule encodable_sub)
  then have "encode_json v = Inr (utf8 (?t v))"
    using jsub_writable[OF assms(1) w(1)]
    by (simp add: encode_json_def dumps_strict_def utf8_encode_def)
  then show ?thesis using c list_emb_length[OF subseq_utf8[OF sub]] by auto
qed

section \<open>The limit and the document\<close>

lemma fill_tooltip_prefix: "prefix tip (fill_tooltip limit tip ls)"
proof (induction limit tip ls rule: fill_tooltip.induct)
  case (2 limit tip line rest)
  then show ?case by (auto simp: Let_def dest: append_prefixD)
qed simp

lemma fill_tooltip_mono: "l \<le> l' \<Longrightarrow> prefix (fill_tooltip l tip ls) (fill_tooltip l' tip ls)"
proof (induction l tip ls rule: fill_tooltip.induct)
  case (2 l tip line rest)
  have "prefix tip (fill_tooltip l' tip (line # rest))" by (rule fill_tooltip_prefix)
  then show ?case using 2 by (auto simp: Let_def)
qed simp

definition shown_sub :: "shown \<Rightarrow> shown \<Rightarrow> bool" where
  "shown_sub x y \<longleftrightarrow> fst x = fst y \<and> pr_most_depleted (snd x) = pr_most_depleted (snd y)
     \<and> pr_compact (snd x) = pr_compact (snd y) \<and> pr_alternate (snd x) = pr_alternate (snd y)
     \<and> subseq (pr_tooltip (snd x)) (pr_tooltip (snd y))"

lemma present_mono:
  assumes l: "l \<le> l'" and y: "present px l' i = Inr y"
  shows "\<exists>x. present px l i = Inr x \<and> shown_sub x y"
proof (cases "pi_outcome i = OSnapshot")
  case False
  then have "present px l i = present px l' i" by (simp add: present_def presentation_of_def)
  then show ?thesis using y by (auto simp: shown_sub_def)
next
  case True
  then obtain ps fr where s: "pi_public_state i = Some ps" "pi_freshness i = Some fr"
    using y by (auto simp: present_def presentation_of_def split: option.splits)
  let ?p = "\<lambda>l. snapshot_presentation px (pi_provider i) (pi_windows i) ps fr l (pi_resets i)"
  have p: "present px l i = Inr (i, ?p l)" for l using True s by (simp add: present_def presentation_of_def)
  have "shown_sub (i, ?p l) (i, ?p l')"
    by (simp add: shown_sub_def snapshot_presentation_def Let_def l fill_tooltip_mono prefix_imp_subseq
        split: prod.split del: fill_tooltip.simps)
  then show ?thesis using y p by auto
qed

lemma provider_item_mono:
  "l \<le> l' \<Longrightarrow> provider_item px en l' ev v = Inr y \<Longrightarrow> \<exists>x. provider_item px en l ev v = Inr x \<and> shown_sub x y"
  by (auto simp: provider_item_def rbind_Inr_iff dest: present_mono)

lemma rmap_mono:
  assumes "\<And>x y. x \<in> set xs \<Longrightarrow> f x = Inr y \<Longrightarrow> \<exists>z. g x = Inr z \<and> R z y" "rmap f xs = Inr ys"
  shows "\<exists>zs. rmap g xs = Inr zs \<and> list_all2 R zs ys"
  using assms
proof (induction xs arbitrary: ys)
  case (Cons x xs)
  then obtain y ys' where y: "f x = Inr y" "rmap f xs = Inr ys'" "ys = y # ys'" by (auto simp: result_simps)
  obtain z where "g x = Inr z" "R z y" using Cons.prems(1) y(1) by auto
  moreover obtain zs where "rmap g xs = Inr zs" "list_all2 R zs ys'"
    using Cons.IH[OF _ y(2)] Cons.prems(1) by auto
  ultimately show ?case using y by simp
qed simp

lemma jsub_refl_list: "list_all2 (\<lambda>a b. fst a = fst b \<and> jsub (snd a) (snd b)) d d"
  by (auto simp: list_all2_conv_all_nth jsub.same)

lemma shown_json_sub: "shown_sub x y \<Longrightarrow> jsub (shown_json x) (shown_json y)"
  unfolding shown_json_def shown_sub_def presentation_json_def
  by (rule jsub.obj) (auto intro!: list_all2_appendI jsub_refl_list jsub.same jsub.str)

lemma general_sub:
  assumes "list_all2 shown_sub xs ys"
  shows "g_compact (general_of xs) = g_compact (general_of ys)"
    "g_alternate (general_of xs) = g_alternate (general_of ys)"
    "subseq (g_tooltip (general_of xs)) (g_tooltip (general_of ys))"
proof -
  let ?sel = "filter (\<lambda>x. pi_reason (fst x) \<noteq> Some (u ''disabled''))"
  have sel: "list_all2 shown_sub (?sel xs) (?sel ys)"
    using assms by (induction rule: list_all2_induct) (auto simp: shown_sub_def)
  have c: "map (\<lambda>(i, pr). provider_letter (pi_provider i) # 61 # pr_compact pr) (?sel xs)
    = map (\<lambda>(i, pr). provider_letter (pi_provider i) # 61 # pr_compact pr) (?sel ys)"
    and a: "map (\<lambda>(i, pr). provider_letter (pi_provider i) # 58 # 32 # pr_alternate pr) (?sel xs)
    = map (\<lambda>(i, pr). provider_letter (pi_provider i) # 58 # 32 # pr_alternate pr) (?sel ys)"
    using sel by (induction rule: list_all2_induct) (auto simp: shown_sub_def)
  have t: "list_all2 subseq (map (\<lambda>x. pr_tooltip (snd x)) (?sel xs)) (map (\<lambda>x. pr_tooltip (snd x)) (?sel ys))"
    using sel by (auto simp: list_all2_conv_all_nth shown_sub_def)
  have e: "?sel xs = [] \<longleftrightarrow> ?sel ys = []" using sel by (metis list_all2_Nil list_all2_Nil2)
  show "g_compact (general_of xs) = g_compact (general_of ys)"
    "g_alternate (general_of xs) = g_alternate (general_of ys)"
    "subseq (g_tooltip (general_of xs)) (g_tooltip (general_of ys))"
    using c a e py_join_sub[OF t] by (simp_all only: general_of_def Let_def) simp_all
qed

lemma project_at_Inr:
  "project_at px inp l = Inr d \<longleftrightarrow> (\<exists>ys. map fst (view_dict (d_providers (in_document inp))) = provider_order
     \<and> rmap (\<lambda>(p, v). provider_item px (in_enabled inp) l (if p = OpencodeGo then in_evidence inp else None) v)
         (view_dict (d_providers (in_document inp))) = Inr ys
     \<and> d = \<lparr>pd_state = fst (execution_state (d_error (in_document inp)) (map (\<lambda>x. pi_outcome (fst x)) ys)),
         pd_error = snd (execution_state (d_error (in_document inp)) (map (\<lambda>x. pi_outcome (fst x)) ys)),
         pd_general = general_of ys, pd_providers = ys\<rparr>)"
  unfolding project_at_def Let_def case_prod_beta by (auto simp: rbind_Inr_iff)

lemma project_at_mono:
  assumes "l \<le> l'" "project_at px inp l' = Inr d'"
  shows "\<exists>d. project_at px inp l = Inr d \<and> jsub (doc_json d) (doc_json d')"
proof -
  let ?f = "\<lambda>l (p, v). provider_item px (in_enabled inp) l (if p = OpencodeGo then in_evidence inp else None) v"
  let ?vs = "view_dict (d_providers (in_document inp))"
  let ?err = "d_error (in_document inp)"
  obtain ys where ys: "map fst ?vs = provider_order" "rmap (?f l') ?vs = Inr ys"
    "d' = \<lparr>pd_state = fst (execution_state ?err (map (\<lambda>x. pi_outcome (fst x)) ys)),
       pd_error = snd (execution_state ?err (map (\<lambda>x. pi_outcome (fst x)) ys)),
       pd_general = general_of ys, pd_providers = ys\<rparr>"
    using assms(2) unfolding project_at_Inr by blast
  have "\<exists>xs. rmap (?f l) ?vs = Inr xs \<and> list_all2 shown_sub xs ys"
    using rmap_mono[OF _ ys(2), of "?f l" shown_sub] provider_item_mono[OF assms(1)] by (auto simp: split_def)
  then obtain xs where xs: "rmap (?f l) ?vs = Inr xs" "list_all2 shown_sub xs ys" by blast
  have outs: "map (\<lambda>x. pi_outcome (fst x)) xs = map (\<lambda>x. pi_outcome (fst x)) ys"
    using xs(2) by (induction rule: list_all2_induct) (auto simp: shown_sub_def)
  let ?d = "\<lparr>pd_state = pd_state d', pd_error = pd_error d', pd_general = general_of xs, pd_providers = xs\<rparr>"
  have "project_at px inp l = Inr ?d"
    unfolding project_at_Inr using ys(1,3) xs(1) outs by auto
  moreover have "jsub (general_json (general_of xs)) (general_json (general_of ys))"
    unfolding general_json_def using general_sub[OF xs(2)] by (intro jsub.obj) (auto intro: jsub.intros)
  moreover have "jsub (JList (map shown_json xs)) (JList (map shown_json ys))"
    using xs(2) shown_json_sub by (intro jsub.list) (auto simp: list_all2_conv_all_nth)
  ultimately show ?thesis using ys(3)
    by (intro exI[of _ ?d]) (auto simp: doc_json_def intro!: jsub.obj intro: jsub.same)
qed

lemma encode_at_mono:
  "l \<le> l' \<Longrightarrow> encode_at px inp l' = Inr c \<Longrightarrow> \<exists>b. encode_at px inp l = Inr b \<and> length b \<le> length c"
  unfolding encode_at_def encode_def rbind_Inr_iff
  by (metis project_at_mono encode_json_mono)

section \<open>One line of text\<close>

definition printable :: "ustr \<Rightarrow> bool" where
  "printable s \<longleftrightarrow> (\<forall>c \<in> set s. 32 \<le> c)"

lemma printable_simps [simp]:
  "printable []" "printable (c # s) \<longleftrightarrow> 32 \<le> c \<and> printable s" "printable (s @ t) \<longleftrightarrow> printable s \<and> printable t"
  by (auto simp: printable_def)

lemma esc_char_printable: "printable (esc_char a c)"
proof -
  have h: "32 \<le> hex_digit d" for d by (simp add: hex_digit_def)
  show ?thesis by (auto simp: esc_char_def esc_u_def hex4_def h)
qed

lemma printable_concat: "(\<And>x. x \<in> set xs \<Longrightarrow> printable x) \<Longrightarrow> printable (concat xs)"
  by (induction xs) auto

lemma jstr_printable: "printable (jstr_text a s)"
  by (auto simp: jstr_text_def esc_char_printable intro!: printable_concat)

lemma join_printable: "printable sep \<Longrightarrow> (\<And>x. x \<in> set xs \<Longrightarrow> printable x) \<Longrightarrow> printable (py_join sep xs)"
  by (induction sep xs rule: py_join.induct) auto

lemma str_nat_printable: "printable (str_nat n)"
  using str_nat_digits[of _ n] by (fastforce simp: printable_def is_digit_def)

lemma json_text_printable: "json_plain v \<Longrightarrow> printable (json_text (compact a) v)"
proof (induction v)
  case (JList xs)
  then show ?case by (auto simp: compact_def list_all_iff intro!: join_printable)
next
  case (JObj d)
  then have "printable (json_text (compact a) (snd p))" if "p \<in> set d" for p
    using that by (cases p) (fastforce simp: list_all_iff)
  then show ?case by (auto simp: compact_def jstr_printable intro!: join_printable)
qed (auto simp: jstr_printable str_nat_printable str_int_def u_Cons compact_def)

lemma utf8_printable: "printable s \<Longrightarrow> 10 \<notin> set (utf8 s)"
  by (induction s) (auto simp: utf8_char_def)

lemma jopt_plain: "(\<And>x. json_plain (f x)) \<Longrightarrow> json_plain (jopt f v)"
  by (cases v) (auto simp: jopt_def)

lemma doc_plain: "json_plain (doc_json d)"
proof -
  have q: "json_plain (pquantity_json q)" for q by (simp add: pquantity_json_def)
  have e: "json_plain (perror_json q)" for q by (simp add: perror_json_def)
  have w: "json_plain (pwindow_json w)" for w
    by (simp add: pwindow_json_def jstr_def jopt_plain q)
  have d: "json_plain (depleted_json w)" for w
    by (simp add: depleted_json_def jstr_def jopt_plain)
  have r: "json_plain (presets_json w)" for w
    by (simp add: presets_json_def jstr_def jopt_plain)
  have s: "json_plain (shown_json x)" for x
    by (simp add: shown_json_def facts_json_def presentation_json_def jstr_def jopt_plain e w d r list_all_iff)
  show ?thesis
    by (simp add: doc_json_def general_json_def jopt_plain e s list_all_iff)
qed

definition one_line :: "bytes \<Rightarrow> bool" where
  "one_line b \<longleftrightarrow> (\<exists>t. b = t @ [10] \<and> 10 \<notin> set t)"

lemma encode_shape:
  assumes "encode d = Inr b"
  shows "one_line b" "rbind (utf8_decode b) (loads (strict_hooks e f)) = Inr (doc_json d)"
proof -
  obtain t where t: "dumps_strict (compact False) (doc_json d) = Inr t" "utf8_encode (t @ [10]) = Inr b"
    using assms by (auto simp: encode_def encode_json_def rbind_Inr_iff)
  have b: "b = utf8 t @ [10]" "t = json_text (compact False) (doc_json d)"
    using t by (auto simp: utf8_encode_def dumps_strict_def utf8_def utf8_char_def split: if_splits)
  then show "one_line b" unfolding one_line_def
    using utf8_printable[OF json_text_printable[OF doc_plain, of False d]] by blast
  show "rbind (utf8_decode b) (loads (strict_hooks e f)) = Inr (doc_json d)"
    by (rule read_written[OF t doc_plain]) (auto simp: json_ws_def)
qed

lemmas [run] = em_dash_def middle_dot_def max_document_bytes_def max_tooltip_scalars_def opencode_fixed_periods_def
  provider_display_name_def not_run_text_def failures_def identity_def source_def timestamp_def strip_fraction_def
  or_zero_def pquantity_of_def when_trusted_def pwindow_of_def opencode_placeholder_def candidate_window_def opencode_slot_def
  opencode_matches_def opencode_windows_def or_empty_def window_sort_key_def evidence_code_def provider_error_def
  dec_of_text_def significant_digits_def render_percentage_def percentage_def bounded_summary_def spaced_def
  tooltip_period_def tooltip_state_def format_local_def tooltip_timestamp_def eligible_def less_eligible_def
  depleted_of_def window_lines_def reset_lines_def failed_presentation_def qualifier_def head_lines_def
  snapshot_presentation_def presentation_of_def expected_source_def
  mk_input_def blank_item_def reset_credits_def provider_outcome_of_def snapshot_windows_def snapshot_item_def
  run_reasons_def enabled_reason_def reason_or_disabled_def item_facts_def present_def provider_item_def
  provider_letter_def general_of_def successful_def execution_state_def view_dict_def project_at_def
  project_document_def jstr_def pquantity_json_def pwindow_json_def presets_json_def perror_json_def
  depleted_json_def facts_json_def presentation_json_def shown_json_def general_json_def doc_json_def
  encode_json_def encode_def failed_item_def failure_doc_def project_failure_bytes_def fits_document_def
  encode_at_def project_bytes_def not_run_view_def project_not_run_bytes_def

lemma internal_failure_fits:
  "\<exists>b. project_failure_bytes (u ''internal_error'') = Inr b \<and> length b \<le> 65536"
  by (simp add: run cong: run_cong)

end
