(* ===== verification/ProjectionFacts.thy ===== *)
theory ProjectionFacts
  imports DocumentFacts "HOL-Library.Multiset"
begin

text \<open>
  Properties of the projection: the rendered percentages and their order, the windows of an item, the
  texts' bounds, and the document bytes.
\<close>

section \<open>Percentages\<close>

lemma rstrip_zeros: obtains f' k where "f = f' @ replicate k c" "py_rstrip_char c (w @ f) =
     (if f' = [] then py_rstrip_char c w else w @ f')"
proof -
  let ?k = "length (takeWhile (\<lambda>x. x = c) (rev f))"
  let ?f = "rev (dropWhile (\<lambda>x. x = c) (rev f))"
  have z: "takeWhile (\<lambda>x. x = c) (rev f) = replicate ?k c"
    by (metis (mono_tags, lifting) replicate_length_same set_takeWhileD)
  have "rev f = replicate ?k c @ rev ?f" using takeWhile_dropWhile_id[of "\<lambda>x. x = c" "rev f"] z by simp
  then have f: "f = ?f @ replicate ?k c" by (metis rev_append rev_replicate rev_rev_ident)
  have s: "dropWhile (\<lambda>x. x = c) (rev f @ rev w)
    = (if dropWhile (\<lambda>x. x = c) (rev f) = [] then dropWhile (\<lambda>x. x = c) (rev w)
       else dropWhile (\<lambda>x. x = c) (rev f) @ rev w)"
    by (auto simp: dropWhile_append dropWhile_eq_Nil_conv)
  show ?thesis by (rule that[OF f]) (use s in \<open>auto simp: py_rstrip_char_def\<close>)
qed

lemma strip_fraction_value:
  "\<exists>d f. dec_parse (or_zero (strip_fraction (fixed_text c e))) = Inr (DFin False d f)
     \<and> dec_eq (DFin False d f) (DFin False c e)"
proof (cases "e < 0")
  case False
  show ?thesis
  proof (cases "c = 0")
    case True
    then have "fixed_text c e = [48]" using False by (auto simp: fixed_text_def Let_def)
    then show ?thesis using True
      by (auto simp: strip_fraction_def or_zero_def dec_parse_digits is_digit_def digits_val_def dec_int_def)
  next
    case c: False
    then have t: "fixed_text c e = str_nat (c * 10 ^ nat e)" using False by (simp add: fixed_text_zeros)
    then show ?thesis using False c digits_no_point[OF str_nat_all]
      by (auto simp: strip_fraction_def or_zero_def dec_parse_digits str_nat_all dec_int_def)
  qed
next
  case True
  obtain w f where f: "fixed_text c e = w @ 46 # f" "list_all is_digit w" "list_all is_digit f"
    "w \<noteq> []" "digits_val (w @ f) = c" "- int (length f) = e"
    by (rule fixed_text_point[OF True])
  obtain f' k where f': "f = f' @ replicate k 48"
    "py_rstrip_char 48 ((w @ [46]) @ f) = (if f' = [] then py_rstrip_char 48 (w @ [46]) else (w @ [46]) @ f')"
    using rstrip_zeros[of f 48 "w @ [46]"] by blast
  have dig: "list_all is_digit f'" using f f' by simp
  have val: "c = digits_val (w @ f') * 10 ^ k"
    using f(5) f'(1) by (auto simp: digits_val_zeros power_add algebra_simps)
  have w46: "py_rstrip_char 46 (w @ [46]) = w"
  proof -
    have "last w \<noteq> 46" using digits_no_point[OF f(2)] last_in_set[OF f(4)] by metis
    then show ?thesis using dropWhile_last[OF f(4), of 46] by (simp add: py_rstrip_char_def)
  qed
  have "strip_fraction (fixed_text c e) = (if f' = [] then w else w @ 46 # f')"
  proof (cases "f' = []")
    case True
    then show ?thesis using f f' w46 by (simp add: strip_fraction_def py_rstrip_char_def)
  next
    case False
    then have "last f' \<noteq> 46" using digits_no_point[OF dig] last_in_set[of f'] by metis
    then show ?thesis using False f f' dropWhile_last[of "w @ 46 # f'" 46]
      by (simp add: strip_fraction_def)
  qed
  then have "dec_parse (or_zero (strip_fraction (fixed_text c e))) = Inr (DFin False (digits_val (w @ f')) (- int (length f')))"
    using f dig dec_parse_point[of w f'] dec_parse_digits[of w] by (auto simp: or_zero_def)
  moreover have "dec_eq (DFin False (digits_val (w @ f')) (- int (length f'))) (DFin False c e)"
    using val f(6) f'(1) by (subst dec_eq_iff[of e]) (auto simp: dec_int_def)
  ultimately show ?thesis by blast
qed

lemma dec_less_eq:
  "dec_eq (DFin s c e) (DFin t d f) \<Longrightarrow> dec_less (DFin s c e) (DFin r x k) \<longleftrightarrow> dec_less (DFin t d f) (DFin r x k)"
  "dec_eq (DFin s c e) (DFin t d f) \<Longrightarrow> dec_less (DFin r x k) (DFin s c e) \<longleftrightarrow> dec_less (DFin r x k) (DFin t d f)"
proof -
  let ?k = "min (min e f) k"
  assume "dec_eq (DFin s c e) (DFin t d f)"
  then have i: "dec_int ?k s c e = dec_int ?k t d f"
    using dec_eq_iff[of ?k e f s c t d] by linarith
  show "dec_less (DFin s c e) (DFin r x k) \<longleftrightarrow> dec_less (DFin t d f) (DFin r x k)"
    using dec_less_iff[of ?k e k s c r x] dec_less_iff[of ?k f k t d r x] i by linarith
  show "dec_less (DFin r x k) (DFin s c e) \<longleftrightarrow> dec_less (DFin r x k) (DFin t d f)"
    using dec_less_iff[of ?k k e r x s c] dec_less_iff[of ?k k f r x t d] i by linarith
qed

definition is_percent :: "ustr \<Rightarrow> bool" where
  "is_percent s \<longleftrightarrow> (\<exists>c e. dec_parse s = Inr (DFin False c e) \<and> \<not> dec_less (DFin False 100 0) (DFin False c e))"

lemma render_percent:
  assumes "render_percentage (DFin False c e) = Some s"
  shows "is_percent s \<and> length s \<le> 127 \<and> significant_digits s \<le> 34"
proof -
  have s: "s = or_zero (strip_fraction (fixed_text c e))" "\<not> dec_less (DFin False 100 0) (DFin False c e)"
    "length s \<le> 127" "significant_digits s \<le> 34"
    using assms by (auto simp: render_percentage_def Let_def split: if_splits simp del: dec_less.simps)
  obtain d f where "dec_parse s = Inr (DFin False d f)" "dec_eq (DFin False d f) (DFin False c e)"
    using strip_fraction_value s(1) by blast
  then have "is_percent s" unfolding is_percent_def using s(2) dec_less_eq(2) by blast
  then show ?thesis using s by simp
qed

lemma percentage_facts:
  assumes "percentage w = Some s"
  shows "is_percent s \<and> length s \<le> 127 \<and> significant_digits s \<le> 34 \<and> pw_availability w = AKnown
    \<and> (\<exists>l r. pw_limit w = Some l \<and> pw_remaining w = Some r \<and> pq_metric l = pq_metric r \<and> pq_unit l = pq_unit r)"
proof -
  obtain l r where lr: "pw_limit w = Some l" "pw_remaining w = Some r" "pw_availability w = AKnown"
    "pq_metric l = pq_metric r" "pq_unit l = pq_unit r"
    "dec_finite (dec_of_text (pq_value l))" "dec_finite (dec_of_text (pq_value r))"
    "render_percentage (quotient_percent (dec_of_text (pq_value r)) (dec_of_text (pq_value l))) = Some s"
    using assms by (auto simp: percentage_def Let_def split: if_splits option.splits)
  obtain a b c d e f where "dec_of_text (pq_value l) = DFin a b c" "dec_of_text (pq_value r) = DFin d e f"
    using lr by (cases "dec_of_text (pq_value l)"; cases "dec_of_text (pq_value r)") auto
  then obtain x k where "render_percentage (DFin False x k) = Some s" using lr(8) by (auto split: prod.splits)
  then show ?thesis using render_percent lr by blast
qed

section \<open>The most depleted window\<close>

definition pct_key :: "pwindow \<times> ustr \<Rightarrow> bool" where
  "pct_key x \<longleftrightarrow> (\<exists>c e. dec_of_text (snd x) = DFin False c e)"

lemma dec_less_trans_neg:
  assumes "\<not> dec_less (DFin False c e) (DFin False a x)" "\<not> dec_less (DFin False d f) (DFin False c e)"
  shows "\<not> dec_less (DFin False d f) (DFin False a x)"
proof -
  let ?k = "min (min e f) x"
  show ?thesis
    using assms dec_less_iff[of ?k e x False c False a] dec_less_iff[of ?k f e False d False c]
      dec_less_iff[of ?k f x False d False a] by linarith
qed

lemma least_eligible_in: "least_eligible b xs \<in> set (b # xs)"
proof (induction xs arbitrary: b)
  case (Cons x xs)
  show ?case using Cons[of "if less_eligible x b then x else b"] by (auto split: if_splits)
qed simp

lemma not_less_pct:
  assumes "pct_key a" "pct_key b" "\<not> less_eligible b a"
  shows "\<not> dec_less (dec_of_text (snd b)) (dec_of_text (snd a))"
  using assms by (auto simp: less_eligible_def Let_def)

lemma less_pct:
  assumes "pct_key a" "pct_key b" "less_eligible a b"
  shows "\<not> dec_less (dec_of_text (snd b)) (dec_of_text (snd a))"
  using assms by (auto simp: less_eligible_def Let_def pct_key_def min.commute)

lemma least_eligible_le:
  "\<forall>y \<in> set (b # xs). pct_key y \<Longrightarrow> y \<in> set (b # xs)
     \<Longrightarrow> \<not> dec_less (dec_of_text (snd y)) (dec_of_text (snd (least_eligible b xs)))"
proof (induction xs arbitrary: b y)
  case Nil
  then show ?case by (auto simp: pct_key_def)
next
  case (Cons x xs)
  let ?w = "if less_eligible x b then x else b"
  have k: "\<forall>z \<in> set (?w # xs). pct_key z" "pct_key x" "pct_key b" using Cons.prems by auto
  have w: "\<not> dec_less (dec_of_text (snd x)) (dec_of_text (snd ?w))"
    "\<not> dec_less (dec_of_text (snd b)) (dec_of_text (snd ?w))"
    using k not_less_pct[of b x] less_pct[of x b] by (auto simp: pct_key_def)
  have l: "\<not> dec_less (dec_of_text (snd ?w)) (dec_of_text (snd (least_eligible ?w xs)))"
    by (rule Cons.IH[OF k(1)]) simp
  obtain c e where c: "dec_of_text (snd (least_eligible ?w xs)) = DFin False c e"
    using least_eligible_in[of ?w xs] k(1) by (auto simp: pct_key_def)
  have "pct_key ?w" using k by simp
  then obtain c' e' where w': "dec_of_text (snd ?w) = DFin False c' e'" by (auto simp: pct_key_def)
  show ?case
  proof (cases "y \<in> set xs")
    case True
    then show ?thesis using Cons.IH[OF k(1), of y] by simp
  next
    case False
    then have "y = x \<or> y = b" using Cons.prems(2) by auto
    then obtain d f where "dec_of_text (snd y) = DFin False d f" "\<not> dec_less (DFin False d f) (DFin False c' e')"
      using w w' k(2,3) by (auto simp: pct_key_def)
    then show ?thesis using dec_less_trans_neg[of c' e' c e d f] l c w' by simp
  qed
qed

lemma eligible_keys: "x \<in> set (eligible ws) \<Longrightarrow> pct_key x \<and> fst x \<in> set ws \<and> percentage (fst x) = Some (snd x)"
  using percentage_facts
  by (fastforce simp: eligible_def pct_key_def is_percent_def dec_of_text_def)

lemma eligible_all: "w \<in> set ws \<Longrightarrow> percentage w = Some p \<Longrightarrow> (w, p) \<in> set (eligible ws)"
  by (force simp: eligible_def)

lemma most_depleted_facts:
  assumes "pr_most_depleted (snapshot_presentation px p ws ps fr limit rs) = Some d"
  shows "\<exists>w \<in> set ws. \<exists>s. percentage w = Some s \<and> d = depleted_of (w, s) \<and>
    (\<forall>w' \<in> set ws. \<forall>s'. percentage w' = Some s' \<longrightarrow> \<not> dec_less (dec_of_text s') (dec_of_text s))"
proof -
  let ?ws = "sort_key window_sort_key ws"
  obtain x xs where e: "eligible ?ws = x # xs" "d = depleted_of (least_eligible x xs)"
    using assms by (auto simp: snapshot_presentation_def Let_def split: list.splits)
  have in_el: "least_eligible x xs \<in> set (eligible ?ws)" using least_eligible_in[of x xs] e by simp
  have "\<not> dec_less (dec_of_text s') (dec_of_text (snd (least_eligible x xs)))"
    if "w' \<in> set ws" "percentage w' = Some s'" for w' s'
    using least_eligible_le[of x xs "(w', s')"] eligible_keys[of _ ?ws] eligible_all[of w' ?ws s'] that e(1) by auto
  moreover have "fst (least_eligible x xs) \<in> set ws"
    "percentage (fst (least_eligible x xs)) = Some (snd (least_eligible x xs))"
    using eligible_keys[OF in_el] by auto
  ultimately show ?thesis using e(2) by (metis prod.collapse)
qed

section \<open>Windows\<close>

definition bare_pwindow :: "pwindow \<Rightarrow> bool" where
  "bare_pwindow w \<longleftrightarrow> pw_plan_id w = None \<and> pw_availability w = AUnavailable \<and> pw_source_id w = None \<and> pw_limit w = None
     \<and> pw_used w = None \<and> pw_remaining w = None \<and> pw_reset_at w = None"

lemma identity_Inr: "identity s msg = Inr t \<Longrightarrow> t = s"
  by (auto simp: identity_def split: if_splits)

lemma pwindow_of_Inr:
  assumes "pwindow_of px w p = Inr x"
  shows "pw_kind x = w_kind w" "pw_period x = w_period w" "pw_scope x = w_scope w"
    "pw_source_id x = source px (w_source_id w) p" "pw_source_id x = None \<Longrightarrow> bare_pwindow x"
  using assms
  by (auto simp: pwindow_of_def Let_def rbind_Inr_iff when_trusted_def bare_pwindow_def dest!: identity_Inr split: if_splits)

lemma source_expected: "source px v p = Some s \<Longrightarrow> s = expected_source p"
  by (auto simp: source_def Let_def split: option.splits if_splits)

text \<open>A slot is filled only from the one window of the snapshot with its period, and whenever that window is
  trusted and known.\<close>

definition slot_filled :: "platform \<Rightarrow> window list \<Rightarrow> pwindow \<Rightarrow> bool" where
  "slot_filled px ws w \<longleftrightarrow> (case opencode_matches ws (pw_period w) of
     [c] \<Rightarrow> pwindow_of px c OpencodeGo = Inr w
   | _ \<Rightarrow> False)"

definition slot_empty :: "platform \<Rightarrow> window list \<Rightarrow> pwindow \<Rightarrow> bool" where
  "slot_empty px ws w \<longleftrightarrow> bare_pwindow w \<and> (case opencode_matches ws (pw_period w) of
     [c] \<Rightarrow> (case pwindow_of px c OpencodeGo of
       Inr x \<Rightarrow> pw_availability x \<noteq> AKnown \<or> pw_source_id x \<noteq> Some opencode_source_id
     | Inl e \<Rightarrow> is_TypeError e \<or> is_ValueError e)
   | _ \<Rightarrow> True)"

definition slot_right :: "platform \<Rightarrow> window list \<Rightarrow> ustr \<Rightarrow> pwindow \<Rightarrow> bool" where
  "slot_right px ws period w \<longleftrightarrow> pw_kind w = KCommercial \<and> pw_period w = period \<and>
     (if pw_availability w = AKnown then pw_source_id w = Some opencode_source_id \<and> slot_filled px ws w
      else slot_empty px ws w)"

lemma placeholder_fields:
  "pw_kind (opencode_placeholder period scope) = KCommercial" "pw_period (opencode_placeholder period scope) = period"
  "pw_availability (opencode_placeholder period scope) = AUnavailable" "bare_pwindow (opencode_placeholder period scope)"
  by (simp_all add: bare_pwindow_def opencode_placeholder_def)

lemma opencode_slot_right:
  assumes "opencode_slot px (opencode_matches ws period) period = Inr w"
  shows "slot_right px ws period w"
proof (cases "\<exists>c. opencode_matches ws period = [c]")
  case True
  then obtain c where c: "opencode_matches ws period = [c]" by blast
  then have "c \<in> set (opencode_matches ws period)" by simp
  then have k: "w_kind c = KCommercial" "w_period c = period"
    by (auto simp: opencode_matches_def dest: identity_Inr)
  show ?thesis
  proof (cases "pwindow_of px c OpencodeGo")
    case (Inl e)
    then show ?thesis using c assms
      by (auto simp: opencode_slot_def candidate_window_def slot_right_def slot_empty_def placeholder_fields
          rbind_Inr_iff split: if_splits)
  next
    case (Inr x)
    then show ?thesis using c assms k pwindow_of_Inr[OF Inr]
      by (auto simp: opencode_slot_def candidate_window_def slot_right_def slot_empty_def slot_filled_def
          placeholder_fields rbind_Inr_iff split: if_splits)
  qed
next
  case False
  then have "w = opencode_placeholder period (u ''account'')"
    using assms by (auto simp: opencode_slot_def split: list.splits)
  then show ?thesis using False
    by (auto simp: slot_right_def slot_empty_def placeholder_fields split: list.splits)
qed

lemma technical_windows:
  assumes "rmap (\<lambda>w. pwindow_of px w p) (filter P ws) = Inr xs" "\<And>w. P w \<Longrightarrow> w_kind w \<noteq> k"
  shows "\<forall>x \<in> set xs. pw_kind x \<noteq> k"
proof
  fix x assume "x \<in> set xs"
  then obtain w where "w \<in> set (filter P ws)" "pwindow_of px w p = Inr x" using rmap_set[OF assms(1)] by blast
  then show "pw_kind x \<noteq> k" using pwindow_of_Inr(1) assms(2) by auto
qed

section \<open>Texts\<close>

lemma bounded_summary_length: "length q \<le> 128 \<Longrightarrow> length (bounded_summary b q) \<le> 128"
  by (auto simp: bounded_summary_def)

lemma fill_tooltip_length: "length (fill_tooltip limit tip ls) \<le> max limit (length tip)"
proof (induction limit tip ls rule: fill_tooltip.induct)
  case (2 limit tip line rest)
  then show ?case by (auto simp: Let_def)
qed simp

lemma eligible_compact: "x \<in> set (eligible ws) \<Longrightarrow> length (snd x) \<le> 127"
  using eligible_keys percentage_facts by blast

lemma presentation_lengths:
  "length (pr_compact (snapshot_presentation px p ws ps fr limit rs)) \<le> 128"
  "length (pr_alternate (snapshot_presentation px p ws ps fr limit rs)) \<le> 128"
  "length (pr_tooltip (snapshot_presentation px p ws ps fr limit rs))
     \<le> max limit (length (py_join [10] (head_lines px p ps fr)))"
proof -
  let ?ws = "sort_key window_sort_key ws"
  have q: "length (qualifier ps fr) \<le> 128" by (simp add: qualifier_def middle_dot_def)
  have c: "length (snd (least_eligible x xs)) \<le> 127" if "eligible ?ws = x # xs" for x xs
    using eligible_compact[of "least_eligible x xs" ?ws] least_eligible_in[of x xs] that by simp
  show "length (pr_compact (snapshot_presentation px p ws ps fr limit rs)) \<le> 128"
    using c by (force simp: snapshot_presentation_def Let_def em_dash_def split: list.splits simp del: fill_tooltip.simps)
  show "length (pr_alternate (snapshot_presentation px p ws ps fr limit rs)) \<le> 128"
    using bounded_summary_length[OF q] by (auto simp: snapshot_presentation_def Let_def split: list.splits simp del: fill_tooltip.simps)
  show "length (pr_tooltip (snapshot_presentation px p ws ps fr limit rs))
     \<le> max limit (length (py_join [10] (head_lines px p ps fr)))"
    using fill_tooltip_length by (auto simp: snapshot_presentation_def Let_def split: list.splits simp del: fill_tooltip.simps)
qed

section \<open>The bytes\<close>

lemma project_bytes_cases:
  assumes "project_bytes px inp = Inr b"
  shows "project_failure_bytes (u ''internal_error'') = Inr b \<and>
           (encode_at px inp max_tooltip_scalars = Inl TooManyWindows
            \<or> (\<forall>l \<le> max_tooltip_scalars. \<exists>c. encode_at px inp l = Inr c \<and> \<not> fits_document c))
    \<or> (\<exists>l \<le> max_tooltip_scalars. encode_at px inp l = Inr b \<and> fits_document b \<and>
         (\<forall>l'. l < l' \<and> l' \<le> max_tooltip_scalars \<longrightarrow> (\<exists>c. encode_at px inp l' = Inr c \<and> \<not> fits_document c)))"
proof (cases "encode_at px inp max_tooltip_scalars")
  case (Inl e)
  then show ?thesis using assms by (cases e) (auto simp: project_bytes_def)
next
  case (Inr c)
  show ?thesis
  proof (cases "fits_document c")
    case True
    then show ?thesis using assms Inr by (intro disjI2 exI[of _ max_tooltip_scalars]) (auto simp: project_bytes_def)
  next
    case False
    define g where "g = (\<lambda>l. case encode_at px inp l of Inr c \<Rightarrow> c | Inl _ \<Rightarrow> [])"
    have e: "encode_at px inp l = Inr (g l)" if "l \<le> max_tooltip_scalars" for l
      using encode_at_mono[OF that Inr] by (auto simp: g_def)
    have mono: "fits_document (g l') \<Longrightarrow> fits_document (g l)" if "l \<le> l'" "l' \<le> max_tooltip_scalars" for l l'
      using encode_at_mono[OF that(1) e[OF that(2)]] e[of l] that by (auto simp: fits_document_def)
    let ?r = "limit_search fits_document (encode_at px inp) 0 (int max_tooltip_scalars) None"
    from limit_search_spec[of 0 "int max_tooltip_scalars" "encode_at px inp" g fits_document None] e mono
    consider (none) "\<forall>l. 0 \<le> l \<and> l \<le> int max_tooltip_scalars \<longrightarrow> \<not> fits_document (g (nat l))" "?r = Inr None"
      | (some) m where "0 \<le> m" "m \<le> int max_tooltip_scalars" "fits_document (g (nat m))"
          "\<forall>l. m < l \<and> l \<le> int max_tooltip_scalars \<longrightarrow> \<not> fits_document (g (nat l))" "?r = Inr (Some (g (nat m)))"
      by (smt (verit, best) nat_le_iff nat_mono)
    then show ?thesis
    proof cases
      case none
      have "\<not> fits_document (g l)" if "l \<le> max_tooltip_scalars" for l using none(1)[rule_format, of "int l"] that by simp
      moreover have "project_failure_bytes (u ''internal_error'') = Inr b"
        using assms Inr False none(2) by (simp add: project_bytes_def)
      ultimately show ?thesis using e by blast
    next
      case some
      have "\<not> fits_document (g l)" if "nat m < l" "l \<le> max_tooltip_scalars" for l
        using some(4)[rule_format, of "int l"] that by simp
      moreover have "b = g (nat m)" using assms Inr False some(5) by (simp add: project_bytes_def)
      ultimately show ?thesis using e some(2,3) by (intro disjI2 exI[of _ "nat m"]) auto
    qed
  qed
qed

lemma failure_bytes_document:
  "project_failure_bytes code = Inr b \<Longrightarrow> \<exists>d. encode d = Inr b"
  by (auto simp: project_failure_bytes_def split: option.splits prod.splits)

section \<open>Concrete inputs\<close>

definition sample_platform :: platform where
  "sample_platform = \<lparr>nfc = (\<lambda>s. s), capitalize = (\<lambda>s. s), to_local = Inr, locale_format = (\<lambda>_. Inr [])\<rparr>"

definition sample_pwindow :: pwindow where
  "sample_pwindow = \<lparr>pw_kind = KCommercial, pw_scope = u ''account'', pw_period = u ''monthly'', pw_plan_id = None,
     pw_availability = AKnown, pw_source_id = Some codex_source_id,
     pw_limit = Some \<lparr>pq_value = u ''8'', pq_metric = MCommercial, pq_unit = u ''req''\<rparr>, pw_used = None,
     pw_remaining = Some \<lparr>pq_value = u ''3'', pq_metric = MCommercial, pq_unit = u ''req''\<rparr>, pw_reset_at = None\<rparr>"

lemma dec_div_run: "dec_div 34 (3, 0) (8, 0) = (375, - 3)"
  by (simp add: run dec_div_def cong: run_cong)

lemma sample_percentage: "percentage sample_pwindow = Some (u ''37.5'')"
  by (simp add: run sample_pwindow_def dec_div_run dec_mul_def cong: run_cong)

definition sample_doc :: document where
  "sample_doc = \<lparr>d_providers = [error_view ETimeout,
     \<lparr>v_provider = OpencodeGo, v_state = StUnavailable, v_error = None, v_display_label = None,
      v_outcome = None, v_snapshot = None, v_not_run_reason = None\<rparr>], d_error = None\<rparr>"

definition sample_input :: projection_input where
  "sample_input = \<lparr>in_document = sample_doc, in_enabled = [Codex, OpencodeGo], in_evidence = None\<rparr>"

lemma sample_projected: "\<exists>b. project_bytes sample_platform sample_input = Inr b"
proof -
  have "project_bytes sample_platform sample_input \<noteq> Inl e" for e
    by (simp add: run sample_platform_def sample_input_def sample_doc_def error_view_def cong: run_cong)
  then show ?thesis by (cases "project_bytes sample_platform sample_input") auto
qed

section \<open>Properties\<close>

text \<open>C5: whatever \<open>project_bytes\<close> returns has at most 65,536 bytes, ends with a line feed and holds no
  other, and reads back, under the strictest hooks, as the JSON of a document.\<close>

theorem project_bytes_shape:
  assumes "project_bytes px inp = Inr b"
  shows "length b \<le> max_document_bytes \<and> one_line b
     \<and> (\<exists>d. encode d = Inr b \<and> rbind (utf8_decode b) (loads (strict_hooks e f)) = Inr (doc_json d))"
proof -
  have "fits_document b \<and> (\<exists>d. encode d = Inr b)"
    using project_bytes_cases[OF assms] internal_failure_fits failure_bytes_document
    by (auto simp: fits_document_def encode_at_def max_document_bytes_def rbind_Inr_iff)
  then show ?thesis using encode_shape by (fastforce simp: fits_document_def)
qed

theorem project_bytes_shape_witness:
  "\<exists>b. project_bytes sample_platform sample_input = Inr b \<and> one_line b \<and> length b \<le> max_document_bytes"
  using sample_projected project_bytes_shape[of sample_platform sample_input] by blast

text \<open>C6: the binary search gives the fullest document: the returned bytes are the projection at the
  largest tooltip limit whose encoding fits, and the fixed failure document only when the windows
  are too many or no limit fits.\<close>

theorem project_bytes_fullest:
  assumes "project_bytes px inp = Inr b"
  shows "project_failure_bytes (u ''internal_error'') = Inr b \<and>
           (encode_at px inp max_tooltip_scalars = Inl TooManyWindows
            \<or> (\<forall>l \<le> max_tooltip_scalars. \<exists>c. encode_at px inp l = Inr c \<and> \<not> fits_document c))
    \<or> (\<exists>l \<le> max_tooltip_scalars. encode_at px inp l = Inr b \<and> fits_document b \<and>
         (\<forall>l'. l < l' \<and> l' \<le> max_tooltip_scalars \<longrightarrow> (\<exists>c. encode_at px inp l' = Inr c \<and> \<not> fits_document c)))"
  using project_bytes_cases[OF assms] .

theorem project_bytes_fullest_witness:
  "\<exists>b l. l \<le> max_tooltip_scalars \<and> project_bytes sample_platform sample_input = Inr b
     \<and> (encode_at sample_platform sample_input l = Inr b \<or> project_failure_bytes (u ''internal_error'') = Inr b)"
  using sample_projected project_bytes_fullest[of sample_platform sample_input] by blast

text \<open>C7: a rendered percentage is the text of a decimal between 0 and 100 of at most 34 significant
  digits and 127 characters, and is given only to a known window whose limit and remaining quantity
  have the same metric and unit.\<close>

theorem percentage_sound:
  assumes "percentage w = Some s"
  shows "is_percent s \<and> length s \<le> 127 \<and> significant_digits s \<le> 34 \<and> pw_availability w = AKnown
    \<and> (\<exists>l r. pw_limit w = Some l \<and> pw_remaining w = Some r \<and> pq_metric l = pq_metric r \<and> pq_unit l = pq_unit r)"
  using percentage_facts[OF assms] .

theorem percentage_sound_witness: "percentage sample_pwindow = Some (u ''37.5'') \<and> is_percent (u ''37.5'')"
  using percentage_sound[OF sample_percentage] sample_percentage by blast

text \<open>C8: the window reported as most depleted is one of the item's windows, reported as it is, and no
  window of the item has a smaller percentage.\<close>

theorem most_depleted_least:
  assumes "pr_most_depleted (snapshot_presentation px p ws ps fr limit rs) = Some d"
  shows "\<exists>w \<in> set ws. \<exists>s. percentage w = Some s \<and> d = depleted_of (w, s) \<and>
    (\<forall>w' \<in> set ws. \<forall>s'. percentage w' = Some s' \<longrightarrow> \<not> dec_less (dec_of_text s') (dec_of_text s))"
  using most_depleted_facts[OF assms] .

theorem most_depleted_least_witness:
  "\<exists>d w. pr_most_depleted (snapshot_presentation sample_platform Codex [sample_pwindow] PAvailable Fresh 4096 None) = Some d
     \<and> w \<in> set [sample_pwindow] \<and> d = depleted_of (w, u ''37.5'')"
proof -
  have "pr_most_depleted (snapshot_presentation sample_platform Codex [sample_pwindow] PAvailable Fresh 4096 None)
    = Some (depleted_of (sample_pwindow, u ''37.5''))"
    by (simp add: snapshot_presentation_def Let_def eligible_def sample_percentage del: fill_tooltip.simps)
  then show ?thesis using most_depleted_least[of sample_platform Codex "[sample_pwindow]" PAvailable Fresh 4096 None]
    by auto
qed

text \<open>The windows of an OpenCode item before they are sorted.\<close>

lemma opencode_windows_slots:
  assumes "opencode_windows px s = Inr ws" "s_public_state s \<in> {PAvailable, PPartial}"
  shows "list_all2 (slot_right px (s_windows s)) opencode_fixed_periods (filter (\<lambda>w. pw_kind w = KCommercial) ws)"
    "\<forall>w \<in> set ws. pw_source_id w = None \<longrightarrow> bare_pwindow w"
proof -
  obtain pre slots where pre: "rmap (\<lambda>w. pwindow_of px w OpencodeGo) (filter (\<lambda>w. w_kind w \<noteq> KCommercial) (s_windows s)) = Inr pre"
    "rmap (\<lambda>p. opencode_slot px (opencode_matches (s_windows s) p) p) opencode_fixed_periods = Inr slots" "ws = pre @ slots"
    using assms by (auto simp: opencode_windows_def rbind_Inr_iff split: if_splits)
  have slots: "list_all2 (slot_right px (s_windows s)) opencode_fixed_periods slots"
    using pre(2) unfolding rmap_list_all2 by (auto elim!: list_all2_mono intro: opencode_slot_right)
  have "filter (\<lambda>w. pw_kind w = KCommercial) pre = []"
    using technical_windows[OF pre(1), of KCommercial] by (auto simp: filter_empty_conv)
  moreover have "filter (\<lambda>w. pw_kind w = KCommercial) slots = slots"
    using slots by (intro filter_True) (auto simp: slot_right_def list_all2_conv_all_nth in_set_conv_nth)
  ultimately show "list_all2 (slot_right px (s_windows s)) opencode_fixed_periods (filter (\<lambda>w. pw_kind w = KCommercial) ws)"
    using pre(3) slots by simp
  have "bare_pwindow w" if "w \<in> set pre" "pw_source_id w = None" for w
    using rmap_set[OF pre(1) that(1)] pwindow_of_Inr(5) that(2) by blast
  moreover have "bare_pwindow w" if "w \<in> set slots" "pw_source_id w = None" for w
    using that slots by (auto simp: list_all2_conv_all_nth in_set_conv_nth slot_right_def slot_empty_def split: if_splits)
  ultimately show "\<forall>w \<in> set ws. pw_source_id w = None \<longrightarrow> bare_pwindow w" using pre(3) by auto
qed

lemma snapshot_item_windows:
  assumes "item_facts px enabled evidence v = Inr i" "pi_outcome i = OSnapshot"
  shows "\<exists>s ws. v_snapshot v = Some s \<and> snapshot_windows px (v_provider v) s = Inr ws
    \<and> pi_windows i = sort_key window_sort_key ws \<and> pi_public_state i = Some (s_public_state s)
    \<and> pi_provider i = v_provider v"
proof -
  obtain out where out: "provider_outcome_of enabled v = Inr out"
    using assms(1) by (auto simp: item_facts_def rbind_Inr_iff)
  have "out = OSnapshot"
    using assms out by (cases out) (auto simp: item_facts_def blank_item_def Let_def split: option.splits if_splits)
  then have "snapshot_item px v = Inr i" using assms(1) out by (simp add: item_facts_def)
  then show ?thesis by (auto simp: snapshot_item_def Let_def rbind_Inr_iff blank_item_def split: option.splits if_splits)
qed

text \<open>The three slots in the item: the commercial windows in the order of scope and period, each of them right.\<close>

definition three_slots :: "platform \<Rightarrow> snapshot \<Rightarrow> pwindow list \<Rightarrow> bool" where
  "three_slots px s ws \<longleftrightarrow>
     (let slots = filter (\<lambda>w. pw_kind w = KCommercial) ws in
      sort (map pw_period slots) = opencode_fixed_periods
      \<and> list_all (\<lambda>w. slot_right px (s_windows s) (pw_period w) w) slots
      \<and> sorted (map (\<lambda>w. (pw_scope w, pw_period w)) slots)
      \<and> (if list_all (\<lambda>w. pw_scope w = pw_scope (hd slots)) slots then map pw_period slots = opencode_fixed_periods else True))"

lemma sorted_pairs:
  assumes "sorted (map window_sort_key ws)" "list_all (\<lambda>w. pw_kind w = k) ws"
  shows "sorted (map (\<lambda>w. (pw_scope w, pw_period w)) ws)"
  using assms
  by (induction ws) (auto simp: window_sort_key_def less_eq_prod_simp list_all_iff)

lemma sorted_periods:
  assumes "sorted (map (\<lambda>w. (pw_scope w, pw_period w)) ws)" "list_all (\<lambda>w. pw_scope w = sc) ws"
  shows "sorted (map pw_period ws)"
  using assms by (induction ws) (auto simp: list_all_iff)

lemma sort_filtered_periods: "sort (map pw_period (filter P (sort_key f ws))) = sort (map pw_period (filter P ws))"
proof -
  have "mset (filter P (sort_key f ws)) = mset (filter P ws)" by simp
  then have "mset (map pw_period (filter P (sort_key f ws))) = mset (map pw_period (filter P ws))" by (metis mset_map)
  then have "sort (map pw_period (filter P ws)) = sort (map pw_period (filter P (sort_key f ws)))"
    by (intro properties_for_sort) simp_all
  then show ?thesis by simp
qed

lemma fixed_periods_sorted: "sorted opencode_fixed_periods"
  by (simp add: opencode_fixed_periods_def u_Cons)

lemma three_slots_sorted:
  assumes "list_all2 (slot_right px (s_windows s)) opencode_fixed_periods (filter (\<lambda>w. pw_kind w = KCommercial) ws)"
  shows "three_slots px s (sort_key window_sort_key ws)"
proof -
  let ?f = "filter (\<lambda>w. pw_kind w = KCommercial)"
  let ?slots = "?f (sort_key window_sort_key ws)"
  have "map pw_period (?f ws) = opencode_fixed_periods"
    using assms by (auto simp: list_all2_conv_all_nth slot_right_def intro!: nth_equalityI)
  then have p: "sort (map pw_period ?slots) = opencode_fixed_periods"
    by (simp add: sort_filtered_periods fixed_periods_sorted sorted_sort_id)
  have "slot_right px (s_windows s) (pw_period w) w" if w: "w \<in> set (?f ws)" for w
  proof -
    obtain j where "j < length (?f ws)" "w = ?f ws ! j" using w by (metis in_set_conv_nth)
    then have "slot_right px (s_windows s) (opencode_fixed_periods ! j) w" using assms by (simp add: list_all2_conv_all_nth)
    then show ?thesis by (simp add: slot_right_def)
  qed
  then have r: "list_all (\<lambda>w. slot_right px (s_windows s) (pw_period w) w) ?slots"
    by (auto simp: list_all_iff)
  have o1: "sorted (map (\<lambda>w. (pw_scope w, pw_period w)) ?slots)"
    by (rule sorted_pairs[of _ KCommercial]) (simp_all add: list_all_iff sorted_filter)
  have "map pw_period ?slots = opencode_fixed_periods" if "list_all (\<lambda>w. pw_scope w = pw_scope (hd ?slots)) ?slots"
    using sorted_periods[OF o1 that] p by (metis sorted_sort_id)
  then show ?thesis using p r o1 by (auto simp: three_slots_def Let_def)
qed

text \<open>C9: the item of an available or partial OpenCode snapshot has exactly the three commercial slots, five
  hours, month and week, among its windows; they stand in the order of their scope and period, which is that
  order of the periods when they have one scope. A slot is a known window of the trusted source exactly when one
  window of the snapshot has its period and projects to such a window, and is that window; otherwise it carries
  nothing. No window of the item without a source carries values. The item's windows are those after the last
  sort of the provider.\<close>

theorem opencode_three_slots:
  assumes "item_facts px enabled evidence v = Inr i" "pi_outcome i = OSnapshot" "pi_provider i = OpencodeGo"
    "pi_public_state i = Some PAvailable \<or> pi_public_state i = Some PPartial"
  shows "\<exists>s. v_snapshot v = Some s \<and> three_slots px s (pi_windows i)
     \<and> (\<forall>w \<in> set (pi_windows i). pw_source_id w = None \<longrightarrow> bare_pwindow w)"
proof -
  obtain s ws where s: "v_snapshot v = Some s" "snapshot_windows px (v_provider v) s = Inr ws"
    "pi_windows i = sort_key window_sort_key ws" "pi_public_state i = Some (s_public_state s)" "pi_provider i = v_provider v"
    using snapshot_item_windows[OF assms(1,2)] by blast
  have w: "opencode_windows px s = Inr ws" "s_public_state s \<in> {PAvailable, PPartial}"
    using s assms(3,4) by (auto simp: snapshot_windows_def)
  show ?thesis using three_slots_sorted[OF opencode_windows_slots(1)[OF w]] opencode_windows_slots(2)[OF w] s(1,3) by simp
qed

definition opencode_view :: view where
  "opencode_view = \<lparr>v_provider = OpencodeGo, v_state = Success, v_error = None, v_display_label = None,
     v_outcome = Some OSnapshot, v_snapshot = Some (sample_snapshot opencode_source_id), v_not_run_reason = None\<rparr>"

lemma opencode_view_item:
  "\<exists>i. item_facts sample_platform [OpencodeGo] None opencode_view = Inr i \<and> pi_outcome i = OSnapshot
     \<and> pi_provider i = OpencodeGo \<and> pi_public_state i = Some PAvailable"
  by (simp add: run opencode_view_def sample_defs sample_platform_def cong: run_cong)

theorem opencode_three_slots_witness:
  "\<exists>i. item_facts sample_platform [OpencodeGo] None opencode_view = Inr i
     \<and> three_slots sample_platform (sample_snapshot opencode_source_id) (pi_windows i)"
proof -
  obtain i where i: "item_facts sample_platform [OpencodeGo] None opencode_view = Inr i" "pi_outcome i = OSnapshot"
    "pi_provider i = OpencodeGo" "pi_public_state i = Some PAvailable"
    using opencode_view_item by blast
  then show ?thesis using opencode_three_slots[OF i(1-3)] by (auto simp: opencode_view_def)
qed

text \<open>C10: the texts of a snapshot stay within their bounds: 128 characters for the compact and the
  alternate text, and the limit for the tooltip, whose three first lines are always there.\<close>

theorem presentation_bounds:
  "length (pr_compact (snapshot_presentation px p ws ps fr limit rs)) \<le> 128
   \<and> length (pr_alternate (snapshot_presentation px p ws ps fr limit rs)) \<le> 128
   \<and> length (pr_tooltip (snapshot_presentation px p ws ps fr limit rs))
       \<le> max limit (length (py_join [10] (head_lines px p ps fr)))
   \<and> prefix (py_join [10] (head_lines px p ps fr)) (pr_tooltip (snapshot_presentation px p ws ps fr limit rs))"
  using presentation_lengths[of px p ws ps fr limit rs] fill_tooltip_prefix
  by (auto simp: snapshot_presentation_def Let_def split: list.splits simp del: fill_tooltip.simps)

end
