(* ===== verification/CacheDoc.thy ===== *)
theory CacheDoc
  imports DocumentFacts
begin

text \<open>
  \<open>cache.py\<close>, first half: what a document must satisfy to be written to the cache or read from it.

  \<^item> The two patterns of unsafe texts are lists of literal words searched for without regard to case
    (\<open>re_fold\<close> is the case folding of Python's \<open>re.IGNORECASE\<close> on the letters of the patterns).
  \<^item> \<open>validate_document\<close> is \<open>_validate_document\<close>, with \<open>presentation_matches\<close>, which recomputes the texts
    of the document by the projection's own search and compares.
  \<^item> \<open>\d\<close> of the two regular expressions also matches the other decimal digits of Unicode; a text with such a
    digit is refused a few lines further by the comparison with the canonical text, with the same exception,
    so the digits are ASCII here.
\<close>

section \<open>Constants\<close>

definition cache_schema :: int where "cache_schema = 5"
definition cache_ttl_us :: int where "cache_ttl_us = 180 * 1000000"
definition max_cache_bytes :: nat where "max_cache_bytes = 131072"
definition max_cache_document_bytes :: nat where "max_cache_document_bytes = 65536"
definition max_cache_fingerprint :: nat where "max_cache_fingerprint = 64"

definition provider_fields :: "string list" where
  "provider_fields = [''provider'', ''outcome'', ''public_state'', ''freshness'', ''status_observed_at'', ''fetched_at'',
     ''data_at'', ''source_id'', ''windows'', ''rate_limit_reset_credits'', ''execution_error'', ''not_run_reason'',
     ''most_depleted_window'', ''compact_text'', ''alternate_text'', ''tooltip_text'']"

definition cache_window_fields :: "string list" where
  "cache_window_fields = [''kind'', ''scope'', ''period'', ''plan_id'', ''availability'', ''source_id'', ''limit'', ''used'',
     ''remaining'', ''reset_at'']"

definition quantity_fields :: "string list" where
  "quantity_fields = [''value'', ''metric'', ''unit'']"

definition depleted_fields :: "string list" where
  "depleted_fields = [''kind'', ''scope'', ''period'', ''plan_id'', ''unit'', ''source_id'', ''remaining_percentage'']"

definition error_fields :: "string list" where
  "error_fields = [''code'', ''phase'']"

definition general_fields :: "string list" where
  "general_fields = [''compact_text'', ''alternate_text'', ''tooltip_text'']"

definition document_fields :: "string list" where
  "document_fields = [''execution_state'', ''execution_error'', ''general'', ''providers'']"

section \<open>Unsafe texts\<close>

text \<open>A pattern: literal characters, and \<open>.?\<close>, at most one character other than a line feed.\<close>

datatype pat = Lit nat | AnyOpt

definition re_fold :: "nat \<Rightarrow> nat" where
  "re_fold c = (if 65 \<le> c \<and> c \<le> 90 then c + 32
     else if c = 304 \<or> c = 305 then 105 else if c = 383 then 115 else if c = 8490 then 107 else c)"

fun pat_prefix :: "pat list \<Rightarrow> ustr \<Rightarrow> bool" where
  "pat_prefix [] s = True"
| "pat_prefix (Lit p # ps) [] = False"
| "pat_prefix (Lit p # ps) (c # s) = (re_fold c = p \<and> pat_prefix ps s)"
| "pat_prefix (AnyOpt # ps) [] = pat_prefix ps []"
| "pat_prefix (AnyOpt # ps) (c # s) = (pat_prefix ps (c # s) \<or> c \<noteq> 10 \<and> pat_prefix ps s)"

fun pat_search :: "pat list \<Rightarrow> ustr \<Rightarrow> bool" where
  "pat_search ps [] = pat_prefix ps []"
| "pat_search ps (c # s) = (pat_prefix ps (c # s) \<or> pat_search ps s)"

definition word :: "string \<Rightarrow> pat list" where
  "word s = map (\<lambda>c. if c = CHR ''.'' then AnyOpt else Lit (of_char c)) s"

text \<open>In \<open>unsafe_words\<close> the point stands for \<open>.?\<close>.\<close>

definition unsafe_words :: "string list" where
  "unsafe_words = [''auth.cookie'', ''cookie'', ''password'', ''secret'', ''credential'', ''api.key'', ''authorization'',
     ''traceback'', ''stderr'', ''workspace'']"

definition unsafe_key :: "ustr \<Rightarrow> bool" where
  "unsafe_key s = list_ex (\<lambda>w. pat_search (word w) s) (unsafe_words @ [''token'', ''runner''])"

definition path_like :: "ustr \<Rightarrow> bool" where
  "path_like s = (case s of
     [] \<Rightarrow> False
   | c # r \<Rightarrow> c = 47 \<or> c = 92 \<or>
       (97 \<le> re_fold c \<and> re_fold c \<le> 122 \<and> (case r of d # e # _ \<Rightarrow> d = 58 \<and> (e = 92 \<or> e = 47) | _ \<Rightarrow> False)))"

definition unsafe_value :: "ustr \<Rightarrow> bool" where
  "unsafe_value s = (list_ex (\<lambda>w. pat_search (word w) s) unsafe_words \<or> path_like s)"

section \<open>Reading fields\<close>

definition cve :: "py_exn + 'a" where "cve = Inl CacheValidationError"

text \<open>\<open>except (TypeError, ValueError): raise CacheValidationError\<close> around a computation, and the
  same with \<open>ArithmeticError\<close>.\<close>

definition checked :: "py_exn + 'a \<Rightarrow> py_exn + 'a" where
  "checked m = (case m of Inl e \<Rightarrow> if is_ValueError e \<or> is_TypeError e then cve else Inl e | Inr x \<Rightarrow> Inr x)"

definition is_arithmetic :: "py_exn \<Rightarrow> bool" where
  "is_arithmetic e \<longleftrightarrow> e = ArithmeticError \<or> e = OverflowError"

definition checked_arith :: "py_exn + 'a \<Rightarrow> py_exn + 'a" where
  "checked_arith m = (case m of Inl e \<Rightarrow> if is_arithmetic e \<or> is_ValueError e \<or> is_TypeError e then cve else Inl e
     | Inr x \<Rightarrow> Inr x)"

definition safe_mapping_ordered :: "string list \<Rightarrow> json \<Rightarrow> py_exn + jobj" where
  "safe_mapping_ordered fs v = (case v of
     JObj d \<Rightarrow> if map fst d \<noteq> map u fs \<or> list_ex (\<lambda>(k, _). unsafe_key k) d then cve else Inr d
   | _ \<Rightarrow> cve)"

definition safe_mapping_set :: "string list \<Rightarrow> json \<Rightarrow> py_exn + jobj" where
  "safe_mapping_set fs v = (case v of
     JObj d \<Rightarrow> if set (map fst d) \<noteq> set (map u fs) \<or> list_ex (\<lambda>(k, _). unsafe_key k) d then cve else Inr d
   | _ \<Rightarrow> cve)"

definition unsafe_char :: "bool \<Rightarrow> nat \<Rightarrow> bool" where
  "unsafe_char multiline c \<longleftrightarrow> c < 32 \<and> (\<not> multiline \<or> c \<noteq> 10) \<or> c = 127 \<or> surrogate c"

definition safe_text :: "(ustr \<Rightarrow> ustr) \<Rightarrow> json \<Rightarrow> nat \<Rightarrow> bool \<Rightarrow> py_exn + ustr" where
  "safe_text nf v maximum multiline = (case v of
     JStr s \<Rightarrow>
       if maximum < length s \<or> list_ex (unsafe_char multiline) s \<or> nf s \<noteq> s \<or> unsafe_value s then cve else Inr s
   | _ \<Rightarrow> cve)"

definition required_text :: "json \<Rightarrow> py_exn + ustr" where
  "required_text v = (case v of JStr s \<Rightarrow> Inr s | _ \<Rightarrow> cve)"

definition optional_text :: "json \<Rightarrow> py_exn + ustr option" where
  "optional_text v = (if v = JNull then Inr None else rbind (required_text v) (\<lambda>s. Inr (Some s)))"

definition cache_timestamp :: "json \<Rightarrow> py_exn + int" where
  "cache_timestamp v = (case v of
     JStr s \<Rightarrow> (case stamp_parse s of Inr t \<Rightarrow> if stamp_text t \<noteq> s then cve else Inr t | Inl _ \<Rightarrow> cve)
   | _ \<Rightarrow> cve)"

text \<open>\<open>_DECIMAL\<close>: \<open>0\<close>, or a number without a leading zero and an optional fraction.\<close>

definition decimal_shape :: "ustr \<Rightarrow> bool" where
  "decimal_shape s \<longleftrightarrow> s = [48] \<or>
     (case s of
        [] \<Rightarrow> False
      | c # r \<Rightarrow> 49 \<le> c \<and> c \<le> 57 \<and>
          (case dropWhile is_digit r of
             [] \<Rightarrow> True
           | p # f \<Rightarrow> p = 46 \<and> f \<noteq> [] \<and> list_all is_digit f))"

definition cache_quantity :: "(ustr \<Rightarrow> ustr) \<Rightarrow> metric_kind option \<Rightarrow> json \<Rightarrow> py_exn + quantity" where
  "cache_quantity nf expected v =
     rbind (safe_mapping_ordered quantity_fields v) (\<lambda>q.
     rbind (safe_text nf (fld ''unit'' q) 64 False) (\<lambda>un.
     case fld ''value'' q of
       JStr rendered \<Rightarrow>
         if \<not> decimal_shape rendered \<or> 256 < length rendered then cve
         else
           rbind (checked_arith (rbind (enum_value mk_members mk_value (fld ''metric'' q)) (\<lambda>m.
             rbind (dec_parse rendered) (\<lambda>d. mk_quantity nf d (JStr (mk_value m)) (JStr un))))) (\<lambda>parsed.
           if dec_format_f (q_value parsed) \<noteq> rendered \<or> q_unit parsed \<noteq> un then cve
           else if expected \<noteq> None \<and> expected \<noteq> Some (q_metric parsed) then cve
           else Inr parsed)
     | _ \<Rightarrow> cve))"

section \<open>Windows\<close>

text \<open>\<open>_window\<close>: the window as a model value. The presentation needs the texts as they stand in the JSON,
  \<open>pwindow_of_json\<close>.\<close>

definition pquantity_of_json :: "json \<Rightarrow> pquantity option" where
  "pquantity_of_json v = (case v of
     JObj q \<Rightarrow>
       (case (fld ''value'' q, fld ''unit'' q, enum_value mk_members mk_value (fld ''metric'' q)) of
          (JStr x, JStr n, Inr m) \<Rightarrow> Some \<lparr>pq_value = x, pq_metric = m, pq_unit = n\<rparr>
        | _ \<Rightarrow> None)
   | _ \<Rightarrow> None)"

definition json_str :: "json \<Rightarrow> ustr" where
  "json_str v = (case v of JStr s \<Rightarrow> s | _ \<Rightarrow> [])"

definition json_opt :: "json \<Rightarrow> ustr option" where
  "json_opt v = (case v of JStr s \<Rightarrow> Some s | _ \<Rightarrow> None)"

definition pwindow_of_json :: "jobj \<Rightarrow> window_kind \<Rightarrow> availability \<Rightarrow> pwindow" where
  "pwindow_of_json w k a = \<lparr>pw_kind = k, pw_scope = json_str (fld ''scope'' w), pw_period = json_str (fld ''period'' w),
     pw_plan_id = json_opt (fld ''plan_id'' w), pw_availability = a, pw_source_id = json_opt (fld ''source_id'' w),
     pw_limit = pquantity_of_json (fld ''limit'' w), pw_used = pquantity_of_json (fld ''used'' w),
     pw_remaining = pquantity_of_json (fld ''remaining'' w), pw_reset_at = json_opt (fld ''reset_at'' w)\<rparr>"

definition source_allowed :: "provider_key \<Rightarrow> ustr option \<Rightarrow> bool" where
  "source_allowed p s \<longleftrightarrow> s = None \<or> s = Some (expected_source p)"

definition window_consistent :: "availability \<Rightarrow> ustr option \<Rightarrow> json list \<Rightarrow> json \<Rightarrow> bool" where
  "window_consistent a src qs reset \<longleftrightarrow>
     (let some = list_ex (\<lambda>q. q \<noteq> JNull) qs in
      (a \<noteq> AKnown \<longrightarrow> \<not> some \<and> reset = JNull) \<and> (a = AKnown \<longrightarrow> some) \<and>
      (src = None \<longrightarrow> a = AUnavailable \<and> \<not> some \<and> reset = JNull))"

definition cache_window :: "(ustr \<Rightarrow> ustr) \<Rightarrow> provider_key \<Rightarrow> json \<Rightarrow> py_exn + window \<times> pwindow" where
  "cache_window nf p v =
     rbind (safe_mapping_ordered cache_window_fields v) (\<lambda>w.
     rbind (checked (enum_value wk_members wk_value (fld ''kind'' w))) (\<lambda>k.
     rbind (checked (enum_value av_members av_value (fld ''availability'' w))) (\<lambda>a.
     rbind (safe_text nf (fld ''scope'' w) 64 False) (\<lambda>sc.
     rbind (safe_text nf (fld ''period'' w) 64 False) (\<lambda>pe.
     rbind (optional_text (fld ''plan_id'' w)) (\<lambda>plan.
     rbind (if plan = None then Inr [] else safe_text nf (fld ''plan_id'' w) 64 False) (\<lambda>_.
     rbind (optional_text (fld ''source_id'' w)) (\<lambda>src.
     if \<not> source_allowed p src then cve
     else
       let qs = [fld ''limit'' w, fld ''used'' w, fld ''remaining'' w] in
       rbind (rmap (nullable (cache_quantity nf (expected_metric k))) qs) (\<lambda>ps.
       if \<not> window_consistent a src qs (fld ''reset_at'' w) then cve
       else
         checked (rbind (nullable (\<lambda>r. rbind (cache_timestamp r) (\<lambda>t. Inr (utc_of t))) (fld ''reset_at'' w)) (\<lambda>reset.
         rbind (mk_window nf (JStr (wk_value k)) (JStr sc) (JStr pe) (map_option JStr plan) (JStr (av_value a)) src
                  (ps ! 0) (ps ! 1) (ps ! 2) reset) (\<lambda>m.
         Inr (m, pwindow_of_json w k a)))))))))))))"

section \<open>Items\<close>

text \<open>\<open>x in {...}\<close> on a set of strings: a value that cannot be hashed raises \<open>TypeError\<close>.\<close>

definition json_in :: "json \<Rightarrow> ustr list \<Rightarrow> py_exn + bool" where
  "json_in v xs = (case v of
     JStr s \<Rightarrow> Inr (s \<in> set xs)
   | JList _ \<Rightarrow> Inl (TypeError ''unhashable type'')
   | JObj _ \<Rightarrow> Inl (TypeError ''unhashable type'')
   | _ \<Rightarrow> Inr False)"

definition snapshot_text_fields :: "string list" where
  "snapshot_text_fields = [''public_state'', ''freshness'', ''status_observed_at'', ''fetched_at'', ''data_at'', ''source_id'']"

definition cacheable_reasons :: "ustr list" where
  "cacheable_reasons = [u ''disabled'', u ''invalid_configuration'', u ''invocation_invalid'', u ''document_aborted'',
     u ''deadline_exhausted'', u ''guard_wait_timeout'']"

definition cache_resets :: "provider_outcome \<Rightarrow> json \<Rightarrow> py_exn + (resets \<times> presets) option" where
  "cache_resets out v =
     nullable (\<lambda>v. if out \<noteq> OSnapshot then cve else
       rbind (safe_mapping_ordered [''available_count'', ''next_expires_at''] v) (\<lambda>r.
       checked (rbind (nullable (\<lambda>x. rbind (cache_timestamp x) (\<lambda>t. Inr (utc_of t))) (fld ''next_expires_at'' r)) (\<lambda>e.
         rbind (mk_resets (fld ''available_count'' r) e) (\<lambda>m.
         Inr (m, r_available_count m, json_opt (fld ''next_expires_at'' r))))))) v"

fun cache_windows :: "(ustr \<Rightarrow> ustr) \<Rightarrow> provider_key \<Rightarrow> (window_kind \<times> ustr \<times> ustr) list \<Rightarrow> json list
    \<Rightarrow> py_exn + (window \<times> pwindow) list" where
  "cache_windows nf p seen [] = Inr []"
| "cache_windows nf p seen (v # vs) =
     rbind (cache_window nf p v) (\<lambda>x.
     let i = (pw_kind (snd x), pw_scope (snd x), pw_period (snd x)) in
     if i \<in> set seen then cve
     else rbind (cache_windows nf p (i # seen) vs) (\<lambda>xs. Inr (x # xs)))"

definition slots_ok :: "provider_key \<Rightarrow> public_state \<Rightarrow> pwindow list \<Rightarrow> bool" where
  "slots_ok p ps ws \<longleftrightarrow> \<not> (p = OpencodeGo \<and> (ps = PAvailable \<or> ps = PPartial)) \<or>
     sort (map pw_period (filter (\<lambda>w. pw_kind w = KCommercial) ws)) = opencode_fixed_periods"

definition item_times :: "jobj \<Rightarrow> py_exn + int list" where
  "item_times i = rmap (\<lambda>f. cache_timestamp (fld f i)) [''status_observed_at'', ''fetched_at'', ''data_at'']"

definition cache_snapshot_item ::
  "(ustr \<Rightarrow> ustr) \<Rightarrow> provider_key \<Rightarrow> ustr option \<Rightarrow> (resets \<times> presets) option \<Rightarrow> jobj \<Rightarrow> py_exn + pitem" where
  "cache_snapshot_item nf p src rs i =
     rbind (optional_text (fld ''public_state'' i)) (\<lambda>pst.
     rbind (optional_text (fld ''freshness'' i)) (\<lambda>frt.
     if pst = None \<or> frt = None then cve
     else
       rbind (checked (enum_value pub_members pub_value (fld ''public_state'' i))) (\<lambda>ps.
       rbind (checked (enum_value fr_members fr_value (fld ''freshness'' i))) (\<lambda>fr.
       rbind (item_times i) (\<lambda>ts.
       case fld ''windows'' i of
         JList raw \<Rightarrow>
           if 32 < length raw then cve
           else
             rbind (cache_windows nf p [] raw) (\<lambda>ws.
             let shown = map snd ws in
             if sort_key window_sort_key shown \<noteq> shown then cve
             else if \<not> slots_ok p ps shown then cve
             else
               rbind (checked (mk_snapshot (JStr (pub_value ps)) (JStr (fr_value fr)) (utc_of (ts ! 0)) (utc_of (ts ! 1))
                        (utc_of (ts ! 2)) src (map fst ws) (map_option fst rs))) (\<lambda>_.
               if fld ''execution_error'' i \<noteq> JNull \<or> fld ''not_run_reason'' i \<noteq> JNull then cve
               else Inr ((blank_item p OSnapshot)
                 \<lparr>pi_public_state := Some ps, pi_freshness := Some fr, pi_windows := shown,
                  pi_resets := map_option snd rs\<rparr>)))
       | _ \<Rightarrow> cve)))))"

definition blank_fields :: "jobj \<Rightarrow> bool" where
  "blank_fields i \<longleftrightarrow> list_all (\<lambda>f. fld f i = JNull) snapshot_text_fields \<and> fld ''windows'' i = JList []
     \<and> fld ''execution_error'' i = JNull"

definition cache_other_item :: "provider_key \<Rightarrow> provider_outcome \<Rightarrow> jobj \<Rightarrow> py_exn + pitem" where
  "cache_other_item p out i =
     (if out = OUndetected then
        if \<not> blank_fields i \<or> fld ''not_run_reason'' i \<noteq> JNull then cve else Inr (blank_item p OUndetected)
      else if out = ONotRun then
        if \<not> blank_fields i then cve
        else rbind (json_in (fld ''not_run_reason'' i) cacheable_reasons) (\<lambda>ok.
          if \<not> ok then cve else Inr ((blank_item p ONotRun)\<lparr>pi_reason := json_opt (fld ''not_run_reason'' i)\<rparr>))
      else cve)"

definition item_texts :: "(ustr \<Rightarrow> ustr) \<Rightarrow> jobj \<Rightarrow> py_exn + unit" where
  "item_texts nf i =
     rbind (safe_text nf (fld ''compact_text'' i) 128 False) (\<lambda>_.
     rbind (safe_text nf (fld ''alternate_text'' i) 128 False) (\<lambda>_.
     rbind (safe_text nf (fld ''tooltip_text'' i) 4096 True) (\<lambda>_.
     rbind (nullable (safe_mapping_ordered depleted_fields) (fld ''most_depleted_window'' i)) (\<lambda>_. Inr ()))))"

definition cache_item :: "(ustr \<Rightarrow> ustr) \<Rightarrow> provider_key list \<Rightarrow> json \<Rightarrow> py_exn + jobj \<times> pitem" where
  "cache_item nf seen v =
     rbind (safe_mapping_ordered provider_fields v) (\<lambda>i.
     rbind (rbind (required_text (fld ''provider'' i)) (\<lambda>_. checked (enum_value pk_members pk_value (fld ''provider'' i)))) (\<lambda>p.
     if p \<in> set seen then cve
     else
       rbind (rbind (required_text (fld ''outcome'' i)) (\<lambda>_. checked (enum_value po_members po_value (fld ''outcome'' i)))) (\<lambda>out.
       rbind (rmap (\<lambda>f. optional_text (fld f i)) snapshot_text_fields) (\<lambda>_.
       rbind (optional_text (fld ''source_id'' i)) (\<lambda>src.
       if \<not> source_allowed p src then cve
       else
         rbind (cache_resets out (fld ''rate_limit_reset_credits'' i)) (\<lambda>rs.
         rbind (if out = OSnapshot then cache_snapshot_item nf p src rs i else cache_other_item p out i) (\<lambda>facts.
         rbind (item_texts nf i) (\<lambda>_. Inr (i, facts)))))))))"

fun cache_items :: "(ustr \<Rightarrow> ustr) \<Rightarrow> provider_key list \<Rightarrow> json list \<Rightarrow> py_exn + (jobj \<times> pitem) list" where
  "cache_items nf seen [] = Inr []"
| "cache_items nf seen (v # vs) =
     rbind (cache_item nf seen v) (\<lambda>x.
     rbind (cache_items nf (pi_provider (snd x) # seen) vs) (\<lambda>xs. Inr (x # xs)))"

section \<open>The texts recomputed\<close>

definition public_document_json :: "json \<Rightarrow> py_exn + bytes" where
  "public_document_json v = (case v of
     JObj d \<Rightarrow>
       if list_all (\<lambda>k. u k \<in> fst ` set d) document_fields
       then encode_json (JObj (map (\<lambda>k. (u k, fld k d)) document_fields))
       else Inl KeyError
   | _ \<Rightarrow> Inl (TypeError ''indices''))"

definition update_item :: "jobj \<Rightarrow> presentation \<Rightarrow> jobj" where
  "update_item i pr = foldl (\<lambda>d (k, v). dict_put k v d) i (presentation_json pr)"

type_synonym candidate = "shown list \<times> nat"

definition presentation_candidate ::
  "platform \<Rightarrow> jobj \<Rightarrow> (jobj \<times> pitem) list \<Rightarrow> nat \<Rightarrow> py_exn + candidate" where
  "presentation_candidate px root items limit =
     rbind (rmap (\<lambda>(i, facts). present px limit facts) items) (\<lambda>shown.
     rbind (public_document_json (JObj
       [(u ''execution_state'', fld ''execution_state'' root), (u ''execution_error'', fld ''execution_error'' root),
        (u ''general'', general_json (general_of shown)),
        (u ''providers'', JList (map (\<lambda>((i, _), s). JObj (update_item i (snd s))) (zip items shown)))])) (\<lambda>b.
     Inr (shown, length b)))"

definition fits_candidate :: "candidate \<Rightarrow> bool" where
  "fits_candidate c \<longleftrightarrow> snd c \<le> max_cache_document_bytes"

definition key_checked :: "py_exn + 'a \<Rightarrow> py_exn + 'a" where
  "key_checked m = (case m of Inl e \<Rightarrow> if e = KeyError \<or> is_ValueError e \<or> is_TypeError e then cve else Inl e | Inr x \<Rightarrow> Inr x)"

definition same_presentation :: "jobj \<Rightarrow> presentation \<Rightarrow> bool" where
  "same_presentation i pr \<longleftrightarrow> list_all (\<lambda>(k, v). dict_get k i = Some v) (presentation_json pr)"

definition presentation_matches :: "platform \<Rightarrow> jobj \<Rightarrow> (jobj \<times> pitem) list \<Rightarrow> py_exn + unit" where
  "presentation_matches px root items =
     rbind (limit_search fits_candidate (\<lambda>l. key_checked (presentation_candidate px root items l)) 0 4096 None) (\<lambda>best.
     case best of
       None \<Rightarrow> cve
     | Some (shown, _) \<Rightarrow>
         if fld ''general'' root \<noteq> general_json (general_of shown) then cve
         else if \<not> list_all (\<lambda>((i, _), s). same_presentation i (snd s)) (zip items shown) then cve
         else Inr ())"

section \<open>Documents\<close>

definition execution_states :: "ustr list" where
  "execution_states = [u ''complete'', u ''partial'', u ''not_run'', u ''execution_error'']"

definition cleanup_error :: json where
  "cleanup_error = JObj [(u ''code'', JStr (u ''cleanup_failed'')), (u ''phase'', JStr (u ''cleanup''))]"

text \<open>The last checks: the document's error and its execution state against the outcomes.\<close>

definition execution_checks :: "jobj \<Rightarrow> provider_outcome list \<Rightarrow> py_exn + unit" where
  "execution_checks root outs =
     (let st = fld ''execution_state'' root; err = fld ''execution_error'' root; is = (\<lambda>s. st = JStr (u s)) in
      rbind (if err = JNull then (if is ''execution_error'' then cve else Inr ())
             else rbind (safe_mapping_ordered error_fields err) (\<lambda>e.
               if JObj e \<noteq> cleanup_error \<or> \<not> is ''execution_error'' then cve else Inr ())) (\<lambda>_.
      if is ''complete'' \<and> (list_ex (\<lambda>x. \<not> successful x) outs \<or> err \<noteq> JNull) then cve
      else if is ''not_run'' \<and> list_ex (\<lambda>x. x \<noteq> ONotRun) outs then cve
      else if is ''partial'' \<and> (\<not> list_ex successful outs \<or> \<not> list_ex (\<lambda>x. x = ONotRun \<or> x = OExecError) outs \<or> err \<noteq> JNull)
      then cve else Inr ()))"

definition validate_document :: "platform \<Rightarrow> json \<Rightarrow> py_exn + jobj" where
  "validate_document px v =
     rbind (safe_mapping_ordered document_fields v) (\<lambda>root.
     rbind (safe_mapping_ordered general_fields (fld ''general'' root)) (\<lambda>g.
     rbind (safe_text (nfc px) (fld ''compact_text'' g) 263 False) (\<lambda>_.
     rbind (safe_text (nfc px) (fld ''alternate_text'' g) 265 False) (\<lambda>_.
     rbind (safe_text (nfc px) (fld ''tooltip_text'' g) 8194 True) (\<lambda>_.
     rbind (json_in (fld ''execution_state'' root) execution_states) (\<lambda>known.
     if \<not> known then cve
     else (case fld ''providers'' root of
       JList ps \<Rightarrow>
         if length ps \<noteq> 2 then cve
         else
           rbind (cache_items (nfc px) [] ps) (\<lambda>items.
           let facts = map snd items; outs = map pi_outcome facts in
           if map pi_provider facts \<noteq> provider_order \<or> \<not> list_ex successful outs then cve
           else
             rbind (presentation_matches px root items) (\<lambda>_.
             rbind (execution_checks root outs) (\<lambda>_. Inr root)))
     | _ \<Rightarrow> cve)))))))"

end
