(* ===== verification/NtPath.thy ===== *)
theory NtPath
  imports Prelude
begin

text \<open>
  \<open>ntpath\<close>, the Windows paths of Python's standard library: \<open>splitroot\<close>, \<open>splitdrive\<close>,
  \<open>normpath\<close>, \<open>join\<close> and \<open>dirname\<close>, as its Python sources have them. The separator is 92, the alternate
  separator 47 and the colon 58.
\<close>

definition bs :: nat where "bs = 92"

definition norm_seps :: "ustr \<Rightarrow> ustr" where
  "norm_seps s = py_replace1 47 bs s"

text \<open>\<open>s.find(c, start)\<close>.\<close>

fun find_from :: "nat \<Rightarrow> nat \<Rightarrow> ustr \<Rightarrow> nat option" where
  "find_from c 0 [] = None"
| "find_from c 0 (x # xs) = (if x = c then Some 0 else map_option Suc (find_from c 0 xs))"
| "find_from c (Suc n) [] = None"
| "find_from c (Suc n) (x # xs) = map_option Suc (find_from c n xs)"

definition ascii_upper :: "ustr \<Rightarrow> ustr" where
  "ascii_upper s = map (\<lambda>c. if 97 \<le> c \<and> c \<le> 122 then c - 32 else c) s"

definition unc_prefix :: ustr where
  "unc_prefix = [92, 92, 63, 92, 85, 78, 67, 92]"

definition splitroot :: "ustr \<Rightarrow> ustr \<times> ustr \<times> ustr" where
  "splitroot p =
     (let n = norm_seps p in
      if take 1 n = [bs] then
        if take 1 (drop 1 n) = [bs] then
          (case find_from bs (if ascii_upper (take 8 n) = unc_prefix then 8 else 2) n of
             None \<Rightarrow> (p, [], [])
           | Some i \<Rightarrow>
               (case find_from bs (i + 1) n of
                  None \<Rightarrow> (p, [], [])
                | Some j \<Rightarrow> (take j p, take 1 (drop j p), drop (j + 1) p)))
        else ([], take 1 p, drop 1 p)
      else if take 1 (drop 1 n) = [58] then
        if take 1 (drop 2 n) = [bs] then (take 2 p, take 1 (drop 2 p), drop 3 p)
        else (take 2 p, [], drop 2 p)
      else ([], [], p))"

definition splitdrive :: "ustr \<Rightarrow> ustr \<times> ustr" where
  "splitdrive p = (case splitroot p of (d, r, t) \<Rightarrow> (d, r @ t))"

text \<open>The loop of \<open>normpath\<close> over the components: \<open>done\<close> holds the components kept so far, the last
  one first.\<close>

definition dotdot :: ustr where "dotdot = [46, 46]"

fun norm_comps :: "bool \<Rightarrow> ustr list \<Rightarrow> ustr list \<Rightarrow> ustr list" where
  "norm_comps root kept [] = rev kept"
| "norm_comps root kept (c # cs) =
     (if c = [] \<or> c = [46] then norm_comps root kept cs
      else if c = dotdot then
        (case kept of
           k # ks \<Rightarrow> if k \<noteq> dotdot then norm_comps root ks cs else norm_comps root (c # kept) cs
         | [] \<Rightarrow> if root then norm_comps root kept cs else norm_comps root (c # kept) cs)
      else norm_comps root (c # kept) cs)"

definition normpath :: "ustr \<Rightarrow> ustr" where
  "normpath p =
     (case splitroot (norm_seps p) of (drive, root, path) \<Rightarrow>
       let comps = norm_comps (root \<noteq> []) [] (py_split bs path) in
       drive @ root @ py_join [bs] (if drive @ root = [] \<and> comps = [] then [[46]] else comps))"

definition is_sep :: "nat \<Rightarrow> bool" where
  "is_sep c \<longleftrightarrow> c = bs \<or> c = 47"

definition path_append :: "ustr \<Rightarrow> ustr \<Rightarrow> ustr" where
  "path_append a b = (if a \<noteq> [] \<and> \<not> is_sep (last a) then a @ [bs] else a) @ b"

definition ntjoin :: "ustr \<Rightarrow> ustr \<Rightarrow> ustr" where
  "ntjoin a b =
     (case (splitroot a, splitroot b) of ((ad, ar, at), (bd, br, bt)) \<Rightarrow>
       let (d, r, t) =
         (if br \<noteq> [] then (if bd \<noteq> [] \<or> ad = [] then bd else ad, br, bt)
          else if bd \<noteq> [] \<and> bd \<noteq> ad then
            (if ascii_upper bd \<noteq> ascii_upper ad then (bd, br, bt) else (bd, ar, path_append at bt))
          else (ad, ar, path_append at bt)) in
       if t \<noteq> [] \<and> r = [] \<and> d \<noteq> [] \<and> last d \<noteq> 58 \<and> \<not> is_sep (last d) then d @ [bs] @ t
       else d @ r @ t)"

definition rstrip_seps :: "ustr \<Rightarrow> ustr" where
  "rstrip_seps s = rev (dropWhile is_sep (rev s))"

definition ntdirname :: "ustr \<Rightarrow> ustr" where
  "ntdirname p = (case splitroot p of (d, r, t) \<Rightarrow>
     d @ r @ rstrip_seps (rev (dropWhile (\<lambda>c. \<not> is_sep c) (rev t))))"

definition ntbasename :: "ustr \<Rightarrow> ustr" where
  "ntbasename p = (case splitroot p of (d, r, t) \<Rightarrow> rev (takeWhile (\<lambda>c. \<not> is_sep c) (rev t)))"

definition ntisabs :: "ustr \<Rightarrow> bool" where
  "ntisabs p = (let n = norm_seps p in py_startswith n [bs, bs] \<or> take 2 (drop 1 n) = [58, bs])"

section \<open>Normal paths\<close>

text \<open>The components \<open>normpath\<close> keeps: none empty, none a point, and the parent steps only at the front, none
  at all after a root. On such components the loop changes nothing.\<close>

definition normal_comps :: "bool \<Rightarrow> ustr list \<Rightarrow> bool" where
  "normal_comps root cs \<longleftrightarrow> (\<forall>c \<in> set cs. c \<noteq> [] \<and> c \<noteq> [46]) \<and>
     (\<exists>n xs. cs = replicate n dotdot @ xs \<and> dotdot \<notin> set xs \<and> (root \<longrightarrow> n = 0))"

lemma normal_compsD:
  "normal_comps root cs \<Longrightarrow> \<exists>n xs. cs = replicate n dotdot @ xs \<and> dotdot \<notin> set xs \<and> (root \<longrightarrow> n = 0)
     \<and> (\<forall>c \<in> set cs. c \<noteq> [] \<and> c \<noteq> [46])"
  unfolding normal_comps_def by blast

lemma norm_comps_plain:
  "\<forall>c \<in> set xs. c \<noteq> [] \<and> c \<noteq> [46] \<and> c \<noteq> dotdot \<Longrightarrow> norm_comps root kept xs = rev kept @ xs"
  by (induction xs arbitrary: kept) auto

lemma norm_comps_dots:
  "norm_comps False (replicate m dotdot) (replicate n dotdot @ xs) = norm_comps False (replicate (m + n) dotdot) xs"
proof (induction n arbitrary: m)
  case (Suc n)
  have "norm_comps False (replicate m dotdot) (replicate (Suc n) dotdot @ xs)
    = norm_comps False (replicate (Suc m) dotdot) (replicate n dotdot @ xs)"
    by (cases m) (simp_all add: dotdot_def)
  then show ?case using Suc[of "Suc m"] by simp
qed simp

lemma norm_comps_same:
  assumes "normal_comps root cs"
  shows "norm_comps root [] cs = cs"
proof -
  obtain n xs where n: "cs = replicate n dotdot @ xs" "dotdot \<notin> set xs" "root \<longrightarrow> n = 0"
    and c: "\<forall>c \<in> set cs. c \<noteq> [] \<and> c \<noteq> [46]"
    using normal_compsD[OF assms] by blast
  have p: "norm_comps root kept xs = rev kept @ xs" for kept
    using n c by (intro norm_comps_plain) auto
  show ?thesis
  proof (cases root)
    case True
    then show ?thesis using n p by simp
  next
    case False
    then show ?thesis using norm_comps_dots[of 0 n xs] n(1) p by simp
  qed
qed

lemma normal_rev_Cons:
  assumes "normal_comps root (rev (k # ks))"
  shows "normal_comps root (rev ks)"
proof -
  obtain n xs where n: "rev ks @ [k] = replicate n dotdot @ xs" "dotdot \<notin> set xs" "root \<longrightarrow> n = 0"
    and c: "\<forall>c \<in> set (rev ks @ [k]). c \<noteq> [] \<and> c \<noteq> [46]"
    using normal_compsD[OF assms] unfolding rev.simps(2) by blast
  show ?thesis
  proof (cases xs rule: rev_cases)
    case Nil
    then obtain m where m: "n = Suc m" using n by (cases n) auto
    then have "rev ks @ [k] = replicate m dotdot @ [dotdot]" using Nil n by (simp add: replicate_append_same)
    then have "rev ks = replicate m dotdot @ []" by simp
    then show ?thesis unfolding normal_comps_def using c n(3) m by (intro conjI exI[of _ m] exI[of _ "[]"]) auto
  next
    case (snoc ys y)
    then have "rev ks = replicate n dotdot @ ys" using n by simp
    then show ?thesis unfolding normal_comps_def using c n snoc by (intro conjI exI[of _ n] exI[of _ ys]) auto
  qed
qed

lemma normal_snoc:
  assumes "normal_comps root (rev kept)" "c \<noteq> []" "c \<noteq> [46]" "c \<noteq> dotdot"
  shows "normal_comps root (rev (c # kept))"
proof -
  obtain n xs where "rev kept = replicate n dotdot @ xs" "dotdot \<notin> set xs" "root \<longrightarrow> n = 0"
    and "\<forall>c \<in> set (rev kept). c \<noteq> [] \<and> c \<noteq> [46]"
    using normal_compsD[OF assms(1)] by blast
  then show ?thesis unfolding normal_comps_def
    using assms by (intro conjI exI[of _ n] exI[of _ "xs @ [c]"]) auto
qed

lemma normal_dots:
  assumes "normal_comps False (rev kept)" "kept = [] \<or> hd kept = dotdot"
  shows "normal_comps False (rev (dotdot # kept))"
proof -
  obtain n xs where n: "rev kept = replicate n dotdot @ xs" "dotdot \<notin> set xs"
    and c: "\<forall>c \<in> set (rev kept). c \<noteq> [] \<and> c \<noteq> [46]"
    using normal_compsD[OF assms(1)] by blast
  have "xs = []"
  proof (cases xs rule: rev_cases)
    case (snoc ys y)
    have "kept = y # rev ys @ replicate n dotdot"
      using n(1) snoc by (metis append_assoc rev_append rev_replicate rev_rev_ident rev_singleton_conv append_Cons append_Nil)
    then show ?thesis using assms(2) n(2) snoc by auto
  qed simp
  then have "rev (dotdot # kept) = replicate (Suc n) dotdot @ []"
    using n by (simp add: replicate_append_same)
  then show ?thesis unfolding normal_comps_def using c
    by (intro conjI exI[of _ "Suc n"] exI[of _ "[]"]) (auto simp: dotdot_def)
qed

lemma norm_comps_normal:
  "normal_comps root (rev kept) \<Longrightarrow> normal_comps root (norm_comps root kept cs)"
proof (induction root kept cs rule: norm_comps.induct)
  case (2 root kept c cs)
  show ?case
  proof (cases "c = [] \<or> c = [46]")
    case True
    then show ?thesis using 2 by auto
  next
    case c: False
    show ?thesis
    proof (cases "c = dotdot")
      case False
      then show ?thesis using 2 c normal_snoc[of root kept c] by simp
    next
      case dd: True
      show ?thesis
      proof (cases kept)
        case Nil
        then show ?thesis using 2 c dd normal_dots[of "[]"] by (cases root) auto
      next
        case (Cons k ks)
        show ?thesis
        proof (cases "k = dotdot")
          case False
          then show ?thesis using 2 c dd Cons normal_rev_Cons by auto
        next
          case True
          have "\<not> root"
          proof
            assume root
            then have "dotdot \<notin> set (rev kept)" using "2.prems" by (auto simp: normal_comps_def)
            then show False using Cons True by simp
          qed
          then show ?thesis using 2 c dd Cons True normal_dots[of kept] by auto
        qed
      qed
    qed
  qed
qed simp

lemma normal_Nil [simp]: "normal_comps root []"
  unfolding normal_comps_def by (intro conjI exI[of _ 0] exI[of _ "[]"]) auto

text \<open>Normalising the components again changes nothing.\<close>

lemma norm_comps_idem: "norm_comps root [] (norm_comps root [] cs) = norm_comps root [] cs"
  by (rule norm_comps_same, rule norm_comps_normal) simp

lemmas [run] = bs_def norm_seps_def py_replace1_def ascii_upper_def unc_prefix_def splitroot_def splitdrive_def dotdot_def
  normpath_def is_sep_def path_append_def ntjoin_def rstrip_seps_def ntdirname_def ntbasename_def ntisabs_def

end
