(* ===== verification/JsonErrors.thy ===== *)
theory JsonErrors
  imports Json
begin

text \<open>
  The exceptions of \<open>json.loads\<close>: whatever the text, they are \<open>ValueError\<close>s when those of the hooks are.
\<close>

definition hooks_value :: "json_hooks \<Rightarrow> bool" where
  "hooks_value h \<longleftrightarrow> (\<forall>d e. pairs_hook h d = Inl e \<longrightarrow> is_ValueError e) \<and> (\<forall>c e. const_hook h c = Inl e \<longrightarrow> is_ValueError e)"

lemma scan_char_error: "scan_char c r = Inl e \<Longrightarrow> is_ValueError e"
  by (auto simp: scan_char_def scan_u_def split: list.splits option.splits if_splits)

lemma scan_string_error: "scan_string s = Inl e \<Longrightarrow> is_ValueError e"
proof (induction s rule: scan_string.induct)
  case (2 c r)
  then show ?case by (auto simp: rbind_Inl_iff split: if_splits sum.splits dest: scan_char_error)
qed auto

lemma scan_number_error: "scan_number s = Inl e \<Longrightarrow> is_ValueError e"
  by (auto simp: scan_number_def Let_def split: option.splits prod.splits list.splits if_splits)

lemma scan_atom_error: "hooks_value h \<Longrightarrow> scan_atom h s = Inl e \<Longrightarrow> is_ValueError e"
  by (auto simp: scan_atom_def hooks_value_def rbind_Inl_iff split: option.splits dest: scan_number_error)

lemma scan_error:
  "hooks_value h \<Longrightarrow> scan_value h n s = Inl e \<Longrightarrow> is_ValueError e \<or> e = no_fuel"
  "hooks_value h \<Longrightarrow> scan_items h n s = Inl e \<Longrightarrow> is_ValueError e \<or> e = no_fuel"
  "hooks_value h \<Longrightarrow> scan_pairs h n s = Inl e \<Longrightarrow> is_ValueError e \<or> e = no_fuel"
proof (induction h n s and h n s and h n s rule: scan_value_scan_items_scan_pairs.induct)
  case (2 h n s)
  have h: "\<And>d e. pairs_hook h d = Inl e \<Longrightarrow> is_ValueError e" using 2 by (simp add: hooks_value_def)
  show ?case using 2 h
    by (auto simp: rbind_Inl_iff split: list.splits if_splits dest: scan_string_error scan_atom_error)
next
  case (4 h n s)
  show ?case
  proof (cases "scan_value h n s")
    case (Inl f)
    then show ?thesis using 4 by auto
  next
    case (Inr p)
    obtain v r where p: "p = (v, r)" by (cases p)
    show ?thesis
    proof (cases "skip_ws r")
      case Nil
      then show ?thesis using 4(4) Inr p by auto
    next
      case (Cons c r')
      show ?thesis
      proof (cases "c = 44")
        case True
        then have "scan_items h n (skip_ws r') = Inl e" using 4(4) Inr p Cons by (auto simp: rbind_Inl_iff)
        then show ?thesis using 4(2) Cons True 4(3) by blast
      next
        case False
        then show ?thesis using 4(4) Inr p Cons by (auto split: if_splits)
      qed
    qed
  qed
next
  case (6 h n s)
  show ?case
  proof (cases "\<exists>q k r1 r2. s = 34 # q \<and> scan_string q = Inr (k, r1) \<and> skip_ws r1 = 58 # r2")
    case False
    show ?thesis
    proof (cases "\<exists>q p. s = 34 # q \<and> scan_string q = Inr p")
      case True
      then obtain q k r1 where s: "s = 34 # q" "scan_string q = Inr (k, r1)" by auto
      then show ?thesis using 6(4) False by (cases "skip_ws r1") auto
    next
      case no: False
      show ?thesis
      proof (cases s)
        case (Cons c q)
        then show ?thesis using 6(4) no scan_string_error[of q e]
          by (cases "scan_string q") (auto split: if_splits)
      qed (use 6(4) in auto)
    qed
  next
    case True
    then obtain q k r1 r2 where s: "s = 34 # q" "scan_string q = Inr (k, r1)" "skip_ws r1 = 58 # r2" by blast
    show ?thesis
    proof (cases "scan_value h n (skip_ws r2)")
      case (Inl f)
      then show ?thesis using 6(1,3,4) s by auto
    next
      case (Inr p)
      obtain v r3 where p: "p = (v, r3)" by (cases p)
      show ?thesis
      proof (cases "skip_ws r3")
        case Nil
        then show ?thesis using s Inr p 6(4) by auto
      next
        case (Cons c r4)
        show ?thesis
        proof (cases "c = 44")
          case True
          then have "scan_pairs h n (skip_ws r4) = Inl e" using 6(4) s Inr p Cons by (auto simp: rbind_Inl_iff)
          then show ?thesis using 6(2,3) s Cons True by blast
        next
          case False
          then show ?thesis using 6(4) s Inr p Cons by (auto split: if_splits)
        qed
      qed
    qed
  qed
qed auto

lemma loads_error:
  assumes "hooks_value h" "loads h s = Inl e"
  shows "is_ValueError e"
proof -
  have "hooks_total h" using assms(1) by (fastforce simp: hooks_value_def hooks_total_def no_fuel_def)
  then have "e \<noteq> no_fuel" using loads_fuel assms(2) by blast
  moreover have "is_ValueError e \<or> scan_value h (2 * length s + 2) (skip_ws s) = Inl e"
    using assms(2) unfolding loads_def by (auto simp: rbind_Inl_iff simp del: scan_value.simps split: if_splits prod.splits)
  ultimately show ?thesis using scan_error(1)[OF assms(1)] by blast
qed

lemma unique_pairs_error: "unique_pairs e acc ps = Inl f \<Longrightarrow> f = e"
  by (induction e acc ps rule: unique_pairs.induct) (auto split: if_splits)

lemma strict_hooks_value: "is_ValueError e \<Longrightarrow> is_ValueError f \<Longrightarrow> hooks_value (strict_hooks e f)"
  by (auto simp: hooks_value_def strict_hooks_def dest: unique_pairs_error)

lemma utf8_decode_error: "utf8_decode b = Inl e \<Longrightarrow> e = UnicodeError"
proof (induction b arbitrary: e rule: length_induct)
  case (1 bs)
  have ih: "rbind (utf8_decode r) (\<lambda>s. Inr (c # s)) = Inl e \<Longrightarrow> length r < length bs \<Longrightarrow> e = UnicodeError" for r c e
    using 1(1) by (auto simp: rbind_Inl_iff)
  show ?case
  proof (cases bs)
    case Nil
    then show ?thesis using 1(2) by simp
  next
    case (Cons b r)
    note d = 1(2)[unfolded Cons utf8_decode.simps Let_def]
    show ?thesis
    proof (cases "b < 128")
      case True
      then show ?thesis using d ih[of r b e] Cons by simp
    next
      case b: False
      consider "r = []" | b1 where "r = [b1]" | b1 b2 where "r = [b1, b2]" | b1 b2 b3 r3 where "r = b1 # b2 # b3 # r3"
        by (metis list.exhaust)
      then show ?thesis using b d ih Cons
        by cases (auto split: if_splits dest!: ih simp del: utf8_decode.simps)
    qed
  qed
qed

end
