(* ===== verification/JsonDepth.thy ===== *)
theory JsonDepth
  imports JsonErrors
begin

text \<open>
  The recursion limit of \<open>json.loads\<close>: the same reader, which counts the containers it is in. Entering one more than
  the interpreter has room for raises \<open>RecursionError\<close>, and so does a hook that is called in too many.

  \<^item> \<open>rooms\<close> is what the limit leaves at the call: how many containers the scanner may be in (\<open>rm_scan\<close>), in how many a
    hook may be called (\<open>rm_hook\<close>), and how many levels below the top a walk over the value may enter (\<open>rm_walk\<close>). The
    numbers depend on the interpreter and on the frames in use, and are parameters.
  \<^item> \<open>loads_in\<close> is \<open>loads\<close> with this count. \<open>loads_in_facts\<close> relates them: the answers agree, or the counting reader
    raised \<open>RecursionError\<close> on a text with more opening brackets than there is room, whose value is nested deeper.
\<close>

record rooms =
  rm_scan :: nat
  rm_hook :: nat
  rm_walk :: nat

definition scan_room :: "rooms \<Rightarrow> nat" where
  "scan_room rs = min (rm_scan rs) (rm_hook rs)"

definition stack_room :: "rooms \<Rightarrow> nat" where
  "stack_room rs = min (scan_room rs) (rm_walk rs)"

definition hooked :: "rooms \<Rightarrow> nat \<Rightarrow> py_exn + 'a \<Rightarrow> py_exn + 'a" where
  "hooked rs d m = (if rm_hook rs < d then Inl RecursionError else m)"

definition hooks_at :: "rooms \<Rightarrow> nat \<Rightarrow> json_hooks \<Rightarrow> json_hooks" where
  "hooks_at rs d h = \<lparr>pairs_hook = (\<lambda>ps. hooked rs d (pairs_hook h ps)), const_hook = (\<lambda>c. hooked rs d (const_hook h c))\<rparr>"

fun scan_value_in :: "rooms \<Rightarrow> nat \<Rightarrow> json_hooks \<Rightarrow> nat \<Rightarrow> ustr \<Rightarrow> py_exn + json \<times> ustr"
and scan_items_in :: "rooms \<Rightarrow> nat \<Rightarrow> json_hooks \<Rightarrow> nat \<Rightarrow> ustr \<Rightarrow> py_exn + json list \<times> ustr"
and scan_pairs_in :: "rooms \<Rightarrow> nat \<Rightarrow> json_hooks \<Rightarrow> nat \<Rightarrow> ustr \<Rightarrow> py_exn + jobj \<times> ustr" where
  "scan_value_in rs d h 0 s = Inl no_fuel"
| "scan_value_in rs d h (Suc n) s = (case s of
     [] \<Rightarrow> Inl JSONDecodeError
   | c # r \<Rightarrow>
       if c = 34 then rbind (scan_string r) (\<lambda>(t, r'). Inr (JStr t, r'))
       else if c = 123 then
         if rm_scan rs \<le> d then Inl RecursionError
         else (case skip_ws r of
            e # r' \<Rightarrow>
              if e = 125 then rbind (pairs_hook (hooks_at rs (Suc d) h) []) (\<lambda>v. Inr (v, r'))
              else rbind (scan_pairs_in rs (Suc d) h n (e # r')) (\<lambda>(ps, t).
                rbind (pairs_hook (hooks_at rs (Suc d) h) ps) (\<lambda>v. Inr (v, t)))
          | [] \<Rightarrow> Inl JSONDecodeError)
       else if c = 91 then
         if rm_scan rs \<le> d then Inl RecursionError
         else (case skip_ws r of
            e # r' \<Rightarrow>
              if e = 93 then Inr (JList [], r')
              else rbind (scan_items_in rs (Suc d) h n (e # r')) (\<lambda>(vs, t). Inr (JList vs, t))
          | [] \<Rightarrow> Inl JSONDecodeError)
       else scan_atom (hooks_at rs d h) s)"
| "scan_items_in rs d h 0 s = Inl no_fuel"
| "scan_items_in rs d h (Suc n) s =
     rbind (scan_value_in rs d h n s) (\<lambda>(v, r). case skip_ws r of
       c # r' \<Rightarrow>
         if c = 44 then rbind (scan_items_in rs d h n (skip_ws r')) (\<lambda>(vs, t). Inr (v # vs, t))
         else if c = 93 then Inr ([v], r')
         else Inl JSONDecodeError
     | [] \<Rightarrow> Inl JSONDecodeError)"
| "scan_pairs_in rs d h 0 s = Inl no_fuel"
| "scan_pairs_in rs d h (Suc n) s = (case s of
     c # r \<Rightarrow>
       if c \<noteq> 34 then Inl JSONDecodeError
       else rbind (scan_string r) (\<lambda>(k, r1). case skip_ws r1 of
         e # r2 \<Rightarrow>
           if e \<noteq> 58 then Inl JSONDecodeError
           else rbind (scan_value_in rs d h n (skip_ws r2)) (\<lambda>(v, r3). case skip_ws r3 of
             e # r4 \<Rightarrow>
               if e = 44 then rbind (scan_pairs_in rs d h n (skip_ws r4)) (\<lambda>(ps, t). Inr ((k, v) # ps, t))
               else if e = 125 then Inr ([(k, v)], r4)
               else Inl JSONDecodeError
           | [] \<Rightarrow> Inl JSONDecodeError)
       | [] \<Rightarrow> Inl JSONDecodeError)
   | [] \<Rightarrow> Inl JSONDecodeError)"

definition loads_in :: "rooms \<Rightarrow> json_hooks \<Rightarrow> ustr \<Rightarrow> py_exn + json" where
  "loads_in rs h s =
     (if py_startswith s [65279] then Inl JSONDecodeError
      else rbind (scan_value_in rs 0 h (2 * length s + 2) (skip_ws s)) (\<lambda>(v, r).
        if skip_ws r = [] then Inr v else Inl JSONDecodeError))"

section \<open>Brackets and nesting\<close>

definition brackets :: "ustr \<Rightarrow> nat" where
  "brackets s = length (filter (\<lambda>c. c = 91 \<or> c = 123) s)"

fun json_depth :: "json \<Rightarrow> nat" where
  "json_depth (JList xs) = Suc (foldr (\<lambda>x. max (json_depth x)) xs 0)"
| "json_depth (JObj d) = Suc (foldr (\<lambda>(k, v). max (json_depth v)) d 0)"
| "json_depth _ = 0"

lemma brackets_Nil [simp]: "brackets [] = 0"
  by (simp add: brackets_def)

lemma brackets_Cons: "brackets (c # s) = (if c = 91 \<or> c = 123 then Suc (brackets s) else brackets s)"
  by (simp add: brackets_def)

lemma brackets_le_Cons: "brackets s \<le> brackets (c # s)"
  by (simp add: brackets_Cons)

lemma brackets_dropWhile: "brackets (dropWhile P s) \<le> brackets s"
  by (induction s) (auto simp: brackets_Cons)

lemma brackets_drop: "brackets (drop k s) \<le> brackets s"
  by (induction s arbitrary: k) (auto simp: brackets_Cons drop_Cons' intro: le_SucI)

lemma brackets_skip_ws: "brackets (skip_ws s) \<le> brackets s"
  by (simp add: skip_ws_def brackets_dropWhile)

lemma brackets_skipped: "skip_ws s = c # r \<Longrightarrow> brackets r \<le> brackets s"
  using brackets_skip_ws[of s] brackets_le_Cons[of r c] by simp

lemma scan_u_rest: "scan_u s = Inr (x, r) \<Longrightarrow> r = drop 4 s \<or> r = drop 10 s"
  by (auto simp: scan_u_def split: list.splits option.splits if_splits)

lemma scan_u_brackets: "scan_u s = Inr (x, r) \<Longrightarrow> brackets r \<le> brackets s"
  using scan_u_rest brackets_drop by blast

lemma scan_char_brackets: "scan_char c s = Inr (x, r) \<Longrightarrow> brackets r \<le> brackets s"
  by (auto simp: scan_char_def brackets_Cons dest!: scan_u_brackets split: list.splits option.splits if_splits)

lemma scan_string_brackets: "scan_string s = Inr (x, r) \<Longrightarrow> brackets r \<le> brackets s"
proof (induction s arbitrary: x r rule: scan_string.induct)
  case (2 c q)
  show ?case
  proof (cases "c = 34")
    case True
    then show ?thesis using 2(2) by (simp add: brackets_Cons)
  next
    case False
    obtain y q' xs where s: "scan_char c q = Inr (y, q')" "scan_string q' = Inr (xs, r)"
      using 2(2) False by (auto simp: rbind_Inr_iff split: sum.splits prod.splits)
    have "brackets r \<le> brackets q'" using 2(1)[OF False s(1)] s(2) by blast
    then show ?thesis using scan_char_brackets[OF s(1)] brackets_le_Cons[of q c] by linarith
  qed
qed simp

lemma scan_int_brackets: "scan_int s = Some (ds, r) \<Longrightarrow> brackets r \<le> brackets s"
  using brackets_drop[of 1 s] brackets_dropWhile[of is_digit s]
  by (auto simp: scan_int_def Let_def split: list.splits if_splits)

lemma scan_frac_brackets: "scan_frac s = Some (ds, r) \<Longrightarrow> brackets r \<le> brackets s"
  by (cases s) (auto simp: scan_frac_def Let_def brackets_Cons
      intro: brackets_dropWhile le_SucI split: if_splits)

lemma sign_of_brackets: "sign_of s = (b, r) \<Longrightarrow> brackets r \<le> brackets s"
  by (auto simp: sign_of_def brackets_Cons split: list.splits if_splits)

lemma scan_exponent_brackets: "scan_exponent s = Some (x, r) \<Longrightarrow> brackets r \<le> brackets s"
  by (cases s) (auto simp: scan_exponent_def Let_def brackets_Cons split: if_splits prod.splits
      dest!: sign_of_brackets intro: order_trans[OF brackets_dropWhile] le_SucI)

lemma scan_number_brackets: "scan_number s = Inr (v, r) \<Longrightarrow> brackets r \<le> brackets s"
proof -
  assume a: "scan_number s = Inr (v, r)"
  obtain neg t where nt: "(case s of c # r \<Rightarrow> if c = 45 then (True, r) else (False, s) | [] \<Rightarrow> (False, s)) = (neg, t)"
    by (meson surj_pair)
  then have t: "brackets t \<le> brackets s" by (auto simp: brackets_Cons split: list.splits if_splits)
  obtain ds r0 where r0: "scan_int t = Some (ds, r0)"
    using a nt by (cases "scan_int t") (auto simp: scan_number_def)
  have "brackets r \<le> brackets r0"
    using a nt r0
    by (auto simp: scan_number_def Let_def split: option.splits prod.splits if_splits
        dest!: scan_frac_brackets scan_exponent_brackets)
  then show ?thesis using scan_int_brackets[OF r0] t by linarith
qed

lemma scan_atom_brackets: "scan_atom h s = Inr (v, r) \<Longrightarrow> brackets r \<le> brackets s"
  by (auto simp: scan_atom_def keyword_def result_simps brackets_drop split: option.splits if_splits
      dest: scan_number_brackets)

lemma scan_brackets:
  "scan_value h n s = Inr (v, r) \<Longrightarrow> brackets r \<le> brackets s"
  "scan_items h n s = Inr (vs, r) \<Longrightarrow> brackets r \<le> brackets s"
  "scan_pairs h n s = Inr (ps, r) \<Longrightarrow> brackets r \<le> brackets s"
proof (induction h n s and h n s and h n s arbitrary: v r and vs r and ps r
    rule: scan_value_scan_items_scan_pairs.induct)
  case (2 h n s)
  then obtain c q where s: "s = c # q" by (cases s) auto
  note k = brackets_le_Cons[of q c]
  consider "c = 34" | "c = 123 \<or> c = 91" | "c \<noteq> 34" "c \<noteq> 123" "c \<noteq> 91" by blast
  then show ?case
  proof cases
    case 1
    then obtain t where "scan_string q = Inr (t, r)" using 2(3) s by (auto simp: rbind_Inr_iff)
    then show ?thesis using scan_string_brackets k s by (metis order_trans)
  next
    case c: 2
    then obtain d q' where q: "skip_ws q = d # q'" using 2(3) s by (cases "skip_ws q") auto
    note q' = brackets_skip_ws[of q, unfolded q] brackets_le_Cons[of q' d]
    have "brackets r \<le> brackets (d # q')"
      using c
    proof
      assume "c = 123"
      then show ?thesis using 2(3) s q 2(1)[OF s _ _ q] q'(2) by (cases "d = 125") (auto simp: rbind_Inr_iff)
    next
      assume "c = 91"
      then show ?thesis using 2(3) s q 2(2)[OF s _ _ _ q] q'(2) by (cases "d = 93") (auto simp: rbind_Inr_iff)
    qed
    then show ?thesis using q'(1) k s by simp
  next
    case 3
    then show ?thesis using 2(3) s by (auto dest: scan_atom_brackets)
  qed
next
  case (4 h n s)
  obtain v q where v: "scan_value h n s = Inr (v, q)" using 4(3) by (auto simp: rbind_Inr_iff)
  obtain c q' where q': "skip_ws q = c # q'" using 4(3) v by (cases "skip_ws q") auto
  have l: "brackets q \<le> brackets s" "brackets q' \<le> brackets q" using 4(1)[OF v] brackets_skipped[OF q'] by auto
  show ?case
  proof (cases "c = 44")
    case True
    then obtain vs' where "scan_items h n (skip_ws q') = Inr (vs', r)" using 4(3) v q' by (auto simp: rbind_Inr_iff)
    then have "brackets r \<le> brackets (skip_ws q')" using 4(2)[OF q' True] by blast
    then show ?thesis using l brackets_skip_ws[of q'] by linarith
  next
    case False
    then show ?thesis using 4(3) v q' l by (auto split: if_splits)
  qed
next
  case (6 h n s)
  then obtain q where s: "s = 34 # q" by (cases s) (auto split: if_splits)
  then obtain k r1 where k: "scan_string q = Inr (k, r1)" using 6(3) by (auto simp: rbind_Inr_iff)
  obtain r2 where r2: "skip_ws r1 = 58 # r2" using 6(3) s k by (auto split: list.splits if_splits)
  obtain v r3 where v: "scan_value h n (skip_ws r2) = Inr (v, r3)" using 6(3) s k r2 by (auto simp: rbind_Inr_iff)
  obtain e r4 where r4: "skip_ws r3 = e # r4" using 6(3) s k r2 v by (auto split: list.splits)
  have lv: "brackets r3 \<le> brackets (skip_ws r2)" using 6(1) s k r2 v by fastforce
  note l = scan_string_brackets[OF k] brackets_skipped[OF r2] brackets_skip_ws[of r2] brackets_skipped[OF r4]
    brackets_skip_ws[of r4] lv brackets_le_Cons[of q 34]
  show ?case
  proof (cases "e = 44")
    case True
    then obtain ps' where "scan_pairs h n (skip_ws r4) = Inr (ps', r)"
      using 6(3) s k r2 v r4 by (auto simp: rbind_Inr_iff)
    then have "brackets r \<le> brackets (skip_ws r4)" using 6(2) s k r2 v r4 True by fastforce
    then show ?thesis using l unfolding s by linarith
  next
    case False
    then show ?thesis using 6(3) s k r2 v r4 l by (auto split: if_splits)
  qed
qed auto

section \<open>The two readers\<close>

definition items_depth :: "json list \<Rightarrow> nat" where
  "items_depth xs = foldr (\<lambda>x. max (json_depth x)) xs 0"

definition pairs_depth :: "jobj \<Rightarrow> nat" where
  "pairs_depth d = foldr (\<lambda>(k, v). max (json_depth v)) d 0"

lemma depth_simps [simp]: "items_depth [] = 0" "items_depth (x # xs) = max (json_depth x) (items_depth xs)"
  "pairs_depth [] = 0" "pairs_depth (p # d) = max (json_depth (snd p)) (pairs_depth d)"
  "json_depth (JList xs) = Suc (items_depth xs)" "json_depth (JObj d) = Suc (pairs_depth d)"
  by (simp_all add: items_depth_def pairs_depth_def split_def)

declare json_depth.simps(1,2) [simp del]

text \<open>\<open>counted rs d s dep m m'\<close>: in \<open>d\<close> containers and before the text \<open>s\<close>, the counting reader's answer \<open>m\<close> is the
  other's answer \<open>m'\<close>, or \<open>RecursionError\<close> with too many brackets ahead and, if there is a value, too deep a value.\<close>

definition counted ::
  "rooms \<Rightarrow> nat \<Rightarrow> ustr \<Rightarrow> ('a \<Rightarrow> nat) \<Rightarrow> py_exn + 'a \<times> ustr \<Rightarrow> py_exn + 'a \<times> ustr \<Rightarrow> bool" where
  "counted rs d s dep m m' \<longleftrightarrow> m = m' \<or> m = Inl RecursionError \<and> scan_room rs < d + brackets s
     \<and> (\<forall>x r. m' = Inr (x, r) \<longrightarrow> scan_room rs < d + dep x)"

lemma counted_refl [simp]: "counted rs d s dep m m"
  by (simp add: counted_def)

lemma counted_bind:
  assumes "counted rs d s dep m m'" "d + brackets s \<le> d0 + brackets s0"
    "\<And>x r y q. m' = Inr (x, r) \<Longrightarrow> f' (x, r) = Inr (y, q) \<Longrightarrow> d + dep x \<le> d0 + dep0 y"
    "\<And>x r. m' = Inr (x, r) \<Longrightarrow> counted rs d0 s0 dep0 (f (x, r)) (f' (x, r))"
  shows "counted rs d0 s0 dep0 (rbind m f) (rbind m' f')"
proof (cases "m = m'")
  case True
  then show ?thesis using assms(4) by (cases m') auto
next
  case False
  then have m: "m = Inl RecursionError" "scan_room rs < d + brackets s"
    "\<And>x r. m' = Inr (x, r) \<Longrightarrow> scan_room rs < d + dep x"
    using assms(1) by (auto simp: counted_def)
  have "scan_room rs < d0 + dep0 y" if y: "rbind m' f' = Inr (y, q)" for y q
  proof -
    obtain x r where x: "m' = Inr (x, r)" "f' (x, r) = Inr (y, q)" using y by (cases m') auto
    show ?thesis using m(3)[OF x(1)] assms(3)[OF x] by linarith
  qed
  then show ?thesis using m assms(2) by (auto simp: counted_def)
qed

lemma counted_hooked:
  assumes "d \<le> d0 + brackets s0" "\<And>v. m' = Inr v \<Longrightarrow> d \<le> d0 + dep0 v"
  shows "counted rs d0 s0 dep0 (rbind (hooked rs d m') (\<lambda>v. Inr (v, r))) (rbind m' (\<lambda>v. Inr (v, r)))"
proof (cases "rm_hook rs < d")
  case True
  then have "scan_room rs < d" by (simp add: scan_room_def)
  then show ?thesis using assms True
    by (fastforce simp: counted_def hooked_def rbind_Inr_iff)
qed (simp add: hooked_def)

lemma counted_denied:
  assumes "rm_scan rs \<le> d" "0 < brackets s" "\<And>v r. m' = Inr (v, r) \<Longrightarrow> 0 < dep v"
  shows "counted rs d s dep (Inl RecursionError) m'"
proof -
  have "scan_room rs \<le> d" using assms(1) by (simp add: scan_room_def)
  then show ?thesis using assms(2,3) by (fastforce simp: counted_def)
qed

lemma counted_atom: "counted rs d s json_depth (scan_atom (hooks_at rs d h) s) (scan_atom h s)"
  by (auto simp: scan_atom_def hooks_at_def split: option.splits intro!: counted_hooked)

text \<open>Hooks that keep the object.\<close>

definition keeps_pairs :: "json_hooks \<Rightarrow> bool" where
  "keeps_pairs h \<longleftrightarrow> (\<forall>ps v. pairs_hook h ps = Inr v \<longrightarrow> v = JObj ps)"

lemma scan_counted:
  "keeps_pairs h \<Longrightarrow> counted rs d s json_depth (scan_value_in rs d h n s) (scan_value h n s)"
  "keeps_pairs h \<Longrightarrow> counted rs d s items_depth (scan_items_in rs d h n s) (scan_items h n s)"
  "keeps_pairs h \<Longrightarrow> counted rs d s pairs_depth (scan_pairs_in rs d h n s) (scan_pairs h n s)"
proof (induction rs d h n s and rs d h n s and rs d h n s rule: scan_value_in_scan_items_in_scan_pairs_in.induct)
  case (2 rs d h n s)
  note keep = 2(3)[unfolded keeps_pairs_def, rule_format]
  have dep: "0 < json_depth v" if "scan_value h (Suc n) s = Inr (v, t)" "s = c # r" "c = 123 \<or> c = 91" for v t c r
    using that by (auto simp: rbind_Inr_iff dest!: keep split: list.splits if_splits)
  show ?case
  proof (cases s)
    case (Cons c r)
    consider "c = 34" | "c = 123 \<or> c = 91" "rm_scan rs \<le> d" | "c = 123 \<or> c = 91" "skip_ws r = []"
      | e r' where "c = 123" "\<not> rm_scan rs \<le> d" "skip_ws r = e # r'"
      | e r' where "c = 91" "\<not> rm_scan rs \<le> d" "skip_ws r = e # r'"
      | "c \<noteq> 34" "c \<noteq> 123" "c \<noteq> 91" by (metis list.exhaust)
    then show ?thesis
    proof cases
      case 2
      then have "counted rs d s json_depth (Inl RecursionError) (scan_value h (Suc n) s)"
        using dep Cons by (intro counted_denied) (auto simp: brackets_Cons)
      then show ?thesis using 2 Cons by auto
    next
      case 3
      then show ?thesis using Cons by (auto simp: counted_def brackets_Cons scan_room_def)
    next
      case 4
      have b: "Suc d + brackets (e # r') \<le> d + brackets s"
        using brackets_skip_ws[of r] 4 Cons by (simp add: brackets_Cons)
      have hook: "counted rs d s json_depth (rbind (hooked rs (Suc d) (pairs_hook h ps)) (\<lambda>v. Inr (v, t)))
          (rbind (pairs_hook h ps) (\<lambda>v. Inr (v, t)))" for ps t
        using b by (intro counted_hooked) (auto dest: keep)
      have "counted rs d s json_depth
          (rbind (scan_pairs_in rs (Suc d) h n (e # r')) (\<lambda>(ps, t). rbind (hooked rs (Suc d) (pairs_hook h ps)) (\<lambda>v. Inr (v, t))))
          (rbind (scan_pairs h n (e # r')) (\<lambda>(ps, t). rbind (pairs_hook h ps) (\<lambda>v. Inr (v, t))))" if "e \<noteq> 125"
        using 2(1)[of c r] 2(3) Cons 4 that b hook
        by (intro counted_bind[of rs "Suc d" "e # r'" pairs_depth]) (auto simp: rbind_Inr_iff dest!: keep)
      then show ?thesis using Cons 4 hook by (simp add: hooks_at_def)
    next
      case 5
      have b: "Suc d + brackets (e # r') \<le> d + brackets s"
        using brackets_skip_ws[of r] 5 Cons by (simp add: brackets_Cons)
      have "counted rs d s json_depth
          (rbind (scan_items_in rs (Suc d) h n (e # r')) (\<lambda>(vs, t). Inr (JList vs, t)))
          (rbind (scan_items h n (e # r')) (\<lambda>(vs, t). Inr (JList vs, t)))" if "e \<noteq> 93"
        using 2(2)[of c r] 2(3) Cons 5 that b
        by (intro counted_bind[of rs "Suc d" "e # r'" items_depth]) auto
      then show ?thesis using Cons 5 by simp
    qed (use Cons counted_atom in auto)
  qed simp
next
  case (4 rs d h n s)
  have m: "brackets q \<le> brackets s" if "scan_value h n s = Inr (v, q)" for v q using scan_brackets(1)[OF that] .
  have rest: "counted rs d s items_depth (rbind (scan_items_in rs d h n (skip_ws r')) (\<lambda>(vs, t). Inr (v # vs, t)))
      (rbind (scan_items h n (skip_ws r')) (\<lambda>(vs, t). Inr (v # vs, t)))"
    if "scan_value h n s = Inr (v, r)" "skip_ws r = 44 # r'" for v r r'
  proof -
    have "brackets (skip_ws r') \<le> brackets s"
      using m[OF that(1)] brackets_skipped[OF that(2)] brackets_skip_ws[of r'] by linarith
    moreover have "counted rs d (skip_ws r') items_depth (scan_items_in rs d h n (skip_ws r')) (scan_items h n (skip_ws r'))"
      using 4(2) 4(3) that by auto
    ultimately show ?thesis by (intro counted_bind[of rs d "skip_ws r'" items_depth]) auto
  qed
  show ?case unfolding scan_items_in.simps scan_items.simps
    by (intro counted_bind[OF 4(1)[OF 4(3)]]) (auto simp: rest rbind_Inr_iff split: list.splits if_splits)
next
  case (6 rs d h n s)
  have val: "counted rs d s pairs_depth
      (rbind (scan_value_in rs d h n (skip_ws r2)) f) (rbind (scan_value h n (skip_ws r2)) f')"
    if "s = 34 # q" "scan_string q = Inr (k, r1)" "skip_ws r1 = 58 # r2"
      "\<And>v r3 ps t. scan_value h n (skip_ws r2) = Inr (v, r3) \<Longrightarrow> f' (v, r3) = Inr (ps, t) \<Longrightarrow> json_depth v \<le> pairs_depth ps"
      "\<And>v r3. scan_value h n (skip_ws r2) = Inr (v, r3) \<Longrightarrow> counted rs d s pairs_depth (f (v, r3)) (f' (v, r3))"
    for q k r1 r2 f f'
  proof -
    have "brackets (skip_ws r2) \<le> brackets s"
      using scan_string_brackets[OF that(2)] brackets_skipped[OF that(3)] brackets_skip_ws[of r2] brackets_le_Cons[of q 34]
      unfolding that(1) by linarith
    moreover have "counted rs d (skip_ws r2) json_depth (scan_value_in rs d h n (skip_ws r2)) (scan_value h n (skip_ws r2))"
      using 6(1) 6(3) that(1-3) by auto
    ultimately show ?thesis using that(4,5) by (intro counted_bind[of rs d "skip_ws r2" json_depth]) auto
  qed
  have rest: "counted rs d s pairs_depth (rbind (scan_pairs_in rs d h n (skip_ws r4)) (\<lambda>(ps, t). Inr ((k, v) # ps, t)))
      (rbind (scan_pairs h n (skip_ws r4)) (\<lambda>(ps, t). Inr ((k, v) # ps, t)))"
    if "s = 34 # q" "scan_string q = Inr (k, r1)" "skip_ws r1 = 58 # r2" "scan_value h n (skip_ws r2) = Inr (v, r3)"
      "skip_ws r3 = 44 # r4" for q k r1 r2 v r3 r4
  proof -
    have "brackets (skip_ws r4) \<le> brackets s"
      using scan_string_brackets[OF that(2)] brackets_skipped[OF that(3)] brackets_skip_ws[of r2] brackets_le_Cons[of q 34]
        scan_brackets(1)[OF that(4)] brackets_skipped[OF that(5)] brackets_skip_ws[of r4] unfolding that(1) by linarith
    moreover have "counted rs d (skip_ws r4) pairs_depth (scan_pairs_in rs d h n (skip_ws r4)) (scan_pairs h n (skip_ws r4))"
      using 6(2) 6(3) that by auto
    ultimately show ?thesis by (intro counted_bind[of rs d "skip_ws r4" pairs_depth]) auto
  qed
  show ?case
  proof (cases "\<exists>q k r1 r2. s = 34 # q \<and> scan_string q = Inr (k, r1) \<and> skip_ws r1 = 58 # r2")
    case True
    then obtain q k r1 r2 where s: "s = 34 # q" "scan_string q = Inr (k, r1)" "skip_ws r1 = 58 # r2" by blast
    have i: "scan_pairs_in rs d h (Suc n) s = rbind (scan_value_in rs d h n (skip_ws r2)) (\<lambda>(v, r3). case skip_ws r3 of
        e # r4 \<Rightarrow>
          if e = 44 then rbind (scan_pairs_in rs d h n (skip_ws r4)) (\<lambda>(ps, t). Inr ((k, v) # ps, t))
          else if e = 125 then Inr ([(k, v)], r4)
          else Inl JSONDecodeError
      | [] \<Rightarrow> Inl JSONDecodeError)"
      using s by simp
    have j: "scan_pairs h (Suc n) s = rbind (scan_value h n (skip_ws r2)) (\<lambda>(v, r3). case skip_ws r3 of
        e # r4 \<Rightarrow>
          if e = 44 then rbind (scan_pairs h n (skip_ws r4)) (\<lambda>(ps, t). Inr ((k, v) # ps, t))
          else if e = 125 then Inr ([(k, v)], r4)
          else Inl JSONDecodeError
      | [] \<Rightarrow> Inl JSONDecodeError)"
      using s by simp
    show ?thesis unfolding i j
      by (rule val[OF s]) (auto simp: rbind_Inr_iff rest[OF s] split: list.splits if_splits)
  next
    case False
    then have "scan_pairs_in rs d h (Suc n) s = scan_pairs h (Suc n) s"
      by (cases s) (auto simp: rbind_def split: sum.splits list.splits)
    then show ?thesis by simp
  qed
qed simp_all

lemma loads_in_facts:
  assumes "keeps_pairs h"
  shows "loads_in rs h s = loads h s
    \<or> loads_in rs h s = Inl RecursionError \<and> scan_room rs < brackets s \<and> (\<forall>v. loads h s = Inr v \<longrightarrow> scan_room rs < json_depth v)"
proof (cases "py_startswith s [65279]")
  case False
  let ?n = "2 * length s + 2"
  have c: "counted rs 0 (skip_ws s) json_depth (scan_value_in rs 0 h ?n (skip_ws s)) (scan_value h ?n (skip_ws s))"
    by (rule scan_counted(1)[OF assms])
  show ?thesis
  proof (cases "scan_value_in rs 0 h ?n (skip_ws s) = scan_value h ?n (skip_ws s)")
    case True
    then show ?thesis using False unfolding loads_in_def loads_def by (simp only: True if_False) simp
  next
    case ne: False
    then have "scan_value_in rs 0 h ?n (skip_ws s) = Inl RecursionError" "scan_room rs < brackets (skip_ws s)"
      "\<And>v r. scan_value h ?n (skip_ws s) = Inr (v, r) \<Longrightarrow> scan_room rs < json_depth v"
      using c by (auto simp: counted_def simp del: scan_value_in.simps scan_value.simps)
    then show ?thesis using False brackets_skip_ws[of s] unfolding loads_in_def loads_def
      by (auto simp: rbind_Inr_iff simp del: scan_value_in.simps scan_value.simps split: if_splits)
  qed
qed (simp add: loads_in_def loads_def)

lemma strict_keeps: "keeps_pairs (strict_hooks e f)"
proof -
  have "unique_pairs e acc ps = Inr v \<Longrightarrow> v = JObj (acc @ ps)" for acc ps v
    by (induction e acc ps rule: unique_pairs.induct) (auto split: if_splits)
  then show ?thesis by (auto simp: keeps_pairs_def strict_hooks_def)
qed

text \<open>A concrete overflow: one bracket more than there is room.\<close>

lemma loads_in_brackets: "loads_in rs h (replicate (Suc (rm_scan rs)) 91) = Inl RecursionError"
proof -
  have sk: "skip_ws (91 # s) = 91 # s" for s by (simp add: skip_ws_def json_ws_def)
  have v: "scan_value_in rs d h n (replicate (Suc (rm_scan rs - d)) 91) = Inl RecursionError"
    if "d \<le> rm_scan rs" "2 * (rm_scan rs - d) < n" for d n
    using that
  proof (induction "rm_scan rs - d" arbitrary: d n)
    case 0
    then show ?case by (cases n) auto
  next
    case (Suc k)
    then obtain m where m: "n = Suc (Suc m)" by (metis less_natE mult_2 add_Suc_right add_Suc)
    have e: "rm_scan rs - d = Suc (rm_scan rs - Suc d)" "\<not> rm_scan rs \<le> d" using Suc(2) by auto
    have "scan_value_in rs (Suc d) h m (replicate (Suc (rm_scan rs - Suc d)) 91) = Inl RecursionError"
      using Suc(1)[of "Suc d" m] Suc(2,3,4) m by simp
    then show ?case unfolding m e by (simp add: sk e(2))
  qed
  have "scan_value_in rs 0 h (2 * Suc (rm_scan rs) + 2) (replicate (Suc (rm_scan rs)) 91) = Inl RecursionError"
    using v[of 0 "2 * Suc (rm_scan rs) + 2"] by simp
  moreover have "skip_ws (replicate (Suc (rm_scan rs)) 91) = replicate (Suc (rm_scan rs)) 91" by (simp add: sk)
  moreover have "\<not> py_startswith (replicate (Suc (rm_scan rs)) (91::nat)) [65279]" by simp
  ultimately show ?thesis unfolding loads_in_def
    by (simp del: scan_value_in.simps replicate.simps py_startswith.simps)
qed

end
