(* ===== verification/Config.thy ===== *)
theory Config
  imports CacheDoc NtPath JsonDepth
begin

text \<open>
  \<open>config.py\<close>: the local configuration, from its bytes to the validated \<open>local_config\<close>.

  \<^item> A value is read as JSON; what may be of any type in Python is a \<open>json\<close> value here.
  \<^item> \<open>local_config\<close> is \<open>LocalConfig.from_mapping\<close>; its flag says whether the caller passes a set for the provider
    errors, and the set is part of the result.
  \<^item> The credential-like keys are searched for with the patterns of \<open>CacheDoc\<close>.
  \<^item> The recursion limit of the interpreter is the \<open>rooms\<close> of \<open>JsonDepth\<close>: for the reader and for the walk over the keys.
\<close>

section \<open>Values\<close>

definition float_const :: "nat \<Rightarrow> pyfloat" where
  "float_const n = float_of False n 1"

definition default_timeout :: pyfloat where "default_timeout = float_const 7"
definition max_codex_timeout :: int where "max_codex_timeout = 120"
definition max_opencode_timeout :: int where "max_opencode_timeout = 10"
definition default_deadline :: pyfloat where "default_deadline = float_const 7"
definition min_deadline :: int where "min_deadline = 1"
definition max_deadline :: int where "max_deadline = 120"

definition credential_words :: "string list" where
  "credential_words = [''auth.cookie'', ''cookie'', ''token'', ''password'', ''secret'', ''credential'', ''api.key'',
     ''authorization'']"

definition credential_key :: "ustr \<Rightarrow> bool" where
  "credential_key s = list_ex (\<lambda>w. pat_search (word w) s) credential_words"

fun credential_free :: "json \<Rightarrow> bool" where
  "credential_free (JObj d) = list_all (\<lambda>(k, v). \<not> credential_key k \<and> credential_free v) d"
| "credential_free (JList xs) = list_all credential_free xs"
| "credential_free _ = True"

text \<open>\<open>_reject_credential_keys\<close>: \<open>n\<close> is how many levels below this call the walk may still enter.\<close>

fun reject_credential_keys :: "nat \<Rightarrow> json \<Rightarrow> py_exn + unit" where
  "reject_credential_keys n (JObj d) =
     rbind (rmap (\<lambda>(k, v).
       if credential_key k then Inl (ConfigError ''credential-like configuration is not accepted'')
       else (case n of 0 \<Rightarrow> Inl RecursionError | Suc m \<Rightarrow> reject_credential_keys m v)) d) (\<lambda>_. Inr ())"
| "reject_credential_keys n (JList xs) =
     rbind (rmap (\<lambda>v. case n of 0 \<Rightarrow> Inl RecursionError | Suc m \<Rightarrow> reject_credential_keys m v) xs) (\<lambda>_. Inr ())"
| "reject_credential_keys n _ = Inr ()"

definition config_mapping :: "json \<Rightarrow> py_exn + jobj" where
  "config_mapping v = (case v of JObj d \<Rightarrow> Inr d | _ \<Rightarrow> Inl (ConfigError ''provider configuration must be an object''))"

definition config_fields :: "string list \<Rightarrow> jobj \<Rightarrow> py_exn + unit" where
  "config_fields allowed d =
     (if list_all (\<lambda>(k, _). k \<in> set (map u allowed)) d then Inr ()
      else Inl (ConfigError ''unsupported provider configuration field''))"

text \<open>\<open>float(value)\<close> of a JSON number; \<open>None\<close> for the other types (bool included).\<close>

definition number_of :: "json \<Rightarrow> (py_exn + pyfloat) option" where
  "number_of v = (case v of JInt i \<Rightarrow> Some (float_of_int i) | JFloat f \<Rightarrow> Some (Inr f) | _ \<Rightarrow> None)"

definition config_timeout :: "json \<Rightarrow> int \<Rightarrow> py_exn + pyfloat" where
  "config_timeout v maximum =
     (case number_of v of
        Some (Inr f) \<Rightarrow>
          if \<not> float_finite f \<or> \<not> float_gt_int f 0 \<or> float_gt_int f maximum
          then Inl (ConfigError ''invalid timeout_seconds'') else Inr f
      | _ \<Rightarrow> Inl (ConfigError ''invalid timeout_seconds''))"

definition config_deadline :: "json \<Rightarrow> py_exn + pyfloat" where
  "config_deadline v =
     (case number_of v of
        Some (Inr f) \<Rightarrow>
          if \<not> float_finite f \<or> float_less_int f min_deadline \<or> float_gt_int f max_deadline
          then Inl (ConfigError ''invalid deadline_seconds'') else Inr f
      | _ \<Rightarrow> Inl (ConfigError ''invalid deadline_seconds''))"

definition fully_qualified :: "ustr \<Rightarrow> bool" where
  "fully_qualified s =
     (let (drive, tail) = splitdrive s;
          parts = (if py_startswith s [bs, bs] then py_split bs (drop 2 s) else []) in
      length drive = 2 \<and> drive ! 1 = 58 \<and> take 1 tail \<in> {[bs], [47]}
      \<or> 2 \<le> length parts \<and> parts ! 0 \<noteq> [] \<and> parts ! 1 \<noteq> [])"

definition config_runner :: "json \<Rightarrow> bool \<Rightarrow> py_exn + ustr option" where
  "config_runner v enabled = (case v of
     JNull \<Rightarrow> if enabled then Inl (ConfigError ''enabled Codex requires an absolute runner'') else Inr None
   | JStr s \<Rightarrow> if s = [] \<or> \<not> fully_qualified s then Inl (ConfigError ''Codex runner must be fully qualified'')
              else Inr (Some s)
   | _ \<Rightarrow> Inl (ConfigError ''Codex runner must be fully qualified''))"

definition config_enabled :: "json \<Rightarrow> py_exn + bool" where
  "config_enabled v = (case v of JBool b \<Rightarrow> Inr b | _ \<Rightarrow> Inl (ConfigError ''enabled must be a boolean''))"

text \<open>\<open>fields.get(k, default)\<close>.\<close>

definition get_or :: "string \<Rightarrow> json \<Rightarrow> jobj \<Rightarrow> json" where
  "get_or k v d = (case dict_get (u k) d of Some x \<Rightarrow> x | None \<Rightarrow> v)"

section \<open>The configuration\<close>

record codex_config =
  cx_enabled :: bool
  cx_runner :: "ustr option"
  cx_timeout :: pyfloat

definition mk_codex_config :: "json \<Rightarrow> json \<Rightarrow> json \<Rightarrow> py_exn + codex_config" where
  "mk_codex_config enabled runner timeout =
     rbind (config_enabled enabled) (\<lambda>e.
     rbind (config_runner runner e) (\<lambda>r.
     rbind (config_timeout timeout max_codex_timeout) (\<lambda>t.
     Inr \<lparr>cx_enabled = e, cx_runner = r, cx_timeout = t\<rparr>)))"

definition default_codex :: codex_config where
  "default_codex = \<lparr>cx_enabled = False, cx_runner = None, cx_timeout = default_timeout\<rparr>"

definition timeout_present :: "jobj \<Rightarrow> int \<Rightarrow> py_exn + unit" where
  "timeout_present d maximum = (case dict_get (u ''timeout_seconds'') d of
     Some v \<Rightarrow> rbind (config_timeout v maximum) (\<lambda>_. Inr ()) | None \<Rightarrow> Inr ())"

definition codex_from_mapping :: "json \<Rightarrow> py_exn + codex_config" where
  "codex_from_mapping v =
     rbind (config_mapping v) (\<lambda>d.
     rbind (config_fields [''enabled'', ''runner'', ''timeout_seconds''] d) (\<lambda>_.
     rbind (timeout_present d max_codex_timeout) (\<lambda>_.
     mk_codex_config (get_or ''enabled'' (JBool False) d) (get_or ''runner'' JNull d)
       (get_or ''timeout_seconds'' (JFloat default_timeout) d))))"

record opencode_config =
  oc_enabled :: bool
  oc_timeout :: pyfloat

definition mk_opencode_config :: "json \<Rightarrow> json \<Rightarrow> py_exn + opencode_config" where
  "mk_opencode_config enabled timeout =
     rbind (config_enabled enabled) (\<lambda>e.
     rbind (config_timeout timeout max_opencode_timeout) (\<lambda>t.
     Inr \<lparr>oc_enabled = e, oc_timeout = t\<rparr>))"

definition default_opencode :: opencode_config where
  "default_opencode = \<lparr>oc_enabled = False, oc_timeout = default_timeout\<rparr>"

definition opencode_from_mapping :: "json \<Rightarrow> py_exn + opencode_config" where
  "opencode_from_mapping v =
     rbind (config_mapping v) (\<lambda>d.
     rbind (config_fields [''enabled'', ''timeout_seconds''] d) (\<lambda>_.
     rbind (timeout_present d max_opencode_timeout) (\<lambda>_.
     mk_opencode_config (get_or ''enabled'' (JBool False) d) (get_or ''timeout_seconds'' (JFloat default_timeout) d))))"

record local_config =
  lc_codex :: codex_config
  lc_opencode :: opencode_config
  lc_deadline :: pyfloat

definition mk_local_config :: "codex_config \<Rightarrow> opencode_config \<Rightarrow> json \<Rightarrow> py_exn + local_config" where
  "mk_local_config c g dl =
     rbind (config_deadline dl) (\<lambda>t. Inr \<lparr>lc_codex = c, lc_opencode = g, lc_deadline = t\<rparr>)"

text \<open>A provider that fails is replaced by its default and noted, when errors are collected.\<close>

definition collected :: "bool \<Rightarrow> provider_key \<Rightarrow> 'a \<Rightarrow> py_exn + 'a \<Rightarrow> py_exn + 'a \<times> provider_key list" where
  "collected collect p dflt m = (case m of
     Inr x \<Rightarrow> Inr (x, [])
   | Inl (ConfigError msg) \<Rightarrow> if collect then Inr (dflt, [p]) else Inl (ConfigError msg)
   | Inl e \<Rightarrow> Inl e)"

definition config_from_mapping :: "nat \<Rightarrow> bool \<Rightarrow> json \<Rightarrow> py_exn + local_config \<times> provider_key list" where
  "config_from_mapping room collect v =
     rbind (reject_credential_keys room v) (\<lambda>_.
     rbind (config_mapping v) (\<lambda>d.
     rbind (config_fields [''deadline_seconds'', ''codex'', ''opencode_go''] d) (\<lambda>_.
     rbind (collected collect Codex default_codex (codex_from_mapping (get_or ''codex'' (JObj []) d))) (\<lambda>(c, e1).
     rbind (collected collect OpencodeGo default_opencode (opencode_from_mapping (get_or ''opencode_go'' (JObj []) d))) (\<lambda>(g, e2).
     rbind (mk_local_config c g (get_or ''deadline_seconds'' (JFloat default_deadline) d)) (\<lambda>l.
     Inr (l, e1 @ e2)))))))"

definition is_ConfigError :: "py_exn \<Rightarrow> bool" where
  "is_ConfigError e = (case e of ConfigError _ \<Rightarrow> True | _ \<Rightarrow> False)"

definition config_hooks :: json_hooks where
  "config_hooks = strict_hooks (ConfigError ''duplicate configuration key'') (ConfigError ''non-finite configuration number'')"

text \<open>The \<open>except\<close> clauses around the reading.\<close>

definition config_read_error :: "py_exn \<Rightarrow> py_exn" where
  "config_read_error e =
     (if is_ConfigError e then e
      else if e = UnicodeError then ConfigError ''undecodable local configuration''
      else if is_ValueError e \<or> is_TypeError e then ConfigError ''malformed local configuration''
      else e)"

definition validate_config_document :: "rooms \<Rightarrow> bool \<Rightarrow> bytes \<Rightarrow> py_exn + local_config \<times> provider_key list" where
  "validate_config_document rs collect raw =
     (case rbind (utf8_decode raw) (loads_in rs config_hooks) of
        Inl e \<Rightarrow> Inl (config_read_error e)
      | Inr v \<Rightarrow> config_from_mapping (rm_walk rs) collect v)"

text \<open>\<open>ConfigSnapshot\<close>.\<close>

record config_snapshot =
  cs_raw :: "bytes option"
  cs_config :: "local_config option"
  cs_errors :: "provider_key list"
  cs_state :: ustr

definition mk_config_snapshot ::
  "bytes option \<Rightarrow> local_config option \<Rightarrow> provider_key list \<Rightarrow> ustr \<Rightarrow> py_exn + config_snapshot" where
  "mk_config_snapshot raw cfg errs st =
     (if st \<noteq> u ''present'' \<and> st \<noteq> u ''absent'' then Inl (ConfigError ''invalid configuration snapshot state'')
      else if st = u ''absent'' \<and> (raw \<noteq> None \<or> cfg \<noteq> None) then Inl (ConfigError ''invalid absent configuration snapshot'')
      else Inr \<lparr>cs_raw = raw, cs_config = cfg, cs_errors = errs, cs_state = st\<rparr>)"

section \<open>What a configuration satisfies\<close>

definition timeout_ok :: "int \<Rightarrow> pyfloat \<Rightarrow> bool" where
  "timeout_ok maximum f \<longleftrightarrow> float_finite f \<and> float_gt_int f 0 \<and> \<not> float_gt_int f maximum"

definition codex_ok :: "codex_config \<Rightarrow> bool" where
  "codex_ok c \<longleftrightarrow> timeout_ok max_codex_timeout (cx_timeout c) \<and> (cx_enabled c \<longrightarrow> cx_runner c \<noteq> None)
     \<and> (\<forall>r. cx_runner c = Some r \<longrightarrow> fully_qualified r)"

definition config_ok :: "local_config \<Rightarrow> bool" where
  "config_ok l \<longleftrightarrow> codex_ok (lc_codex l) \<and> timeout_ok max_opencode_timeout (oc_timeout (lc_opencode l))
     \<and> float_finite (lc_deadline l) \<and> \<not> float_less_int (lc_deadline l) min_deadline \<and> \<not> float_gt_int (lc_deadline l) max_deadline"

lemmas [run] = float_const_def default_timeout_def max_codex_timeout_def max_opencode_timeout_def default_deadline_def
  min_deadline_def max_deadline_def credential_words_def credential_key_def config_mapping_def
  config_fields_def number_of_def config_timeout_def config_deadline_def fully_qualified_def config_runner_def
  config_enabled_def get_or_def mk_codex_config_def default_codex_def timeout_present_def codex_from_mapping_def
  mk_opencode_config_def default_opencode_def opencode_from_mapping_def mk_local_config_def collected_def
  config_from_mapping_def is_ConfigError_def config_hooks_def config_read_error_def validate_config_document_def
  mk_config_snapshot_def timeout_ok_def codex_ok_def config_ok_def
  float_of_def scale2_def float_num_def float_of_int_def

lemma config_timeout_ok: "config_timeout v m = Inr f \<Longrightarrow> timeout_ok m f"
  by (auto simp: config_timeout_def timeout_ok_def split: option.splits sum.splits if_splits)

lemma config_runner_ok: "config_runner v e = Inr r \<Longrightarrow> (e \<longrightarrow> r \<noteq> None) \<and> (\<forall>s. r = Some s \<longrightarrow> fully_qualified s)"
  by (auto simp: config_runner_def split: json.splits if_splits)

lemma default_timeout_ok: "timeout_ok max_codex_timeout default_timeout" "timeout_ok max_opencode_timeout default_timeout"
  by (simp_all add: run)

lemma codex_from_mapping_ok: "codex_from_mapping v = Inr c \<Longrightarrow> codex_ok c"
  by (auto simp: codex_from_mapping_def mk_codex_config_def rbind_Inr_iff codex_ok_def
      dest: config_timeout_ok config_runner_ok)

lemma opencode_from_mapping_ok: "opencode_from_mapping v = Inr c \<Longrightarrow> timeout_ok max_opencode_timeout (oc_timeout c)"
  by (auto simp: opencode_from_mapping_def mk_opencode_config_def rbind_Inr_iff dest: config_timeout_ok)

lemma collected_Inr:
  "collected c p d m = Inr (x, e) \<Longrightarrow> (m = Inr x \<and> e = []) \<or> (c \<and> x = d \<and> e = [p] \<and> (\<exists>msg. m = Inl (ConfigError msg)))"
  by (auto simp: collected_def split: sum.splits py_exn.splits if_splits)

lemma rmap_Inl_ex: "rmap f xs = Inl e \<Longrightarrow> \<exists>x \<in> set xs. f x = Inl e"
  by (induction xs) (auto simp: rbind_Inl_iff)

lemma rejected_free: "reject_credential_keys n v = Inr () \<Longrightarrow> credential_free v"
proof (induction n v rule: reject_credential_keys.induct)
  case (1 n d)
  obtain ys where r: "rmap (\<lambda>(k, v). if credential_key k then Inl (ConfigError ''credential-like configuration is not accepted'')
      else (case n of 0 \<Rightarrow> Inl RecursionError | Suc m \<Rightarrow> reject_credential_keys m v)) d = Inr ys"
    using 1(2) by (auto simp: rbind_Inr_iff)
  have "\<not> credential_key k \<and> credential_free w" if "(k, w) \<in> set d" for k w
    using rmap_Inr_all[OF r that] 1(1) by (auto split: if_splits nat.splits)
  then show ?case by (auto simp: list_all_iff)
next
  case (2 n xs)
  obtain ys where r: "rmap (\<lambda>v. case n of 0 \<Rightarrow> Inl RecursionError | Suc m \<Rightarrow> reject_credential_keys m v) xs = Inr ys"
    using 2(2) by (auto simp: rbind_Inr_iff)
  have "credential_free w" if "w \<in> set xs" for w
    using rmap_Inr_all[OF r that] 2(1) by (auto split: nat.splits)
  then show ?case by (auto simp: list_all_iff)
qed simp_all

lemma config_from_mapping_ok:
  assumes "config_from_mapping room collect v = Inr (l, errs)"
  shows "config_ok l \<and> credential_free v \<and> (errs \<noteq> [] \<longrightarrow> collect)
     \<and> (Codex \<in> set errs \<longrightarrow> lc_codex l = default_codex)
     \<and> (OpencodeGo \<in> set errs \<longrightarrow> lc_opencode l = default_opencode) \<and> distinct errs"
proof -
  obtain d c e1 g e2 where s: "credential_free v"
    "collected collect Codex default_codex (codex_from_mapping (get_or ''codex'' (JObj []) d)) = Inr (c, e1)"
    "collected collect OpencodeGo default_opencode (opencode_from_mapping (get_or ''opencode_go'' (JObj []) d)) = Inr (g, e2)"
    "mk_local_config c g (get_or ''deadline_seconds'' (JFloat default_deadline) d) = Inr l" "errs = e1 @ e2"
    using assms by (auto simp: config_from_mapping_def rbind_Inr_iff dest: rejected_free)
  have c: "codex_ok c" using collected_Inr[OF s(2)] codex_from_mapping_ok default_timeout_ok
    by (auto simp: default_codex_def codex_ok_def)
  have g: "timeout_ok max_opencode_timeout (oc_timeout g)"
    using collected_Inr[OF s(3)] opencode_from_mapping_ok default_timeout_ok by (auto simp: default_opencode_def)
  have l: "lc_codex l = c" "lc_opencode l = g" "float_finite (lc_deadline l)"
    "\<not> float_less_int (lc_deadline l) min_deadline" "\<not> float_gt_int (lc_deadline l) max_deadline"
    using s(4) by (auto simp: mk_local_config_def rbind_Inr_iff config_deadline_def split: option.splits sum.splits if_splits)
  show ?thesis using s(1,5) c g l collected_Inr[OF s(2)] collected_Inr[OF s(3)] by (auto simp: config_ok_def)
qed

section \<open>Only configuration errors\<close>

lemma ConfigError_is [simp]: "is_ConfigError (ConfigError m)"
  by (simp add: is_ConfigError_def)

lemma config_part_errors:
  "config_timeout v m = Inl e \<Longrightarrow> is_ConfigError e"
  "config_deadline v = Inl e \<Longrightarrow> is_ConfigError e"
  "config_runner v b = Inl e \<Longrightarrow> is_ConfigError e"
  "config_enabled v = Inl e \<Longrightarrow> is_ConfigError e"
  "config_mapping v = Inl e \<Longrightarrow> is_ConfigError e"
  "config_fields fs d = Inl e \<Longrightarrow> is_ConfigError e"
  by (auto simp: config_timeout_def config_deadline_def config_runner_def config_enabled_def config_mapping_def
      config_fields_def split: option.splits sum.splits json.splits if_splits)

lemma timeout_present_error: "timeout_present d m = Inl e \<Longrightarrow> is_ConfigError e"
  by (auto simp: timeout_present_def rbind_Inl_iff split: option.splits dest: config_part_errors)

lemma provider_config_errors:
  "codex_from_mapping v = Inl e \<Longrightarrow> is_ConfigError e"
  "opencode_from_mapping v = Inl e \<Longrightarrow> is_ConfigError e"
  by (auto simp: codex_from_mapping_def mk_codex_config_def opencode_from_mapping_def mk_opencode_config_def rbind_Inl_iff
      dest: config_part_errors timeout_present_error)

lemma collected_error: "collected c p d m = Inl e \<Longrightarrow> m = Inl e"
  by (auto simp: collected_def split: sum.splits py_exn.splits if_splits)

lemma foldr_max_ge: "x \<in> set xs \<Longrightarrow> f x \<le> foldr (\<lambda>x. max (f x)) xs (0::nat)"
  by (induction xs) auto

lemma member_depth: "w \<in> set xs \<Longrightarrow> json_depth w < json_depth (JList xs)"
  "(k, w) \<in> set d \<Longrightarrow> json_depth w < json_depth (JObj d)"
  using foldr_max_ge[of w xs json_depth] foldr_max_ge[of "(k, w)" d "\<lambda>(k, v). json_depth v"]
  by (auto simp: items_depth_def pairs_depth_def split_def)

lemma reject_error: "reject_credential_keys n v = Inl e \<Longrightarrow> is_ConfigError e \<or> e = RecursionError \<and> n < json_depth v"
proof (induction n v rule: reject_credential_keys.induct)
  case (1 n d)
  have r: "rmap (\<lambda>(k, v). if credential_key k then Inl (ConfigError ''credential-like configuration is not accepted'')
      else (case n of 0 \<Rightarrow> Inl RecursionError | Suc m \<Rightarrow> reject_credential_keys m v)) d = Inl e"
    using 1(2) by (auto simp: rbind_Inl_iff)
  obtain k w where w: "(k, w) \<in> set d"
    "(if credential_key k then Inl (ConfigError ''credential-like configuration is not accepted'')
      else (case n of 0 \<Rightarrow> Inl RecursionError | Suc m \<Rightarrow> reject_credential_keys m w)) = Inl e"
    using rmap_Inl_ex[OF r] by auto
  show ?case
  proof (cases "credential_key k")
    case False
    show ?thesis
    proof (cases n)
      case (Suc m)
      then show ?thesis using 1(1)[OF _ Suc] False w(2) member_depth(2)[OF w(1)] by fastforce
    qed (use w False in auto)
  qed (use w in auto)
next
  case (2 n xs)
  have r: "rmap (\<lambda>v. case n of 0 \<Rightarrow> Inl RecursionError | Suc m \<Rightarrow> reject_credential_keys m v) xs = Inl e"
    using 2(2) by (auto simp: rbind_Inl_iff)
  obtain w where w: "w \<in> set xs" "(case n of 0 \<Rightarrow> Inl RecursionError | Suc m \<Rightarrow> reject_credential_keys m w) = Inl e"
    using rmap_Inl_ex[OF r] by auto
  show ?case
  proof (cases n)
    case (Suc m)
    then show ?thesis using 2(1)[OF Suc] w(2) member_depth(1)[OF w(1)] by fastforce
  qed (use w in auto)
qed simp_all

lemma config_from_mapping_error:
  "config_from_mapping room collect v = Inl e \<Longrightarrow> is_ConfigError e \<or> e = RecursionError \<and> room < json_depth v"
  by (auto simp: config_from_mapping_def mk_local_config_def rbind_Inl_iff
      dest!: collected_error dest: reject_error config_part_errors provider_config_errors)

section \<open>Properties\<close>

definition sample_config :: json where
  "sample_config = JObj [(u ''codex'', JObj [(u ''enabled'', JBool True), (u ''runner'', JStr (u ''C:/codex.exe''))]),
     (u ''opencode_go'', JObj [(u ''enabled'', JInt 1)]), (u ''deadline_seconds'', JInt 9)]"

lemma sample_config_run: "\<exists>l. config_from_mapping 8 True sample_config = Inr (l, [OpencodeGo])"
  by (simp add: run sample_config_def word_def re_fold_def cong: run_cong)

text \<open>C14: a configuration that is accepted satisfies the bounds the rest of the program relies on: an enabled
  Codex has a fully qualified runner, the timeouts lie in (0, 120] and (0, 10], the deadline in [1, 120],
  no key at any depth looks like a credential; a provider in error is back on its disabled default, and only when
  the caller collects errors.\<close>

theorem config_accepted_ok:
  assumes "config_from_mapping room collect v = Inr (l, errs)"
  shows "config_ok l \<and> credential_free v \<and> (errs \<noteq> [] \<longrightarrow> collect)
     \<and> (Codex \<in> set errs \<longrightarrow> lc_codex l = default_codex)
     \<and> (OpencodeGo \<in> set errs \<longrightarrow> lc_opencode l = default_opencode) \<and> distinct errs"
  using config_from_mapping_ok[OF assms] .

theorem config_accepted_ok_witness:
  "\<exists>l. config_from_mapping 8 True sample_config = Inr (l, [OpencodeGo]) \<and> config_ok l \<and> lc_opencode l = default_opencode"
  using sample_config_run config_accepted_ok[of 8 True sample_config] by fastforce

lemma deep_config_escapes:
  "validate_config_document rs collect (replicate (Suc (rm_scan rs)) 91) = Inl RecursionError"
proof -
  have "utf8_decode (replicate n 91) = Inr (replicate n 91)" for n by (induction n) auto
  then show ?thesis
    using loads_in_brackets[of rs config_hooks]
    by (simp add: validate_config_document_def config_read_error_def is_ConfigError_def del: replicate.simps)
qed

text \<open>C15: whatever the bytes, reading a configuration fails with \<open>ConfigError\<close>, and the decoding, JSON and overflow
  errors underneath do not get out; the one exception is \<open>RecursionError\<close>, which nothing catches, and it comes only
  from a document that is nested deeper than the room the interpreter's recursion limit leaves, or that is no JSON
  document and has more opening brackets than that.\<close>

theorem config_only_config_errors:
  assumes "validate_config_document rs collect raw = Inl e"
  shows "is_ConfigError e \<or> (\<exists>t. e = RecursionError \<and> utf8_decode raw = Inr t
     \<and> (case loads config_hooks t of Inr v \<Rightarrow> stack_room rs < json_depth v | Inl _ \<Rightarrow> scan_room rs < brackets t))"
proof (cases "rbind (utf8_decode raw) (loads_in rs config_hooks)")
  case (Inr v)
  then obtain t where t: "utf8_decode raw = Inr t" "loads_in rs config_hooks t = Inr v" by (auto simp: rbind_Inr_iff)
  then have "loads config_hooks t = Inr v"
    using loads_in_facts[of config_hooks rs t] strict_keeps by (auto simp: config_hooks_def)
  moreover have "is_ConfigError e \<or> e = RecursionError \<and> rm_walk rs < json_depth v"
    using assms Inr config_from_mapping_error by (simp add: validate_config_document_def)
  ultimately show ?thesis using t(1) by (auto simp: stack_room_def)
next
  case (Inl f)
  have e: "e = config_read_error f" using assms Inl by (simp add: validate_config_document_def)
  show ?thesis
  proof (cases "f = UnicodeError \<or> is_ValueError f")
    case True
    then show ?thesis using e by (auto simp: config_read_error_def)
  next
    case False
    then obtain t where t: "utf8_decode raw = Inr t" "loads_in rs config_hooks t = Inl f"
      using Inl utf8_decode_error by (auto simp: rbind_Inl_iff)
    have "loads config_hooks t \<noteq> Inl f"
      using False loads_error[of config_hooks] strict_hooks_value by (auto simp: config_hooks_def)
    then have "f = RecursionError" "scan_room rs < brackets t" "\<forall>v. loads config_hooks t = Inr v \<longrightarrow> scan_room rs < json_depth v"
      using loads_in_facts[of config_hooks rs t] strict_keeps t(2) by (auto simp: config_hooks_def)
    then show ?thesis using t(1) e
      by (auto simp: config_read_error_def is_ConfigError_def stack_room_def split: sum.splits)
  qed
qed

theorem config_only_config_errors_witness:
  "validate_config_document \<lparr>rm_scan = 2, rm_hook = 2, rm_walk = 2\<rparr> True [91, 91, 91] = Inl RecursionError
     \<and> scan_room \<lparr>rm_scan = 2, rm_hook = 2, rm_walk = 2\<rparr> < brackets [91, 91, 91]"
proof -
  let ?rs = "\<lparr>rm_scan = 2, rm_hook = 2, rm_walk = 2\<rparr>"
  have v: "validate_config_document ?rs True [91, 91, 91] = Inl RecursionError"
    using deep_config_escapes[of ?rs True] by (simp add: numeral_3_eq_3)
  have l: "loads config_hooks [91, 91, 91] = Inl JSONDecodeError"
    by (simp add: loads_def skip_ws_def json_ws_def eval_nat_numeral)
  show ?thesis using config_only_config_errors[OF v] v l by (auto simp: is_ConfigError_def)
qed

end
