(* ===== verification/JsonSorted.thy ===== *)
theory JsonSorted
  imports JsonRoundtrip
begin

text \<open>
  \<open>sort_keys=True\<close>: the canonical texts of frames, markers and fingerprints. Writing with sorted keys is writing the
  value sorted (\<open>json_text_sorted\<close>), so reading a canonical text gives the sorted value (\<open>read_sorted\<close>), and the text
  of a value and of its sorted form are the same.
\<close>

definition sorted_opts :: dumps_opts where
  "sorted_opts = \<lparr>ensure_ascii = False, item_sep = [44], key_sep = [58], sort_keys = True\<rparr>"

fun sort_json :: "json \<Rightarrow> json" where
  "sort_json (JList xs) = JList (map sort_json xs)"
| "sort_json (JObj d) = JObj (sort_key fst (map (\<lambda>(k, v). (k, sort_json v)) d))"
| "sort_json v = v"

lemma sort_key_map_snd: "sort_key fst (map (\<lambda>(k, v). (k, f v)) d) = map (\<lambda>(k, v). (k, f v)) (sort_key fst d)"
proof (induction d)
  case (Cons p d)
  have "insort_key fst (case p of (k, v) \<Rightarrow> (k, f v)) (map (\<lambda>(k, v). (k, f v)) e)
    = map (\<lambda>(k, v). (k, f v)) (insort_key fst p e)" for e
    by (induction e) (auto split: prod.splits)
  then show ?case using Cons by simp
qed simp

lemma json_text_sorted: "json_text sorted_opts v = json_text (compact False) (sort_json v)"
proof (induction v)
  case (JList xs)
  have "map (json_text sorted_opts) xs = map (json_text (compact False)) (map sort_json xs)" using JList by simp
  then show ?case by (simp only: json_text.simps sort_json.simps) (simp add: sorted_opts_def compact_def)
next
  case (JObj d)
  have "map (\<lambda>(k, v). (k, json_text sorted_opts v)) d
      = map (\<lambda>(k, v). (k, json_text (compact False) v)) (map (\<lambda>(k, v). (k, sort_json v)) d)"
    using JObj by (auto simp: comp_def)
  then have "sort_key fst (map (\<lambda>(k, v). (k, json_text sorted_opts v)) d)
      = map (\<lambda>(k, v). (k, json_text (compact False) v)) (sort_key fst (map (\<lambda>(k, v). (k, sort_json v)) d))"
    by (simp only: sort_key_map_snd)
  then show ?case by (simp add: sorted_opts_def compact_def)
qed (simp_all add: sorted_opts_def compact_def)

lemma sort_json_writable [simp]: "json_writable (sort_json v) = json_writable v"
proof (induction v)
  case (JObj d)
  then have "json_writable (snd p) = json_writable (sort_json (snd p))" if "p \<in> set d" for p
    using that by (cases p) auto
  then show ?case by (auto simp: list_all_iff split_def)
qed (auto simp: list_all_iff)

lemma map_fst_sorted: "map fst (sort_key fst (map (\<lambda>(k, v). (k, f v)) d)) = sort (map fst d)"
proof -
  have "map fst (sort_key fst xs) = sort (map fst xs)" for xs :: "('k::linorder \<times> 'v) list"
  proof (induction xs)
    case (Cons x xs)
    have "map fst (insort_key fst x ys) = insort (fst x) (map fst ys)" for ys
      by (induction ys) auto
    then show ?case using Cons by simp
  qed simp
  then have "map fst (sort_key fst (map (\<lambda>(k, v). (k, f v)) d)) = sort (map fst (map (\<lambda>(k, v). (k, f v)) d))" .
  then show ?thesis by (simp add: comp_def split_def)
qed

lemma sort_json_plain [simp]: "json_plain (sort_json v) = json_plain v"
proof (induction v)
  case (JObj d)
  then have p: "json_plain (sort_json (snd p)) = json_plain (snd p)" if "p \<in> set d" for p
    using that by (cases p) auto
  have "distinct (map fst (sort_key fst (map (\<lambda>(k, v). (k, sort_json v)) d))) = distinct (map fst d)"
    unfolding map_fst_sorted by simp
  then show ?case using p by (auto simp: list_all_iff split_def)
qed (auto simp: list_all_iff)

lemma dumps_sorted: "dumps_strict sorted_opts v = dumps_strict (compact False) (sort_json v)"
  by (simp add: dumps_strict_def json_text_sorted)

lemma read_sorted:
  assumes "dumps_strict sorted_opts v = Inr t" "utf8_encode (t @ w) = Inr b" "json_plain v" "hook_ok h"
    "list_all json_ws w"
  shows "rbind (utf8_decode b) (loads h) = Inr (sort_json v)"
  using assms by (intro read_written[of "sort_json v" t w b h]) (auto simp: dumps_sorted)

lemma sort_key_same: "sorted (map fst d) \<Longrightarrow> sort_key fst d = d"
proof (induction d)
  case (Cons p d)
  then show ?case by (cases d) auto
qed simp

lemma sort_json_idem [simp]: "sort_json (sort_json v) = sort_json v"
proof (induction v)
  case (JObj d)
  let ?f = "map (\<lambda>(k, v). (k, sort_json v))"
  have "?f (?f d) = ?f d" using JObj by auto
  then have "?f (sort_key fst (?f d)) = sort_key fst (?f d)" by (simp only: sort_key_map_snd[symmetric])
  then show ?case by (simp add: sort_key_same)
qed auto

text \<open>Looking up a key in the sorted object.\<close>

lemma map_of_perm: "distinct (map fst d) \<Longrightarrow> set e = set d \<Longrightarrow> distinct (map fst e) \<Longrightarrow> map_of e k = map_of d k"
  by (metis map_of_inject_set)

lemma dict_get_sorted:
  assumes "distinct (map fst d)"
  shows "dict_get k (sort_key fst (map (\<lambda>(k, v). (k, sort_json v)) d)) = map_option sort_json (dict_get k d)"
proof -
  let ?e = "map (\<lambda>(k, v). (k, sort_json v)) d"
  have d: "distinct (map fst ?e)" using assms by (simp add: comp_def split_def)
  have "distinct (map fst (sort_key fst ?e))" using assms by (simp add: map_fst_sorted)
  then have "map_of (sort_key fst ?e) k = map_of ?e k" using d by (intro map_of_perm) auto
  also have "\<dots> = map_option sort_json (map_of d k)" by (simp add: map_of_map)
  finally show ?thesis by (simp add: dict_get_def)
qed

end
