(* ===== verification/Deadline.thy ===== *)
theory Deadline
  imports PyNum
begin

text \<open>
  \<open>deadline.py\<close>: one endpoint for a run, in nanoseconds of the monotonic clock, with a reserve kept for
  cleanup. The clock is outside: every reading is an argument \<open>now\<close>.
\<close>

definition nanoseconds_per_second :: nat where "nanoseconds_per_second = 1000000000"
definition max_reserve_ns :: int where "max_reserve_ns = 250000000"

record deadline =
  t0_ns :: int
  deadline_ns :: int
  reserve_ns :: int

definition mk_deadline :: "int \<Rightarrow> int \<Rightarrow> int \<Rightarrow> py_exn + deadline" where
  "mk_deadline t0 d r =
     (if t0 < 0 \<or> d < t0 then Inl (ValueError ''invalid deadline endpoint'')
      else if \<not> (0 \<le> r \<and> r \<le> min max_reserve_ns (d - t0)) then Inl (ValueError ''invalid deadline reserve'')
      else Inr \<lparr>t0_ns = t0, deadline_ns = d, reserve_ns = r\<rparr>)"

text \<open>The argument of \<open>from_seconds\<close>: a bool, a number, or an object \<open>float\<close> refuses. (A string, which
  \<open>float\<close> would parse, is not passed by any caller and not modelled.)\<close>

datatype seconds = SBool bool | SInt int | SFloat pyfloat | SOther

definition bad_seconds :: "py_exn + 'a" where
  "bad_seconds = Inl (ValueError ''deadline must be a finite positive number'')"

definition duration_ns :: "seconds \<Rightarrow> py_exn + int" where
  "duration_ns s =
     (case (case s of SInt i \<Rightarrow> float_of_int i | SFloat f \<Rightarrow> Inr f | _ \<Rightarrow> Inl (TypeError ''float'')) of
        Inl _ \<Rightarrow> bad_seconds
      | Inr f \<Rightarrow>
          if \<not> float_finite f \<or> \<not> float_gt_int f 0 then bad_seconds
          else (case int_of_float (float_mul f (float_of False nanoseconds_per_second 1)) of
                  Inl _ \<Rightarrow> bad_seconds
                | Inr n \<Rightarrow> Inr n))"

definition from_seconds :: "seconds \<Rightarrow> int \<Rightarrow> py_exn + deadline" where
  "from_seconds s start =
     rbind (case s of SBool _ \<Rightarrow> bad_seconds | _ \<Rightarrow> duration_ns s) (\<lambda>n.
     mk_deadline start (start + n) (min max_reserve_ns (n div 4)))"

definition remaining_ns :: "deadline \<Rightarrow> int \<Rightarrow> int" where
  "remaining_ns c now = max 0 (deadline_ns c - now)"

definition usable_ns :: "deadline \<Rightarrow> int \<Rightarrow> int" where
  "usable_ns c now = max 0 (remaining_ns c now - reserve_ns c)"

definition cleanup_ns :: "deadline \<Rightarrow> int \<Rightarrow> int" where
  "cleanup_ns c now = min (reserve_ns c) (remaining_ns c now)"

definition deadline_ok :: "deadline \<Rightarrow> bool" where
  "deadline_ok c \<longleftrightarrow> 0 \<le> t0_ns c \<and> t0_ns c \<le> deadline_ns c \<and> 0 \<le> reserve_ns c
     \<and> reserve_ns c \<le> min max_reserve_ns (deadline_ns c - t0_ns c)"

lemma mk_deadline_Inr: "mk_deadline t d r = Inr c \<longleftrightarrow> c = \<lparr>t0_ns = t, deadline_ns = d, reserve_ns = r\<rparr> \<and> deadline_ok c"
  by (auto simp: mk_deadline_def deadline_ok_def)

lemmas [run] = nanoseconds_per_second_def max_reserve_ns_def mk_deadline_def bad_seconds_def duration_ns_def from_seconds_def
  remaining_ns_def usable_ns_def cleanup_ns_def deadline_ok_def

section \<open>Properties\<close>

lemma float_pos_num: "float_gt_int (FFin s m e) 0 \<Longrightarrow> \<not> s"
proof -
  have "\<not> int m * 2 ^ k < 0" for k :: nat by (simp add: not_less)
  then show "float_gt_int (FFin s m e) 0 \<Longrightarrow> \<not> s"
    by (auto simp: float_num_def Let_def split: if_splits)
qed

lemma float_of_sign: "\<exists>m e. float_of s n d = FFin s m e \<or> float_of s n d = FInf s"
  by (auto simp: float_of_def Let_def split: prod.splits)

lemma duration_nonneg:
  assumes "duration_ns s = Inr n"
  shows "0 \<le> n"
proof -
  obtain f where f: "float_finite f" "float_gt_int f 0"
    "int_of_float (float_mul f (float_of False nanoseconds_per_second 1)) = Inr n"
    using assms by (auto simp: duration_ns_def bad_seconds_def split: sum.splits if_splits)
  then obtain s' m e where "f = FFin s' m e" by (cases f) auto
  then have fin: "f = FFin False m e" using float_pos_num f(2) by blast
  obtain k x where k: "float_of False nanoseconds_per_second 1 = FFin False k x \<or> float_of False nanoseconds_per_second 1 = FInf False"
    using float_of_sign by blast
  have fin2: "\<exists>i j. float_mul (FFin False m e) (FFin False k x) = float_of False i j"
  proof (cases "0 \<le> e + x")
    case True
    then show ?thesis by (intro exI[of _ "m * k * 2 ^ nat (e + x)"] exI[of _ 1]) simp
  next
    case False
    then show ?thesis by (intro exI[of _ "m * k"] exI[of _ "2 ^ nat (- (e + x))"]) simp
  qed
  have "\<exists>m e. float_mul f (float_of False nanoseconds_per_second 1) = FFin False m e
    \<or> float_mul f (float_of False nanoseconds_per_second 1) = FInf False
    \<or> float_mul f (float_of False nanoseconds_per_second 1) = FNaN"
    using k
  proof
    assume "float_of False nanoseconds_per_second 1 = FFin False k x"
    then show ?thesis using fin fin2 float_of_sign by metis
  qed (auto simp: fin)
  then show ?thesis using f(3) by (auto simp: Let_def split: if_splits)
qed

text \<open>C16: a duration accepted by \<open>from_seconds\<close> always gives a valid context, and its reserve is a quarter of it at
  most and 250 ms at most; the time left is split without overlap into the usable part and the part
  kept for cleanup, and no time is usable once the endpoint minus the reserve is passed.\<close>

theorem deadline_budget:
  assumes "duration_ns s = Inr n" "0 \<le> t"
  shows "\<exists>c. from_seconds s t = Inr c \<and> deadline_ok c \<and> deadline_ns c = t + n \<and> 4 * reserve_ns c \<le> n
     \<and> (\<forall>now. usable_ns c now + cleanup_ns c now = remaining_ns c now \<and> 0 \<le> cleanup_ns c now)
     \<and> (\<forall>now \<ge> deadline_ns c - reserve_ns c. usable_ns c now = 0)
     \<and> (\<forall>x y. x \<le> y \<longrightarrow> usable_ns c y \<le> usable_ns c x)"
proof -
  let ?r = "min max_reserve_ns (n div 4)"
  let ?c = "\<lparr>t0_ns = t, deadline_ns = t + n, reserve_ns = ?r\<rparr>"
  have n: "0 \<le> n" using duration_nonneg[OF assms(1)] .
  have r: "0 \<le> ?r" "?r \<le> n" "4 * ?r \<le> n" using n by (auto simp: max_reserve_ns_def)
  have s: "(case s of SBool _ \<Rightarrow> bad_seconds | _ \<Rightarrow> duration_ns s) = Inr n"
    using assms(1) by (cases s) (auto simp: duration_ns_def bad_seconds_def)
  have ok: "deadline_ok ?c" using n r(1,2) assms(2) by (auto simp: deadline_ok_def)
  have "from_seconds s t = Inr ?c"
    unfolding from_seconds_def s rbind_simps mk_deadline_Inr using ok by simp
  then show ?thesis using ok r n
    by (intro exI[of _ ?c]) (auto simp: usable_ns_def cleanup_ns_def remaining_ns_def max_def min_def)
qed

lemma seven_seconds: "duration_ns (SInt 7) = Inr 7000000000"
  by (simp add: run float_of_int_def float_of_def scale2_def float_num_def cong: run_cong)

theorem deadline_budget_witness:
  "\<exists>c. from_seconds (SInt 7) 100 = Inr c \<and> deadline_ok c \<and> deadline_ns c = 7000000100"
  using deadline_budget[OF seven_seconds, of 100] by auto

end
