(* ===== verification/Protocol.thy ===== *)
theory Protocol
  imports JsonSorted JsonErrors Model Deadline "HOL-Library.Sublist"
begin

text \<open>
  \<open>isolation/protocol.py\<close>: the frames between the parent and the helper process.

  \<^item> A frame is four bytes of length and a canonical JSON object. \<open>validate_message\<close> is \<open>_validate\<close>,
    \<open>encode_frame\<close> and \<open>decode_frame\<close> are inverse (\<open>decode_encode\<close>), and a payload is accepted only in its
    canonical form.
  \<^item> The transport is outside: \<open>chunks\<close> and \<open>writes\<close> are the answers it gives, one for each call, and \<open>clock\<close> the readings
    of the clock before each call. The loops end because every call moves at least one byte.
  \<^item> A message is a JSON object; \<open>ProtocolSession\<close> is the state of the conversation.
\<close>

definition control_max :: nat where "control_max = 16 * 1024"
definition response_max :: nat where "response_max = 64 * 1024"
definition max_nonce :: nat where "max_nonce = 128"

definition perr :: "string \<Rightarrow> py_exn + 'a" where
  "perr c = Inl (ProtocolError c)"

definition invalid_message :: "py_exn + 'a" where
  "invalid_message = perr ''invalid_message''"

definition protocol_hooks :: json_hooks where
  "protocol_hooks = strict_hooks (ProtocolError ''duplicate_key'') (ProtocolError ''invalid_json'')"

text \<open>\<open>_canonical\<close>: sorted keys, no white space.\<close>

definition canonical :: "json \<Rightarrow> py_exn + bytes" where
  "canonical m = (case rbind (dumps_strict sorted_opts m) utf8_encode of
     Inl e \<Rightarrow> if is_TypeError e \<or> is_ValueError e then perr ''invalid_json'' else Inl e
   | Inr b \<Rightarrow> Inr b)"

definition nonce_of :: "json \<Rightarrow> py_exn + ustr" where
  "nonce_of v = (case v of
     JStr s \<Rightarrow> if s = [] \<or> max_nonce < length s then invalid_message else Inr s
   | _ \<Rightarrow> invalid_message)"

definition is_str :: "json option \<Rightarrow> bool" where
  "is_str v = (case v of Some (JStr _) \<Rightarrow> True | _ \<Rightarrow> False)"

definition allowed_fields :: "ustr \<Rightarrow> ustr list option" where
  "allowed_fields kind =
     (if kind \<in> {u ''contained'', u ''ready'', u ''go''} then Some [u ''type'', u ''nonce'']
      else if kind = u ''result''
      then Some [u ''type'', u ''nonce'', u ''provider'', u ''state'', u ''display_label'', u ''error'']
      else if kind = u ''error'' then Some [u ''type'', u ''nonce'', u ''code''] else None)"

definition required_fields :: "ustr \<Rightarrow> ustr list" where
  "required_fields kind = [u ''type'', u ''nonce''] @
     (if kind = u ''result'' then [u ''provider'', u ''state'']
      else if kind = u ''error'' then [u ''code''] else [])"

definition get :: "string \<Rightarrow> jobj \<Rightarrow> json" where
  "get k d = (case dict_get (u k) d of Some v \<Rightarrow> v | None \<Rightarrow> JNull)"

definition enum_ok :: "'a list \<Rightarrow> ('a \<Rightarrow> ustr) \<Rightarrow> json \<Rightarrow> bool" where
  "enum_ok members val v = (case v of JStr s \<Rightarrow> list_ex (\<lambda>x. val x = s) members | _ \<Rightarrow> False)"

definition label_valid :: "json \<Rightarrow> bool" where
  "label_valid l = (case l of
     JNull \<Rightarrow> True
   | JStr s \<Rightarrow> s \<noteq> [] \<and> length s \<le> 64 \<and> list_all (\<lambda>c. 32 \<le> c) s
   | _ \<Rightarrow> False)"

definition error_valid :: "json \<Rightarrow> bool" where
  "error_valid e = (case e of
     JNull \<Rightarrow> True
   | JObj d \<Rightarrow> map fst d = [u ''code''] \<and> enum_ok ec_members ec_value (get ''code'' d)
   | _ \<Rightarrow> False)"

definition result_valid :: "jobj \<Rightarrow> bool" where
  "result_valid d \<longleftrightarrow> enum_ok pk_members pk_value (get ''provider'' d) \<and> enum_ok ps_members ps_value (get ''state'' d)
     \<and> label_valid (get ''display_label'' d)
     \<and> (get ''state'' d = JStr (ps_value SafeErr) \<longleftrightarrow> get ''error'' d \<noteq> JNull)
     \<and> error_valid (get ''error'' d)"

definition validate_message :: "json \<Rightarrow> py_exn + jobj" where
  "validate_message m = (case m of
     JObj d \<Rightarrow>
       (case (dict_get (u ''type'') d, dict_get (u ''nonce'') d) of
          (Some (JStr kind), Some (JStr n)) \<Rightarrow>
            rbind (nonce_of (JStr n)) (\<lambda>_.
            case allowed_fields kind of
              None \<Rightarrow> invalid_message
            | Some allowed \<Rightarrow>
                if \<not> set (map fst d) \<subseteq> set allowed then perr ''unknown_field''
                else if \<not> set (required_fields kind) \<subseteq> set (map fst d) then invalid_message
                else if kind = u ''result'' then (if result_valid d then Inr d else invalid_message)
                else if kind = u ''error'' then (if enum_ok ec_members ec_value (get ''code'' d) then Inr d else invalid_message)
                else Inr d)
        | _ \<Rightarrow> invalid_message)
   | _ \<Rightarrow> invalid_message)"

definition limit_for :: "jobj \<Rightarrow> nat" where
  "limit_for d = (if get ''type'' d \<in> {JStr (u ''result''), JStr (u ''error'')} then response_max else control_max)"

section \<open>Frames\<close>

text \<open>\<open>struct.pack(">I", n)\<close> and its inverse.\<close>

definition pack32 :: "nat \<Rightarrow> bytes" where
  "pack32 n = [n div 16777216 mod 256, n div 65536 mod 256, n div 256 mod 256, n mod 256]"

definition unpack32 :: "bytes \<Rightarrow> nat" where
  "unpack32 b = foldl (\<lambda>a x. a * 256 + x) 0 b"

definition encode_frame :: "json \<Rightarrow> py_exn + bytes" where
  "encode_frame m =
     rbind (validate_message m) (\<lambda>d.
     rbind (canonical (JObj d)) (\<lambda>p.
     if limit_for d < length p then perr ''oversize'' else Inr (pack32 (length p) @ p)))"

definition decode_payload :: "bytes \<Rightarrow> py_exn + jobj" where
  "decode_payload p =
     (case utf8_decode p of
        Inl _ \<Rightarrow> perr ''invalid_utf8''
      | Inr text \<Rightarrow>
          (case loads protocol_hooks text of
             Inl (ProtocolError c) \<Rightarrow> perr c
           | Inl e \<Rightarrow> if is_TypeError e \<or> is_ValueError e then perr ''invalid_json'' else Inl e
           | Inr m \<Rightarrow>
               rbind (validate_message m) (\<lambda>d.
               rbind (canonical (JObj d)) (\<lambda>c.
               if c \<noteq> p then perr ''invalid_json''
               else if limit_for d < length p then perr ''oversize'' else Inr d))))"

definition frame_limit :: "nat option \<Rightarrow> nat" where
  "frame_limit limit = (case limit of None \<Rightarrow> response_max | Some n \<Rightarrow> n)"

definition decode_frame :: "nat option \<Rightarrow> bytes \<Rightarrow> py_exn + jobj" where
  "decode_frame limit b =
     (if length b < 4 then perr ''eof''
      else let n = unpack32 (take 4 b) in
        if frame_limit limit < n then perr ''oversize''
        else if length b < n + 4 then perr ''eof''
        else if n + 4 < length b then perr ''trailing_bytes''
        else decode_payload (drop 4 b))"

section \<open>The transport\<close>

text \<open>An answer of the transport: the bytes of a read or the count of a write, a value of another type, or an
  exception. Before each call the clock is read, and a clock at or past the deadline ends the loop.\<close>

datatype 'a answer = Answer 'a | Odd | Raise py_exn

definition transport_answer :: "'a answer \<Rightarrow> py_exn + 'a option" where
  "transport_answer a = (case a of
     Answer x \<Rightarrow> Inr (Some x)
   | Odd \<Rightarrow> Inr None
   | Raise e \<Rightarrow> if e = TimeoutError then perr ''transport_timeout'' else perr ''transport_failure'')"

text \<open>\<open>_read_exact\<close> and \<open>_read_exact_context\<close>: the rest of the answers is returned with the bytes. A list of answers that
  ends stands for a peer that gives nothing any more, which is a timeout. The size that is asked for is all the
  transport learns; its answers, of any size, are given for the calls in their order, so a transport that answers
  with more than it was asked for is among them: of the header, that is a \<open>struct.error\<close>, of the body, trailing bytes.\<close>

fun read_exact :: "nat \<Rightarrow> bool list \<Rightarrow> bytes answer list \<Rightarrow> bytes \<Rightarrow> py_exn + bytes \<times> bool list \<times> bytes answer list" where
  "read_exact n late answers acc =
     (if n \<le> length acc then Inr (acc, late, answers)
      else if late = [] \<or> hd late then perr ''transport_timeout''
      else (case answers of
              [] \<Rightarrow> perr ''transport_timeout''
            | a # rest \<Rightarrow>
                rbind (transport_answer a) (\<lambda>chunk. case chunk of
                  None \<Rightarrow> perr ''transport_eof''
                | Some b \<Rightarrow> if b = [] then perr ''transport_eof'' else read_exact n (tl late) rest (acc @ b))))"

declare read_exact.simps [simp del]

text \<open>The deadline of \<open>read_frame\<close> and \<open>write_frame\<close>: the timeout is checked before anything is sent. The variants with a
  context take its endpoint as it is.\<close>

definition timeout_valid :: "seconds \<Rightarrow> bool" where
  "timeout_valid s = (case (case s of SBool b \<Rightarrow> Inr (float_of False (if b then 1 else 0) 1) | SInt i \<Rightarrow> float_of_int i
       | SFloat f \<Rightarrow> Inr f | SOther \<Rightarrow> Inl (TypeError ''float'')) of
     Inl _ \<Rightarrow> False | Inr f \<Rightarrow> float_finite f \<and> float_gt_int f 0)"

definition protocol_deadline :: "seconds \<Rightarrow> py_exn + unit" where
  "protocol_deadline s = (if timeout_valid s then Inr () else perr ''invalid_timeout'')"

definition read_frame_with_deadline :: "nat option \<Rightarrow> bool list \<Rightarrow> bytes answer list \<Rightarrow> py_exn + jobj" where
  "read_frame_with_deadline limit late answers =
     rbind (read_exact 4 late answers []) (\<lambda>(header, late, answers).
     if length header \<noteq> 4 then Inl StructError
     else let n = unpack32 header in
     if frame_limit limit < n then perr ''oversize''
     else rbind (read_exact n late answers []) (\<lambda>(body, _, _). decode_frame (Some (frame_limit limit)) (header @ body)))"

definition read_frame :: "seconds \<Rightarrow> nat option \<Rightarrow> bool list \<Rightarrow> bytes answer list \<Rightarrow> py_exn + jobj" where
  "read_frame timeout limit late answers = rbind (protocol_deadline timeout) (\<lambda>_. read_frame_with_deadline limit late answers)"

fun write_rest :: "bytes \<Rightarrow> bool list \<Rightarrow> int answer list \<Rightarrow> bytes \<Rightarrow> py_exn + bytes" where
  "write_rest rest late answers sent =
     (if rest = [] then Inr sent
      else if late = [] \<or> hd late then perr ''transport_timeout''
      else (case answers of
              [] \<Rightarrow> perr ''transport_timeout''
            | a # as \<Rightarrow>
                rbind (transport_answer a) (\<lambda>n. case n of
                  None \<Rightarrow> perr ''transport_failure''
                | Some k \<Rightarrow> if k \<le> 0 then perr ''transport_failure''
                           else write_rest (drop (nat k) rest) (tl late) as (sent @ take (nat k) rest))))"

declare write_rest.simps [simp del]

definition write_frame_with_deadline :: "json \<Rightarrow> bool list \<Rightarrow> int answer list \<Rightarrow> py_exn + bytes" where
  "write_frame_with_deadline m late answers = rbind (encode_frame m) (\<lambda>frame. write_rest frame late answers [])"

definition write_frame :: "seconds \<Rightarrow> json \<Rightarrow> bool list \<Rightarrow> int answer list \<Rightarrow> py_exn + bytes" where
  "write_frame timeout m late answers = rbind (protocol_deadline timeout) (\<lambda>_. write_frame_with_deadline m late answers)"

section \<open>Messages\<close>

definition state_message :: "string \<Rightarrow> ustr \<Rightarrow> py_exn + json" where
  "state_message kind n = rbind (nonce_of (JStr n)) (\<lambda>_. Inr (JObj [(u ''type'', JStr (u kind)), (u ''nonce'', JStr n)]))"

definition contained_message :: "ustr \<Rightarrow> py_exn + json" where
  "contained_message n = state_message ''contained'' n"

definition ready_message :: "ustr \<Rightarrow> py_exn + json" where
  "ready_message n = state_message ''ready'' n"

definition go_message :: "ustr \<Rightarrow> py_exn + json" where
  "go_message n = state_message ''go'' n"

definition result_message :: "ustr \<Rightarrow> view \<Rightarrow> py_exn + jobj" where
  "result_message n v =
     rbind (nonce_of (JStr n)) (\<lambda>n.
     validate_message (JObj
       ([(u ''type'', JStr (u ''result'')), (u ''nonce'', JStr n), (u ''provider'', JStr (pk_value (v_provider v))),
         (u ''state'', JStr (ps_value (v_state v)))] @
        (case v_display_label v of Some l \<Rightarrow> [(u ''display_label'', JStr l)] | None \<Rightarrow> []) @
        (case v_error v of Some e \<Rightarrow> [(u ''error'', JObj [(u ''code'', JStr (ec_value e))])] | None \<Rightarrow> []))))"

definition error_message :: "ustr \<Rightarrow> json \<Rightarrow> py_exn + json" where
  "error_message n code =
     (case enum_of ec_members ec_value code ''code'' of
        Inl _ \<Rightarrow> invalid_message
      | Inr c \<Rightarrow> rbind (nonce_of (JStr n)) (\<lambda>n.
          Inr (JObj [(u ''type'', JStr (u ''error'')), (u ''nonce'', JStr n), (u ''code'', JStr (ec_value c))])))"

definition message_view :: "json \<Rightarrow> py_exn + view" where
  "message_view m =
     rbind (validate_message m) (\<lambda>d.
     if get ''type'' d \<noteq> JStr (u ''result'') then invalid_message
     else
       rbind (case get ''error'' d of
                JObj e \<Rightarrow> rbind (enum_of ec_members ec_value (get ''code'' e) ''code'') (\<lambda>c. Inr (Some c))
              | _ \<Rightarrow> Inr None) (\<lambda>err.
       mk_view (get ''provider'' d) (get ''state'' d) err (get ''display_label'' d) None None None))"

section \<open>The session\<close>

datatype phase = PStart | PContained | PReady | PGo | PTerminal

record session =
  ss_nonce :: ustr
  ss_phase :: phase

definition new_session :: "ustr \<Rightarrow> py_exn + session" where
  "new_session n = rbind (nonce_of (JStr n)) (\<lambda>n. Inr \<lparr>ss_nonce = n, ss_phase = PStart\<rparr>)"

definition expected_types :: "phase \<Rightarrow> ustr list" where
  "expected_types p = (case p of PStart \<Rightarrow> [u ''contained''] | PContained \<Rightarrow> [u ''ready''] | PReady \<Rightarrow> [u ''go'']
     | PGo \<Rightarrow> [u ''result'', u ''error''] | PTerminal \<Rightarrow> [])"

definition next_phase :: "ustr \<Rightarrow> phase" where
  "next_phase t = (if t = u ''contained'' then PContained else if t = u ''ready'' then PReady
     else if t = u ''go'' then PGo else PTerminal)"

definition accept :: "session \<Rightarrow> json \<Rightarrow> py_exn + jobj \<times> session" where
  "accept s m =
     rbind (validate_message m) (\<lambda>d.
     if get ''nonce'' d \<noteq> JStr (ss_nonce s) then perr ''nonce_mismatch''
     else (case get ''type'' d of
             JStr t \<Rightarrow>
               if t \<notin> set (expected_types (ss_phase s)) then perr ''invalid_transition''
               else Inr (d, s\<lparr>ss_phase := next_phase t\<rparr>)
           | _ \<Rightarrow> invalid_message))"

section \<open>Frames and their inverse\<close>

lemma unpack_pack:
  assumes "n < 4294967296"
  shows "unpack32 (pack32 n) = n"
proof -
  have a: "n div 65536 div 256 = n div 16777216" "n div 256 div 256 = n div 65536" by (simp_all add: div_mult2_eq[symmetric])
  have b: "n div 16777216 < 256" using assms by (simp add: less_mult_imp_div_less)
  have 1: "n = n div 256 * 256 + n mod 256" by simp
  have 2: "n div 256 = n div 65536 * 256 + n div 256 mod 256" using a by (metis div_mult_mod_eq)
  have 3: "n div 65536 = n div 16777216 * 256 + n div 65536 mod 256" using a by (metis div_mult_mod_eq)
  show ?thesis unfolding pack32_def unpack32_def using 1 2 3 b by simp
qed

lemma pack_unpack:
  assumes "length b = 4" "\<forall>x \<in> set b. x < 256"
  shows "pack32 (unpack32 b) = b"
proof -
  obtain w x y z where b: "b = [w, x, y, z]"
    using assms(1) by (auto simp: length_Suc_conv numeral_eq_Suc)
  have lt: "w < 256" "x < 256" "y < 256" "z < 256" using assms(2) b by auto
  let ?n = "((w * 256 + x) * 256 + y) * 256 + z"
  have e: "(a * 256 + c) div 256 = a" "(a * 256 + c) mod 256 = c" if "c < 256" for a c :: nat using that by simp_all
  note e[OF lt(4), of "(w * 256 + x) * 256 + y"] e[OF lt(3), of "w * 256 + x"] e[OF lt(2), of w]
  moreover have "k div 65536 = k div 256 div 256" "k div 16777216 = k div 256 div 256 div 256" for k :: nat
    by (simp_all add: div_mult2_eq[symmetric])
  ultimately have "pack32 ?n = [w, x, y, z]" unfolding pack32_def using lt(1) by (simp only: mod_less)
  then show ?thesis using b by (simp add: unpack32_def)
qed

lemma length_pack [simp]: "length (pack32 n) = 4"
  by (simp add: pack32_def)

text \<open>Sorting the fields changes nothing for the checks.\<close>

lemma sort_json_scalar [simp]:
  "sort_json v = JStr s \<longleftrightarrow> v = JStr s" "sort_json v = JNull \<longleftrightarrow> v = JNull" "JStr s = sort_json v \<longleftrightarrow> v = JStr s"
  by (cases v; auto)+

lemma enum_ok_sorted [simp]: "enum_ok ms val (sort_json v) = enum_ok ms val v"
  by (cases v) (auto simp: enum_ok_def)

lemma label_valid_sorted [simp]: "label_valid (sort_json v) = label_valid v"
  by (cases v) (auto simp: label_valid_def)

definition sort_obj :: "jobj \<Rightarrow> jobj" where
  "sort_obj d = sort_key fst (map (\<lambda>(k, v). (k, sort_json v)) d)"

lemma get_sorted [simp]: "distinct (map fst d) \<Longrightarrow> get k (sort_obj d) = sort_json (get k d)"
  by (auto simp: get_def sort_obj_def dict_get_sorted split: option.splits)

lemma keys_sorted [simp]: "set (map fst (sort_obj d)) = set (map fst d)" "fst ` set (sort_obj d) = fst ` set d"
  by (force simp: sort_obj_def)+

lemma single_key: "map fst d = [k] \<Longrightarrow> sort_obj d = map (\<lambda>(k, v). (k, sort_json v)) d"
  by (cases d) (auto simp: sort_obj_def)

lemma error_valid_sorted:
  assumes "error_valid e"
  shows "error_valid (sort_json e)"
proof (cases e)
  case (JObj d)
  then have d: "map fst d = [u ''code'']" "enum_ok ec_members ec_value (get ''code'' d)"
    using assms by (auto simp: error_valid_def)
  have k: "map fst (sort_obj d) = [u ''code'']" using d(1) single_key[OF d(1)] by (simp add: comp_def split_def)
  have "distinct (map fst d)" using d(1) by simp
  then show ?thesis using JObj d k by (simp add: error_valid_def sort_obj_def[symmetric])
qed (use assms in \<open>auto simp: error_valid_def\<close>)

lemma validate_sorted:
  assumes "validate_message (JObj d) = Inr d'" "distinct (map fst d)"
  shows "d' = d \<and> validate_message (JObj (sort_obj d)) = Inr (sort_obj d)"
proof -
  obtain kind n where kn: "dict_get (u ''type'') d = Some (JStr kind)" "dict_get (u ''nonce'') d = Some (JStr n)"
    using assms(1) by (auto simp: validate_message_def invalid_message_def perr_def split: option.splits json.splits)
  have kn': "dict_get (u ''type'') (sort_obj d) = Some (JStr kind)" "dict_get (u ''nonce'') (sort_obj d) = Some (JStr n)"
    using kn assms(2) by (simp_all add: sort_obj_def dict_get_sorted)
  have r: "result_valid d \<Longrightarrow> result_valid (sort_obj d)"
    using assms(2) error_valid_sorted by (auto simp: result_valid_def)
  have same: "d' = d"
    using assms(1) kn by (auto simp: validate_message_def invalid_message_def perr_def rbind_Inr_iff split: option.splits if_splits)
  have "validate_message (JObj (sort_obj d)) = Inr (sort_obj d)"
    using assms kn kn' r
    by (auto simp: validate_message_def invalid_message_def perr_def rbind_Inr_iff simp del: keys_sorted(1) split: option.splits if_splits)
  then show ?thesis using same by blast
qed

lemma limit_sorted: "distinct (map fst d) \<Longrightarrow> limit_for (sort_obj d) = limit_for d"
  by (simp add: limit_for_def)

lemma canonical_sorted: "canonical (JObj (sort_obj d)) = canonical (JObj d)"
proof -
  have "sort_json (JObj (sort_obj d)) = sort_json (JObj d)"
    using sort_json_idem[of "JObj d"] by (simp add: sort_obj_def)
  then show ?thesis unfolding canonical_def dumps_sorted by simp
qed

lemma decode_payload_canonical:
  assumes "validate_message m = Inr d" "canonical (JObj d) = Inr p" "json_plain m" "length p \<le> limit_for d"
  shows "decode_payload p = Inr (sort_obj d)"
proof -
  obtain d0 where m: "m = JObj d0" using assms(1) by (auto simp: validate_message_def invalid_message_def perr_def split: json.splits)
  then have dist: "distinct (map fst d0)" using assms(3) by simp
  have d: "d0 = d" "validate_message (JObj (sort_obj d)) = Inr (sort_obj d)"
    using validate_sorted[of d0 d] assms(1) m dist by auto
  obtain t where t: "dumps_strict sorted_opts (JObj d) = Inr t" "utf8_encode t = Inr p"
    using assms(2) by (auto simp: canonical_def perr_def rbind_Inr_iff split: sum.splits if_splits)
  have read: "rbind (utf8_decode p) (loads protocol_hooks) = Inr (JObj (sort_obj d))"
    using read_sorted[OF t(1), of "[]" p protocol_hooks] t(2) assms(3) m d
    by (simp add: protocol_hooks_def sort_obj_def)
  then obtain str where "utf8_decode p = Inr str" "loads protocol_hooks str = Inr (JObj (sort_obj d))"
    by (auto simp: rbind_Inr_iff)
  then show ?thesis
    using d assms(2,4) dist by (simp add: decode_payload_def canonical_sorted limit_sorted)
qed

lemma limit_le: "limit_for d \<le> response_max"
  by (simp add: limit_for_def response_max_def control_max_def)

lemma decode_encode:
  assumes "encode_frame m = Inr b" "json_plain m"
  shows "\<exists>d. validate_message m = Inr d \<and> decode_frame None b = Inr (sort_obj d)"
proof -
  obtain d p where d: "validate_message m = Inr d" "canonical (JObj d) = Inr p" "length p \<le> limit_for d"
    "b = pack32 (length p) @ p"
    using assms(1) by (auto simp: encode_frame_def perr_def rbind_Inr_iff split: if_splits)
  have "length p \<le> response_max" using d(3) limit_le order_trans by blast
  moreover have "length p < 4294967296" using calculation by (simp add: response_max_def)
  ultimately have "decode_frame None b = decode_payload p"
    using d(4) by (simp add: decode_frame_def unpack_pack frame_limit_def)
  then show ?thesis using d decode_payload_canonical assms(2) by auto
qed

lemma decoded_reencodes:
  assumes "decode_frame limit b = Inr d" "\<forall>x \<in> set b. x < 256"
  shows "encode_frame (JObj d) = Inr b"
proof -
  have l: "4 \<le> length b" "length b = unpack32 (take 4 b) + 4" "decode_payload (drop 4 b) = Inr d"
    using assms by (auto simp: decode_frame_def perr_def Let_def split: if_splits)
  obtain m where t: "validate_message m = Inr d" "canonical (JObj d) = Inr (drop 4 b)"
    "length (drop 4 b) \<le> limit_for d"
    using l(3) by (auto simp: decode_payload_def perr_def rbind_Inr_iff split: sum.splits if_splits py_exn.splits)
  have m: "m = JObj d"
    using t(1) by (auto simp: validate_message_def invalid_message_def perr_def rbind_Inr_iff
        split: json.splits option.splits if_splits)
  have e: "encode_frame (JObj d) = Inr (pack32 (length (drop 4 b)) @ drop 4 b)"
    using t m by (simp add: encode_frame_def)
  have "take 4 b @ drop 4 b = b" by simp
  moreover have "pack32 (length (drop 4 b)) = take 4 b"
    using l(1,2) pack_unpack[of "take 4 b"] assms(2) by (auto dest: in_set_takeD)
  ultimately show ?thesis using e by simp
qed

section \<open>The loops\<close>

text \<open>However the transport cuts a message into non-empty pieces, the bytes read are the same.\<close>

lemma read_exact_chunks:
  assumes "\<forall>c \<in> set cs. c \<noteq> []" "n = length acc + length (concat cs)"
  shows "read_exact n (replicate (length cs) False @ late) (map Answer cs @ later) acc = Inr (acc @ concat cs, late, later)"
  using assms
proof (induction cs arbitrary: acc)
  case Nil
  then show ?case by (subst read_exact.simps) simp
next
  case (Cons c cs)
  have "length acc < n" using Cons.prems by (cases c) auto
  then have "read_exact n (replicate (length (c # cs)) False @ late) (map Answer (c # cs) @ later) acc
    = read_exact n (replicate (length cs) False @ late) (map Answer cs @ later) (acc @ c)"
    using Cons.prems by (subst read_exact.simps) (simp add: transport_answer_def)
  then show ?case using Cons.IH[of "acc @ c"] Cons.prems by simp
qed

lemma read_exact_length:
  "read_exact n late answers acc = Inr (b, l, a) \<Longrightarrow> n \<le> length b"
proof (induction n late answers acc rule: read_exact.induct)
  case (1 n late answers acc)
  then show ?case
    by (subst (asm) read_exact.simps)
      (auto simp: perr_def rbind_Inr_iff split: if_splits list.splits option.splits)
qed

lemma write_rest_sends: "write_rest rest late answers sent = Inr out \<Longrightarrow> out = sent @ rest"
proof (induction rest late answers sent rule: write_rest.induct)
  case (1 rest late answers sent)
  show ?case
  proof (cases "rest = []")
    case True
    then show ?thesis using "1.prems" by (subst (asm) write_rest.simps) simp
  next
    case False
    then obtain a as k where a: "answers = a # as" "\<not> (late = [] \<or> hd late)" "transport_answer a = Inr (Some k)" "0 < k"
      "write_rest (drop (nat k) rest) (tl late) as (sent @ take (nat k) rest) = Inr out"
      using "1.prems" by (subst (asm) write_rest.simps)
        (auto simp: perr_def rbind_Inr_iff not_le split: if_splits list.splits option.splits)
    then have "out = (sent @ take (nat k) rest) @ drop (nat k) rest"
      using "1.IH"[OF False] by (metis not_le)
    then show ?thesis by simp
  qed
qed

section \<open>The conversation\<close>

definition json_type :: "jobj \<Rightarrow> ustr" where
  "json_type d = (case get ''type'' d of JStr t \<Rightarrow> t | _ \<Rightarrow> [])"

text \<open>A session that is offered messages one after the other: one that is refused raises and leaves the session as it
  was. The messages it accepts are returned.\<close>

fun offer_all :: "session \<Rightarrow> json list \<Rightarrow> jobj list \<times> session" where
  "offer_all s [] = ([], s)"
| "offer_all s (m # ms) =
     (case accept s m of
        Inl e \<Rightarrow> offer_all s ms
      | Inr (d, s') \<Rightarrow> (let (ds, s'') = offer_all s' ms in (d # ds, s'')))"

fun conversation :: "phase \<Rightarrow> ustr list \<Rightarrow> bool" where
  "conversation p [] = True"
| "conversation p (t # ts) = (t \<in> set (expected_types p) \<and> conversation (next_phase t) ts)"

lemma accept_Inr:
  assumes "accept s m = Inr (d, s')"
  shows "json_type d \<in> set (expected_types (ss_phase s))" "s' = s\<lparr>ss_phase := next_phase (json_type d)\<rparr>"
    "get ''nonce'' d = JStr (ss_nonce s)"
  using assms
  by (auto simp: accept_def perr_def invalid_message_def rbind_Inr_iff json_type_def split: if_splits json.splits)

lemma validate_same: "validate_message m = Inr d \<Longrightarrow> m = JObj d"
  by (auto simp: validate_message_def invalid_message_def perr_def rbind_Inr_iff split: json.splits option.splits if_splits)

lemma accept_validated: "accept s m = Inr (d, s') \<Longrightarrow> m = JObj d \<and> validate_message m = Inr d"
  by (auto simp: accept_def perr_def invalid_message_def rbind_Inr_iff dest: validate_same split: if_splits json.splits)

lemma offer_all_conversation:
  "offer_all s ms = (ds, s') \<Longrightarrow> conversation (ss_phase s) (map json_type ds) \<and> subseq (map JObj ds) ms
     \<and> list_all (\<lambda>d. get ''nonce'' d = JStr (ss_nonce s) \<and> validate_message (JObj d) = Inr d) ds"
proof (induction ms arbitrary: s ds)
  case (Cons m ms)
  show ?case
  proof (cases "accept s m")
    case (Inl e)
    then show ?thesis using Cons by auto
  next
    case (Inr p)
    then obtain d s1 ds' where a: "accept s m = Inr (d, s1)" "offer_all s1 ms = (ds', s')" "ds = d # ds'"
      using Cons.prems by (auto split: prod.splits)
    note f = accept_Inr[OF a(1)]
    have "ss_nonce s1 = ss_nonce s" "ss_phase s1 = next_phase (json_type d)" using f(2) by simp_all
    then show ?thesis using Cons.IH[OF a(2)] f(1,3) accept_validated[OF a(1)] a(3) by auto
  qed
qed auto

lemma conversation_length: "conversation PStart ts \<Longrightarrow>
   ts \<in> {[], [u ''contained''], [u ''contained'', u ''ready''], [u ''contained'', u ''ready'', u ''go''],
     [u ''contained'', u ''ready'', u ''go'', u ''result''], [u ''contained'', u ''ready'', u ''go'', u ''error'']}"
proof -
  have t: "conversation PTerminal ts \<longleftrightarrow> ts = []" for ts by (cases ts) (auto simp: expected_types_def)
  have g: "conversation PGo ts \<longleftrightarrow> ts \<in> {[], [u ''result''], [u ''error'']}" for ts
    by (cases ts) (auto simp: expected_types_def next_phase_def t)
  have r: "conversation PReady ts \<longleftrightarrow> ts = [] \<or> (\<exists>us. ts = u ''go'' # us \<and> conversation PGo us)" for ts
    by (cases ts) (auto simp: expected_types_def next_phase_def)
  have c: "conversation PContained ts \<longleftrightarrow> ts = [] \<or> (\<exists>us. ts = u ''ready'' # us \<and> conversation PReady us)" for ts
    by (cases ts) (auto simp: expected_types_def next_phase_def)
  have s: "conversation PStart ts \<longleftrightarrow> ts = [] \<or> (\<exists>us. ts = u ''contained'' # us \<and> conversation PContained us)" for ts
    by (cases ts) (auto simp: expected_types_def next_phase_def)
  show "conversation PStart ts \<Longrightarrow> ?thesis" using s c r g by auto
qed

lemmas [run] = control_max_def response_max_def max_nonce_def perr_def invalid_message_def nonce_of_def is_str_def
  allowed_fields_def required_fields_def get_def enum_ok_def label_valid_def error_valid_def result_valid_def
  validate_message_def limit_for_def pack32_def unpack32_def encode_frame_def decode_payload_def frame_limit_def
  decode_frame_def transport_answer_def timeout_valid_def protocol_deadline_def state_message_def contained_message_def
  ready_message_def go_message_def result_message_def error_message_def message_view_def new_session_def
  expected_types_def next_phase_def accept_def json_type_def canonical_def sorted_opts_def

definition sample_message :: json where
  "sample_message = JObj [(u ''type'', JStr (u ''error'')), (u ''nonce'', JStr (u ''n1'')), (u ''code'', JStr (u ''timeout''))]"

definition sample_contained :: json where
  "sample_contained = JObj [(u ''type'', JStr (u ''contained'')), (u ''nonce'', JStr (u ''n1''))]"

section \<open>Properties\<close>

text \<open>C11: a frame is read back as the message it encodes, its fields in canonical order, and every frame that is
  accepted is the frame its message encodes to: there is one frame for each message.\<close>

theorem frame_roundtrip:
  assumes "encode_frame m = Inr b" "json_plain m"
  shows "(\<exists>d. validate_message m = Inr d \<and> decode_frame None b = Inr (sort_obj d) \<and> encode_frame (JObj (sort_obj d)) = Inr b)
         \<and> (\<forall>limit c d. decode_frame limit c = Inr d \<and> (\<forall>x \<in> set c. x < 256) \<longrightarrow> encode_frame (JObj d) = Inr c)"
proof -
  obtain d where d: "validate_message m = Inr d" "decode_frame None b = Inr (sort_obj d)"
    using decode_encode[OF assms] by blast
  have "\<forall>x \<in> set b. x < 256"
    using assms(1) utf8_bytes
    by (auto simp: encode_frame_def canonical_def utf8_encode_def pack32_def perr_def rbind_Inr_iff split: if_splits sum.splits)
  then show ?thesis using d decoded_reencodes by blast
qed

lemma sample_frame: "\<exists>b. encode_frame sample_message = Inr b"
proof -
  have "encode_frame sample_message \<noteq> Inl e" for e
    by (simp add: run sample_message_def cong: run_cong)
  then show ?thesis by (cases "encode_frame sample_message") auto
qed

theorem frame_roundtrip_witness:
  "\<exists>b d. encode_frame sample_message = Inr b \<and> decode_frame None b = Inr d"
proof -
  obtain b where b: "encode_frame sample_message = Inr b" using sample_frame by blast
  have "json_plain sample_message" by (simp add: sample_message_def)
  then show ?thesis using frame_roundtrip[OF b] b by blast
qed

text \<open>C12: reading a frame from the transport does not depend on how the transport cuts it: any non-empty pieces of the
  header and of the body give what \<open>decode_frame\<close> gives on the whole, and a write that succeeds has sent the frame
  whole, in order, whatever the counts.\<close>

theorem transport_whole:
  assumes "\<forall>c \<in> set (hs @ bs). c \<noteq> []" "length (concat hs) = 4" "length (concat bs) = unpack32 (concat hs)"
    "unpack32 (concat hs) \<le> response_max"
  shows "read_frame_with_deadline None (replicate (length hs + length bs) False) (map Answer (hs @ bs))
             = decode_frame None (concat (hs @ bs))
         \<and> (\<forall>m late answers out. write_frame_with_deadline m late answers = Inr out \<longrightarrow> encode_frame m = Inr out)"
proof -
  have h: "read_exact 4 (replicate (length hs + length bs) False) (map Answer (hs @ bs)) []
    = Inr (concat hs, replicate (length bs) False, map Answer bs)"
    using read_exact_chunks[of hs 4 "[]" "replicate (length bs) False" "map Answer bs"] assms(1,2)
    by (simp add: replicate_add)
  have b: "read_exact (unpack32 (concat hs)) (replicate (length bs) False) (map Answer bs) [] = Inr (concat bs, [], [])"
    using read_exact_chunks[of bs "unpack32 (concat hs)" "[]" "[]" "[]"] assms(1,3) by simp
  have "read_frame_with_deadline None (replicate (length hs + length bs) False) (map Answer (hs @ bs))
           = decode_frame None (concat (hs @ bs))"
    using assms(4) using assms(2) unfolding read_frame_with_deadline_def h by (simp add: b frame_limit_def Let_def decode_frame_def)
  moreover have "write_frame_with_deadline m late answers = Inr out \<longrightarrow> encode_frame m = Inr out" for m late answers out
    by (auto simp: write_frame_with_deadline_def rbind_Inr_iff dest: write_rest_sends)
  ultimately show ?thesis by blast
qed

theorem transport_whole_witness:
  "read_frame_with_deadline None [False, False, False] (map Answer ([[0, 0], [0, 2]] @ [[123, 125]]))
     = decode_frame None [0, 0, 0, 2, 123, 125]"
  using transport_whole[of "[[0, 0], [0, 2]]" "[[123, 125]]"]
  by (simp add: unpack32_def response_max_def numeral_3_eq_3)

text \<open>C13: whatever messages are offered to a session, in whatever order, the ones it accepts are contained, ready, go
  and then one result or error, in this order and each once; every one of them is one of the messages offered, in
  their order, is valid, and carries the nonce of the session.\<close>

theorem session_order:
  assumes "new_session n = Inr s" "offer_all s ms = (ds, s')"
  shows "map json_type ds \<in> {[], [u ''contained''], [u ''contained'', u ''ready''], [u ''contained'', u ''ready'', u ''go''],
     [u ''contained'', u ''ready'', u ''go'', u ''result''], [u ''contained'', u ''ready'', u ''go'', u ''error'']}
     \<and> list_all (\<lambda>d. get ''nonce'' d = JStr n \<and> validate_message (JObj d) = Inr d) ds \<and> subseq (map JObj ds) ms"
proof -
  have s: "ss_phase s = PStart" "ss_nonce s = n"
    using assms(1) by (auto simp: new_session_def nonce_of_def invalid_message_def perr_def rbind_Inr_iff split: if_splits)
  show ?thesis using offer_all_conversation[OF assms(2)] conversation_length[of "map json_type ds"] s by simp
qed

definition other_contained :: json where
  "other_contained = JObj [(u ''type'', JStr (u ''contained'')), (u ''nonce'', JStr (u ''n2''))]"

theorem session_order_witness:
  "\<exists>s d s'. new_session (u ''n1'') = Inr s \<and> offer_all s [other_contained, sample_contained, sample_contained] = ([d], s')
     \<and> get ''nonce'' d = JStr (u ''n1'')"
proof -
  let ?s = "\<lparr>ss_nonce = u ''n1'', ss_phase = PStart\<rparr>"
  have n: "new_session (u ''n1'') = Inr ?s" by (simp add: run)
  have "accept ?s other_contained = perr ''nonce_mismatch''"
    by (simp add: run other_contained_def cong: run_cong)
  moreover have "accept ?s sample_contained = Inr ([(u ''type'', JStr (u ''contained'')), (u ''nonce'', JStr (u ''n1''))], ?s\<lparr>ss_phase := PContained\<rparr>)"
    by (simp add: run sample_contained_def cong: run_cong)
  moreover have "accept (?s\<lparr>ss_phase := PContained\<rparr>) sample_contained = perr ''invalid_transition''"
    by (simp add: run sample_contained_def cong: run_cong)
  ultimately obtain d where "offer_all ?s [other_contained, sample_contained, sample_contained] = ([d], ?s\<lparr>ss_phase := PContained\<rparr>)"
    by (auto simp: perr_def)
  then show ?thesis using session_order[OF n] n by fastforce
qed

end
