(* ===== verification/Effects.thy ===== *)
theory Effects
  imports PyNum Json
begin

text \<open>
  Methods with effects. A method of an object runs on the object's fields and the world, and either
  returns or raises; the object and the world it leaves are there in both cases, as in Python.

  \<^item> The world is everything outside the sources: the Windows API, the clock, the file system. A call is
    its name and its arguments; the answer is a value or an exception. Nothing is assumed of the answers:
    \<open>w_answer\<close> gives the answer to the \<open>n\<close>-th call whatever it is, and a theorem holds for every such function
    unless it says otherwise. The calls made so far, with their answers, are the trace.
  \<^item> \<open>wp\<close> is the weakest precondition of a method for a postcondition on its normal end and one on its
    exceptional end; the rules of \<open>wp_simps\<close> compute it from the program, so a property of a method is proved by
    the simplifier and a case distinction on the answers.
\<close>

section \<open>The world\<close>

datatype val = VNone | VBool bool | VInt int | VFloat pyfloat | VStr ustr | VBytes bytes | VRef nat

type_synonym call = "string \<times> val list"
type_synonym answered = "call \<times> (py_exn + val)"

record world =
  w_answer :: "nat \<Rightarrow> call \<Rightarrow> py_exn + val"
  w_trace :: "answered list"

text \<open>\<open>bool(value)\<close>.\<close>

definition truthy :: "val \<Rightarrow> bool" where
  "truthy v = (case v of VNone \<Rightarrow> False | VBool b \<Rightarrow> b | VInt n \<Rightarrow> n \<noteq> 0 | VFloat f \<Rightarrow> \<not> float_eq_int f 0
     | VStr s \<Rightarrow> s \<noteq> [] | VBytes b \<Rightarrow> b \<noteq> [] | VRef _ \<Rightarrow> True)"

definition answer_of :: "call \<Rightarrow> world \<Rightarrow> py_exn + val" where
  "answer_of c w = w_answer w (length (w_trace w)) c"

definition logged :: "call \<Rightarrow> world \<Rightarrow> world" where
  "logged c w = w\<lparr>w_trace := w_trace w @ [(c, answer_of c w)]\<rparr>"

lemma logged_simps [simp]:
  "w_answer (logged c w) = w_answer w" "w_trace (logged c w) = w_trace w @ [(c, answer_of c w)]"
  by (simp_all add: logged_def)

text \<open>The calls of a trace, and the ones of a given name.\<close>

definition called :: "string \<Rightarrow> answered list \<Rightarrow> call list" where
  "called n tr = filter (\<lambda>c. fst c = n) (map fst tr)"

lemma called_simps [simp]:
  "called n [] = []" "called n (a # tr) = (if fst (fst a) = n then fst a # called n tr else called n tr)"
  "called n (tr @ tr') = called n tr @ called n tr'"
  by (simp_all add: called_def)

section \<open>Programs\<close>

type_synonym ('o, 'a) prog = "'o \<times> world \<Rightarrow> (py_exn + 'a) \<times> ('o \<times> world)"

definition ret :: "'a \<Rightarrow> ('o, 'a) prog" where "ret x s = (Inr x, s)"
definition fail :: "py_exn \<Rightarrow> ('o, 'a) prog" where "fail e s = (Inl e, s)"

definition bind :: "('o, 'a) prog \<Rightarrow> ('a \<Rightarrow> ('o, 'b) prog) \<Rightarrow> ('o, 'b) prog" where
  "bind m f s = (case m s of (Inl e, s') \<Rightarrow> (Inl e, s') | (Inr x, s') \<Rightarrow> f x s')"

definition andthen :: "('o, 'a) prog \<Rightarrow> ('o, 'b) prog \<Rightarrow> ('o, 'b) prog" where
  "andthen m n = bind m (\<lambda>_. n)"

text \<open>\<open>try: m except: h\<close> with a handler for every exception (one it does not catch it raises again),
  \<open>try: m finally: f\<close>, and the outcome of a method as a value.\<close>

definition catch :: "('o, 'a) prog \<Rightarrow> (py_exn \<Rightarrow> ('o, 'a) prog) \<Rightarrow> ('o, 'a) prog" where
  "catch m h s = (case m s of (Inl e, s') \<Rightarrow> h e s' | (Inr x, s') \<Rightarrow> (Inr x, s'))"

definition ensure :: "('o, 'a) prog \<Rightarrow> ('o, 'b) prog \<Rightarrow> ('o, 'a) prog" where
  "ensure m f s = (case m s of (r, s') \<Rightarrow> (case f s' of (Inl e, s'') \<Rightarrow> (Inl e, s'') | (Inr _, s'') \<Rightarrow> (r, s'')))"

definition outcome :: "('o, 'a) prog \<Rightarrow> ('o, py_exn + 'a) prog" where
  "outcome m s = (case m s of (r, s') \<Rightarrow> (Inr r, s'))"

text \<open>Reading and writing the fields of the object, a call to the world, and a method of a component
  object run inside the object that holds it.\<close>

definition field :: "('o \<Rightarrow> 'a) \<Rightarrow> ('o, 'a) prog" where "field f s = (Inr (f (fst s)), s)"
definition update :: "('o \<Rightarrow> 'o) \<Rightarrow> ('o, unit) prog" where "update f s = (Inr (), (f (fst s), snd s))"
definition ext :: "call \<Rightarrow> ('o, val) prog" where "ext c s = (answer_of c (snd s), (fst s, logged c (snd s)))"
definition lift_result :: "py_exn + 'a \<Rightarrow> ('o, 'a) prog" where "lift_result r s = (r, s)"

definition within :: "('o \<Rightarrow> 'p) \<Rightarrow> ('p \<Rightarrow> 'o \<Rightarrow> 'o) \<Rightarrow> ('p, 'a) prog \<Rightarrow> ('o, 'a) prog" where
  "within sel put m s = (case m (sel (fst s), snd s) of (r, (p, w)) \<Rightarrow> (r, (put p (fst s), w)))"

abbreviation guard_that :: "bool \<Rightarrow> py_exn \<Rightarrow> ('o, unit) prog" where
  "guard_that b e \<equiv> (if b then ret () else fail e)"

text \<open>A loop: the body gets the local variables, and goes on with new ones (\<open>Inl\<close>) or leaves (\<open>Inr\<close>). The fuel
  bounds the iterations; running out of it raises \<open>no_fuel\<close>, which the code never raises.\<close>

primrec loop :: "nat \<Rightarrow> ('v \<Rightarrow> ('o, 'v + 'a) prog) \<Rightarrow> 'v \<Rightarrow> ('o, 'a) prog" where
  "loop 0 body v = fail no_fuel"
| "loop (Suc n) body v = bind (body v) (\<lambda>r. case r of Inl v' \<Rightarrow> loop n body v' | Inr x \<Rightarrow> ret x)"

section \<open>Weakest preconditions\<close>

definition wp :: "('o, 'a) prog \<Rightarrow> ('a \<Rightarrow> 'o \<times> world \<Rightarrow> bool) \<Rightarrow> (py_exn \<Rightarrow> 'o \<times> world \<Rightarrow> bool) \<Rightarrow> 'o \<times> world \<Rightarrow> bool" where
  "wp m Q E s = (case m s of (Inr x, s') \<Rightarrow> Q x s' | (Inl e, s') \<Rightarrow> E e s')"

named_theorems wp_simps \<open>weakest preconditions of the program constructs\<close>

lemma wp_ret [wp_simps]: "wp (ret x) Q E s = Q x s"
  by (simp add: wp_def ret_def)

lemma wp_fail [wp_simps]: "wp (fail e) Q E s = E e s"
  by (simp add: wp_def fail_def)

lemma wp_bind [wp_simps]: "wp (bind m f) Q E s = wp m (\<lambda>x. wp (f x) Q E) E s"
  by (simp add: wp_def bind_def split: prod.splits sum.splits)

lemma wp_andthen [wp_simps]: "wp (andthen m n) Q E s = wp m (\<lambda>_. wp n Q E) E s"
  by (simp add: andthen_def wp_bind)

lemma wp_catch [wp_simps]: "wp (catch m h) Q E s = wp m Q (\<lambda>e. wp (h e) Q E) s"
  by (simp add: wp_def catch_def split: prod.splits sum.splits)

lemma wp_ensure [wp_simps]: "wp (ensure m f) Q E s = wp m (\<lambda>x. wp f (\<lambda>_. Q x) E) (\<lambda>e. wp f (\<lambda>_. E e) E) s"
  by (simp add: wp_def ensure_def split: prod.splits sum.splits)

lemma wp_outcome [wp_simps]: "wp (outcome m) Q E s = wp m (\<lambda>x. Q (Inr x)) (\<lambda>e. Q (Inl e)) s"
  by (simp add: wp_def outcome_def split: prod.splits sum.splits)

lemma wp_field [wp_simps]: "wp (field f) Q E s = Q (f (fst s)) s"
  by (simp add: wp_def field_def)

lemma wp_update [wp_simps]: "wp (update f) Q E s = Q () (f (fst s), snd s)"
  by (simp add: wp_def update_def)

lemma wp_ext [wp_simps]: "wp (ext c) Q E s =
    (case answer_of c (snd s) of Inr x \<Rightarrow> Q x (fst s, logged c (snd s)) | Inl e \<Rightarrow> E e (fst s, logged c (snd s)))"
  by (simp add: wp_def ext_def split: sum.splits)

lemma wp_lift [wp_simps]: "wp (lift_result r) Q E s = (case r of Inr x \<Rightarrow> Q x s | Inl e \<Rightarrow> E e s)"
  by (simp add: wp_def lift_result_def split: sum.splits)

lemma wp_within [wp_simps]: "wp (within sel put m) Q E s =
    wp m (\<lambda>x t. Q x (put (fst t) (fst s), snd t)) (\<lambda>e t. E e (put (fst t) (fst s), snd t)) (sel (fst s), snd s)"
  by (simp add: wp_def within_def split: prod.splits sum.splits)

lemma wp_if [wp_simps]: "wp (if b then m else n) Q E s = (if b then wp m Q E s else wp n Q E s)"
  by simp

lemma wp_Let [wp_simps]: "wp (let x = v in f x) Q E s = (let x = v in wp (f x) Q E s)"
  by simp

lemma wp_option [wp_simps]:
  "wp (case x of None \<Rightarrow> m | Some y \<Rightarrow> f y) Q E s = (case x of None \<Rightarrow> wp m Q E s | Some y \<Rightarrow> wp (f y) Q E s)"
  by (simp split: option.splits)

lemma wp_sum [wp_simps]:
  "wp (case x of Inl y \<Rightarrow> f y | Inr y \<Rightarrow> g y) Q E s = (case x of Inl y \<Rightarrow> wp (f y) Q E s | Inr y \<Rightarrow> wp (g y) Q E s)"
  by (simp split: sum.splits)

lemma wp_prod [wp_simps]: "wp (case x of (a, b) \<Rightarrow> f a b) Q E s = (case x of (a, b) \<Rightarrow> wp (f a b) Q E s)"
  by (simp split: prod.splits)

lemma wp_mono: "wp m Q E s \<Longrightarrow> (\<And>x s'. Q x s' \<Longrightarrow> Q' x s') \<Longrightarrow> (\<And>e s'. E e s' \<Longrightarrow> E' e s') \<Longrightarrow> wp m Q' E' s"
  by (auto simp: wp_def split: prod.splits sum.splits)

lemma wp_conj: "wp m Q E s \<Longrightarrow> wp m Q' E' s \<Longrightarrow> wp m (\<lambda>x t. Q x t \<and> Q' x t) (\<lambda>e t. E e t \<and> E' e t) s"
  by (auto simp: wp_def split: prod.splits sum.splits)

lemma wp_ends: "wp m (\<lambda>x t. P (Inr x) t) (\<lambda>e t. P (Inl e) t) s = (case m s of (r, t) \<Rightarrow> P r t)"
  by (simp add: wp_def split: prod.splits sum.splits)

text \<open>From a precondition to what a run of the method did.\<close>

lemma wpD_Inr: "m s = (Inr x, t) \<Longrightarrow> wp m Q E s \<Longrightarrow> Q x t"
  by (simp add: wp_def)

lemma wpD_Inl: "m s = (Inl e, t) \<Longrightarrow> wp m Q E s \<Longrightarrow> E e t"
  by (simp add: wp_def)

lemma wpD: "m s = (r, t) \<Longrightarrow> wp m (\<lambda>x. P (Inr x)) (\<lambda>e. P (Inl e)) s \<Longrightarrow> P r t"
  by (cases r) (simp_all add: wp_def)

text \<open>The loop rule: an invariant of the local variables and the state that every turn keeps. Running out of fuel is
  an exceptional end like the others, so what holds on it must be given.\<close>

lemma wp_loop:
  assumes "I v s"
    and step: "\<And>v s. I v s \<Longrightarrow> wp (body v) (\<lambda>r t. case r of Inl v' \<Rightarrow> I v' t | Inr x \<Rightarrow> Q x t) E s"
    and fuel: "\<And>v s. I v s \<Longrightarrow> E no_fuel s"
  shows "wp (loop n body v) Q E s"
  using assms(1)
proof (induction n arbitrary: v s)
  case 0
  then show ?case using fuel by (simp add: wp_simps)
next
  case (Suc n)
  show ?case
    unfolding loop.simps wp_bind
    by (rule wp_mono[OF step[OF Suc.prems]]) (auto simp: wp_ret split: sum.splits intro: Suc.IH)
qed

text \<open>A loop whose turns need less fuel each time never runs out of it.\<close>

lemma wp_loop_measure:
  assumes "I v s" "\<mu> v s < n"
    and step: "\<And>v s. I v s \<Longrightarrow> wp (body v) (\<lambda>r t. case r of Inl v' \<Rightarrow> I v' t \<and> \<mu> v' t < (\<mu> v s :: nat) | Inr x \<Rightarrow> Q x t) E s"
  shows "wp (loop n body v) Q E s"
  using assms(1,2)
proof (induction n arbitrary: v s)
  case 0
  then show ?case by simp
next
  case (Suc n)
  show ?case
    unfolding loop.simps wp_bind
    by (rule wp_mono[OF step[OF Suc.prems(1)]]) (use Suc.prems(2) in \<open>auto simp: wp_ret split: sum.splits intro: Suc.IH\<close>)
qed

text \<open>What no method changes: the answers; and what every method keeps: the calls already made.\<close>

definition extends :: "world \<Rightarrow> world \<Rightarrow> bool" where
  "extends w w' \<longleftrightarrow> w_answer w' = w_answer w \<and> (\<exists>tr. w_trace w' = w_trace w @ tr)"

lemma extends_refl [simp, intro]: "extends w w"
  by (simp add: extends_def)

lemma extends_logged [simp, intro]: "extends w (logged c w)"
  by (simp add: extends_def)

lemma extends_trans: "extends a b \<Longrightarrow> extends b c \<Longrightarrow> extends a c"
  by (auto simp: extends_def)

text \<open>A call of a name and arguments made since a world, with an answer that satisfies a predicate.\<close>

definition since :: "world \<Rightarrow> world \<Rightarrow> string \<Rightarrow> val list \<Rightarrow> (val \<Rightarrow> bool) \<Rightarrow> bool" where
  "since w w' n args P \<longleftrightarrow> (\<exists>v. ((n, args), Inr v) \<in> set (drop (length (w_trace w)) (w_trace w')) \<and> P v)"

lemma since_refl [simp]: "\<not> since w w n args P"
  by (simp add: since_def)

lemma since_logged [simp]: "extends w w1 \<Longrightarrow>
    since w (logged c w1) n args P \<longleftrightarrow> since w w1 n args P \<or> (c = (n, args) \<and> (\<exists>v. answer_of c w1 = Inr v \<and> P v))"
  by (auto simp: since_def extends_def)

lemma since_grows: "since w w1 n args P \<Longrightarrow> extends w w1 \<Longrightarrow> extends w1 w2 \<Longrightarrow> since w w2 n args P"
  by (auto simp: since_def extends_def)

lemma since_earlier: "since w1 w2 n args P \<Longrightarrow> extends w w1 \<Longrightarrow> extends w1 w2 \<Longrightarrow> since w w2 n args P"
  by (auto simp: since_def extends_def)

text \<open>The calls made since a world, kept folded.\<close>

definition recent :: "world \<Rightarrow> world \<Rightarrow> answered list" where
  "recent w w' = drop (length (w_trace w)) (w_trace w')"

lemma recent_refl [simp]: "recent w w = []"
  by (simp add: recent_def)

lemma recent_logged [simp]: "extends w w1 \<Longrightarrow> recent w (logged c w1) = recent w w1 @ [(c, answer_of c w1)]"
  by (auto simp: recent_def extends_def)

lemma recent_trans: "extends w w1 \<Longrightarrow> extends w1 w2 \<Longrightarrow> recent w w2 = recent w w1 @ recent w1 w2"
  by (auto simp: recent_def extends_def)

lemma since_recent: "since w w' n a P \<longleftrightarrow> (\<exists>v. ((n, a), Inr v) \<in> set (recent w w') \<and> P v)"
  by (simp add: since_def recent_def)

lemma called_since: "called n (recent w w1) = [] \<Longrightarrow> \<not> since w w1 n a P"
  by (force simp: called_def since_def recent_def filter_empty_conv)

lemma extends_logged_iff [simp]: "extends w w1 \<Longrightarrow> extends w (logged c w1)"
  using extends_trans by blast

text \<open>A local object beside the object of the method: the inner method changes both, the local one ends with it. And a
  value on which a method of its own class runs.\<close>

definition with_local :: "'v \<Rightarrow> ('o \<times> 'v, 'a) prog \<Rightarrow> ('o, 'a) prog" where
  "with_local v m s = (case m ((fst s, v), snd s) of (r, (ov, w)) \<Rightarrow> (r, (fst ov, w)))"

abbreviation on_object :: "('o, 'a) prog \<Rightarrow> ('o \<times> 'v, 'a) prog" where
  "on_object m \<equiv> within fst (\<lambda>x p. (x, snd p)) m"

abbreviation on_local :: "('v, 'a) prog \<Rightarrow> ('o \<times> 'v, 'a) prog" where
  "on_local m \<equiv> within snd (\<lambda>x p. (fst p, x)) m"

lemma wp_with_local [wp_simps]: "wp (with_local v m) Q E s =
    wp m (\<lambda>x t. Q x (fst (fst t), snd t)) (\<lambda>e t. E e (fst (fst t), snd t)) ((fst s, v), snd s)"
  by (simp add: wp_def with_local_def split: prod.splits sum.splits)

section \<open>Which calls a method makes\<close>

text \<open>\<open>calls N m\<close>: whatever the state and the answers, \<open>m\<close> only adds to the trace, and only calls with names in \<open>N\<close>.\<close>

definition calls :: "string set \<Rightarrow> ('o, 'a) prog \<Rightarrow> bool" where
  "calls N m \<longleftrightarrow> (\<forall>s. extends (snd s) (snd (snd (m s))) \<and> (\<forall>a \<in> set (recent (snd s) (snd (snd (m s)))). fst (fst a) \<in> N))"

named_theorems calls_intros \<open>the calls of the program constructs\<close>

lemma callsD: "calls N m \<Longrightarrow> m s = (r, t) \<Longrightarrow> extends (snd s) (snd t) \<and> (\<forall>a \<in> set (recent (snd s) (snd t)). fst (fst a) \<in> N)"
  unfolding calls_def by (drule spec[of _ s]) simp

lemma calls_wp: "calls N m \<Longrightarrow> wp m (\<lambda>_ t. extends (snd s) (snd t) \<and> (\<forall>a \<in> set (recent (snd s) (snd t)). fst (fst a) \<in> N))
    (\<lambda>_ t. extends (snd s) (snd t) \<and> (\<forall>a \<in> set (recent (snd s) (snd t)). fst (fst a) \<in> N)) s"
  using callsD[of N m s] by (cases "m s") (simp add: wp_def split: sum.split)

lemma calls_mono: "calls N m \<Longrightarrow> N \<subseteq> M \<Longrightarrow> calls M m"
  unfolding calls_def by blast

lemma calls_chain:
  assumes "extends w w1 \<and> (\<forall>a \<in> set (recent w w1). fst (fst a) \<in> N)" "extends w1 w2 \<and> (\<forall>a \<in> set (recent w1 w2). fst (fst a) \<in> N)"
  shows "extends w w2 \<and> (\<forall>a \<in> set (recent w w2). fst (fst a) \<in> N)"
  using recent_trans[of w w1 w2] extends_trans[of w w1 w2] assms by auto

lemma calls_pure [calls_intros]: "calls N (ret x)" "calls N (fail e)" "calls N (field f)" "calls N (update g)" "calls N (lift_result r)"
  by (simp_all add: calls_def ret_def fail_def field_def update_def lift_result_def)

lemma calls_ext [calls_intros]: "fst c \<in> N \<Longrightarrow> calls N (ext c)"
  by (simp add: calls_def ext_def)

lemma calls_bind [calls_intros]: "calls N m \<Longrightarrow> (\<And>x. calls N (f x)) \<Longrightarrow> calls N (bind m f)"
  unfolding calls_def[of N "bind m f"] bind_def
proof (intro allI, goal_cases)
  case (1 s)
  obtain r t where e: "m s = (r, t)" by (cases "m s")
  note m = callsD[OF 1(1) e]
  show ?case
  proof (cases r)
    case (Inr x)
    obtain r' t' where f: "f x t = (r', t')" by (cases "f x t")
    show ?thesis using calls_chain[OF m callsD[OF 1(2) f]] e Inr f by simp
  qed (use m e in simp)
qed

lemma calls_catch [calls_intros]: "calls N m \<Longrightarrow> (\<And>e. calls N (h e)) \<Longrightarrow> calls N (catch m h)"
  unfolding calls_def[of N "catch m h"] catch_def
proof (intro allI, goal_cases)
  case (1 s)
  obtain r t where e: "m s = (r, t)" by (cases "m s")
  note m = callsD[OF 1(1) e]
  show ?case
  proof (cases r)
    case (Inl x)
    obtain r' t' where h: "h x t = (r', t')" by (cases "h x t")
    show ?thesis using calls_chain[OF m callsD[OF 1(2) h]] e Inl h by simp
  qed (use m e in simp)
qed

lemma calls_andthen [calls_intros]: "calls N m \<Longrightarrow> calls N n \<Longrightarrow> calls N (andthen m n)"
  by (simp add: andthen_def calls_bind)

lemma calls_ensure [calls_intros]: "calls N m \<Longrightarrow> calls N f \<Longrightarrow> calls N (ensure m f)"
  unfolding calls_def[of N "ensure m f"] ensure_def
proof (intro allI, goal_cases)
  case (1 s)
  obtain r t where m: "m s = (r, t)" by (cases "m s")
  obtain q v where f: "f t = (q, v)" by (cases "f t")
  show ?case using calls_chain[OF callsD[OF 1(1) m] callsD[OF 1(2) f]] m f by (cases q) simp_all
qed

lemma calls_outcome [calls_intros]: "calls N m \<Longrightarrow> calls N (outcome m)"
  by (simp add: calls_def outcome_def split_def)

lemma calls_within [calls_intros]: "calls N m \<Longrightarrow> calls N (within sel put m)"
  by (simp add: calls_def within_def split_def)

lemma calls_with_local [calls_intros]: "calls N m \<Longrightarrow> calls N (with_local v m)"
  by (simp add: calls_def with_local_def split_def)

lemma calls_if [calls_intros]: "(b \<Longrightarrow> calls N m) \<Longrightarrow> (\<not> b \<Longrightarrow> calls N n) \<Longrightarrow> calls N (if b then m else n)"
  by simp

lemma calls_cases [calls_intros]:
  "calls N m \<Longrightarrow> (\<And>y. calls N (f y)) \<Longrightarrow> calls N (case z of None \<Rightarrow> m | Some y \<Rightarrow> f y)"
  "(\<And>x. calls N (g x)) \<Longrightarrow> (\<And>y. calls N (h y)) \<Longrightarrow> calls N (case q of Inl x \<Rightarrow> g x | Inr y \<Rightarrow> h y)"
  "(\<And>x y. calls N (k x y)) \<Longrightarrow> calls N (case p of (x, y) \<Rightarrow> k x y)"
  "(\<And>x. calls N (l x)) \<Longrightarrow> calls N (let x = v in l x)"
  by (auto split: option.split sum.split prod.split)

lemma calls_val_case [calls_intros]:
  "calls N a \<Longrightarrow> (\<And>x. calls N (b x)) \<Longrightarrow> (\<And>x. calls N (c x)) \<Longrightarrow> (\<And>x. calls N (d x)) \<Longrightarrow> (\<And>x. calls N (e x)) \<Longrightarrow>
   (\<And>x. calls N (f x)) \<Longrightarrow> (\<And>x. calls N (g x)) \<Longrightarrow>
   calls N (case v of VNone \<Rightarrow> a | VBool x \<Rightarrow> b x | VInt x \<Rightarrow> c x | VFloat x \<Rightarrow> d x | VStr x \<Rightarrow> e x | VBytes x \<Rightarrow> f x | VRef x \<Rightarrow> g x)"
  by (cases v) auto

lemma calls_json_case [calls_intros]:
  "calls N a \<Longrightarrow> (\<And>x. calls N (b x)) \<Longrightarrow> (\<And>x. calls N (c x)) \<Longrightarrow> (\<And>x. calls N (d x)) \<Longrightarrow> (\<And>x. calls N (e x)) \<Longrightarrow>
   (\<And>x. calls N (f x)) \<Longrightarrow> (\<And>x. calls N (g x)) \<Longrightarrow>
   calls N (case v of JNull \<Rightarrow> a | JBool x \<Rightarrow> b x | JInt x \<Rightarrow> c x | JFloat x \<Rightarrow> d x | JStr x \<Rightarrow> e x | JList x \<Rightarrow> f x | JObj x \<Rightarrow> g x)"
  by (cases v) auto

lemma calls_loop [calls_intros]: "(\<And>v. calls N (body v)) \<Longrightarrow> calls N (loop n body v)"
  by (induction n arbitrary: v) (auto intro!: calls_intros)

section \<open>Clocks and numbers\<close>

text \<open>A clock in nanoseconds is an integer, one in seconds is a double.\<close>

definition as_int :: "val \<Rightarrow> py_exn + int" where
  "as_int v = (case v of VInt n \<Rightarrow> Inr n | VBool b \<Rightarrow> Inr (of_bool b) | _ \<Rightarrow> Inl (TypeError ''int''))"

definition as_float :: "val \<Rightarrow> py_exn + pyfloat" where
  "as_float v = (case v of VFloat f \<Rightarrow> Inr f | _ \<Rightarrow> Inl (TypeError ''float''))"

definition clock_ns :: "('o, int) prog" where
  "clock_ns = bind (ext (''clock_ns'', [])) (\<lambda>v. lift_result (as_int v))"

definition clock_seconds :: "('o, pyfloat) prog" where
  "clock_seconds = bind (ext (''clock'', [])) (\<lambda>v. lift_result (as_float v))"

lemma calls_clock [calls_intros]: "''clock_ns'' \<in> N \<Longrightarrow> calls N clock_ns" "''clock'' \<in> N \<Longrightarrow> calls N clock_seconds"
  by (auto simp: clock_ns_def clock_seconds_def intro!: calls_intros)

lemma clock_seconds_wp [wp_simps]:
  "wp clock_seconds Q E s = (case answer_of (''clock'', []) (snd s) of
     Inr x \<Rightarrow> (case as_float x of Inr f \<Rightarrow> Q f (fst s, logged (''clock'', []) (snd s)) | Inl e \<Rightarrow> E e (fst s, logged (''clock'', []) (snd s)))
   | Inl e \<Rightarrow> E e (fst s, logged (''clock'', []) (snd s)))"
  by (auto simp: clock_seconds_def wp_simps split: sum.splits)

lemma clock_ns_wp [wp_simps]:
  "wp clock_ns Q E s = (case answer_of (''clock_ns'', []) (snd s) of
     Inr x \<Rightarrow> (case as_int x of Inr f \<Rightarrow> Q f (fst s, logged (''clock_ns'', []) (snd s)) | Inl e \<Rightarrow> E e (fst s, logged (''clock_ns'', []) (snd s)))
   | Inl e \<Rightarrow> E e (fst s, logged (''clock_ns'', []) (snd s)))"
  by (auto simp: clock_ns_def wp_simps split: sum.splits)

text \<open>Sum and difference of doubles, rounded; the negation is exact.\<close>

fun float_neg :: "pyfloat \<Rightarrow> pyfloat" where
  "float_neg (FFin s m e) = FFin (\<not> s) m e"
| "float_neg (FInf s) = FInf (\<not> s)"
| "float_neg FNaN = FNaN"

fun float_add :: "pyfloat \<Rightarrow> pyfloat \<Rightarrow> pyfloat" where
  "float_add (FFin s m e) (FFin t k f) =
     (let (n, d) = float_num s m e; (p, q) = float_num t k f; x = n * int q + p * int d in
      if x = 0 then FFin (s \<and> t) 0 (-1074) else float_of (x < 0) (nat \<bar>x\<bar>) (d * q))"
| "float_add (FInf s) (FInf t) = (if s = t then FInf s else FNaN)"
| "float_add (FInf s) (FFin _ _ _) = FInf s"
| "float_add (FFin _ _ _) (FInf s) = FInf s"
| "float_add _ _ = FNaN"

definition float_sub :: "pyfloat \<Rightarrow> pyfloat \<Rightarrow> pyfloat" where
  "float_sub x y = float_add x (float_neg y)"

fun float_less :: "pyfloat \<Rightarrow> pyfloat \<Rightarrow> bool" where
  "float_less (FFin s m e) (FFin t k f) =
     (let (n, d) = float_num s m e; (p, q) = float_num t k f in n * int q < p * int d)"
| "float_less (FFin _ _ _) (FInf t) = (\<not> t)"
| "float_less (FInf s) (FFin _ _ _) = s"
| "float_less (FInf s) (FInf t) = (s \<and> \<not> t)"
| "float_less _ _ = False"

definition float_min :: "pyfloat \<Rightarrow> pyfloat \<Rightarrow> pyfloat" where
  "float_min x y = (if float_less y x then y else x)"

lemmas [run] = ret_def fail_def bind_def andthen_def catch_def ensure_def outcome_def field_def update_def ext_def lift_result_def
  within_def with_local_def answer_of_def logged_def truthy_def as_int_def as_float_def clock_ns_def clock_seconds_def called_def

end
