(* ===== verification/ResourceCore.thy ===== *)
theory ResourceCore
  imports Effects
begin

text \<open>
  \<open>_codex_resource_core.py\<close>: descriptors with generations, the registry that says which generation of a number is
  current, endpoints, and pairs of endpoints with one owner. Generation and owner tokens are objects compared by
  identity, so they are references; a closer is a callable from outside, called as \<open>closer\<close>, and its answer
  is one of the two members of \<open>_CloseOutcome\<close>, anything else, or an exception. A closer that calls back into
  the pair it closes is not modelled: the \<open>CLOSING\<close> branches that refuse it are.
\<close>

section \<open>Errors and tokens\<close>

definition cleanup_error_rc :: py_exn where "cleanup_error_rc = ResourceError ''_CleanupError''"
definition indeterminate_error :: py_exn where "indeterminate_error = ResourceError ''_IndeterminateCleanupError''"
definition ownership_error :: py_exn where "ownership_error = ResourceError ''_OwnershipError''"
definition stale_error :: py_exn where "stale_error = ResourceError ''_StaleGenerationError''"
definition assertion_error :: py_exn where "assertion_error = RuntimeError ''AssertionError''"

fun is_ResourceError :: "py_exn \<Rightarrow> bool" where
  "is_ResourceError (ResourceError _) = True"
| "is_ResourceError _ = False"

lemmas rc_errors = cleanup_error_rc_def indeterminate_error_def ownership_error_def stale_error_def assertion_error_def

datatype close_outcome = CClosed | CRetry

definition outcome_closed :: val where "outcome_closed = VRef 0"
definition outcome_retry :: val where "outcome_retry = VRef 1"

record fd_identity =
  fd_number :: int
  fd_generation :: nat

record endpoint_spec =
  sp_identity :: fd_identity
  sp_closer :: nat

section \<open>The registry\<close>

record registry =
  rg_current :: "(int \<times> fd_identity) list"
  rg_retired :: "fd_identity list"

definition new_registry :: registry where
  "new_registry = \<lparr>rg_current = [], rg_retired = []\<rparr>"

definition is_current :: "fd_identity \<Rightarrow> registry \<Rightarrow> bool" where
  "is_current i r \<longleftrightarrow> dict_get (fd_number i) (rg_current r) = Some i"

definition can_register :: "fd_identity \<Rightarrow> registry \<Rightarrow> bool" where
  "can_register i r \<longleftrightarrow> i \<notin> set (rg_retired r) \<and> dict_get (fd_number i) (rg_current r) \<noteq> Some i"

definition register :: "fd_identity \<Rightarrow> registry \<Rightarrow> registry" where
  "register i r =
     r\<lparr>rg_retired := (case dict_get (fd_number i) (rg_current r) of None \<Rightarrow> rg_retired r | Some c \<Rightarrow> c # rg_retired r),
       rg_current := dict_put (fd_number i) i (rg_current r)\<rparr>"

definition retire :: "fd_identity \<Rightarrow> registry \<Rightarrow> registry" where
  "retire i r =
     r\<lparr>rg_current := (if is_current i r then filter (\<lambda>(n, _). n \<noteq> fd_number i) (rg_current r) else rg_current r),
       rg_retired := i # rg_retired r\<rparr>"

definition closer_call :: "endpoint_spec \<Rightarrow> call" where
  "closer_call sp =
     (''closer'', [VRef (sp_closer sp), VInt (fd_number (sp_identity sp)), VRef (fd_generation (sp_identity sp))])"

definition registry_close :: "endpoint_spec \<Rightarrow> (registry, close_outcome) prog" where
  "registry_close sp =
     bind (field (is_current (sp_identity sp))) (\<lambda>current.
     if \<not> current then fail stale_error
     else
       bind (outcome (ext (closer_call sp))) (\<lambda>answer. case answer of
         Inl _ \<Rightarrow> andthen (update (retire (sp_identity sp))) (fail indeterminate_error)
       | Inr v \<Rightarrow>
           if v = outcome_closed then andthen (update (retire (sp_identity sp))) (ret CClosed)
           else if v = outcome_retry then ret CRetry
           else andthen (update (retire (sp_identity sp))) (fail indeterminate_error)))"

section \<open>Endpoints\<close>

datatype endpoint_state = EOpen | EClosing | EBroken | ETerminal | EClosed

record endpoint =
  ep_spec :: "endpoint_spec option"
  ep_state :: endpoint_state
  ep_error :: "py_exn option"

definition new_endpoint :: "endpoint_spec \<Rightarrow> endpoint" where
  "new_endpoint sp = \<lparr>ep_spec = Some sp, ep_state = EOpen, ep_error = None\<rparr>"

definition transferable :: "endpoint \<Rightarrow> registry \<Rightarrow> bool" where
  "transferable ep r \<longleftrightarrow> ep_state ep = EOpen \<and>
     (case ep_spec ep of None \<Rightarrow> False | Some sp \<Rightarrow> is_current (sp_identity sp) r)"

definition set_endpoint :: "(endpoint \<Rightarrow> endpoint) \<Rightarrow> (endpoint \<times> registry, unit) prog" where
  "set_endpoint f = update (\<lambda>(ep, r). (f ep, r))"

definition endpoint_close :: "(endpoint \<times> registry, unit) prog" where
  "endpoint_close =
     bind (field fst) (\<lambda>ep.
     if ep_state ep = EClosed then ret ()
     else if ep_state ep = ETerminal then (case ep_error ep of None \<Rightarrow> fail assertion_error | Some e \<Rightarrow> fail e)
     else if ep_state ep = EClosing then fail ownership_error
     else
       andthen (set_endpoint (\<lambda>ep. ep\<lparr>ep_state := EClosing\<rparr>))
         (case ep_spec ep of
            None \<Rightarrow> fail assertion_error
          | Some sp \<Rightarrow>
              bind (outcome (within snd (\<lambda>r (ep, _). (ep, r)) (registry_close sp))) (\<lambda>result. case result of
                Inl e \<Rightarrow>
                  if e = stale_error \<or> e = indeterminate_error
                  then andthen (set_endpoint (\<lambda>ep. ep\<lparr>ep_state := ETerminal, ep_error := Some e\<rparr>)) (fail e)
                  else fail e
              | Inr CRetry \<Rightarrow> andthen (set_endpoint (\<lambda>ep. ep\<lparr>ep_state := EBroken\<rparr>)) (fail cleanup_error_rc)
              | Inr CClosed \<Rightarrow> set_endpoint (\<lambda>ep. ep\<lparr>ep_spec := None, ep_state := EClosed\<rparr>))))"

section \<open>Pairs\<close>

datatype pair_state = ROpen | RClosing | RBroken | RClosed

record ipc_pair =
  ip_read :: endpoint
  ip_write :: endpoint
  ip_owner :: "nat option"
  ip_state :: pair_state

definition new_ipc_pair :: "endpoint_spec \<Rightarrow> endpoint_spec \<Rightarrow> nat option \<Rightarrow> (registry, ipc_pair) prog" where
  "new_ipc_pair rd wr owner =
     andthen (guard_that (owner \<noteq> None \<and> fd_number (sp_identity rd) \<noteq> fd_number (sp_identity wr)) ownership_error)
     (bind (field (\<lambda>r. can_register (sp_identity rd) r \<and> can_register (sp_identity wr) r)) (\<lambda>free.
      if \<not> free then fail ownership_error
      else
        andthen (update (register (sp_identity rd)))
        (andthen (update (register (sp_identity wr)))
         (ret \<lparr>ip_read = new_endpoint rd, ip_write = new_endpoint wr, ip_owner = owner, ip_state = ROpen\<rparr>))))"

definition pair_transfer :: "nat option \<Rightarrow> nat option \<Rightarrow> (ipc_pair \<times> registry, unit) prog" where
  "pair_transfer previous current =
     bind (field id) (\<lambda>(p, r).
     if ip_state p \<noteq> ROpen \<or> ip_owner p \<noteq> previous \<or> current = None then fail ownership_error
     else if \<not> transferable (ip_read p) r then fail ownership_error
     else if \<not> transferable (ip_write p) r then fail ownership_error
     else update (\<lambda>(p, r). (p\<lparr>ip_owner := current\<rparr>, r)))"

text \<open>One turn of the loop over the endpoints: a terminal endpoint is skipped, and the first error of each kind is
  kept. The accumulator is \<open>(indeterminate, retry, other)\<close>.\<close>

type_synonym close_errors = "py_exn option \<times> py_exn option \<times> py_exn option"

definition first_error :: "py_exn option \<Rightarrow> py_exn \<Rightarrow> py_exn option" where
  "first_error known e = (case known of None \<Rightarrow> Some e | Some k \<Rightarrow> Some k)"

definition pair_turn ::
  "(ipc_pair \<Rightarrow> endpoint) \<Rightarrow> (endpoint \<Rightarrow> ipc_pair \<Rightarrow> ipc_pair) \<Rightarrow> close_errors \<Rightarrow> (ipc_pair \<times> registry, close_errors) prog" where
  "pair_turn sel put errs =
     bind (field (\<lambda>(p, _). ep_state (sel p))) (\<lambda>st.
     if st = ETerminal then ret errs
     else
       bind (outcome (within (\<lambda>(p, r). (sel p, r)) (\<lambda>(ep, r) (p, _). (put ep p, r)) endpoint_close)) (\<lambda>result.
       case result of
         Inr _ \<Rightarrow> ret errs
       | Inl e \<Rightarrow>
           (case errs of (indeterminate, retry, other) \<Rightarrow>
             if e = indeterminate_error then ret (first_error indeterminate e, retry, other)
             else if e = cleanup_error_rc then ret (indeterminate, first_error retry e, other)
             else if is_ResourceError e then ret (indeterminate, retry, first_error other e)
             else fail e)))"

definition set_pair :: "(ipc_pair \<Rightarrow> ipc_pair) \<Rightarrow> (ipc_pair \<times> registry, unit) prog" where
  "set_pair f = update (\<lambda>(p, r). (f p, r))"

definition pair_close :: "nat option \<Rightarrow> (ipc_pair \<times> registry, unit) prog" where
  "pair_close owner =
     bind (field fst) (\<lambda>p.
     if ip_state p = RClosed then ret ()
     else if ip_state p = RClosing \<or> owner \<noteq> ip_owner p then fail ownership_error
     else
       andthen (set_pair (\<lambda>p. p\<lparr>ip_state := RClosing\<rparr>))
       (bind (pair_turn ip_write (\<lambda>ep p. p\<lparr>ip_write := ep\<rparr>) (None, None, None)) (\<lambda>errs.
        bind (pair_turn ip_read (\<lambda>ep p. p\<lparr>ip_read := ep\<rparr>) errs) (\<lambda>(indeterminate, retry, other).
        case (indeterminate, retry, other) of
          (Some e, _, _) \<Rightarrow> andthen (set_pair (\<lambda>p. p\<lparr>ip_state := RBroken\<rparr>)) (fail e)
        | (None, Some e, _) \<Rightarrow> andthen (set_pair (\<lambda>p. p\<lparr>ip_state := RBroken\<rparr>)) (fail e)
        | (None, None, Some e) \<Rightarrow> andthen (set_pair (\<lambda>p. p\<lparr>ip_state := RBroken\<rparr>)) (fail e)
        | (None, None, None) \<Rightarrow> set_pair (\<lambda>p. p\<lparr>ip_owner := None, ip_state := RClosed\<rparr>)))))"

section \<open>Many pairs on one registry\<close>

record pair_system =
  sy_registry :: registry
  sy_pairs :: "ipc_pair list"

inductive pair_step :: "pair_system \<times> world \<Rightarrow> pair_system \<times> world \<Rightarrow> bool" where
  step_new: "new_ipc_pair rd wr owner (sy_registry y, w) = (Inr p, (r, w')) \<Longrightarrow>
    pair_step (y, w) (y\<lparr>sy_registry := r, sy_pairs := sy_pairs y @ [p]\<rparr>, w')"
| step_refused: "new_ipc_pair rd wr owner (sy_registry y, w) = (Inl e, (r, w')) \<Longrightarrow>
    pair_step (y, w) (y\<lparr>sy_registry := r\<rparr>, w')"
| step_transfer: "k < length (sy_pairs y) \<Longrightarrow> pair_transfer o1 o2 ((sy_pairs y ! k, sy_registry y), w) = (res, ((p, r), w')) \<Longrightarrow>
    pair_step (y, w) (y\<lparr>sy_registry := r, sy_pairs := (sy_pairs y)[k := p]\<rparr>, w')"
| step_close: "k < length (sy_pairs y) \<Longrightarrow> pair_close o1 ((sy_pairs y ! k, sy_registry y), w) = (res, ((p, r), w')) \<Longrightarrow>
    pair_step (y, w) (y\<lparr>sy_registry := r, sy_pairs := (sy_pairs y)[k := p]\<rparr>, w')"

definition fresh_system :: "world \<Rightarrow> pair_system \<times> world" where
  "fresh_system w = (\<lparr>sy_registry = new_registry, sy_pairs = []\<rparr>, w\<lparr>w_trace := []\<rparr>)"

text \<open>A descriptor is finished when its closer gave an answer other than a request to retry. \<open>closed_once\<close>: after that,
  no closer is ever called on it.\<close>

definition finished :: "answered list \<Rightarrow> fd_identity \<Rightarrow> bool" where
  "finished tr i \<longleftrightarrow> (\<exists>sp ans. (closer_call sp, ans) \<in> set tr \<and> sp_identity sp = i \<and> ans \<noteq> Inr outcome_retry)"

definition closed_once :: "answered list \<Rightarrow> bool" where
  "closed_once tr \<longleftrightarrow> (\<forall>pre sp ans post. tr = pre @ (closer_call sp, ans) # post \<longrightarrow> \<not> finished pre (sp_identity sp))"

section \<open>The registry invariant\<close>

lemma closer_call_inj [simp]: "closer_call a = closer_call b \<longleftrightarrow> a = b"
proof
  assume "closer_call a = closer_call b"
  then have "sp_closer a = sp_closer b" "sp_identity a = sp_identity b" by (auto simp: closer_call_def)
  then show "a = b" by simp
qed simp

lemma finished_snoc: "finished (tr @ [(closer_call sp, ans)]) i \<longleftrightarrow> finished tr i \<or> (sp_identity sp = i \<and> ans \<noteq> Inr outcome_retry)"
  by (auto simp: finished_def)

lemma finished_Nil [simp]: "\<not> finished [] i"
  by (simp add: finished_def)

lemma closed_once_Nil [simp]: "closed_once []"
  by (simp add: closed_once_def)

lemma closed_once_snoc:
  assumes "closed_once tr" "\<not> finished tr (sp_identity sp)"
  shows "closed_once (tr @ [(closer_call sp, ans)])"
  unfolding closed_once_def
proof (intro allI impI)
  fix pre sp' ans' post
  assume e: "tr @ [(closer_call sp, ans)] = pre @ (closer_call sp', ans') # post"
  show "\<not> finished pre (sp_identity sp')"
  proof (cases post rule: rev_cases)
    case Nil
    then show ?thesis using e assms(2) by simp
  next
    case (snoc ys y)
    then have "tr = pre @ (closer_call sp', ans') # ys" using e by (metis append_Cons append_assoc butlast_snoc)
    then show ?thesis using assms(1) unfolding closed_once_def by blast
  qed
qed

lemma dict_get_filter: "dict_get k (filter (\<lambda>(n, _). n \<noteq> j) d) = (if k = j then None else dict_get k d)"
  by (induction d) (auto simp: dict_get_def)

lemma current_retire [simp]: "is_current j (retire i r) \<longleftrightarrow> is_current j r \<and> j \<noteq> i"
  by (auto simp: is_current_def retire_def dict_get_filter)

lemma current_register [simp]: "is_current j (register i r) \<longleftrightarrow> j = i \<or> (is_current j r \<and> fd_number j \<noteq> fd_number i)"
  by (auto simp: is_current_def register_def)

lemma retired_retire [simp]: "rg_retired (retire i r) = i # rg_retired r"
  by (simp add: retire_def)

lemma retired_register: "set (rg_retired (register i r)) = set (rg_retired r) \<union> set_option (dict_get (fd_number i) (rg_current r))"
  by (auto simp: register_def split: option.splits)

text \<open>The invariant of the registry against the trace. A registry dictionary holds an identity under its own number.\<close>

definition registry_ok :: "registry \<Rightarrow> world \<Rightarrow> bool" where
  "registry_ok r w \<longleftrightarrow>
     (\<forall>n i. dict_get n (rg_current r) = Some i \<longrightarrow> fd_number i = n) \<and>
     (\<forall>i \<in> set (rg_retired r). \<not> is_current i r) \<and>
     (\<forall>i. finished (w_trace w) i \<longrightarrow> i \<in> set (rg_retired r)) \<and>
     closed_once (w_trace w)"

lemma registry_ok_open: "registry_ok r w \<Longrightarrow> is_current i r \<Longrightarrow> \<not> finished (w_trace w) i"
  by (auto simp: registry_ok_def)

lemma retire_keys: "dict_get n (rg_current (retire i r)) = Some j \<Longrightarrow> dict_get n (rg_current r) = Some j"
  by (auto simp: retire_def dict_get_filter split: if_splits)

lemma registry_ok_retire:
  assumes "registry_ok r w" "is_current (sp_identity sp) r"
  shows "registry_ok (retire (sp_identity sp) r) (logged (closer_call sp) w)"
proof -
  have open': "\<not> finished (w_trace w) (sp_identity sp)" using registry_ok_open[OF assms] .
  have "closed_once (w_trace (logged (closer_call sp) w))"
    using assms(1) closed_once_snoc[OF _ open'] by (simp add: registry_ok_def)
  moreover have "\<forall>n i. dict_get n (rg_current (retire (sp_identity sp) r)) = Some i \<longrightarrow> fd_number i = n"
    using assms(1) retire_keys unfolding registry_ok_def by blast
  moreover have "\<forall>i \<in> set (rg_retired (retire (sp_identity sp) r)). \<not> is_current i (retire (sp_identity sp) r)"
    using assms(1) unfolding registry_ok_def by simp
  moreover have "finished (w_trace (logged (closer_call sp) w)) i \<longrightarrow> i \<in> set (rg_retired (retire (sp_identity sp) r))" for i
    using assms(1) unfolding registry_ok_def logged_simps finished_snoc retired_retire by auto
  ultimately show ?thesis unfolding registry_ok_def by blast
qed

lemma registry_ok_retry:
  assumes "registry_ok r w" "is_current (sp_identity sp) r" "answer_of (closer_call sp) w = Inr outcome_retry"
  shows "registry_ok r (logged (closer_call sp) w)"
proof -
  have "closed_once (w_trace (logged (closer_call sp) w))"
    using assms(1) closed_once_snoc[OF _ registry_ok_open[OF assms(1,2)]] by (simp add: registry_ok_def)
  then show ?thesis using assms(1,3) unfolding registry_ok_def by (auto simp: finished_snoc)
qed

lemma registry_ok_register:
  assumes "registry_ok r w" "can_register i r"
  shows "registry_ok (register i r) w"
  using assms
  by (auto simp: registry_ok_def can_register_def retired_register is_current_def register_def split: option.splits)

text \<open>What an operation does to a registry: retired identities stay retired, and a current one stays or is retired.\<close>

definition registry_grows :: "registry \<Rightarrow> registry \<Rightarrow> bool" where
  "registry_grows r r' \<longleftrightarrow> set (rg_retired r) \<subseteq> set (rg_retired r')
     \<and> (\<forall>i. is_current i r \<longrightarrow> is_current i r' \<or> i \<in> set (rg_retired r'))"

lemma grows_refl [simp, intro]: "registry_grows r r"
  by (simp add: registry_grows_def)

lemma grows_trans: "registry_grows a b \<Longrightarrow> registry_grows b c \<Longrightarrow> registry_grows a c"
  by (force simp: registry_grows_def)

lemma grows_retire [simp, intro]: "registry_grows r (retire i r)"
  by (auto simp: registry_grows_def)

lemma grows_register:
  assumes "registry_ok r w"
  shows "registry_grows r (register i r)"
proof -
  have "k \<in> set (rg_retired (register i r))" if "is_current k r" "fd_number k = fd_number i" for k
    using that by (simp add: retired_register is_current_def)
  then show ?thesis by (auto simp: registry_grows_def retired_register)
qed

lemma registry_close_wp:
  assumes "registry_ok r w"
  shows "wp (registry_close sp)
    (\<lambda>out (r', w'). registry_ok r' w' \<and> registry_grows r r' \<and> (out = CClosed \<longrightarrow> sp_identity sp \<in> set (rg_retired r'))
       \<and> (out = CRetry \<longrightarrow> is_current (sp_identity sp) r'))
    (\<lambda>e (r', w'). registry_ok r' w' \<and> registry_grows r r' \<and> (e = stale_error \<and> \<not> is_current (sp_identity sp) r \<and> r' = r
       \<or> e = indeterminate_error \<and> sp_identity sp \<in> set (rg_retired r'))) (r, w)"
  using assms registry_ok_retire[of r w sp] registry_ok_retry[of r w sp]
  by (auto simp: registry_close_def wp_simps split: sum.splits)

section \<open>Endpoints and pairs\<close>

definition endpoint_ok :: "endpoint \<Rightarrow> registry \<Rightarrow> bool" where
  "endpoint_ok ep r = (case ep_state ep of
     EClosed \<Rightarrow> ep_spec ep = None
   | EClosing \<Rightarrow> False
   | ETerminal \<Rightarrow> ep_error ep \<noteq> None \<and> (\<exists>sp. ep_spec ep = Some sp \<and> sp_identity sp \<in> set (rg_retired r))
   | _ \<Rightarrow> (\<exists>sp. ep_spec ep = Some sp \<and> (is_current (sp_identity sp) r \<or> sp_identity sp \<in> set (rg_retired r))))"

definition endpoint_done :: "endpoint \<Rightarrow> bool" where
  "endpoint_done ep \<longleftrightarrow> ep_state ep = EClosed \<or> ep_state ep = ETerminal"

definition pair_ok :: "ipc_pair \<Rightarrow> registry \<Rightarrow> bool" where
  "pair_ok p r \<longleftrightarrow> endpoint_ok (ip_read p) r \<and> endpoint_ok (ip_write p) r \<and> ip_state p \<noteq> RClosing
     \<and> (ip_state p = RClosed \<longrightarrow> endpoint_done (ip_read p) \<and> endpoint_done (ip_write p))"

lemma endpoint_ok_grows: "endpoint_ok ep r \<Longrightarrow> registry_grows r r' \<Longrightarrow> endpoint_ok ep r'"
  by (auto simp: endpoint_ok_def registry_grows_def split: endpoint_state.splits)

lemma pair_ok_grows: "pair_ok p r \<Longrightarrow> registry_grows r r' \<Longrightarrow> pair_ok p r'"
  using endpoint_ok_grows by (auto simp: pair_ok_def)

lemma rc_distinct [simp]:
  "stale_error \<noteq> indeterminate_error" "indeterminate_error \<noteq> stale_error" "cleanup_error_rc \<noteq> indeterminate_error"
  "indeterminate_error \<noteq> cleanup_error_rc" "stale_error \<noteq> cleanup_error_rc" "cleanup_error_rc \<noteq> stale_error"
  "is_ResourceError stale_error" "is_ResourceError indeterminate_error" "is_ResourceError cleanup_error_rc" "is_ResourceError ownership_error"
  by (simp_all add: rc_errors)

text \<open>The state an attempt leaves an endpoint in.\<close>

definition endpoint_tried :: "endpoint \<Rightarrow> py_exn + unit \<Rightarrow> bool" where
  "endpoint_tried ep res \<longleftrightarrow>
     (res = Inr () \<and> ep_state ep = EClosed \<or> ep_state ep = ETerminal \<and> (res = Inl stale_error \<or> res = Inl indeterminate_error)
      \<or> ep_state ep = EBroken \<and> res = Inl cleanup_error_rc)"

lemma endpoint_close_wp:
  assumes "registry_ok r w" "endpoint_ok ep r" "ep_state ep \<noteq> ETerminal"
  shows "wp endpoint_close
    (\<lambda>_ ((ep', r'), w'). registry_ok r' w' \<and> registry_grows r r' \<and> endpoint_ok ep' r' \<and> endpoint_tried ep' (Inr ()))
    (\<lambda>e ((ep', r'), w'). registry_ok r' w' \<and> registry_grows r r' \<and> endpoint_ok ep' r' \<and> endpoint_tried ep' (Inl e)) ((ep, r), w)"
proof (cases "ep_state ep = EClosed")
  case True
  then show ?thesis using assms by (simp add: endpoint_close_def wp_simps endpoint_tried_def)
next
  case False
  then obtain sp where sp: "ep_spec ep = Some sp" "is_current (sp_identity sp) r \<or> sp_identity sp \<in> set (rg_retired r)"
    "ep_state ep \<noteq> EClosing"
    using assms by (auto simp: endpoint_ok_def split: endpoint_state.splits)
  show ?thesis
    using False sp assms(3)
    by (auto simp: endpoint_close_def set_endpoint_def wp_simps endpoint_ok_def endpoint_tried_def
        intro!: wp_mono[OF registry_close_wp[OF assms(1), of sp]] split: close_outcome.splits)
qed

lemma pair_turn_wp:
  assumes "registry_ok r w" "endpoint_ok (sel p) r"
    and putsel: "\<And>ep p. sel (put ep p) = ep"
  shows "wp (pair_turn sel put errs)
    (\<lambda>errs' ((p', r'), w'). registry_ok r' w' \<and> registry_grows r r' \<and> (\<exists>ep. p' = (if ep_state (sel p) = ETerminal then p else put ep p)
       \<and> endpoint_ok (sel p') r')
       \<and> (ep_state (sel p') \<in> {EClosed, ETerminal, EBroken})
       \<and> (errs = (None, None, None) \<longrightarrow> (errs' = (None, None, None) \<longrightarrow> endpoint_done (sel p')))
       \<and> (errs' = (None, None, None) \<longrightarrow> errs = (None, None, None)))
    (\<lambda>e _. False) ((p, r), w)"
proof (cases "ep_state (sel p) = ETerminal")
  case True
  then show ?thesis using assms by (simp add: pair_turn_def wp_simps endpoint_done_def)
next
  case False
  show ?thesis
    using False putsel
    by (auto simp: pair_turn_def wp_simps endpoint_tried_def first_error_def endpoint_done_def
        intro!: wp_mono[OF endpoint_close_wp[OF assms(1,2)]] split: option.splits)
qed

text \<open>What a close by the owner leaves: no endpoint untouched, and a closed pair exactly when it returns.\<close>

definition closed_result :: "ipc_pair \<Rightarrow> py_exn + unit \<Rightarrow> bool" where
  "closed_result p res \<longleftrightarrow>
     ep_state (ip_read p) \<in> {EClosed, ETerminal, EBroken} \<and> ep_state (ip_write p) \<in> {EClosed, ETerminal, EBroken}
     \<and> (res = Inr () \<longrightarrow> ip_state p = RClosed \<and> ip_owner p = None \<and> endpoint_done (ip_read p) \<and> endpoint_done (ip_write p))
     \<and> (res \<noteq> Inr () \<longrightarrow> ip_state p = RBroken)"

lemma pair_close_wp:
  assumes "registry_ok r w" "pair_ok p r" "ip_state p \<noteq> RClosed" "ip_owner p = owner"
  shows "wp (pair_close owner)
    (\<lambda>x ((p', r'), w'). registry_ok r' w' \<and> registry_grows r r' \<and> pair_ok p' r' \<and> closed_result p' (Inr x))
    (\<lambda>e ((p', r'), w'). registry_ok r' w' \<and> registry_grows r r' \<and> pair_ok p' r' \<and> closed_result p' (Inl e)) ((p, r), w)"
proof -
  let ?p = "p\<lparr>ip_state := RClosing\<rparr>"
  have ok: "endpoint_ok (ip_write ?p) r" "endpoint_ok (ip_read p) r" using assms(2) by (simp_all add: pair_ok_def)
  have start: "wp (pair_close owner) Q E ((p, r), w) =
     wp (pair_turn ip_write (\<lambda>ep p. p\<lparr>ip_write := ep\<rparr>) (None, None, None)) (\<lambda>errs.
       wp (bind (pair_turn ip_read (\<lambda>ep p. p\<lparr>ip_read := ep\<rparr>) errs) (\<lambda>(indeterminate, retry, other).
        case (indeterminate, retry, other) of
          (Some e, _, _) \<Rightarrow> andthen (set_pair (\<lambda>p. p\<lparr>ip_state := RBroken\<rparr>)) (fail e)
        | (None, Some e, _) \<Rightarrow> andthen (set_pair (\<lambda>p. p\<lparr>ip_state := RBroken\<rparr>)) (fail e)
        | (None, None, Some e) \<Rightarrow> andthen (set_pair (\<lambda>p. p\<lparr>ip_state := RBroken\<rparr>)) (fail e)
        | (None, None, None) \<Rightarrow> set_pair (\<lambda>p. p\<lparr>ip_owner := None, ip_state := RClosed\<rparr>))) Q E) E ((?p, r), w)" for Q E
    using assms(2-4) by (auto simp: pair_close_def wp_simps pair_ok_def set_pair_def)
  show ?thesis
    unfolding start
  proof (rule wp_mono[OF pair_turn_wp[where sel = ip_write and put = "\<lambda>ep p. p\<lparr>ip_write := ep\<rparr>", OF assms(1) ok(1)]], goal_cases)
    case 1
    then show ?case by simp
  next
    case (2 errs t)
    obtain p1 r1 w1 where t: "t = ((p1, r1), w1)" by (metis surj_pair)
    note h = 2[unfolded t prod.case]
    have r1: "registry_ok r1 w1" "registry_grows r r1" using h by blast+
    have same: "ip_read p1 = ip_read p" using h by (auto split: if_splits)
    have e1: "endpoint_ok (ip_read p1) r1" using same endpoint_ok_grows[OF ok(2) r1(2)] by simp
    show ?case
      unfolding t wp_bind
    proof (rule wp_mono[OF pair_turn_wp[where sel = ip_read and put = "\<lambda>ep p. p\<lparr>ip_read := ep\<rparr>", OF r1(1) e1]], goal_cases)
      case 1
      then show ?case by simp
    next
      case (2 errs' t')
      obtain p2 r2 w2 where t': "t' = ((p2, r2), w2)" by (metis surj_pair)
      note k = 2[unfolded t' prod.case]
      have r2: "registry_ok r2 w2" "registry_grows r1 r2" using k by blast+
      have w2: "ip_write p2 = ip_write p1" using k by (auto split: if_splits)
      have "endpoint_ok (ip_write p2) r2" using w2 h endpoint_ok_grows[OF _ r2(2)] by auto
      then have all: "endpoint_ok (ip_read p2) r2" "endpoint_ok (ip_write p2) r2" "registry_grows r r2"
        using k grows_trans[OF r1(2) r2(2)] by blast+
      have st: "ep_state (ip_read p2) \<in> {EClosed, ETerminal, EBroken}" "ep_state (ip_write p2) \<in> {EClosed, ETerminal, EBroken}"
        using h k w2 by auto
      have done': "errs' = (None, None, None) \<Longrightarrow> endpoint_done (ip_read p2) \<and> endpoint_done (ip_write p2)"
        using h k w2 by auto
      show ?case
        unfolding t' using all st done' r2(1)
        by (cases errs') (auto simp: wp_simps set_pair_def pair_ok_def closed_result_def split: option.splits)
    qed simp
  qed simp
qed

definition system_ok :: "pair_system \<times> world \<Rightarrow> bool" where
  "system_ok s \<longleftrightarrow> registry_ok (sy_registry (fst s)) (snd s) \<and> (\<forall>p \<in> set (sy_pairs (fst s)). pair_ok p (sy_registry (fst s)))"

lemma pair_close_idle:
  assumes "ip_state p = RClosed \<or> ip_state p = RClosing \<or> ip_owner p \<noteq> owner"
  shows "snd (pair_close owner ((p, r), w)) = ((p, r), w)"
  using assms by (auto simp: pair_close_def bind_def field_def ret_def fail_def)

lemma pair_close_keeps:
  assumes "registry_ok r w" "pair_ok p r" "pair_close owner ((p, r), w) = (res, ((p', r'), w'))"
  shows "registry_ok r' w' \<and> registry_grows r r' \<and> pair_ok p' r'"
proof (cases "ip_state p = RClosed \<or> ip_owner p \<noteq> owner")
  case True
  then show ?thesis using pair_close_idle[of p owner r w] assms by auto
next
  case False
  then show ?thesis
    using pair_close_wp[OF assms(1,2), of owner] assms(3) by (cases res) (auto dest: wpD_Inr wpD_Inl)
qed

lemma new_pair_wp:
  assumes "registry_ok r w"
  shows "wp (new_ipc_pair rd wr owner)
    (\<lambda>p (r', w'). registry_ok r' w' \<and> registry_grows r r' \<and> pair_ok p r') (\<lambda>e t. t = (r, w)) (r, w)"
proof -
  have "registry_ok (register (sp_identity wr) (register (sp_identity rd) r)) w
      \<and> registry_grows r (register (sp_identity wr) (register (sp_identity rd) r))"
    if "can_register (sp_identity rd) r" "can_register (sp_identity wr) r" "fd_number (sp_identity rd) \<noteq> fd_number (sp_identity wr)"
  proof -
    have 1: "registry_ok (register (sp_identity rd) r) w" using registry_ok_register[OF assms that(1)] .
    have "can_register (sp_identity wr) (register (sp_identity rd) r)"
    proof -
      have "sp_identity wr \<notin> set (rg_retired (register (sp_identity rd) r))"
        using that assms by (auto simp: can_register_def retired_register registry_ok_def)
      then show ?thesis using that by (auto simp: can_register_def register_def)
    qed
    then show ?thesis using registry_ok_register[OF 1] grows_register[OF assms] grows_register[OF 1] grows_trans by blast
  qed
  then show ?thesis
    by (auto simp: new_ipc_pair_def wp_simps pair_ok_def new_endpoint_def endpoint_ok_def endpoint_done_def)
qed

lemma transfer_keeps:
  assumes "pair_ok p r" "pair_transfer a b ((p, r), w) = (res, ((p', r'), w'))"
  shows "r' = r \<and> w' = w \<and> pair_ok p' r"
  using assms by (auto simp: pair_transfer_def bind_def field_def fail_def update_def pair_ok_def split: if_splits)

lemma system_ok_step: "pair_step s t \<Longrightarrow> system_ok s \<Longrightarrow> system_ok t"
proof (induction rule: pair_step.induct)
  case (step_new rd wr owner y w p r w')
  then have r: "registry_ok (sy_registry y) w" by (simp add: system_ok_def)
  have "registry_ok r w' \<and> registry_grows (sy_registry y) r \<and> pair_ok p r" using wpD_Inr[OF step_new(1) new_pair_wp[OF r]] by simp
  then show ?case using step_new(2) pair_ok_grows by (auto simp: system_ok_def)
next
  case (step_refused rd wr owner y w e r w')
  then have r: "registry_ok (sy_registry y) w" by (simp add: system_ok_def)
  have "(r, w') = (sy_registry y, w)" using wpD_Inl[OF step_refused(1) new_pair_wp[OF r]] by simp
  then show ?case using step_refused(2) by (simp add: system_ok_def)
next
  case (step_transfer k y o1 o2 w res p r w')
  then have "pair_ok (sy_pairs y ! k) (sy_registry y)" by (simp add: system_ok_def)
  then have "r = sy_registry y \<and> w' = w \<and> pair_ok p r" using transfer_keeps[OF _ step_transfer(2)] by auto
  then show ?case using step_transfer(3) set_update_subset_insert[of "sy_pairs y" k p] by (auto simp: system_ok_def)
next
  case (step_close k y o1 w res p r w')
  then have "registry_ok (sy_registry y) w" "pair_ok (sy_pairs y ! k) (sy_registry y)" by (simp_all add: system_ok_def)
  then have "registry_ok r w' \<and> registry_grows (sy_registry y) r \<and> pair_ok p r" using pair_close_keeps[OF _ _ step_close(2)] by blast
  then show ?case
    using step_close(3) set_update_subset_insert[of "sy_pairs y" k p] pair_ok_grows by (fastforce simp: system_ok_def)
qed

lemma system_ok_fresh: "system_ok (fresh_system w)"
  by (auto simp: system_ok_def fresh_system_def registry_ok_def new_registry_def dict_get_def)

lemma system_ok_reached: "pair_step\<^sup>*\<^sup>* (fresh_system w) s \<Longrightarrow> system_ok s"
  by (induction rule: rtranclp_induct) (auto intro: system_ok_fresh system_ok_step)

lemmas [run] = rc_errors outcome_closed_def outcome_retry_def new_registry_def is_current_def can_register_def register_def retire_def
  closer_call_def registry_close_def new_endpoint_def transferable_def set_endpoint_def endpoint_close_def new_ipc_pair_def
  pair_transfer_def first_error_def pair_turn_def set_pair_def pair_close_def fresh_system_def

section \<open>Properties\<close>

definition sample_world :: world where
  "sample_world = \<lparr>w_answer = (\<lambda>n _. Inr (if n = 0 then outcome_retry else outcome_closed)), w_trace = []\<rparr>"

definition sample_spec :: "int \<Rightarrow> nat \<Rightarrow> endpoint_spec" where
  "sample_spec n g = \<lparr>sp_identity = \<lparr>fd_number = n, fd_generation = g\<rparr>, sp_closer = g\<rparr>"

definition sample_pair :: ipc_pair where
  "sample_pair = \<lparr>ip_read = new_endpoint (sample_spec 3 1), ip_write = new_endpoint (sample_spec 4 2), ip_owner = Some 9, ip_state = ROpen\<rparr>"

definition sample_registry :: registry where
  "sample_registry = \<lparr>rg_current = [(3, \<lparr>fd_number = 3, fd_generation = 1\<rparr>), (4, \<lparr>fd_number = 4, fd_generation = 2\<rparr>)], rg_retired = []\<rparr>"

lemma sample_system: "pair_step\<^sup>*\<^sup>* (fresh_system sample_world) (\<lparr>sy_registry = sample_registry, sy_pairs = [sample_pair]\<rparr>, sample_world)"
proof -
  have "new_ipc_pair (sample_spec 3 1) (sample_spec 4 2) (Some 9) (new_registry, sample_world) = (Inr sample_pair, (sample_registry, sample_world))"
    by (simp add: run sample_pair_def sample_spec_def sample_registry_def)
  then have "pair_step (fresh_system sample_world) (\<lparr>sy_registry = sample_registry, sy_pairs = [sample_pair]\<rparr>, sample_world)"
    using step_new[of "sample_spec 3 1" "sample_spec 4 2" "Some 9" "fst (fresh_system sample_world)" sample_world]
    by (simp add: fresh_system_def sample_world_def)
  then show ?thesis by blast
qed

lemma sample_close:
  "\<exists>p r w'. pair_close (Some 9) ((sample_pair, sample_registry), sample_world) = (Inl cleanup_error_rc, ((p, r), w'))
     \<and> ep_state (ip_write p) = EBroken \<and> ep_state (ip_read p) = EClosed \<and> length (w_trace w') = 2"
  by (simp add: run sample_pair_def sample_spec_def sample_registry_def sample_world_def)

text \<open>C19: a generation of a descriptor is closed once: whatever the pairs, the owners, the order of creations, transfers
  and closes, and whatever the closers answer, once a closer has given a descriptor an answer other than a request to retry no
  closer is called on that generation again, so a number the system has reused in the meantime is never closed by mistake.\<close>

theorem descriptors_closed_once:
  assumes "pair_step\<^sup>*\<^sup>* (fresh_system w) (y, w')"
  shows "closed_once (w_trace w') \<and> (\<forall>i. finished (w_trace w') i \<longrightarrow> \<not> is_current i (sy_registry y))"
  using system_ok_reached[OF assms] by (auto simp: system_ok_def registry_ok_def)

theorem descriptors_closed_once_witness:
  "\<exists>y w'. pair_step\<^sup>*\<^sup>* (fresh_system sample_world) (y, w') \<and> length (w_trace w') = 2 \<and> closed_once (w_trace w')"
proof -
  let ?y = "\<lparr>sy_registry = sample_registry, sy_pairs = [sample_pair]\<rparr>"
  obtain p r w' where c: "pair_close (Some 9) ((sample_pair, sample_registry), sample_world) = (Inl cleanup_error_rc, ((p, r), w'))"
    "length (w_trace w') = 2"
    using sample_close by blast
  have "pair_step (?y, sample_world) (?y\<lparr>sy_registry := r, sy_pairs := (sy_pairs ?y)[0 := p]\<rparr>, w')"
    using c(1) by (intro step_close) auto
  then have "pair_step\<^sup>*\<^sup>* (fresh_system sample_world) (?y\<lparr>sy_registry := r, sy_pairs := (sy_pairs ?y)[0 := p]\<rparr>, w')"
    by (rule rtranclp.rtrancl_into_rtrancl[OF sample_system])
  then show ?thesis using c(2) descriptors_closed_once by blast
qed

text \<open>C20: a close by the owner tries both endpoints, the second also when the first fails. It returns exactly when the
  pair is closed and has no owner, every endpoint closed or given up for good; else the pair is broken and an
  error is raised, and the close can be tried again.\<close>

theorem pair_close_complete:
  assumes "pair_step\<^sup>*\<^sup>* (fresh_system w) (y, w')" "k < length (sy_pairs y)" "ip_state (sy_pairs y ! k) \<noteq> RClosed"
    "pair_close (ip_owner (sy_pairs y ! k)) ((sy_pairs y ! k, sy_registry y), w') = (res, ((p, r), w''))"
  shows "closed_result p res \<and> (res = Inr () \<longleftrightarrow> ip_state p = RClosed)"
proof -
  have ok: "registry_ok (sy_registry y) w'" "pair_ok (sy_pairs y ! k) (sy_registry y)"
    using system_ok_reached[OF assms(1)] assms(2) by (simp_all add: system_ok_def)
  have "closed_result p res"
    using pair_close_wp[OF ok assms(3) refl] assms(4) by (cases res) (auto dest: wpD_Inr wpD_Inl)
  then show ?thesis by (auto simp: closed_result_def)
qed

theorem pair_close_complete_witness:
  "\<exists>p r w'. pair_close (Some 9) ((sample_pair, sample_registry), sample_world) = (Inl cleanup_error_rc, ((p, r), w'))
     \<and> closed_result p (Inl cleanup_error_rc) \<and> ep_state (ip_write p) = EBroken \<and> ep_state (ip_read p) = EClosed"
proof -
  obtain p r w' where c: "pair_close (Some 9) ((sample_pair, sample_registry), sample_world) = (Inl cleanup_error_rc, ((p, r), w'))"
    "ep_state (ip_write p) = EBroken" "ep_state (ip_read p) = EClosed"
    using sample_close by blast
  have "closed_result p (Inl cleanup_error_rc)"
    by (rule conjunct1, rule pair_close_complete[OF sample_system, of 0])
      (use c(1) in \<open>simp_all add: sample_pair_def\<close>)
  then show ?thesis using c by blast
qed

end
