(* ===== verification/JobBoundary.thy ===== *)
theory JobBoundary
  imports Effects Deadline
begin

text \<open>
  \<open>isolation/windows_job.py\<close>: the boundary that owns a Windows Job and a process in it. The native API is outside:
  a method of it is a call of that name with the handles as arguments, and \<open>clock\<close> is \<open>time.monotonic\<close>. A handle is whatever
  value the API gave, \<open>None\<close> is \<open>VNone\<close>. \<open>Kernel32Api\<close>, the API of the program, is modelled as methods over the
  functions of the DLL.
\<close>

section \<open>Constants and errors\<close>

definition process_access :: int where
  "process_access = 1 + 256 + 4096 + 1048576"

definition wait_object_0 :: int where "wait_object_0 = 0"
definition wait_timeout :: int where "wait_timeout = 258"
definition wait_failed :: int where "wait_failed = 4294967295"
definition min_wait_milliseconds :: int where "min_wait_milliseconds = 1"
definition max_wait_milliseconds :: int where "max_wait_milliseconds = 4294967294"
definition milliseconds_per_second :: pyfloat where "milliseconds_per_second = float_of False 1000 1"
definition min_active_processes :: int where "min_active_processes = 1"
definition default_cleanup_budget :: seconds where "default_cleanup_budget = SFloat (float_of False 2 1)"
definition emergency_cleanup_budget :: pyfloat where "emergency_cleanup_budget = float_of False 1 1"
definition max_cleanup_seconds :: pyfloat where "max_cleanup_seconds = float_of False 4294967294 1000"
definition invalid_handle :: val where "invalid_handle = VInt 18446744073709551615"

definition internal_error :: py_exn where "internal_error = JobError ''internal_error''"
definition job_timeout :: py_exn where "job_timeout = JobError ''timeout''"

fun is_JobError :: "py_exn \<Rightarrow> bool" where
  "is_JobError (JobError _) = True"
| "is_JobError _ = False"

datatype job_state = JCreated | JAssigned | JAuthorized | JClosed | JBroken

text \<open>\<open>v == n\<close> and \<open>v < n\<close> for a value of the API and an integer.\<close>

definition val_eq_int :: "val \<Rightarrow> int \<Rightarrow> bool" where
  "val_eq_int v n = (case v of VInt k \<Rightarrow> k = n | VBool b \<Rightarrow> of_bool b = n | VFloat f \<Rightarrow> float_eq_int f n | _ \<Rightarrow> False)"

definition val_less_int :: "val \<Rightarrow> int \<Rightarrow> py_exn + bool" where
  "val_less_int v n = (case v of VInt k \<Rightarrow> Inr (k < n) | VBool b \<Rightarrow> Inr (of_bool b < n) | VFloat f \<Rightarrow> Inr (float_less_int f n)
     | _ \<Rightarrow> Inl (TypeError ''not supported''))"

definition float_not_positive :: "pyfloat \<Rightarrow> bool" where
  "float_not_positive f \<longleftrightarrow> float_less_int f 0 \<or> float_eq_int f 0"

section \<open>The native API over kernel32\<close>

definition k32_handle :: "string \<Rightarrow> val list \<Rightarrow> ('o, val) prog" where
  "k32_handle fn args = bind (ext (fn, args)) (\<lambda>h. if truthy h \<and> h \<noteq> invalid_handle then ret h else fail (JobError ''handle_failed''))"

definition k32_true :: "string \<Rightarrow> val list \<Rightarrow> string \<Rightarrow> ('o, val) prog" where
  "k32_true fn args code = bind (ext (fn, args)) (\<lambda>v. if truthy v then ret (VBool True) else fail (JobError code))"

definition k32_create_job :: "('o, val) prog" where
  "k32_create_job = k32_handle ''CreateJobObjectW'' [VNone, VNone]"

definition k32_make_non_inheritable :: "val \<Rightarrow> ('o, val) prog" where
  "k32_make_non_inheritable h = k32_true ''SetHandleInformation'' [h, VInt 1, VInt 0] ''internal_error''"

definition k32_enable_kill_on_close :: "val \<Rightarrow> ('o, val) prog" where
  "k32_enable_kill_on_close h = k32_true ''SetInformationJobObject'' [h, VInt 9, VInt 8192] ''internal_error''"

definition k32_open_process :: "int \<Rightarrow> int \<Rightarrow> ('o, val) prog" where
  "k32_open_process pid access = k32_handle ''OpenProcess'' [VInt access, VBool False, VInt pid]"

definition k32_assign :: "val \<Rightarrow> val \<Rightarrow> ('o, val) prog" where
  "k32_assign job process = k32_true ''AssignProcessToJobObject'' [job, process] ''assignment_failed''"

definition k32_terminate :: "val \<Rightarrow> ('o, val) prog" where
  "k32_terminate job = k32_true ''TerminateJobObject'' [job, VInt 1] ''internal_error''"

definition k32_terminate_process :: "val \<Rightarrow> ('o, val) prog" where
  "k32_terminate_process process = k32_true ''TerminateProcess'' [process, VInt 1] ''internal_error''"

definition k32_wait :: "val \<Rightarrow> int \<Rightarrow> ('o, val) prog" where
  "k32_wait h ms = bind (ext (''WaitForSingleObject'', [h, VInt ms])) (\<lambda>r. if val_eq_int r wait_failed then fail internal_error else ret r)"

definition k32_close :: "val \<Rightarrow> ('o, val) prog" where
  "k32_close h = k32_true ''CloseHandle'' [h] ''internal_error''"

text \<open>Two functions give their result through a pointer: an integer answer stands for success with that result, every
  other answer for failure.\<close>

definition k32_result :: "string \<Rightarrow> val list \<Rightarrow> ('o, int) prog" where
  "k32_result fn args = bind (ext (fn, args)) (\<lambda>v. case v of VInt n \<Rightarrow> ret n | _ \<Rightarrow> fail internal_error)"

definition k32_is_process_in_job :: "val \<Rightarrow> val \<Rightarrow> ('o, val) prog" where
  "k32_is_process_in_job process job = bind (k32_result ''IsProcessInJob'' [process, job]) (\<lambda>n. ret (VBool (n \<noteq> 0)))"

definition k32_query_active :: "val \<Rightarrow> ('o, val) prog" where
  "k32_query_active job = bind (k32_result ''QueryInformationJobObject'' [job, VInt 1]) (\<lambda>n. ret (VInt n))"

section \<open>The boundary\<close>

record boundary =
  b_job :: val
  b_process :: val
  b_assigned :: bool
  b_borrowed :: bool
  b_state :: job_state

definition empty_boundary :: "val \<Rightarrow> boundary" where
  "empty_boundary job = \<lparr>b_job = job, b_process = VNone, b_assigned = False, b_borrowed = False, b_state = JCreated\<rparr>"

type_synonym 'a bprog = "(boundary, 'a) prog"

text \<open>\<open>_call\<close> lets a \<open>JobError\<close> through and turns every other exception into one; \<open>_safe\<close> turns all of them into false.\<close>

definition job_call :: "string \<Rightarrow> val list \<Rightarrow> ('o, val) prog" where
  "job_call name args = catch (ext (name, args)) (\<lambda>e. if is_JobError e then fail e else fail internal_error)"

definition job_safe :: "string \<Rightarrow> val list \<Rightarrow> ('o, bool) prog" where
  "job_safe name args = catch (bind (job_call name args) (\<lambda>v. ret (truthy v))) (\<lambda>_. ret False)"

definition job_deadline :: "seconds \<Rightarrow> ('o, pyfloat) prog" where
  "job_deadline value =
     bind (lift_result (case value of
        SInt i \<Rightarrow> (case float_of_int i of Inl _ \<Rightarrow> Inl job_timeout | Inr f \<Rightarrow> Inr f)
      | SFloat f \<Rightarrow> Inr f
      | _ \<Rightarrow> Inl job_timeout)) (\<lambda>timeout.
     if \<not> float_finite timeout \<or> float_less_int timeout 0 then fail job_timeout
     else bind clock_seconds (\<lambda>now. ret (float_add now (float_min timeout max_cleanup_seconds))))"

text \<open>\<open>_close_handles\<close>: the process, then the job; a handle that is closed is forgotten, any other is kept.\<close>

definition close_process_handle :: "bool \<Rightarrow> bool bprog" where
  "close_process_handle ready =
     bind (field id) (\<lambda>b.
     if b_process b = VNone \<or> \<not> ready \<or> b_borrowed b then ret True
     else bind (job_safe ''close'' [b_process b]) (\<lambda>closed.
       if closed then andthen (update (\<lambda>b. b\<lparr>b_process := VNone\<rparr>)) (ret True) else ret False))"

definition close_job_handle :: "bool \<Rightarrow> bool bprog" where
  "close_job_handle ready =
     bind (field id) (\<lambda>b.
     if b_job b = VNone \<or> \<not> ready then ret True
     else bind (job_safe ''close'' [b_job b]) (\<lambda>closed.
       if closed then andthen (update (\<lambda>b. b\<lparr>b_job := VNone\<rparr>)) (ret True) else ret False))"

definition close_handles :: "bool \<Rightarrow> bool \<Rightarrow> bool bprog" where
  "close_handles process_ready job_ready =
     bind (close_process_handle process_ready) (\<lambda>p.
     bind (close_job_handle job_ready) (\<lambda>j.
     andthen (update (\<lambda>b. if b_borrowed b \<and> process_ready \<and> job_ready \<and> b_job b = VNone
        then b\<lparr>b_process := VNone, b_borrowed := False\<rparr> else b))
     (ret (process_ready \<and> job_ready \<and> p \<and> j))))"

text \<open>The local variables of the cleanup loops.\<close>

record cleanup_vars =
  cv_ok :: bool
  cv_process_waited :: bool
  cv_wait_failed :: bool
  cv_active_zero :: bool
  cv_timed_out :: bool

definition wait_result :: "py_exn + val \<Rightarrow> cleanup_vars \<Rightarrow> cleanup_vars" where
  "wait_result answer v =
     (case answer of
        Inl _ \<Rightarrow> v\<lparr>cv_ok := False, cv_process_waited := False, cv_wait_failed := True\<rparr>
      | Inr r \<Rightarrow>
          if val_eq_int r wait_object_0 then v\<lparr>cv_process_waited := True\<rparr>
          else if val_eq_int r wait_timeout then v\<lparr>cv_process_waited := False\<rparr>
          else v\<lparr>cv_ok := False, cv_process_waited := False, cv_wait_failed := True\<rparr>)"

text \<open>The question to the job at the end of a turn.\<close>

definition job_turn :: "bool \<Rightarrow> cleanup_vars \<Rightarrow> (cleanup_vars + cleanup_vars) bprog" where
  "job_turn stop_on_wait_failure v =
     bind (field b_job) (\<lambda>job.
     bind (outcome (job_call ''query_active'' [job])) (\<lambda>answer. case answer of
       Inl _ \<Rightarrow> ret (Inr (v\<lparr>cv_ok := False\<rparr>))
     | Inr active \<Rightarrow>
         if val_eq_int active 0 \<and> cv_process_waited v then ret (Inr (v\<lparr>cv_active_zero := True\<rparr>))
         else if stop_on_wait_failure \<and> cv_wait_failed v then ret (Inr v)
         else bind (lift_result (val_less_int active 0)) (\<lambda>negative.
           if negative then ret (Inr (v\<lparr>cv_ok := False\<rparr>)) else ret (Inl v))))"

definition process_wait :: "bool \<Rightarrow> bool \<Rightarrow> int \<Rightarrow> cleanup_vars \<Rightarrow> cleanup_vars bprog" where
  "process_wait assigned terminate_unassigned ms v =
     bind (field id) (\<lambda>b.
     if b_process b \<noteq> VNone \<and> (\<not> b_borrowed b \<or> assigned) \<and> (assigned \<or> terminate_unassigned)
     then bind (outcome (job_call ''wait'' [b_process b, VInt ms])) (\<lambda>answer. ret (wait_result answer v))
     else ret v)"

definition cleanup_turn :: "bool \<Rightarrow> pyfloat \<Rightarrow> bool \<Rightarrow> cleanup_vars \<Rightarrow> (cleanup_vars + cleanup_vars) bprog" where
  "cleanup_turn assigned deadline terminate_unassigned v =
     bind (field id) (\<lambda>b.
     if b_process b = VNone \<and> b_job b = VNone then ret (Inr v)
     else
       bind clock_seconds (\<lambda>now.
       let remaining = float_sub deadline now in
       if float_not_positive remaining then ret (Inr (v\<lparr>cv_timed_out := True\<rparr>))
       else
         bind (lift_result (int_of_float (float_mul remaining milliseconds_per_second))) (\<lambda>ms.
         bind (process_wait assigned terminate_unassigned (max min_wait_milliseconds (min max_wait_milliseconds ms)) v) (\<lambda>v.
         if b_job b = VNone \<or> \<not> assigned then
           (if cv_process_waited v \<or> cv_wait_failed v then ret (Inr v) else ret (Inl v))
         else
           bind clock_seconds (\<lambda>now.
           if float_not_positive (float_sub deadline now) then ret (Inr (v\<lparr>cv_timed_out := True\<rparr>))
           else job_turn True v)))))"

text \<open>\<open>_cleanup\<close>: what is terminated first, the loop, and the handles that may be closed: a process handle once its process
  has been terminated or is in the terminated job, and waited for; the job handle once the job is terminated and, when a process was
  assigned, has no active process.\<close>

definition start_vars :: "bool \<Rightarrow> bool \<Rightarrow> bool \<Rightarrow> bool \<Rightarrow> boundary \<Rightarrow> cleanup_vars" where
  "start_vars ok assigned timed_out terminate_unassigned b =
     \<lparr>cv_ok = ok,
      cv_process_waited = (b_process b = VNone \<or> b_borrowed b \<and> \<not> assigned \<or> \<not> assigned \<and> \<not> terminate_unassigned),
      cv_wait_failed = False, cv_active_zero = (b_job b = VNone \<or> \<not> assigned), cv_timed_out = timed_out\<rparr>"

definition terminate_process_first :: "bool \<Rightarrow> bool \<Rightarrow> boundary \<Rightarrow> (bool \<times> bool) bprog" where
  "terminate_process_first assigned terminate_unassigned b =
     (if \<not> assigned \<and> b_process b \<noteq> VNone \<and> \<not> b_borrowed b \<and> terminate_unassigned
      then bind (job_safe ''terminate_process'' [b_process b]) (\<lambda>done. ret (done, done))
      else ret (b_process b = VNone \<or> assigned \<or> b_borrowed b \<or> \<not> assigned \<and> \<not> terminate_unassigned, True))"

definition terminate_job_first :: "boundary \<Rightarrow> (bool \<times> bool) bprog" where
  "terminate_job_first b =
     (if b_job b \<noteq> VNone then bind (job_safe ''terminate'' [b_job b]) (\<lambda>done. ret (done, done)) else ret (True, True))"

definition job_cleanup :: "nat \<Rightarrow> bool \<Rightarrow> pyfloat \<Rightarrow> bool \<Rightarrow> bool \<Rightarrow> (bool \<times> bool) bprog" where
  "job_cleanup fuel assigned deadline timed_out terminate_unassigned =
     bind (field id) (\<lambda>b.
     bind (terminate_process_first assigned terminate_unassigned b) (\<lambda>(process_terminated, ok1).
     bind (terminate_job_first b) (\<lambda>(job_terminated, ok2).
     bind (loop fuel (cleanup_turn assigned deadline terminate_unassigned)
             (start_vars (ok1 \<and> ok2) assigned timed_out terminate_unassigned b)) (\<lambda>v.
     bind (close_handles (process_terminated \<and> cv_process_waited v) (job_terminated \<and> cv_active_zero v)) (\<lambda>closed.
     ret (cv_ok v \<and> closed, cv_timed_out v))))))"

text \<open>A failed acquisition or assignment: the cleanup runs on the emergency budget, the state says whether it succeeded,
  and the error that goes out is the original one, or \<open>internal_error\<close> when it was not a \<open>JobError\<close> or when the
  cleanup failed as well.\<close>

definition job_abandon :: "nat \<Rightarrow> bool \<Rightarrow> bool \<Rightarrow> py_exn \<Rightarrow> 'a bprog" where
  "job_abandon fuel assigned terminate_unassigned e =
     bind clock_seconds (\<lambda>now.
     bind (job_cleanup fuel assigned (float_add now emergency_cleanup_budget) True terminate_unassigned) (\<lambda>(ok, _).
     andthen (update (\<lambda>b. b\<lparr>b_state := (if ok then JClosed else JBroken)\<rparr>))
     (if \<not> ok then fail internal_error else if is_JobError e then fail e else fail internal_error)))"

definition new_boundary :: "nat \<Rightarrow> unit bprog" where
  "new_boundary fuel =
     andthen (update (\<lambda>_. empty_boundary VNone))
     (catch
       (bind (job_call ''create_job'' []) (\<lambda>job.
        andthen (update (\<lambda>b. b\<lparr>b_job := job\<rparr>))
        (if \<not> truthy job then fail internal_error
         else bind (job_call ''make_non_inheritable'' [job]) (\<lambda>a.
           if \<not> truthy a then fail internal_error
           else bind (job_call ''enable_kill_on_close'' [job]) (\<lambda>k. if \<not> truthy k then fail internal_error else ret ())))))
       (job_abandon fuel False True))"

text \<open>The checks of an assignment. \<open>assigned\<close> is a local variable of the code that its handler reads: it is true
  from the moment the API has reported the assignment, and so is the field, which the boundary resets nowhere.\<close>

definition assign_checks :: "val \<Rightarrow> bool \<Rightarrow> unit bprog" where
  "assign_checks process allow_nested =
     andthen (if allow_nested then ret ()
              else bind (job_call ''is_process_in_job'' [process, VNone]) (\<lambda>v. if truthy v then fail (JobError ''nested_job'') else ret ()))
     (bind (field b_job) (\<lambda>job.
      bind (job_call ''assign'' [job, process]) (\<lambda>v.
      andthen (update (\<lambda>b. b\<lparr>b_assigned := truthy v\<rparr>))
      (if \<not> truthy v then fail (JobError ''assignment_failed'')
       else
         bind (job_call ''is_process_in_job'' [process, job]) (\<lambda>v.
         if \<not> truthy v then fail (JobError ''assignment_failed'')
         else
           bind (job_call ''query_active'' [job]) (\<lambda>active.
           bind (lift_result (val_less_int active min_active_processes)) (\<lambda>few.
           if few then fail (JobError ''assignment_failed'')
           else update (\<lambda>b. b\<lparr>b_assigned := True, b_state := JAssigned\<rparr>))))))))"

definition assign_process :: "nat \<Rightarrow> int \<Rightarrow> bool \<Rightarrow> unit bprog" where
  "assign_process fuel pid allow_nested =
     bind (field id) (\<lambda>b.
     if b_state b \<noteq> JCreated \<or> b_process b \<noteq> VNone \<or> b_job b = VNone then fail (JobError ''invalid_state'')
     else
       catch
         (bind (job_call ''open_process'' [VInt pid, VInt process_access]) (\<lambda>process.
          andthen (update (\<lambda>b. b\<lparr>b_process := process\<rparr>))
          (if \<not> truthy process then fail (JobError ''handle_failed'') else assign_checks process allow_nested)))
         (\<lambda>e. bind (field b_assigned) (\<lambda>assigned. job_abandon fuel assigned False e)))"

definition assign_borrowed_handle :: "nat \<Rightarrow> val \<Rightarrow> bool \<Rightarrow> unit bprog" where
  "assign_borrowed_handle fuel handle allow_nested =
     bind (field id) (\<lambda>b.
     if b_state b \<noteq> JCreated \<or> b_process b \<noteq> VNone \<or> b_job b = VNone then fail (JobError ''invalid_state'')
     else if \<not> truthy handle \<or> handle = invalid_handle then fail (JobError ''handle_failed'')
     else
       andthen (update (\<lambda>b. b\<lparr>b_process := handle, b_borrowed := True\<rparr>))
       (catch (assign_checks handle allow_nested)
         (\<lambda>e. bind (field b_assigned) (\<lambda>assigned. job_abandon fuel assigned True e))))"

definition job_authorize :: "unit bprog" where
  "job_authorize =
     bind (field b_state) (\<lambda>st. if st \<noteq> JAssigned then fail (JobError ''invalid_state'') else update (\<lambda>b. b\<lparr>b_state := JAuthorized\<rparr>))"

definition boundary_close :: "nat \<Rightarrow> seconds \<Rightarrow> unit bprog" where
  "boundary_close fuel timeout =
     bind (field id) (\<lambda>b.
     if b_state b = JClosed then ret ()
     else
       bind (catch (bind (job_deadline timeout) (\<lambda>d. ret (d, False)))
                   (\<lambda>e. if is_JobError e then bind clock_seconds (\<lambda>now. ret (float_add now emergency_cleanup_budget, True)) else fail e))
         (\<lambda>(deadline, timed_out).
       bind (job_cleanup fuel (b_assigned b) deadline timed_out True) (\<lambda>(ok, cleanup_timeout).
       andthen (update (\<lambda>b. b\<lparr>b_state := (if ok then JClosed else JBroken)\<rparr>))
       (if timed_out \<or> cleanup_timeout then fail job_timeout else if \<not> ok then fail internal_error else ret ()))))"

section \<open>Closing against the shared deadline\<close>

definition deadline_turn :: "deadline \<Rightarrow> cleanup_vars \<Rightarrow> (cleanup_vars + cleanup_vars) bprog" where
  "deadline_turn c v =
     bind (field id) (\<lambda>b.
     if b_process b = VNone \<and> b_job b = VNone then ret (Inr v)
     else
       bind clock_ns (\<lambda>now.
       if remaining_ns c now \<le> 0 then ret (Inr (v\<lparr>cv_timed_out := True\<rparr>))
       else
         bind (process_wait (b_assigned b) True
                 (max min_wait_milliseconds (min max_wait_milliseconds (remaining_ns c now div 1000000))) v) (\<lambda>v.
         if b_job b = VNone \<or> \<not> b_assigned b then (if cv_process_waited v then ret (Inr v) else ret (Inl v))
         else
           bind clock_ns (\<lambda>now.
           if remaining_ns c now \<le> 0 then ret (Inr (v\<lparr>cv_timed_out := True\<rparr>)) else job_turn False v))))"

definition boundary_close_with_deadline :: "nat \<Rightarrow> deadline \<Rightarrow> unit bprog" where
  "boundary_close_with_deadline fuel c =
     bind (field id) (\<lambda>b.
     if b_state b = JClosed then ret ()
     else
       bind clock_ns (\<lambda>now.
       if cleanup_ns c now \<le> 0 then fail job_timeout
       else
         bind (terminate_process_first (b_assigned b) True b) (\<lambda>(process_terminated, ok1).
         bind (terminate_job_first b) (\<lambda>(job_terminated, ok2).
         bind (loop fuel (deadline_turn c) (start_vars (ok1 \<and> ok2) (b_assigned b) False True b)) (\<lambda>v.
         bind (close_handles (process_terminated \<and> cv_process_waited v) (job_terminated \<and> cv_active_zero v)) (\<lambda>closed.
         if cv_timed_out v \<or> \<not> (cv_ok v \<and> closed) then
           andthen (update (\<lambda>b. b\<lparr>b_state := JBroken\<rparr>)) (fail (if cv_timed_out v then job_timeout else internal_error))
         else update (\<lambda>b. b\<lparr>b_state := JClosed\<rparr>)))))))"

section \<open>What a cleanup closes\<close>

text \<open>The reasons for which the loop may set its two flags: an answer since the cleanup began, or the flag it started
  with.\<close>

definition waited_ok :: "boundary \<Rightarrow> world \<Rightarrow> world \<Rightarrow> bool" where
  "waited_ok b w w' \<longleftrightarrow> (\<exists>ms. since w w' ''wait'' [b_process b, VInt ms] (\<lambda>v. val_eq_int v wait_object_0))"

definition empty_job :: "boundary \<Rightarrow> world \<Rightarrow> world \<Rightarrow> bool" where
  "empty_job b w w' \<longleftrightarrow> since w w' ''query_active'' [b_job b] (\<lambda>v. val_eq_int v 0)"

definition loop_inv :: "boundary \<Rightarrow> world \<Rightarrow> bool \<Rightarrow> bool \<Rightarrow> cleanup_vars \<Rightarrow> boundary \<times> world \<Rightarrow> bool" where
  "loop_inv b w p a v s \<longleftrightarrow> fst s = b \<and> extends w (snd s)
     \<and> (cv_process_waited v \<longrightarrow> p \<or> waited_ok b w (snd s)) \<and> (cv_active_zero v \<longrightarrow> a \<or> empty_job b w (snd s))"

lemma job_call_wp [wp_simps]:
  "wp (job_call n args) Q E s = (case answer_of (n, args) (snd s) of
     Inr x \<Rightarrow> Q x (fst s, logged (n, args) (snd s))
   | Inl e \<Rightarrow> E (if is_JobError e then e else internal_error) (fst s, logged (n, args) (snd s)))"
  by (auto simp: job_call_def wp_simps split: sum.splits)

lemma job_safe_wp [wp_simps]:
  "wp (job_safe n args) Q E s = (case answer_of (n, args) (snd s) of
     Inr x \<Rightarrow> Q (truthy x) (fst s, logged (n, args) (snd s))
   | Inl e \<Rightarrow> Q False (fst s, logged (n, args) (snd s)))"
  by (auto simp: job_safe_def wp_simps split: sum.splits)

lemma loop_inv_logged: "loop_inv b w p a v (b', w') \<Longrightarrow> loop_inv b w p a v (b', logged c w')"
  by (auto simp: loop_inv_def waited_ok_def empty_job_def)

lemma job_turn_wp:
  assumes "loop_inv b w p a v s"
  shows "wp (job_turn x v) (\<lambda>r t. case r of Inl v' \<Rightarrow> loop_inv b w p a v' t | Inr v' \<Rightarrow> loop_inv b w p a v' t) (\<lambda>e t. loop_inv b w p a v t) s"
  using assms by (auto simp: job_turn_def wp_simps loop_inv_def waited_ok_def empty_job_def split: sum.splits)

lemma process_wait_wp:
  assumes "loop_inv b w p a v s"
  shows "wp (process_wait assigned tu ms v) (\<lambda>v' t. loop_inv b w p a v' t) (\<lambda>e t. False) s"
  using assms
  by (auto simp: process_wait_def wait_result_def wp_simps loop_inv_def waited_ok_def empty_job_def split: sum.splits)

lemma loop_inv_timed: "loop_inv b w p a v s \<Longrightarrow> loop_inv b w p a (v\<lparr>cv_timed_out := x\<rparr>) s"
  by (simp add: loop_inv_def)

abbreviation turn_post where
  "turn_post b w p a \<equiv> (\<lambda>r t. case r of Inl v' \<Rightarrow> loop_inv b w p a v' t | Inr v' \<Rightarrow> loop_inv b w p a v' t)"

abbreviation turn_error :: "boundary \<Rightarrow> world \<Rightarrow> py_exn \<Rightarrow> boundary \<times> world \<Rightarrow> bool" where
  "turn_error b w \<equiv> (\<lambda>e t. fst t = b \<and> extends w (snd t))"

lemma loop_inv_keep: "loop_inv b w p a v t \<Longrightarrow> turn_error b w e t"
  by (simp add: loop_inv_def)

lemma loop_inv_log: "loop_inv b w p a v s \<Longrightarrow> loop_inv b w p a v (fst s, logged c (snd s))"
  using loop_inv_logged by (cases s) simp

lemma clock_step:
  assumes "\<And>e c. E e (fst s, logged c (snd s))" "\<And>x c. wp (f x) Q E (fst s, logged c (snd s))"
  shows "wp (bind clock_seconds f) Q E s"
  using assms by (simp add: wp_bind clock_seconds_wp split: sum.split)

lemma clock_ns_step:
  assumes "\<And>e c. E e (fst s, logged c (snd s))" "\<And>x c. wp (f x) Q E (fst s, logged c (snd s))"
  shows "wp (bind clock_ns f) Q E s"
  using assms by (simp add: wp_bind clock_ns_wp split: sum.split)

lemma job_turn_post: "loop_inv b w p a v s \<Longrightarrow> wp (job_turn x v) (turn_post b w p a) (turn_error b w) s"
  by (rule wp_mono[OF job_turn_wp]) (auto dest: loop_inv_keep)

lemma timed_post: "loop_inv b w p a v s \<Longrightarrow> wp (ret (Inr (v\<lparr>cv_timed_out := True\<rparr>))) (turn_post b w p a) E s"
  by (simp add: wp_ret loop_inv_timed)

lemma clock_turn_post:
  assumes "loop_inv b w p a v s"
  shows "wp (bind clock_seconds (\<lambda>now. if g now then ret (Inr (v\<lparr>cv_timed_out := True\<rparr>)) else job_turn x v))
      (turn_post b w p a) (turn_error b w) s"
    "wp (bind clock_ns (\<lambda>now. if h now then ret (Inr (v\<lparr>cv_timed_out := True\<rparr>)) else job_turn x v))
      (turn_post b w p a) (turn_error b w) s"
  by (rule clock_step clock_ns_step, rule loop_inv_keep[OF loop_inv_log[OF assms]],
      simp only: wp_if timed_post[OF loop_inv_log[OF assms]] job_turn_post[OF loop_inv_log[OF assms]] if_cancel)+

lemma process_wait_post:
  assumes "loop_inv b w p a v s" "\<And>v t. loop_inv b w p a v t \<Longrightarrow> wp (f v) Q E t"
  shows "wp (bind (process_wait assigned tu ms v) f) Q E s"
  unfolding wp_bind by (rule wp_mono[OF process_wait_wp[OF assms(1)]]) (auto intro: assms(2))

lemma cleanup_turn_wp:
  assumes "loop_inv b w p a v s"
  shows "wp (cleanup_turn assigned d tu v) (turn_post b w p a) (turn_error b w) s"
proof -
  have s: "fst s = b" using assms by (simp add: loop_inv_def)
  have rest: "wp (bind (process_wait assigned tu ms v) (\<lambda>v.
         if b_job b = VNone \<or> \<not> assigned then (if cv_process_waited v \<or> cv_wait_failed v then ret (Inr v) else ret (Inl v))
         else bind clock_seconds (\<lambda>now. if float_not_positive (float_sub d now) then ret (Inr (v\<lparr>cv_timed_out := True\<rparr>))
           else job_turn True v))) (turn_post b w p a) (turn_error b w) (fst s, logged c (snd s))" for ms c
    by (rule process_wait_post[OF loop_inv_log[OF assms]]) (simp add: clock_turn_post wp_ret)
  have go: "wp (bind clock_seconds (\<lambda>now.
       let remaining = float_sub d now in
       if float_not_positive remaining then ret (Inr (v\<lparr>cv_timed_out := True\<rparr>))
       else
         bind (lift_result (int_of_float (float_mul remaining milliseconds_per_second))) (\<lambda>ms.
         bind (process_wait assigned tu (max min_wait_milliseconds (min max_wait_milliseconds ms)) v) (\<lambda>v.
         if b_job b = VNone \<or> \<not> assigned then
           (if cv_process_waited v \<or> cv_wait_failed v then ret (Inr v) else ret (Inl v))
         else
           bind clock_seconds (\<lambda>now.
           if float_not_positive (float_sub d now) then ret (Inr (v\<lparr>cv_timed_out := True\<rparr>))
           else job_turn True v))))) (turn_post b w p a) (turn_error b w) s"
  proof (rule clock_step, rule loop_inv_keep[OF loop_inv_log[OF assms]], goal_cases)
    case (1 now c)
    show ?case
      unfolding Let_def wp_if
      using timed_post[OF loop_inv_log[OF assms]] rest loop_inv_keep[OF loop_inv_log[OF assms]]
      by (cases "int_of_float (float_mul (float_sub d now) milliseconds_per_second)")
        (simp_all add: wp_bind[of "lift_result _"] wp_lift)
  qed
  show ?thesis
    unfolding cleanup_turn_def wp_bind[of "field _"] wp_field id_apply s wp_if
    using assms go by (simp add: wp_ret)
qed

lemma deadline_turn_wp:
  assumes "loop_inv b w p a v s"
  shows "wp (deadline_turn c v) (turn_post b w p a) (turn_error b w) s"
proof -
  have s: "fst s = b" using assms by (simp add: loop_inv_def)
  have go: "wp (bind clock_ns (\<lambda>now.
       if remaining_ns c now \<le> 0 then ret (Inr (v\<lparr>cv_timed_out := True\<rparr>))
       else
         bind (process_wait (b_assigned b) True
                 (max min_wait_milliseconds (min max_wait_milliseconds (remaining_ns c now div 1000000))) v) (\<lambda>v.
         if b_job b = VNone \<or> \<not> b_assigned b then (if cv_process_waited v then ret (Inr v) else ret (Inl v))
         else
           bind clock_ns (\<lambda>now.
           if remaining_ns c now \<le> 0 then ret (Inr (v\<lparr>cv_timed_out := True\<rparr>)) else job_turn False v))))
      (turn_post b w p a) (turn_error b w) s"
  proof (rule clock_ns_step, rule loop_inv_keep[OF loop_inv_log[OF assms]], goal_cases)
    case (1 now x)
    have "wp (bind (process_wait (b_assigned b) True ms v) (\<lambda>v.
         if b_job b = VNone \<or> \<not> b_assigned b then (if cv_process_waited v then ret (Inr v) else ret (Inl v))
         else bind clock_ns (\<lambda>now. if remaining_ns c now \<le> 0 then ret (Inr (v\<lparr>cv_timed_out := True\<rparr>)) else job_turn False v)))
       (turn_post b w p a) (turn_error b w) (fst s, logged x (snd s))" for ms
      by (rule process_wait_post[OF loop_inv_log[OF assms]]) (simp add: clock_turn_post wp_ret)
    then show ?case unfolding wp_if using timed_post[OF loop_inv_log[OF assms]] by simp
  qed
  show ?thesis
    unfolding deadline_turn_def wp_bind[of "field _"] wp_field id_apply s wp_if
    using assms go by (simp add: wp_ret)
qed

text \<open>What a cleanup may have done to the handles.\<close>

definition job_closed_safely :: "bool \<Rightarrow> boundary \<Rightarrow> world \<Rightarrow> world \<Rightarrow> bool" where
  "job_closed_safely assigned b w w' \<longleftrightarrow>
     since w w' ''terminate'' [b_job b] truthy \<and> since w w' ''close'' [b_job b] truthy \<and> (assigned \<longrightarrow> empty_job b w w')"

definition process_closed_safely :: "bool \<Rightarrow> bool \<Rightarrow> boundary \<Rightarrow> world \<Rightarrow> world \<Rightarrow> bool" where
  "process_closed_safely assigned tu b w w' \<longleftrightarrow>
     since w w' ''close'' [b_process b] truthy \<and>
     (\<not> assigned \<and> \<not> tu \<or> waited_ok b w w' \<and> (assigned \<or> since w w' ''terminate_process'' [b_process b] truthy))"

definition cleaned :: "bool \<Rightarrow> bool \<Rightarrow> boundary \<Rightarrow> world \<Rightarrow> boundary \<times> world \<Rightarrow> bool" where
  "cleaned assigned tu b w s \<longleftrightarrow>
     extends w (snd s) \<and> b_assigned (fst s) = b_assigned b \<and>
     (b_job (fst s) = b_job b \<or> b_job (fst s) = VNone \<and> job_closed_safely assigned b w (snd s)) \<and>
     (b_process (fst s) = b_process b \<or>
        b_process (fst s) = VNone \<and>
          (if b_borrowed b then b_job (fst s) = VNone else process_closed_safely assigned tu b w (snd s)))"

definition emptied :: "boundary \<Rightarrow> bool" where
  "emptied b \<longleftrightarrow> b_job b = VNone \<and> b_process b = VNone"

lemma close_handles_wp:
  assumes "extends w w1" "p \<longrightarrow> b_process b = VNone \<or> b_borrowed b \<or> \<not> assigned \<and> \<not> tu \<or>
      waited_ok b w w1 \<and> (assigned \<or> since w w1 ''terminate_process'' [b_process b] truthy)"
    and "j \<longrightarrow> b_job b = VNone \<or> since w w1 ''terminate'' [b_job b] truthy \<and> (assigned \<longrightarrow> empty_job b w w1)"
  shows "wp (close_handles p j) (\<lambda>x s. cleaned assigned tu b w s \<and> (x \<longrightarrow> emptied (fst s))) (\<lambda>e s. False) (b, w1)"
  using assms
  by (auto simp: close_handles_def close_process_handle_def close_job_handle_def wp_simps cleaned_def emptied_def
      job_closed_safely_def process_closed_safely_def waited_ok_def empty_job_def split: sum.splits)

lemma terminate_process_wp:
  "wp (terminate_process_first assigned tu b) (\<lambda>(pt, ok) s. fst s = b \<and> extends w (snd s) \<and>
      (pt \<longrightarrow> b_process b = VNone \<or> assigned \<or> b_borrowed b \<or> \<not> assigned \<and> \<not> tu \<or> since w (snd s) ''terminate_process'' [b_process b] truthy))
    (\<lambda>_ _. False) (b, w)"
  by (auto simp: terminate_process_first_def wp_simps split: sum.splits)

lemma terminate_job_wp:
  assumes "extends w w1"
  shows "wp (terminate_job_first b) (\<lambda>(jt, ok) s. fst s = b \<and> extends w1 (snd s) \<and>
      (jt \<longrightarrow> b_job b = VNone \<or> since w (snd s) ''terminate'' [b_job b] truthy)) (\<lambda>_ _. False) (b, w1)"
  using assms by (auto simp: terminate_job_first_def wp_simps split: sum.splits)

text \<open>The two cleanups have one shape: what is terminated, a loop whose turns keep the invariant, and the handles.\<close>

definition cleanup_shape ::
  "nat \<Rightarrow> (cleanup_vars \<Rightarrow> (cleanup_vars + cleanup_vars) bprog) \<Rightarrow> bool \<Rightarrow> bool \<Rightarrow> bool \<Rightarrow> boundary \<Rightarrow> (cleanup_vars \<Rightarrow> bool \<Rightarrow> 'a bprog) \<Rightarrow> 'a bprog" where
  "cleanup_shape fuel turn assigned timed_out tu b k =
     bind (terminate_process_first assigned tu b) (\<lambda>(process_terminated, ok1).
     bind (terminate_job_first b) (\<lambda>(job_terminated, ok2).
     bind (loop fuel turn (start_vars (ok1 \<and> ok2) assigned timed_out tu b)) (\<lambda>v.
     bind (close_handles (process_terminated \<and> cv_process_waited v) (job_terminated \<and> cv_active_zero v)) (\<lambda>closed. k v closed))))"

lemma job_cleanup_shape: "job_cleanup fuel assigned deadline timed_out tu = bind (field id) (\<lambda>b.
    cleanup_shape fuel (cleanup_turn assigned deadline tu) assigned timed_out tu b (\<lambda>v closed. ret (cv_ok v \<and> closed, cv_timed_out v)))"
  by (simp add: job_cleanup_def cleanup_shape_def)

lemma cleanup_shape_wp:
  assumes turn: "\<And>w p a v s. loop_inv b w p a v s \<Longrightarrow> wp (turn v) (turn_post b w p a) (turn_error b w) s"
    and k: "\<And>v closed s. cleaned assigned tu b w s \<Longrightarrow> (closed \<longrightarrow> emptied (fst s)) \<Longrightarrow> wp (k v closed) Q E s"
    and e: "\<And>x s. fst s = b \<Longrightarrow> extends w (snd s) \<Longrightarrow> E x s"
  shows "wp (cleanup_shape fuel turn assigned timed_out tu b k) Q E (b, w)"
  unfolding cleanup_shape_def wp_bind
proof (rule wp_mono[OF terminate_process_wp[where w = w]], goal_cases)
  case (1 r s)
  obtain pt ok1 w1 where r: "r = (pt, ok1)" "s = (b, w1)" using 1 by (cases r; cases s) auto
  have w1: "extends w w1" and pt: "pt \<longrightarrow> b_process b = VNone \<or> assigned \<or> b_borrowed b \<or> \<not> assigned \<and> \<not> tu \<or>
      since w w1 ''terminate_process'' [b_process b] truthy"
    using 1 r by auto
  show ?case
    unfolding r prod.case wp_bind
  proof (rule wp_mono[OF terminate_job_wp[OF w1]], goal_cases)
    case (1 r s)
    obtain jt ok2 w2 where r: "r = (jt, ok2)" "s = (b, w2)" using 1 by (cases r; cases s) auto
    have w2: "extends w1 w2" and jt: "jt \<longrightarrow> b_job b = VNone \<or> since w w2 ''terminate'' [b_job b] truthy" using 1 r by auto
    let ?p = "b_process b = VNone \<or> b_borrowed b \<and> \<not> assigned \<or> \<not> assigned \<and> \<not> tu"
    let ?a = "b_job b = VNone \<or> \<not> assigned"
    let ?v = "start_vars (ok1 \<and> ok2) assigned timed_out tu b"
    have w12: "extends w w2" using extends_trans[OF w1 w2] .
    have start: "loop_inv b w2 ?p ?a ?v (b, w2)" by (auto simp: loop_inv_def start_vars_def)
    have after: "wp (bind (close_handles (pt \<and> cv_process_waited v) (jt \<and> cv_active_zero v)) (\<lambda>closed. k v closed)) Q E t"
      if i: "loop_inv b w2 ?p ?a v t" for v t
    proof -
      obtain w3 where t: "t = (b, w3)" "extends w2 w3" using i by (cases t) (auto simp: loop_inv_def)
      have w3: "extends w w3" using extends_trans[OF w12 t(2)] .
      have waited: "waited_ok b w2 w3 \<Longrightarrow> waited_ok b w w3" "empty_job b w2 w3 \<Longrightarrow> empty_job b w w3"
        using since_earlier[OF _ w12 t(2)] by (auto simp: waited_ok_def empty_job_def)
      have t1: "since w w1 n x P \<Longrightarrow> since w w3 n x P" "since w w2 n x P \<Longrightarrow> since w w3 n x P" for n x P
        using since_grows[OF _ w1 extends_trans[OF w2 t(2)]] since_grows[OF _ w12 t(2)] by blast+
      have c: "wp (close_handles (pt \<and> cv_process_waited v) (jt \<and> cv_active_zero v))
          (\<lambda>x s. cleaned assigned tu b w s \<and> (x \<longrightarrow> emptied (fst s))) (\<lambda>e s. False) (b, w3)"
        using i pt jt waited t1 t by (intro close_handles_wp[OF w3]) (auto simp: loop_inv_def)
      show ?thesis
        unfolding t wp_bind by (rule wp_mono[OF c]) (auto intro: k)
    qed
    have "wp (loop fuel turn ?v) (\<lambda>v t. loop_inv b w2 ?p ?a v t) (turn_error b w2) (b, w2)"
      by (rule wp_loop[where I = "loop_inv b w2 ?p ?a", OF start turn]) (auto dest: loop_inv_keep)
    then show ?case
      unfolding r prod.case wp_bind[of "loop _ _ _"]
      by (rule wp_mono) (auto intro: after e extends_trans[OF w12])
  qed simp
qed simp

lemma cleaned_start: "fst s = b \<Longrightarrow> extends w (snd s) \<Longrightarrow> cleaned assigned tu b w s"
  by (simp add: cleaned_def)

lemma cleaned_state [simp]: "cleaned assigned tu b w (b'\<lparr>b_state := x\<rparr>, w') = cleaned assigned tu b w (b', w')"
  by (simp add: cleaned_def)

lemma cleaned_earlier:
  assumes "extends w w1" "cleaned assigned tu b w1 s"
  shows "cleaned assigned tu b w s"
proof -
  have x: "extends w1 (snd s)" using assms(2) by (simp add: cleaned_def)
  have "since w1 (snd s) n a P \<Longrightarrow> since w (snd s) n a P" for n a P using since_earlier[OF _ assms(1) x] .
  then show ?thesis
    using assms(2) extends_trans[OF assms(1) x]
    by (auto simp: cleaned_def job_closed_safely_def process_closed_safely_def waited_ok_def empty_job_def split: if_splits)
qed

text \<open>Both closes, over one postcondition.\<close>

abbreviation close_post :: "boundary \<Rightarrow> world \<Rightarrow> unit \<Rightarrow> boundary \<times> world \<Rightarrow> bool" where
  "close_post b w \<equiv> (\<lambda>_ s. cleaned (b_assigned b) True b w s \<and> b_state (fst s) = JClosed \<and> (b_state b \<noteq> JClosed \<longrightarrow> emptied (fst s)))"

abbreviation close_error :: "boundary \<Rightarrow> world \<Rightarrow> py_exn \<Rightarrow> boundary \<times> world \<Rightarrow> bool" where
  "close_error b w \<equiv> (\<lambda>_ s. cleaned (b_assigned b) True b w s)"

lemma close_deadline_wp:
  "wp (catch (bind (job_deadline t) (\<lambda>d. ret (d, False)))
        (\<lambda>e. if is_JobError e then bind clock_seconds (\<lambda>now. ret (float_add now emergency_cleanup_budget, True)) else fail e))
      (\<lambda>_ s. fst s = b \<and> extends w (snd s)) (\<lambda>_ s. fst s = b \<and> extends w (snd s)) (b, w)"
  by (auto simp: job_deadline_def wp_simps split: sum.splits seconds.splits)

lemma emptied_state [simp]: "emptied (b\<lparr>b_state := x\<rparr>) = emptied b"
  by (simp add: emptied_def)

lemma boundary_close_wp: "wp (boundary_close fuel t) (close_post b w) (close_error b w) (b, w)"
proof (cases "b_state b = JClosed")
  case True
  then show ?thesis by (simp add: boundary_close_def wp_simps cleaned_start)
next
  case False
  have "wp (job_cleanup fuel (b_assigned b) d to True)
      (\<lambda>(ok, _) s. cleaned (b_assigned b) True b w s \<and> (ok \<longrightarrow> emptied (fst s))) (close_error b w) (b, w1)" if "extends w w1" for d to w1
    unfolding job_cleanup_shape wp_bind wp_field id_apply fst_conv
    by (rule cleanup_shape_wp[OF cleanup_turn_wp]) (use that in \<open>auto simp: wp_ret cleaned_start intro: cleaned_earlier extends_trans\<close>)
  then have c: "wp (job_cleanup fuel (b_assigned b) d to True)
      (\<lambda>(ok, _) s. cleaned (b_assigned b) True b w s \<and> (ok \<longrightarrow> emptied (fst s))) (close_error b w) s"
      if "fst s = b" "extends w (snd s)" for d to s
    using that by (cases s) auto
  show ?thesis
    unfolding boundary_close_def wp_bind[of "field _"] wp_field id_apply fst_conv wp_if
    using False
    by (simp add: wp_bind[of "catch _ _"])
      (rule wp_mono[OF close_deadline_wp], auto simp: wp_simps cleaned_start intro!: wp_mono[OF c] split: prod.splits)
qed

lemma boundary_close_with_deadline_shape:
  "boundary_close_with_deadline fuel c = bind (field id) (\<lambda>b.
     if b_state b = JClosed then ret ()
     else bind clock_ns (\<lambda>now. if cleanup_ns c now \<le> 0 then fail job_timeout
       else cleanup_shape fuel (deadline_turn c) (b_assigned b) False True b (\<lambda>v closed.
         if cv_timed_out v \<or> \<not> (cv_ok v \<and> closed) then
           andthen (update (\<lambda>b. b\<lparr>b_state := JBroken\<rparr>)) (fail (if cv_timed_out v then job_timeout else internal_error))
         else update (\<lambda>b. b\<lparr>b_state := JClosed\<rparr>))))"
  unfolding boundary_close_with_deadline_def cleanup_shape_def by (rule refl)

lemma boundary_close_with_deadline_wp: "wp (boundary_close_with_deadline fuel c) (close_post b w) (close_error b w) (b, w)"
proof (cases "b_state b = JClosed")
  case True
  then show ?thesis by (simp add: boundary_close_with_deadline_def wp_simps cleaned_start)
next
  case False
  have shape: "wp (cleanup_shape fuel (deadline_turn c) (b_assigned b) False True b (\<lambda>v closed.
         if cv_timed_out v \<or> \<not> (cv_ok v \<and> closed) then
           andthen (update (\<lambda>b. b\<lparr>b_state := JBroken\<rparr>)) (fail (if cv_timed_out v then job_timeout else internal_error))
         else update (\<lambda>b. b\<lparr>b_state := JClosed\<rparr>))) (close_post b w) (close_error b w) (b, logged x w)" for x
    by (rule cleanup_shape_wp[OF deadline_turn_wp])
      (auto simp: wp_simps intro: cleaned_earlier[OF extends_logged] cleaned_start extends_trans[OF extends_logged])
  show ?thesis
    unfolding boundary_close_with_deadline_shape wp_bind[of "field _"] wp_field id_apply fst_conv wp_if
    unfolding if_not_P[OF False]
  proof (rule clock_ns_step, goal_cases)
    case (1 e x)
    then show ?case by (simp add: cleaned_start)
  next
    case (2 now x)
    show ?case unfolding wp_if wp_fail using shape[of x] by (cases "cleanup_ns c now \<le> 0") (simp_all only: if_True if_False cleaned_start fst_conv snd_conv extends_logged)
  qed
qed

section \<open>The loops end\<close>

text \<open>A clock that answers, and has passed the deadline from the \<open>n\<close>-th call of the run on.\<close>

definition clock_passes :: "deadline \<Rightarrow> world \<Rightarrow> nat \<Rightarrow> bool" where
  "clock_passes c w n \<longleftrightarrow> (\<forall>k. \<exists>t. w_answer w k (''clock_ns'', []) = Inr (VInt t) \<and> (n \<le> k \<longrightarrow> deadline_ns c \<le> t))"

lemma no_fuel_distinct [simp]: "internal_error \<noteq> no_fuel" "job_timeout \<noteq> no_fuel" "val_less_int v n \<noteq> Inl no_fuel"
  by (auto simp: no_fuel_def internal_error_def job_timeout_def val_less_int_def split: val.splits)

lemma process_wait_extends: "wp (process_wait a tu ms v) (\<lambda>_ t. fst t = fst s \<and> extends (snd s) (snd t)) (\<lambda>_ _. False) s"
  by (auto simp: process_wait_def wp_simps split: sum.splits)

lemma job_turn_extends: "wp (job_turn x v) (\<lambda>_ t. extends (snd s) (snd t)) (\<lambda>e _. e \<noteq> no_fuel) s"
  by (auto simp: job_turn_def wp_simps split: sum.splits dest: sym)

lemma clock_ns_passes:
  assumes "clock_passes c (snd s) n"
    "\<And>t. (n \<le> length (w_trace (snd s)) \<longrightarrow> deadline_ns c \<le> t) \<Longrightarrow> wp (f t) Q E (fst s, logged (''clock_ns'', []) (snd s))"
  shows "wp (bind clock_ns f) Q E s"
proof -
  obtain t where "answer_of (''clock_ns'', []) (snd s) = Inr (VInt t)" "n \<le> length (w_trace (snd s)) \<longrightarrow> deadline_ns c \<le> t"
    using assms(1) unfolding clock_passes_def answer_of_def by blast
  then show ?thesis using assms(2) by (simp add: wp_bind clock_ns_wp as_int_def)
qed

lemma clock_passes_extends: "extends w w' \<Longrightarrow> clock_passes c w' n = clock_passes c w n"
  by (simp add: clock_passes_def extends_def)

lemma extends_length: "extends w w' \<Longrightarrow> length (w_trace w) \<le> length (w_trace w')"
  by (auto simp: extends_def)

lemma deadline_turn_ends:
  assumes "clock_passes c (snd s) n"
  shows "wp (deadline_turn c v) (\<lambda>r t. clock_passes c (snd t) n \<and>
      (case r of Inl v' \<Rightarrow> n - length (w_trace (snd t)) < n - length (w_trace (snd s)) | Inr _ \<Rightarrow> True)) (\<lambda>e _. e \<noteq> no_fuel) s"
proof -
  let ?post = "\<lambda>r t. clock_passes c (snd t) n \<and>
      (case r of Inl v' \<Rightarrow> n - length (w_trace (snd t)) < n - length (w_trace (snd s)) | Inr (_ :: cleanup_vars) \<Rightarrow> True)"
  define s1 where "s1 = (fst s, logged (''clock_ns'', []) (snd s))"
  have s1: "extends (snd s) (snd s1)" "length (w_trace (snd s1)) = Suc (length (w_trace (snd s)))" by (simp_all add: s1_def)
  have fin: "?post r t" if "extends (snd s1) (snd t)" "length (w_trace (snd s)) < n" for r t
    using that extends_length[OF that(1)] s1 clock_passes_extends[OF extends_trans[OF s1(1) that(1)]] assms
    by (auto split: sum.splits)
  have finl: "clock_passes c (snd t) n" "n - length (w_trace (snd t)) < n - length (w_trace (snd s))"
    if "extends (snd s1) (snd t)" "length (w_trace (snd s)) < n" for t :: "boundary \<times> world"
    using fin[OF that, of "Inl undefined"] by simp_all
  have last: "wp (bind clock_ns (\<lambda>now. if remaining_ns c now \<le> 0 then ret (Inr (v\<lparr>cv_timed_out := True\<rparr>)) else job_turn False v))
     ?post (\<lambda>e _. e \<noteq> no_fuel) t" if "extends (snd s1) (snd t)" "length (w_trace (snd s)) < n" for v t
  proof (rule clock_ns_passes[where n = n and c = c])
    show "clock_passes c (snd t) n" using clock_passes_extends[OF extends_trans[OF s1(1) that(1)]] assms by simp
  next
    fix now
    let ?t = "(fst t, logged (''clock_ns'', []) (snd t))"
    have x: "extends (snd s1) (snd ?t)" using that(1) by simp
    have "wp (job_turn False v) ?post (\<lambda>e _. e \<noteq> no_fuel) ?t"
      by (rule wp_mono[OF job_turn_extends]) (use extends_trans[OF x] fin that(2) in blast)+
    then show "wp (if remaining_ns c now \<le> 0 then ret (Inr (v\<lparr>cv_timed_out := True\<rparr>)) else job_turn False v)
      ?post (\<lambda>e _. e \<noteq> no_fuel) ?t"
      using fin[OF x that(2), of "Inr v"] fin[OF x that(2), of "Inr (v\<lparr>cv_timed_out := True\<rparr>)"] by (simp add: wp_ret)
  qed
  have turn: "wp (bind clock_ns (\<lambda>now. if remaining_ns c now \<le> 0 then ret (Inr (v\<lparr>cv_timed_out := True\<rparr>))
       else bind (process_wait (b_assigned b) True (ms now) v) (\<lambda>v.
         if b_job b = VNone \<or> \<not> b_assigned b then (if cv_process_waited v then ret (Inr v) else ret (Inl v))
         else bind clock_ns (\<lambda>now.
           if remaining_ns c now \<le> 0 then ret (Inr (v\<lparr>cv_timed_out := True\<rparr>)) else job_turn False v))))
     ?post (\<lambda>e _. e \<noteq> no_fuel) s" for b ms
  proof (rule clock_ns_passes[OF assms], goal_cases)
    case (1 now)
    have late: "clock_passes c (snd s1) n" using clock_passes_extends[OF s1(1)] assms by simp
    have go: "wp (process_wait (b_assigned b) True (ms now) v) (\<lambda>v'. wp (
         if b_job b = VNone \<or> \<not> b_assigned b then (if cv_process_waited v' then ret (Inr v') else ret (Inl v'))
         else bind clock_ns (\<lambda>now. if remaining_ns c now \<le> 0 then ret (Inr (v'\<lparr>cv_timed_out := True\<rparr>)) else job_turn False v'))
        ?post (\<lambda>e _. e \<noteq> no_fuel)) (\<lambda>e _. e \<noteq> no_fuel) s1" if "length (w_trace (snd s)) < n"
      by (rule wp_mono[OF process_wait_extends]) (use finl last that in \<open>auto simp add: wp_ret\<close>)
    have "\<not> remaining_ns c now \<le> 0 \<Longrightarrow> length (w_trace (snd s)) < n" using 1 by (auto simp: remaining_ns_def)
    then show ?case
      unfolding s1_def[symmetric] wp_bind[of "process_wait _ _ _ _"] wp_if[of "remaining_ns c now \<le> 0"]
      using go late by (cases "remaining_ns c now \<le> 0") (simp_all only: if_True if_False wp_ret sum.case simp_thms)
  qed
  show ?thesis
    unfolding deadline_turn_def wp_bind[of "field _"] wp_field id_apply wp_if
    using turn[of "fst s"] assms by (simp add: wp_ret)
qed

lemma terminate_extends:
  "wp (terminate_process_first a tu b) (\<lambda>_ t. extends (snd s) (snd t)) (\<lambda>e _. e \<noteq> no_fuel) s"
  "wp (terminate_job_first b) (\<lambda>_ t. extends (snd s) (snd t)) (\<lambda>e _. e \<noteq> no_fuel) s"
  "wp (close_handles p j) (\<lambda>_ _. True) (\<lambda>e _. e \<noteq> no_fuel) s"
  by (auto simp: terminate_process_first_def terminate_job_first_def close_handles_def close_process_handle_def
      close_job_handle_def wp_simps split: sum.splits)

lemma boundary_close_ends:
  assumes "clock_passes c w n" "n < fuel"
  shows "wp (boundary_close_with_deadline fuel c) (\<lambda>_ _. True) (\<lambda>e _. e \<noteq> no_fuel) (b, w)"
proof -
  let ?E = "\<lambda>e (_ :: boundary \<times> world). e \<noteq> no_fuel"
  have loop: "wp (loop fuel (deadline_turn c) v) (\<lambda>_ _. True) ?E s" if "clock_passes c (snd s) n" for v s
    by (rule wp_loop_measure[where I = "\<lambda>_ t. clock_passes c (snd t) n" and \<mu> = "\<lambda>_ t. n - length (w_trace (snd t))"])
      (use that assms(2) in \<open>auto intro!: wp_mono[OF deadline_turn_ends] split: sum.splits\<close>)
  have shape: "wp (cleanup_shape fuel (deadline_turn c) (b_assigned b) False True b (\<lambda>v closed.
         if cv_timed_out v \<or> \<not> (cv_ok v \<and> closed) then
           andthen (update (\<lambda>b. b\<lparr>b_state := JBroken\<rparr>)) (fail (if cv_timed_out v then job_timeout else internal_error))
         else update (\<lambda>b. b\<lparr>b_state := JClosed\<rparr>))) (\<lambda>_ _. True) ?E s" if s: "clock_passes c (snd s) n" for s
    unfolding cleanup_shape_def wp_bind
  proof (rule wp_mono[OF terminate_extends(1)], goal_cases)
    case (1 r t)
    show ?case
      unfolding wp_prod wp_bind
    proof (cases r, simp only: prod.case, rule wp_mono[OF terminate_extends(2)], goal_cases)
      case (1 _ _ r' t')
      have "clock_passes c (snd t') n" using clock_passes_extends extends_trans \<open>extends (snd s) (snd t)\<close> 1(2) s by blast
      then show ?case
        by (cases r', simp only: prod.case wp_bind) (rule wp_mono[OF loop], assumption, rule wp_mono[OF terminate_extends(3)], auto simp: wp_simps)
    qed
  qed
  show ?thesis
    unfolding boundary_close_with_deadline_shape wp_bind[of "field _"] wp_field id_apply fst_conv wp_if
  proof (cases "b_state b = JClosed", goal_cases)
    case 2
    have "wp (bind clock_ns (\<lambda>now. if cleanup_ns c now \<le> 0 then fail job_timeout
       else cleanup_shape fuel (deadline_turn c) (b_assigned b) False True b (\<lambda>v closed.
         if cv_timed_out v \<or> \<not> (cv_ok v \<and> closed) then
           andthen (update (\<lambda>b. b\<lparr>b_state := JBroken\<rparr>)) (fail (if cv_timed_out v then job_timeout else internal_error))
         else update (\<lambda>b. b\<lparr>b_state := JClosed\<rparr>)))) (\<lambda>_ _. True) ?E (b, w)"
    proof (rule clock_ns_passes[where c = c and n = n], goal_cases)
      case (2 t)
      have "clock_passes c (snd (fst (b, w), logged (''clock_ns'', []) (snd (b, w)))) n"
        using assms(1) by (simp add: clock_passes_def)
      from shape[OF this] show ?case unfolding wp_if wp_fail by (simp only: no_fuel_distinct if_True if_False simp_thms split: if_split)
    qed (use assms(1) in simp)
    then show ?case using 2 by simp
  qed (simp add: wp_ret)
qed

lemmas [run] = wait_object_0_def wait_timeout_def min_wait_milliseconds_def max_wait_milliseconds_def internal_error_def job_timeout_def
  val_eq_int_def val_less_int_def float_not_positive_def empty_boundary_def job_call_def job_safe_def close_process_handle_def
  close_job_handle_def close_handles_def wait_result_def job_turn_def process_wait_def cleanup_turn_def start_vars_def
  terminate_process_first_def terminate_job_first_def job_cleanup_def job_abandon_def deadline_turn_def
  boundary_close_with_deadline_def remaining_ns_def cleanup_ns_def

section \<open>Properties\<close>

text \<open>A job with one owned process, assigned; the process ends at the first wait and the job is empty then.\<close>

definition sample_boundary :: boundary where
  "sample_boundary = \<lparr>b_job = VInt 8, b_process = VInt 9, b_assigned = True, b_borrowed = False, b_state = JAssigned\<rparr>"

definition sample_clock :: deadline where
  "sample_clock = \<lparr>t0_ns = 0, deadline_ns = 100, reserve_ns = 25\<rparr>"

definition sample_job_world :: world where
  "sample_job_world = \<lparr>w_answer = (\<lambda>n c. if fst c = ''clock_ns'' then Inr (VInt (20 * int n)) else if fst c = ''wait'' then Inr (VInt 0)
     else if fst c = ''query_active'' then Inr (VInt 0) else Inr (VBool True)), w_trace = []\<rparr>"

text \<open>C17: closing is fail-closed. However the API answers, the boundary gives up its job handle only after the job was
  terminated and its handle closed, and, when a process had been assigned, after the job reported no active process; it gives up
  a process it owns only after the process was waited for to the end (or, before any assignment, terminated and waited
  for) and its handle closed. In every other case the handles are kept, so that a later close can try again; and a close that
  returns without an error leaves no handle behind and the state closed.\<close>

theorem job_close_fail_closed:
  assumes "boundary_close fuel t (b, w) = (res, (b', w')) \<or> boundary_close_with_deadline fuel c (b, w) = (res, (b', w'))"
  shows "cleaned (b_assigned b) True b w (b', w') \<and> (res = Inr () \<longrightarrow> b_state b' = JClosed \<and> (b_state b = JClosed \<or> emptied b'))"
  using assms
proof
  assume "boundary_close fuel t (b, w) = (res, (b', w'))"
  then show ?thesis using boundary_close_wp[of fuel t b w] by (cases res) (auto dest: wpD_Inr wpD_Inl)
next
  assume "boundary_close_with_deadline fuel c (b, w) = (res, (b', w'))"
  then show ?thesis using boundary_close_with_deadline_wp[of fuel c b w] by (cases res) (auto dest: wpD_Inr wpD_Inl)
qed

lemma sample_job_close: "\<exists>b' w'. boundary_close_with_deadline 3 sample_clock (sample_boundary, sample_job_world) = (Inr (), (b', w'))
    \<and> b_state b' = JClosed \<and> length (w_trace w') = 8"
  by (simp add: run sample_boundary_def sample_clock_def sample_job_world_def eval_nat_numeral)

theorem job_close_fail_closed_witness:
  "\<exists>b' w'. boundary_close_with_deadline 3 sample_clock (sample_boundary, sample_job_world) = (Inr (), (b', w')) \<and> emptied b'"
proof -
  obtain b' w' where r: "boundary_close_with_deadline 3 sample_clock (sample_boundary, sample_job_world) = (Inr (), (b', w'))"
    using sample_job_close by blast
  have "cleaned (b_assigned sample_boundary) True sample_boundary sample_job_world (b', w')
      \<and> (Inr () = (Inr () :: py_exn + unit) \<longrightarrow> b_state b' = JClosed \<and> (b_state sample_boundary = JClosed \<or> emptied b'))"
    by (rule job_close_fail_closed[of 3 undefined]) (rule disjI2, rule r)
  then show ?thesis using r by (auto simp: sample_boundary_def)
qed

text \<open>C21: closing against the shared deadline always ends: if from some call of the run on the clock has passed the
  deadline, that many turns of the loop are enough, whatever the API answers meanwhile, failed waits included.\<close>

theorem job_close_ends:
  assumes "clock_passes c w n" "n < fuel"
  shows "fst (boundary_close_with_deadline fuel c (b, w)) \<noteq> Inl no_fuel"
  using boundary_close_ends[OF assms, of b] by (cases "boundary_close_with_deadline fuel c (b, w)") (auto simp: wp_def split: sum.splits)

theorem job_close_ends_witness: "fst (boundary_close_with_deadline 6 sample_clock (sample_boundary, sample_job_world)) \<noteq> Inl no_fuel"
proof -
  have "clock_passes sample_clock sample_job_world 5"
    by (simp add: clock_passes_def sample_clock_def sample_job_world_def)
  then show ?thesis by (rule job_close_ends) simp
qed

end
