(* ===== verification/Invariants.thy ===== *)
theory Invariants
  imports Effects
begin

text \<open>
  Two more judgements on methods with effects, closed under the program constructs like \<open>calls\<close> of \<open>Effects\<close>:
  \<open>keeps B m\<close> says that \<open>m\<close> keeps the invariant \<open>B\<close> whether it returns or raises, and \<open>still m\<close> that \<open>m\<close> does not change the object.
\<close>

section \<open>Methods that keep an invariant\<close>

definition keeps :: "('o \<times> world \<Rightarrow> bool) \<Rightarrow> ('o, 'a) prog \<Rightarrow> bool" where
  "keeps B m \<longleftrightarrow> (\<forall>s. B s \<longrightarrow> wp m (\<lambda>_. B) (\<lambda>_. B) s)"

named_theorems keeps_intros \<open>invariants of the program constructs\<close>

lemma keepsI: "(\<And>s. B s \<Longrightarrow> wp m (\<lambda>_. B) (\<lambda>_. B) s) \<Longrightarrow> keeps B m"
  unfolding keeps_def by blast

lemma keepsD: "keeps B m \<Longrightarrow> B s \<Longrightarrow> wp m (\<lambda>_. B) (\<lambda>_. B) s"
  unfolding keeps_def by blast

lemma keeps_pure [keeps_intros]: "keeps B (ret x)" "keeps B (fail e)" "keeps B (field f)" "keeps B (lift_result r)"
  by (auto simp: keeps_def wp_simps split: sum.split)

lemma keeps_bind [keeps_intros]: "keeps B m \<Longrightarrow> (\<And>x. keeps B (f x)) \<Longrightarrow> keeps B (bind m f)"
  unfolding keeps_def wp_bind by (blast intro: wp_mono)

lemma keeps_andthen [keeps_intros]: "keeps B m \<Longrightarrow> keeps B n \<Longrightarrow> keeps B (andthen m n)"
  by (simp add: andthen_def keeps_bind)

lemma keeps_catch [keeps_intros]: "keeps B m \<Longrightarrow> (\<And>e. keeps B (h e)) \<Longrightarrow> keeps B (catch m h)"
  unfolding keeps_def wp_catch by (blast intro: wp_mono)

lemma keeps_ensure [keeps_intros]: "keeps B m \<Longrightarrow> keeps B f \<Longrightarrow> keeps B (ensure m f)"
  unfolding keeps_def wp_ensure by (blast intro: wp_mono)

lemma keeps_outcome [keeps_intros]: "keeps B m \<Longrightarrow> keeps B (outcome m)"
  unfolding keeps_def wp_outcome .

lemma keeps_if [keeps_intros]: "(b \<Longrightarrow> keeps B m) \<Longrightarrow> (\<not> b \<Longrightarrow> keeps B n) \<Longrightarrow> keeps B (if b then m else n)"
  by simp

lemma keeps_cases [keeps_intros]:
  "keeps B m \<Longrightarrow> (\<And>y. keeps B (f y)) \<Longrightarrow> keeps B (case z of None \<Rightarrow> m | Some y \<Rightarrow> f y)"
  "(\<And>x. keeps B (g x)) \<Longrightarrow> (\<And>y. keeps B (h y)) \<Longrightarrow> keeps B (case q of Inl x \<Rightarrow> g x | Inr y \<Rightarrow> h y)"
  "(\<And>x y. keeps B (k x y)) \<Longrightarrow> keeps B (case p of (x, y) \<Rightarrow> k x y)"
  "(\<And>x. keeps B (l x)) \<Longrightarrow> keeps B (let x = v in l x)"
  by (auto split: option.split sum.split prod.split)

lemma keeps_val_case [keeps_intros]:
  "keeps B a \<Longrightarrow> (\<And>x. keeps B (b x)) \<Longrightarrow> (\<And>x. keeps B (c x)) \<Longrightarrow> (\<And>x. keeps B (d x)) \<Longrightarrow> (\<And>x. keeps B (e x)) \<Longrightarrow>
   (\<And>x. keeps B (f x)) \<Longrightarrow> (\<And>x. keeps B (g x)) \<Longrightarrow>
   keeps B (case v of VNone \<Rightarrow> a | VBool x \<Rightarrow> b x | VInt x \<Rightarrow> c x | VFloat x \<Rightarrow> d x | VStr x \<Rightarrow> e x | VBytes x \<Rightarrow> f x | VRef x \<Rightarrow> g x)"
  by (cases v) auto

lemma keeps_loop [keeps_intros]: "(\<And>v. keeps B (body v)) \<Longrightarrow> keeps B (loop n body v)"
  by (induction n arbitrary: v) (auto intro!: keeps_intros)

section \<open>Methods that leave the object as it is\<close>

definition still :: "('o, 'a) prog \<Rightarrow> bool" where
  "still m \<longleftrightarrow> (\<forall>s. fst (snd (m s)) = fst s)"

named_theorems still_intros \<open>methods that do not change the object\<close>

lemma still_pure [still_intros]: "still (ret x)" "still (fail e)" "still (field f)" "still (ext c)" "still (lift_result r)"
  by (simp_all add: still_def ret_def fail_def field_def ext_def lift_result_def)

lemma still_bind [still_intros]: "still m \<Longrightarrow> (\<And>x. still (f x)) \<Longrightarrow> still (bind m f)"
proof -
  assume m: "still m" and f: "\<And>x. still (f x)"
  have "fst (snd (bind m f s)) = fst s" for s
  proof -
    obtain r t where e: "m s = (r, t)" by (cases "m s")
    have "fst t = fst s" using m e unfolding still_def by (metis snd_conv)
    moreover have "fst (snd (f x t)) = fst t" for x using f[of x] unfolding still_def by blast
    ultimately show ?thesis by (cases r) (simp_all add: bind_def e)
  qed
  then show ?thesis by (simp add: still_def)
qed

lemma still_catch [still_intros]: "still m \<Longrightarrow> (\<And>e. still (h e)) \<Longrightarrow> still (catch m h)"
proof -
  assume m: "still m" and h: "\<And>e. still (h e)"
  have "fst (snd (catch m h s)) = fst s" for s
  proof -
    obtain r t where e: "m s = (r, t)" by (cases "m s")
    have "fst t = fst s" using m e unfolding still_def by (metis snd_conv)
    moreover have "fst (snd (h x t)) = fst t" for x using h[of x] unfolding still_def by blast
    ultimately show ?thesis by (cases r) (simp_all add: catch_def e)
  qed
  then show ?thesis by (simp add: still_def)
qed

lemma still_andthen [still_intros]: "still m \<Longrightarrow> still n \<Longrightarrow> still (andthen m n)"
  by (simp add: andthen_def still_bind)

lemma still_outcome [still_intros]: "still m \<Longrightarrow> still (outcome m)"
  by (simp add: still_def outcome_def split_def)

lemma still_if [still_intros]: "(b \<Longrightarrow> still m) \<Longrightarrow> (\<not> b \<Longrightarrow> still n) \<Longrightarrow> still (if b then m else n)"
  by simp

lemma still_cases [still_intros]:
  "still m \<Longrightarrow> (\<And>y. still (f y)) \<Longrightarrow> still (case z of None \<Rightarrow> m | Some y \<Rightarrow> f y)"
  "(\<And>x. still (g x)) \<Longrightarrow> (\<And>y. still (h y)) \<Longrightarrow> still (case q of Inl x \<Rightarrow> g x | Inr y \<Rightarrow> h y)"
  "(\<And>x y. still (k x y)) \<Longrightarrow> still (case p of (x, y) \<Rightarrow> k x y)"
  by (auto split: option.split sum.split prod.split)

lemma still_clock [still_intros]: "still clock_ns" "still clock_seconds"
  by (auto simp: clock_ns_def clock_seconds_def intro!: still_intros)

text \<open>A method that leaves the object alone and only makes calls with names in \<open>N\<close> keeps every invariant that such calls keep.\<close>

lemma keeps_still:
  assumes "calls N m" "still m"
    and "\<And>x w w'. B (x, w) \<Longrightarrow> extends w w' \<Longrightarrow> \<forall>a \<in> set (recent w w'). fst (fst a) \<in> N \<Longrightarrow> B (x, w')"
  shows "keeps B m"
proof (rule keepsI)
  fix s assume B: "B s"
  obtain r t where e: "m s = (r, t)" by (cases "m s")
  have "fst t = fst s" using assms(2) e unfolding still_def by (metis snd_conv)
  then have "B t" using assms(3)[of "fst s" "snd s" "snd t"] callsD[OF assms(1) e] B by (metis prod.collapse)
  then show "wp m (\<lambda>_. B) (\<lambda>_. B) s" using e by (simp add: wp_def split: sum.split)
qed

text \<open>A method of a component runs inside the object that holds it.\<close>

lemma keeps_within: "(\<And>x. keeps (\<lambda>(p, w). B (put p x, w)) m) \<Longrightarrow> (\<And>x. put (sel x) x = x) \<Longrightarrow> keeps B (within sel put m)"
  unfolding keeps_def wp_within by (auto simp: split_def wp_def split: sum.split)

lemma andthen_assoc: "andthen (andthen a b) c = andthen a (andthen b c)"
  by (rule ext) (simp add: andthen_def bind_def split: prod.split sum.split)

end
