(* ===== verification/ResourceOwners.thy ===== *)
theory ResourceOwners
  imports JobBoundary Invariants
begin

text \<open>
  \<open>codex_job_resources.py\<close> and \<open>codex_process_resources.py\<close>: the owners of a Job, of a started process
  (\<open>subprocess.Popen\<close>, outside), and of both together. The aggregate closes the Job first and keeps both owners until
  that has succeeded.
\<close>

section \<open>Errors\<close>

definition acquisition_failure :: py_exn where "acquisition_failure = ResourceError ''_JobAcquisitionFailure''"
definition job_assignment_error :: py_exn where "job_assignment_error = ResourceError ''_JobAssignmentError''"
definition job_cleanup_error :: py_exn where "job_cleanup_error = ResourceError ''_JobCleanupError''"
definition job_ownership_error :: py_exn where "job_ownership_error = ResourceError ''job _OwnershipError''"
definition popen_adaptation_error :: py_exn where "popen_adaptation_error = ResourceError ''_PopenAdaptationError''"
definition popen_cleanup_error :: py_exn where "popen_cleanup_error = ResourceError ''_PopenCleanupError''"
definition popen_timeout_error :: py_exn where "popen_timeout_error = ResourceError ''_PopenTimeoutError''"
definition process_ownership_error :: py_exn where "process_ownership_error = ResourceError ''process _OwnershipError''"

definition is_job_resource_error :: "py_exn \<Rightarrow> bool" where
  "is_job_resource_error e \<longleftrightarrow> e \<in> {acquisition_failure, job_assignment_error, job_cleanup_error, job_ownership_error}"

definition is_process_resource_error :: "py_exn \<Rightarrow> bool" where
  "is_process_resource_error e \<longleftrightarrow> e \<in> {popen_adaptation_error, popen_cleanup_error, popen_timeout_error, process_ownership_error}"

lemmas owner_errors = acquisition_failure_def job_assignment_error_def job_cleanup_error_def job_ownership_error_def
  popen_adaptation_error_def popen_cleanup_error_def popen_timeout_error_def process_ownership_error_def

section \<open>The Job\<close>

datatype owner_state = OOpen | OAssigned | OClosing | OBroken | OClosed | OTransferred

record handle_owner =
  ho_handle :: val
  ho_state :: owner_state

definition handle_owner_close :: "(handle_owner, unit) prog" where
  "handle_owner_close =
     bind (field id) (\<lambda>h.
     if ho_state h = OClosed then ret ()
     else if ho_state h \<noteq> OOpen \<and> ho_state h \<noteq> OBroken then fail job_ownership_error
     else
       andthen (update (\<lambda>h. h\<lparr>ho_state := OClosing\<rparr>))
       (andthen
         (catch
           (if ho_handle h = VNone then fail (RuntimeError '''')
            else bind (ext (''terminate'', [ho_handle h])) (\<lambda>t. if \<not> truthy t then fail (RuntimeError '''')
              else bind (ext (''close'', [ho_handle h])) (\<lambda>c. if \<not> truthy c then fail (RuntimeError '''') else ret ())))
           (\<lambda>_. andthen (update (\<lambda>h. h\<lparr>ho_state := OBroken\<rparr>)) (fail job_cleanup_error)))
         (update (\<lambda>h. h\<lparr>ho_handle := VNone, ho_state := OClosed\<rparr>))))"

record job_owner =
  jo_boundary :: boundary
  jo_state :: owner_state

definition transfer_to_boundary :: "(handle_owner, job_owner) prog" where
  "transfer_to_boundary =
     bind (field id) (\<lambda>h.
     if ho_state h \<noteq> OOpen \<or> ho_handle h = VNone then fail job_ownership_error
     else
       andthen (update (\<lambda>h. h\<lparr>ho_handle := VNone, ho_state := OTransferred\<rparr>))
       (ret \<lparr>jo_boundary = empty_boundary (ho_handle h), jo_state = OOpen\<rparr>))"

text \<open>\<open>_acquire_job_owner\<close>. The object is the owner that the failure carries, if any: a caller can close it again.\<close>

definition acquire_job_owner :: "(handle_owner option, job_owner) prog" where
  "acquire_job_owner =
     andthen (update (\<lambda>_. None))
     (bind (catch (bind (ext (''create_job'', [])) (\<lambda>h. if \<not> truthy h \<or> h = invalid_handle then fail (RuntimeError '''') else ret h))
             (\<lambda>_. fail acquisition_failure)) (\<lambda>handle.
      andthen (update (\<lambda>_. Some \<lparr>ho_handle = handle, ho_state = OOpen\<rparr>))
      (andthen
        (catch
          (bind (ext (''make_non_inheritable'', [handle])) (\<lambda>a. if \<not> truthy a then fail (RuntimeError '''')
            else bind (ext (''enable_kill_on_close'', [handle])) (\<lambda>k. if \<not> truthy k then fail (RuntimeError '''') else ret ())))
          (\<lambda>_. andthen
             (catch (within the (\<lambda>h _. Some h) handle_owner_close)
                (\<lambda>e. if e = job_cleanup_error then fail acquisition_failure else fail e))
             (andthen (update (\<lambda>_. None)) (fail acquisition_failure))))
        (bind (within the (\<lambda>h _. Some h) transfer_to_boundary) (\<lambda>j. andthen (update (\<lambda>_. None)) (ret j))))))"

definition in_boundary :: "(boundary, 'a) prog \<Rightarrow> (job_owner, 'a) prog" where
  "in_boundary m = within jo_boundary (\<lambda>b j. j\<lparr>jo_boundary := b\<rparr>) m"

definition set_job_state :: "(job_owner \<Rightarrow> owner_state) \<Rightarrow> (job_owner, unit) prog" where
  "set_job_state f = update (\<lambda>j. j\<lparr>jo_state := f j\<rparr>)"

definition failed_state :: "job_owner \<Rightarrow> owner_state" where
  "failed_state j = (if b_state (jo_boundary j) = JClosed then OClosed else OBroken)"

definition job_owner_assign :: "nat \<Rightarrow> val \<Rightarrow> bool \<Rightarrow> (job_owner, unit) prog" where
  "job_owner_assign fuel handle allow_nested =
     bind (field jo_state) (\<lambda>st.
     if st \<noteq> OOpen then fail job_ownership_error
     else
       andthen
         (catch (in_boundary (assign_borrowed_handle fuel handle allow_nested))
           (\<lambda>e. if is_JobError e then andthen (set_job_state failed_state) (fail job_assignment_error) else fail e))
         (set_job_state (\<lambda>_. OAssigned)))"

definition job_owner_close_by :: "(boundary, unit) prog \<Rightarrow> (job_owner, unit) prog" where
  "job_owner_close_by m =
     bind (field jo_state) (\<lambda>st.
     if st = OClosed then ret ()
     else if st = OClosing then fail job_ownership_error
     else
       andthen (set_job_state (\<lambda>_. OClosing))
       (andthen
         (catch (in_boundary m)
           (\<lambda>e. if is_JobError e
                then andthen (set_job_state failed_state) (if e = job_timeout then fail e else fail job_cleanup_error)
                else fail e))
         (set_job_state (\<lambda>_. OClosed))))"

definition job_owner_close :: "nat \<Rightarrow> seconds \<Rightarrow> (job_owner, unit) prog" where
  "job_owner_close fuel timeout = job_owner_close_by (boundary_close fuel timeout)"

definition job_owner_close_with_deadline :: "nat \<Rightarrow> deadline \<Rightarrow> (job_owner, unit) prog" where
  "job_owner_close_with_deadline fuel c = job_owner_close_by (boundary_close_with_deadline fuel c)"

section \<open>The process\<close>

datatype popen_state = PoRegistered | PoAdapted | PoClosing | PoBroken | PoClosed

record popen_owner =
  po_popen :: val
  po_handle :: val
  po_state :: popen_state

definition popen_timeout :: "seconds \<Rightarrow> py_exn + pyfloat" where
  "popen_timeout value =
     (case (case value of
        SInt i \<Rightarrow> (case float_of_int i of Inl _ \<Rightarrow> Inl popen_timeout_error | Inr f \<Rightarrow> Inr f)
      | SFloat f \<Rightarrow> Inr f
      | _ \<Rightarrow> Inl popen_timeout_error) of
        Inl e \<Rightarrow> Inl e
      | Inr f \<Rightarrow> if \<not> float_finite f \<or> float_less_int f 0 then Inl popen_timeout_error else Inr (float_min f max_cleanup_seconds))"

definition register_popen :: "val \<Rightarrow> popen_owner" where
  "register_popen popen = \<lparr>po_popen = popen, po_handle = VNone, po_state = PoRegistered\<rparr>"

definition compat_native_handle :: "val \<Rightarrow> ('o, val) prog" where
  "compat_native_handle popen =
     catch (bind (ext (''_handle'', [popen])) (\<lambda>h. if h = VNone \<or> h = invalid_handle then fail (RuntimeError '''') else ret h))
       (\<lambda>_. fail popen_adaptation_error)"

definition adapt_native_handle :: "(popen_owner, val) prog" where
  "adapt_native_handle =
     bind (field id) (\<lambda>o1.
     if po_state o1 = PoAdapted then ret (po_handle o1)
     else if po_state o1 \<noteq> PoRegistered then fail process_ownership_error
     else bind (compat_native_handle (po_popen o1)) (\<lambda>h.
       andthen (update (\<lambda>o1. o1\<lparr>po_handle := h, po_state := PoAdapted\<rparr>)) (ret h)))"

text \<open>The methods of the native handle are found by name; only a reference to a callable is called.\<close>

definition callable :: "val \<Rightarrow> bool" where
  "callable v = (case v of VRef _ \<Rightarrow> True | _ \<Rightarrow> False)"

definition release_handle :: "val \<Rightarrow> ('o, unit) prog" where
  "release_handle h =
     (if h = VNone then ret ()
      else
        bind (ext (''getattr'', [h, VStr (u ''Close'')])) (\<lambda>m1.
        bind (if truthy m1 then ret m1 else ext (''getattr'', [h, VStr (u ''close'')])) (\<lambda>m.
        if callable m then andthen (ext (''release'', [m])) (ret ()) else ret ())))"

text \<open>The common end of both closes: the errors underneath become one, and a closed owner forgets the process.\<close>

definition popen_finish :: "(popen_owner, unit) prog \<Rightarrow> (popen_owner, unit) prog" where
  "popen_finish m =
     andthen (update (\<lambda>p. p\<lparr>po_state := PoClosing\<rparr>))
     (andthen
       (catch m (\<lambda>_. andthen (update (\<lambda>p. p\<lparr>po_state := PoBroken\<rparr>)) (fail popen_cleanup_error)))
       (update (\<lambda>p. p\<lparr>po_popen := VNone, po_handle := VNone, po_state := PoClosed\<rparr>)))"

definition popen_close :: "seconds \<Rightarrow> (popen_owner, unit) prog" where
  "popen_close value =
     bind (field id) (\<lambda>p.
     if po_state p = PoClosed then ret ()
     else if po_state p = PoClosing then fail process_ownership_error
     else
       let (timeout, timeout_error) = (case popen_timeout value of Inl _ \<Rightarrow> (emergency_cleanup_budget, True) | Inr f \<Rightarrow> (f, False)) in
       andthen
         (popen_finish
           (if po_popen p = VNone then fail popen_cleanup_error
            else
              andthen
                (bind (ext (''poll'', [po_popen p])) (\<lambda>r.
                 if r = VNone then andthen (ext (''popen_terminate'', [po_popen p]))
                   (andthen (ext (''popen_wait'', [po_popen p, VFloat timeout])) (ret ()))
                 else ret ()))
                (release_handle (po_handle p))))
         (if timeout_error then fail popen_timeout_error else ret ()))"

definition popen_close_with_deadline :: "deadline \<Rightarrow> (popen_owner, unit) prog" where
  "popen_close_with_deadline c =
     bind (field id) (\<lambda>p.
     if po_state p = PoClosed then ret ()
     else
       bind clock_ns (\<lambda>now.
       if cleanup_ns c now \<le> 0 then fail popen_timeout_error
       else
         popen_finish
           (if po_popen p = VNone then fail popen_cleanup_error
            else
              andthen
                (bind (ext (''poll'', [po_popen p])) (\<lambda>r.
                 if r = VNone then andthen (ext (''popen_terminate'', [po_popen p]))
                   (bind clock_ns (\<lambda>now.
                    if cleanup_ns c now \<le> 0 then fail popen_timeout_error
                    else andthen (ext (''popen_wait'', [po_popen p, VFloat (float_of False (nat (cleanup_ns c now)) 1000000000)])) (ret ())))
                 else ret ()))
                (release_handle (po_handle p)))))"

section \<open>Both\<close>

datatype aggregate_state = HOpen | HAssigned | HClosing | HBroken | HClosed

record helper_resources =
  hr_popen :: popen_owner
  hr_job :: "job_owner option"
  hr_state :: aggregate_state
  hr_job_closed :: bool

definition new_helper_resources :: "popen_owner \<Rightarrow> helper_resources" where
  "new_helper_resources p = \<lparr>hr_popen = p, hr_job = None, hr_state = HOpen, hr_job_closed = False\<rparr>"

definition in_job :: "(job_owner, 'a) prog \<Rightarrow> (helper_resources, 'a) prog" where
  "in_job m = within (\<lambda>h. the (hr_job h)) (\<lambda>j h. h\<lparr>hr_job := Some j\<rparr>) m"

definition in_popen :: "(popen_owner, 'a) prog \<Rightarrow> (helper_resources, 'a) prog" where
  "in_popen m = within hr_popen (\<lambda>p h. h\<lparr>hr_popen := p\<rparr>) m"

definition set_helper :: "(helper_resources \<Rightarrow> aggregate_state) \<Rightarrow> (helper_resources, unit) prog" where
  "set_helper f = update (\<lambda>h. h\<lparr>hr_state := f h\<rparr>)"

definition attach_job :: "nat \<Rightarrow> job_owner \<Rightarrow> bool \<Rightarrow> (helper_resources, unit) prog" where
  "attach_job fuel job allow_nested =
     bind (field id) (\<lambda>h.
     if hr_state h \<noteq> HOpen \<or> hr_job h \<noteq> None \<or> po_state (hr_popen h) \<noteq> PoAdapted then fail process_ownership_error
     else
       andthen (update (\<lambda>h. h\<lparr>hr_job := Some job\<rparr>))
       (andthen
         (catch (in_job (job_owner_assign fuel (po_handle (hr_popen h)) allow_nested))
           (\<lambda>e. if is_job_resource_error e then andthen (set_helper (\<lambda>_. HBroken)) (fail e) else fail e))
         (set_helper (\<lambda>_. HAssigned))))"

definition helper_close_by :: "(job_owner, unit) prog \<Rightarrow> (popen_owner, unit) prog \<Rightarrow> (helper_resources, unit) prog" where
  "helper_close_by close_job close_popen =
     bind (field id) (\<lambda>h.
     if hr_state h = HClosed then ret ()
     else if hr_state h = HClosing then fail process_ownership_error
     else
       andthen (set_helper (\<lambda>_. HClosing))
       (andthen
         (if hr_job h \<noteq> None \<and> \<not> hr_job_closed h then
            andthen (catch (in_job close_job) (\<lambda>e. andthen (set_helper (\<lambda>_. HBroken)) (fail e)))
              (update (\<lambda>h. h\<lparr>hr_job_closed := True\<rparr>))
          else ret ())
         (andthen
           (catch (in_popen close_popen)
             (\<lambda>e. if is_process_resource_error e
                  then andthen (set_helper (\<lambda>h. if po_state (hr_popen h) = PoClosed then HClosed else HBroken)) (fail e)
                  else fail e))
           (set_helper (\<lambda>_. HClosed)))))"

definition helper_close :: "nat \<Rightarrow> seconds \<Rightarrow> (helper_resources, unit) prog" where
  "helper_close fuel timeout = helper_close_by (job_owner_close fuel timeout) (popen_close timeout)"

definition helper_close_with_deadline :: "nat \<Rightarrow> deadline \<Rightarrow> (helper_resources, unit) prog" where
  "helper_close_with_deadline fuel c = helper_close_by (job_owner_close_with_deadline fuel c) (popen_close_with_deadline c)"

section \<open>The order of a close\<close>

definition job_ok :: "job_owner \<Rightarrow> bool" where
  "job_ok j \<longleftrightarrow> (jo_state j = OClosed \<longrightarrow> b_state (jo_boundary j) = JClosed)"

definition job_gone :: "helper_resources \<Rightarrow> bool" where
  "job_gone h \<longleftrightarrow> hr_job h = None \<or> (\<exists>j. hr_job h = Some j \<and> jo_state j = OClosed \<and> b_state (jo_boundary j) = JClosed)"

text \<open>The invariant of the aggregate: the process is left alone, as it was registered or adapted, until the job is gone.\<close>

definition popen_untouched :: "popen_owner \<Rightarrow> bool" where
  "popen_untouched p \<longleftrightarrow> po_state p = PoRegistered \<or> po_state p = PoAdapted"

definition helper_ok :: "helper_resources \<Rightarrow> bool" where
  "helper_ok h \<longleftrightarrow>
     (\<forall>j. hr_job h = Some j \<longrightarrow> job_ok j) \<and> (hr_job_closed h \<longrightarrow> job_gone h \<and> hr_state h \<noteq> HOpen) \<and>
     (\<not> popen_untouched (hr_popen h) \<longrightarrow> (hr_job h = None \<or> hr_job_closed h) \<and> hr_state h \<noteq> HOpen) \<and>
     (hr_state h = HClosed \<longrightarrow> po_state (hr_popen h) = PoClosed) \<and>
     (po_state (hr_popen h) = PoClosed \<longrightarrow> po_popen (hr_popen h) = VNone \<and> po_handle (hr_popen h) = VNone)"

inductive helper_step :: "helper_resources \<times> world \<Rightarrow> helper_resources \<times> world \<Rightarrow> bool" where
  step_adapt: "in_popen adapt_native_handle (h, w) = (r, s) \<Longrightarrow> helper_step (h, w) s"
| step_attach: "job_ok j \<Longrightarrow> attach_job fuel j nested (h, w) = (r, s) \<Longrightarrow> helper_step (h, w) s"
| step_helper_close: "helper_close fuel t (h, w) = (r, s) \<Longrightarrow> helper_step (h, w) s"
| step_helper_close_deadline: "helper_close_with_deadline fuel c (h, w) = (r, s) \<Longrightarrow> helper_step (h, w) s"

inductive_cases helper_stepE: "helper_step s t"

lemma wp_True [simp]: "wp m (\<lambda>_ _. True) (\<lambda>_ _. True) s"
  by (simp add: wp_def split: prod.splits sum.splits)

lemma owner_errors_distinct [simp]: "is_process_resource_error popen_cleanup_error" "is_process_resource_error popen_timeout_error"
  "is_process_resource_error process_ownership_error" "\<not> is_job_resource_error job_timeout"
  by (simp_all add: is_process_resource_error_def is_job_resource_error_def owner_errors job_timeout_def)

lemma job_owner_close_by_wp:
  assumes "job_ok j" "\<And>b. wp m (\<lambda>_ s. b_state (fst s) = JClosed) (\<lambda>_ _. True) (b, w)"
  shows "wp (job_owner_close_by m) (\<lambda>_ s. jo_state (fst s) = OClosed \<and> job_ok (fst s)) (\<lambda>_ s. job_ok (fst s)) (j, w)"
  using assms(1)
  by (auto simp: job_owner_close_by_def set_job_state_def in_boundary_def wp_simps job_ok_def failed_state_def
      intro!: wp_mono[OF assms(2)])

lemma job_owner_close_wp:
  assumes "job_ok j"
  shows "wp (job_owner_close fuel t) (\<lambda>_ s. jo_state (fst s) = OClosed \<and> job_ok (fst s)) (\<lambda>_ s. job_ok (fst s)) (j, w)"
    "wp (job_owner_close_with_deadline fuel c) (\<lambda>_ s. jo_state (fst s) = OClosed \<and> job_ok (fst s)) (\<lambda>_ s. job_ok (fst s)) (j, w)"
proof -
  have "wp (boundary_close fuel t) (\<lambda>_ s. b_state (fst s) = JClosed) (\<lambda>_ _. True) (b, w)" for b
    by (rule wp_mono[OF boundary_close_wp]) auto
  then show "wp (job_owner_close fuel t) (\<lambda>_ s. jo_state (fst s) = OClosed \<and> job_ok (fst s)) (\<lambda>_ s. job_ok (fst s)) (j, w)"
    unfolding job_owner_close_def by (rule job_owner_close_by_wp[OF assms])
  have "wp (boundary_close_with_deadline fuel c) (\<lambda>_ s. b_state (fst s) = JClosed) (\<lambda>_ _. True) (b, w)" for b
    by (rule wp_mono[OF boundary_close_with_deadline_wp]) auto
  then show "wp (job_owner_close_with_deadline fuel c) (\<lambda>_ s. jo_state (fst s) = OClosed \<and> job_ok (fst s)) (\<lambda>_ s. job_ok (fst s)) (j, w)"
    unfolding job_owner_close_with_deadline_def by (rule job_owner_close_by_wp[OF assms])
qed

lemma job_owner_assign_wp:
  assumes "job_ok j"
  shows "wp (job_owner_assign fuel x n) (\<lambda>_ s. job_ok (fst s)) (\<lambda>_ s. job_ok (fst s)) (j, w)"
  using assms
  by (auto simp: job_owner_assign_def set_job_state_def in_boundary_def wp_simps job_ok_def failed_state_def intro!: wp_mono[OF wp_True])

definition popen_ok :: "popen_owner \<Rightarrow> bool" where
  "popen_ok p \<longleftrightarrow> (po_state p = PoClosed \<longrightarrow> po_popen p = VNone \<and> po_handle p = VNone)"

lemma popen_finish_wp:
  "wp (popen_finish m) (\<lambda>_ s. po_state (fst s) = PoClosed \<and> popen_ok (fst s)) (\<lambda>e s. e = popen_cleanup_error \<and> po_state (fst s) = PoBroken) (p, w)"
  unfolding popen_finish_def wp_andthen wp_catch wp_update
  by (rule wp_mono[OF wp_True]) (auto simp: wp_simps popen_ok_def)

text \<open>A close of the process that returns leaves it closed; one that fails leaves it closed, broken or untouched.\<close>

lemma popen_close_wp:
  assumes "popen_ok p"
  shows "wp (popen_close t) (\<lambda>_ s. po_state (fst s) = PoClosed \<and> popen_ok (fst s)) (\<lambda>_ s. popen_ok (fst s)) (p, w)"
  using assms
  by (auto simp: popen_close_def wp_simps Let_def popen_ok_def split: sum.splits intro!: wp_mono[OF popen_finish_wp])

lemma popen_close_with_deadline_wp:
  assumes "popen_ok p"
  shows "wp (popen_close_with_deadline c) (\<lambda>_ s. po_state (fst s) = PoClosed \<and> popen_ok (fst s)) (\<lambda>_ s. popen_ok (fst s)) (p, w)"
proof (cases "po_state p = PoClosed")
  case True
  then show ?thesis using assms by (simp add: popen_close_with_deadline_def wp_simps)
next
  case False
  show ?thesis
    unfolding popen_close_with_deadline_def wp_bind[of "field _"] wp_field id_apply fst_conv if_not_P[OF False]
  proof (rule clock_ns_step, goal_cases)
    case (2 now x)
    then show ?case using assms unfolding wp_if wp_fail by (auto intro!: wp_mono[OF popen_finish_wp] simp: popen_ok_def)
  qed (simp add: assms)
qed

lemma wp_set_helper: "wp (set_helper f) Q E s = Q () ((fst s)\<lparr>hr_state := f (fst s)\<rparr>, snd s)"
  by (simp add: set_helper_def wp_update)

lemma helper_close_by_wp:
  assumes "helper_ok h"
    and job: "\<And>j w. job_ok j \<Longrightarrow> wp cj (\<lambda>_ s. jo_state (fst s) = OClosed \<and> job_ok (fst s)) (\<lambda>_ s. job_ok (fst s)) (j, w)"
    and popen: "\<And>p w. popen_ok p \<Longrightarrow> wp cp (\<lambda>_ s. po_state (fst s) = PoClosed \<and> popen_ok (fst s)) (\<lambda>_ s. popen_ok (fst s)) (p, w)"
  shows "wp (helper_close_by cj cp)
    (\<lambda>_ s. helper_ok (fst s) \<and> hr_state (fst s) = HClosed) (\<lambda>_ s. helper_ok (fst s)) (h, w)"
proof -
  have ok: "popen_ok (hr_popen h)" using assms(1) by (simp add: helper_ok_def popen_ok_def)
  have second: "wp (andthen (catch (in_popen cp)
             (\<lambda>e. if is_process_resource_error e
                  then andthen (set_helper (\<lambda>h. if po_state (hr_popen h) = PoClosed then HClosed else HBroken)) (fail e)
                  else fail e)) (set_helper (\<lambda>_. HClosed)))
      (\<lambda>_ s. helper_ok (fst s) \<and> hr_state (fst s) = HClosed) (\<lambda>_ s. helper_ok (fst s)) (h', w')"
    if "helper_ok h'" "hr_job h' = None \<or> hr_job_closed h'" "hr_state h' = HClosing" "popen_ok (hr_popen h')" for h' w'
    using that by (auto simp: in_popen_def set_helper_def wp_simps helper_ok_def job_gone_def popen_ok_def intro!: wp_mono[OF popen])
  show ?thesis
  proof (cases "hr_state h = HClosed \<or> hr_state h = HClosing")
    case True
    then show ?thesis using assms(1) by (auto simp: helper_close_by_def wp_simps)
  next
    case False
    then have n: "hr_state h \<noteq> HClosed" "hr_state h \<noteq> HClosing" by auto
    let ?h = "h\<lparr>hr_state := HClosing\<rparr>"
    show ?thesis
    proof (cases "hr_job h \<noteq> None \<and> \<not> hr_job_closed h")
      case True
      then obtain j where j: "hr_job h = Some j" "job_ok j" "hr_job_closed h = False" using assms(1) by (auto simp: helper_ok_def)
      have u: "popen_untouched (hr_popen h)" using assms(1) True by (auto simp: helper_ok_def)
      have first: "wp (andthen (catch (in_job cj) (\<lambda>e. andthen (set_helper (\<lambda>_. HBroken)) (fail e)))
              (update (\<lambda>h. h\<lparr>hr_job_closed := True\<rparr>)))
          (\<lambda>_ s. helper_ok (fst s) \<and> hr_job_closed (fst s) \<and> hr_state (fst s) = HClosing \<and> popen_ok (hr_popen (fst s)))
          (\<lambda>_ s. helper_ok (fst s)) (?h, w)"
        unfolding wp_andthen wp_catch in_job_def wp_within
        by (rule wp_mono[OF job]) (use j u ok assms(1) in \<open>auto simp: wp_simps set_helper_def helper_ok_def job_gone_def job_ok_def popen_ok_def\<close>)
      have "wp (andthen (andthen (catch (in_job cj) (\<lambda>e. andthen (set_helper (\<lambda>_. HBroken)) (fail e)))
              (update (\<lambda>h. h\<lparr>hr_job_closed := True\<rparr>)))
          (andthen (catch (in_popen cp)
             (\<lambda>e. if is_process_resource_error e
                  then andthen (set_helper (\<lambda>h. if po_state (hr_popen h) = PoClosed then HClosed else HBroken)) (fail e)
                  else fail e)) (set_helper (\<lambda>_. HClosed))))
        (\<lambda>_ s. helper_ok (fst s) \<and> hr_state (fst s) = HClosed) (\<lambda>_ s. helper_ok (fst s)) (?h, w)"
        unfolding wp_andthen[of "andthen _ _"] by (rule wp_mono[OF first]) (auto intro: second)
      then show ?thesis
        unfolding helper_close_by_def wp_bind[of "field _"] wp_field id_apply fst_conv if_not_P[OF n(1)] if_not_P[OF n(2)]
          if_P[OF True] wp_andthen[of "set_helper _"] wp_set_helper snd_conv .
    next
      case none: False
      have gone: "hr_job ?h = None \<or> hr_job_closed ?h" using none by auto
      have "helper_ok ?h" using assms(1) by (auto simp: helper_ok_def job_gone_def)
      from second[OF this gone] show ?thesis
        unfolding helper_close_by_def wp_bind[of "field _"] wp_field id_apply fst_conv if_not_P[OF n(1)] if_not_P[OF n(2)]
          if_not_P[OF none] wp_andthen[of "set_helper _"] wp_andthen[of "ret _"] wp_ret wp_set_helper snd_conv
        using ok by simp
    qed
  qed
qed

lemma helper_closes_wp:
  assumes "helper_ok h"
  shows "wp (helper_close fuel t) (\<lambda>_ s. helper_ok (fst s) \<and> hr_state (fst s) = HClosed) (\<lambda>_ s. helper_ok (fst s)) (h, w)"
    "wp (helper_close_with_deadline fuel c) (\<lambda>_ s. helper_ok (fst s) \<and> hr_state (fst s) = HClosed) (\<lambda>_ s. helper_ok (fst s)) (h, w)"
  unfolding helper_close_def helper_close_with_deadline_def
  by (rule helper_close_by_wp[OF assms], erule job_owner_close_wp, erule popen_close_wp popen_close_with_deadline_wp)+

lemma adapt_wp: "wp adapt_native_handle (\<lambda>_ s. popen_untouched (fst s) \<and> popen_untouched p) (\<lambda>_ s. fst s = p) (p, w)"
  by (auto simp: adapt_native_handle_def compat_native_handle_def wp_simps popen_untouched_def split: sum.splits)

lemma attach_wp:
  assumes "helper_ok h" "job_ok j"
  shows "wp (attach_job fuel j nested) (\<lambda>_ s. helper_ok (fst s)) (\<lambda>_ s. helper_ok (fst s)) (h, w)"
proof (cases "hr_state h \<noteq> HOpen \<or> hr_job h \<noteq> None \<or> po_state (hr_popen h) \<noteq> PoAdapted")
  case True
  then show ?thesis using assms(1) by (simp add: attach_job_def wp_simps)
next
  case False
  have go: "wp (andthen (catch (in_job (job_owner_assign fuel (po_handle (hr_popen h)) nested))
           (\<lambda>e. if is_job_resource_error e then andthen (set_helper (\<lambda>_. HBroken)) (fail e) else fail e))
         (set_helper (\<lambda>_. HAssigned))) (\<lambda>_ s. helper_ok (fst s)) (\<lambda>_ s. helper_ok (fst s)) (h\<lparr>hr_job := Some j\<rparr>, w)"
    unfolding wp_andthen[of "catch _ _"] wp_catch in_job_def wp_within
    by (rule wp_mono[OF job_owner_assign_wp])
      (use False assms in \<open>auto simp: wp_simps set_helper_def helper_ok_def job_gone_def popen_untouched_def\<close>)
  show ?thesis
    unfolding attach_job_def wp_bind[of "field _"] wp_field id_apply fst_conv if_not_P[OF False] wp_andthen[of "update _"] wp_update snd_conv
    by (rule go)
qed

lemma helper_ok_step: "helper_step s t \<Longrightarrow> helper_ok (fst s) \<Longrightarrow> helper_ok (fst t)"
proof (induction rule: helper_step.induct)
  case (step_adapt h w r s)
  have "wp (in_popen adapt_native_handle) (\<lambda>_ s. helper_ok (fst s)) (\<lambda>_ s. helper_ok (fst s)) (h, w)"
    unfolding in_popen_def wp_within
    by (rule wp_mono[OF adapt_wp]) (use step_adapt(2) in \<open>auto simp: helper_ok_def job_gone_def popen_untouched_def\<close>)
  then show ?case using step_adapt(1) by (cases r) (auto dest: wpD_Inr wpD_Inl)
next
  case (step_attach j fuel nested h w r s)
  then show ?case using attach_wp[of h j fuel nested w] by (cases r) (auto dest: wpD_Inr wpD_Inl)
next
  case (step_helper_close fuel t h w r s)
  then show ?case using helper_closes_wp(1)[of h fuel t w] by (cases r) (auto dest: wpD_Inr wpD_Inl)
next
  case (step_helper_close_deadline fuel c h w r s)
  then show ?case using helper_closes_wp(2)[of h fuel c w] by (cases r) (auto dest: wpD_Inr wpD_Inl)
qed

lemma helper_ok_new: "helper_ok (new_helper_resources (register_popen p))"
  by (simp add: helper_ok_def new_helper_resources_def register_popen_def popen_untouched_def)

lemma helper_ok_reached:
  "helper_step\<^sup>*\<^sup>* s t \<Longrightarrow> helper_ok (fst s) \<Longrightarrow> helper_ok (fst t)"
  by (induction rule: rtranclp_induct) (auto intro: helper_ok_step)

section \<open>The calls of a run\<close>

text \<open>What touches the process: the methods of the process object and of its native handle.\<close>

definition process_names :: "string list" where
  "process_names = [''poll'', ''popen_terminate'', ''popen_wait'', ''getattr'', ''release'']"

definition process_call :: "answered \<Rightarrow> bool" where
  "process_call a \<longleftrightarrow> fst (fst a) \<in> set process_names"

text \<open>The process was seen to have ended since a world: it was polled and had an exit code, or it was told to terminate
  and waited for.\<close>

definition process_ended :: "val \<Rightarrow> world \<Rightarrow> world \<Rightarrow> bool" where
  "process_ended p w w' \<longleftrightarrow> since w w' ''poll'' [p] (\<lambda>v. v \<noteq> VNone)
     \<or> since w w' ''popen_terminate'' [p] (\<lambda>_. True) \<and> (\<exists>t. since w w' ''popen_wait'' [p, t] (\<lambda>_. True))"

lemma process_ended_grows: "process_ended p w w1 \<Longrightarrow> extends w w1 \<Longrightarrow> extends w1 w2 \<Longrightarrow> process_ended p w w2"
  unfolding process_ended_def by (meson since_grows)

definition popen_told :: "val \<Rightarrow> world \<Rightarrow> popen_owner \<times> world \<Rightarrow> bool" where
  "popen_told p w s \<longleftrightarrow> extends w (snd s) \<and> popen_ok (fst s)
     \<and> (if po_state (fst s) = PoClosed then process_ended p w (snd s) else po_popen (fst s) = p)"

lemma ended_now:
  "extends w w1 \<Longrightarrow> answer_of (''poll'', [p]) w1 = Inr v \<Longrightarrow> v \<noteq> VNone \<Longrightarrow> process_ended p w (logged (''poll'', [p]) w1)"
  "extends w w1 \<Longrightarrow> since w w1 ''popen_terminate'' [p] (\<lambda>_. True) \<Longrightarrow> answer_of (''popen_wait'', [p, t]) w1 = Inr v \<Longrightarrow>
     process_ended p w (logged (''popen_wait'', [p, t]) w1)"
  by (auto simp: process_ended_def)

text \<open>A method that leaves the owner alone: what it is run on goes on to hold.\<close>

definition at_process :: "popen_owner \<Rightarrow> val \<Rightarrow> world \<Rightarrow> popen_owner \<times> world \<Rightarrow> bool" where
  "at_process q p w s \<longleftrightarrow> fst s = q \<and> extends w (snd s)"

definition past_process :: "popen_owner \<Rightarrow> val \<Rightarrow> world \<Rightarrow> popen_owner \<times> world \<Rightarrow> bool" where
  "past_process q p w s \<longleftrightarrow> fst s = q \<and> extends w (snd s) \<and> process_ended p w (snd s)"

lemma past_at: "past_process q p w s \<Longrightarrow> at_process q p w s"
  by (simp add: past_process_def at_process_def)

lemma release_handle_rests:
  assumes "past_process q p w s"
  shows "wp (release_handle h) (\<lambda>_. past_process q p w) (\<lambda>_. past_process q p w) s"
proof -
  have "keeps (past_process q p w) (release_handle h)"
    unfolding release_handle_def
    by (rule keeps_still[of UNIV]; (intro calls_intros still_intros)?; (simp add: past_process_def)?)
      (auto dest: process_ended_grows extends_trans)
  then show ?thesis using assms by (rule keepsD)
qed

lemma popen_finish_told:
  assumes "wp m (\<lambda>_. past_process (q\<lparr>po_state := PoClosing\<rparr>) p w) (\<lambda>_. at_process (q\<lparr>po_state := PoClosing\<rparr>) p w) (q\<lparr>po_state := PoClosing\<rparr>, w1)"
    "po_popen q = p"
  shows "wp (popen_finish m) (\<lambda>_ s. popen_told p w s \<and> po_state (fst s) = PoClosed) (\<lambda>_ s. popen_told p w s) (q, w1)"
  unfolding popen_finish_def wp_andthen wp_catch wp_update
  by (simp, rule wp_mono[OF assms(1)])
    (use assms(2) in \<open>auto simp: wp_simps popen_told_def popen_ok_def past_process_def at_process_def\<close>)

lemma ask_and_end:
  assumes "extends w w1"
    and wait: "\<And>w2. extends w w2 \<Longrightarrow> since w w2 ''popen_terminate'' [p] (\<lambda>_. True) \<Longrightarrow>
      wp m (\<lambda>_. past_process q p w) (\<lambda>_. at_process q p w) (q, w2)"
  shows "wp (andthen (bind (ext (''poll'', [p])) (\<lambda>r. if r = VNone then andthen (ext (''popen_terminate'', [p])) m else ret ()))
      (release_handle h)) (\<lambda>_. past_process q p w) (\<lambda>_. at_process q p w) (q, w1)"
proof -
  have e: "extends w (logged c w1)" "extends w (logged d (logged c w1))" for c d using assms(1) by auto
  have "wp (bind (ext (''poll'', [p])) (\<lambda>r. if r = VNone then andthen (ext (''popen_terminate'', [p])) m else ret ()))
      (\<lambda>_. past_process q p w) (\<lambda>_. at_process q p w) (q, w1)"
    unfolding wp_bind wp_ext
  proof (cases "answer_of (''poll'', [p]) w1")
    case (Inr v)
    let ?w = "logged (''poll'', [p]) w1"
    show "case answer_of (''poll'', [p]) (snd (q, w1)) of
        Inl x \<Rightarrow> at_process q p w (fst (q, w1), logged (''poll'', [p]) (snd (q, w1)))
      | Inr x \<Rightarrow> wp (if x = VNone then andthen (ext (''popen_terminate'', [p])) m else ret ())
          (\<lambda>_. past_process q p w) (\<lambda>_. at_process q p w) (fst (q, w1), logged (''poll'', [p]) (snd (q, w1)))"
    proof (cases "v = VNone")
      case True
      have "since w (logged (''popen_terminate'', [p]) ?w) ''popen_terminate'' [p] (\<lambda>_. True)"
        if "answer_of (''popen_terminate'', [p]) ?w = Inr x" for x using e that by simp
      then show ?thesis using Inr True e wait[OF e(2)] by (auto simp: wp_if wp_andthen wp_ext at_process_def split: sum.split)
    next
      case False
      then show ?thesis using Inr e ended_now(1)[OF assms(1) Inr] by (simp add: wp_if wp_ret past_process_def)
    qed
  qed (use e in \<open>simp add: at_process_def\<close>)
  then show ?thesis
    unfolding wp_andthen[of _ "release_handle h"]
    by (rule wp_mono) (auto intro: wp_mono[OF release_handle_rests] past_at)
qed

lemma wait_told:
  assumes "extends w w2" "since w w2 ''popen_terminate'' [p] (\<lambda>_. True)"
  shows "wp (andthen (ext (''popen_wait'', [p, x])) (ret ())) (\<lambda>_. past_process q p w) (\<lambda>_. at_process q p w) (q, w2)"
  using assms ended_now(2)[OF assms]
  by (auto simp: wp_andthen wp_ext wp_ret past_process_def at_process_def split: sum.split)

lemma popen_close_told:
  assumes "popen_told p w (q, w1)"
  shows "wp (popen_close t) (\<lambda>_ s. popen_told p w s \<and> po_state (fst s) = PoClosed) (\<lambda>_ s. popen_told p w s) (q, w1)"
proof (cases "po_state q = PoClosed \<or> po_state q = PoClosing")
  case True
  then show ?thesis using assms by (auto simp: popen_close_def wp_simps)
next
  case False
  then have q: "extends w w1" "po_popen q = p" "po_state q \<noteq> PoClosed" "po_state q \<noteq> PoClosing"
    using assms by (auto simp: popen_told_def)
  have body: "wp (if p = VNone then fail popen_cleanup_error
      else andthen (bind (ext (''poll'', [p])) (\<lambda>r.
           if r = VNone then andthen (ext (''popen_terminate'', [p])) (andthen (ext (''popen_wait'', [p, VFloat f])) (ret ()))
           else ret ())) (release_handle (po_handle q)))
    (\<lambda>_. past_process (q\<lparr>po_state := PoClosing\<rparr>) p w) (\<lambda>_. at_process (q\<lparr>po_state := PoClosing\<rparr>) p w) (q\<lparr>po_state := PoClosing\<rparr>, w1)" for f
    unfolding wp_if wp_fail using q(1) by (auto intro: ask_and_end wait_told simp: at_process_def)
  have step: "wp (andthen (popen_finish (if p = VNone then fail popen_cleanup_error
      else andthen (bind (ext (''poll'', [p])) (\<lambda>r.
           if r = VNone then andthen (ext (''popen_terminate'', [p])) (andthen (ext (''popen_wait'', [p, VFloat f])) (ret ()))
           else ret ())) (release_handle (po_handle q)))) (if b then fail popen_timeout_error else ret ()))
    (\<lambda>_ s. popen_told p w s \<and> po_state (fst s) = PoClosed) (\<lambda>_ s. popen_told p w s) (q, w1)" for f b
    unfolding wp_andthen[of "popen_finish _"]
    by (rule wp_mono[OF popen_finish_told[OF body q(2)]]) (auto simp: wp_if wp_ret wp_fail)
  show ?thesis
    unfolding popen_close_def wp_bind[of "field _"] wp_field id_apply fst_conv if_not_P[OF q(3)] if_not_P[OF q(4)] q(2)
    by (cases "popen_timeout t"; simp only: sum.case Let_def prod.case; rule step)
qed

lemma popen_close_with_deadline_told:
  assumes "popen_told p w (q, w1)"
  shows "wp (popen_close_with_deadline c) (\<lambda>_ s. popen_told p w s \<and> po_state (fst s) = PoClosed) (\<lambda>_ s. popen_told p w s) (q, w1)"
proof (cases "po_state q = PoClosed")
  case True
  then show ?thesis using assms by (auto simp: popen_close_with_deadline_def wp_simps)
next
  case False
  then have q: "extends w w1" "po_popen q = p" using assms by (auto simp: popen_told_def)
  let ?q = "q\<lparr>po_state := PoClosing\<rparr>"
  have rest: "popen_told p w (q, logged d w1)" for d using assms False q(1) by (auto simp: popen_told_def)
  have wait: "wp (bind clock_ns (\<lambda>now. if cleanup_ns c now \<le> 0 then fail popen_timeout_error
      else andthen (ext (''popen_wait'', [p, f now])) (ret ()))) (\<lambda>_. past_process ?q p w) (\<lambda>_. at_process ?q p w) (?q, w2)"
    if w2: "extends w w2" "since w w2 ''popen_terminate'' [p] (\<lambda>_. True)" for w2 f
  proof -
    have e: "extends w (logged d w2)" "since w (logged d w2) ''popen_terminate'' [p] (\<lambda>_. True)" for d
      using w2 by auto
    show ?thesis
      by (rule clock_ns_step) (use wait_told[OF e] e(1) in \<open>auto simp: wp_if wp_fail at_process_def\<close>)
  qed
  have body: "wp (if p = VNone then fail popen_cleanup_error
      else andthen (bind (ext (''poll'', [p])) (\<lambda>r.
           if r = VNone then andthen (ext (''popen_terminate'', [p])) (bind clock_ns (\<lambda>now. if cleanup_ns c now \<le> 0 then fail popen_timeout_error
             else andthen (ext (''popen_wait'', [p, VFloat (float_of False (nat (cleanup_ns c now)) 1000000000)])) (ret ())))
           else ret ())) (release_handle (po_handle q)))
    (\<lambda>_. past_process ?q p w) (\<lambda>_. at_process ?q p w) (?q, w2)" if "extends w w2" for w2
    unfolding wp_if wp_fail using that by (auto intro: ask_and_end wait simp: at_process_def)
  have log: "extends w (logged d w1)" for d using q(1) by simp
  show ?thesis
    unfolding popen_close_with_deadline_def wp_bind[of "field _"] wp_field id_apply fst_conv if_not_P[OF False] q(2)
    by (rule clock_ns_step; simp only: wp_if wp_fail fst_conv snd_conv rest popen_finish_told[OF body[OF log] q(2)] if_cancel)
qed

text \<open>What the operations call. The Job's operations call no method of the process.\<close>

lemma job_calls [calls_intros]:
  "n \<in> N \<Longrightarrow> calls N (job_call n args)" "n \<in> N \<Longrightarrow> calls N (job_safe n args)"
  by (auto simp: job_call_def job_safe_def intro!: calls_intros)

definition job_names :: "string set" where
  "job_names = {''clock'', ''clock_ns'', ''close'', ''wait'', ''query_active'', ''terminate'', ''terminate_process'',
     ''is_process_in_job'', ''assign''}"

lemma boundary_calls:
  "calls job_names (job_cleanup fuel a d t tu)" "calls job_names (boundary_close fuel x)"
  "calls job_names (boundary_close_with_deadline fuel c)" "calls job_names (assign_borrowed_handle fuel h nested)"
proof -
  have turns: "calls job_names (cleanup_turn a d tu v)" "calls job_names (deadline_turn c v)" for a d tu c v
    unfolding cleanup_turn_def deadline_turn_def process_wait_def job_turn_def Let_def
    by (auto simp: job_names_def intro!: calls_intros split: sum.split)
  have handles: "calls job_names (close_handles p j)" "calls job_names (terminate_process_first a tu b)" "calls job_names (terminate_job_first b)"
    for p j a tu b
    unfolding close_handles_def close_process_handle_def close_job_handle_def terminate_process_first_def terminate_job_first_def
    by (auto simp: job_names_def intro!: calls_intros)
  have cleanup: "calls job_names (job_cleanup fuel a d t tu)" for a d t tu
    unfolding job_cleanup_def by (intro calls_intros handles turns; simp)
  then show "calls job_names (job_cleanup fuel a d t tu)" .
  show "calls job_names (boundary_close fuel x)"
    unfolding boundary_close_def job_deadline_def by (auto simp: job_names_def intro!: calls_intros cleanup[unfolded job_names_def])
  have abandon: "calls job_names (job_abandon fuel a tu e :: unit bprog)" for a tu e
    unfolding job_abandon_def by (auto simp: job_names_def intro!: calls_intros cleanup[unfolded job_names_def])
  have checks: "calls job_names (assign_checks h nested)"
    unfolding assign_checks_def by (auto simp: job_names_def intro!: calls_intros)
  show "calls job_names (assign_borrowed_handle fuel h nested)"
    unfolding assign_borrowed_handle_def by (intro calls_intros abandon checks)
  show "calls job_names (boundary_close_with_deadline fuel c)"
    unfolding boundary_close_with_deadline_def by (auto simp: job_names_def intro!: calls_intros handles[unfolded job_names_def] turns[unfolded job_names_def])
qed

lemma job_owner_calls:
  "calls job_names (job_owner_close fuel x)" "calls job_names (job_owner_close_with_deadline fuel c)"
  "calls job_names (job_owner_assign fuel h nested)"
  unfolding job_owner_close_def job_owner_close_with_deadline_def job_owner_close_by_def job_owner_assign_def set_job_state_def
    in_boundary_def
  by (intro calls_intros boundary_calls)+

definition popen_names :: "string set" where
  "popen_names = insert ''clock_ns'' (set process_names)"

lemma popen_calls: "calls popen_names (popen_close x)" "calls popen_names (popen_close_with_deadline c)"
  unfolding popen_close_def popen_close_with_deadline_def popen_finish_def release_handle_def popen_names_def process_names_def
  by (auto intro!: calls_intros split: sum.split)

text \<open>A trace without process calls, and one of the process.\<close>

lemma job_part: "\<forall>a \<in> set tr. fst (fst a) \<in> job_names \<Longrightarrow> \<not> list_ex process_call tr"
  by (auto simp: list_ex_iff process_call_def process_names_def job_names_def)

text \<open>The Job comes first in the calls of a close: none of the process comes before one of the Job, and there is none
  unless the Job is gone at the end.\<close>

definition job_first :: "world \<Rightarrow> helper_resources \<times> world \<Rightarrow> bool" where
  "job_first w s \<longleftrightarrow> (\<exists>tr1 tr2. recent w (snd s) = tr1 @ tr2 \<and> \<not> list_ex process_call tr1
     \<and> list_all (\<lambda>a. fst (fst a) \<in> popen_names) tr2 \<and> (tr2 = [] \<or> job_gone (fst s)))"

definition helper_told :: "val \<Rightarrow> world \<Rightarrow> helper_resources \<times> world \<Rightarrow> bool" where
  "helper_told p w s \<longleftrightarrow> popen_told p w (hr_popen (fst s), snd s)
     \<and> (list_ex process_call (recent w (snd s)) \<longrightarrow> (hr_job (fst s) = None \<or> hr_job_closed (fst s)) \<and> hr_state (fst s) \<noteq> HOpen)"

lemma helper_told_extends: "helper_told p w s \<Longrightarrow> extends w (snd s)"
  by (simp add: helper_told_def popen_told_def)

text \<open>What makes no process call keeps the account.\<close>

lemma popen_told_later: "popen_told p w (q, w1) \<Longrightarrow> extends w1 w2 \<Longrightarrow> popen_told p w (q, w2)"
  by (auto simp: popen_told_def intro: extends_trans process_ended_grows)

lemma quiet_recent:
  assumes "extends w w1" "extends w1 w2 \<and> (\<forall>a \<in> set (recent w1 w2). fst (fst a) \<in> job_names)"
  shows "list_ex process_call (recent w w2) \<longleftrightarrow> list_ex process_call (recent w w1)"
  using job_part assms by (simp add: recent_trans[of w w1 w2])

lemma process_part:
  assumes job: "hr_job h = None \<or> hr_job_closed h" and ok: "helper_ok h" and st: "hr_state h = HClosing"
    and told: "popen_told p w (hr_popen h, w2)" and before: "extends w1 w2" "\<not> list_ex process_call (recent w1 w2)"
    and cp: "\<And>q v. popen_told p w (q, v) \<Longrightarrow> wp cp (\<lambda>_ s. popen_told p w s \<and> po_state (fst s) = PoClosed) (\<lambda>_ s. popen_told p w s) (q, v)"
      "calls popen_names cp"
  shows "wp (andthen (catch (in_popen cp)
           (\<lambda>e. if is_process_resource_error e
                then andthen (set_helper (\<lambda>h. if po_state (hr_popen h) = PoClosed then HClosed else HBroken)) (fail e)
                else fail e)) (set_helper (\<lambda>_. HClosed)))
    (\<lambda>_ s. helper_told p w s \<and> job_first w1 s) (\<lambda>_ s. helper_told p w s \<and> job_first w1 s) (h, w2)"
proof -
  have gone: "job_gone h" using job ok by (auto simp: helper_ok_def job_gone_def)
  have fin: "helper_told p w (h\<lparr>hr_popen := q, hr_state := x\<rparr>, v) \<and> job_first w1 (h\<lparr>hr_popen := q, hr_state := x\<rparr>, v)"
    if "popen_told p w (q, v)" "extends w2 v \<and> (\<forall>a \<in> set (recent w2 v). fst (fst a) \<in> popen_names)" "x \<noteq> HOpen" for q x v
  proof
    show "helper_told p w (h\<lparr>hr_popen := q, hr_state := x\<rparr>, v)" using that job by (simp add: helper_told_def)
    show "job_first w1 (h\<lparr>hr_popen := q, hr_state := x\<rparr>, v)" unfolding job_first_def
      by (rule exI[of _ "recent w1 w2"], rule exI[of _ "recent w2 v"])
        (use that before gone in \<open>simp add: recent_trans[of w1 w2 v] job_gone_def list_all_iff\<close>)
  qed
  have same: "h\<lparr>hr_popen := q\<rparr> = h\<lparr>hr_popen := q, hr_state := HClosing\<rparr>" for q using st by (cases h) simp
  have rest: "wp (if is_process_resource_error e
        then andthen (set_helper (\<lambda>h. if po_state (hr_popen h) = PoClosed then HClosed else HBroken)) (fail e) else fail e)
      Q (\<lambda>_ s. helper_told p w s \<and> job_first w1 s) (h\<lparr>hr_popen := q\<rparr>, v)"
    if "popen_told p w (q, v)" "extends w2 v \<and> (\<forall>a \<in> set (recent w2 v). fst (fst a) \<in> popen_names)" for e q v Q
    using fin[OF that] fin[OF that, of HClosing, folded same] unfolding wp_if wp_andthen wp_set_helper wp_fail by simp
  have last: "wp (set_helper (\<lambda>_. HClosed)) (\<lambda>_ s. helper_told p w s \<and> job_first w1 s) E (h\<lparr>hr_popen := q\<rparr>, v)"
    if "popen_told p w (q, v)" "extends w2 v \<and> (\<forall>a \<in> set (recent w2 v). fst (fst a) \<in> popen_names)" for q v E
    using fin[OF that] unfolding wp_set_helper by simp
  show ?thesis
    unfolding wp_andthen[of "catch _ _"] wp_catch in_popen_def wp_within fst_conv snd_conv
  proof (rule wp_mono[OF wp_conj[OF cp(1)[OF told] calls_wp[OF cp(2)]]], goal_cases)
    case (1 x t)
    then show ?case using last[of "fst t" "snd t"] by simp
  next
    case (2 e t)
    obtain q v where t: "t = (q, v)" by (cases t)
    show ?case using 2 unfolding t fst_conv snd_conv by (intro rest) auto
  qed
qed

lemma job_first_quiet: "extends w1 v \<Longrightarrow> \<not> list_ex process_call (recent w1 v) \<Longrightarrow> job_first w1 (h, v)"
  unfolding job_first_def by (rule exI[of _ "recent w1 v"], rule exI[of _ "[]"]) simp

lemma helper_close_by_told:
  assumes ok: "helper_ok h" and told: "helper_told p w (h, w1)"
    and job: "\<And>j v. job_ok j \<Longrightarrow> wp cj (\<lambda>_ s. jo_state (fst s) = OClosed \<and> job_ok (fst s)) (\<lambda>_ s. job_ok (fst s)) (j, v)"
      "calls job_names cj"
    and cp: "\<And>q v. popen_told p w (q, v) \<Longrightarrow> wp cp (\<lambda>_ s. popen_told p w s \<and> po_state (fst s) = PoClosed) (\<lambda>_ s. popen_told p w s) (q, v)"
      "calls popen_names cp"
  shows "wp (helper_close_by cj cp) (\<lambda>_ s. helper_told p w s \<and> job_first w1 s) (\<lambda>_ s. helper_told p w s \<and> job_first w1 s) (h, w1)"
proof (cases "hr_state h = HClosed \<or> hr_state h = HClosing")
  case True
  then show ?thesis using told by (auto simp: helper_close_by_def wp_simps intro: job_first_quiet)
next
  case False
  then have n: "hr_state h \<noteq> HClosed" "hr_state h \<noteq> HClosing" by auto
  let ?h = "h\<lparr>hr_state := HClosing\<rparr>"
  have e: "extends w w1" "popen_told p w (hr_popen h, w1)" using told helper_told_extends[OF told] by (auto simp: helper_told_def)
  show ?thesis
  proof (cases "hr_job h \<noteq> None \<and> \<not> hr_job_closed h")
    case True
    then obtain j where j: "hr_job h = Some j" "job_ok j" "hr_job_closed h = False" using ok by (auto simp: helper_ok_def)
    have u: "popen_untouched (hr_popen h)" using ok True by (auto simp: helper_ok_def)
    have q: "\<not> list_ex process_call (recent w w1)" using told j by (auto simp: helper_told_def)
    have failed: "helper_told p w (?h\<lparr>hr_job := Some j', hr_state := HBroken\<rparr>, v) \<and> job_first w1 (?h\<lparr>hr_job := Some j', hr_state := HBroken\<rparr>, v)"
      if "extends w1 v \<and> (\<forall>a \<in> set (recent w1 v). fst (fst a) \<in> job_names)" for j' v
      using that q quiet_recent[OF e(1) that] popen_told_later[OF e(2)] job_part job_first_quiet
      by (auto simp: helper_told_def)
    have second: "wp (andthen (catch (in_popen cp)
           (\<lambda>e. if is_process_resource_error e
                then andthen (set_helper (\<lambda>h. if po_state (hr_popen h) = PoClosed then HClosed else HBroken)) (fail e)
                else fail e)) (set_helper (\<lambda>_. HClosed)))
        (\<lambda>_ s. helper_told p w s \<and> job_first w1 s) (\<lambda>_ s. helper_told p w s \<and> job_first w1 s)
        (?h\<lparr>hr_job := Some j', hr_job_closed := True\<rparr>, v)"
      if "extends w1 v \<and> (\<forall>a \<in> set (recent w1 v). fst (fst a) \<in> job_names)" "jo_state j' = OClosed" "job_ok j'" for j' v
    proof (rule process_part[OF _ _ _ _ _ _ cp])
      show "helper_ok (?h\<lparr>hr_job := Some j', hr_job_closed := True\<rparr>)"
        using ok that(2,3) u by (auto simp: helper_ok_def job_gone_def job_ok_def popen_untouched_def)
      show "\<not> list_ex process_call (recent w1 v)" using that(1) job_part by blast
      show "popen_told p w (hr_popen (?h\<lparr>hr_job := Some j', hr_job_closed := True\<rparr>), v)"
        using popen_told_later[OF e(2)] that(1) by simp
    qed (use that in auto)
    show ?thesis
      unfolding helper_close_by_def wp_bind[of "field _"] wp_field id_apply fst_conv if_not_P[OF n(1)] if_not_P[OF n(2)]
        if_P[OF True] wp_andthen[of "set_helper _"] wp_set_helper snd_conv wp_andthen[of "andthen _ _"]
        wp_andthen[of "catch _ _" "update _"] in_job_def wp_catch[of "within _ _ cj"] wp_within[of _ _ cj] fst_conv snd_conv
    proof (rule wp_mono[OF wp_conj[OF job(1) calls_wp[OF job(2)]]], goal_cases)
      case 1
      then show ?case using j by simp
    next
      case (2 x t)
      then show ?case using second[of "snd t" "fst t"] j by (simp add: wp_update)
    next
      case (3 x t)
      then show ?case using failed[of "snd t" "fst t"] j by (simp add: wp_andthen wp_set_helper wp_fail)
    qed
  next
    case none: False
    have "helper_ok ?h" using ok by (auto simp: helper_ok_def job_gone_def)
    then show ?thesis
      unfolding helper_close_by_def wp_bind[of "field _"] wp_field id_apply fst_conv if_not_P[OF n(1)] if_not_P[OF n(2)]
        if_not_P[OF none] wp_andthen[of "set_helper _"] wp_andthen[of "ret _"] wp_ret wp_set_helper snd_conv
      using none e(2) by (intro process_part cp) auto
  qed
qed

lemma helper_closes_told:
  assumes "helper_ok h" "helper_told p w (h, w1)"
  shows "wp (helper_close fuel x) (\<lambda>_ s. helper_told p w s \<and> job_first w1 s) (\<lambda>_ s. helper_told p w s \<and> job_first w1 s) (h, w1)"
    "wp (helper_close_with_deadline fuel c) (\<lambda>_ s. helper_told p w s \<and> job_first w1 s) (\<lambda>_ s. helper_told p w s \<and> job_first w1 s) (h, w1)"
  unfolding helper_close_def helper_close_with_deadline_def
  by (rule helper_close_by_told[OF assms job_owner_close_wp(1) job_owner_calls(1) popen_close_told popen_calls(1)]; assumption)
    (rule helper_close_by_told[OF assms job_owner_close_wp(2) job_owner_calls(2) popen_close_with_deadline_told popen_calls(2)]; assumption)

lemma adapt_told:
  assumes "helper_told p w (h, w1)"
  shows "wp (in_popen adapt_native_handle) (\<lambda>_. helper_told p w) (\<lambda>_. helper_told p w) (h, w1)"
proof -
  have e: "extends w w1" using helper_told_extends[OF assms] by simp
  have t: "popen_told p w (hr_popen h, w1)" "popen_told p w (hr_popen h, logged d w1)" for d
    using assms popen_told_later[of p w "hr_popen h" w1 "logged d w1"] by (auto simp: helper_told_def)
  have a: "popen_told p w (hr_popen h\<lparr>po_handle := x, po_state := PoAdapted\<rparr>, logged d w1)" if "po_state (hr_popen h) = PoRegistered" for x d
    using t(2)[of d] that by (auto simp: popen_told_def popen_ok_def)
  show ?thesis
    using assms t a e
    by (auto simp: in_popen_def adapt_native_handle_def compat_native_handle_def wp_simps helper_told_def process_call_def process_names_def
        split: sum.split)
qed

lemma attach_told:
  assumes "helper_told p w (h, w1)"
  shows "wp (attach_job fuel j nested) (\<lambda>_. helper_told p w) (\<lambda>_. helper_told p w) (h, w1)"
proof (cases "hr_state h \<noteq> HOpen \<or> hr_job h \<noteq> None \<or> po_state (hr_popen h) \<noteq> PoAdapted")
  case True
  then show ?thesis using assms by (simp add: attach_job_def wp_simps)
next
  case False
  have e: "extends w w1" "popen_told p w (hr_popen h, w1)" using helper_told_extends[OF assms] assms by (auto simp: helper_told_def)
  have q: "\<not> list_ex process_call (recent w w1)" using assms False by (auto simp: helper_told_def)
  have told: "helper_told p w (h\<lparr>hr_job := Some j', hr_state := x\<rparr>, v)"
    if "extends w1 v \<and> (\<forall>a \<in> set (recent w1 v). fst (fst a) \<in> job_names)" for j' x v
    using that q quiet_recent[OF e(1) that] popen_told_later[OF e(2)] by (simp add: helper_told_def)
  have same: "h\<lparr>hr_job := Some j'\<rparr> = h\<lparr>hr_job := Some j', hr_state := HOpen\<rparr>" for j' using False by (cases h) simp
  have go: "wp (andthen (catch (in_job (job_owner_assign fuel (po_handle (hr_popen h)) nested))
           (\<lambda>e. if is_job_resource_error e then andthen (set_helper (\<lambda>_. HBroken)) (fail e) else fail e))
         (set_helper (\<lambda>_. HAssigned))) (\<lambda>_. helper_told p w) (\<lambda>_. helper_told p w) (h\<lparr>hr_job := Some j\<rparr>, w1)"
    unfolding wp_andthen[of "catch _ _"] wp_catch in_job_def wp_within fst_conv snd_conv
  proof (rule wp_mono[OF calls_wp[OF job_owner_calls(3)]], goal_cases)
    case (1 x t)
    then show ?case using told[of "snd t" _ "fst t"] by (simp add: wp_set_helper)
  next
    case (2 x t)
    then show ?case using told[of "snd t" _ "fst t"] told[of "snd t" HOpen "fst t", folded same]
      by (auto simp: wp_andthen wp_set_helper wp_fail)
  qed
  show ?thesis
    unfolding attach_job_def wp_bind[of "field _"] wp_field id_apply fst_conv if_not_P[OF False] wp_andthen[of "update _"] wp_update snd_conv
    by (rule go)
qed

lemma helper_told_step: "helper_step s t \<Longrightarrow> helper_ok (fst s) \<Longrightarrow> helper_told p w s \<Longrightarrow> helper_told p w t"
proof (induction rule: helper_step.induct)
  case (step_adapt h v r s)
  then show ?case using adapt_told[of p w h v] by (cases r) (auto dest: wpD_Inr wpD_Inl)
next
  case (step_attach j fuel nested h v r s)
  then show ?case using attach_told[of p w h v fuel] by (cases r) (auto dest: wpD_Inr wpD_Inl)
next
  case (step_helper_close fuel x h v r s)
  then show ?case using helper_closes_told(1)[of h p w v fuel x] by (cases r) (auto dest: wpD_Inr wpD_Inl)
next
  case (step_helper_close_deadline fuel c h v r s)
  then show ?case using helper_closes_told(2)[of h p w v fuel c] by (cases r) (auto dest: wpD_Inr wpD_Inl)
qed

lemma helper_told_reached:
  "helper_step\<^sup>*\<^sup>* s t \<Longrightarrow> helper_ok (fst s) \<Longrightarrow> helper_told p w s \<Longrightarrow> helper_told p w t"
  by (induction rule: rtranclp_induct) (auto intro: helper_told_step dest: helper_ok_reached)

definition closed_both :: "helper_resources \<Rightarrow> bool" where
  "closed_both h \<longleftrightarrow> hr_state h = HClosed \<and> job_gone h \<and> po_state (hr_popen h) = PoClosed
     \<and> po_popen (hr_popen h) = VNone \<and> po_handle (hr_popen h) = VNone"

lemmas [run] = owner_errors job_owner_close_with_deadline_def job_owner_close_by_def set_job_state_def in_boundary_def failed_state_def
  popen_close_with_deadline_def popen_finish_def release_handle_def callable_def helper_close_with_deadline_def
  helper_close_by_def in_job_def in_popen_def set_helper_def adapt_native_handle_def compat_native_handle_def invalid_handle_def
  attach_job_def job_owner_assign_def assign_borrowed_handle_def assign_checks_def min_active_processes_def register_popen_def
  new_helper_resources_def is_process_resource_error_def is_job_resource_error_def

section \<open>Properties\<close>

definition sample_owner_world :: world where
  "sample_owner_world = \<lparr>w_answer = (\<lambda>n c. if fst c = ''clock_ns'' then Inr (VInt 1) else if fst c = ''wait'' then Inr (VInt 0)
     else if fst c = ''query_active'' then Inr (VInt (if n < 4 then 1 else 0)) else if fst c = ''_handle'' then Inr (VInt 5)
     else if fst c = ''is_process_in_job'' then Inr (VBool (n = 2))
     else if fst c = ''poll'' then Inr (VInt 0)
     else if fst c = ''getattr'' then Inr (VRef 1) else Inr (VBool True)), w_trace = []\<rparr>"

text \<open>C18: in every run of the aggregate (adapting the handle, attaching a Job, closing by timeout or by deadline, in any
  order and any number of times, whatever the system answers) the process has been polled, terminated, waited for or released
  only if the Job is closed, or there is none; and a process that counts as closed was seen to have ended. A close, by timeout
  or by deadline, makes its calls on the process after all of its calls on the Job, and makes none when the Job's cleanup
  failed; when it returns, the Job and the process are closed and the process and its handle forgotten.\<close>

theorem job_before_process:
  assumes "helper_step\<^sup>*\<^sup>* (new_helper_resources (register_popen p), w) (h, w')"
  shows "helper_ok h \<and> (\<not> popen_untouched (hr_popen h) \<longrightarrow> job_gone h) \<and>
    (list_ex process_call (recent w w') \<longrightarrow> job_gone h) \<and>
    (po_state (hr_popen h) = PoClosed \<longrightarrow> process_ended p w w') \<and>
    (\<forall>fuel t c m r h' w''. m \<in> {helper_close fuel t, helper_close_with_deadline fuel c} \<longrightarrow> m (h, w') = (r, (h', w'')) \<longrightarrow>
       job_first w' (h', w'') \<and> (r = Inr () \<longrightarrow> closed_both h' \<and> process_ended p w w''))"
proof -
  have ok: "helper_ok h" using helper_ok_reached[OF assms] helper_ok_new by simp
  have start: "helper_told p w (new_helper_resources (register_popen p), w)"
    by (simp add: helper_told_def popen_told_def popen_ok_def new_helper_resources_def register_popen_def)
  have told: "helper_told p w (h, w')" using helper_told_reached[OF assms _ start] helper_ok_new by simp
  have gone: "helper_ok h \<Longrightarrow> \<not> popen_untouched (hr_popen h) \<Longrightarrow> job_gone h" for h
    by (auto simp: helper_ok_def job_gone_def)
  have "job_gone h" if "list_ex process_call (recent w w')"
    using told that ok by (auto simp: helper_told_def helper_ok_def job_gone_def)
  moreover have "process_ended p w w'" if "po_state (hr_popen h) = PoClosed" using told that by (simp add: helper_told_def popen_told_def)
  moreover have "job_first w' (h', w'') \<and> (r = Inr () \<longrightarrow> closed_both h' \<and> process_ended p w w'')"
    if m: "m \<in> {helper_close fuel t, helper_close_with_deadline fuel c}" "m (h, w') = (r, (h', w''))" for fuel t c m r h' w''
  proof
    have wp: "wp m (\<lambda>_ s. helper_told p w s \<and> job_first w' s) (\<lambda>_ s. helper_told p w s \<and> job_first w' s) (h, w')"
      "wp m (\<lambda>_ s. helper_ok (fst s) \<and> hr_state (fst s) = HClosed) (\<lambda>_ s. helper_ok (fst s)) (h, w')"
      using m(1) helper_closes_told[OF ok told] helper_closes_wp[OF ok] by blast+
    have t: "helper_told p w (h', w'') \<and> job_first w' (h', w'')"
      using wpD[of m "(h, w')" r "(h', w'')" "\<lambda>_ s. helper_told p w s \<and> job_first w' s"] m(2) wp(1) by simp
    then show "job_first w' (h', w'')" ..
    show "r = Inr () \<longrightarrow> closed_both h' \<and> process_ended p w w''"
    proof
      assume "r = Inr ()"
      then have h': "helper_ok h' \<and> hr_state h' = HClosed" using wpD_Inr[of m "(h, w')" "()" "(h', w'')", OF _ wp(2)] m(2) by simp
      then have c: "po_state (hr_popen h') = PoClosed" by (simp add: helper_ok_def)
      then show "closed_both h' \<and> process_ended p w w''"
        using h' gone[of h'] t by (simp add: helper_ok_def popen_untouched_def closed_both_def helper_told_def popen_told_def)
    qed
  qed
  ultimately show ?thesis using ok gone by blast
qed

definition sample_helper :: helper_resources where
  "sample_helper = \<lparr>hr_popen = \<lparr>po_popen = VRef 7, po_handle = VInt 5, po_state = PoAdapted\<rparr>, hr_job = None, hr_state = HOpen,
     hr_job_closed = False\<rparr>"

definition sample_job :: job_owner where
  "sample_job = \<lparr>jo_boundary = empty_boundary (VInt 8), jo_state = OOpen\<rparr>"

definition attached_helper :: helper_resources where
  "attached_helper = sample_helper\<lparr>hr_state := HAssigned, hr_job := Some \<lparr>jo_boundary = \<lparr>b_job = VInt 8, b_process = VInt 5,
     b_assigned = True, b_borrowed = True, b_state = JAssigned\<rparr>, jo_state = OAssigned\<rparr>\<rparr>"

definition later :: "nat \<Rightarrow> world \<Rightarrow> bool" where
  "later n w \<longleftrightarrow> w_answer w = w_answer sample_owner_world \<and> length (w_trace w) = n"

lemma sample_adapt: "\<exists>w'. in_popen adapt_native_handle (new_helper_resources (register_popen (VRef 7)), sample_owner_world)
    = (Inr (VInt 5), (sample_helper, w')) \<and> later 1 w'"
  by (simp add: run sample_owner_world_def sample_helper_def later_def)

lemma sample_attach: "later 1 w \<Longrightarrow> \<exists>w'. attach_job 9 sample_job True (sample_helper, w) = (Inr (), (attached_helper, w')) \<and> later 4 w'"
  by (simp add: run sample_owner_world_def sample_helper_def attached_helper_def sample_job_def later_def)

lemma sample_helper_close: "later 4 w \<Longrightarrow> \<exists>h w'. helper_close_with_deadline 3 sample_clock (attached_helper, w) = (Inr (), (h, w'))"
  by (simp add: run sample_owner_world_def sample_helper_def attached_helper_def sample_clock_def eval_nat_numeral later_def)

theorem job_before_process_witness:
  "\<exists>h w'. helper_step\<^sup>*\<^sup>* (new_helper_resources (register_popen (VRef 7)), sample_owner_world) (h, w')
     \<and> closed_both h \<and> process_ended (VRef 7) sample_owner_world w'"
proof -
  let ?s = "(new_helper_resources (register_popen (VRef 7)), sample_owner_world)"
  obtain w1 where a: "in_popen adapt_native_handle ?s = (Inr (VInt 5), (sample_helper, w1))" "later 1 w1"
    using sample_adapt by blast
  obtain w2 where b: "attach_job 9 sample_job True (sample_helper, w1) = (Inr (), (attached_helper, w2))" "later 4 w2"
    using sample_attach[OF a(2)] by blast
  obtain h3 w3 where c: "helper_close_with_deadline 3 sample_clock (attached_helper, w2) = (Inr (), (h3, w3))"
    using sample_helper_close[OF b(2)] by blast
  have j: "job_ok sample_job" by (simp add: job_ok_def sample_job_def)
  have "helper_step\<^sup>*\<^sup>* ?s (sample_helper, w1)" using step_adapt[OF a(1)] by blast
  then have two: "helper_step\<^sup>*\<^sup>* ?s (attached_helper, w2)"
    using step_attach[OF j b(1)] by (rule rtranclp.rtrancl_into_rtrancl)
  then have three: "helper_step\<^sup>*\<^sup>* ?s (h3, w3)"
    using step_helper_close_deadline[OF c] by (rule rtranclp.rtrancl_into_rtrancl)
  have "closed_both h3" "process_ended (VRef 7) sample_owner_world w3" using job_before_process[OF two] c by blast+
  then show ?thesis using three by blast
qed

end
