(* ===== verification/WinPath.thy ===== *)
theory WinPath
  imports NtPath JsonErrors
begin

text \<open>
  The lexical part of \<open>path.py\<close> on Windows: \<open>canonicalize_path\<close> and \<open>path_identity\<close>. \<open>GetFullPathNameW\<close> is outside: a
  function of the path and the buffer size in UTF-16 units that gives the API's result and the buffer's text.
  Its current directory is part of it, so a run of it sees one current directory.
\<close>

section \<open>Lengths in UTF-16\<close>

definition utf16_units :: "ustr \<Rightarrow> nat" where
  "utf16_units s = sum_list (map (\<lambda>c. if 65536 \<le> c then 2 else 1) s)"

text \<open>\<open>len(s.encode("utf-16-le")) // 2\<close>: a lone surrogate cannot be encoded.\<close>

definition utf16_length :: "ustr \<Rightarrow> py_exn + nat" where
  "utf16_length s = (if list_ex surrogate s then Inl UnicodeError else Inr (utf16_units s))"

definition max_path_units :: nat where "max_path_units = 32767"

section \<open>The full path\<close>

type_synonym full_path_api = "ustr \<Rightarrow> nat \<Rightarrow> nat \<times> ustr"

text \<open>The loop of \<open>_windows_full_path\<close> over the buffer sizes; the fuel bounds the calls.\<close>

fun full_path_loop :: "nat \<Rightarrow> full_path_api \<Rightarrow> ustr \<Rightarrow> nat \<Rightarrow> py_exn + ustr" where
  "full_path_loop 0 api value n = Inl no_fuel"
| "full_path_loop (Suc fuel) api value n =
     (if max_path_units + 1 < n then Inl (PathError ''path is too long'')
      else
        let (result, buffer) = api value n in
        if result = 0 then Inl (PathError ''invalid path'')
        else if result < n - 1 then Inr buffer
        else full_path_loop fuel api value (result + 1))"

definition windows_full_path :: "nat \<Rightarrow> full_path_api \<Rightarrow> ustr \<Rightarrow> py_exn + ustr option" where
  "windows_full_path fuel api value =
     (if fst (splitdrive value) \<noteq> [] then
        rbind (utf16_length value) (\<lambda>n.
        if max_path_units - 7 \<le> n then Inr None else rbind (full_path_loop fuel api value 512) (\<lambda>s. Inr (Some s)))
      else rbind (full_path_loop fuel api value 512) (\<lambda>s. Inr (Some s)))"

text \<open>\<open>_lexical_full_path\<close>: without a full path from the API the value has a drive, so the last branch of the
  code, the current directory of \<open>os.path.abspath\<close>, is not reached on Windows.\<close>

definition lexical_full_path :: "nat \<Rightarrow> full_path_api \<Rightarrow> ustr \<Rightarrow> py_exn + ustr" where
  "lexical_full_path fuel api value =
     rbind (windows_full_path fuel api value) (\<lambda>full.
     Inr (normpath (norm_seps (case full of None \<Rightarrow> value | Some s \<Rightarrow> s))))"

definition non_local :: "ustr \<Rightarrow> bool" where
  "non_local s \<longleftrightarrow> py_startswith s [bs, bs, 63, bs] \<or> py_startswith s [bs, bs, 46, bs] \<or> py_startswith s [bs, bs]"

definition canonicalize_path :: "nat \<Rightarrow> full_path_api \<Rightarrow> json \<Rightarrow> py_exn + ustr" where
  "canonicalize_path fuel api path = (case path of
     JStr p \<Rightarrow>
       if p = [] then Inl (PathError ''invalid path'')
       else if non_local (norm_seps p) then Inl (PathError ''non-local path'')
       else
         rbind (lexical_full_path fuel api (norm_seps p)) (\<lambda>canonical.
         rbind (utf16_length canonical) (\<lambda>n.
         if max_path_units < n then Inl (PathError ''path is too long'') else Inr canonical))
   | _ \<Rightarrow> Inl (PathError ''invalid path''))"

definition path_identity :: "(ustr \<Rightarrow> ustr) \<Rightarrow> nat \<Rightarrow> full_path_api \<Rightarrow> json \<Rightarrow> py_exn + ustr" where
  "path_identity casefold fuel api path = rbind (canonicalize_path fuel api path) (\<lambda>c. Inr (casefold c))"

section \<open>What the API documents\<close>

text \<open>\<open>GetFullPathNameW\<close>: when the buffer holds the full path and its terminator, the result is the length without the
  terminator; otherwise it is the size a sufficient buffer has.\<close>

definition full_path_doc :: "(ustr \<Rightarrow> ustr) \<Rightarrow> full_path_api \<Rightarrow> bool" where
  "full_path_doc full api \<longleftrightarrow> (\<forall>v n. 0 < utf16_units (full v) \<and>
     (if utf16_units (full v) < n then api v n = (utf16_units (full v), full v)
      else fst (api v n) = utf16_units (full v) + 1))"

lemma full_path_answer:
  assumes "full_path_doc full api"
  shows "utf16_units (full v) < n \<Longrightarrow> api v n = (utf16_units (full v), full v)"
    "\<not> utf16_units (full v) < n \<Longrightarrow> fst (api v n) = utf16_units (full v) + 1" "0 < utf16_units (full v)"
proof -
  have d: "0 < utf16_units (full v) \<and> (if utf16_units (full v) < n then api v n = (utf16_units (full v), full v)
      else fst (api v n) = utf16_units (full v) + 1)" for n
    using assms unfolding full_path_doc_def by blast
  show "utf16_units (full v) < n \<Longrightarrow> api v n = (utf16_units (full v), full v)"
    "\<not> utf16_units (full v) < n \<Longrightarrow> fst (api v n) = utf16_units (full v) + 1" "0 < utf16_units (full v)"
    using d[of n] by simp_all
qed

lemma full_path_returns:
  assumes "full_path_doc full api" "utf16_units (full v) + 1 < n" "n \<le> max_path_units + 1"
  shows "full_path_loop (Suc k) api v n = Inr (full v)"
proof -
  have "utf16_units (full v) < n - 1" using assms(2) by linarith
  then show ?thesis
    using assms(2,3) full_path_answer(1)[OF assms(1), of v n] full_path_answer(3)[OF assms(1), of v] by simp
qed

lemma full_path_grows:
  assumes "full_path_doc full api" "\<not> utf16_units (full v) < n" "n \<le> max_path_units + 1"
  shows "full_path_loop (Suc k) api v n = full_path_loop k api v (utf16_units (full v) + 2)"
proof (cases "api v n")
  case (Pair r b)
  then have "r = utf16_units (full v) + 1" using full_path_answer(2)[OF assms(1,2)] by simp
  moreover have "\<not> utf16_units (full v) + 1 < n - 1" using assms(2) by linarith
  ultimately show ?thesis using assms(2,3) Pair by simp
qed

lemma full_path_stuck:
  assumes "full_path_doc full api" "utf16_units (full v) + 1 = n" "n \<le> max_path_units + 1"
  shows "full_path_loop k api v n = Inl no_fuel"
proof (induction k)
  case (Suc k)
  have "api v n = (utf16_units (full v), full v)" using full_path_answer(1)[OF assms(1)] assms(2) by simp
  then show ?case using Suc assms(2,3) full_path_answer(3)[OF assms(1), of v] by simp
qed simp

lemmas [run] = utf16_units_def utf16_length_def max_path_units_def windows_full_path_def lexical_full_path_def non_local_def
  canonicalize_path_def path_identity_def

section \<open>Properties\<close>

definition sample_full_path :: "ustr \<Rightarrow> ustr" where
  "sample_full_path v = u ''C:'' @ [bs] @ v"

definition sample_full_path_api :: full_path_api where
  "sample_full_path_api v n =
     (if utf16_units (sample_full_path v) < n then (utf16_units (sample_full_path v), sample_full_path v)
      else (utf16_units (sample_full_path v) + 1, []))"

lemma sample_full_path_doc: "full_path_doc sample_full_path sample_full_path_api"
  by (auto simp: full_path_doc_def sample_full_path_api_def sample_full_path_def utf16_units_def u_Cons bs_def)

text \<open>C22: with the API as documented, asking Windows for the full path ends for every path but those whose full path has
  exactly 511 units: for these the first buffer is just large enough, the code takes the answer for a failure and asks
  again with the same size, for ever. All others need at most two calls.\<close>

theorem full_path_ends_unless_511:
  assumes "full_path_doc full api"
  shows "(\<exists>k. full_path_loop k api v 512 \<noteq> Inl no_fuel) \<longleftrightarrow> utf16_units (full v) \<noteq> 511"
proof -
  consider "utf16_units (full v) < 511" | "utf16_units (full v) = 511" | "512 \<le> utf16_units (full v)" by linarith
  then show ?thesis
  proof cases
    case 1
    then have "full_path_loop (Suc 0) api v 512 = Inr (full v)"
      using full_path_returns[OF assms, of v 512 0] by (simp add: max_path_units_def)
    then show ?thesis using 1 by (metis Inr_not_Inl nat_neq_iff)
  next
    case 2
    then show ?thesis using full_path_stuck[OF assms, of v 512] by (simp add: max_path_units_def)
  next
    case 3
    let ?n = "utf16_units (full v) + 2"
    have g: "full_path_loop (Suc (Suc 0)) api v 512 = full_path_loop (Suc 0) api v ?n"
      using 3 by (intro full_path_grows[OF assms]) (auto simp: max_path_units_def)
    have "full_path_loop (Suc 0) api v ?n \<noteq> Inl no_fuel"
    proof (cases "?n \<le> max_path_units + 1")
      case True
      then show ?thesis using full_path_returns[OF assms, of v ?n 0] by simp
    qed (simp add: no_fuel_def)
    then have "\<exists>k. full_path_loop k api v 512 \<noteq> Inl no_fuel" using g by metis
    moreover have "utf16_units (full v) \<noteq> 511" using 3 by linarith
    ultimately show ?thesis by blast
  qed
qed

theorem full_path_ends_unless_511_witness:
  "(\<exists>k. full_path_loop k sample_full_path_api (u ''a'') 512 \<noteq> Inl no_fuel) \<and>
   full_path_loop 1000 sample_full_path_api (replicate 508 97) 512 = Inl no_fuel"
proof -
  have "utf16_units (sample_full_path (u ''a'')) \<noteq> 511" "utf16_units (sample_full_path (replicate 508 97)) = 511"
    by (simp_all add: sample_full_path_def utf16_units_def u_Cons bs_def sum_list_replicate)
  then show ?thesis using full_path_ends_unless_511[OF sample_full_path_doc] by blast
qed

end
