(* ===== verification/Guard.thy ===== *)
theory Guard
  imports Effects Deadline WinPath
begin

text \<open>
  \<open>guard.py\<close>: the named mutex that serialises runs of one user on one path, and the lease on it. The Win32
  functions are calls; the security identifier is the answer of the call \<open>sid\<close>, and the hash is a parameter, whose
  result is an object with a \<open>hexdigest\<close>, bytes, or anything else.
\<close>

section \<open>Constants\<close>

definition wait_abandoned :: int where "wait_abandoned = 128"
definition max_wait_ns :: int where "max_wait_ns = 250000000"

definition acquisition_failed :: py_exn where "acquisition_failed = GuardError ''guard_acquisition_failed''"
definition wait_timed_out :: py_exn where "wait_timed_out = GuardError ''guard_wait_timeout''"

fun is_GuardError :: "py_exn \<Rightarrow> bool" where
  "is_GuardError (GuardError _) = True"
| "is_GuardError _ = False"

text \<open>A security identifier: revision 1, a count of sub-authorities, and the length that goes with it.\<close>

definition valid_sid :: "val \<Rightarrow> bool" where
  "valid_sid v = (case v of
     VBytes b \<Rightarrow> 8 \<le> length b \<and> length b \<le> 68 \<and> b ! 0 = 1 \<and> length b = 8 + 4 * (b ! 1)
   | _ \<Rightarrow> False)"

definition sid_bytes :: "val \<Rightarrow> bytes" where
  "sid_bytes v = (case v of VBytes b \<Rightarrow> b | _ \<Rightarrow> [])"

datatype digest = HexDigest ustr | DigestBytes bytes | DigestOther

definition hex_digit :: "nat \<Rightarrow> nat" where
  "hex_digit n = (if n < 10 then 48 + n else 87 + n)"

definition hex_text :: "bytes \<Rightarrow> ustr" where
  "hex_text b = concat (map (\<lambda>x. [hex_digit (x div 16 mod 16), hex_digit (x mod 16)]) b)"

definition digest_text :: "digest \<Rightarrow> py_exn + ustr" where
  "digest_text d = (case d of HexDigest s \<Rightarrow> Inr s | DigestBytes b \<Rightarrow> Inr (hex_text b) | DigestOther \<Rightarrow> Inl acquisition_failed)"

section \<open>The lease\<close>

record guard_lease =
  gl_handle :: val
  gl_name :: ustr
  gl_owned :: bool
  gl_closed :: bool

definition lease_release :: "(guard_lease, bool) prog" where
  "lease_release =
     bind (field id) (\<lambda>l.
     if \<not> gl_owned l then ret True
     else if gl_closed l then ret False
     else
       bind (catch (bind (ext (''ReleaseMutex'', [gl_handle l])) (\<lambda>v. ret (truthy v))) (\<lambda>_. ret False)) (\<lambda>result.
       andthen (if result then update (\<lambda>l. l\<lparr>gl_owned := False\<rparr>) else ret ()) (ret result)))"

definition lease_close :: "(guard_lease, bool) prog" where
  "lease_close =
     bind (field id) (\<lambda>l.
     if gl_closed l then ret True
     else if gl_owned l then ret False
     else
       bind (catch (bind (ext (''CloseHandle'', [gl_handle l])) (\<lambda>v. ret (truthy v))) (\<lambda>_. ret False)) (\<lambda>result.
       andthen (if result then update (\<lambda>l. l\<lparr>gl_closed := True\<rparr>) else ret ()) (ret result)))"

section \<open>The guard\<close>

text \<open>What a guard is made with: the hash and the prefix of the names. It has no state of its own.\<close>

record guard_config =
  gc_hash :: "bytes \<Rightarrow> digest"
  gc_prefix :: ustr

definition default_prefix :: ustr where
  "default_prefix = u ''Global'' @ [92] @ u ''yasb-limitora-v2-guard-''"

text \<open>\<open>except GuardError: raise\<close>, \<open>except Exception: raise GuardError("guard_acquisition_failed")\<close>.\<close>

definition guarded :: "('o, 'a) prog \<Rightarrow> ('o, 'a) prog" where
  "guarded m = catch m (\<lambda>e. if is_GuardError e then fail e else fail acquisition_failed)"

definition guard_sid :: "py_exn \<Rightarrow> ('o, bytes) prog" where
  "guard_sid e = bind (ext (''sid'', [])) (\<lambda>v. if valid_sid v then ret (sid_bytes v) else fail e)"

text \<open>The bytes that are hashed: the identifier, a zero and the key. The key of a path is its case-folded canonical form
  in UTF-8.\<close>

definition guard_payload :: "bytes \<Rightarrow> bytes \<Rightarrow> bytes" where
  "guard_payload sid key = sid @ [0] @ key"

definition guard_name :: "guard_config \<Rightarrow> bytes \<Rightarrow> bytes \<Rightarrow> py_exn + ustr" where
  "guard_name g sid key = rbind (digest_text (gc_hash g (guard_payload sid key))) (\<lambda>d. Inr (gc_prefix g @ d))"

definition path_key :: "(ustr \<Rightarrow> ustr) \<Rightarrow> nat \<Rightarrow> full_path_api \<Rightarrow> json \<Rightarrow> py_exn + bytes" where
  "path_key casefold fuel api path = rbind (path_identity casefold fuel api path) utf8_encode"

definition name_for :: "guard_config \<Rightarrow> (ustr \<Rightarrow> ustr) \<Rightarrow> nat \<Rightarrow> full_path_api \<Rightarrow> json \<Rightarrow> ('o, ustr) prog" where
  "name_for g casefold fuel api path =
     guarded (bind (guard_sid (ValueError '''')) (\<lambda>sid.
       bind (lift_result (path_key casefold fuel api path)) (\<lambda>key. lift_result (guard_name g sid key))))"

definition safe_close :: "val \<Rightarrow> ('o, unit) prog" where
  "safe_close h = catch (andthen (ext (''CloseHandle'', [h])) (ret ())) (\<lambda>_. ret ())"

definition wait_ms :: "deadline \<Rightarrow> int \<Rightarrow> int" where
  "wait_ms c now = min (max_wait_ns div 1000000) (min max_wait_ns (max 0 (remaining_ns c now - reserve_ns c)) div 1000000)"

definition val_is :: "val \<Rightarrow> int \<Rightarrow> bool" where
  "val_is v n = (case v of VInt k \<Rightarrow> k = n | VBool b \<Rightarrow> of_bool b = n | VFloat f \<Rightarrow> float_eq_int f n | _ \<Rightarrow> False)"

text \<open>\<open>_acquire_name\<close>. The local \<open>handle\<close> is none once it has been closed, so an exception after the wait closes it once.\<close>

definition acquire_name :: "ustr \<Rightarrow> deadline \<Rightarrow> ('o, guard_lease) prog" where
  "acquire_name name c =
     bind (guarded (bind (ext (''CreateMutexW'', [VNone, VBool False, VStr name])) (\<lambda>h. if truthy h then ret h else fail acquisition_failed)))
       (\<lambda>h.
     bind (catch
         (bind clock_ns (\<lambda>now. ext (''WaitForSingleObject'', [h, VInt (wait_ms c now)])))
         (\<lambda>e. if is_GuardError e then fail e else andthen (safe_close h) (fail acquisition_failed))) (\<lambda>result.
     if val_is result 0 \<or> val_is result wait_abandoned
     then ret \<lparr>gl_handle = h, gl_name = name, gl_owned = True, gl_closed = False\<rparr>
     else andthen (safe_close h) (if val_is result 258 then fail wait_timed_out else fail acquisition_failed)))"

definition acquire_key :: "guard_config \<Rightarrow> val \<Rightarrow> deadline \<Rightarrow> ('o, guard_lease) prog" where
  "acquire_key g key c =
     guarded (case key of
       VBytes k \<Rightarrow>
         if k = [] then fail acquisition_failed
         else bind (guard_sid acquisition_failed) (\<lambda>sid. bind (lift_result (guard_name g sid k)) (\<lambda>name. acquire_name name c))
     | _ \<Rightarrow> fail acquisition_failed)"

definition acquire :: "guard_config \<Rightarrow> (ustr \<Rightarrow> ustr) \<Rightarrow> nat \<Rightarrow> full_path_api \<Rightarrow> json \<Rightarrow> deadline \<Rightarrow> ('o, guard_lease) prog" where
  "acquire g casefold fuel api path c = guarded (bind (name_for g casefold fuel api path) (\<lambda>name. acquire_name name c))"

section \<open>Leases as an interface\<close>

text \<open>\<open>RefreshCoordinator._close_lease\<close> of \<open>cache.py\<close>: release, then close, each at most once. The code also tries to leave
  marks on the lease; \<open>GuardLease\<close> has slots and takes none, so only its own two flags are read.\<close>

definition close_lease ::
  "('l, bool) prog \<Rightarrow> ('l, bool) prog \<Rightarrow> ('l \<Rightarrow> bool) \<Rightarrow> ('l \<Rightarrow> bool) \<Rightarrow> ('l, bool) prog" where
  "close_lease release close owned closed =
     bind (field id) (\<lambda>l.
     bind (if \<not> owned l then ret True
           else bind (catch release (\<lambda>_. ret False)) (\<lambda>r. bind (field owned) (\<lambda>still. ret (r \<or> \<not> still)))) (\<lambda>released.
     bind (if released \<and> \<not> closed l
           then bind (catch close (\<lambda>_. ret False)) (\<lambda>r. bind (field closed) (\<lambda>shut. ret (r \<or> shut)))
           else ret (closed l)) (\<lambda>shut.
     ret (released \<and> shut))))"

text \<open>What the coordinator relies on: the operations answer instead of raising, their answers agree with the flags,
  neither touches the other's flag, and a done operation does nothing.\<close>

locale lease_ops =
  fixes release :: "('l, bool) prog"
    and close :: "('l, bool) prog"
    and owned :: "'l \<Rightarrow> bool"
    and closed :: "'l \<Rightarrow> bool"
  assumes release_law: "wp release (\<lambda>r s. r = (\<not> owned (fst s)) \<and> closed (fst s) = closed l \<and> extends w (snd s)) (\<lambda>_ _. False) (l, w)"
    and close_law: "wp close (\<lambda>r s. r = closed (fst s) \<and> owned (fst s) = owned l \<and> extends w (snd s)) (\<lambda>_ _. False) (l, w)"
    and close_owned: "owned l \<Longrightarrow> close (l, w) = (Inr (closed l), (l, w))"
    and close_done: "closed l \<Longrightarrow> close (l, w) = (Inr True, (l, w))"
begin

lemma released_step:
  "wp (if \<not> owned l then ret True
       else bind (catch release (\<lambda>_. ret False)) (\<lambda>r. bind (field owned) (\<lambda>still. ret (r \<or> \<not> still))))
     (\<lambda>r s. r = (\<not> owned (fst s)) \<and> closed (fst s) = closed l \<and> extends w (snd s)) (\<lambda>_ _. False) (l, w)"
proof (cases "owned l")
  case True
  have "wp (bind (catch release (\<lambda>_. ret False)) (\<lambda>r. bind (field owned) (\<lambda>still. ret (r \<or> \<not> still))))
     (\<lambda>r s. r = (\<not> owned (fst s)) \<and> closed (fst s) = closed l \<and> extends w (snd s)) (\<lambda>_ _. False) (l, w)"
    unfolding wp_bind[of "catch _ _"] wp_catch by (rule wp_mono[OF release_law]) (auto simp: wp_simps)
  then show ?thesis using True by simp
qed (simp add: wp_ret)

lemma close_lease_wp:
  "wp (close_lease release close owned closed)
     (\<lambda>r s. r = (\<not> owned (fst s) \<and> closed (fst s)) \<and> extends w (snd s)) (\<lambda>_ _. False) (l, w)"
  unfolding close_lease_def wp_bind[of "field _"] wp_field id_apply fst_conv wp_bind[of "if _ then _ else _"]
proof (rule wp_mono[OF released_step], goal_cases)
  case (1 r s)
  show ?case
  proof (cases "r \<and> \<not> closed l")
    case True
    have "wp (bind (catch close (\<lambda>_. ret False)) (\<lambda>r. bind (field closed) (\<lambda>shut. ret (r \<or> shut))))
        (\<lambda>x t. x = closed (fst t) \<and> owned (fst t) = owned (fst s) \<and> extends (snd s) (snd t)) (\<lambda>_ _. False) (fst s, snd s)"
      unfolding wp_bind[of "catch _ _"] wp_catch by (rule wp_mono[OF close_law]) (auto simp: wp_simps)
    then show ?thesis
      unfolding if_P[OF True] wp_bind[of "bind _ _"] prod.collapse
      by (rule wp_mono) (use 1 True extends_trans in \<open>auto simp: wp_ret\<close>)
  next
    case False
    then show ?thesis unfolding if_not_P[OF False] using 1 by (simp add: wp_simps)
  qed
qed simp

lemma close_lease_done:
  assumes "\<not> owned l" "closed l"
  shows "close_lease release close owned closed (l, w) = (Inr True, (l, w))"
  using assms by (simp add: close_lease_def bind_def field_def ret_def)

end

lemma guard_release_wp: "wp lease_release
    (\<lambda>r s. r = (\<not> gl_owned (fst s)) \<and> gl_closed (fst s) = gl_closed l \<and> extends w (snd s)) (\<lambda>_ _. False) (l, w)"
  by (auto simp: lease_release_def wp_simps split: sum.splits)

lemma guard_close_wp: "wp lease_close
    (\<lambda>r s. r = gl_closed (fst s) \<and> gl_owned (fst s) = gl_owned l \<and> extends w (snd s)) (\<lambda>_ _. False) (l, w)"
  by (auto simp: lease_close_def wp_simps split: sum.splits)

interpretation guard_ops: lease_ops lease_release lease_close gl_owned gl_closed
  by unfold_locales (rule guard_release_wp, rule guard_close_wp, simp_all add: lease_close_def bind_def field_def ret_def)

definition finish_lease :: "(guard_lease, bool) prog" where
  "finish_lease = close_lease lease_release lease_close gl_owned gl_closed"

text \<open>The handle of a lease is closed only when the mutex is no longer held.\<close>

definition closed_after_release :: "guard_lease \<Rightarrow> world \<Rightarrow> guard_lease \<times> world \<Rightarrow> bool" where
  "closed_after_release l w s \<longleftrightarrow>
     (since w (snd s) ''CloseHandle'' [gl_handle l] (\<lambda>_. True) \<longrightarrow> \<not> gl_owned l \<or> since w (snd s) ''ReleaseMutex'' [gl_handle l] truthy)"

lemma finish_lease_order: "wp finish_lease (\<lambda>_ s. closed_after_release l w s) (\<lambda>_ _. True) (l, w)"
  by (auto simp: finish_lease_def close_lease_def lease_release_def lease_close_def wp_simps closed_after_release_def split: sum.splits)

section \<open>Acquisition\<close>

definition plain_waits :: "world \<Rightarrow> bool" where
  "plain_waits w \<longleftrightarrow> (\<forall>n c e. fst c \<noteq> ''CreateMutexW'' \<and> fst c \<noteq> ''sid'' \<longrightarrow> w_answer w n c = Inl e \<longrightarrow> \<not> is_GuardError e)"

definition acquired :: "world \<Rightarrow> guard_lease \<Rightarrow> world \<Rightarrow> bool" where
  "acquired w l w' \<longleftrightarrow> gl_owned l \<and> \<not> gl_closed l \<and> truthy (gl_handle l) \<and>
     (\<exists>ms. 0 \<le> ms \<and> ms \<le> 250 \<and> since w w' ''WaitForSingleObject'' [gl_handle l, VInt ms] (\<lambda>v. val_is v 0 \<or> val_is v wait_abandoned)) \<and>
     called ''CloseHandle'' (recent w w') = []"

definition not_leaked :: "world \<Rightarrow> world \<Rightarrow> bool" where
  "not_leaked w w' \<longleftrightarrow> (\<forall>n h. since w w' ''CreateMutexW'' n (\<lambda>v. v = h \<and> truthy v) \<longrightarrow>
     (''CloseHandle'', [h]) \<in> set (called ''CloseHandle'' (recent w w')))"

lemma wait_ms_bounds: "0 \<le> wait_ms c now" "wait_ms c now \<le> 250"
  by (auto simp: wait_ms_def max_wait_ns_def)

lemma plain_waitsD: "plain_waits w \<Longrightarrow> extends w w' \<Longrightarrow> answer_of (n, a) w' = Inl e \<Longrightarrow> n \<noteq> ''CreateMutexW'' \<Longrightarrow> n \<noteq> ''sid'' \<Longrightarrow> \<not> is_GuardError e"
  unfolding plain_waits_def answer_of_def extends_def by (metis fst_conv)

definition untouched :: "world \<Rightarrow> world \<Rightarrow> bool" where
  "untouched w w1 \<longleftrightarrow> extends w w1 \<and> called ''CloseHandle'' (recent w w1) = []
     \<and> called ''CreateMutexW'' (recent w w1) = []"

lemma untouched_extends: "untouched w w1 \<Longrightarrow> extends w w1"
  by (simp add: untouched_def)

lemma acquired_new:
  assumes "extends w w2" "called ''CloseHandle'' (recent w w2) = []" "truthy h"
    "answer_of (''WaitForSingleObject'', [h, VInt (wait_ms c now)]) w2 = Inr r" "val_is r 0 \<or> val_is r wait_abandoned"
  shows "acquired w \<lparr>gl_handle = h, gl_name = name, gl_owned = True, gl_closed = False\<rparr>
     (logged (''WaitForSingleObject'', [h, VInt (wait_ms c now)]) w2)"
  unfolding acquired_def using assms wait_ms_bounds[of c now] by (auto intro!: exI[of _ "wait_ms c now"])

lemma as_int_plain: "as_int v = Inl e \<Longrightarrow> \<not> is_GuardError e"
  by (auto simp: as_int_def split: val.splits)

lemma acquire_name_wp:
  assumes "plain_waits w" "untouched w w1"
  shows "wp (acquire_name name c) (\<lambda>l s. acquired w l (snd s)) (\<lambda>e s. is_GuardError e \<and> not_leaked w (snd s)) (x, w1)"
proof -
  have x: "extends w w1" "called ''CloseHandle'' (recent w w1) = []" using assms(2) by (simp_all add: untouched_def)
  have none: "\<not> since w w1 ''CreateMutexW'' a P" for a P using assms(2) called_since by (simp add: untouched_def)
  have clock: "answer_of (''clock_ns'', []) (logged c1 w1) = Inl e \<Longrightarrow> \<not> is_GuardError e" for c1 e
    using plain_waitsD[OF assms(1) extends_logged_iff[OF x(1)]] by simp
  have wait: "answer_of (''WaitForSingleObject'', a) (logged c2 (logged c1 w1)) = Inl e \<Longrightarrow> \<not> is_GuardError e" for a c1 c2 e
    using plain_waitsD[OF assms(1) extends_logged_iff[OF extends_logged_iff[OF x(1)]]] by simp
  show ?thesis
    using x none clock wait as_int_plain
    by (auto simp: acquire_name_def guarded_def safe_close_def wp_simps not_leaked_def
        acquisition_failed_def wait_timed_out_def intro!: acquired_new split: sum.splits)
qed

lemma guarded_wp: "wp (guarded m) Q E s = wp m Q (\<lambda>e t. E (if is_GuardError e then e else acquisition_failed) t) s"
  by (simp add: guarded_def wp_catch wp_if wp_fail if_distrib[of "\<lambda>e. E e _"] cong: if_cong) (rule arg_cong[of _ _ "\<lambda>E. wp m Q E s"], auto simp: fun_eq_iff wp_fail)

lemma acquisition_failed_GuardError: "is_GuardError acquisition_failed"
  by (simp add: acquisition_failed_def)

lemma acquire_key_wp:
  assumes "plain_waits w"
  shows "wp (acquire_key g key c) (\<lambda>l s. acquired w l (snd s)) (\<lambda>e s. is_GuardError e \<and> not_leaked w (snd s)) (x, w)"
proof -
  let ?E = "\<lambda>e (s :: 'a \<times> world). is_GuardError (if is_GuardError e then e else acquisition_failed) \<and> not_leaked w (snd s)"
  have u: "untouched w (logged (''sid'', []) w)" "untouched w w" by (simp_all add: untouched_def)
  have none: "not_leaked w w1" if "untouched w w1" for w1
    using that called_since by (simp add: not_leaked_def untouched_def)
  have err: "is_GuardError (if is_GuardError e then e else acquisition_failed)" for e by (simp add: acquisition_failed_def)
  have name: "wp (bind (lift_result (guard_name g s k)) (\<lambda>name. acquire_name name c)) (\<lambda>l s. acquired w l (snd s)) ?E (x, logged (''sid'', []) w)" for s k
    unfolding wp_bind wp_lift
    by (cases "guard_name g s k") (auto simp: err none[OF u(1)] intro!: wp_mono[OF acquire_name_wp[OF assms u(1)]])
  have "wp (bind (guard_sid acquisition_failed) (\<lambda>sid. bind (lift_result (guard_name g sid k)) (\<lambda>name. acquire_name name c)))
      (\<lambda>l s. acquired w l (snd s)) ?E (x, w)" for k
    unfolding guard_sid_def wp_bind[of "bind _ _"] wp_bind[of "ext _"] wp_ext
    using name acquisition_failed_GuardError by (auto simp: wp_ret wp_fail err none[OF u(1)] split: sum.splits)
  then show ?thesis
    unfolding acquire_key_def guarded_wp by (cases key) (auto simp: wp_fail err none[OF u(2)])
qed

lemmas [run] = wait_abandoned_def max_wait_ns_def acquisition_failed_def wait_timed_out_def valid_sid_def sid_bytes_def hex_digit_def
  hex_text_def digest_text_def lease_release_def lease_close_def guarded_def guard_sid_def guard_payload_def guard_name_def
  path_key_def name_for_def safe_close_def wait_ms_def val_is_def acquire_name_def acquire_key_def acquire_def close_lease_def finish_lease_def

section \<open>Properties\<close>

definition sample_sid :: bytes where
  "sample_sid = [1, 1, 0, 0, 0, 0, 0, 5, 18, 0, 0, 0]"

definition sample_guard_config :: guard_config where
  "sample_guard_config = \<lparr>gc_hash = DigestBytes, gc_prefix = u ''g-''\<rparr>"

definition sample_guard_world :: world where
  "sample_guard_world = \<lparr>w_answer = (\<lambda>n c. if fst c = ''sid'' then Inr (VBytes sample_sid) else if fst c = ''CreateMutexW'' then Inr (VInt 7)
     else if fst c = ''clock_ns'' then Inr (VInt 10) else if fst c = ''WaitForSingleObject'' then Inr (VInt 0) else Inr (VBool True)), w_trace = []\<rparr>"

definition sample_guard_clock :: deadline where
  "sample_guard_clock = \<lparr>t0_ns = 0, deadline_ns = 1000000000, reserve_ns = 250000000\<rparr>"

text \<open>C23: an acquisition never leaks a handle. It returns an open, owned lease after a wait of at most 250 ms that the system
  answered with the mutex (or with an abandoned one), and then nothing was closed; or it raises a \<open>GuardError\<close>, and every mutex handle
  it had created was handed to \<open>CloseHandle\<close>.\<close>

theorem acquire_no_leak:
  assumes "plain_waits w" "acquire_key g key c (x, w) = (res, (x', w'))"
  shows "case res of Inr l \<Rightarrow> acquired w l w' | Inl e \<Rightarrow> is_GuardError e \<and> not_leaked w w'"
  using acquire_key_wp[OF assms(1), of g key c x] assms(2) by (cases res) (auto dest: wpD_Inr wpD_Inl)

lemma sample_acquire: "\<exists>w'. acquire_key sample_guard_config (VBytes [3]) sample_guard_clock ((), sample_guard_world) =
    (Inr \<lparr>gl_handle = VInt 7, gl_name = u ''g-'' @ hex_text (guard_payload sample_sid [3]), gl_owned = True, gl_closed = False\<rparr>, ((), w'))"
  by (simp add: run sample_guard_config_def sample_guard_clock_def sample_guard_world_def sample_sid_def remaining_ns_def)

theorem acquire_no_leak_witness:
  "\<exists>l w'. acquire_key sample_guard_config (VBytes [3]) sample_guard_clock ((), sample_guard_world) = (Inr l, ((), w'))
     \<and> acquired sample_guard_world l w'"
proof -
  have p: "plain_waits sample_guard_world" by (auto simp: plain_waits_def sample_guard_world_def split: if_splits)
  show ?thesis using sample_acquire acquire_no_leak[OF p] by fastforce
qed

text \<open>A lease as the code makes it and keeps it: not closed while it is owned. And a system that agrees to both calls.\<close>

definition lease_valid :: "guard_lease \<Rightarrow> bool" where
  "lease_valid l \<longleftrightarrow> \<not> (gl_owned l \<and> gl_closed l)"

definition willing :: "world \<Rightarrow> bool" where
  "willing w \<longleftrightarrow> (\<forall>n c. fst c = ''ReleaseMutex'' \<or> fst c = ''CloseHandle'' \<longrightarrow> (\<exists>v. w_answer w n c = Inr v \<and> truthy v))"

text \<open>The account of one attempt: a flag changes exactly on the system's confirmation in this attempt, and the system is asked
  whenever there is something left to do.\<close>

definition attempt_sound :: "guard_lease \<Rightarrow> world \<Rightarrow> guard_lease \<times> world \<Rightarrow> bool" where
  "attempt_sound l w s \<longleftrightarrow> gl_handle (fst s) = gl_handle l \<and> lease_valid (fst s)
     \<and> gl_owned (fst s) = (gl_owned l \<and> \<not> since w (snd s) ''ReleaseMutex'' [gl_handle l] truthy)
     \<and> gl_closed (fst s) = (gl_closed l \<or> since w (snd s) ''CloseHandle'' [gl_handle l] truthy)
     \<and> called ''ReleaseMutex'' (recent w (snd s)) = (if gl_owned l then [(''ReleaseMutex'', [gl_handle l])] else [])
     \<and> called ''CloseHandle'' (recent w (snd s)) = (if gl_owned (fst s) \<or> gl_closed l then [] else [(''CloseHandle'', [gl_handle l])])"

lemma finish_lease_attempt: "lease_valid l \<Longrightarrow> wp finish_lease (\<lambda>_ s. attempt_sound l w s) (\<lambda>_ _. True) (l, w)"
  by (auto simp: finish_lease_def close_lease_def lease_release_def lease_close_def wp_simps attempt_sound_def lease_valid_def split: sum.splits)

lemma finish_lease_willing:
  assumes "lease_valid l" "willing w"
  shows "\<exists>w'. finish_lease (l, w) = (Inr True, (l\<lparr>gl_owned := False, gl_closed := True\<rparr>, w'))"
proof -
  have yes: "\<exists>v. answer_of (n, a) w' = Inr v \<and> truthy v" if "n = ''ReleaseMutex'' \<or> n = ''CloseHandle''" "w_answer w' = w_answer w" for n a w'
    using assms(2) that by (auto simp: willing_def answer_of_def)
  let ?r = "(''ReleaseMutex'', [gl_handle l])" and ?c = "(''CloseHandle'', [gl_handle l])"
  obtain v1 v2 v3 where v: "answer_of ?r w = Inr v1" "truthy v1" "answer_of ?c w = Inr v2" "truthy v2"
    "answer_of ?c (logged ?r w) = Inr v3" "truthy v3"
    using yes[of "''ReleaseMutex''" w "[gl_handle l]"] yes[of "''CloseHandle''" w "[gl_handle l]"]
      yes[of "''CloseHandle''" "logged ?r w" "[gl_handle l]"] by auto
  have "wp finish_lease (\<lambda>r s. r \<and> fst s = l\<lparr>gl_owned := False, gl_closed := True\<rparr>) (\<lambda>_ _. False) (l, w)"
    using assms(1) v by (cases l; cases "gl_owned l"; cases "gl_closed l")
      (simp_all add: finish_lease_def close_lease_def lease_release_def lease_close_def wp_simps lease_valid_def)
  then show ?thesis by (cases "finish_lease (l, w)") (auto simp: wp_def split: sum.splits)
qed

text \<open>C24: finishing a lease answers instead of raising, true exactly when the mutex is released and the handle closed. A flag
  of the lease changes only on the system's own confirmation, the system is asked once for what is left to do, and the
  handle is closed only after a successful release. An attempt that failed leaves a lease with the same handle that can be
  finished again: the next attempt succeeds as soon as the system agrees. Finishing a finished lease does nothing and says so.\<close>

theorem finish_lease_sound:
  assumes "lease_valid l"
  shows "\<exists>b l' w'. finish_lease (l, w) = (Inr b, (l', w')) \<and> b = (\<not> gl_owned l' \<and> gl_closed l')
     \<and> attempt_sound l w (l', w') \<and> closed_after_release l w (l', w')
     \<and> (\<forall>w''. willing w'' \<longrightarrow> (\<exists>w3. finish_lease (l', w'') = (Inr True, (l'\<lparr>gl_owned := False, gl_closed := True\<rparr>, w3))))
     \<and> (b \<longrightarrow> (\<forall>w''. finish_lease (l', w'') = (Inr True, (l', w''))))"
proof -
  have "wp finish_lease (\<lambda>r s. r = (\<not> gl_owned (fst s) \<and> gl_closed (fst s)) \<and> extends w (snd s)) (\<lambda>_ _. False) (l, w)"
    unfolding finish_lease_def by (rule guard_ops.close_lease_wp)
  then obtain b l' w' where r: "finish_lease (l, w) = (Inr b, (l', w'))" "b = (\<not> gl_owned l' \<and> gl_closed l')"
    by (cases "finish_lease (l, w)") (auto simp: wp_def split: sum.splits)
  have "closed_after_release l w (l', w')" using wpD_Inr[OF r(1) finish_lease_order] by simp
  moreover have a: "attempt_sound l w (l', w')" using wpD_Inr[OF r(1) finish_lease_attempt[OF assms]] by simp
  moreover have "\<exists>w3. finish_lease (l', w'') = (Inr True, (l'\<lparr>gl_owned := False, gl_closed := True\<rparr>, w3))" if "willing w''" for w''
    using finish_lease_willing[OF _ that] a by (simp add: attempt_sound_def)
  moreover have "b \<longrightarrow> (\<forall>w''. finish_lease (l', w'') = (Inr True, (l', w'')))"
    using r(2) guard_ops.close_lease_done unfolding finish_lease_def by blast
  ultimately show ?thesis using r by blast
qed

text \<open>A release that fails at first, and a system that then agrees.\<close>

definition refusing_world :: world where
  "refusing_world = \<lparr>w_answer = (\<lambda>n c. if fst c = ''ReleaseMutex'' then Inr (VInt 0) else Inr (VBool True)), w_trace = []\<rparr>"

definition held_lease :: guard_lease where
  "held_lease = \<lparr>gl_handle = VInt 7, gl_name = [], gl_owned = True, gl_closed = False\<rparr>"

lemma refused_finish: "fst (finish_lease (held_lease, refusing_world)) = Inr False"
  by (simp add: run refusing_world_def held_lease_def)

theorem finish_lease_sound_witness:
  "\<exists>l' w' w3. finish_lease (held_lease, refusing_world) = (Inr False, (l', w')) \<and> gl_owned l' \<and> \<not> gl_closed l'
     \<and> fst (finish_lease (l', sample_guard_world)) = Inr True"
proof -
  have v: "lease_valid held_lease" by (simp add: lease_valid_def held_lease_def)
  have y: "willing sample_guard_world" by (auto simp: willing_def sample_guard_world_def truthy_def)
  obtain b l' w' where r: "finish_lease (held_lease, refusing_world) = (Inr b, (l', w'))" "b = (\<not> gl_owned l' \<and> gl_closed l')"
    "attempt_sound held_lease refusing_world (l', w')"
    "\<forall>w''. willing w'' \<longrightarrow> (\<exists>w3. finish_lease (l', w'') = (Inr True, (l'\<lparr>gl_owned := False, gl_closed := True\<rparr>, w3)))"
    using finish_lease_sound[OF v, of refusing_world] by blast
  have n: "b = False" using r(1) refused_finish by simp
  obtain w3 where w3: "finish_lease (l', sample_guard_world) = (Inr True, (l'\<lparr>gl_owned := False, gl_closed := True\<rparr>, w3))"
    using r(4) y by blast
  have "called ''CloseHandle'' (recent refusing_world w') = []"
  proof -
    have "snd (snd (finish_lease (held_lease, refusing_world))) = w'" using r(1) by simp
    then show ?thesis by (auto simp: run refusing_world_def held_lease_def recent_def)
  qed
  then have "gl_owned l'" using r(2,3) n by (auto simp: attempt_sound_def held_lease_def split: if_splits)
  moreover have "\<not> gl_closed l'" using r(3) calculation by (simp add: attempt_sound_def lease_valid_def)
  ultimately show ?thesis using r(1) n w3 by auto
qed

lemma payload_unambiguous:
  assumes "valid_sid (VBytes s)" "valid_sid (VBytes t)" "guard_payload s k = guard_payload t k'"
  shows "s = t \<and> k = k'"
proof -
  have l: "length s = 8 + 4 * (s ! 1)" "length t = 8 + 4 * (t ! 1)" using assms(1,2) by (simp_all add: valid_sid_def)
  have "(s @ [0] @ k) ! 1 = (t @ [0] @ k') ! 1" using assms(3) by (simp add: guard_payload_def)
  then have "s ! 1 = t ! 1" using l by (simp add: nth_append)
  then show ?thesis using l assms(3) by (simp add: guard_payload_def)
qed

text \<open>C25: two runs share a mutex only when they are the same user's runs on the same key: the hashed bytes determine the
  security identifier and the key, so unless the hash collides on them different users or keys get different names.\<close>

theorem guard_name_separates:
  assumes "valid_sid (VBytes s)" "valid_sid (VBytes t)" "guard_name g s k = Inr n" "guard_name g t k' = Inr n"
    and "digest_text (gc_hash g (guard_payload s k)) = digest_text (gc_hash g (guard_payload t k')) \<Longrightarrow> guard_payload s k = guard_payload t k'"
  shows "s = t \<and> k = k'"
proof (rule payload_unambiguous[OF assms(1,2)], rule assms(5))
  show "digest_text (gc_hash g (guard_payload s k)) = digest_text (gc_hash g (guard_payload t k'))"
    using assms(3,4) by (auto simp: guard_name_def rbind_Inr_iff)
qed

theorem guard_name_separates_witness:
  "guard_name sample_guard_config sample_sid [3] \<noteq> guard_name sample_guard_config sample_sid [4]"
proof
  assume e: "guard_name sample_guard_config sample_sid [3] = guard_name sample_guard_config sample_sid [4]"
  have v: "valid_sid (VBytes sample_sid)" by (simp add: run sample_sid_def)
  obtain n where n: "guard_name sample_guard_config sample_sid [3] = Inr n" by (simp add: run sample_guard_config_def)
  have "sample_sid = sample_sid \<and> [3] = [4::nat]"
    by (rule guard_name_separates[OF v v n]) (use n e in \<open>simp_all add: run sample_guard_config_def sample_sid_def\<close>)
  then show False by simp
qed

end
