(* ===== verification/CacheTypes.thy ===== *)
theory CacheTypes
  imports CacheDoc JsonSorted
begin

text \<open>
  The type of a cached document. \<open>typed\<close> is a small schema language for JSON values, \<open>document_schema\<close> the schema of the
  public document, and \<open>validated_typed\<close> says that what \<open>_validate_document\<close> of \<open>cache.py\<close> accepts has it. A typed value
  holds no floating point number and no key twice, so it is read back as it was written.
\<close>

section \<open>Schemas\<close>

datatype schema = TNull | TText | TInt | TOpt schema | TList schema | TObj "(string \<times> schema) list"

fun typed :: "schema \<Rightarrow> json \<Rightarrow> bool" where
  "typed TNull v = (v = JNull)"
| "typed TText v = (case v of JStr _ \<Rightarrow> True | _ \<Rightarrow> False)"
| "typed TInt v = (case v of JInt _ \<Rightarrow> True | _ \<Rightarrow> False)"
| "typed (TOpt s) v = (v = JNull \<or> typed s v)"
| "typed (TList s) v = (case v of JList xs \<Rightarrow> list_all (typed s) xs | _ \<Rightarrow> False)"
| "typed (TObj fs) v = (case v of
     JObj d \<Rightarrow> map fst d = map (u \<circ> fst) fs \<and> list_all2 (\<lambda>p q. typed (snd p) (snd q)) fs d
   | _ \<Rightarrow> False)"

fun schema_ok :: "schema \<Rightarrow> bool" where
  "schema_ok (TOpt s) = schema_ok s"
| "schema_ok (TList s) = schema_ok s"
| "schema_ok (TObj fs) = (distinct (map fst fs) \<and> list_all (\<lambda>p. schema_ok (snd p)) fs)"
| "schema_ok _ = True"

lemma typed_plain: "typed s v \<Longrightarrow> schema_ok s \<Longrightarrow> json_plain v"
proof (induction s v rule: typed.induct)
  case (5 s v)
  then show ?case by (cases v) (auto simp: list_all_iff)
next
  case (6 fs v)
  obtain d where d: "v = JObj d" "map fst d = map (u \<circ> fst) fs" "list_all2 (\<lambda>p q. typed (snd p) (snd q)) fs d"
    using 6(2) by (cases v) auto
  have p: "json_plain (snd q)" if q: "q \<in> set d" for q
  proof -
    obtain i where i: "i < length d" "q = d ! i" using q by (auto simp: in_set_conv_nth)
    then have t: "typed (snd (fs ! i)) (snd q)" "fs ! i \<in> set fs" using d(3) by (auto simp: list_all2_conv_all_nth)
    show ?thesis by (rule 6(1)[OF d(1) t(2) q t(1)]) (use 6(3) t(2) in \<open>auto simp: list_all_iff\<close>)
  qed
  have "distinct (map fst d)" using 6(3) unfolding d(2) by (auto simp: distinct_map inj_on_def)
  then show ?case using p d(1) by (auto simp: list_all_iff)
qed (auto split: json.splits)

text \<open>An object of the right keys is typed field by field.\<close>

lemma fld_nth:
  assumes "map fst d = map (u \<circ> fst) fs" "distinct (map fst fs)" "i < length fs"
  shows "fld (fst (fs ! i)) d = snd (d ! i)"
proof -
  have l: "length d = length fs" using assms(1) map_eq_imp_length_eq by blast
  have "distinct (map fst d)" using assms(2) unfolding assms(1) by (auto simp: distinct_map inj_on_def)
  moreover have "d ! i = (u (fst (fs ! i)), snd (d ! i))"
    using assms(1,3) l nth_map[of i d fst] by (metis comp_apply nth_map prod.collapse)
  ultimately have "map_of d (u (fst (fs ! i))) = Some (snd (d ! i))" using assms(3) l by (metis map_of_is_SomeI nth_mem)
  then show ?thesis by (simp add: fld_def dict_get_def)
qed

lemma typed_obj:
  assumes "map fst d = map (u \<circ> fst) fs" "distinct (map fst fs)" "list_all (\<lambda>p. typed (snd p) (fld (fst p) d)) fs"
  shows "typed (TObj fs) (JObj d)"
proof -
  have "length d = length fs" using assms(1) map_eq_imp_length_eq by blast
  then have "list_all2 (\<lambda>p q. typed (snd p) (snd q)) fs d"
    using assms(3) fld_nth[OF assms(1,2)] by (auto simp: list_all2_conv_all_nth list_all_length)
  then show ?thesis using assms(1) by simp
qed

lemma safe_mapping_ordered_Inr: "safe_mapping_ordered fs v = Inr d \<Longrightarrow> v = JObj d \<and> map fst d = map u fs"
  by (auto simp: safe_mapping_ordered_def cve_def split: json.splits if_splits)

text \<open>A mapping checked against the field names of a schema.\<close>

lemma mapping_typed:
  assumes "safe_mapping_ordered ks v = Inr d" "ks = map fst fs" "distinct ks"
    "list_all (\<lambda>p. typed (snd p) (fld (fst p) d)) fs"
  shows "typed (TObj fs) v"
  using safe_mapping_ordered_Inr[OF assms(1)] typed_obj[of d fs] assms by (simp add: comp_def)

section \<open>The document\<close>

definition quantity_schema :: schema where
  "quantity_schema = TObj [(''value'', TText), (''metric'', TText), (''unit'', TText)]"

definition window_schema :: schema where
  "window_schema = TObj [(''kind'', TText), (''scope'', TText), (''period'', TText), (''plan_id'', TOpt TText), (''availability'', TText),
     (''source_id'', TOpt TText), (''limit'', TOpt quantity_schema), (''used'', TOpt quantity_schema), (''remaining'', TOpt quantity_schema),
     (''reset_at'', TOpt TText)]"

definition resets_schema :: schema where
  "resets_schema = TObj [(''available_count'', TInt), (''next_expires_at'', TOpt TText)]"

definition depleted_schema :: schema where
  "depleted_schema = TObj [(''kind'', TText), (''scope'', TText), (''period'', TText), (''plan_id'', TOpt TText), (''unit'', TText),
     (''source_id'', TOpt TText), (''remaining_percentage'', TText)]"

definition provider_schema :: schema where
  "provider_schema = TObj [(''provider'', TText), (''outcome'', TText), (''public_state'', TOpt TText), (''freshness'', TOpt TText),
     (''status_observed_at'', TOpt TText), (''fetched_at'', TOpt TText), (''data_at'', TOpt TText), (''source_id'', TOpt TText),
     (''windows'', TList window_schema), (''rate_limit_reset_credits'', TOpt resets_schema), (''execution_error'', TNull),
     (''not_run_reason'', TOpt TText), (''most_depleted_window'', TOpt depleted_schema), (''compact_text'', TText),
     (''alternate_text'', TText), (''tooltip_text'', TText)]"

definition general_schema :: schema where
  "general_schema = TObj [(''compact_text'', TText), (''alternate_text'', TText), (''tooltip_text'', TText)]"

definition error_schema :: schema where
  "error_schema = TObj [(''code'', TText), (''phase'', TText)]"

definition document_schema :: schema where
  "document_schema = TObj [(''execution_state'', TText), (''execution_error'', TOpt error_schema), (''general'', general_schema),
     (''providers'', TList provider_schema)]"

lemmas schema_defs = quantity_schema_def window_schema_def resets_schema_def depleted_schema_def provider_schema_def
  general_schema_def error_schema_def document_schema_def

lemma document_schema_ok [simp]: "schema_ok document_schema"
  by (simp add: schema_defs)

lemma text_facts:
  "safe_text nf v n m = Inr s \<Longrightarrow> typed TText v"
  "required_text v = Inr s \<Longrightarrow> typed TText v"
  "optional_text v = Inr r \<Longrightarrow> typed (TOpt TText) v"
  "cache_timestamp v = Inr t \<Longrightarrow> typed TText v"
  "enum_value ms f v = Inr x \<Longrightarrow> typed TText v"
  by (auto simp: safe_text_def required_text_def optional_text_def cache_timestamp_def enum_value_def enum_of_def cve_def result_simps
      split: json.splits if_splits sum.splits)

lemma checked_Inr [simp]: "checked m = Inr x \<longleftrightarrow> m = Inr x" "checked_arith m = Inr x \<longleftrightarrow> m = Inr x"
  by (auto simp: checked_def checked_arith_def cve_def split: sum.splits if_splits)

lemma nullable_typed: "nullable f v = Inr r \<Longrightarrow> (\<And>x. f v = Inr x \<Longrightarrow> typed s v) \<Longrightarrow> typed (TOpt s) v"
  by (auto simp: nullable_def result_simps split: if_splits)

lemma cve_not_Inr [simp]: "cve \<noteq> Inr x" "Inr x \<noteq> cve"
  by (simp_all add: cve_def)

lemma cve_if [simp]: "(if b then cve else m) = Inr x \<longleftrightarrow> \<not> b \<and> m = Inr x"
  by simp

lemma quantity_typed: "cache_quantity nf k v = Inr q \<Longrightarrow> typed quantity_schema v"
proof -
  assume a: "cache_quantity nf k v = Inr q"
  then obtain d t where d: "safe_mapping_ordered quantity_fields v = Inr d" "safe_text nf (fld ''unit'' d) 64 False = Inr t"
    and rest: "(case fld ''value'' d of JStr rendered \<Rightarrow>
         if \<not> decimal_shape rendered \<or> 256 < length rendered then cve
         else
           rbind (checked_arith (rbind (enum_value mk_members mk_value (fld ''metric'' d)) (\<lambda>m.
             rbind (dec_parse rendered) (\<lambda>x. mk_quantity nf x (JStr (mk_value m)) (JStr t))))) (\<lambda>parsed.
           if dec_format_f (q_value parsed) \<noteq> rendered \<or> q_unit parsed \<noteq> t then cve
           else if k \<noteq> None \<and> k \<noteq> Some (q_metric parsed) then cve
           else Inr parsed)
     | _ \<Rightarrow> cve) = Inr q"
    unfolding cache_quantity_def rbind_Inr_iff[where m = "safe_mapping_ordered _ _"] rbind_Inr_iff[where m = "safe_text _ _ _ _"] by blast
  obtain r where r: "fld ''value'' d = JStr r" using rest by (cases "fld ''value'' d") auto
  obtain m where m: "enum_value mk_members mk_value (fld ''metric'' d) = Inr m"
    using rest unfolding r by (auto simp: rbind_Inr_iff split: if_splits)
  show ?thesis unfolding quantity_schema_def
    by (rule mapping_typed[OF d(1)]) (use r text_facts(1)[OF d(2)] text_facts(5)[OF m] in \<open>simp_all add: quantity_fields_def\<close>)
qed

lemma window_typed: "cache_window nf p v = Inr x \<Longrightarrow> typed window_schema v"
proof -
  assume a: "cache_window nf p v = Inr x"
  obtain d k av sc pe pl so qs re where d: "safe_mapping_ordered cache_window_fields v = Inr d"
    "enum_value wk_members wk_value (fld ''kind'' d) = Inr k" "enum_value av_members av_value (fld ''availability'' d) = Inr av"
    "safe_text nf (fld ''scope'' d) 64 False = Inr sc" "safe_text nf (fld ''period'' d) 64 False = Inr pe"
    "optional_text (fld ''plan_id'' d) = Inr pl" "optional_text (fld ''source_id'' d) = Inr so"
    "rmap (nullable (cache_quantity nf (expected_metric k))) [fld ''limit'' d, fld ''used'' d, fld ''remaining'' d] = Inr qs"
    "nullable (\<lambda>r. rbind (cache_timestamp r) (\<lambda>t. Inr (utc_of t))) (fld ''reset_at'' d) = Inr re"
    using a by (auto simp: cache_window_def Let_def rbind_Inr_iff simp del: rmap.simps split: if_splits)
  have q: "typed (TOpt quantity_schema) (fld f d)" if "f \<in> {''limit'', ''used'', ''remaining''}" for f
    using d(8) that by (auto simp: rbind_Inr_iff simp del: typed.simps intro: nullable_typed quantity_typed)
  have r: "typed (TOpt TText) (fld ''reset_at'' d)"
    by (rule nullable_typed[OF d(9)]) (auto simp: rbind_Inr_iff simp del: typed.simps dest: text_facts(4))
  show ?thesis unfolding window_schema_def
    by (rule mapping_typed[OF d(1)])
      (use q r text_facts(5)[OF d(2)] text_facts(5)[OF d(3)] text_facts(1)[OF d(4)] text_facts(1)[OF d(5)]
         text_facts(3)[OF d(6)] text_facts(3)[OF d(7)] in \<open>simp_all add: cache_window_fields_def del: typed.simps\<close>)
qed

lemma windows_typed: "cache_windows nf p seen vs = Inr ws \<Longrightarrow> list_all (typed window_schema) vs"
  by (induction vs arbitrary: seen ws) (auto simp: Let_def rbind_Inr_iff split: if_splits dest: window_typed)

lemma resets_typed: "cache_resets out v = Inr r \<Longrightarrow> typed (TOpt resets_schema) v"
proof (unfold cache_resets_def, erule nullable_typed)
  fix x
  assume "(if out \<noteq> OSnapshot then cve else
       rbind (safe_mapping_ordered [''available_count'', ''next_expires_at''] v) (\<lambda>r.
       checked (rbind (nullable (\<lambda>x. rbind (cache_timestamp x) (\<lambda>t. Inr (utc_of t))) (fld ''next_expires_at'' r)) (\<lambda>e.
         rbind (mk_resets (fld ''available_count'' r) e) (\<lambda>m.
         Inr (m, r_available_count m, json_opt (fld ''next_expires_at'' r))))))) = Inr x"
  then obtain d e m where d: "safe_mapping_ordered [''available_count'', ''next_expires_at''] v = Inr d"
    "nullable (\<lambda>x. rbind (cache_timestamp x) (\<lambda>t. Inr (utc_of t))) (fld ''next_expires_at'' d) = Inr e"
    "mk_resets (fld ''available_count'' d) e = Inr m"
    by (auto simp: rbind_Inr_iff split: if_splits)
  have c: "typed TInt (fld ''available_count'' d)" using d(3) by (auto simp: mk_resets_def split: json.splits)
  have n: "typed (TOpt TText) (fld ''next_expires_at'' d)"
    by (rule nullable_typed[OF d(2)]) (auto simp: rbind_Inr_iff simp del: typed.simps dest: text_facts(4))
  show "typed resets_schema v" unfolding resets_schema_def
    by (rule mapping_typed[OF d(1)]) (use c n in \<open>simp_all del: typed.simps\<close>)
qed

text \<open>What the checks of an item's outcome give for its other fields.\<close>

lemma outcome_typed:
  assumes "(if out = OSnapshot then cache_snapshot_item nf p src rs i else cache_other_item p out i) = Inr facts"
  shows "typed (TList window_schema) (fld ''windows'' i) \<and> fld ''execution_error'' i = JNull \<and> typed (TOpt TText) (fld ''not_run_reason'' i)"
proof (cases "out = OSnapshot")
  case True
  then have a: "cache_snapshot_item nf p src rs i = Inr facts" using assms by simp
  obtain raw where raw: "fld ''windows'' i = JList raw"
    using a unfolding cache_snapshot_item_def by (cases "fld ''windows'' i") (auto simp: rbind_Inr_iff split: if_splits)
  then show ?thesis
    using a unfolding cache_snapshot_item_def by (auto simp: rbind_Inr_iff Let_def split: if_splits dest: windows_typed)
next
  case False
  then show ?thesis
    using assms by (auto simp: cache_other_item_def blank_fields_def json_in_def rbind_Inr_iff split: if_splits json.splits)
qed

lemma item_typed:
  assumes "cache_item nf seen v = Inr (i, facts)" "typed (TOpt depleted_schema) (fld ''most_depleted_window'' i)"
  shows "typed provider_schema v"
proof -
  obtain p out ts src rs pt ot un where d: "safe_mapping_ordered provider_fields v = Inr i" "required_text (fld ''provider'' i) = Inr pt"
    "required_text (fld ''outcome'' i) = Inr ot" "rmap (\<lambda>f. optional_text (fld f i)) snapshot_text_fields = Inr ts"
    "cache_resets out (fld ''rate_limit_reset_credits'' i) = Inr rs"
    "(if out = OSnapshot then cache_snapshot_item nf p src rs i else cache_other_item p out i) = Inr facts"
    "item_texts nf i = Inr un"
    using assms(1) unfolding cache_item_def rbind_Inr_iff cve_if sum.inject prod.inject by blast
  have o: "typed (TOpt TText) (fld f i)" if "f \<in> set snapshot_text_fields" for f
    using rmap_Inr_all[OF d(4) that] text_facts(3) by blast
  have x: "typed TText (fld ''compact_text'' i)" "typed TText (fld ''alternate_text'' i)" "typed TText (fld ''tooltip_text'' i)"
    using d(7) by (auto simp: item_texts_def rbind_Inr_iff simp del: typed.simps dest: text_facts(1))
  show ?thesis unfolding provider_schema_def
    by (rule mapping_typed[OF d(1)])
      (use text_facts(2)[OF d(2)] text_facts(2)[OF d(3)] o x outcome_typed[OF d(6)] resets_typed[OF d(5)] assms(2) in
        \<open>simp_all add: provider_fields_def snapshot_text_fields_def del: typed.simps(2-6)\<close>)
qed

lemma cache_items_item: "cache_items nf seen vs = Inr xs \<Longrightarrow> length xs = length vs \<and> (\<forall>n < length vs. \<exists>seen. cache_item nf seen (vs ! n) = Inr (xs ! n))"
proof (induction vs arbitrary: seen xs)
  case (Cons v vs)
  then obtain x ys where x: "cache_item nf seen v = Inr x" "cache_items nf (pi_provider (snd x) # seen) vs = Inr ys" "xs = x # ys"
    by (auto simp: rbind_Inr_iff)
  show ?case using Cons.IH[OF x(2)] x(1,3) by (auto simp: nth_Cons split: nat.split)
qed simp

text \<open>The recomputed presentation fixes the depleted window.\<close>

lemma limit_search_from:
  "limit_search fits f low high best = Inr (Some c) \<Longrightarrow> best = Some c \<or> (\<exists>l. f l = Inr c)"
proof (induction fits f low high best rule: limit_search.induct)
  case (1 fits f low high best)
  show ?case
  proof (cases "low \<le> high")
    case False
    then have "Inr best = Inr (Some c)" using 1(3) by (subst (asm) limit_search.simps) simp
    then show ?thesis by simp
  next
    case True
    then have "rbind (f (nat ((low + high) div 2))) (\<lambda>c.
          if fits c then limit_search fits f ((low + high) div 2 + 1) high (Some c)
          else limit_search fits f low ((low + high) div 2 - 1) best) = Inr (Some c)"
      using 1(3) by (subst (asm) limit_search.simps) simp
    then obtain x where x: "f (nat ((low + high) div 2)) = Inr x"
      "(if fits x then limit_search fits f ((low + high) div 2 + 1) high (Some x)
        else limit_search fits f low ((low + high) div 2 - 1) best) = Inr (Some c)"
      unfolding rbind_Inr_iff by blast
    show ?thesis
    proof (cases "fits x")
      case fit: True
      then have "Some x = Some c \<or> (\<exists>l. f l = Inr c)" using 1(1)[OF True fit] x(2) by simp
      then show ?thesis using x(1) by blast
    next
      case False
      then show ?thesis using 1(2)[OF True False] x(2) by simp
    qed
  qed
qed

lemma key_checked_Inr [simp]: "key_checked m = Inr x \<longleftrightarrow> m = Inr x"
  by (auto simp: key_checked_def cve_def split: sum.splits if_splits)

lemma depleted_typed: "same_presentation i pr \<Longrightarrow> typed (TOpt depleted_schema) (fld ''most_depleted_window'' i)"
  by (auto simp: same_presentation_def presentation_json_def fld_def jopt_def depleted_json_def jstr_def depleted_schema_def
      split: option.splits)

lemma matches_typed:
  assumes "presentation_matches px root items = Inr x" "p \<in> set items"
  shows "typed (TOpt depleted_schema) (fld ''most_depleted_window'' (fst p))"
proof -
  obtain best where b: "limit_search fits_candidate (\<lambda>l. key_checked (presentation_candidate px root items l)) 0 4096 None = Inr best"
    "(case best of
       None \<Rightarrow> cve
     | Some (shown, _) \<Rightarrow>
         if fld ''general'' root \<noteq> general_json (general_of shown) then cve
         else if \<not> list_all (\<lambda>((i, _), s). same_presentation i (snd s)) (zip items shown) then cve
         else Inr ()) = Inr x"
    using assms(1) unfolding presentation_matches_def rbind_Inr_iff by blast
  obtain shown n where s: "best = Some (shown, n)" "list_all (\<lambda>((i, _), s). same_presentation i (snd s)) (zip items shown)"
    using b(2) by (auto split: option.splits if_splits)
  obtain l where "presentation_candidate px root items l = Inr (shown, n)"
    using limit_search_from[OF b(1)[unfolded s(1)]] by auto
  then have "length shown = length items"
    by (auto simp: presentation_candidate_def rbind_Inr_iff dest: rmap_length)
  then obtain q where "(p, q) \<in> set (zip items shown)"
    using assms(2) by (metis in_set_impl_in_set_zip1)
  then have "same_presentation (fst p) (snd q)" using s(2) by (auto simp: list_all_iff)
  then show ?thesis by (rule depleted_typed)
qed

lemma cleanup_typed: "typed error_schema cleanup_error"
  by (simp add: error_schema_def cleanup_error_def)

lemma execution_checks_error:
  assumes "execution_checks root outs = Inr x"
  shows "fld ''execution_error'' root = JNull \<or> fld ''execution_error'' root = cleanup_error"
proof (cases "fld ''execution_error'' root = JNull")
  case False
  obtain y where "rbind (safe_mapping_ordered error_fields (fld ''execution_error'' root)) (\<lambda>e.
      if JObj e \<noteq> cleanup_error \<or> fld ''execution_state'' root \<noteq> JStr (u ''execution_error'') then cve else Inr ()) = Inr y"
    using assms False unfolding execution_checks_def Let_def if_not_P[OF False]
      rbind_Inr_iff[where m = "rbind (safe_mapping_ordered _ _) _"] by blast
  then show ?thesis unfolding rbind_Inr_iff cve_if by (auto dest: safe_mapping_ordered_Inr)
qed simp

lemma validated:
  assumes "validate_document px v = Inr root"
  obtains g a b c k ps items where "safe_mapping_ordered document_fields v = Inr root"
    "safe_mapping_ordered general_fields (fld ''general'' root) = Inr g"
    "safe_text (nfc px) (fld ''compact_text'' g) 263 False = Inr a"
    "safe_text (nfc px) (fld ''alternate_text'' g) 265 False = Inr b"
    "safe_text (nfc px) (fld ''tooltip_text'' g) 8194 True = Inr c"
    "json_in (fld ''execution_state'' root) execution_states = Inr True" "fld ''providers'' root = JList ps"
    "cache_items (nfc px) [] ps = Inr items" "presentation_matches px root items = Inr ()"
    "execution_checks root (map pi_outcome (map snd items)) = Inr ()" "length ps = 2"
proof -
  obtain r g a b c k where d: "safe_mapping_ordered document_fields v = Inr r"
    "safe_mapping_ordered general_fields (fld ''general'' r) = Inr g"
    "safe_text (nfc px) (fld ''compact_text'' g) 263 False = Inr a"
    "safe_text (nfc px) (fld ''alternate_text'' g) 265 False = Inr b"
    "safe_text (nfc px) (fld ''tooltip_text'' g) 8194 True = Inr c"
    "json_in (fld ''execution_state'' r) execution_states = Inr k"
    and rest: "k" "(case fld ''providers'' r of
       JList ps \<Rightarrow>
         if length ps \<noteq> 2 then cve
         else
           rbind (cache_items (nfc px) [] ps) (\<lambda>items.
           let facts = map snd items; outs = map pi_outcome facts in
           if map pi_provider facts \<noteq> provider_order \<or> \<not> list_ex successful outs then cve
           else
             rbind (presentation_matches px r items) (\<lambda>_.
             rbind (execution_checks r outs) (\<lambda>_. Inr r)))
     | _ \<Rightarrow> cve) = Inr root"
    using assms unfolding validate_document_def rbind_Inr_iff[where m = "safe_mapping_ordered _ _"]
      rbind_Inr_iff[where m = "safe_text _ _ _ _"] rbind_Inr_iff[where m = "json_in _ _"] cve_if not_not by blast
  obtain ps where ps: "fld ''providers'' r = JList ps" using rest(2) by (cases "fld ''providers'' r") auto
  obtain items where items: "cache_items (nfc px) [] ps = Inr items" "presentation_matches px r items = Inr ()"
    "execution_checks r (map pi_outcome (map snd items)) = Inr ()" "root = r" "length ps = 2"
    using rest(2) unfolding ps by (auto simp: rbind_Inr_iff Let_def)
  show ?thesis using that d rest(1) ps items by simp
qed

lemma validated_root: "validate_document px v = Inr root \<Longrightarrow> v = JObj root"
  by (erule validated) (auto dest: safe_mapping_ordered_Inr)

lemma validate_typed:
  assumes "validate_document px v = Inr root"
  shows "typed document_schema (JObj root)"
  using assms
proof (rule validated)
  fix g a b c k ps items
  assume d: "safe_mapping_ordered document_fields v = Inr root"
    "safe_mapping_ordered general_fields (fld ''general'' root) = Inr g"
    "safe_text (nfc px) (fld ''compact_text'' g) 263 False = Inr a"
    "safe_text (nfc px) (fld ''alternate_text'' g) 265 False = Inr b"
    "safe_text (nfc px) (fld ''tooltip_text'' g) 8194 True = Inr c"
    "json_in (fld ''execution_state'' root) execution_states = Inr True" "fld ''providers'' root = JList ps"
    "cache_items (nfc px) [] ps = Inr items" "presentation_matches px root items = Inr ()"
    "execution_checks root (map pi_outcome (map snd items)) = Inr ()"
  have st: "typed TText (fld ''execution_state'' root)" using d(6) by (auto simp: json_in_def split: json.splits)
  have er: "typed (TOpt error_schema) (fld ''execution_error'' root)"
    using execution_checks_error[OF d(10)] cleanup_typed by auto
  have ge: "typed general_schema (fld ''general'' root)" unfolding general_schema_def
    by (rule mapping_typed[OF d(2)])
      (use text_facts(1)[OF d(3)] text_facts(1)[OF d(4)] text_facts(1)[OF d(5)] in \<open>simp_all add: general_fields_def del: typed.simps\<close>)
  have "typed provider_schema p" if "p \<in> set ps" for p
  proof -
    obtain n where n: "n < length ps" "ps ! n = p" using \<open>p \<in> set ps\<close> by (auto simp: in_set_conv_nth)
    then obtain seen where i: "cache_item (nfc px) seen p = Inr (items ! n)" "items ! n \<in> set items"
      using cache_items_item[OF d(8)] by fastforce
    obtain x f where x: "items ! n = (x, f)" by (cases "items ! n")
    show ?thesis using item_typed i matches_typed[OF d(9) i(2)] unfolding x by simp
  qed
  then have pr: "typed (TList provider_schema) (fld ''providers'' root)" using d(7) by (simp add: list_all_iff)
  show "typed document_schema (JObj root)"
    using mapping_typed[OF d(1), of "[(''execution_state'', TText), (''execution_error'', TOpt error_schema), (''general'', general_schema),
     (''providers'', TList provider_schema)]"] st er ge pr safe_mapping_ordered_Inr[OF d(1)]
    by (simp add: document_schema_def document_fields_def del: typed.simps)
qed

end
