(* ===== verification/CacheSample.thy ===== *)
theory CacheSample
  imports CacheTypes ProjectionFacts
begin

text \<open>
  A small document, both providers undetected, and its validation: the input the properties of the cache are applied to.
  The patterns of unsafe texts are evaluated on the folded text, word by word (\<open>unsafe_key_eval\<close>).
\<close>

section \<open>The patterns, evaluated\<close>

lemma words_eval: "map word unsafe_words = [[Lit 97, Lit 117, Lit 116, Lit 104, AnyOpt, Lit 99, Lit 111, Lit 111,
        Lit 107, Lit 105, Lit 101],
       [Lit 99, Lit 111, Lit 111, Lit 107, Lit 105, Lit 101],
       [Lit 112, Lit 97, Lit 115, Lit 115, Lit 119, Lit 111, Lit 114, Lit 100],
       [Lit 115, Lit 101, Lit 99, Lit 114, Lit 101, Lit 116],
       [Lit 99, Lit 114, Lit 101, Lit 100, Lit 101, Lit 110, Lit 116, Lit 105, Lit 97, Lit 108],
       [Lit 97, Lit 112, Lit 105, AnyOpt, Lit 107, Lit 101, Lit 121],
       [Lit 97, Lit 117, Lit 116, Lit 104, Lit 111, Lit 114, Lit 105, Lit 122, Lit 97, Lit 116, Lit 105, Lit 111, Lit 110],
       [Lit 116, Lit 114, Lit 97, Lit 99, Lit 101, Lit 98, Lit 97, Lit 99, Lit 107],
       [Lit 115, Lit 116, Lit 100, Lit 101, Lit 114, Lit 114],
       [Lit 119, Lit 111, Lit 114, Lit 107, Lit 115, Lit 112, Lit 97, Lit 99, Lit 101]]"
  "map word [''token'', ''runner''] = [[Lit 116, Lit 111, Lit 107, Lit 101, Lit 110], [Lit 114, Lit 117, Lit 110, Lit 110, Lit 101, Lit 114]]"
  by (simp_all add: unsafe_words_def word_def)


fun lit_prefix :: "pat list \<Rightarrow> ustr \<Rightarrow> bool" where
  "lit_prefix [] s = True"
| "lit_prefix (Lit p # ps) [] = False"
| "lit_prefix (Lit p # ps) (c # s) = (c = p \<and> lit_prefix ps s)"
| "lit_prefix (AnyOpt # ps) [] = lit_prefix ps []"
| "lit_prefix (AnyOpt # ps) (c # s) = (lit_prefix ps (c # s) \<or> c \<noteq> 10 \<and> lit_prefix ps s)"

fun lit_search :: "pat list \<Rightarrow> ustr \<Rightarrow> bool" where
  "lit_search ps [] = lit_prefix ps []"
| "lit_search ps (c # s) = (lit_prefix ps (c # s) \<or> lit_search ps s)"

lemma lit_prefix: "pat_prefix ps s = lit_prefix ps (map re_fold s)"
  by (induction ps s rule: pat_prefix.induct) (auto simp: re_fold_def)

lemma lit_search: "pat_search ps s = lit_search ps (map re_fold s)"
  by (induction ps s rule: pat_search.induct) (auto simp: lit_prefix)

lemma unsafe_key_eval: "unsafe_key s = list_ex (\<lambda>w. lit_search w (map re_fold s)) (map word unsafe_words @ map word [''token'', ''runner''])"
  "unsafe_value s = (list_ex (\<lambda>w. lit_search w (map re_fold s)) (map word unsafe_words) \<or> path_like s)"
  by (auto simp: unsafe_key_def unsafe_value_def list_ex_iff lit_search)

lemma unsafe_fields: "\<not> list_ex unsafe_key (map u (document_fields @ general_fields @ provider_fields))"
  unfolding document_fields_def general_fields_def provider_fields_def append.simps list.map u_Cons u_Nil
  unfolding unsafe_key_eval words_eval by (simp add: re_fold_def)
section \<open>The document\<close>

lemmas [run] = cache_schema_def cache_ttl_us_def max_cache_bytes_def max_cache_document_bytes_def max_cache_fingerprint_def provider_fields_def
  cache_window_fields_def quantity_fields_def depleted_fields_def error_fields_def general_fields_def document_fields_def re_fold_def
  word_def path_like_def cve_def checked_def checked_arith_def is_arithmetic_def
  safe_mapping_ordered_def safe_mapping_set_def unsafe_char_def safe_text_def required_text_def optional_text_def cache_timestamp_def
  decimal_shape_def cache_quantity_def json_str_def json_opt_def pwindow_of_json_def source_allowed_def window_consistent_def
  cache_window_def json_in_def snapshot_text_fields_def cacheable_reasons_def cache_resets_def slots_ok_def item_times_def
  cache_snapshot_item_def blank_fields_def cache_other_item_def item_texts_def cache_item_def public_document_json_def update_item_def
  presentation_candidate_def fits_candidate_def key_checked_def same_presentation_def execution_states_def cleanup_error_def
  execution_checks_def

definition not_detected :: ustr where "not_detected = u ''Provider not detected''"

definition sample_presentation :: "ustr \<Rightarrow> presentation" where
  "sample_presentation name = \<lparr>pr_most_depleted = None, pr_compact = em_dash, pr_alternate = not_detected,
     pr_tooltip = name @ [10] @ not_detected\<rparr>"

definition sample_shown :: "shown list" where
  "sample_shown = [(blank_item Codex OUndetected, sample_presentation (u ''Codex'')),
     (blank_item OpencodeGo OUndetected, sample_presentation (u ''OpenCode Go''))]"

definition sample_general :: general where
  "sample_general = general_of sample_shown"

definition sample_root :: jobj where
  "sample_root = [(u ''execution_state'', JStr (u ''complete'')), (u ''execution_error'', JNull),
     (u ''general'', general_json sample_general), (u ''providers'', JList (map shown_json sample_shown))]"

lemmas sample_eval = run unsafe_key_eval words_eval

lemma mapping_eval: "map fst d = map u fs \<Longrightarrow> \<not> list_ex unsafe_key (map u fs) \<Longrightarrow> safe_mapping_ordered fs (JObj d) = Inr d"
proof -
  assume a: "map fst d = map u fs" "\<not> list_ex unsafe_key (map u fs)"
  have "list_ex (\<lambda>(k, _). unsafe_key k) d = list_ex unsafe_key (map fst d)" by (simp add: list_ex_iff split_def)
  then show ?thesis using a by (simp add: safe_mapping_ordered_def)
qed

lemma sample_fields: "\<not> list_ex unsafe_key (map u document_fields)" "\<not> list_ex unsafe_key (map u general_fields)"
  "\<not> list_ex unsafe_key (map u provider_fields)"
  using unsafe_fields by simp_all

lemma text_eval: "length s \<le> n \<Longrightarrow> list_all (\<lambda>c. \<not> unsafe_char m c) s \<Longrightarrow> \<not> unsafe_value s \<Longrightarrow>
    safe_text (\<lambda>s. s) (JStr s) n m = Inr s"
  by (auto simp: safe_text_def list_all_iff list_ex_iff cve_def)

lemma sample_present: "present px l (blank_item Codex OUndetected) = Inr (hd sample_shown)"
  "present px l (blank_item OpencodeGo OUndetected) = Inr (hd (tl sample_shown))"
  by (simp_all add: run sample_shown_def sample_presentation_def not_detected_def)

lemma sample_general_eval: "sample_general = \<lparr>g_compact = [67, 61, 8212, 32, 183, 32, 79, 61, 8212],
    g_alternate = u ''C: '' @ not_detected @ middle_dot @ u ''O: '' @ not_detected,
    g_tooltip = u ''Codex'' @ [10] @ not_detected @ [10, 10] @ u ''OpenCode Go'' @ [10] @ not_detected\<rparr>"
  by (simp add: run sample_general_def sample_shown_def sample_presentation_def not_detected_def)

lemma safe_texts: "list_all (\<lambda>(s, m). \<not> unsafe_value s \<and> list_all (\<lambda>c. \<not> unsafe_char m c) s)
    [(em_dash, False), (not_detected, False), (u ''Codex'' @ [10] @ not_detected, True), (u ''OpenCode Go'' @ [10] @ not_detected, True),
     (g_compact sample_general, False), (g_alternate sample_general, False), (g_tooltip sample_general, True)]"
  unfolding sample_general_eval
  by (simp add: not_detected_def em_dash_def middle_dot_def u_Cons unsafe_char_def surrogate_def,
      simp only: unsafe_key_eval words_eval, simp add: re_fold_def path_like_def)

lemma sample_text:
  "safe_text (\<lambda>s. s) (JStr em_dash) 128 False = Inr em_dash"
  "safe_text (\<lambda>s. s) (JStr not_detected) 128 False = Inr not_detected"
  "safe_text (\<lambda>s. s) (JStr (u ''Codex'' @ [10] @ not_detected)) 4096 True = Inr (u ''Codex'' @ [10] @ not_detected)"
  "safe_text (\<lambda>s. s) (JStr (u ''OpenCode Go'' @ [10] @ not_detected)) 4096 True = Inr (u ''OpenCode Go'' @ [10] @ not_detected)"
  "safe_text (\<lambda>s. s) (JStr (g_compact sample_general)) 263 False = Inr (g_compact sample_general)"
  "safe_text (\<lambda>s. s) (JStr (g_alternate sample_general)) 265 False = Inr (g_alternate sample_general)"
  "safe_text (\<lambda>s. s) (JStr (g_tooltip sample_general)) 8194 True = Inr (g_tooltip sample_general)"
  by (rule text_eval; use safe_texts in \<open>simp add: sample_general_eval em_dash_def not_detected_def middle_dot_def\<close>)+

text \<open>The two items.\<close>

definition sample_item :: "provider_key \<Rightarrow> jobj" where
  "sample_item p = facts_json (blank_item p OUndetected)
     @ presentation_json (sample_presentation (if p = Codex then u ''Codex'' else u ''OpenCode Go''))"

lemma sample_item_fields: "safe_mapping_ordered provider_fields (JObj (sample_item p)) = Inr (sample_item p)"
  by (rule mapping_eval[OF _ sample_fields(3)])
    (simp add: sample_item_def facts_json_def presentation_json_def provider_fields_def)

lemma sample_fld:
  "fld ''provider'' (sample_item p) = JStr (pk_value p)" "fld ''outcome'' (sample_item p) = JStr (u ''undetected'')"
  "f \<in> set snapshot_text_fields \<Longrightarrow> fld f (sample_item p) = JNull" "fld ''source_id'' (sample_item p) = JNull"
  "fld ''windows'' (sample_item p) = JList []" "fld ''rate_limit_reset_credits'' (sample_item p) = JNull"
  "fld ''execution_error'' (sample_item p) = JNull" "fld ''not_run_reason'' (sample_item p) = JNull"
  "fld ''most_depleted_window'' (sample_item p) = JNull" "fld ''compact_text'' (sample_item p) = JStr em_dash"
  "fld ''alternate_text'' (sample_item p) = JStr not_detected"
  "fld ''tooltip_text'' (sample_item p) = JStr ((if p = Codex then u ''Codex'' else u ''OpenCode Go'') @ [10] @ not_detected)"
  by (auto simp: sample_item_def facts_json_def presentation_json_def sample_presentation_def blank_item_def fld_def dict_get_def
      jstr_def jopt_def snapshot_text_fields_def)

lemma sample_item_ok:
  assumes "p \<notin> set seen"
  shows "cache_item (\<lambda>s. s) seen (JObj (sample_item p)) = Inr (sample_item p, blank_item p OUndetected)"
proof -
  have t: "item_texts (\<lambda>s. s) (sample_item p) = Inr ()"
    using sample_text by (cases p) (simp_all add: item_texts_def sample_fld nullable_def)
  have r: "rmap (\<lambda>f. optional_text (fld f (sample_item p))) snapshot_text_fields = Inr (map (\<lambda>_. None) snapshot_text_fields)"
    by (rule rmap_Inr) (simp add: sample_fld optional_text_def)
  have b: "blank_fields (sample_item p)" by (simp add: blank_fields_def sample_fld list_all_iff)
  have n: "checked (Inr x) = Inr x" "optional_text JNull = Inr None" "required_text (JStr y) = Inr y" for x :: 'x and y
    by (simp_all add: checked_def optional_text_def required_text_def)
  have e: "enum_value pk_members pk_value (JStr (pk_value p)) = Inr p" "enum_value po_members po_value (JStr (u ''undetected'')) = Inr OUndetected"
    by (cases p; simp add: enum_value_def enum_of_def pk_members_def po_members_def)+
  show ?thesis
    using assms t r b unfolding cache_item_def sample_item_fields rbind_simps
    by (simp add: sample_fld(1,2,4-8) e n source_allowed_def cache_resets_def nullable_def cache_other_item_def)
qed


section \<open>The validation\<close>

lemma sample_items: "map shown_json sample_shown = map (\<lambda>p. JObj (sample_item p)) provider_order"
  by (simp add: sample_shown_def sample_item_def shown_json_def provider_order_def)

lemma sample_candidate:
  "presentation_candidate px root [(sample_item Codex, blank_item Codex OUndetected), (sample_item OpencodeGo, blank_item OpencodeGo OUndetected)] l
   = presentation_candidate px root [(sample_item Codex, blank_item Codex OUndetected), (sample_item OpencodeGo, blank_item OpencodeGo OUndetected)] 0"
  by (simp add: presentation_candidate_def sample_present)

lemma update_same: "same_presentation i pr \<Longrightarrow> distinct (map fst i) \<Longrightarrow> update_item i pr = i"
proof -
  have p: "dict_get k d = Some v \<Longrightarrow> distinct (map fst d) \<Longrightarrow> dict_put k v d = d" for k v and d :: jobj
    by (induction k v d rule: dict_put.induct) (auto simp: dict_get_def split: if_splits dest: map_of_SomeD)
  show "same_presentation i pr \<Longrightarrow> distinct (map fst i) \<Longrightarrow> update_item i pr = i"
    by (simp add: update_item_def same_presentation_def presentation_json_def p)
qed

lemma sample_encoded: "\<exists>b. encode_json (JObj sample_root) = Inr b \<and> length b \<le> max_cache_document_bytes"
proof -
  have "encode_json (JObj sample_root) \<noteq> Inl e" for e
    by (simp add: run sample_root_def sample_general_eval not_detected_def sample_shown_def sample_presentation_def blank_item_def
        general_json_def shown_json_def facts_json_def presentation_json_def cong: run_cong)
  moreover have "case encode_json (JObj sample_root) of Inr b \<Rightarrow> length b \<le> 65536 | Inl _ \<Rightarrow> True"
    by (simp add: run sample_root_def sample_general_eval not_detected_def sample_shown_def sample_presentation_def blank_item_def
        general_json_def shown_json_def facts_json_def presentation_json_def cong: run_cong)
  ultimately show ?thesis by (cases "encode_json (JObj sample_root)") (auto simp: max_cache_document_bytes_def)
qed

definition sample_bytes :: bytes where
  "sample_bytes = (case encode_json (JObj sample_root) of Inr b \<Rightarrow> b | Inl _ \<Rightarrow> [])"

lemma sample_bytes: "encode_json (JObj sample_root) = Inr sample_bytes" "length sample_bytes \<le> max_cache_document_bytes"
  using sample_encoded by (auto simp: sample_bytes_def)

lemma limit_search_const: "fits c \<Longrightarrow> limit_search fits (\<lambda>_. Inr c) 0 4096 None = Inr (Some c)"
  using limit_search_spec[of 0 4096 "\<lambda>_. Inr c" "\<lambda>_. c" fits None] by auto

lemma sample_public: "public_document_json (JObj sample_root) = Inr sample_bytes"
proof -
  have "map (\<lambda>k. (u k, fld k sample_root)) document_fields = sample_root"
    by (simp add: document_fields_def sample_root_def fld_def dict_get_def)
  moreover have "list_all (\<lambda>k. u k \<in> fst ` set sample_root) document_fields"
    by (simp add: document_fields_def sample_root_def)
  ultimately show ?thesis using sample_bytes(1) by (simp add: public_document_json_def)
qed

lemma sample_items_same: "same_presentation (sample_item p) (sample_presentation (if p = Codex then u ''Codex'' else u ''OpenCode Go''))"
  "distinct (map fst (sample_item p))"
  by (simp_all add: same_presentation_def sample_item_def presentation_json_def facts_json_def dict_get_def sample_presentation_def jopt_def)

lemma sample_matches: "presentation_matches px sample_root
    [(sample_item Codex, blank_item Codex OUndetected), (sample_item OpencodeGo, blank_item OpencodeGo OUndetected)] = Inr ()"
proof -
  let ?items = "[(sample_item Codex, blank_item Codex OUndetected), (sample_item OpencodeGo, blank_item OpencodeGo OUndetected)]"
  have u: "update_item (sample_item Codex) (sample_presentation (u ''Codex'')) = sample_item Codex"
    "update_item (sample_item OpencodeGo) (sample_presentation (u ''OpenCode Go'')) = sample_item OpencodeGo"
    using update_same[OF sample_items_same(1,2), of Codex] update_same[OF sample_items_same(1,2), of OpencodeGo] by simp_all
  have r: "[(u ''execution_state'', fld ''execution_state'' sample_root), (u ''execution_error'', fld ''execution_error'' sample_root),
      (u ''general'', general_json (general_of sample_shown)), (u ''providers'', JList [JObj (sample_item Codex), JObj (sample_item OpencodeGo)])] = sample_root"
    using sample_items by (simp add: sample_root_def fld_def dict_get_def sample_general_def provider_order_def)
  have c: "presentation_candidate px sample_root ?items l = Inr (sample_shown, length sample_bytes)" for l
    using u sample_public r by (simp add: presentation_candidate_def sample_present) (simp add: sample_shown_def)
  have g: "fld ''general'' sample_root = general_json (general_of sample_shown)"
    by (simp add: sample_root_def fld_def dict_get_def sample_general_def)
  have k: "key_checked (Inr x) = Inr x" for x :: 'x by (simp add: key_checked_def)
  have s: "list_all (\<lambda>((i, _), s). same_presentation i (snd s)) (zip ?items sample_shown)"
    using sample_items_same(1)[of Codex] sample_items_same(1)[of OpencodeGo] by (simp add: sample_shown_def)
  show ?thesis
    unfolding presentation_matches_def c k
    by (subst limit_search_const) (use sample_bytes(2) g s in \<open>auto simp: fits_candidate_def\<close>)
qed

lemma sample_validates: "validate_document (px\<lparr>nfc := (\<lambda>s. s)\<rparr>) (JObj sample_root) = Inr sample_root"
proof -
  have r: "safe_mapping_ordered document_fields (JObj sample_root) = Inr sample_root"
    by (rule mapping_eval[OF _ sample_fields(1)]) (simp add: document_fields_def sample_root_def)
  obtain g where g: "fld ''general'' sample_root = JObj g" "map fst g = map u general_fields"
    "fld ''compact_text'' g = JStr (g_compact sample_general)" "fld ''alternate_text'' g = JStr (g_alternate sample_general)"
    "fld ''tooltip_text'' g = JStr (g_tooltip sample_general)"
    by (simp add: sample_root_def fld_def dict_get_def general_json_def general_fields_def)
  have f: "fld ''execution_state'' sample_root = JStr (u ''complete'')" "fld ''execution_error'' sample_root = JNull"
    "fld ''providers'' sample_root = JList (map (\<lambda>p. JObj (sample_item p)) provider_order)"
    using sample_items by (simp_all add: sample_root_def fld_def dict_get_def)
  have i: "cache_items (\<lambda>s. s) [] (map (\<lambda>p. JObj (sample_item p)) provider_order) =
      Inr [(sample_item Codex, blank_item Codex OUndetected), (sample_item OpencodeGo, blank_item OpencodeGo OUndetected)]"
    by (simp add: provider_order_def sample_item_ok blank_item_def)
  have j: "json_in (JStr (u ''complete'')) execution_states = Inr True" by (simp add: json_in_def execution_states_def)
  have x: "execution_checks sample_root [OUndetected, OUndetected] = Inr ()"
    by (simp add: execution_checks_def Let_def f successful_def)
  show ?thesis
    unfolding validate_document_def r rbind_simps g(1) mapping_eval[OF g(2) sample_fields(2)]
    by (simp add: g sample_text f j i sample_matches)
      (simp add: x provider_order_def blank_item_def successful_def)
qed

end
