(* ===== verification/CacheStore.thy ===== *)
theory CacheStore
  imports CacheSample Effects Deadline
begin

text \<open>
  \<open>cache.py\<close>, the cache file: the envelope around a document, publishing one and loading it. The files are outside; a
  bounded call of \<open>_cache_read_child\<close> or \<open>_cache_write_child\<close> is a call of the world named \<open>cache_read\<close> or \<open>cache_write\<close>.

  \<^item> \<open>ce_inflate\<close> stands for a \<open>zlib.decompressobj\<close> fed with the bytes of the child, up to \<open>max_cache_bytes + 1\<close> of output.
  \<^item> The clock \<open>now\<close> answers with an integer for an aware \<open>datetime\<close>, the microseconds of its UTC reading; any other answer
    is not an aware \<open>datetime\<close>.
\<close>

section \<open>The envelope\<close>

record inflated =
  if_data :: bytes
  if_eof :: bool
  if_unused :: bytes
  if_tail :: bytes

record cache_env =
  ce_platform :: platform
  ce_fingerprint :: ustr
  ce_path :: ustr
  ce_inflate :: "bytes \<Rightarrow> inflated option"

definition max_cache_transport :: nat where
  "max_cache_transport = max_cache_bytes + max_cache_bytes div 1000 + 64"

definition cache_io_failed :: py_exn where
  "cache_io_failed = FileError ''cache I/O failed''"

definition cache_hooks :: json_hooks where
  "cache_hooks = strict_hooks CacheValidationError CacheValidationError"

definition read_json :: "bytes \<Rightarrow> py_exn + json" where
  "read_json b = rbind (utf8_decode b) (loads cache_hooks)"

definition envelope_fields :: "string list" where
  "envelope_fields = [''schema'', ''cached_at'', ''fingerprint'', ''document'']"

definition cache_envelope_json :: "json \<Rightarrow> py_exn + bytes" where
  "cache_envelope_json v = (case v of
     JObj d \<Rightarrow>
       if list_all (\<lambda>k. u k \<in> fst ` set d) envelope_fields
       then encode_json (JObj (map (\<lambda>k. (u k, fld k d)) envelope_fields))
       else Inl KeyError
   | _ \<Rightarrow> Inl (TypeError ''indices''))"

definition envelope :: "cache_env \<Rightarrow> int \<Rightarrow> jobj \<Rightarrow> json" where
  "envelope e t root = JObj [(u ''schema'', JInt cache_schema), (u ''cached_at'', JStr (stamp_text t)),
     (u ''fingerprint'', JStr (ce_fingerprint e)), (u ''document'', JObj root)]"

text \<open>\<open>_decompress_cache_transport\<close>: one complete stream of a bounded size, with nothing after it.\<close>

definition decompress_transport :: "cache_env \<Rightarrow> val \<Rightarrow> py_exn + bytes" where
  "decompress_transport e v = (case v of
     VBytes b \<Rightarrow>
       if max_cache_transport < length b then Inl cache_io_failed
       else (case ce_inflate e b of
         None \<Rightarrow> Inl cache_io_failed
       | Some i \<Rightarrow>
           if max_cache_bytes < length (if_data i) \<or> \<not> if_eof i \<or> if_unused i \<noteq> [] \<or> if_tail i \<noteq> []
           then Inl cache_io_failed else Inr (if_data i))
   | _ \<Rightarrow> Inl cache_io_failed)"

section \<open>Bounded calls\<close>

definition usable :: "deadline \<Rightarrow> ('o, int) prog" where
  "usable c = bind clock_ns (\<lambda>now. ret (usable_ns c now))"

definition bounded_call :: "deadline \<Rightarrow> ('o, 'a) prog \<Rightarrow> ('o, 'a) prog" where
  "bounded_call c m =
     bind (usable c) (\<lambda>n.
     if n \<le> 0 then fail (DeadlineError ''cache deadline exhausted'')
     else catch m (\<lambda>e. if is_FileError e then fail e else fail cache_io_failed))"

definition cache_read :: "cache_env \<Rightarrow> deadline \<Rightarrow> ('o, bytes) prog" where
  "cache_read e c = bounded_call c (bind (ext (''cache_read'', [VStr (ce_path e)])) (\<lambda>v. lift_result (decompress_transport e v)))"

definition cache_write :: "cache_env \<Rightarrow> bytes \<Rightarrow> deadline \<Rightarrow> ('o, val) prog" where
  "cache_write e b c = bounded_call c (ext (''cache_write'', [VStr (ce_path e), VBytes b]))"

definition wall_clock :: "('o, int option) prog" where
  "wall_clock = bind (ext (''now'', [])) (\<lambda>v. case v of
     VInt t \<Rightarrow> if in_range t then ret (Some t) else fail OverflowError
   | _ \<Rightarrow> ret None)"

section \<open>Loading\<close>

text \<open>\<open>value["schema"] != CACHE_SCHEMA\<close>: a float of the same value is equal.\<close>

definition json_is_int :: "json \<Rightarrow> int \<Rightarrow> bool" where
  "json_is_int v n = (case v of JInt i \<Rightarrow> i = n | JBool b \<Rightarrow> of_bool b = n | JFloat f \<Rightarrow> float_eq_int f n | _ \<Rightarrow> False)"

definition envelope_current :: "cache_env \<Rightarrow> jobj \<Rightarrow> bool" where
  "envelope_current e d \<longleftrightarrow> json_is_int (fld ''schema'' d) cache_schema \<and> fld ''fingerprint'' d = JStr (ce_fingerprint e)
     \<and> length (ce_fingerprint e) = max_cache_fingerprint"

definition within_ttl :: "int \<Rightarrow> int \<Rightarrow> bool" where
  "within_ttl cached now \<longleftrightarrow> 0 \<le> now - cached \<and> now - cached \<le> cache_ttl_us"

definition load_body :: "cache_env \<Rightarrow> bytes \<Rightarrow> ('o, bytes option) prog" where
  "load_body e raw =
     (if max_cache_bytes < length raw then ret None
      else
        bind (lift_result (read_json raw)) (\<lambda>env.
        bind (lift_result (cache_envelope_json env)) (\<lambda>canonical.
        if raw \<noteq> canonical then ret None
        else
          bind (lift_result (safe_mapping_set envelope_fields env)) (\<lambda>value.
          if \<not> envelope_current e value then ret None
          else
            bind (lift_result (cache_timestamp (fld ''cached_at'' value))) (\<lambda>cached.
            bind wall_clock (\<lambda>now.
            case now of
              None \<Rightarrow> ret None
            | Some t \<Rightarrow>
                if \<not> within_ttl cached t then ret None
                else
                  bind (lift_result (validate_document (ce_platform e) (fld ''document'' value))) (\<lambda>doc.
                  bind (lift_result (public_document_json (JObj doc))) (\<lambda>encoded.
                  if max_cache_document_bytes < length encoded then ret None else ret (Some encoded)))))))))"

definition load :: "cache_env \<Rightarrow> deadline \<Rightarrow> ('o, bytes option) prog" where
  "load e c = catch (bind (cache_read e c) (load_body e)) (\<lambda>_. ret None)"

section \<open>Publishing\<close>

definition transient_reasons :: "ustr list" where
  "transient_reasons = [u ''deadline_exhausted'', u ''guard_wait_timeout'']"

definition transient_item :: "json \<Rightarrow> bool" where
  "transient_item v = (case v of
     JObj i \<Rightarrow> fld ''outcome'' i = JStr (u ''not_run'') \<and> fld ''not_run_reason'' i \<in> set (map JStr transient_reasons)
   | _ \<Rightarrow> False)"

definition has_transient :: "jobj \<Rightarrow> bool" where
  "has_transient root = (case fld ''providers'' root of JList ps \<Rightarrow> list_ex transient_item ps | _ \<Rightarrow> False)"

definition publish :: "cache_env \<Rightarrow> bytes \<Rightarrow> deadline \<Rightarrow> ('o, bool) prog" where
  "publish e b c =
     catch
      (if max_cache_document_bytes < length b then ret False
       else
         bind (lift_result (read_json b)) (\<lambda>doc.
         if b = [] \<or> last b \<noteq> 10 then ret False
         else
           bind (lift_result (validate_document (ce_platform e) doc)) (\<lambda>root.
           if fld ''execution_error'' root \<noteq> JNull then ret False
           else if has_transient root then ret False
           else
             bind (lift_result (public_document_json (JObj root))) (\<lambda>canonical.
             if b \<noteq> canonical \<or> max_cache_document_bytes < length canonical then ret False
             else
               bind wall_clock (\<lambda>now.
               case now of
                 None \<Rightarrow> ret False
               | Some t \<Rightarrow>
                   bind (lift_result (cache_envelope_json (envelope e t root))) (\<lambda>env.
                   if max_cache_bytes < length env then ret False
                   else catch (andthen (cache_write e env c) (ret True)) (\<lambda>_. ret False)))))))
      (\<lambda>_. ret False)"

lemmas [run] = max_cache_transport_def cache_io_failed_def cache_hooks_def read_json_def envelope_fields_def cache_envelope_json_def
  envelope_def decompress_transport_def usable_def bounded_call_def cache_read_def cache_write_def wall_clock_def json_is_int_def
  envelope_current_def within_ttl_def load_body_def load_def transient_reasons_def transient_item_def has_transient_def publish_def

section \<open>The calls\<close>

lemma usable_calls [calls_intros]: "''clock_ns'' \<in> N \<Longrightarrow> calls N (usable c)"
  unfolding usable_def by (intro calls_intros)

lemma bounded_calls [calls_intros]: "''clock_ns'' \<in> N \<Longrightarrow> calls N m \<Longrightarrow> calls N (bounded_call c m)"
  unfolding bounded_call_def by (intro calls_intros) auto

lemma wall_calls [calls_intros]: "''now'' \<in> N \<Longrightarrow> calls N wall_clock"
  unfolding wall_clock_def by (intro calls_intros) auto

lemma load_calls: "calls {''clock_ns'', ''now'', ''cache_read''} (load e c)"
  unfolding load_def cache_read_def load_body_def by (intro calls_intros) auto

lemma publish_calls: "calls {''clock_ns'', ''now'', ''cache_write''} (publish e b c)"
  unfolding publish_def cache_write_def by (intro calls_intros) auto

section \<open>What publishing and loading do\<close>

text \<open>What a successful publication did.\<close>

definition published :: "cache_env \<Rightarrow> bytes \<Rightarrow> world \<Rightarrow> world \<Rightarrow> jobj \<Rightarrow> int \<Rightarrow> bytes \<Rightarrow> bool" where
  "published e b w w' root t env \<longleftrightarrow>
     validate_document (ce_platform e) (JObj root) = Inr root \<and> read_json b = Inr (JObj root) \<and> public_document_json (JObj root) = Inr b
     \<and> length b \<le> max_cache_document_bytes \<and> fld ''execution_error'' root = JNull \<and> \<not> has_transient root
     \<and> cache_envelope_json (envelope e t root) = Inr env \<and> length env \<le> max_cache_bytes \<and> in_range t
     \<and> since w w' ''now'' [] (\<lambda>v. v = VInt t) \<and> since w w' ''cache_write'' [VStr (ce_path e), VBytes env] (\<lambda>_. True)"

lemma wall_clock_wp [wp_simps]: "wp wall_clock Q E s = (case answer_of (''now'', []) (snd s) of
     Inr (VInt t) \<Rightarrow> if in_range t then Q (Some t) (fst s, logged (''now'', []) (snd s)) else E OverflowError (fst s, logged (''now'', []) (snd s))
   | Inr _ \<Rightarrow> Q None (fst s, logged (''now'', []) (snd s)) | Inl e \<Rightarrow> E e (fst s, logged (''now'', []) (snd s)))"
  by (auto simp: wall_clock_def wp_simps split: sum.split val.split)

lemma usable_wp: "wp (usable c) (\<lambda>_ t. fst t = fst s \<and> (\<exists>q. snd t = logged (''clock_ns'', q) (snd s)))
    (\<lambda>_ t. fst t = fst s \<and> (\<exists>q. snd t = logged (''clock_ns'', q) (snd s))) s"
  by (auto simp: usable_def wp_simps split: sum.split)

lemma cache_write_wp:
  assumes "extends w (snd s)"
  shows "wp (cache_write e b c) (\<lambda>_ t. extends (snd s) (snd t) \<and> since w (snd t) ''cache_write'' [VStr (ce_path e), VBytes b] (\<lambda>_. True))
     (\<lambda>_ _. True) s"
  using assms by (auto simp: cache_write_def bounded_call_def usable_def wp_simps since_recent split: sum.split)

lemma validated_self: "validate_document px v = Inr r \<Longrightarrow> validate_document px (JObj r) = Inr r"
  using validated_root by blast

lemma publish_wp: "wp (publish e b c) (\<lambda>r s. r \<longrightarrow> (\<exists>root t env. published e b w (snd s) root t env)) (\<lambda>_ _. False) (x, w)"
proof -
  have wr: "wp (catch (andthen (cache_write e env c) (ret True)) (\<lambda>_. ret False))
      (\<lambda>r s. r \<longrightarrow> (\<exists>root t env. published e b w (snd s) root t env))
      (\<lambda>_. wp (ret False) (\<lambda>r s. r \<longrightarrow> (\<exists>root t env. published e b w (snd s) root t env)) (\<lambda>_ _. False)) (x, logged (''now'', []) w)"
    if "validate_document (ce_platform e) doc = Inr root" "read_json b = Inr doc" "public_document_json (JObj root) = Inr b"
      "length b \<le> max_cache_document_bytes" "fld ''execution_error'' root = JNull" "\<not> has_transient root"
      "cache_envelope_json (envelope e t root) = Inr env" "length env \<le> max_cache_bytes" "in_range t"
      "answer_of (''now'', []) w = Inr (VInt t)" for doc root t env
    unfolding wp_catch wp_andthen wp_ret
  proof (rule wp_mono[OF cache_write_wp[of w]], simp, intro impI, goal_cases)
    case (1 r s)
    have "since w (snd s) ''now'' [] (\<lambda>v. v = VInt t)"
      by (rule since_grows[of w "logged (''now'', []) w"]) (use 1 that(10) in simp_all)
    then show ?case
      using that 1 validated_root[OF that(1)] unfolding published_def by (intro exI[of _ root] exI[of _ t] exI[of _ env]) simp
  qed (simp_all add: wp_ret)
  show ?thesis
    unfolding publish_def wp_catch
    by (auto simp: wp_bind wp_lift wp_ret wp_if wall_clock_wp wp_option wp_fail intro!: wr split: sum.split val.split option.split)
qed

lemma wp_any: "(\<And>r t. Q r t) \<Longrightarrow> (\<And>e t. E e t) \<Longrightarrow> wp m Q E s"
  by (auto simp: wp_def split: prod.split sum.split)

lemma load_wp: "wp (load e c) (\<lambda>r _. \<forall>b. r = Some b \<longrightarrow> (\<exists>root. validate_document (ce_platform e) (JObj root) = Inr root
     \<and> public_document_json (JObj root) = Inr b \<and> length b \<le> max_cache_document_bytes)) (\<lambda>_ _. False) s"
proof -
  have body: "wp (load_body e raw) (\<lambda>r _. \<forall>b. r = Some b \<longrightarrow> (\<exists>root. validate_document (ce_platform e) (JObj root) = Inr root
     \<and> public_document_json (JObj root) = Inr b \<and> length b \<le> max_cache_document_bytes)) (\<lambda>_ _. True) t" for raw t
    unfolding load_body_def
    by (auto simp: wp_bind wp_lift wp_ret wp_if wall_clock_wp wp_option split: sum.split val.split option.split dest: validated_self)
  have read: "wp (bind (cache_read e c) (load_body e)) (\<lambda>r _. \<forall>b. r = Some b \<longrightarrow> (\<exists>root. validate_document (ce_platform e) (JObj root) = Inr root
     \<and> public_document_json (JObj root) = Inr b \<and> length b \<le> max_cache_document_bytes)) (\<lambda>_ _. True) s"
    unfolding wp_bind by (rule wp_any) (rule body, simp)
  show ?thesis
    unfolding load_def wp_catch by (rule wp_mono[OF read]) (simp_all add: wp_ret)
qed

text \<open>The envelope that was written is read back as it was.\<close>

lemma cache_hooks_ok [simp]: "hook_ok cache_hooks"
  by (simp add: cache_hooks_def)

lemma envelope_read:
  assumes "cache_envelope_json (envelope e t root) = Inr env" "validate_document px (JObj root) = Inr root"
  shows "read_json env = Inr (envelope e t root)"
proof -
  have "encode_json (envelope e t root) = Inr env"
    using assms(1) by (simp add: cache_envelope_json_def envelope_def envelope_fields_def fld_def dict_get_def)
  then obtain s where s: "dumps_strict (compact False) (envelope e t root) = Inr s" "utf8_encode (s @ [10]) = Inr env"
    by (auto simp: encode_json_def rbind_Inr_iff)
  have "json_plain (envelope e t root)"
    using typed_plain[OF validate_typed[OF assms(2)] document_schema_ok] by (simp add: envelope_def)
  then show ?thesis
    unfolding read_json_def by (intro read_written[OF s]) (auto simp: json_ws_def)
qed

lemma envelope_canonical:
  assumes "cache_envelope_json (envelope e t root) = Inr env"
  shows "encode_json (envelope e t root) = Inr env"
  using assms by (simp add: cache_envelope_json_def envelope_def envelope_fields_def fld_def dict_get_def)

lemma envelope_mapping: "safe_mapping_set envelope_fields (envelope e t root) =
    Inr [(u ''schema'', JInt cache_schema), (u ''cached_at'', JStr (stamp_text t)), (u ''fingerprint'', JStr (ce_fingerprint e)), (u ''document'', JObj root)]"
proof -
  have k: "\<not> unsafe_key (u ''schema'')" "\<not> unsafe_key (u ''cached_at'')" "\<not> unsafe_key (u ''fingerprint'')" "\<not> unsafe_key (u ''document'')"
    unfolding u_Cons u_Nil unsafe_key_eval words_eval by (simp_all add: re_fold_def)
  show ?thesis using k by (auto simp: safe_mapping_set_def envelope_def envelope_fields_def)
qed

lemma load_body_published:
  assumes "published e b w w' root t env" "length (ce_fingerprint e) = max_cache_fingerprint"
    "answer_of (''now'', []) v = Inr (VInt now)" "in_range now"
  shows "load_body e env (y, v) = (Inr (if within_ttl t now then Some b else None), (y, logged (''now'', []) v))"
proof -
  note p = assms(1)[unfolded published_def]
  have r: "read_json env = Inr (envelope e t root)" using envelope_read p by blast
  have c: "cache_envelope_json (envelope e t root) = Inr env" using p by blast
  have st: "cache_timestamp (JStr (stamp_text t)) = Inr t" using p by (simp add: cache_timestamp_def stamp_parse_text)
  have cu: "envelope_current e [(u ''schema'', JInt cache_schema), (u ''cached_at'', JStr (stamp_text t)), (u ''fingerprint'', JStr (ce_fingerprint e)),
      (u ''document'', JObj root)]"
    using assms(2) by (simp add: envelope_current_def json_is_int_def fld_def dict_get_def)
  have f: "fld ''cached_at'' [(u ''schema'', JInt cache_schema), (u ''cached_at'', JStr (stamp_text t)), (u ''fingerprint'', JStr (ce_fingerprint e)),
      (u ''document'', JObj root)] = JStr (stamp_text t)"
    "fld ''document'' [(u ''schema'', JInt cache_schema), (u ''cached_at'', JStr (stamp_text t)), (u ''fingerprint'', JStr (ce_fingerprint e)),
      (u ''document'', JObj root)] = JObj root"
    by (simp_all add: fld_def dict_get_def)
  show ?thesis
    using p assms(3,4) by (simp add: load_body_def r c envelope_mapping cu f st bind_def lift_result_def ret_def wall_clock_def ext_def)
qed

section \<open>Properties\<close>

text \<open>What a read of the file answers: the deadline is not over, the child gives a stream that decompresses to the bytes.\<close>

definition read_answers :: "cache_env \<Rightarrow> deadline \<Rightarrow> bytes \<Rightarrow> int \<Rightarrow> world \<Rightarrow> bool" where
  "read_answers e c raw now v \<longleftrightarrow>
     (\<exists>k z. answer_of (''clock_ns'', []) v = Inr (VInt k) \<and> 0 < usable_ns c k
        \<and> answer_of (''cache_read'', [VStr (ce_path e)]) (logged (''clock_ns'', []) v) = Inr z \<and> decompress_transport e z = Inr raw
        \<and> answer_of (''now'', []) (logged (''cache_read'', [VStr (ce_path e)]) (logged (''clock_ns'', []) v)) = Inr (VInt now) \<and> in_range now)"

lemma load_reads:
  assumes "read_answers e c raw now v"
  shows "\<exists>v'. load e c (y, v) = catch (load_body e raw) (\<lambda>_. ret None) (y, v') \<and> answer_of (''now'', []) v' = Inr (VInt now) \<and> in_range now"
proof -
  let ?v = "logged (''cache_read'', [VStr (ce_path e)]) (logged (''clock_ns'', []) v)"
  have "load e c (y, v) = catch (load_body e raw) (\<lambda>_. ret None) (y, ?v)"
    using assms by (auto simp: read_answers_def load_def cache_read_def bounded_call_def usable_def clock_ns_def as_int_def bind_def catch_def
        ext_def lift_result_def ret_def)
  then show ?thesis using assms by (auto simp: read_answers_def)
qed

definition sample_env :: cache_env where
  "sample_env = \<lparr>ce_platform = sample_platform, ce_fingerprint = u ''0123456789abcdef0123456789abcdef0123456789abcdef0123456789abcdef'', ce_path = u ''c'',
     ce_inflate = (\<lambda>b. Some \<lparr>if_data = b, if_eof = True, if_unused = [], if_tail = []\<rparr>)\<rparr>"

definition sample_deadline :: deadline where
  "sample_deadline = \<lparr>t0_ns = 0, deadline_ns = 1000000000, reserve_ns = 250000000\<rparr>"

definition sample_store_world :: "bytes \<Rightarrow> int \<Rightarrow> world" where
  "sample_store_world env t = \<lparr>w_answer = (\<lambda>n c. if fst c = ''clock_ns'' then Inr (VInt 0) else if fst c = ''now'' then Inr (VInt t)
     else if fst c = ''cache_read'' then Inr (VBytes env) else Inr VNone), w_trace = []\<rparr>"

lemma sample_platform_nfc: "sample_platform\<lparr>nfc := (\<lambda>s. s)\<rparr> = sample_platform"
  by (simp add: sample_platform_def)

lemma sample_valid: "validate_document sample_platform (JObj sample_root) = Inr sample_root"
  using sample_validates[of sample_platform] by (simp only: sample_platform_nfc)

lemma sample_read: "read_json sample_bytes = Inr (JObj sample_root)"
proof -
  obtain s where s: "dumps_strict (compact False) (JObj sample_root) = Inr s" "utf8_encode (s @ [10]) = Inr sample_bytes"
    using sample_bytes(1) by (auto simp: encode_json_def rbind_Inr_iff)
  show ?thesis unfolding read_json_def
    by (rule read_written[OF s]) (use typed_plain[OF validate_typed[OF sample_valid] document_schema_ok] in \<open>auto simp: json_ws_def\<close>)
qed

lemma sample_last: "sample_bytes \<noteq> []" "last sample_bytes = 10"
proof -
  obtain s where s: "utf8_encode (s @ [10]) = Inr sample_bytes"
    using sample_bytes(1) by (auto simp: encode_json_def rbind_Inr_iff)
  then have b: "sample_bytes = concat (map utf8_char s) @ [10]"
    by (auto simp: utf8_encode_def utf8_def utf8_char_def split: if_splits)
  show "sample_bytes \<noteq> []" "last sample_bytes = 10" unfolding b by simp_all
qed

lemma sample_envelope: "\<exists>env. encode_json (envelope sample_env 1000 sample_root) = Inr env \<and> length env \<le> max_cache_bytes"
proof -
  let ?x = "encode_json (envelope sample_env 1000 sample_root)"
  note e = sample_root_def sample_general_eval not_detected_def sample_shown_def sample_presentation_def blank_item_def
        general_json_def shown_json_def facts_json_def presentation_json_def sample_env_def envelope_def cache_schema_def
  have "case ?x of Inr b \<Rightarrow> length b \<le> 131072 | Inl _ \<Rightarrow> False"
    by (simp add: run e cong: run_cong)
  then show ?thesis by (cases ?x) (auto simp: max_cache_bytes_def)
qed

definition sample_envelope_bytes :: bytes where
  "sample_envelope_bytes = (case encode_json (envelope sample_env 1000 sample_root) of Inr b \<Rightarrow> b | Inl _ \<Rightarrow> [])"

lemma sample_envelope_bytes: "cache_envelope_json (envelope sample_env 1000 sample_root) = Inr sample_envelope_bytes"
  "length sample_envelope_bytes \<le> max_cache_bytes"
  using sample_envelope by (auto simp: sample_envelope_bytes_def cache_envelope_json_def envelope_def envelope_fields_def fld_def dict_get_def)

lemma sample_env_simps: "ce_platform sample_env = sample_platform" "length (ce_fingerprint sample_env) = max_cache_fingerprint"
  "ce_inflate sample_env z = Some \<lparr>if_data = z, if_eof = True, if_unused = [], if_tail = []\<rparr>"
  by (simp_all add: sample_env_def max_cache_fingerprint_def)

lemma sample_root_facts: "fld ''execution_error'' sample_root = JNull" "\<not> has_transient sample_root"
proof -
  have "fld ''providers'' sample_root = JList (map (\<lambda>p. JObj (sample_item p)) provider_order)"
    using sample_items by (simp add: sample_root_def fld_def dict_get_def)
  then show "\<not> has_transient sample_root"
    by (simp add: has_transient_def transient_item_def sample_fld provider_order_def)
qed (simp add: sample_root_def fld_def dict_get_def)

lemma sample_published: "\<exists>w'. publish sample_env sample_bytes sample_deadline ((), sample_store_world z 1000) = (Inr True, ((), w'))"
proof -
  have r: "in_range 1000" by (simp add: in_range_def max_us_def)
  show ?thesis
    using sample_bytes(2) sample_envelope_bytes(2)
    by (simp add: publish_def sample_read sample_last sample_envelope_bytes(1) sample_env_simps sample_valid sample_root_facts sample_public r bind_def catch_def
        lift_result_def ret_def wall_clock_def ext_def answer_of_def sample_store_world_def logged_def cache_write_def bounded_call_def
        usable_def clock_ns_def as_int_def andthen_def usable_ns_def remaining_ns_def sample_deadline_def)
qed

lemma sample_reads: "length env \<le> max_cache_bytes \<Longrightarrow> in_range t \<Longrightarrow> read_answers sample_env sample_deadline env t (sample_store_world env t)"
  by (simp add: read_answers_def sample_store_world_def answer_of_def logged_def usable_ns_def remaining_ns_def sample_deadline_def
      decompress_transport_def sample_env_simps max_cache_transport_def max_cache_bytes_def)

text \<open>C26: publishing and loading are inverse. When \<open>publish\<close> answers true, an envelope of the document and of the time \<open>t\<close> was
  written to the cache path; and whenever a read gives that envelope, under the same fingerprint, \<open>load\<close> answers exactly the
  published bytes from \<open>t\<close> on for 180 seconds, and nothing before or after.\<close>

theorem published_loads:
  assumes "publish e b c (x, w) = (Inr True, (x', w'))" "length (ce_fingerprint e) = max_cache_fingerprint"
  shows "\<exists>t env. since w w' ''cache_write'' [VStr (ce_path e), VBytes env] (\<lambda>_. True) \<and> since w w' ''now'' [] (\<lambda>v. v = VInt t)
     \<and> in_range t \<and> length env \<le> max_cache_bytes \<and> (\<forall>c' now v y. read_answers e c' env now v \<longrightarrow>
          fst (load e c' (y, v)) = Inr (if t \<le> now \<and> now \<le> t + cache_ttl_us then Some b else None))"
proof -
  obtain root t env where p: "published e b w w' root t env"
    using wpD_Inr[OF assms(1) publish_wp] by auto
  have "fst (load e c' (y, v)) = Inr (if t \<le> now \<and> now \<le> t + cache_ttl_us then Some b else None)" if r: "read_answers e c' env now v" for c' now v y
  proof -
    obtain v' where v: "load e c' (y, v) = catch (load_body e env) (\<lambda>_. ret None) (y, v')" "answer_of (''now'', []) v' = Inr (VInt now)" "in_range now"
      using load_reads[OF r, of y] by (elim exE conjE)
    have t: "within_ttl t now \<longleftrightarrow> t \<le> now \<and> now \<le> t + cache_ttl_us" by (auto simp: within_ttl_def)
    show ?thesis unfolding v(1) catch_def load_body_published[OF p assms(2) v(2,3)] t prod.case sum.case fst_conv by (rule refl)
  qed
  then show ?thesis using p unfolding published_def by blast
qed

text \<open>C27: a load never fails, and what it answers is always the canonical encoding of a valid document of at most 64 KiB; a document
  it validates has the type \<open>document_schema\<close> in every field, whatever the file holds.\<close>

theorem load_typed:
  "\<exists>r s'. load e c s = (Inr r, s') \<and> (\<forall>b. r = Some b \<longrightarrow>
     (\<exists>root. typed document_schema (JObj root) \<and> validate_document (ce_platform e) (JObj root) = Inr root
        \<and> public_document_json (JObj root) = Inr b \<and> length b \<le> max_cache_document_bytes))"
proof -
  obtain q s' where q: "load e c s = (q, s')" by (cases "load e c s")
  show ?thesis
  proof (cases q)
    case (Inl x)
    then show ?thesis using wpD_Inl[OF q[unfolded Inl] load_wp] by simp
  next
    case (Inr r)
    have "\<exists>root. typed document_schema (JObj root) \<and> validate_document (ce_platform e) (JObj root) = Inr root
        \<and> public_document_json (JObj root) = Inr b \<and> length b \<le> max_cache_document_bytes" if rb: "r = Some b" for b
    proof -
      obtain root where v: "validate_document (ce_platform e) (JObj root) = Inr root" "public_document_json (JObj root) = Inr b"
        "length b \<le> max_cache_document_bytes"
        using wpD_Inr[OF q[unfolded Inr] load_wp] rb by auto
      show ?thesis using v validate_typed[OF v(1)] by blast
    qed
    then show ?thesis using q Inr by auto
  qed
qed

theorem published_loads_witness:
  "\<exists>env t. fst (load sample_env sample_deadline ((), sample_store_world env t)) = Inr (Some sample_bytes)"
proof -
  obtain w' where w: "publish sample_env sample_bytes sample_deadline ((), sample_store_world [] 1000) = (Inr True, ((), w'))"
    using sample_published by blast
  have l: "length (ce_fingerprint sample_env) = max_cache_fingerprint" by (rule sample_env_simps)
  obtain t env where t: "in_range t" "length env \<le> max_cache_bytes" and r: "\<forall>c' now v y. read_answers sample_env c' env now v \<longrightarrow>
       fst (load sample_env c' (y :: unit, v)) = Inr (if t \<le> now \<and> now \<le> t + cache_ttl_us then Some sample_bytes else None)"
    using published_loads[OF w l] by (elim exE conjE) (rule that)
  show ?thesis using r[rule_format, OF sample_reads[OF t(2,1)], of "()"] by (auto simp: cache_ttl_us_def)
qed

lemma sample_loads: "fst (load sample_env sample_deadline ((), sample_store_world sample_envelope_bytes 1000)) = Inr (Some sample_bytes)"
proof -
  have r: "in_range 1000" by (simp add: in_range_def max_us_def)
  obtain w' where w: "publish sample_env sample_bytes sample_deadline ((), sample_store_world [] 1000) = (Inr True, ((), w'))"
    using sample_published by blast
  have p: "published sample_env sample_bytes v v' sample_root 1000 sample_envelope_bytes"
    if "since v v' ''now'' [] (\<lambda>x. x = VInt 1000)" "since v v' ''cache_write'' [VStr (ce_path sample_env), VBytes sample_envelope_bytes] (\<lambda>_. True)" for v v'
    using that sample_valid sample_read sample_public sample_bytes(2) sample_root_facts sample_envelope_bytes r
    by (simp add: published_def sample_env_simps)
  let ?v = "\<lparr>w_answer = (\<lambda>_ _. Inr VNone), w_trace = []\<rparr>"
  let ?t = "\<lparr>w_answer = (\<lambda>_ _. Inr VNone), w_trace = [((''now'', []), Inr (VInt 1000)), ((''cache_write'', [VStr (ce_path sample_env), VBytes sample_envelope_bytes]), Inr VNone)]\<rparr>"
  have q: "published sample_env sample_bytes ?v ?t sample_root 1000 sample_envelope_bytes"
    by (rule p) (auto simp: since_def)
  obtain v' where l: "load sample_env sample_deadline ((), sample_store_world sample_envelope_bytes 1000) =
      catch (load_body sample_env sample_envelope_bytes) (\<lambda>_. ret None) ((), v')" "answer_of (''now'', []) v' = Inr (VInt 1000)"
    using load_reads[OF sample_reads[OF sample_envelope_bytes(2) r], of "()"] by (elim exE conjE)
  show ?thesis
    unfolding l(1) catch_def load_body_published[OF q sample_env_simps(2) l(2) r] by (simp add: within_ttl_def cache_ttl_us_def)
qed

theorem load_typed_witness:
  "\<exists>root. typed document_schema (JObj root) \<and> public_document_json (JObj root) = Inr sample_bytes"
proof -
  obtain r s' where "load sample_env sample_deadline ((), sample_store_world sample_envelope_bytes 1000) = (Inr r, s')" "r = Some sample_bytes"
    using sample_loads by (cases "load sample_env sample_deadline ((), sample_store_world sample_envelope_bytes 1000)") auto
  then show ?thesis
    using load_typed[of sample_env sample_deadline "((), sample_store_world sample_envelope_bytes 1000)"] by auto
qed

end
