(* ===== verification/Coordinator.thy ===== *)
theory Coordinator
  imports CacheStore Guard
begin

text \<open>
  \<open>RefreshCoordinator\<close> of \<open>cache.py\<close>: one refresh of a cache entry at a time, over all the processes that share it. The
  right to refresh is a claim in the marker file beside the cache; the guard's mutex serialises the short sections that
  read and write it.

  \<^item> The files are outside: \<open>marker_read\<close> and \<open>marker_write\<close> are the bounded calls of \<open>_refresh_marker_read_child\<close> and
    \<open>_refresh_marker_write_child\<close>. Their answers are arbitrary, so a theorem about one coordinator holds with
    any number of other processes at work; \<open>RefreshMachine\<close> puts the processes together.
  \<^item> The object is the pair of the two fields that change, the lease that could not be closed and the claim that
    could not be given up. A refresh state is an object of its own: its methods run on the pair (\<open>on_object\<close>).
\<close>

section \<open>Data\<close>

datatype refresh_owner = OwnerAlive | OwnerDead | OwnerUnknown

record refresh_claim =
  rc_generation :: int
  rc_pid :: int
  rc_token :: ustr

record flight_result =
  fr_value :: val
  fr_cached :: "bytes option"
  fr_deadline :: bool
  fr_produced :: bool
  fr_failed :: bool
  fr_error :: "string option"

definition empty_result :: flight_result where
  "empty_result = \<lparr>fr_value = VNone, fr_cached = None, fr_deadline = False, fr_produced = False, fr_failed = False, fr_error = None\<rparr>"

record refresh_state =
  rs_cached :: "bytes option"
  rs_marker :: "jobj option"
  rs_owner :: "refresh_owner option"
  rs_lease :: "guard_lease option"
  rs_error :: "string option"

definition empty_state :: refresh_state where
  "empty_state = \<lparr>rs_cached = None, rs_marker = None, rs_owner = None, rs_lease = None, rs_error = None\<rparr>"

record refresh_decision =
  rd_claim :: "refresh_claim option"
  rd_wait :: bool
  rd_result :: "flight_result option"

record coord_env =
  cn_cache :: cache_env
  cn_guard :: guard_config
  cn_pid :: int

record coord =
  co_lease :: "guard_lease option"
  co_claim :: "refresh_claim option"

type_synonym 'a cprog = "(coord, 'a) prog"
type_synonym 'a sprog = "(coord \<times> refresh_state, 'a) prog"

text \<open>\<open>_PROCESS_MISSING\<close> is an object of its own.\<close>

definition process_missing :: val where "process_missing = VRef 0"

section \<open>Markers\<close>

definition canonical_json :: "json \<Rightarrow> py_exn + bytes" where
  "canonical_json v = rbind (dumps_strict sorted_opts v) (\<lambda>t. utf8_encode (t @ [10]))"

definition marker_path :: "cache_env \<Rightarrow> ustr" where
  "marker_path e = ce_path e @ u ''.refresh.json''"

definition marker_fields :: "string list" where
  "marker_fields = [''generation'', ''owner_pid'', ''owner_token'', ''started_at'']"

definition marker_json :: "int \<Rightarrow> int \<Rightarrow> ustr \<Rightarrow> int \<Rightarrow> jobj" where
  "marker_json g p tok t = [(u ''generation'', JInt g), (u ''owner_pid'', JInt p), (u ''owner_token'', JStr tok),
     (u ''started_at'', JStr (stamp_text t))]"

definition marker_document :: "json \<Rightarrow> py_exn + jobj" where
  "marker_document v = (case v of
     JObj d \<Rightarrow>
       if set (map fst d) \<noteq> set (map u marker_fields) then cve
       else (case (fld ''generation'' d, fld ''owner_pid'' d, fld ''owner_token'' d) of
         (JInt g, JInt p, JStr tok) \<Rightarrow>
           if g \<le> 0 \<or> p < 0 \<or> 128 < length tok then cve
           else
             rbind (cache_timestamp (fld ''started_at'' d)) (\<lambda>_.
             if p = 0 \<and> tok \<noteq> [] \<or> p > 0 \<and> tok = [] then cve else Inr d)
       | _ \<Rightarrow> cve)
   | _ \<Rightarrow> cve)"

text \<open>\<open>_read_marker_state\<close> after the read: the marker, if there is one, and whether the file could be read.\<close>

definition marker_bytes :: "bytes \<Rightarrow> py_exn + (jobj option \<times> bool)" where
  "marker_bytes b =
     rbind (read_json b) (\<lambda>v. rbind (canonical_json v) (\<lambda>canonical.
     if b \<noteq> canonical then Inr (None, False) else rbind (marker_document v) (\<lambda>m. Inr (Some m, True))))"

definition marker_state :: "val \<Rightarrow> jobj option \<times> bool" where
  "marker_state v = (case v of
     VNone \<Rightarrow> (None, True)
   | VBytes b \<Rightarrow> (case marker_bytes b of Inr r \<Rightarrow> r | Inl _ \<Rightarrow> (None, False))
   | _ \<Rightarrow> (None, False))"

definition read_marker_state :: "cache_env \<Rightarrow> deadline \<Rightarrow> ('o, jobj option \<times> bool) prog" where
  "read_marker_state e c =
     catch (bind (bounded_call c (ext (''marker_read'', [VStr (marker_path e)]))) (\<lambda>raw. ret (marker_state raw)))
       (\<lambda>_. ret (None, False))"

definition write_marker :: "cache_env \<Rightarrow> jobj \<Rightarrow> deadline \<Rightarrow> ('o, bool) prog" where
  "write_marker e m c =
     catch (bind (lift_result (rbind (marker_document (JObj m)) (\<lambda>d. canonical_json (JObj d)))) (\<lambda>data.
       andthen (bounded_call c (ext (''marker_write'', [VStr (marker_path e), VBytes data]))) (ret True)))
       (\<lambda>_. ret False)"

definition same_claim :: "jobj option \<Rightarrow> refresh_claim \<Rightarrow> bool" where
  "same_claim m claim = (case m of
     None \<Rightarrow> False
   | Some d \<Rightarrow> dict_get (u ''generation'') d = Some (JInt (rc_generation claim))
       \<and> dict_get (u ''owner_pid'') d = Some (JInt (rc_pid claim))
       \<and> dict_get (u ''owner_token'') d = Some (JStr (rc_token claim)))"

definition owner_state_of :: "jobj \<Rightarrow> ('o, refresh_owner) prog" where
  "owner_state_of d =
     catch
      (case (dict_get (u ''owner_pid'') d, dict_get (u ''owner_token'') d) of
         (Some (JInt p), Some (JStr tok)) \<Rightarrow>
           if p \<le> 0 \<or> tok = [] then ret OwnerUnknown
           else
             bind (ext (''process_token'', [VInt p])) (\<lambda>current.
             if current = process_missing then ret OwnerDead
             else (case current of
               VStr s \<Rightarrow> if s = [] then ret OwnerUnknown else if s = tok then ret OwnerAlive else ret OwnerDead
             | _ \<Rightarrow> ret OwnerUnknown))
       | _ \<Rightarrow> ret OwnerUnknown)
      (\<lambda>_. ret OwnerUnknown)"

section \<open>Leases\<close>

definition ascii_encode :: "ustr \<Rightarrow> py_exn + bytes" where
  "ascii_encode s = (if list_all (\<lambda>c. c < 128) s then Inr s else Inl UnicodeError)"

definition coordination_lease :: "coord_env \<Rightarrow> deadline \<Rightarrow> ('o, guard_lease) prog" where
  "coordination_lease e c =
     bind (ext (''guard'', [])) (\<lambda>_.
     bind (lift_result (ascii_encode (ce_fingerprint (cn_cache e)))) (\<lambda>key. acquire_key (cn_guard e) (VBytes key) c))"

text \<open>\<open>_close_lease\<close>, and \<open>_retain_lease\<close> when it fails.\<close>

definition close_or_retain :: "guard_lease \<Rightarrow> bool cprog" where
  "close_or_retain l =
     with_local l (bind (on_local finish_lease) (\<lambda>ok.
       if ok then ret True else andthen (update (\<lambda>(co, l). (co\<lparr>co_lease := Some l\<rparr>, l))) (ret False)))"

definition close_pending :: "bool cprog" where
  "close_pending =
     bind (field co_lease) (\<lambda>p. case p of
       None \<Rightarrow> ret True
     | Some l \<Rightarrow> bind (close_or_retain l) (\<lambda>ok.
         if ok then andthen (update (\<lambda>co. co\<lparr>co_lease := None\<rparr>)) (ret True) else ret False))"

definition set_claim :: "refresh_claim option \<Rightarrow> unit cprog" where
  "set_claim p = update (\<lambda>co. co\<lparr>co_claim := p\<rparr>)"

section \<open>Claims\<close>

definition inactive_marker :: "int \<Rightarrow> ('o, jobj) prog" where
  "inactive_marker g =
     bind wall_clock (\<lambda>now. case now of
       Some t \<Rightarrow> ret (marker_json g 0 [] t)
     | None \<Rightarrow> bind (ext (''utcnow'', [])) (\<lambda>v. case v of
         VInt t \<Rightarrow> if in_range t then ret (marker_json g 0 [] t) else fail OverflowError
       | _ \<Rightarrow> fail (TypeError ''datetime'')))"

definition retire_marker :: "coord_env \<Rightarrow> int \<Rightarrow> deadline \<Rightarrow> ('o, bool) prog" where
  "retire_marker e g c = bind (inactive_marker g) (\<lambda>m. write_marker (cn_cache e) m c)"

definition recover_pending_claim :: "coord_env \<Rightarrow> deadline \<Rightarrow> bool cprog" where
  "recover_pending_claim e c =
     bind (field co_claim) (\<lambda>p. case p of
       None \<Rightarrow> ret True
     | Some claim \<Rightarrow>
         bind (outcome (coordination_lease e c)) (\<lambda>l. case l of
           Inl _ \<Rightarrow> ret False
         | Inr lease \<Rightarrow>
             bind (catch (bind (read_marker_state (cn_cache e) c) (\<lambda>(m, readable).
                 if readable \<and> same_claim m claim then retire_marker e (rc_generation claim) c else ret readable))
               (\<lambda>_. ret False)) (\<lambda>recovered.
             bind (close_or_retain lease) (\<lambda>ok.
             if recovered \<and> ok then andthen (set_claim None) (ret True) else ret False))))"

text \<open>The generation after the marker's; a marker read from the file has one.\<close>

definition marker_generation :: "jobj option \<Rightarrow> int" where
  "marker_generation m = (case m of
     None \<Rightarrow> 0
   | Some d \<Rightarrow> (case dict_get (u ''generation'') d of Some (JInt g) \<Rightarrow> if g < 0 then 0 else g | _ \<Rightarrow> 0))"

definition claim_locked :: "coord_env \<Rightarrow> jobj option \<Rightarrow> deadline \<Rightarrow> ('o, refresh_claim option) prog" where
  "claim_locked e m c =
     bind (ext (''process_token'', [VInt (cn_pid e)])) (\<lambda>token. case token of
       VStr tok \<Rightarrow>
         if tok = [] then ret None
         else
           bind wall_clock (\<lambda>now. case now of
             None \<Rightarrow> ret None
           | Some t \<Rightarrow>
               bind (write_marker (cn_cache e) (marker_json (marker_generation m + 1) (cn_pid e) tok t) c) (\<lambda>ok.
               ret (if ok then Some \<lparr>rc_generation = marker_generation m + 1, rc_pid = cn_pid e, rc_token = tok\<rparr> else None)))
     | _ \<Rightarrow> ret None)"

definition exhausted_or_internal :: "deadline \<Rightarrow> ('o, string) prog" where
  "exhausted_or_internal c = bind (usable c) (\<lambda>n. ret (if n \<le> 0 then ''deadline_exhausted'' else ''internal_error''))"

definition guard_code :: "py_exn \<Rightarrow> string" where
  "guard_code x = (case x of GuardError s \<Rightarrow>
     if s \<in> {''guard_wait_timeout'', ''guard_acquisition_failed''} then s else ''internal_error'' | _ \<Rightarrow> ''internal_error'')"

definition coordination_result :: "string \<Rightarrow> flight_result" where
  "coordination_result code = empty_result\<lparr>fr_deadline := (code = ''deadline_exhausted''), fr_failed := True, fr_error := Some code\<rparr>"


section \<open>Inspection\<close>

definition set_error :: "string \<Rightarrow> unit sprog" where
  "set_error code = on_local (update (\<lambda>st. st\<lparr>rs_error := Some code\<rparr>))"

text \<open>\<open>_release_inspection\<close>: the state's lease is given up; one that cannot be closed is kept with the claim.\<close>

definition release_inspection :: "refresh_claim option \<Rightarrow> bool sprog" where
  "release_inspection claim =
     bind (field (rs_lease \<circ> snd)) (\<lambda>l.
     andthen (on_local (update (\<lambda>st. st\<lparr>rs_lease := None\<rparr>)))
       (case l of
          None \<Rightarrow> ret True
        | Some lease \<Rightarrow> bind (on_object (close_or_retain lease)) (\<lambda>ok.
            if ok then ret True
            else andthen (on_object (if claim = None then ret () else set_claim claim)) (ret False))))"

definition inspect_owner :: "deadline \<Rightarrow> jobj option \<times> bool \<Rightarrow> unit sprog" where
  "inspect_owner c r =
     (if \<not> snd r then bind (on_object (exhausted_or_internal c)) set_error
      else (case fst r of
        None \<Rightarrow> ret ()
      | Some d \<Rightarrow> (case fld ''owner_pid'' d of
          JInt p \<Rightarrow>
            if p > 0 then bind (on_object (owner_state_of d)) (\<lambda>ow. on_local (update (\<lambda>st. st\<lparr>rs_owner := Some ow\<rparr>)))
            else ret ()
        | _ \<Rightarrow> fail (TypeError ''invalid refresh owner''))))"

definition inspect_marker :: "coord_env \<Rightarrow> deadline \<Rightarrow> unit sprog" where
  "inspect_marker e c =
     bind (on_object (read_marker_state (cn_cache e) c)) (\<lambda>r.
     andthen (on_local (update (\<lambda>st. st\<lparr>rs_marker := fst r\<rparr>))) (inspect_owner c r))"

definition inspect_cache :: "coord_env \<Rightarrow> deadline \<Rightarrow> unit sprog" where
  "inspect_cache e c =
     bind (on_object (load (cn_cache e) c)) (\<lambda>b.
     andthen (on_local (update (\<lambda>st. st\<lparr>rs_cached := b\<rparr>))) (if b = None then inspect_marker e c else ret ()))"

definition inspect_body :: "coord_env \<Rightarrow> deadline \<Rightarrow> unit sprog" where
  "inspect_body e c =
     bind (on_object (coordination_lease e c)) (\<lambda>lease.
     andthen (on_local (update (\<lambda>st. st\<lparr>rs_lease := Some lease\<rparr>))) (inspect_cache e c))"

definition inspect_failed :: "deadline \<Rightarrow> py_exn \<Rightarrow> unit sprog" where
  "inspect_failed c x =
     andthen (if is_GuardError x then set_error (guard_code x) else bind (on_object (exhausted_or_internal c)) set_error)
       (bind (release_inspection None) (\<lambda>ok. if ok then ret () else set_error ''internal_error''))"

definition inspect_state :: "coord_env \<Rightarrow> deadline \<Rightarrow> unit sprog" where
  "inspect_state e c =
     bind (on_object close_pending) (\<lambda>ok.
     if \<not> ok then set_error ''internal_error''
     else
       bind (on_object (recover_pending_claim e c)) (\<lambda>ok.
       if \<not> ok then set_error ''internal_error''
       else catch (inspect_body e c) (inspect_failed c)))"

section \<open>Decisions\<close>

definition decide_result :: "flight_result \<Rightarrow> refresh_decision" where
  "decide_result r = \<lparr>rd_claim = None, rd_wait = False, rd_result = Some r\<rparr>"

definition released_or :: "refresh_decision sprog \<Rightarrow> refresh_decision sprog" where
  "released_or m = bind (release_inspection None) (\<lambda>ok.
     if \<not> ok then ret (decide_result (coordination_result ''internal_error'')) else m)"

definition claim_or_wait :: "coord_env \<Rightarrow> deadline \<Rightarrow> refresh_decision sprog" where
  "claim_or_wait e c =
     bind (field snd) (\<lambda>st.
     case rs_error st of
       Some code \<Rightarrow> andthen (release_inspection None) (ret (decide_result (coordination_result code)))
     | None \<Rightarrow>
     if rs_cached st \<noteq> None then released_or (ret (decide_result (empty_result\<lparr>fr_cached := rs_cached st\<rparr>)))
     else if rs_owner st = Some OwnerAlive then released_or (ret \<lparr>rd_claim = None, rd_wait = True, rd_result = None\<rparr>)
     else if rs_owner st = Some OwnerUnknown
     then released_or (bind (on_object (exhausted_or_internal c)) (\<lambda>code. ret (decide_result (coordination_result code))))
     else
       bind (catch
           (bind (on_object (claim_locked e (rs_marker st) c)) (\<lambda>claim.
            if claim \<noteq> None then ret (claim, None) else bind (on_object (exhausted_or_internal c)) (\<lambda>code. ret (None, Some code))))
           (\<lambda>x. if is_GuardError x then ret (None, Some (guard_code x))
                else bind (on_object (exhausted_or_internal c)) (\<lambda>code. ret (None, Some code)))) (\<lambda>(claim, err).
       bind (release_inspection claim) (\<lambda>ok.
       case (if ok then err else Some ''internal_error'') of
         Some code \<Rightarrow> ret (decide_result (coordination_result code))
       | None \<Rightarrow> ret \<lparr>rd_claim = claim, rd_wait = False, rd_result = None\<rparr>)))"

text \<open>The inspection and the decision on a state of its own.\<close>

definition attempt :: "coord_env \<Rightarrow> deadline \<Rightarrow> refresh_decision cprog" where
  "attempt e c = with_local empty_state (andthen (inspect_state e c) (claim_or_wait e c))"

section \<open>Finishing\<close>

definition finish_claim :: "coord_env \<Rightarrow> refresh_claim \<Rightarrow> bytes option \<Rightarrow> deadline \<Rightarrow> bool cprog" where
  "finish_claim e claim doc c =
     bind (outcome (coordination_lease e c)) (\<lambda>l. case l of
       Inl _ \<Rightarrow> andthen (set_claim (Some claim)) (ret False)
     | Inr lease \<Rightarrow>
         bind (catch (bind (read_marker_state (cn_cache e) c) (\<lambda>(m, readable).
             if readable \<and> same_claim m claim then
               bind (case doc of None \<Rightarrow> ret False | Some b \<Rightarrow> publish (cn_cache e) b c) (\<lambda>published.
               bind (retire_marker e (rc_generation claim) c) (\<lambda>ok.
               if ok then ret published else andthen (set_claim (Some claim)) (ret False)))
             else ret False))
           (\<lambda>_. andthen (set_claim (Some claim)) (ret False))) (\<lambda>published.
         bind (close_or_retain lease) (\<lambda>ok. ret (published \<and> ok))))"

definition publish_if_authoritative :: "coord_env \<Rightarrow> refresh_claim \<Rightarrow> bytes option \<Rightarrow> deadline \<Rightarrow> bool cprog" where
  "publish_if_authoritative e claim doc c = finish_claim e claim doc c"

definition cleanup_attempt :: "coord_env \<Rightarrow> refresh_claim \<Rightarrow> deadline \<Rightarrow> unit cprog" where
  "cleanup_attempt e claim c = andthen (publish_if_authoritative e claim None c) (ret ())"

section \<open>The refresh\<close>

text \<open>What a producer returns: a result, or any other value, which is wrapped. It works on the world only.\<close>

datatype produced = Flight flight_result | Plain val

definition wrap_produced :: "produced \<Rightarrow> flight_result" where
  "wrap_produced p = (case p of Flight r \<Rightarrow> r | Plain v \<Rightarrow> empty_result\<lparr>fr_value := v, fr_produced := True\<rparr>)"

type_synonym producer = "(unit, produced) prog"

definition run_producer :: "producer \<Rightarrow> produced cprog" where
  "run_producer p = within (\<lambda>_. ()) (\<lambda>_ co. co) p"

definition run_attempt :: "coord_env \<Rightarrow> deadline \<Rightarrow> producer \<Rightarrow> refresh_claim \<Rightarrow> flight_result cprog" where
  "run_attempt e c p claim =
     bind (catch (bind (run_producer p) (\<lambda>r. ret (wrap_produced r)))
         (\<lambda>x. andthen (cleanup_attempt e claim c) (fail x))) (\<lambda>result.
     bind (publish_if_authoritative e claim (fr_cached result) c) (\<lambda>published.
     ret (if published then result else result\<lparr>fr_cached := None\<rparr>)))"

definition wait_quantum_ns :: int where "wait_quantum_ns = 10000000"

definition seconds_of_ns :: "int \<Rightarrow> pyfloat" where
  "seconds_of_ns n = float_of False (nat n) 1000000000"

definition wait_attempts :: "int \<Rightarrow> nat" where
  "wait_attempts n = nat (max 1 ((n + wait_quantum_ns - 1) div wait_quantum_ns))"

definition exhausted_result :: flight_result where
  "exhausted_result = empty_result\<lparr>fr_deadline := True\<rparr>"

definition hit :: "bytes \<Rightarrow> flight_result" where
  "hit b = empty_result\<lparr>fr_cached := Some b\<rparr>"

definition refresh_turn :: "coord_env \<Rightarrow> deadline \<Rightarrow> producer \<Rightarrow> nat \<Rightarrow> (nat + flight_result) cprog" where
  "refresh_turn e c p k =
     (if k = 0 then bind (exhausted_or_internal c) (\<lambda>code. ret (Inr (coordination_result code)))
      else
        bind (usable c) (\<lambda>n.
        if n \<le> 0 then ret (Inr exhausted_result)
        else
          bind (attempt e c) (\<lambda>d.
          case rd_result d of
            Some r \<Rightarrow>
              if fr_error r = Some ''guard_wait_timeout''
              then bind (load (cn_cache e) c) (\<lambda>b. ret (Inr (case b of Some b \<Rightarrow> hit b | None \<Rightarrow> r)))
              else ret (Inr r)
          | None \<Rightarrow>
              if rd_wait d then
                bind (usable c) (\<lambda>n.
                if n \<le> 0 then ret (Inr exhausted_result)
                else
                  bind (usable c) (\<lambda>n.
                  andthen (ext (''sleep'', [VFloat (float_min (seconds_of_ns wait_quantum_ns) (seconds_of_ns n))])) (ret (Inl (k - 1)))))
              else (case rd_claim d of
                None \<Rightarrow> bind (exhausted_or_internal c) (\<lambda>code. ret (Inr (coordination_result code)))
              | Some claim \<Rightarrow> bind (run_attempt e c p claim) (\<lambda>r. ret (Inr r))))))"

definition get_or_refresh :: "coord_env \<Rightarrow> deadline \<Rightarrow> producer \<Rightarrow> flight_result cprog" where
  "get_or_refresh e c p =
     bind (field co_claim) (\<lambda>pending.
     bind (if pending \<noteq> None then ret None
           else bind close_pending (\<lambda>ok.
             if \<not> ok then ret (Some (coordination_result ''internal_error''))
             else bind (load (cn_cache e) c) (\<lambda>b. ret (map_option hit b)))) (\<lambda>early.
     case early of
       Some r \<Rightarrow> ret r
     | None \<Rightarrow>
         bind (usable c) (\<lambda>n.
         if n \<le> 0 then ret exhausted_result
         else loop (wait_attempts n + 1) (refresh_turn e c p) (wait_attempts n))))"

lemmas [run] = empty_result_def empty_state_def process_missing_def canonical_json_def marker_path_def marker_fields_def marker_json_def
  marker_document_def marker_bytes_def marker_state_def read_marker_state_def write_marker_def same_claim_def owner_state_of_def
  ascii_encode_def coordination_lease_def close_or_retain_def close_pending_def set_claim_def inactive_marker_def retire_marker_def
  recover_pending_claim_def marker_generation_def claim_locked_def exhausted_or_internal_def guard_code_def coordination_result_def
  set_error_def release_inspection_def inspect_owner_def inspect_marker_def inspect_cache_def inspect_body_def inspect_failed_def inspect_state_def decide_result_def released_or_def
  claim_or_wait_def attempt_def finish_claim_def publish_if_authoritative_def cleanup_attempt_def wrap_produced_def run_producer_def
  run_attempt_def wait_quantum_ns_def wait_attempts_def exhausted_result_def hit_def refresh_turn_def get_or_refresh_def

end
