(* ===== verification/CoordFacts.thy ===== *)
theory CoordFacts
  imports Coordinator
begin

text \<open>
  What the operations of the coordinator do to the marker file. \<open>file_run\<close> reads a trace as a history of that file; \<open>files\<close>
  carries a relation between the file at the start and now through a method, and the rules below give its weakest
  preconditions for the reads, the writes and everything else.
\<close>

section \<open>The calls of the operations\<close>

definition guard_calls :: "string set" where
  "guard_calls = {''guard'', ''sid'', ''CreateMutexW'', ''clock_ns'', ''WaitForSingleObject'', ''CloseHandle'', ''ReleaseMutex''}"

lemma guarded_calls [calls_intros]: "calls N m \<Longrightarrow> calls N (guarded m)"
  unfolding guarded_def by (intro calls_intros)

lemma safe_close_calls [calls_intros]: "''CloseHandle'' \<in> N \<Longrightarrow> calls N (safe_close h)"
  unfolding safe_close_def by (intro calls_intros) simp_all

lemma lease_calls: "calls guard_calls (coordination_lease e c)"
  unfolding coordination_lease_def acquire_key_def guard_sid_def acquire_name_def guard_calls_def by (intro calls_intros) simp_all

lemma finish_calls: "calls {''CloseHandle'', ''ReleaseMutex''} finish_lease"
  unfolding finish_lease_def close_lease_def lease_release_def lease_close_def by (intro calls_intros) simp_all

lemma close_calls: "calls {''CloseHandle'', ''ReleaseMutex''} (close_or_retain l)"
  unfolding close_or_retain_def by (intro calls_intros finish_calls)

lemma exhausted_calls: "calls {''clock_ns''} (exhausted_or_internal c)"
  unfolding exhausted_or_internal_def by (intro calls_intros) simp

lemma inactive_calls: "calls {''now'', ''utcnow''} (inactive_marker g)"
  unfolding inactive_marker_def by (intro calls_intros) simp_all

lemma owner_calls: "calls {''process_token''} (owner_state_of d)"
  unfolding owner_state_of_def by (intro calls_intros) (auto intro!: calls_intros split: option.split json.split)

section \<open>The marker file along a trace\<close>

text \<open>A read that answers with bytes answered the file's; a write that answers has replaced the file, and one that raises may
  or may not have.\<close>

fun file_run :: "bytes option \<Rightarrow> answered list \<Rightarrow> bytes option \<Rightarrow> bool" where
  "file_run f [] f' = (f' = f)"
| "file_run f (((n, args), r) # tr) f' =
     (if n = ''marker_read'' then
        (case r of Inr (VBytes b) \<Rightarrow> f = Some b | Inr VNone \<Rightarrow> f = None | _ \<Rightarrow> True) \<and> file_run f tr f'
      else if n = ''marker_write'' then
        file_run (case args of [_, VBytes b] \<Rightarrow> Some b | _ \<Rightarrow> f) tr f' \<or> isl r \<and> file_run f tr f'
      else file_run f tr f')"

lemma file_run_append: "file_run f (s @ t) f' \<longleftrightarrow> (\<exists>g. file_run f s g \<and> file_run g t f')"
  by (induction f s f' rule: file_run.induct) auto

definition marker_calls :: "string set" where
  "marker_calls = {''marker_read'', ''marker_write''}"

lemma file_run_quiet: "\<forall>a \<in> set tr. fst (fst a) \<notin> marker_calls \<Longrightarrow> file_run f tr f' \<longleftrightarrow> f' = f"
  by (induction f tr f' rule: file_run.induct) (auto simp: marker_calls_def)

definition files :: "world \<Rightarrow> (bytes option \<Rightarrow> bytes option \<Rightarrow> bool) \<Rightarrow> world \<Rightarrow> bool" where
  "files w P w' \<longleftrightarrow> extends w w' \<and> (\<forall>f f'. file_run f (recent w w') f' \<longrightarrow> P f f')"

lemma filesD: "files w P w' \<Longrightarrow> file_run f (recent w w') f' \<Longrightarrow> P f f'"
  by (simp add: files_def)

lemma files_extends: "files w P w' \<Longrightarrow> extends w w'"
  by (simp add: files_def)

lemma files_start [simp]: "files w (\<lambda>f f'. f' = f) w"
  by (simp add: files_def)

lemma files_mono: "files w P w' \<Longrightarrow> (\<And>f f'. P f f' \<Longrightarrow> Q f f') \<Longrightarrow> files w Q w'"
  by (auto simp: files_def)

lemma files_conj: "files w P w' \<Longrightarrow> files w Q w' \<Longrightarrow> files w (\<lambda>f f'. P f f' \<and> Q f f') w'"
  by (auto simp: files_def)

lemma files_quiet:
  assumes "calls N m" "N \<inter> marker_calls = {}" "files w P (snd s)"
  shows "wp m (\<lambda>_ t. files w P (snd t)) (\<lambda>_ t. files w P (snd t)) s"
proof (rule wp_mono[OF calls_wp[OF assms(1)]])
  fix t :: "'a \<times> world"
  assume t: "extends (snd s) (snd t) \<and> (\<forall>a \<in> set (recent (snd s) (snd t)). fst (fst a) \<in> N)"
  have e: "extends w (snd s)" using assms(3) by (rule files_extends)
  have "\<forall>a \<in> set (recent (snd s) (snd t)). fst (fst a) \<notin> marker_calls" using t assms(2) by blast
  then have "file_run f (recent w (snd t)) f' \<longleftrightarrow> file_run f (recent w (snd s)) f'" for f f'
    using recent_trans[OF e conjunct1[OF t]] by (simp add: file_run_append file_run_quiet)
  then show "files w P (snd t)" using assms(3) extends_trans[OF e conjunct1[OF t]] by (simp add: files_def)
  then show "files w P (snd t)" .
qed

definition file_val :: "bytes option \<Rightarrow> val" where
  "file_val f = (case f of None \<Rightarrow> VNone | Some b \<Rightarrow> VBytes b)"

text \<open>A readable answer tells the marker the file holds.\<close>

lemma files_read:
  assumes "files w P (snd s)"
  shows "wp (read_marker_state e c) (\<lambda>r t. files w (\<lambda>f f'. P f f' \<and> (snd r \<longrightarrow> marker_state (file_val f') = r)) (snd t)) (\<lambda>_ _. False) s"
proof -
  have e: "extends w (snd s)" using assms by (rule files_extends)
  have u: "files w P (logged (''clock_ns'', q) (snd s))" for q
    using assms by (auto simp: files_def file_run_append)
  have r: "files w (\<lambda>f f'. P f f' \<and> (snd (marker_state x) \<longrightarrow> marker_state (file_val f') = marker_state x)) (logged (''marker_read'', a) v)"
    if "files w P v" "answer_of (''marker_read'', a) v = Inr x" for a x v
    using that by (auto simp: files_def file_run_append file_val_def marker_state_def split: val.splits)
  have f: "files w P (logged (''marker_read'', a) v)" if "files w P v" for a v
    using that by (auto simp: files_def file_run_append)
  show ?thesis
    using assms unfolding read_marker_state_def bounded_call_def usable_def
    by (auto simp: wp_simps u f files_conj intro!: r split: sum.split intro: files_mono)
qed

definition marker_data :: "jobj \<Rightarrow> py_exn + bytes" where
  "marker_data m = rbind (marker_document (JObj m)) (\<lambda>d. canonical_json (JObj d))"

text \<open>A write that answers true has put the marker's bytes; one that answers false has put them or left the file.\<close>

definition put :: "(bytes option \<Rightarrow> bytes option \<Rightarrow> bool) \<Rightarrow> jobj \<Rightarrow> bytes option \<Rightarrow> bytes option \<Rightarrow> bool" where
  "put P m f f' \<longleftrightarrow> (\<exists>g b. P f g \<and> marker_data m = Inr b \<and> f' = Some b)"

lemma files_write:
  assumes "files w P (snd s)"
  shows "wp (write_marker e m c) (\<lambda>ok t. files w (\<lambda>f f'. put P m f f' \<or> \<not> ok \<and> P f f') (snd t)) (\<lambda>_ _. False) s"
proof -
  have u: "files w P (logged (''clock_ns'', q) (snd s))" for q
    using assms by (auto simp: files_def file_run_append)
  have ok: "files w (put P m) (logged (''marker_write'', [a, VBytes b]) v)"
    if "files w P v" "answer_of (''marker_write'', [a, VBytes b]) v = Inr x" "marker_data m = Inr b" for a b x v
    using that by (auto simp: files_def file_run_append put_def)
  have no: "files w (\<lambda>f f'. put P m f f' \<or> P f f') (logged (''marker_write'', [a, VBytes b]) v)"
    if "files w P v" "marker_data m = Inr b" for a b v
    using that by (auto simp: files_def file_run_append put_def)
  have keep: "files w (\<lambda>f f'. put P m f f' \<or> P f f') v" if "files w P v" for v
    using that by (rule files_mono) simp
  show ?thesis
    using assms unfolding write_marker_def bounded_call_def usable_def marker_data_def[symmetric]
    by (auto simp: wp_simps u keep ok no split: sum.split intro!: ok no)
qed

section \<open>The authority in the marker file\<close>

text \<open>What the marker file means: no owner, with the last generation (a missing file is generation 0); an owner; or nothing.\<close>

datatype authority = Free int | Held int int ustr | Broken

definition auth_of :: "bytes option \<Rightarrow> authority" where
  "auth_of f = (case marker_state (file_val f) of
     (None, True) \<Rightarrow> Free 0
   | (Some d, True) \<Rightarrow>
       (case (fld ''generation'' d, fld ''owner_pid'' d, fld ''owner_token'' d) of
          (JInt g, JInt p, JStr tok) \<Rightarrow> if p = 0 then Free g else Held g p tok
        | _ \<Rightarrow> Broken)
   | _ \<Rightarrow> Broken)"

lemma marker_bytes_read: "marker_bytes b = Inr (m, r) \<Longrightarrow> (r \<longleftrightarrow> m \<noteq> None) \<and> (\<forall>d. m = Some d \<longrightarrow> (\<exists>v. marker_document v = Inr d))"
  by (auto simp: marker_bytes_def rbind_Inr_iff split: if_splits)

text \<open>A marker with an owner, as the fields say it.\<close>

lemma fld_get: "fld k d = v \<Longrightarrow> v \<noteq> JNull \<Longrightarrow> dict_get (u k) d = Some v"
  by (auto simp: fld_def split: option.splits)

lemma same_claim_auth:
  assumes "marker_state (file_val f) = (m, True)" "same_claim m claim" "rc_pid claim \<noteq> 0"
  shows "auth_of f = Held (rc_generation claim) (rc_pid claim) (rc_token claim)"
  using assms by (auto simp: auth_of_def same_claim_def fld_def split: option.splits)

lemma marker_json_fields:
  "fld ''generation'' (marker_json g p tok t) = JInt g" "fld ''owner_pid'' (marker_json g p tok t) = JInt p"
  "fld ''owner_token'' (marker_json g p tok t) = JStr tok" "fld ''started_at'' (marker_json g p tok t) = JStr (stamp_text t)"
  by (simp_all add: marker_json_def fld_def dict_get_def)

lemma marker_json_sorted: "sort_json (JObj (marker_json g p tok t)) = JObj (marker_json g p tok t)"
proof -
  have "sort_key fst (marker_json g p tok t) = marker_json g p tok t"
    by (rule sort_key_same) (simp add: marker_json_def u_Cons)
  moreover have "map (\<lambda>(k, v). (k, sort_json v)) (marker_json g p tok t) = marker_json g p tok t"
    by (simp add: marker_json_def)
  ultimately show ?thesis by simp
qed

text \<open>A marker that was written is read back as it was.\<close>

lemma marker_round:
  assumes "marker_data (marker_json g p tok t) = Inr b"
  shows "marker_bytes b = Inr (Some (marker_json g p tok t), True)" "0 < g"
proof -
  let ?m = "marker_json g p tok t"
  obtain d where "marker_document (JObj ?m) = Inr d" "canonical_json (JObj d) = Inr b"
    using assms by (auto simp: marker_data_def rbind_Inr_iff)
  then have d: "marker_document (JObj ?m) = Inr ?m" "canonical_json (JObj ?m) = Inr b"
    by (auto simp: marker_document_def marker_json_fields rbind_Inr_iff split: if_splits)
  obtain s where s: "dumps_strict sorted_opts (JObj ?m) = Inr s" "utf8_encode (s @ [10]) = Inr b"
    using d(2) by (auto simp: canonical_json_def rbind_Inr_iff)
  have "json_plain (JObj ?m)" by (simp add: marker_json_def)
  then have "read_json b = Inr (JObj ?m)"
    using read_sorted[OF s _ cache_hooks_ok, of] marker_json_sorted by (simp add: read_json_def json_ws_def)
  then show "marker_bytes b = Inr (Some ?m, True)" using d by (simp add: marker_bytes_def)
  show "0 < g" using d(1) by (auto simp: marker_document_def marker_json_fields split: if_splits)
qed

lemma marker_auth:
  assumes "marker_data (marker_json g p tok t) = Inr b"
  shows "auth_of (Some b) = (if p = 0 then Free g else Held g p tok)"
  using marker_round[OF assms] by (simp add: auth_of_def marker_state_def file_val_def marker_json_fields)

section \<open>Sections\<close>

text \<open>Nothing written to the cache so far, and a method that does not write to it.\<close>

definition unpublished :: "world \<Rightarrow> world \<Rightarrow> bool" where
  "unpublished w w' \<longleftrightarrow> called ''cache_write'' (recent w w') = []"

lemma unpublished_start [simp]: "unpublished w w"
  by (simp add: unpublished_def)

lemma unpublished_quiet:
  assumes "calls N m" "''cache_write'' \<notin> N" "extends w (snd s)" "unpublished w (snd s)"
  shows "wp m (\<lambda>_ t. unpublished w (snd t)) (\<lambda>_ t. unpublished w (snd t)) s"
proof (rule wp_mono[OF calls_wp[OF assms(1)]])
  fix t :: "'a \<times> world"
  assume t: "extends (snd s) (snd t) \<and> (\<forall>a \<in> set (recent (snd s) (snd t)). fst (fst a) \<in> N)"
  then have "called ''cache_write'' (recent (snd s) (snd t)) = []" using assms(2) by (auto simp: called_def filter_empty_conv)
  then show "unpublished w (snd t)" using assms(3,4) t recent_trans[of w "snd s" "snd t"] by (simp add: unpublished_def)
  then show "unpublished w (snd t)" .
qed

lemma quiet_step:
  assumes "calls N m" "N \<inter> marker_calls = {}" "files w P (snd s)"
    "\<And>x t. files w P (snd t) \<Longrightarrow> wp (f x) Q E t" "\<And>e t. files w P (snd t) \<Longrightarrow> E e t"
  shows "wp (bind m f) Q E s"
  unfolding wp_bind by (rule wp_mono[OF files_quiet[OF assms(1-3)]]) (use assms(4,5) in auto)

lemma quiet_step2:
  assumes "calls N m" "N \<inter> marker_calls = {}" "''cache_write'' \<notin> N" "files w P (snd s)" "unpublished w (snd s)"
    "\<And>x t. files w P (snd t) \<Longrightarrow> unpublished w (snd t) \<Longrightarrow> wp (f x) Q E t"
    "\<And>e t. files w P (snd t) \<Longrightarrow> unpublished w (snd t) \<Longrightarrow> E e t"
  shows "wp (bind m f) Q E s"
  unfolding wp_bind
  by (rule wp_mono[OF wp_conj[OF files_quiet[OF assms(1,2,4)] unpublished_quiet[OF assms(1,3) files_extends[OF assms(4)] assms(5)]]])
    (use assms(6,7) in auto)

lemma outcome_step:
  assumes "calls N m" "N \<inter> marker_calls = {}" "''cache_write'' \<notin> N" "files w P (snd s)" "unpublished w (snd s)"
    "\<And>x t. files w P (snd t) \<Longrightarrow> unpublished w (snd t) \<Longrightarrow> wp (f x) Q E t"
  shows "wp (bind (outcome m) f) Q E s"
  unfolding wp_bind wp_outcome
  by (rule wp_mono[OF wp_conj[OF files_quiet[OF assms(1,2,4)] unpublished_quiet[OF assms(1,3) files_extends[OF assms(4)] assms(5)]]])
    (use assms(6) in auto)

lemma lease_quiet: "guard_calls \<inter> marker_calls = {}" "''cache_write'' \<notin> guard_calls"
  by (simp_all add: guard_calls_def marker_calls_def)

definition held :: "refresh_claim \<Rightarrow> authority" where
  "held claim = Held (rc_generation claim) (rc_pid claim) (rc_token claim)"

definition retired :: "refresh_claim \<Rightarrow> bytes option \<Rightarrow> bytes option \<Rightarrow> bool" where
  "retired claim f f' \<longleftrightarrow> f' = f \<or> auth_of f = held claim \<and> auth_of f' = Free (rc_generation claim)"

lemma retire_files:
  assumes "files w (\<lambda>f f'. f' = f \<and> auth_of f = held claim) (snd s)"
  shows "wp (retire_marker e (rc_generation claim) c) (\<lambda>_ t. files w (retired claim) (snd t)) (\<lambda>_ t. files w (retired claim) (snd t)) s"
proof -
  have wr: "wp (write_marker (cn_cache e) (marker_json (rc_generation claim) 0 [] n) c) (\<lambda>_ t. files w (retired claim) (snd t)) E t"
    if "files w (\<lambda>f f'. f' = f \<and> auth_of f = held claim) (snd t)" for n t and E :: "py_exn \<Rightarrow> 'a \<times> world \<Rightarrow> bool"
    by (rule wp_mono[OF files_write[OF that]]) (auto simp: put_def retired_def dest: marker_auth elim!: files_mono)
  have shape: "wp (inactive_marker g) (\<lambda>m t. (\<exists>n. m = marker_json g 0 [] n) \<and> files w P (snd t)) (\<lambda>_ t. files w P (snd t)) s"
    if "files w P (snd s)" for g P
  proof -
    have "wp (inactive_marker g) (\<lambda>m t. \<exists>n. m = marker_json g 0 [] n) (\<lambda>_ t. True) s"
      by (auto simp: inactive_marker_def wp_simps split: sum.split val.split option.split)
    then show ?thesis
      by (rule wp_mono[OF wp_conj[OF _ files_quiet[OF inactive_calls _ that]]]) (auto simp: marker_calls_def)
  qed
  show ?thesis
    unfolding retire_marker_def wp_bind
    by (rule wp_mono[OF shape[OF assms]]) (auto intro!: wr simp: retired_def elim: files_mono)
qed

lemma close_files:
  assumes "files w P (snd s)"
  shows "wp (close_or_retain l) (\<lambda>_ t. files w P (snd t)) (\<lambda>_ _. False) s"
proof -
  have n: "wp (close_or_retain l) (\<lambda>_ _. True) (\<lambda>_ _. False) s"
  proof -
    have "wp finish_lease (\<lambda>r s. r = (\<not> gl_owned (fst s) \<and> gl_closed (fst s)) \<and> extends (snd s) (snd s)) (\<lambda>_ _. False) (l, snd s)"
      unfolding finish_lease_def by (rule wp_mono[OF guard_ops.close_lease_wp]) auto
    then have "wp finish_lease (\<lambda>_ _. True) (\<lambda>_ _. False) (l, snd s)" by (rule wp_mono) auto
    then show ?thesis
      unfolding close_or_retain_def by (auto simp: wp_simps elim!: wp_mono)
  qed
  have q: "{''CloseHandle'', ''ReleaseMutex''} \<inter> marker_calls = {}" by (simp add: marker_calls_def)
  show ?thesis by (rule wp_mono[OF wp_conj[OF n files_quiet[OF close_calls q assms]]]) auto
qed

lemma close_step:
  assumes "files w P (snd s)" "\<And>x t. files w P (snd t) \<Longrightarrow> wp (f x) Q E t"
  shows "wp (bind (close_or_retain l) f) Q E s"
  unfolding wp_bind by (rule wp_mono[OF close_files[OF assms(1)]]) (use assms(2) in auto)

text \<open>The outcome of a section that finishes a claim: the marker is as it was or the claim is retired, and the cache was written
  only if the marker named the claim.\<close>

definition finished :: "world \<Rightarrow> refresh_claim \<Rightarrow> world \<Rightarrow> bool" where
  "finished w claim w' \<longleftrightarrow> files w (retired claim) w' \<and> (unpublished w w' \<or> files w (\<lambda>f _. auth_of f = held claim) w')"

lemma finished_start: "files w (\<lambda>f f'. f' = f) w' \<Longrightarrow> unpublished w w' \<Longrightarrow> finished w claim w'"
  by (auto simp: finished_def retired_def elim: files_mono)

lemma finished_quiet:
  assumes "calls N m" "N \<inter> marker_calls = {}" "''cache_write'' \<notin> N" "finished w claim (snd s)"
  shows "wp m (\<lambda>_ t. finished w claim (snd t)) (\<lambda>_ t. finished w claim (snd t)) s"
proof -
  have f: "files w (retired claim) (snd s)" using assms(4) by (simp add: finished_def)
  have "wp m (\<lambda>_ t. unpublished w (snd t) \<or> files w (\<lambda>f _. auth_of f = held claim) (snd t))
      (\<lambda>_ t. unpublished w (snd t) \<or> files w (\<lambda>f _. auth_of f = held claim) (snd t)) s"
  proof (cases "unpublished w (snd s)")
    case True
    then show ?thesis by (rule wp_mono[OF unpublished_quiet[OF assms(1,3) files_extends[OF f]]]) auto
  next
    case False
    then have "files w (\<lambda>f _. auth_of f = held claim) (snd s)" using assms(4) by (simp add: finished_def)
    then show ?thesis by (rule wp_mono[OF files_quiet[OF assms(1,2)]]) auto
  qed
  then show ?thesis
    by (rule wp_mono[OF wp_conj[OF files_quiet[OF assms(1,2) f]]]) (auto simp: finished_def)
qed

lemma held_file:
  assumes "snd r \<and> same_claim (fst r) claim" "rc_pid claim \<noteq> 0" "f' = f \<and> (snd r \<longrightarrow> marker_state (file_val f') = r)"
  shows "f' = f \<and> auth_of f = held claim"
proof (cases r)
  case (Pair m b)
  then show ?thesis using assms same_claim_auth[of f m claim] by (auto simp: held_def)
qed

lemma finish_body_wp:
  assumes "files w (\<lambda>f f'. f' = f) (snd s)" "unpublished w (snd s)" "rc_pid claim \<noteq> 0"
  shows "wp (bind (read_marker_state (cn_cache e) c) (\<lambda>(m, readable).
             if readable \<and> same_claim m claim then
               bind (case doc of None \<Rightarrow> ret False | Some b \<Rightarrow> publish (cn_cache e) b c) (\<lambda>published.
               bind (retire_marker e (rc_generation claim) c) (\<lambda>ok.
               if ok then ret published else andthen (set_claim (Some claim)) (ret False)))
             else ret False)) (\<lambda>_ t. finished w claim (snd t)) (\<lambda>_ t. finished w claim (snd t)) s"
proof -
  have read: "wp (read_marker_state (cn_cache e) c) (\<lambda>r t. unpublished w (snd t) \<and>
      files w (\<lambda>f f'. f' = f \<and> (snd r \<longrightarrow> marker_state (file_val f') = r)) (snd t)) (\<lambda>_ _. False) s"
  proof -
    have k: "calls {''clock_ns'', ''marker_read''} (read_marker_state (cn_cache e) c)"
      unfolding read_marker_state_def by (intro calls_intros) auto
    have "wp (read_marker_state (cn_cache e) c) (\<lambda>_ t. unpublished w (snd t)) (\<lambda>_ t. unpublished w (snd t)) s"
      by (rule unpublished_quiet[OF k _ files_extends[OF assms(1)] assms(2)]) simp
    then show ?thesis by (rule wp_mono[OF wp_conj[OF files_read[OF assms(1)]]]) auto
  qed
  have pub: "calls {''clock_ns'', ''now'', ''cache_write''} (case doc of None \<Rightarrow> ret False | Some b \<Rightarrow> publish (cn_cache e) b c)"
    by (intro calls_intros publish_calls)
  have after: "wp (bind (case doc of None \<Rightarrow> ret False | Some b \<Rightarrow> publish (cn_cache e) b c) (\<lambda>published.
               bind (retire_marker e (rc_generation claim) c) (\<lambda>ok.
               if ok then ret published else andthen (set_claim (Some claim)) (ret False))))
      (\<lambda>_ t. finished w claim (snd t)) (\<lambda>_ t. finished w claim (snd t)) t"
    if t: "files w (\<lambda>f f'. f' = f \<and> auth_of f = held claim) (snd t)" for t
  proof (rule quiet_step[OF pub _ t], goal_cases)
    case (2 x v)
    have h: "files w (\<lambda>f _. auth_of f = held claim) (snd v)" using 2 by (rule files_mono) simp
    have r: "calls {''now'', ''utcnow'', ''clock_ns'', ''marker_write''} (retire_marker e (rc_generation claim) c)"
      unfolding retire_marker_def write_marker_def inactive_marker_def by (intro calls_intros) auto
    have "wp (retire_marker e (rc_generation claim) c) (\<lambda>_ t. finished w claim (snd t)) (\<lambda>_ t. finished w claim (snd t)) v"
    proof (rule wp_mono[OF wp_conj[OF retire_files[OF 2] calls_wp[OF r]]])
      fix z :: "coord \<times> world"
      assume z: "files w (retired claim) (snd z) \<and> extends (snd v) (snd z) \<and>
        (\<forall>a \<in> set (recent (snd v) (snd z)). fst (fst a) \<in> {''now'', ''utcnow'', ''clock_ns'', ''marker_write''})"
      have "files w (\<lambda>f _. auth_of f = held claim) (snd z)"
        using h z recent_trans[OF files_extends[OF h], of "snd z"] by (auto simp: files_def file_run_append)
      then show "finished w claim (snd z)" using z by (simp add: finished_def)
      then show "finished w claim (snd z)" .
    qed
    then show ?case unfolding wp_bind by (rule wp_mono) (auto simp: set_claim_def wp_simps)
  next
    case (3 x v)
    have "files w (\<lambda>f _. auth_of f = held claim) (snd v)" "files w (retired claim) (snd v)"
      using 3 by (rule files_mono; simp add: retired_def)+
    then show ?case by (simp add: finished_def)
  qed (simp add: marker_calls_def)
  show ?thesis
    unfolding wp_bind[of "read_marker_state _ _"]
  proof (rule wp_mono[OF read], unfold split_def wp_if, goal_cases)
    case (1 r t)
    show ?case
    proof (cases "snd r \<and> same_claim (fst r) claim")
      case True
      have "files w (\<lambda>f f'. f' = f \<and> auth_of f = held claim) (snd t)"
        by (rule files_mono[OF conjunct2[OF 1]]) (rule held_file[OF True assms(3)])
      then show ?thesis using after True by simp
    next
      case False
      have "files w (\<lambda>f f'. f' = f) (snd t)" using 1 by (auto elim!: files_mono)
      then show ?thesis using 1 False by (simp add: wp_ret finished_start if_not_P)
    qed
  qed simp
qed

lemma finish_wp:
  assumes "rc_pid claim \<noteq> 0"
  shows "wp (finish_claim e claim doc c) (\<lambda>_ t. finished w claim (snd t)) (\<lambda>_ _. False) (co, w)"
  unfolding finish_claim_def
proof (rule outcome_step[OF lease_calls lease_quiet, where w = w and P = "\<lambda>f f'. f' = f"], simp, simp, goal_cases)
  case (1 l t)
  show ?case
  proof (cases l)
    case (Inl x)
    then show ?thesis using 1 by (simp add: set_claim_def wp_simps finished_start)
  next
    case (Inr lease)
    let ?close = "\<lambda>published. bind (close_or_retain lease) (\<lambda>ok. ret (published \<and> ok))"
    have close: "wp (?close published) (\<lambda>_ t. finished w claim (snd t)) (\<lambda>_ _. False) v" if "finished w claim (snd v)" for published v
    proof -
      have q: "{''CloseHandle'', ''ReleaseMutex''} \<inter> marker_calls = {}" "''cache_write'' \<notin> {''CloseHandle'', ''ReleaseMutex''}"
        by (simp_all add: marker_calls_def)
      have "wp (?close published) (\<lambda>_ _. True) (\<lambda>_ _. False) v"
        by (rule close_step[of "snd v" "\<lambda>_ _. True" v]) (simp_all add: files_def wp_simps)
      moreover have "wp (?close published) (\<lambda>_ t. finished w claim (snd t)) (\<lambda>_ t. finished w claim (snd t)) v"
        by (rule finished_quiet[OF calls_bind[OF close_calls] q that]) (rule calls_intros)
      ultimately show ?thesis by (rule wp_mono[OF wp_conj]) auto
    qed
    have handler: "wp (andthen (set_claim (Some claim)) (ret False)) (\<lambda>p. wp (?close p) (\<lambda>_ t. finished w claim (snd t)) (\<lambda>_ _. False)) (\<lambda>_ _. False) v"
      if "finished w claim (snd v)" for v
      unfolding set_claim_def wp_andthen wp_update wp_ret by (rule close) (simp add: that)
    show ?thesis
      unfolding Inr sum.case wp_bind[of "catch _ _"] wp_catch
      by (rule wp_mono[OF finish_body_wp[OF 1 assms]]) (auto intro: close handler)
  qed
qed

text \<open>Recovering a claim that could not be given up.\<close>

lemma recover_wp:
  assumes "\<And>claim. co_claim co = Some claim \<Longrightarrow> rc_pid claim \<noteq> 0"
  shows "wp (recover_pending_claim e c) (\<lambda>_ t. files w (\<lambda>f f'. f' = f \<or> (\<exists>claim. co_claim co = Some claim \<and> retired claim f f')) (snd t)) (\<lambda>_ _. False) (co, w)"
proof (cases "co_claim co")
  case None
  then show ?thesis by (simp add: recover_pending_claim_def wp_simps files_def)
next
  case (Some claim)
  let ?P = "files w (retired claim)"
  have body: "wp (bind (read_marker_state (cn_cache e) c) (\<lambda>(m, readable).
        if readable \<and> same_claim m claim then retire_marker e (rc_generation claim) c else ret readable)) (\<lambda>_ t. ?P (snd t)) (\<lambda>_ t. ?P (snd t)) s"
    if s: "files w (\<lambda>f f'. f' = f) (snd s)" for s :: "coord \<times> world"
    unfolding wp_bind[of "read_marker_state _ _"]
  proof (rule wp_mono[OF files_read[OF s]], unfold split_def wp_if, goal_cases)
    case (1 r t)
    show ?case
    proof (cases "snd r \<and> same_claim (fst r) claim")
      case True
      have "files w (\<lambda>f f'. f' = f \<and> auth_of f = held claim) (snd t)"
        by (rule files_mono[OF 1]) (rule held_file[OF True assms[OF Some]])
      then show ?thesis using retire_files True by simp
    next
      case False
      have "?P (snd t)" by (rule files_mono[OF 1]) (simp add: retired_def)
      then show ?thesis using False by (simp add: wp_ret if_not_P)
    qed
  qed simp
  have close: "wp (bind (close_or_retain lease) (\<lambda>ok. if recovered \<and> ok then andthen (set_claim None) (ret True) else ret False))
      (\<lambda>_ t. ?P (snd t)) (\<lambda>_ _. False) v" if "?P (snd v)" for recovered lease v
    by (rule close_step[OF that]) (simp add: set_claim_def wp_simps)
  have all: "wp (recover_pending_claim e c) (\<lambda>_ t. ?P (snd t)) (\<lambda>_ _. False) (co, w)"
    unfolding recover_pending_claim_def wp_bind[of "field _"] wp_field fst_conv Some option.case
  proof (rule outcome_step[OF lease_calls lease_quiet, where w = w and P = "\<lambda>f f'. f' = f"], simp, simp, goal_cases)
    case (1 l t)
    show ?case
    proof (cases l)
      case (Inl x)
      have "?P (snd t)" using 1(1) by (rule files_mono) (simp add: retired_def)
      then show ?thesis using Inl by (simp add: wp_ret)
    next
      case (Inr lease)
      have "wp (ret False) (\<lambda>r. wp (bind (close_or_retain lease) (\<lambda>ok. if r \<and> ok then andthen (set_claim None) (ret True) else ret False))
          (\<lambda>_ t. ?P (snd t)) (\<lambda>_ _. False)) (\<lambda>_ _. False) v" if "?P (snd v)" for v
        unfolding wp_ret by (rule close[OF that])
      then show ?thesis
        unfolding Inr sum.case wp_bind[of "catch _ _"] wp_catch
        by (intro wp_mono[OF body[OF 1(1)]]) (auto intro: close)
    qed
  qed
  show ?thesis by (rule wp_mono[OF all]) (auto simp: Some elim: files_mono)
qed

section \<open>Inspecting and claiming\<close>

text \<open>One critical section: the inspection with the lease, and the decision on what it found.\<close>

definition inspect_section :: "coord_env \<Rightarrow> deadline \<Rightarrow> refresh_decision cprog" where
  "inspect_section e c = with_local empty_state (andthen (catch (inspect_body e c) (inspect_failed c)) (claim_or_wait e c))"

fun generation :: "authority \<Rightarrow> int" where
  "generation (Free g) = g"
| "generation (Held g _ _) = g"
| "generation Broken = 0"

definition claims :: "bytes option \<Rightarrow> refresh_claim \<Rightarrow> bytes option \<Rightarrow> bool" where
  "claims f claim f' \<longleftrightarrow> auth_of f \<noteq> Broken \<and> auth_of f' = held claim \<and> rc_generation claim = generation (auth_of f) + 1 \<and> 0 < rc_pid claim"

text \<open>No answer about the process \<open>q\<close> says that it is gone or that it is another one than the owner of the token.\<close>

definition never_dead :: "world \<Rightarrow> int \<Rightarrow> ustr \<Rightarrow> bool" where
  "never_dead w q tok \<longleftrightarrow> (\<forall>n. case w_answer w n (''process_token'', [VInt q]) of
     Inr v \<Rightarrow> v \<noteq> process_missing \<and> (\<forall>s. v = VStr s \<longrightarrow> s = [] \<or> s = tok) | Inl _ \<Rightarrow> True)"

definition live :: "world \<Rightarrow> authority \<Rightarrow> bool" where
  "live w a \<longleftrightarrow> (\<exists>g q tok. a = Held g q tok \<and> never_dead w q tok)"

lemma live_extends: "extends w w' \<Longrightarrow> live w' a = live w a"
  by (simp add: live_def never_dead_def extends_def)

text \<open>What the state says after an inspection without an error or a cached document: the marker is the file's, and an owner that
  is neither alive nor unknown is not live.\<close>

definition inspected :: "world \<Rightarrow> (coord \<times> refresh_state) \<times> world \<Rightarrow> bool" where
  "inspected w t \<longleftrightarrow> files w (\<lambda>f f'. f' = f \<and> (rs_error (snd (fst t)) = None \<and> rs_cached (snd (fst t)) = None \<longrightarrow>
     marker_state (file_val f') = (rs_marker (snd (fst t)), True) \<and>
     (rs_owner (snd (fst t)) \<notin> {Some OwnerAlive, Some OwnerUnknown} \<longrightarrow> \<not> live w (auth_of f')))) (snd t)"

lemma marker_valid: "marker_state v = (Some d, r) \<Longrightarrow> \<exists>g p tok. fld ''generation'' d = JInt g \<and> fld ''owner_pid'' d = JInt p
    \<and> fld ''owner_token'' d = JStr tok \<and> 0 < g \<and> 0 \<le> p \<and> (p = 0 \<longleftrightarrow> tok = []) \<and> r"
  by (auto simp: marker_state_def marker_bytes_def marker_document_def rbind_Inr_iff split: val.splits sum.splits json.splits if_splits)

lemma owner_state_wp:
  assumes "fld ''owner_pid'' d = JInt p" "fld ''owner_token'' d = JStr tok" "extends w (snd s)"
  shows "wp (owner_state_of d) (\<lambda>ow _. ow \<notin> {OwnerAlive, OwnerUnknown} \<longrightarrow> \<not> never_dead w p tok) (\<lambda>_ _. False) s"
proof -
  have a: "w_answer (snd s) = w_answer w" using assms(3) by (simp add: extends_def)
  have g: "dict_get (u ''owner_pid'') d = Some (JInt p)" "dict_get (u ''owner_token'') d = Some (JStr tok)"
    using assms(1,2) fld_get by blast+
  have n: "v \<noteq> process_missing \<and> (\<forall>x. v = VStr x \<longrightarrow> x = [] \<or> x = tok)"
    if "never_dead w p tok" "answer_of (''process_token'', [VInt p]) (snd s) = Inr v" for v
    using that(1)[unfolded never_dead_def, rule_format, of "length (w_trace (snd s))"] that(2) a by (auto simp: answer_of_def)
  show ?thesis
    unfolding owner_state_of_def g
    by (auto simp: wp_simps split: sum.split val.split dest: n)
qed

lemma marker_auth_valid:
  assumes "marker_state (file_val f) = (m, True)"
  shows "auth_of f \<noteq> Broken" "marker_generation m = generation (auth_of f)"
proof -
  show "auth_of f \<noteq> Broken"
  proof (cases m)
    case (Some d)
    then obtain g p tok where "fld ''generation'' d = JInt g" "fld ''owner_pid'' d = JInt p" "fld ''owner_token'' d = JStr tok"
      using assms marker_valid by blast
    then show ?thesis using assms Some by (simp add: auth_of_def)
  qed (use assms in \<open>simp add: auth_of_def\<close>)
  show "marker_generation m = generation (auth_of f)"
  proof (cases m)
    case (Some d)
    then obtain g p tok where d: "fld ''generation'' d = JInt g" "fld ''owner_pid'' d = JInt p" "fld ''owner_token'' d = JStr tok" "0 < g"
      using assms marker_valid by blast
    then show ?thesis using assms Some fld_get[OF d(1)] by (simp add: auth_of_def marker_generation_def)
  qed (use assms in \<open>simp add: auth_of_def marker_generation_def\<close>)
qed

lemma obj_step:
  assumes "calls N m" "N \<inter> marker_calls = {}" "files w P (snd s)"
    "\<And>x t. files w P (snd t) \<Longrightarrow> snd (fst t) = snd (fst s) \<Longrightarrow> wp (f x) Q E t"
    "\<And>e t. files w P (snd t) \<Longrightarrow> snd (fst t) = snd (fst s) \<Longrightarrow> E e t"
  shows "wp (bind (on_object m) f) Q E s"
  unfolding wp_bind wp_within
  by (rule wp_mono[OF files_quiet[OF assms(1,2), of w P "(fst (fst s), snd s)"]]) (use assms(3-5) in simp_all)

lemma local_step: "wp (andthen (on_local (update g)) m) Q E s = wp m Q E ((fst (fst s), g (snd (fst s))), snd s)"
  by (simp add: wp_simps)

lemma load_quiet: "{''clock_ns'', ''now'', ''cache_read''} \<inter> marker_calls = {}" "{''clock_ns''} \<inter> marker_calls = {}" "{''process_token''} \<inter> marker_calls = {}"
  by (simp_all add: marker_calls_def)

lemma set_error_wp: "files w (\<lambda>f f'. f' = f) (snd t) \<Longrightarrow> wp (set_error x) (\<lambda>_ t. inspected w t) E t"
  by (simp add: set_error_def wp_simps inspected_def)

lemma inspect_owner_wp:
  assumes "files w (\<lambda>f f'. f' = f \<and> (snd r \<longrightarrow> marker_state (file_val f') = r)) (snd s)" "rs_owner (snd (fst s)) = None" "rs_marker (snd (fst s)) = fst r"
    "\<forall>d. r = (Some d, True) \<longrightarrow> (\<exists>x. marker_state x = r)"
  shows "wp (inspect_owner c r) (\<lambda>_ t. inspected w t) (\<lambda>_ t. files w (\<lambda>f f'. f' = f) (snd t)) s"
proof -
  have e: "extends w (snd s)" using assms(1) by (rule files_extends)
  have f: "files w (\<lambda>f f'. f' = f) (snd s)" using assms(1) by (rule files_mono) simp
  consider "\<not> snd r" | "r = (None, True)" | d where "r = (Some d, True)" by (cases r; cases "fst r") auto
  then show ?thesis
  proof cases
    case 1
    have "wp (bind (on_object (exhausted_or_internal c)) set_error) (\<lambda>_ t. inspected w t) (\<lambda>_ t. files w (\<lambda>f f'. f' = f) (snd t)) s"
      by (rule obj_step[OF exhausted_calls load_quiet(2) f]) (simp_all add: set_error_wp)
    then show ?thesis unfolding inspect_owner_def if_P[OF 1] .
  next
    case 2
    have "files w (\<lambda>f f'. f' = f \<and> marker_state (file_val f') = (None, True) \<and> \<not> live w (auth_of f')) (snd s)"
      using assms(1) by (rule files_mono) (simp add: 2 live_def auth_of_def)
    then show ?thesis
      using 2 assms(2,3) by (auto simp: inspect_owner_def wp_ret inspected_def elim!: files_mono)
  next
    case (3 d)
    have m: "files w (\<lambda>f f'. f' = f \<and> marker_state (file_val f') = (Some d, True)) (snd s)"
      using assms(1) by (rule files_mono) (simp add: 3)
    show ?thesis
    proof -
      obtain g p tok where d: "fld ''generation'' d = JInt g" "fld ''owner_pid'' d = JInt p" "fld ''owner_token'' d = JStr tok" "0 \<le> p"
        using assms(4) 3 marker_valid by metis
      show ?thesis
      proof (cases "p > 0")
        case False
        then have p0: "p = 0" using d(4) by simp
        have "files w (\<lambda>f f'. f' = f \<and> marker_state (file_val f') = (Some d, True) \<and> \<not> live w (auth_of f')) (snd s)"
          by (rule files_mono[OF m]) (simp add: live_def auth_of_def d p0)
        then show ?thesis
          using 3 False assms(2,3) d(2) by (auto simp: inspect_owner_def wp_ret inspected_def elim!: files_mono)
      next
        case True
        have "wp (on_object (owner_state_of d)) (\<lambda>ow t. (ow \<notin> {OwnerAlive, OwnerUnknown} \<longrightarrow> \<not> never_dead w p tok)
            \<and> files w (\<lambda>f f'. f' = f \<and> marker_state (file_val f') = (Some d, True)) (snd t) \<and> rs_marker (snd (fst t)) = Some d) (\<lambda>_ _. False) s"
          unfolding wp_within
          by (rule wp_mono[OF wp_conj[OF owner_state_wp[OF d(2,3)] files_quiet[OF owner_calls load_quiet(3)]]])
            (use e m assms(3) 3 in auto)
        moreover have "inspected w ((fst (fst t), (snd (fst t))\<lparr>rs_owner := Some ow\<rparr>), snd t)"
          if "ow \<notin> {OwnerAlive, OwnerUnknown} \<longrightarrow> \<not> never_dead w p tok"
            "files w (\<lambda>f f'. f' = f \<and> marker_state (file_val f') = (Some d, True)) (snd t)" "rs_marker (snd (fst t)) = Some d" for ow and t :: "(coord \<times> refresh_state) \<times> world"
        proof -
          have "auth_of f = Held g p tok" if "marker_state (file_val f) = (Some d, True)" for f
            using that True d by (simp add: auth_of_def)
          then show ?thesis
            using that unfolding inspected_def by (auto simp: live_def elim!: files_mono)
        qed
        ultimately have "wp (bind (on_object (owner_state_of d)) (\<lambda>ow. on_local (update (\<lambda>st. st\<lparr>rs_owner := Some ow\<rparr>))))
            (\<lambda>_ t. inspected w t) (\<lambda>_ t. files w (\<lambda>f f'. f' = f) (snd t)) s"
          unfolding wp_bind by (elim wp_mono) (auto simp: wp_simps)
        then show ?thesis using 3 True d(2) by (simp add: inspect_owner_def)
      qed
    qed
  qed
qed

lemma read_values: "wp (read_marker_state e c) (\<lambda>r _. \<forall>d. r = (Some d, True) \<longrightarrow> (\<exists>x. marker_state x = r)) (\<lambda>_ _. False) s"
  unfolding read_marker_state_def bounded_call_def usable_def by (auto simp: wp_simps split: sum.split)

lemma inspect_marker_wp:
  assumes "files w (\<lambda>f f'. f' = f) (snd s)" "rs_owner (snd (fst s)) = None"
  shows "wp (inspect_marker e c) (\<lambda>_ t. inspected w t) (\<lambda>_ t. files w (\<lambda>f f'. f' = f) (snd t)) s"
proof -
  have s: "files w (\<lambda>f f'. f' = f) (snd (fst (fst s), snd s))" using assms(1) by simp
  show ?thesis
    unfolding inspect_marker_def wp_bind[of "on_object _"] wp_within local_step
  proof (rule wp_mono[OF wp_conj[OF files_read[OF s] read_values]], goal_cases)
    case (1 r t)
    show ?case by (rule inspect_owner_wp) (use 1 assms(2) in auto)
  qed simp
qed

lemma inspect_body_wp:
  assumes "files w (\<lambda>f f'. f' = f) (snd s)" "snd (fst s) = empty_state"
  shows "wp (inspect_body e c) (\<lambda>_ t. inspected w t) (\<lambda>_ t. files w (\<lambda>f f'. f' = f) (snd t)) s"
proof -
  have cache: "wp (inspect_cache e c) (\<lambda>_ t. inspected w t) (\<lambda>_ t. files w (\<lambda>f f'. f' = f) (snd t)) t"
    if f: "files w (\<lambda>f f'. f' = f) (snd t)" and o: "rs_owner (snd (fst t)) = None" for t
    unfolding inspect_cache_def
  proof (rule obj_step[OF load_calls load_quiet(1) f], unfold local_step, goal_cases)
    case (1 b v)
    show ?case
    proof (cases "b = None")
      case True
      show ?thesis unfolding if_P[OF True] by (rule inspect_marker_wp) (use 1 o in simp_all)
    next
      case False
      show ?thesis unfolding if_not_P[OF False] wp_ret inspected_def fst_conv snd_conv by (rule files_mono[OF 1(1)]) (simp add: False)
    qed
  qed
  show ?thesis
    unfolding inspect_body_def
  proof (rule obj_step[OF lease_calls lease_quiet(1) assms(1)], unfold local_step, goal_cases)
    case (1 l t)
    show ?case by (rule cache) (use 1 assms(2) in \<open>simp_all add: empty_state_def\<close>)
  qed
qed

text \<open>Giving up the lease changes nothing of the file; it may leave the claim with the coordinator.\<close>

lemma release_files:
  assumes "files w P (snd s)"
  shows "wp (release_inspection claim) (\<lambda>_ t. files w P (snd t)) (\<lambda>_ _. False) s"
proof (cases "rs_lease (snd (fst s))")
  case None
  then show ?thesis using assms by (simp add: release_inspection_def wp_simps)
next
  case (Some l)
  have "wp (close_or_retain l) (\<lambda>_ t. files w P (snd t)) (\<lambda>_ _. False) (fst (fst s), snd s)"
    by (rule close_files) (simp add: assms)
  then show ?thesis
    using Some unfolding release_inspection_def by (auto simp: wp_simps set_claim_def elim!: wp_mono)
qed

lemma release_step:
  assumes "files w P (snd s)" "\<And>x t. files w P (snd t) \<Longrightarrow> wp (f x) Q E t"
  shows "wp (bind (release_inspection claim) f) Q E s"
  unfolding wp_bind by (rule wp_mono[OF release_files[OF assms(1)]]) (use assms(2) in auto)

lemma inspect_failed_wp:
  assumes "files w (\<lambda>f f'. f' = f) (snd s)"
  shows "wp (inspect_failed c x) (\<lambda>_ t. inspected w t) (\<lambda>_ t. files w (\<lambda>f f'. f' = f) (snd t)) s"
proof -
  let ?rest = "bind (release_inspection None) (\<lambda>ok. if ok then ret () else set_error ''internal_error'')"
  have err: "inspected w t" if "files w (\<lambda>f f'. f' = f) (snd t)" "rs_error (snd (fst t)) \<noteq> None" for t
    using that by (auto simp: inspected_def elim!: files_mono)
  have keep: "wp (release_inspection None) (\<lambda>_ t. rs_error (snd (fst t)) = rs_error (snd (fst s))) (\<lambda>_ _. True) s" for s
    by (auto simp: release_inspection_def wp_simps split: option.split intro!: wp_any)
  have rest: "wp ?rest (\<lambda>_ t. inspected w t) E s" if "files w (\<lambda>f f'. f' = f) (snd s)" "rs_error (snd (fst s)) \<noteq> None" for s E
  proof -
    note r = release_files[OF that(1), of None]
    show ?thesis
      unfolding wp_bind by (rule wp_mono[OF wp_conj[OF r keep]]) (use that(2) in \<open>auto simp: wp_ret intro!: err set_error_wp\<close>)
  qed
  have set: "wp (set_error code) (\<lambda>_. wp ?rest (\<lambda>_ t. inspected w t) E) E t" if "files w (\<lambda>f f'. f' = f) (snd t)" for code E t
  proof -
    have "wp (set_error code) (\<lambda>_ v. files w (\<lambda>f f'. f' = f) (snd v) \<and> rs_error (snd (fst v)) \<noteq> None) E t"
      using that by (simp add: set_error_def wp_simps)
    then show ?thesis by (rule wp_mono) (auto intro: rest)
  qed
  show ?thesis
  proof (cases "is_GuardError x")
    case True
    then show ?thesis using set[OF assms] by (simp add: inspect_failed_def wp_andthen)
  next
    case False
    have "wp (bind (on_object (exhausted_or_internal c)) set_error) (\<lambda>_. wp ?rest (\<lambda>_ t. inspected w t) (\<lambda>_ t. files w (\<lambda>f f'. f' = f) (snd t)))
        (\<lambda>_ t. files w (\<lambda>f f'. f' = f) (snd t)) s"
      by (rule obj_step[OF exhausted_calls load_quiet(2) assms]) (simp_all add: set)
    then show ?thesis using False by (simp add: inspect_failed_def wp_andthen)
  qed
qed

text \<open>The decision: the file is as it was, or it holds the claim, taken from an owner that is not live.\<close>

definition claimed :: "world \<Rightarrow> bytes option \<Rightarrow> bytes option \<Rightarrow> bool" where
  "claimed w f f' \<longleftrightarrow> f' = f \<or> (\<exists>claim. claims f claim f' \<and> \<not> live w (auth_of f))"

definition decided :: "world \<Rightarrow> refresh_decision \<Rightarrow> world \<Rightarrow> bool" where
  "decided w d w' \<longleftrightarrow> files w (claimed w) w' \<and> (\<forall>claim. rd_claim d = Some claim \<longrightarrow> files w (\<lambda>f f'. claims f claim f') w')"

lemma decided_same: "files w (\<lambda>f f'. f' = f) w' \<Longrightarrow> rd_claim d = None \<Longrightarrow> decided w d w'"
  by (auto simp: decided_def claimed_def elim: files_mono)

lemma marker_data_pid: "marker_data (marker_json g p tok t) = Inr b \<Longrightarrow> tok \<noteq> [] \<Longrightarrow> 0 < p"
  by (auto simp: marker_data_def marker_document_def marker_json_fields rbind_Inr_iff split: if_splits)

lemma claim_locked_wp:
  assumes "files w (\<lambda>f f'. f' = f \<and> marker_state (file_val f') = (m, True) \<and> \<not> live w (auth_of f')) (snd s)"
  shows "wp (claim_locked e m c) (\<lambda>r t. files w (claimed w) (snd t) \<and> (\<forall>claim. r = Some claim \<longrightarrow> files w (\<lambda>f f'. claims f claim f') (snd t)))
     (\<lambda>_ t. files w (claimed w) (snd t)) s"
proof -
  let ?P = "\<lambda>f f'. f' = f \<and> marker_state (file_val f') = (m, True) \<and> \<not> live w (auth_of f')"
  have put: "claims f \<lparr>rc_generation = marker_generation m + 1, rc_pid = cn_pid e, rc_token = tok\<rparr> f' \<and> \<not> live w (auth_of f)"
    if pu: "put ?P (marker_json (marker_generation m + 1) (cn_pid e) tok t) f f'" and ne: "tok \<noteq> []" for f f' tok t
  proof -
    obtain b where b: "marker_data (marker_json (marker_generation m + 1) (cn_pid e) tok t) = Inr b" "f' = Some b"
      "marker_state (file_val f) = (m, True)" "\<not> live w (auth_of f)"
      using pu by (auto simp: put_def)
    have "0 < cn_pid e" using marker_data_pid[OF b(1) ne] .
    then show ?thesis using b marker_auth[OF b(1)] marker_auth_valid[OF b(3)] by (simp add: claims_def held_def)
  qed
  have wr: "wp (bind (write_marker (cn_cache e) (marker_json (marker_generation m + 1) (cn_pid e) tok t) c) (\<lambda>ok.
      ret (if ok then Some \<lparr>rc_generation = marker_generation m + 1, rc_pid = cn_pid e, rc_token = tok\<rparr> else None)))
      (\<lambda>r t. files w (claimed w) (snd t) \<and> (\<forall>claim. r = Some claim \<longrightarrow> files w (\<lambda>f f'. claims f claim f') (snd t))) E v"
    if v: "files w ?P (snd v)" "tok \<noteq> []" for tok t v E
    unfolding wp_bind
  proof (rule wp_mono[OF files_write[OF v(1)]], unfold wp_ret, goal_cases)
    case (1 ok z)
    have a: "files w (claimed w) (snd z)"
      by (rule files_mono[OF 1]) (use put[OF _ v(2)] in \<open>auto simp: claimed_def\<close>)
    have b: "files w (\<lambda>f f'. claims f \<lparr>rc_generation = marker_generation m + 1, rc_pid = cn_pid e, rc_token = tok\<rparr> f') (snd z)" if ok
      by (rule files_mono[OF 1]) (use put[OF _ v(2)] that in auto)
    show ?case using a b by auto
  qed simp
  have quiet: "files w (claimed w) v" if "files w ?P v" for v
    using that by (rule files_mono) (simp add: claimed_def)
  have t: "files w ?P (logged (''process_token'', a) (snd s))" "files w ?P (logged (''now'', x) (logged (''process_token'', a) (snd s)))" for a x
    using assms by (auto simp: files_def file_run_append)
  show ?thesis
    unfolding claim_locked_def wp_bind[of "ext _"] wp_ext wp_bind[of wall_clock] wall_clock_wp
    by (auto simp: wp_simps quiet t intro!: wr[unfolded wp_bind] split: sum.split val.split option.split)
qed

lemma released_or_wp:
  assumes "files w (\<lambda>f f'. f' = f) (snd s)" "\<And>t. files w (\<lambda>f f'. f' = f) (snd t) \<Longrightarrow> wp m (\<lambda>d t. decided w d (snd t)) E t"
  shows "wp (released_or m) (\<lambda>d t. decided w d (snd t)) E s"
  unfolding released_or_def
  by (rule release_step[OF assms(1)]) (auto simp: wp_ret decide_result_def intro!: decided_same assms(2))

lemma claim_or_wait_wp:
  assumes "inspected w s"
  shows "wp (claim_or_wait e c) (\<lambda>d t. decided w d (snd t)) (\<lambda>_ t. files w (claimed w) (snd t)) s"
proof -
  let ?st = "snd (fst s)"
  have f: "files w (\<lambda>f f'. f' = f) (snd s)" using assms unfolding inspected_def by (rule files_mono) simp
  have same: "files w (claimed w) v" if "files w (\<lambda>f f'. f' = f) v" for v
    using that by (rule files_mono) (simp add: claimed_def)
  have code: "wp (bind (on_object (exhausted_or_internal c)) (\<lambda>code. ret (decide_result (coordination_result code))))
      (\<lambda>d t. decided w d (snd t)) (\<lambda>_ t. files w (claimed w) (snd t)) t" if "files w (\<lambda>f f'. f' = f) (snd t)" for t
    by (rule obj_step[OF exhausted_calls load_quiet(2) that]) (auto simp: wp_ret decide_result_def intro: decided_same same)
  have plain: "wp (released_or (ret d)) (\<lambda>d t. decided w d (snd t)) E s" if "rd_claim d = None" for d E
    by (rule released_or_wp[OF f]) (simp add: wp_ret decided_same that)
  let ?J = "\<lambda>r t. files w (\<lambda>f f'. claimed w f f' \<and> (\<forall>cl. fst r = Some cl \<longrightarrow> claims f cl f')) (snd t)"
  have handler: "wp (if is_GuardError x then ret (None, Some (guard_code x)) else bind (on_object (exhausted_or_internal c)) (\<lambda>code. ret (None, Some code)))
      ?J (\<lambda>_ t. files w (claimed w) (snd t)) t" if "files w (claimed w) (snd t)" for x t
  proof (cases "is_GuardError x")
    case True
    then show ?thesis using that by (simp add: wp_ret)
  next
    case False
    have "wp (bind (on_object (exhausted_or_internal c)) (\<lambda>code. ret (None, Some code))) ?J (\<lambda>_ t. files w (claimed w) (snd t)) t"
      by (rule obj_step[OF exhausted_calls load_quiet(2) that]) (simp_all add: wp_ret)
    then show ?thesis using False by simp
  qed
  have claim: "wp (catch
           (bind (on_object (claim_locked e (rs_marker ?st) c)) (\<lambda>claim.
            if claim \<noteq> None then ret (claim, None) else bind (on_object (exhausted_or_internal c)) (\<lambda>code. ret (None, Some code))))
           (\<lambda>x. if is_GuardError x then ret (None, Some (guard_code x))
                else bind (on_object (exhausted_or_internal c)) (\<lambda>code. ret (None, Some code)))) ?J (\<lambda>_ t. files w (claimed w) (snd t)) s"
    if "rs_error ?st = None" "rs_cached ?st = None" "rs_owner ?st \<notin> {Some OwnerAlive, Some OwnerUnknown}"
  proof -
    have m: "files w (\<lambda>f f'. f' = f \<and> marker_state (file_val f') = (rs_marker ?st, True) \<and> \<not> live w (auth_of f')) (snd (fst (fst s), snd s))"
      using assms that unfolding inspected_def by (auto elim: files_mono)
    show ?thesis
      unfolding wp_catch wp_bind[of "on_object (claim_locked _ _ _)"] wp_within
    proof (rule wp_mono[OF claim_locked_wp[OF m]], goal_cases)
      case (1 r t)
      show ?case
      proof (cases r)
        case None
        have "wp (bind (on_object (exhausted_or_internal c)) (\<lambda>code. ret (None, Some code))) ?J
            (\<lambda>x. wp (if is_GuardError x then ret (None, Some (guard_code x)) else bind (on_object (exhausted_or_internal c)) (\<lambda>code. ret (None, Some code)))
              ?J (\<lambda>_ t. files w (claimed w) (snd t))) ((fst t, snd (fst s)), snd t)"
          by (rule obj_step[OF exhausted_calls load_quiet(2), of w "claimed w"]) (use 1 in \<open>simp_all add: wp_ret handler\<close>)
        then show ?thesis using None by simp
      next
        case (Some cl)
        have "files w (\<lambda>f f'. claimed w f f' \<and> claims f cl f') (snd t)" by (rule files_conj) (use 1 Some in auto)
        then show ?thesis using Some by (simp add: wp_ret)
      qed
    qed (simp add: handler)
  qed
  have rest: "wp (bind (release_inspection claim) (\<lambda>ok.
       case (if ok then err else Some ''internal_error'') of
         Some code \<Rightarrow> ret (decide_result (coordination_result code))
       | None \<Rightarrow> ret \<lparr>rd_claim = claim, rd_wait = False, rd_result = None\<rparr>)) (\<lambda>d t. decided w d (snd t)) E t" if "?J (claim, err) t" for claim err t E
  proof (rule release_step[OF that], goal_cases)
    case (1 ok v)
    have "files w (claimed w) (snd v)" "\<forall>cl. claim = Some cl \<longrightarrow> files w (\<lambda>f f'. claims f cl f') (snd v)"
      using 1 by (auto elim: files_mono)
    then show ?case by (auto simp: wp_ret decided_def decide_result_def split: option.split)
  qed
  consider code where "rs_error ?st = Some code"
    | "rs_error ?st = None" "rs_cached ?st \<noteq> None"
    | "rs_error ?st = None" "rs_cached ?st = None" "rs_owner ?st = Some OwnerAlive"
    | "rs_error ?st = None" "rs_cached ?st = None" "rs_owner ?st = Some OwnerUnknown"
    | "rs_error ?st = None" "rs_cached ?st = None" "rs_owner ?st \<notin> {Some OwnerAlive, Some OwnerUnknown}"
    by blast
  then show ?thesis
  proof cases
    case 1
    have "wp (andthen (release_inspection None) (ret (decide_result (coordination_result code)))) (\<lambda>d t. decided w d (snd t)) (\<lambda>_ t. files w (claimed w) (snd t)) s"
      unfolding andthen_def by (rule release_step[OF f]) (auto simp: wp_ret decide_result_def intro: decided_same)
    then show ?thesis unfolding claim_or_wait_def wp_bind[of "field _"] wp_field by (simp add: 1)
  next
    case 2
    then show ?thesis unfolding claim_or_wait_def wp_bind[of "field _"] wp_field by (simp add: plain decide_result_def)
  next
    case 3
    then show ?thesis unfolding claim_or_wait_def wp_bind[of "field _"] wp_field by (simp add: plain)
  next
    case 4
    then show ?thesis unfolding claim_or_wait_def wp_bind[of "field _"] wp_field by (simp add: released_or_wp[OF f] code)
  next
    case 5
    have "wp (bind (catch
           (bind (on_object (claim_locked e (rs_marker ?st) c)) (\<lambda>claim.
            if claim \<noteq> None then ret (claim, None) else bind (on_object (exhausted_or_internal c)) (\<lambda>code. ret (None, Some code))))
           (\<lambda>x. if is_GuardError x then ret (None, Some (guard_code x))
                else bind (on_object (exhausted_or_internal c)) (\<lambda>code. ret (None, Some code)))) (\<lambda>(claim, err).
         bind (release_inspection claim) (\<lambda>ok.
           case (if ok then err else Some ''internal_error'') of
             Some code \<Rightarrow> ret (decide_result (coordination_result code))
           | None \<Rightarrow> ret \<lparr>rd_claim = claim, rd_wait = False, rd_result = None\<rparr>)))
         (\<lambda>d t. decided w d (snd t)) (\<lambda>_ t. files w (claimed w) (snd t)) s"
      unfolding wp_bind[of "catch _ _"] by (rule wp_mono[OF claim[OF 5]]) (auto simp only: split_paired_all prod.case intro!: rest)
    then show ?thesis unfolding claim_or_wait_def wp_bind[of "field _"] wp_field using 5 by (simp only: option.case) (simp)
  qed
qed

lemma inspect_section_wp:
  "wp (inspect_section e c) (\<lambda>d t. decided w d (snd t)) (\<lambda>_ t. files w (claimed w) (snd t)) (co, w)"
proof -
  have b: "wp (inspect_body e c) (\<lambda>_ t. inspected w t) (\<lambda>_ t. files w (\<lambda>f f'. f' = f) (snd t)) ((co, empty_state), w)"
    by (rule inspect_body_wp) simp_all
  have i: "wp (catch (inspect_body e c) (inspect_failed c)) (\<lambda>_ t. inspected w t) (\<lambda>_ t. files w (\<lambda>f f'. f' = f) (snd t)) ((co, empty_state), w)"
    unfolding wp_catch by (rule wp_mono[OF b]) (auto intro: inspect_failed_wp)
  have "wp (andthen (catch (inspect_body e c) (inspect_failed c)) (claim_or_wait e c)) (\<lambda>d t. decided w d (snd t))
      (\<lambda>_ t. files w (claimed w) (snd t)) ((co, empty_state), w)"
    unfolding wp_andthen by (rule wp_mono[OF i]) (auto intro: claim_or_wait_wp simp: claimed_def elim: files_mono)
  then show ?thesis unfolding inspect_section_def wp_with_local by simp
qed

text \<open>The attempt is this section, after the recovery and the close of what a previous attempt left.\<close>

lemma attempt_section:
  assumes "co_lease co = None" "co_claim co = None"
  shows "attempt e c (co, w) = inspect_section e c (co, w)"
  using assms by (simp add: attempt_def inspect_section_def inspect_state_def close_pending_def recover_pending_claim_def
      with_local_def andthen_def bind_def field_def within_def ret_def)

end
