(* ===== verification/RefreshMachine.thy ===== *)
theory RefreshMachine
  imports CoordFacts
begin

text \<open>
  The refresh protocol of all the processes that share a cache entry. A history of the marker file is a sequence of critical
  sections, each run by some coordinator under the mutex (\<open>critical\<close>); the sections refine the steps of a small machine on
  the authority that the file names (\<open>step\<close>): claim the next generation, or give one's own claim up.
\<close>

section \<open>The machine\<close>

inductive step :: "authority \<Rightarrow> authority \<Rightarrow> bool" where
  claim: "a \<noteq> Broken \<Longrightarrow> 0 < p \<Longrightarrow> step a (Held (generation a + 1) p tok)"
| retire: "step (Held g p tok) (Free g)"

inductive_cases step_HeldE: "step (Held g p tok) b"
inductive_simps step_Broken: "step Broken b"

text \<open>What a coordinator in good order holds: a pending claim has an owner.\<close>

definition coord_ok :: "coord \<Rightarrow> bool" where
  "coord_ok co \<longleftrightarrow> (\<forall>claim. co_claim co = Some claim \<longrightarrow> rc_pid claim \<noteq> 0)"

inductive critical :: "bytes option \<Rightarrow> bytes option \<Rightarrow> bool" where
  inspect: "inspect_section e c (co, w) = (r, (co', w')) \<Longrightarrow> file_run f (recent w w') f' \<Longrightarrow> critical f f'"
| finish: "finish_claim e claim doc c (co, w) = (r, (co', w')) \<Longrightarrow> rc_pid claim \<noteq> 0 \<Longrightarrow> file_run f (recent w w') f' \<Longrightarrow> critical f f'"
| recover: "recover_pending_claim e c (co, w) = (r, (co', w')) \<Longrightarrow> coord_ok co \<Longrightarrow> file_run f (recent w w') f' \<Longrightarrow> critical f f'"

section \<open>Refinement\<close>

lemma retired_step: "retired claim f f' \<Longrightarrow> f' = f \<or> step (auth_of f) (auth_of f')"
  by (auto simp: retired_def held_def intro: step.intros)

lemma claims_step: "claims f claim f' \<Longrightarrow> step (auth_of f) (auth_of f')"
  unfolding claims_def held_def using step.claim by metis

lemma inspect_files: "inspect_section e c (co, w) = (r, (co', w')) \<Longrightarrow> files w (claimed w) w'"
  using inspect_section_wp[of e c w co] by (cases r) (auto simp: wp_def decided_def)

lemma inspect_claims: "inspect_section e c (co, w) = (Inr d, (co', w')) \<Longrightarrow> rd_claim d = Some claim \<Longrightarrow> files w (\<lambda>f f'. claims f claim f') w'"
  using inspect_section_wp[of e c w co] by (auto simp: wp_def decided_def)

lemma finish_files: "finish_claim e claim doc c (co, w) = (r, (co', w')) \<Longrightarrow> rc_pid claim \<noteq> 0 \<Longrightarrow> finished w claim w'"
  using finish_wp[of claim e doc c w co] by (cases r) (auto simp: wp_def)

lemma critical_step: "critical f f' \<Longrightarrow> auth_of f' = auth_of f \<or> step (auth_of f) (auth_of f')"
proof (induction rule: critical.induct)
  case (inspect e c co w r co' w' f f')
  then have "claimed w f f'" using inspect_files filesD by blast
  then show ?case using claims_step by (auto simp: claimed_def)
next
  case (finish e claim doc c co w r co' w' f f')
  then have "retired claim f f'" using finish_files filesD unfolding finished_def by blast
  then show ?case using retired_step by blast
next
  case (recover e c co w r co' w' f f')
  have "\<And>claim. co_claim co = Some claim \<Longrightarrow> rc_pid claim \<noteq> 0" using recover(2) by (simp add: coord_ok_def)
  then have "f' = f \<or> (\<exists>claim. co_claim co = Some claim \<and> retired claim f f')"
    using recover_wp[of co e c w] recover(1,3) filesD by (cases r) (auto simp: wp_def dest!: filesD)
  then show ?case using retired_step by blast
qed

text \<open>Generations never decrease along a history, and a claim takes a new one.\<close>

lemma step_generation: "step a b \<Longrightarrow> generation a \<le> generation b"
  by (auto elim: step.cases)

lemma critical_generation: "critical f f' \<Longrightarrow> generation (auth_of f) \<le> generation (auth_of f')"
  using critical_step step_generation by fastforce

lemma history_generation: "critical\<^sup>*\<^sup>* f f' \<Longrightarrow> generation (auth_of f) \<le> generation (auth_of f')"
  by (induction rule: rtranclp_induct) (auto dest: critical_generation)

text \<open>A claim that is named at both ends of a history is named all along it: leaving it and coming back would need a new
  generation.\<close>

lemma steps_generation: "step\<^sup>*\<^sup>* a b \<Longrightarrow> generation a \<le> generation b"
  by (induction rule: rtranclp_induct) (auto dest: step_generation)

lemma held_back: "step\<^sup>*\<^sup>* x (Held g p tok) \<Longrightarrow> generation x = g \<Longrightarrow> x = Held g p tok"
proof (induction rule: converse_rtranclp_induct)
  case (step x y)
  have "generation y \<le> g" "generation x \<le> generation y"
    using steps_generation[OF step(2)] step_generation[OF step(1)] by simp_all
  then have "y = Held g p tok" using step by simp
  then show ?case using step(1,4) by (auto elim: step.cases)
qed simp

lemma history_steps: "critical\<^sup>*\<^sup>* f f' \<Longrightarrow> step\<^sup>*\<^sup>* (auth_of f) (auth_of f')"
proof (induction rule: rtranclp_induct)
  case (step y z)
  then show ?case using critical_step[OF step(2)] by auto
qed simp

lemma held_between:
  assumes "critical\<^sup>*\<^sup>* f m" "critical\<^sup>*\<^sup>* m f'" "auth_of f = Held g p tok" "auth_of f' = Held g p tok"
  shows "auth_of m = Held g p tok"
  using held_back[of "auth_of m" g p tok] history_steps[OF assms(2)] history_generation[OF assms(1)] history_generation[OF assms(2)] assms(3,4)
  by simp

section \<open>A sample history\<close>

text \<open>A world in which the guard is free and nothing is cached: process 5 claims; process 6 finds 5 gone.\<close>

definition sample_token :: ustr where "sample_token = [49]"

definition sample_coord_env :: "int \<Rightarrow> coord_env" where
  "sample_coord_env p = \<lparr>cn_cache = sample_env, cn_guard = sample_guard_config, cn_pid = p\<rparr>"

definition idle :: coord where "idle = \<lparr>co_lease = None, co_claim = None\<rparr>"

definition sample_answers :: "val \<Rightarrow> call \<Rightarrow> py_exn + val" where
  "sample_answers marker c =
     (if fst c = ''sid'' then Inr (VBytes sample_sid) else if fst c = ''CreateMutexW'' then Inr (VInt 7)
      else if fst c = ''clock_ns'' then Inr (VInt 10) else if fst c = ''WaitForSingleObject'' then Inr (VInt 0)
      else if fst c = ''now'' then Inr (VInt 1000) else if fst c = ''cache_read'' then Inl FileNotFoundError
      else if fst c = ''marker_read'' then Inr marker
      else if c = (''process_token'', [VInt 5]) \<and> marker \<noteq> VNone then Inr process_missing
      else if fst c = ''process_token'' then Inr (VStr sample_token)
      else Inr (VBool True))"

definition sample_world :: "val \<Rightarrow> answered list \<Rightarrow> world" where
  "sample_world marker tr = \<lparr>w_answer = (\<lambda>_. sample_answers marker), w_trace = tr\<rparr>"

lemma sample_ext: "ext c (x, sample_world m tr) = (sample_answers m c, (x, sample_world m (tr @ [(c, sample_answers m c)])))"
  by (simp add: ext_def answer_of_def sample_world_def logged_def)

lemma stamp_1000: "stamp_text 1000 = [48, 48, 48, 49, 45, 48, 49, 45, 48, 49, 84, 48, 48, 58, 48, 48, 58, 48, 48, 46, 48, 48, 49, 48, 48, 48, 90]"
  by (simp add: run cong: run_cong)

lemma sample_document: "g \<in> {1, 2} \<Longrightarrow> p \<in> {5, 6} \<Longrightarrow> marker_document (JObj (marker_json g p sample_token 1000)) = Inr (marker_json g p sample_token 1000)"
proof -
  have "cache_timestamp (JStr (stamp_text 1000)) = Inr 1000"
    by (simp add: cache_timestamp_def stamp_parse_text in_range_def max_us_def)
  moreover have "set (map fst (marker_json g p sample_token 1000)) = set (map u marker_fields)"
    by (simp add: marker_json_def marker_fields_def)
  ultimately show "g \<in> {1, 2} \<Longrightarrow> p \<in> {5, 6} \<Longrightarrow> marker_document (JObj (marker_json g p sample_token 1000)) = Inr (marker_json g p sample_token 1000)"
    by (auto simp: marker_document_def marker_json_fields sample_token_def)
qed

lemma sample_canonical: "\<exists>b. canonical_json (JObj (marker_json 1 5 sample_token 1000)) = Inr b" "\<exists>b. canonical_json (JObj (marker_json 2 6 sample_token 1000)) = Inr b"
proof -
  have "canonical_json (JObj (marker_json 1 5 sample_token 1000)) \<noteq> Inl x" "canonical_json (JObj (marker_json 2 6 sample_token 1000)) \<noteq> Inl x" for x
    unfolding canonical_json_def dumps_sorted marker_json_sorted
    by (simp_all add: run marker_json_def stamp_1000 sample_token_def compact_def cong: run_cong)
  then show "\<exists>b. canonical_json (JObj (marker_json 1 5 sample_token 1000)) = Inr b" "\<exists>b. canonical_json (JObj (marker_json 2 6 sample_token 1000)) = Inr b"
    by (metis sum.exhaust)+
qed

definition sample_data :: "int \<Rightarrow> bytes" where
  "sample_data g = (case canonical_json (JObj (marker_json g (g + 4) sample_token 1000)) of Inr b \<Rightarrow> b | Inl _ \<Rightarrow> [])"

lemma sample_data: "canonical_json (JObj (marker_json 1 5 sample_token 1000)) = Inr (sample_data 1)"
  "canonical_json (JObj (marker_json 2 6 sample_token 1000)) = Inr (sample_data 2)"
  using sample_canonical by (auto simp: sample_data_def)

lemma sample_state: "marker_state VNone = (None, True)" "marker_state (VBytes (sample_data 1)) = (Some (marker_json 1 5 sample_token 1000), True)"
    "marker_state (VBytes (sample_data 2)) = (Some (marker_json 2 6 sample_token 1000), True)"
  using marker_round(1)[of 1 5 sample_token 1000 "sample_data 1"] marker_round(1)[of 2 6 sample_token 1000 "sample_data 2"]
    sample_document[of 1 5] sample_document[of 2 6] sample_data
  by (simp_all add: marker_state_def marker_data_def)

lemma sample_recent [simp]: "recent (sample_world m []) (sample_world m tr) = tr"
  by (simp add: recent_def sample_world_def)

lemmas sample_prog = ret_def fail_def bind_def andthen_def catch_def outcome_def field_def update_def lift_result_def within_def
  with_local_def clock_ns_def as_int_def usable_def bounded_call_def

lemmas sample_time = usable_ns_def remaining_ns_def sample_deadline_def

lemmas sample_guard = coordination_lease_def ascii_encode_def acquire_key_def guarded_def guard_sid_def guard_name_def digest_text_def
  acquire_name_def valid_sid_def sid_bytes_def truthy_def wait_ms_def val_is_def close_or_retain_def finish_lease_def close_lease_def
  lease_release_def lease_close_def sample_sid_def max_wait_ns_def

definition sample_claim :: "int \<Rightarrow> refresh_claim" where
  "sample_claim g = \<lparr>rc_generation = g, rc_pid = g + 4, rc_token = sample_token\<rparr>"

definition sample_lease_value :: guard_lease where
  "sample_lease_value = \<lparr>gl_handle = VInt 7, gl_name = u ''g-'' @ hex_text (guard_payload sample_sid (ce_fingerprint sample_env)),
     gl_owned = True, gl_closed = False\<rparr>"

lemma sample_world_eq [simp]: "sample_world m tr = sample_world m tr' \<longleftrightarrow> tr = tr'"
  by (simp add: sample_world_def)

text \<open>A method that only makes other calls than those on the marker, in a sample world.\<close>

definition runs :: "('o, 'a) prog \<Rightarrow> 'o \<Rightarrow> val \<Rightarrow> py_exn + 'a \<Rightarrow> 'o \<Rightarrow> bool" where
  "runs m x v r x' \<longleftrightarrow> (\<forall>tr. \<exists>tr'. m (x, sample_world v tr) = (r, (x', sample_world v (tr @ tr'))) \<and> (\<forall>a \<in> set tr'. fst (fst a) \<notin> marker_calls))"

lemma runsE:
  assumes "runs m x v r x'"
  obtains g where "\<And>tr. m (x, sample_world v tr) = (r, (x', sample_world v (tr @ g tr)))" "\<And>tr f f'. file_run f (g tr) f' \<longleftrightarrow> f' = f"
proof -
  obtain g where "\<And>tr. m (x, sample_world v tr) = (r, (x', sample_world v (tr @ g tr))) \<and> (\<forall>a \<in> set (g tr). fst (fst a) \<notin> marker_calls)"
    using assms unfolding runs_def by (elim choice[THEN exE]) blast
  then show ?thesis using that[of g] by (simp add: file_run_quiet)
qed

lemma sample_lease: "runs (coordination_lease (sample_coord_env p) sample_deadline) x m (Inr sample_lease_value) x"
proof -
  have k: "list_all (\<lambda>c. c < 128) (ce_fingerprint sample_env)" "ce_fingerprint sample_env \<noteq> []" by (simp_all add: sample_env_def u_Cons)
  show ?thesis
    using k by (simp add: runs_def coordination_lease_def sample_prog sample_time sample_guard sample_ext sample_answers_def sample_coord_env_def
      sample_guard_config_def marker_calls_def sample_lease_value_def)
qed

lemma sample_closed: "runs (close_or_retain sample_lease_value) co m (Inr True) co"
  by (simp add: runs_def close_or_retain_def sample_prog sample_time sample_guard sample_ext sample_answers_def sample_lease_value_def marker_calls_def)

lemma sample_load: "runs (load sample_env sample_deadline) x m (Inr None) x"
  by (simp add: runs_def load_def cache_read_def sample_prog sample_time sample_ext sample_answers_def marker_calls_def)

lemma sample_marker_read: "read_marker_state sample_env sample_deadline (x, sample_world m tr) =
    (Inr (marker_state m), (x, sample_world m (tr @ [((''clock_ns'', []), Inr (VInt 10)), ((''marker_read'', [VStr (marker_path sample_env)]), Inr m)])))"
  by (simp add: read_marker_state_def sample_prog sample_time sample_ext sample_answers_def)

lemma sample_marker_write: "marker_data k = Inr b \<Longrightarrow> write_marker sample_env k sample_deadline (x, sample_world m tr) =
    (Inr True, (x, sample_world m (tr @ [((''clock_ns'', []), Inr (VInt 10)), ((''marker_write'', [VStr (marker_path sample_env), VBytes b]), Inr (VBool True))])))"
  by (simp add: write_marker_def marker_data_def[symmetric] sample_prog sample_time sample_ext sample_answers_def)

lemmas sample_section = inspect_section_def inspect_body_def inspect_cache_def inspect_marker_def inspect_owner_def claim_or_wait_def
  claim_locked_def wall_clock_def release_inspection_def sample_prog

lemma sample_env_field [simp]: "cn_cache (sample_coord_env p) = sample_env" "cn_pid (sample_coord_env p) = p"
  by (simp_all add: sample_coord_env_def)

lemma sample_parts:
  obtains a b k where
    "\<And>tr. coordination_lease (sample_coord_env p) sample_deadline (idle, sample_world m tr) = (Inr sample_lease_value, (idle, sample_world m (tr @ a tr)))"
    "\<And>tr. load sample_env sample_deadline (idle, sample_world m tr) = (Inr None, (idle, sample_world m (tr @ b tr)))"
    "\<And>tr. close_or_retain sample_lease_value (idle, sample_world m tr) = (Inr True, (idle, sample_world m (tr @ k tr)))"
    "\<And>tr f f'. file_run f (a tr) f' \<longleftrightarrow> f' = f" "\<And>tr f f'. file_run f (b tr) f' \<longleftrightarrow> f' = f" "\<And>tr f f'. file_run f (k tr) f' \<longleftrightarrow> f' = f"
  by (rule runsE[OF sample_lease[of p idle m]], rule runsE[OF sample_load[of idle m]], rule runsE[OF sample_closed[of idle m]]) (rule that)

lemma sample_facts: "process_missing \<noteq> VStr sample_token" "sample_token \<noteq> []" "in_range 1000"
  "marker_data (marker_json 1 5 sample_token 1000) = Inr (sample_data 1)" "marker_data (marker_json 2 6 sample_token 1000) = Inr (sample_data 2)"
  "dict_get (u ''generation'') (marker_json g p tok t) = Some (JInt g)" "dict_get (u ''owner_pid'') (marker_json g p tok t) = Some (JInt p)"
  "dict_get (u ''owner_token'') (marker_json g p tok t) = Some (JStr tok)"
  by (simp_all add: process_missing_def in_range_def max_us_def marker_data_def sample_document sample_data)
    (simp_all add: marker_json_def dict_get_def sample_token_def)

lemma sample_inspect: "\<exists>tr. inspect_section (sample_coord_env 5) sample_deadline (idle, sample_world VNone []) =
    (Inr \<lparr>rd_claim = Some (sample_claim 1), rd_wait = False, rd_result = None\<rparr>, (idle, sample_world VNone tr)) \<and> file_run None tr (Some (sample_data 1))"
proof -
  obtain a b k where r: "\<And>tr. coordination_lease (sample_coord_env 5) sample_deadline (idle, sample_world VNone tr) = (Inr sample_lease_value, (idle, sample_world VNone (tr @ a tr)))"
    "\<And>tr. load sample_env sample_deadline (idle, sample_world VNone tr) = (Inr None, (idle, sample_world VNone (tr @ b tr)))"
    "\<And>tr. close_or_retain sample_lease_value (idle, sample_world VNone tr) = (Inr True, (idle, sample_world VNone (tr @ k tr)))"
    "\<And>tr f f'. file_run f (a tr) f' \<longleftrightarrow> f' = f" "\<And>tr f f'. file_run f (b tr) f' \<longleftrightarrow> f' = f" "\<And>tr f f'. file_run f (k tr) f' \<longleftrightarrow> f' = f"
    using sample_parts[of 5 VNone] by blast
  show ?thesis
    by (simp add: sample_section r sample_facts sample_marker_read sample_marker_write[OF sample_facts(4)] sample_state empty_state_def
        marker_generation_def sample_ext sample_answers_def sample_claim_def file_run_append)
qed

lemma sample_takeover: "\<exists>tr. inspect_section (sample_coord_env 6) sample_deadline (idle, sample_world (VBytes (sample_data 1)) []) =
    (Inr \<lparr>rd_claim = Some (sample_claim 2), rd_wait = False, rd_result = None\<rparr>, (idle, sample_world (VBytes (sample_data 1)) tr))
    \<and> file_run (Some (sample_data 1)) tr (Some (sample_data 2))"
proof -
  let ?m = "VBytes (sample_data 1)"
  obtain a b k where r: "\<And>tr. coordination_lease (sample_coord_env 6) sample_deadline (idle, sample_world ?m tr) = (Inr sample_lease_value, (idle, sample_world ?m (tr @ a tr)))"
    "\<And>tr. load sample_env sample_deadline (idle, sample_world ?m tr) = (Inr None, (idle, sample_world ?m (tr @ b tr)))"
    "\<And>tr. close_or_retain sample_lease_value (idle, sample_world ?m tr) = (Inr True, (idle, sample_world ?m (tr @ k tr)))"
    "\<And>tr f f'. file_run f (a tr) f' \<longleftrightarrow> f' = f" "\<And>tr f f'. file_run f (b tr) f' \<longleftrightarrow> f' = f" "\<And>tr f f'. file_run f (k tr) f' \<longleftrightarrow> f' = f"
    using sample_parts[of 6 ?m] by blast
  show ?thesis
    by (simp add: sample_section r sample_facts sample_marker_read sample_marker_write[OF sample_facts(5)] sample_state empty_state_def
        marker_generation_def sample_ext sample_answers_def sample_claim_def file_run_append marker_json_fields owner_state_of_def)
qed

lemma sample_publish: "publish sample_env sample_bytes sample_deadline (x, sample_world m tr) =
    (Inr True, (x, sample_world m (tr @ [((''now'', []), Inr (VInt 1000)), ((''clock_ns'', []), Inr (VInt 10)),
      ((''cache_write'', [VStr (ce_path sample_env), VBytes sample_envelope_bytes]), Inr (VBool True))])))"
  using sample_bytes(2) sample_envelope_bytes(2)
  by (simp add: publish_def sample_read sample_last sample_env_simps sample_valid sample_root_facts sample_public sample_envelope_bytes(1)
      sample_facts wall_clock_def cache_write_def sample_prog sample_time sample_ext sample_answers_def)

lemma sample_retired: "\<exists>b. marker_data (marker_json 1 0 [] 1000) = Inr b"
proof -
  have "canonical_json (JObj (marker_json 1 0 [] 1000)) \<noteq> Inl x" for x
    unfolding canonical_json_def dumps_sorted marker_json_sorted by (simp add: run marker_json_def stamp_1000 compact_def cong: run_cong)
  moreover have "marker_document (JObj (marker_json 1 0 [] 1000)) = Inr (marker_json 1 0 [] 1000)"
  proof -
    have "cache_timestamp (JStr (stamp_text 1000)) = Inr 1000" by (simp add: cache_timestamp_def stamp_parse_text sample_facts)
    moreover have "set (map fst (marker_json 1 0 [] 1000)) = set (map u marker_fields)" by (simp add: marker_json_def marker_fields_def)
    ultimately show ?thesis by (auto simp: marker_document_def marker_json_fields)
  qed
  ultimately show ?thesis by (cases "canonical_json (JObj (marker_json 1 0 [] 1000))") (auto simp: marker_data_def)
qed

lemma sample_finish_claim: "\<exists>r s f. finish_claim (sample_coord_env 5) (sample_claim 1) (Some sample_bytes) sample_deadline (idle, sample_world (VBytes (sample_data 1)) []) = (r, s)
    \<and> file_run (Some (sample_data 1)) (recent (sample_world (VBytes (sample_data 1)) []) (snd s)) f
    \<and> called ''cache_write'' (recent (sample_world (VBytes (sample_data 1)) []) (snd s)) \<noteq> []"
proof -
  let ?m = "VBytes (sample_data 1)"
  obtain a b k where r: "\<And>tr. coordination_lease (sample_coord_env 5) sample_deadline (idle, sample_world ?m tr) = (Inr sample_lease_value, (idle, sample_world ?m (tr @ a tr)))"
    "\<And>tr. load sample_env sample_deadline (idle, sample_world ?m tr) = (Inr None, (idle, sample_world ?m (tr @ b tr)))"
    "\<And>tr. close_or_retain sample_lease_value (idle, sample_world ?m tr) = (Inr True, (idle, sample_world ?m (tr @ k tr)))"
    "\<And>tr f f'. file_run f (a tr) f' \<longleftrightarrow> f' = f" "\<And>tr f f'. file_run f (b tr) f' \<longleftrightarrow> f' = f" "\<And>tr f f'. file_run f (k tr) f' \<longleftrightarrow> f' = f"
    using sample_parts[of 5 ?m] by blast
  obtain d where d: "marker_data (marker_json 1 0 [] 1000) = Inr d" using sample_retired by blast
  have c: "same_claim (Some (marker_json 1 5 sample_token 1000)) (sample_claim 1)" "rc_generation (sample_claim 1) = 1"
    by (simp_all add: same_claim_def sample_facts sample_claim_def)
  have "\<exists>r s. finish_claim (sample_coord_env 5) (sample_claim 1) (Some sample_bytes) sample_deadline (idle, sample_world ?m []) = (r, s)
    \<and> file_run (Some (sample_data 1)) (recent (sample_world ?m []) (snd s)) (Some d)
    \<and> called ''cache_write'' (recent (sample_world ?m []) (snd s)) \<noteq> []"
    by (simp add: finish_claim_def retire_marker_def inactive_marker_def wall_clock_def sample_prog r sample_marker_read sample_state c sample_publish
        sample_marker_write[OF d] sample_facts sample_ext sample_answers_def file_run_append)
  then show ?thesis by blast
qed

section \<open>Properties\<close>

text \<open>C28: the coordinators refine the machine. Whatever the answers of the system and whatever other processes did before, a
  critical section of any coordinator leaves the authority of the marker file as it was, or makes one step: it claims the next
  generation of a readable marker, or it retires the claim the marker names. A file that no coordinator can read stays so.\<close>

theorem critical_refines:
  "critical f f' \<Longrightarrow> step\<^sup>=\<^sup>= (auth_of f) (auth_of f')"
  using critical_step[of f f'] by auto

theorem critical_refines_witness: "step\<^sup>=\<^sup>= (auth_of None) (auth_of (Some (sample_data 1)))"
proof -
  have "critical None (Some (sample_data 1))" using sample_inspect critical.inspect by (metis sample_recent)
  then show ?thesis by (rule critical_refines)
qed

text \<open>C29: of two claims in a history, the later one has the greater generation, so no two coordinators ever hold the same one.\<close>

theorem claims_increase:
  assumes "inspect_section e c (co, w) = (Inr d, s)" "rd_claim d = Some a" "file_run f0 (recent w (snd s)) f1"
    and "critical\<^sup>*\<^sup>* f1 f2"
    and "inspect_section e' c' (co', w') = (Inr d', s')" "rd_claim d' = Some b" "file_run f2 (recent w' (snd s')) f3"
  shows "rc_generation a < rc_generation b"
proof -
  have "claims f0 a f1" using inspect_claims[of e c co w d "fst s" "snd s" a] assms(1-3) filesD by fastforce
  moreover have "claims f2 b f3" using inspect_claims[of e' c' co' w' d' "fst s'" "snd s'" b] assms(5-7) filesD by fastforce
  ultimately show ?thesis using history_generation[OF assms(4)] by (simp add: claims_def held_def)
qed

theorem claims_increase_witness: "rc_generation (sample_claim 1) < rc_generation (sample_claim 2)"
proof -
  obtain t1 where 1: "inspect_section (sample_coord_env 5) sample_deadline (idle, sample_world VNone []) =
      (Inr \<lparr>rd_claim = Some (sample_claim 1), rd_wait = False, rd_result = None\<rparr>, (idle, sample_world VNone t1))" "file_run None t1 (Some (sample_data 1))"
    using sample_inspect by blast
  obtain t2 where 2: "inspect_section (sample_coord_env 6) sample_deadline (idle, sample_world (VBytes (sample_data 1)) []) =
      (Inr \<lparr>rd_claim = Some (sample_claim 2), rd_wait = False, rd_result = None\<rparr>, (idle, sample_world (VBytes (sample_data 1)) t2))"
      "file_run (Some (sample_data 1)) t2 (Some (sample_data 2))"
    using sample_takeover by blast
  show ?thesis
    by (rule claims_increase[OF 1(1) _ _ rtranclp.rtrancl_refl 2(1), of _ None "Some (sample_data 1)" _ "Some (sample_data 2)"]) (use 1(2) 2(2) in simp_all)
qed

text \<open>C30: only the authority publishes. When the section that finishes a claim writes to the cache, the marker names that claim
  at that moment, and it did in every state of the file since the claim was made: nobody else claimed in between.\<close>

theorem publish_exclusive:
  assumes "inspect_section e c (co, w) = (Inr d, s)" "rd_claim d = Some a" "file_run f0 (recent w (snd s)) f1"
    and "critical\<^sup>*\<^sup>* f1 m" "critical\<^sup>*\<^sup>* m f2"
    and "finish_claim e a doc c' (co', w') = (r, s')" "file_run f2 (recent w' (snd s')) f3"
    and "called ''cache_write'' (recent w' (snd s')) \<noteq> []"
  shows "auth_of f2 = held a \<and> auth_of m = held a"
proof -
  have a: "claims f0 a f1" using inspect_claims[of e c co w d "fst s" "snd s" a] assms(1-3) filesD by fastforce
  then have "finished w' a (snd s')"
    using finish_files[of e a doc c' co' w' r "fst s'" "snd s'"] assms(6) by (simp add: claims_def)
  then have "files w' (\<lambda>f _. auth_of f = held a) (snd s')"
    using assms(8) by (simp add: finished_def unpublished_def)
  then have 2: "auth_of f2 = held a" using assms(7) filesD by blast
  have "auth_of f1 = held a" using a by (simp add: claims_def)
  then show ?thesis using held_between[OF assms(4,5)] 2 unfolding held_def by blast
qed

theorem publish_exclusive_witness: "auth_of (Some (sample_data 1)) = held (sample_claim 1)"
proof -
  obtain t1 where 1: "inspect_section (sample_coord_env 5) sample_deadline (idle, sample_world VNone []) =
      (Inr \<lparr>rd_claim = Some (sample_claim 1), rd_wait = False, rd_result = None\<rparr>, (idle, sample_world VNone t1))" "file_run None t1 (Some (sample_data 1))"
    using sample_inspect by blast
  obtain r s f where 2: "finish_claim (sample_coord_env 5) (sample_claim 1) (Some sample_bytes) sample_deadline (idle, sample_world (VBytes (sample_data 1)) []) = (r, s)"
    "file_run (Some (sample_data 1)) (recent (sample_world (VBytes (sample_data 1)) []) (snd s)) f"
    "called ''cache_write'' (recent (sample_world (VBytes (sample_data 1)) []) (snd s)) \<noteq> []"
    using sample_finish_claim by blast
  have "auth_of (Some (sample_data 1)) = held (sample_claim 1) \<and> auth_of (Some (sample_data 1)) = held (sample_claim 1)"
    by (rule publish_exclusive[OF 1(1) _ _ rtranclp.rtrancl_refl rtranclp.rtrancl_refl 2]) (use 1(2) in simp_all)
  then show ?thesis ..
qed

text \<open>C31: a live owner keeps its claim. An inspection takes a claim from an owner only when the system answers that the process is
  gone or is another one; if it never does, the file is left as it is.\<close>

theorem live_owner_kept:
  assumes "inspect_section e c (co, w) = (r, s)" "file_run f (recent w (snd s)) f'"
    and "auth_of f = Held g q tok" "never_dead w q tok"
  shows "f' = f \<and> (\<forall>d. r = Inr d \<longrightarrow> rd_claim d = None)"
proof -
  have c: "claimed w f f'" using inspect_files[of e c co w r "fst s" "snd s"] assms(1,2) filesD by fastforce
  have l: "live w (auth_of f)" using assms(3,4) by (auto simp: live_def)
  then have same: "f' = f" using c by (simp add: claimed_def)
  have "rd_claim d = None" if d: "r = Inr d" for d
  proof (rule ccontr)
    assume "rd_claim d \<noteq> None"
    then obtain a where "rd_claim d = Some a" by blast
    then have "claims f a f'" using inspect_claims[of e c co w d "fst s" "snd s" a] assms(1,2) d filesD by fastforce
    then have h: "auth_of f = held a" and g: "rc_generation a = generation (auth_of f) + 1"
      unfolding same claims_def by blast+
    have "generation (auth_of f) = rc_generation a" unfolding h held_def by simp
    then show False using g by linarith
  qed
  then show ?thesis using same by blast
qed

lemma sample_wait: "\<exists>tr. inspect_section (sample_coord_env 5) sample_deadline (idle, sample_world (VBytes (sample_data 2)) []) =
    (Inr \<lparr>rd_claim = None, rd_wait = True, rd_result = None\<rparr>, (idle, sample_world (VBytes (sample_data 2)) tr))
    \<and> file_run (Some (sample_data 2)) tr (Some (sample_data 2))"
proof -
  let ?m = "VBytes (sample_data 2)"
  obtain a b k where r: "\<And>tr. coordination_lease (sample_coord_env 5) sample_deadline (idle, sample_world ?m tr) = (Inr sample_lease_value, (idle, sample_world ?m (tr @ a tr)))"
    "\<And>tr. load sample_env sample_deadline (idle, sample_world ?m tr) = (Inr None, (idle, sample_world ?m (tr @ b tr)))"
    "\<And>tr. close_or_retain sample_lease_value (idle, sample_world ?m tr) = (Inr True, (idle, sample_world ?m (tr @ k tr)))"
    "\<And>tr f f'. file_run f (a tr) f' \<longleftrightarrow> f' = f" "\<And>tr f f'. file_run f (b tr) f' \<longleftrightarrow> f' = f" "\<And>tr f f'. file_run f (k tr) f' \<longleftrightarrow> f' = f"
    using sample_parts[of 5 ?m] by blast
  show ?thesis
    by (simp add: sample_section released_or_def r sample_facts sample_facts(1)[symmetric] sample_marker_read sample_state empty_state_def sample_ext sample_answers_def
        file_run_append marker_json_fields owner_state_of_def)
qed

lemma sample_live: "auth_of (Some (sample_data 2)) = Held 2 6 sample_token" "never_dead (sample_world m []) 6 sample_token"
  using marker_auth[OF sample_facts(5)] sample_facts(1) by (simp_all add: never_dead_def sample_world_def sample_answers_def)

theorem live_owner_kept_witness:
  "\<exists>r s. inspect_section (sample_coord_env 5) sample_deadline (idle, sample_world (VBytes (sample_data 2)) []) = (r, s)
     \<and> (\<forall>d. r = Inr d \<longrightarrow> rd_claim d = None)"
proof -
  obtain r s tr where e: "inspect_section (sample_coord_env 5) sample_deadline (idle, sample_world (VBytes (sample_data 2)) []) = (r, s)"
    and t: "snd s = sample_world (VBytes (sample_data 2)) tr" "file_run (Some (sample_data 2)) tr (Some (sample_data 2))"
    using sample_wait by (metis snd_conv)
  have "file_run (Some (sample_data 2)) (recent (sample_world (VBytes (sample_data 2)) []) (snd s)) (Some (sample_data 2))" using t by simp
  from live_owner_kept[OF e this sample_live] show ?thesis using e by blast
qed

end
