(* ===== verification/Adapter.thy ===== *)
theory Adapter
  imports HelperWire Projection
begin

text \<open>
  The boundary to the \<open>limitora\<close> package (\<open>src/yasb_limitora/limitora_api.py\<close>): what the package answers is turned
  into the model's views.

  The package is not under \<open>src/\<close>, so its objects are inputs. \<open>Inst x\<close> is an object that passes the \<open>isinstance\<close>
  test the adapter makes on it, with what the adapter reads of it, and \<open>Alien\<close> any other object; a read attribute
  whose type the adapter does not test is a \<open>json\<close>, where every value that is neither a string nor an integer does for an object
  of another class. The activation and the read of a client are inputs too, by the \<open>except\<close> clause their exception meets
  (\<open>activation\<close>, \<open>read_outcome\<close>); the equality of two provider ids of the package is the parameter \<open>same_id\<close>.
  Recording a provider error for the native proofs (\<open>_observe_provider_error\<close>) changes nothing here and is left out.
\<close>

section \<open>The package's objects\<close>

datatype 'a inst = Inst 'a | Alien

record lib_quantity =
  lq_metric :: "json inst"
  lq_value :: "dec option"
  lq_unit :: json

record lib_window =
  lw_source :: json
  lw_kind :: "json inst"
  lw_scope :: json
  lw_period :: json
  lw_plan_id :: json
  lw_availability :: "json inst"
  lw_limit :: "lib_quantity inst option"
  lw_used :: "lib_quantity inst option"
  lw_remaining :: "lib_quantity inst option"
  lw_reset_at :: "datetime inst option"

text \<open>The status of a credit: whether it is \<open>AVAILABLE\<close>.\<close>

record lib_credit =
  lc_available :: "bool inst"
  lc_expires_at :: "datetime inst option"

datatype lib_details = NoDetails | Details "lib_credit inst list" | AlienDetails

record lib_summary =
  ls_count :: json
  ls_credits :: lib_details

record lib_status =
  lt_provider_id :: "json inst"
  lt_state :: "json inst"
  lt_observed_at :: "datetime inst"

record lib_snapshot =
  ln_provider_id :: "json inst"
  ln_status :: "lib_status inst"
  ln_source :: "json inst"
  ln_windows :: "lib_window inst list inst"
  ln_fetched_at :: "datetime inst"
  ln_data_at :: "datetime inst"
  ln_resets :: "lib_summary inst"

record lib_result =
  lr_snapshot :: "lib_snapshot inst"
  lr_freshness :: "json inst"

text \<open>A \<open>ProviderError\<close>: the member of \<open>ProviderErrorKind\<close> the adapter tells apart, and the safe message.\<close>

datatype error_kind = KindTransport | KindUnauthorized | KindRateLimited | KindOther

record error_facts =
  ef_kind :: error_kind
  ef_message :: ustr

datatype read_outcome =
    ReadTimeout | ReadProviderError error_facts | ReadConfiguration | ReadFailed | ReadUndetected
  | ReadSnapshot lib_result | ReadAlien

datatype activation = ActConfiguration | ActFailed | ActClient read_outcome

text \<open>An object that is no datetime fails the checks of the model with the message a naive one gets.\<close>

definition dt_of :: "datetime inst \<Rightarrow> datetime" where
  "dt_of x = (case x of Inst d \<Rightarrow> d | Alien \<Rightarrow> \<lparr>dt_us = 0, dt_off = None\<rparr>)"

section \<open>Mapping a snapshot\<close>

text \<open>\<open>_UnknownProviderState\<close> is an exception of its own here.\<close>

definition unknown_state_message :: string where "unknown_state_message = ''_UnknownProviderState''"

definition invalid :: "string \<Rightarrow> py_exn + 'a" where
  "invalid msg = Inl (ValueError msg)"

definition instance_of :: "string \<Rightarrow> 'a inst \<Rightarrow> py_exn + 'a" where
  "instance_of msg x = (case x of Inst y \<Rightarrow> Inr y | Alien \<Rightarrow> invalid msg)"

definition api_source :: "(ustr \<Rightarrow> ustr) \<Rightarrow> json \<Rightarrow> provider_key \<Rightarrow> ustr option" where
  "api_source nf reference p = (case reference of
     JStr s \<Rightarrow>
       let candidate = py_strip (nf s); expected = (if p = Codex then codex_source_id else opencode_source_id) in
       if candidate = expected then Some candidate else None
   | _ \<Rightarrow> None)"

definition api_quantity :: "(ustr \<Rightarrow> ustr) \<Rightarrow> lib_quantity inst option \<Rightarrow> py_exn + quantity option" where
  "api_quantity nf q = (case q of
     None \<Rightarrow> Inr None
   | Some i \<Rightarrow>
       rbind (instance_of ''invalid provider quantity'' i) (\<lambda>x.
       rbind (instance_of ''invalid provider metric'' (lq_metric x)) (\<lambda>m.
       rbind (enum_of mk_members mk_value m ''unsupported provider metric'') (\<lambda>metric.
       case lq_value x of
         None \<Rightarrow> invalid ''invalid provider quantity''
       | Some v \<Rightarrow>
           if \<not> dec_finite v \<or> dec_less v dec0 then invalid ''invalid provider quantity''
           else
             rbind (canonical_identity nf (lq_unit x) ''invalid provider unit'') (\<lambda>un.
             rbind (mk_quantity nf v (JStr (mk_value metric)) (JStr un)) (\<lambda>q. Inr (Some q)))))))"

definition api_window :: "(ustr \<Rightarrow> ustr) \<Rightarrow> provider_key \<Rightarrow> lib_window inst \<Rightarrow> py_exn + window" where
  "api_window nf p w =
     rbind (instance_of ''invalid provider quota window'' w) (\<lambda>x.
     let src = api_source nf (lw_source x) p; t = (src \<noteq> None) in
     rbind (instance_of ''invalid provider quota window'' (lw_kind x)) (\<lambda>k.
     rbind (enum_of wk_members wk_value k ''invalid provider quota window'') (\<lambda>kind.
     rbind (if t then rbind (instance_of ''invalid provider quota window'' (lw_availability x)) (\<lambda>a.
              enum_of av_members av_value a ''invalid provider quota window'') else Inr AUnavailable) (\<lambda>avail.
     rbind (canonical_identity nf (lw_scope x) ''invalid provider scope'') (\<lambda>scope.
     rbind (canonical_identity nf (lw_period x) ''invalid provider period'') (\<lambda>period.
     rbind (if \<not> t \<or> lw_plan_id x = JNull then Inr None
            else rbind (canonical_identity nf (lw_plan_id x) ''invalid provider plan id'') (\<lambda>s. Inr (Some s))) (\<lambda>plan.
     rbind (if t then api_quantity nf (lw_limit x) else Inr None) (\<lambda>l.
     rbind (if t then api_quantity nf (lw_used x) else Inr None) (\<lambda>us.
     rbind (if t then api_quantity nf (lw_remaining x) else Inr None) (\<lambda>re.
     mk_window nf (JStr (wk_value kind)) (JStr scope) (JStr period) (map_option JStr plan) (JStr (av_value avail)) src
       l us re (if t then map_option dt_of (lw_reset_at x) else None)))))))))))"

text \<open>The loop of \<open>_reset_expiry\<close> over the details: the expiries of the available credits after now and whether an
  available one has none, or nothing for a malformed detail.\<close>

fun expiry_scan :: "datetime \<Rightarrow> lib_credit inst list \<Rightarrow> datetime list \<Rightarrow> bool \<Rightarrow> (datetime list \<times> bool) option" where
  "expiry_scan now [] cs unknown = Some (cs, unknown)"
| "expiry_scan now (c # rest) cs unknown = (case c of
     Alien \<Rightarrow> None
   | Inst x \<Rightarrow> (case lc_available x of
       Alien \<Rightarrow> None
     | Inst avail \<Rightarrow> (case lc_expires_at x of
         None \<Rightarrow> expiry_scan now rest cs (unknown \<or> avail)
       | Some e \<Rightarrow>
           if \<not> aware (dt_of e) then None
           else if avail \<and> \<not> dt_le (dt_of e) now then expiry_scan now rest (cs @ [dt_of e]) unknown
           else expiry_scan now rest cs unknown)))"

text \<open>\<open>min\<close>: the first of the least elements.\<close>

fun earliest :: "datetime list \<Rightarrow> datetime option" where
  "earliest [] = None"
| "earliest (d # ds) = Some (foldl (\<lambda>a b. if dt_le a b then a else b) d ds)"

definition reset_expiry :: "lib_details \<Rightarrow> int \<Rightarrow> datetime \<Rightarrow> datetime option" where
  "reset_expiry details count now = (case details of
     AlienDetails \<Rightarrow> None
   | _ \<Rightarrow> (case expiry_scan now (case details of Details cs \<Rightarrow> cs | _ \<Rightarrow> []) [] False of
       None \<Rightarrow> None
     | Some (cs, unknown) \<Rightarrow> if count \<noteq> 0 \<and> int (length cs) = count \<and> \<not> unknown then earliest cs else None))"

definition api_reset_credits :: "lib_summary inst \<Rightarrow> datetime \<Rightarrow> py_exn + resets option" where
  "api_reset_credits summary now = (case summary of
     Alien \<Rightarrow> Inr None
   | Inst s \<Rightarrow> (case ls_count s of
       JInt n \<Rightarrow>
         if n < 0 then Inr None
         else rbind (mk_resets (JInt n) (reset_expiry (ls_credits s) n now)) (\<lambda>r. Inr (Some r))
     | _ \<Rightarrow> Inr None))"

definition expected_provider :: "provider_key \<Rightarrow> json" where
  "expected_provider p = JStr (if p = Codex then u ''codex'' else u ''opencode-go'')"

text \<open>The view, once every part of the result has its type.\<close>

definition build_snapshot ::
  "(ustr \<Rightarrow> ustr) \<Rightarrow> provider_key \<Rightarrow> lib_snapshot \<Rightarrow> lib_status \<Rightarrow> json \<Rightarrow> public_state \<Rightarrow> json \<Rightarrow> lib_window inst list \<Rightarrow> datetime \<Rightarrow> py_exn + snapshot"
where
  "build_snapshot nf p s st reference public fresh ws now =
     rbind (rmap (api_window nf p) ws) (\<lambda>windows.
     rbind (enum_of fr_members fr_value fresh ''SnapshotFreshness'') (\<lambda>f.
     rbind (api_reset_credits (ln_resets s) now) (\<lambda>rs.
     mk_snapshot (JStr (pub_value public)) (JStr (fr_value f)) (dt_of (lt_observed_at st)) (dt_of (ln_fetched_at s))
       (dt_of (ln_data_at s)) (api_source nf reference p) windows rs)))"

definition api_snapshot :: "(ustr \<Rightarrow> ustr) \<Rightarrow> (json \<Rightarrow> json \<Rightarrow> bool) \<Rightarrow> provider_key \<Rightarrow> lib_result \<Rightarrow> datetime \<Rightarrow> py_exn + snapshot" where
  "api_snapshot nf same_id p r now =
     rbind (instance_of ''invalid provider snapshot'' (lr_snapshot r)) (\<lambda>s.
     rbind (instance_of ''invalid provider snapshot'' (ln_provider_id s)) (\<lambda>pid.
     rbind (instance_of ''invalid provider status'' (ln_status s)) (\<lambda>st.
     rbind (instance_of ''invalid provider status'' (lt_provider_id st)) (\<lambda>sid.
     rbind (instance_of ''invalid provider source'' (ln_source s)) (\<lambda>reference.
     if pid \<noteq> expected_provider p \<or> \<not> same_id sid pid then invalid ''provider snapshot identity mismatch''
     else
       rbind (instance_of unknown_state_message (lt_state st)) (\<lambda>stv.
       rbind (enum_of pub_members pub_value stv unknown_state_message) (\<lambda>public.
       rbind (instance_of ''invalid provider snapshot metadata'' (lr_freshness r)) (\<lambda>fresh.
       rbind (instance_of ''invalid provider snapshot metadata'' (ln_windows s)) (\<lambda>ws.
       build_snapshot nf p s st reference public fresh ws now)))))))))"

section \<open>Reading a provider\<close>

definition api_error :: "provider_key \<Rightarrow> error_code \<Rightarrow> py_exn + view" where
  "api_error p code = mk_view (JStr (pk_value p)) (JStr (ps_value SafeErr)) (Some code) JNull (Some (JStr (po_value OExecError))) None None"

text \<open>The clock: \<open>now()\<close> raises, or gives an object.\<close>

definition snapshot_view :: "(ustr \<Rightarrow> ustr) \<Rightarrow> (json \<Rightarrow> json \<Rightarrow> bool) \<Rightarrow> provider_key \<Rightarrow> lib_result \<Rightarrow> py_exn + datetime inst \<Rightarrow> py_exn + view" where
  "snapshot_view nf same_id p r now =
     (case rbind now (\<lambda>d. rbind (check_aware (dt_of d) ''invalid adapter clock'') (\<lambda>d. rbind (to_utc d) (api_snapshot nf same_id p r))) of
        Inr s \<Rightarrow> mk_view (JStr (pk_value p)) (JStr (ps_value (legacy_state_for_snapshot s))) None JNull
                   (Some (JStr (po_value OSnapshot))) (Some s) None
      | Inl e \<Rightarrow>
          if e = ValueError unknown_state_message then api_error p EUnknownState
          else if is_ValueError e \<or> is_TypeError e then api_error p EInvalidData
          else Inl e)"

definition timeout_messages :: "ustr list" where
  "timeout_messages = [u ''HTTP request timed out'', u ''OpenCode Go request timed out'', u ''OpenCode Go request budget expired'']"

definition transport_timeout :: "error_facts \<Rightarrow> bool" where
  "transport_timeout e \<longleftrightarrow> ef_kind e = KindTransport \<and> ef_message e \<in> set timeout_messages"

definition failure_evidence_of :: "error_facts \<Rightarrow> failure_evidence" where
  "failure_evidence_of e =
     (if transport_timeout e then EvTimeout
      else if ef_kind e = KindUnauthorized then CredentialInvalid
      else if ef_kind e = KindRateLimited then EvRateLimited else EvUnavailable)"

definition api_read :: "(ustr \<Rightarrow> ustr) \<Rightarrow> (json \<Rightarrow> json \<Rightarrow> bool) \<Rightarrow> provider_key \<Rightarrow> read_outcome \<Rightarrow> py_exn + datetime inst
    \<Rightarrow> py_exn + view \<times> failure_evidence option" where
  "api_read nf same_id p r now =
     (let plain = (\<lambda>v. rbind v (\<lambda>v. Inr (v, None))); with_evidence = (\<lambda>x v. rbind v (\<lambda>v. Inr (v, Some x))) in
      case r of
        ReadTimeout \<Rightarrow> with_evidence EvTimeout (api_error p ETimeout)
      | ReadProviderError e \<Rightarrow>
          with_evidence (failure_evidence_of e) (api_error p (if transport_timeout e then ETimeout else EProvider))
      | ReadConfiguration \<Rightarrow> plain (api_error p EConfiguration)
      | ReadFailed \<Rightarrow> plain (api_error p EInternal)
      | ReadUndetected \<Rightarrow> plain (mk_view (JStr (pk_value p)) (JStr (ps_value StUnavailable)) None JNull (Some (JStr (po_value OUndetected))) None None)
      | ReadSnapshot s \<Rightarrow> plain (snapshot_view nf same_id p s now)
      | ReadAlien \<Rightarrow> plain (api_error p EInternal))"

definition codex_read :: "(ustr \<Rightarrow> ustr) \<Rightarrow> (json \<Rightarrow> json \<Rightarrow> bool) \<Rightarrow> activation \<Rightarrow> py_exn + datetime inst \<Rightarrow> py_exn + view" where
  "codex_read nf same_id client now = (case client of
     ActConfiguration \<Rightarrow> api_error Codex EConfiguration
   | ActFailed \<Rightarrow> api_error Codex EInternal
   | ActClient r \<Rightarrow> rbind (api_read nf same_id Codex r now) (\<lambda>(v, _). Inr v))"

record opencode_request =
  or_api_key :: ustr
  or_timeout :: json
  or_deadline :: "json option"

definition json_number :: "json \<Rightarrow> (int + pyfloat) option" where
  "json_number v = (case v of JInt n \<Rightarrow> Some (Inl n) | JFloat f \<Rightarrow> Some (Inr f) | _ \<Rightarrow> None)"

text \<open>\<open>0 < x <= n\<close> and \<open>x <= 0\<close> of a number, false on a NaN.\<close>

definition number_within :: "int + pyfloat \<Rightarrow> int \<Rightarrow> bool" where
  "number_within x n = (case x of Inl i \<Rightarrow> 0 < i \<and> i \<le> n | Inr f \<Rightarrow> float_gt_int f 0 \<and> (float_less_int f n \<or> float_eq_int f n))"

definition mk_opencode_request :: "json \<Rightarrow> json \<Rightarrow> json option \<Rightarrow> py_exn + opencode_request" where
  "mk_opencode_request key timeout deadline = (case key of
     JStr s \<Rightarrow>
       if s = [] then invalid ''invalid OpenCode API key''
       else if (case json_number timeout of None \<Rightarrow> True | Some x \<Rightarrow> \<not> number_within x 10) then invalid ''invalid OpenCode timeout''
       else if (case deadline of None \<Rightarrow> False | Some d \<Rightarrow> (case json_number d of
                 None \<Rightarrow> True | Some (Inl n) \<Rightarrow> n \<le> 0 | Some (Inr f) \<Rightarrow> float_less_int f 0 \<or> float_eq_int f 0))
       then invalid ''invalid OpenCode deadline''
       else Inr \<lparr>or_api_key = s, or_timeout = timeout, or_deadline = deadline\<rparr>
   | _ \<Rightarrow> invalid ''invalid OpenCode API key'')"

definition opencode_disabled :: "py_exn + view" where
  "opencode_disabled = mk_view (JStr (pk_value OpencodeGo)) (JStr (ps_value StUnavailable)) None JNull (Some (JStr (po_value ONotRun))) None (Some (u ''disabled''))"

definition opencode_read :: "(ustr \<Rightarrow> ustr) \<Rightarrow> (json \<Rightarrow> json \<Rightarrow> bool) \<Rightarrow> opencode_request inst \<Rightarrow> activation \<Rightarrow> py_exn + datetime inst
    \<Rightarrow> py_exn + view \<times> failure_evidence option" where
  "opencode_read nf same_id request client now =
     (let plain = (\<lambda>v. rbind v (\<lambda>v. Inr (v, None))) in
      case request of
        Alien \<Rightarrow> plain opencode_disabled
      | Inst q \<Rightarrow>
          if or_api_key q = [] then plain opencode_disabled
          else (case client of
            ActConfiguration \<Rightarrow> plain (api_error OpencodeGo EConfiguration)
          | ActFailed \<Rightarrow> plain (api_error OpencodeGo EInternal)
          | ActClient r \<Rightarrow> api_read nf same_id OpencodeGo r now))"

lemmas [run] = dt_of_def unknown_state_message_def invalid_def instance_of_def api_source_def api_quantity_def api_window_def reset_expiry_def
  api_reset_credits_def expected_provider_def build_snapshot_def api_snapshot_def api_error_def snapshot_view_def timeout_messages_def transport_timeout_def
  failure_evidence_of_def api_read_def codex_read_def opencode_disabled_def opencode_read_def

section \<open>What the adapter returns\<close>

text \<open>What the views of a provider may carry: its own source or none, and of a window of no trusted source its identity alone.\<close>

definition window_own :: "provider_key \<Rightarrow> window \<Rightarrow> bool" where
  "window_own p w \<longleftrightarrow> w_source_id w = Some (expected_source p)
     \<or> w_source_id w = None \<and> w_availability w = AUnavailable \<and> w_plan_id w = None \<and> w_quantities w = [] \<and> w_reset_at w = None"

definition view_own :: "provider_key \<Rightarrow> view \<Rightarrow> bool" where
  "view_own p v \<longleftrightarrow> v_provider v = p \<and> v_display_label v = None \<and> v_outcome v \<noteq> None
     \<and> (\<forall>s. v_snapshot v = Some s \<longrightarrow> s_source_id s \<in> {None, Some (expected_source p)} \<and> (\<forall>w \<in> set (s_windows s). window_own p w))"

lemma api_source_own: "api_source nf r p \<in> {None, Some (expected_source p)}"
  by (auto simp: api_source_def expected_source_def Let_def split: json.split)

lemma own_safe: "api_source nf r p = x \<Longrightarrow> safe_source x"
  using api_source_own[of nf r p] by (auto simp: safe_source_def expected_source_def split: if_splits)

lemma instance_of_Inr [simp]: "instance_of msg x = Inr y \<longleftrightarrow> x = Inst y"
  by (simp add: instance_of_def invalid_def split: inst.split)

lemma api_quantity_ok: "nfc_law nf \<Longrightarrow> api_quantity nf q = Inr r \<Longrightarrow> opt_all (quantity_ok nf) r"
  by (auto simp: api_quantity_def invalid_def rbind_Inr_iff mk_quantity_ok split: option.split_asm inst.split_asm if_split_asm)

lemma untrusted_window:
  assumes "mk_window nf k sc pe None a None None None None None = Inr w" "a = JStr (av_value AUnavailable)"
  shows "window_own p w"
  using assms by (auto simp: mk_window_def rbind_Inr_iff source_id_def window_own_def w_quantities_def somes_def simp del: av_value.simps dest!: window_values_check_Inr)

lemma api_window_ok:
  assumes n: "nfc_law nf" and w: "api_window nf p x = Inr w"
  shows "window_ok nf w \<and> window_own p w"
proof -
  obtain y k where x: "x = Inst y" "lw_kind y = Inst k"
    using w by (auto simp: api_window_def Let_def rbind_Inr_iff)
  let ?src = "api_source nf (lw_source y) p"
  let ?t = "?src \<noteq> None"
  obtain kind av sc pe pl l us re where q: "(if ?t then api_quantity nf (lw_limit y) else Inr None) = Inr l"
      "(if ?t then api_quantity nf (lw_used y) else Inr None) = Inr us" "(if ?t then api_quantity nf (lw_remaining y) else Inr None) = Inr re"
    and pl: "(if \<not> ?t \<or> lw_plan_id y = JNull then Inr None
        else rbind (canonical_identity nf (lw_plan_id y) ''invalid provider plan id'') (\<lambda>s. Inr (Some s))) = Inr pl"
    and av: "\<not> ?t \<longrightarrow> av = AUnavailable"
    and m: "mk_window nf (JStr (wk_value kind)) (JStr sc) (JStr pe) (map_option JStr pl) (JStr (av_value av)) ?src l us re
       (if ?t then map_option dt_of (lw_reset_at y) else None) = Inr w"
    using w by (simp add: api_window_def x Let_def rbind_Inr_iff split: if_split_asm) blast+
  have "opt_all (quantity_ok nf) l" "opt_all (quantity_ok nf) us" "opt_all (quantity_ok nf) re"
    using q api_quantity_ok[OF n] by (auto split: if_split_asm)
  then have "list_all (quantity_ok nf) (somes [l, us, re])" by (cases l; cases us; cases re) (simp_all add: somes_def)
  then have ok: "window_ok nf w" using mk_window_ok[OF n _ m] by blast
  show ?thesis
  proof (cases ?t)
    case True
    have "w_source_id w = ?src"
      using m True api_source_own[of nf "lw_source y" p]
      by (auto simp: mk_window_def rbind_Inr_iff source_id_Inr dest!: window_values_check_Inr)
    then show ?thesis using ok True api_source_own[of nf "lw_source y" p] by (auto simp: window_own_def)
  next
    case False
    then show ?thesis using ok m q pl av untrusted_window[of nf _ "JStr sc" "JStr pe"] by auto
  qed
qed

lemma api_snapshot_ok:
  assumes n: "nfc_law nf" and s: "api_snapshot nf same_id p r now = Inr s"
  shows "snapshot_ok nf s \<and> s_source_id s \<in> {None, Some (expected_source p)} \<and> (\<forall>w \<in> set (s_windows s). window_own p w)"
proof -
  obtain y st reference pub fresh ws where "build_snapshot nf p y st reference pub fresh ws now = Inr s"
    using s by (auto simp: api_snapshot_def invalid_def rbind_Inr_iff split: if_split_asm)
  then obtain windows f rs where w: "rmap (api_window nf p) ws = Inr windows"
    and m: "mk_snapshot (JStr (pub_value pub)) (JStr (fr_value f)) (dt_of (lt_observed_at st)) (dt_of (ln_fetched_at y)) (dt_of (ln_data_at y))
      (api_source nf reference p) windows rs = Inr s"
    by (auto simp: build_snapshot_def rbind_Inr_iff)
  have own: "\<forall>x \<in> set windows. window_ok nf x \<and> window_own p x"
    using rmap_set[OF w] api_window_ok[OF n] by blast
  then have "snapshot_ok nf s" using mk_snapshot_ok[OF _ m] by (simp add: list_all_iff)
  moreover have "s_source_id s = api_source nf reference p" "s_windows s = windows"
    using m by (auto simp: mk_snapshot_def rbind_Inr_iff source_id_Inr split: if_split_asm)
  ultimately show ?thesis using own api_source_own[of nf reference p] by simp
qed

lemma mk_view_error: "api_error p c = Inr \<lparr>v_provider = p, v_state = SafeErr, v_error = Some c, v_display_label = None,
    v_outcome = Some OExecError, v_snapshot = None, v_not_run_reason = None\<rparr>"
  by (simp add: api_error_def mk_view_def view_outcome_def view_outcome_check_def label_def del: pk_value.simps ps_value.simps po_value.simps)

lemma mk_view_plain: "out \<in> {OUndetected, ONotRun} \<Longrightarrow> (reason \<noteq> None \<longrightarrow> out = ONotRun) \<Longrightarrow>
    mk_view (JStr (pk_value p)) (JStr (ps_value StUnavailable)) None JNull (Some (JStr (po_value out))) None reason =
    Inr \<lparr>v_provider = p, v_state = StUnavailable, v_error = None, v_display_label = None,
      v_outcome = Some out, v_snapshot = None, v_not_run_reason = reason\<rparr>"
  by (auto simp: mk_view_def view_outcome_def view_outcome_check_def label_def simp del: pk_value.simps ps_value.simps po_value.simps)

lemma mk_view_snapshot: "mk_view (JStr (pk_value p)) (JStr (ps_value (legacy_state_for_snapshot s))) None JNull (Some (JStr (po_value OSnapshot))) (Some s) None =
    Inr \<lparr>v_provider = p, v_state = legacy_state_for_snapshot s, v_error = None, v_display_label = None,
      v_outcome = Some OSnapshot, v_snapshot = Some s, v_not_run_reason = None\<rparr>"
  by (auto simp: mk_view_def view_outcome_def view_outcome_check_def label_def legacy_state_for_snapshot_def
      simp del: pk_value.simps ps_value.simps po_value.simps)

text \<open>Everything the mapping raises is a \<open>ValueError\<close>.\<close>

definition value_raising :: "py_exn + 'a \<Rightarrow> bool" where
  "value_raising r \<longleftrightarrow> (\<forall>e. r = Inl e \<longrightarrow> is_ValueError e)"

named_theorems raising_intros \<open>the constructs of a computation that raises only value errors\<close>

lemma raising_rules [raising_intros]:
  "value_raising (Inr x)" "value_raising (invalid m)" "value_raising (instance_of m j)" "value_raising (Inl (ValueError m))"
  "value_raising r \<Longrightarrow> (\<And>x. value_raising (f x)) \<Longrightarrow> value_raising (rbind r f)"
  "(b \<Longrightarrow> value_raising r) \<Longrightarrow> (\<not> b \<Longrightarrow> value_raising q) \<Longrightarrow> value_raising (if b then r else q)"
  "value_raising r \<Longrightarrow> (\<And>y. value_raising (g y)) \<Longrightarrow> value_raising (case z of None \<Rightarrow> r | Some y \<Rightarrow> g y)"
  "(\<And>y. value_raising (f' y)) \<Longrightarrow> value_raising (let y = v in f' y)"
  by (auto simp: value_raising_def invalid_def instance_of_def result_simps split: option.split inst.split sum.split)

lemma raising_model [raising_intros]:
  "value_raising (enum_of members val v msg)" "value_raising (canonical_identity nf v msg)" "value_raising (check_aware d msg)"
  "value_raising (source_id so)" "value_raising (mk_resets c x)" "value_raising (recheck_resets rs)"
  by (auto simp: value_raising_def enum_of_def canonical_identity_def check_aware_def source_id_def mk_resets_def recheck_resets_def ropt_def
      rbind_Inl_iff split: json.splits option.splits if_splits)

lemma raising_map [raising_intros]: "(\<And>x. value_raising (f x)) \<Longrightarrow> value_raising (rmap f xs)" "(\<And>x. value_raising (f x)) \<Longrightarrow> value_raising (ropt f z)"
proof -
  show "(\<And>x. value_raising (f x)) \<Longrightarrow> value_raising (rmap f xs)"
    by (induction xs) (auto simp: intro!: raising_rules)
qed (auto simp: ropt_def intro!: raising_rules split: option.split)

lemma raising_decimal [raising_intros]: "value_raising (canonical_decimal v)"
proof (cases v)
  case (DFin s c e)
  obtain c' e' where z: "strip_zeros (length (nat_digits c)) c e = (c', e')" by (meson surj_pair)
  show ?thesis
  proof (cases "dec_neg v \<or> c = 0")
    case False
    have m: "c' mod 10 \<noteq> 0" using strip_zeros_stop[OF _ digits_lt z] False by simp
    then have pos: "0 < c'" by (cases c') auto
    have "\<exists>d. dec_parse (fixed_text c' e') = Inr d"
      using dec_parse_fixed[of e' c'] dec_parse_digits[OF str_nat_all, of "c' * 10 ^ nat e'"] fixed_text_zeros[of c' e'] pos
      by (cases "e' \<le> 0") auto
    then show ?thesis
      using DFin False z fixed_strip[OF m refl, of e'] by (auto simp: canonical_decimal_def value_raising_def Let_def)
  qed (use DFin in \<open>auto simp: canonical_decimal_def value_raising_def\<close>)
qed (simp_all add: canonical_decimal_def value_raising_def)

lemma raising_api: "value_raising (api_snapshot nf same_id p r now)"
proof -
  have c: "value_raising (window_values_check w)" for w
    by (auto simp: window_values_check_def Let_def value_raising_def split: option.splits)
  have q: "value_raising (api_quantity nf q)" for q
    unfolding api_quantity_def mk_quantity_def by (intro raising_intros)
  have w: "value_raising (api_window nf p x)" for x
    unfolding api_window_def mk_window_def Let_def by (intro raising_intros c q)
  have "value_raising (api_reset_credits s now)" for s
    by (auto simp: api_reset_credits_def intro!: raising_intros split: json.split inst.split)
  then show ?thesis unfolding api_snapshot_def build_snapshot_def mk_snapshot_def by (intro raising_intros w)
qed

lemma snapshot_view_ok:
  assumes n: "nfc_law nf" and now: "now = Inr d" "aware (dt_of d) \<longrightarrow> in_range (utc_us (dt_of d))"
  shows "\<exists>v. snapshot_view nf same_id p r now = Inr v \<and> view_ok nf v \<and> view_own p v"
proof -
  have e: "\<exists>v. api_error p c = Inr v \<and> view_ok nf v \<and> view_own p v" for c
    by (simp add: mk_view_error view_ok_def view_own_def)
  define m where "m = rbind (check_aware (dt_of d) ''invalid adapter clock'') (\<lambda>d. rbind (to_utc d) (api_snapshot nf same_id p r))"
  have "value_raising m"
    using now(2) raising_api by (auto simp: m_def check_aware_def to_utc_def value_raising_def)
  moreover have "\<exists>s. snapshot_view nf same_id p r now = Inr s \<and> view_ok nf s \<and> view_own p s" if ms: "m = Inr s" for s
  proof -
    obtain t where "api_snapshot nf same_id p r t = Inr s" using ms by (auto simp: m_def rbind_Inr_iff to_utc_def split: if_split_asm)
    note k = api_snapshot_ok[OF n this]
    have "snapshot_view nf same_id p r now = Inr \<lparr>v_provider = p, v_state = legacy_state_for_snapshot s, v_error = None,
        v_display_label = None, v_outcome = Some OSnapshot, v_snapshot = Some s, v_not_run_reason = None\<rparr>"
      using ms now(1) by (simp add: snapshot_view_def m_def mk_view_snapshot del: po_value.simps)
    then show ?thesis using k by (simp add: view_ok_def view_own_def legacy_state_for_snapshot_def)
  qed
  ultimately show ?thesis
    using e now(1) by (cases m) (auto simp: snapshot_view_def m_def value_raising_def)
qed

section \<open>Reset credits\<close>

text \<open>A credit whose status and expiry can be used, the expiry of an available one after now, and an available one without expiry.\<close>

definition credit_ok :: "lib_credit inst \<Rightarrow> bool" where
  "credit_ok c = (case c of Alien \<Rightarrow> False | Inst x \<Rightarrow> lc_available x \<noteq> Alien \<and> (\<forall>e. lc_expires_at x = Some e \<longrightarrow> aware (dt_of e)))"

definition coming :: "datetime \<Rightarrow> lib_credit inst \<Rightarrow> datetime option" where
  "coming now c = (case c of Alien \<Rightarrow> None | Inst x \<Rightarrow> (case lc_expires_at x of None \<Rightarrow> None
     | Some e \<Rightarrow> if lc_available x = Inst True \<and> \<not> dt_le (dt_of e) now then Some (dt_of e) else None))"

definition endless :: "lib_credit inst \<Rightarrow> bool" where
  "endless c = (case c of Alien \<Rightarrow> False | Inst x \<Rightarrow> lc_available x = Inst True \<and> lc_expires_at x = None)"

lemma expiry_scan_eq: "expiry_scan now cs ds b =
    (if list_all credit_ok cs then Some (ds @ List.map_filter (coming now) cs, b \<or> list_ex endless cs) else None)"
  by (induction cs arbitrary: ds b)
    (auto simp: credit_ok_def coming_def endless_def map_filter_simps split: inst.split option.split)

lemma earliest_least: "earliest ds = Some d \<Longrightarrow> d \<in> set ds \<and> (\<forall>x \<in> set ds. dt_le d x)"
proof -
  have f: "foldl (\<lambda>a b. if dt_le a b then a else b) x ds \<in> insert x (set ds)
      \<and> (\<forall>y \<in> insert x (set ds). dt_le (foldl (\<lambda>a b. if dt_le a b then a else b) x ds) y)" for x ds
    by (induction ds arbitrary: x) (auto simp: dt_le_def; smt (verit))+
  show "earliest ds = Some d \<Longrightarrow> d \<in> set ds \<and> (\<forall>x \<in> set ds. dt_le d x)"
    using f[of "hd ds" "tl ds"] by (cases ds) auto
qed

lemma api_read_ok:
  assumes n: "nfc_law nf" and now: "now = Inr d" "aware (dt_of d) \<longrightarrow> in_range (utc_us (dt_of d))"
  shows "\<exists>v e. api_read nf same_id p r now = Inr (v, e) \<and> view_ok nf v \<and> view_own p v \<and> (e \<noteq> None \<longrightarrow> v_outcome v = Some OExecError)"
proof -
  have e: "\<exists>v. api_error p c = Inr v \<and> view_ok nf v \<and> view_own p v \<and> v_outcome v = Some OExecError" for c
    by (simp add: mk_view_error view_ok_def view_own_def)
  have u: "\<exists>v. mk_view (JStr (pk_value p)) (JStr (ps_value StUnavailable)) None JNull (Some (JStr (po_value OUndetected))) None None = Inr v
      \<and> view_ok nf v \<and> view_own p v"
    using mk_view_plain[of OUndetected None p] by (simp add: view_ok_def view_own_def)
  show ?thesis
  proof (cases r)
    case (ReadSnapshot s)
    then show ?thesis using snapshot_view_ok[OF n now, of same_id p s] by (auto simp: api_read_def)
  next
    case ReadUndetected
    then show ?thesis using u by (auto simp: api_read_def simp del: po_value.simps ps_value.simps)
  next
    case (ReadProviderError x)
    then show ?thesis using e by (simp add: api_read_def) (metis rbind_simps(2))
  qed (use e in \<open>(simp add: api_read_def, metis rbind_simps(2))+\<close>)
qed

section \<open>Properties\<close>

text \<open>C32: whatever the package answers or raises, a read with a usable clock returns a view of its provider, never an
  exception; the view satisfies the invariants of the model and carries data of the provider's own source only, of a window
  from another source its identity alone. Failure evidence comes only with an execution error.\<close>

theorem adapter_total:
  assumes "nfc_law nf" "now = Inr d" "aware (dt_of d) \<longrightarrow> in_range (utc_us (dt_of d))"
  shows "(\<exists>v. codex_read nf same_id client now = Inr v \<and> view_ok nf v \<and> view_own Codex v)
    \<and> (\<exists>v e. opencode_read nf same_id request client now = Inr (v, e) \<and> view_ok nf v \<and> view_own OpencodeGo v
          \<and> (e \<noteq> None \<longrightarrow> v_outcome v = Some OExecError))"
proof -
  have e: "\<exists>v. api_error p c = Inr v \<and> view_ok nf v \<and> view_own p v \<and> v_outcome v = Some OExecError" for p c
    by (simp add: mk_view_error view_ok_def view_own_def)
  have o: "\<exists>v. opencode_disabled = Inr v \<and> view_ok nf v \<and> view_own OpencodeGo v"
    using mk_view_plain[of ONotRun "Some (u ''disabled'')" OpencodeGo] by (simp add: opencode_disabled_def view_ok_def view_own_def)
  have "\<exists>v. codex_read nf same_id client now = Inr v \<and> view_ok nf v \<and> view_own Codex v"
  proof (cases client)
    case (ActClient r)
    then show ?thesis using api_read_ok[OF assms, of same_id Codex r] by (auto simp: codex_read_def)
  qed (use e in \<open>auto simp: codex_read_def\<close>)
  moreover have "\<exists>v e. opencode_read nf same_id request client now = Inr (v, e) \<and> view_ok nf v \<and> view_own OpencodeGo v
      \<and> (e \<noteq> None \<longrightarrow> v_outcome v = Some OExecError)"
  proof (cases "\<exists>q. request = Inst q \<and> or_api_key q \<noteq> []")
    case True
    then obtain q where q: "request = Inst q" "or_api_key q \<noteq> []" by blast
    show ?thesis
    proof (cases client)
      case (ActClient r)
      then show ?thesis using q api_read_ok[OF assms, of same_id OpencodeGo r] by (simp add: opencode_read_def)
    qed (use q e in \<open>(simp add: opencode_read_def, metis rbind_simps(2))+\<close>)
  next
    case False
    then have "opencode_read nf same_id request client now = rbind opencode_disabled (\<lambda>v. Inr (v, None))"
      by (cases request) (simp_all add: opencode_read_def)
    then show ?thesis using o by (metis rbind_simps(2))
  qed
  ultimately show ?thesis ..
qed

theorem adapter_total_witness:
  "\<exists>v. codex_read (\<lambda>s. s) (=) (ActClient (ReadSnapshot \<lparr>lr_snapshot = Alien, lr_freshness = Alien\<rparr>)) (Inr (Inst (utc_of 5))) = Inr v
     \<and> view_ok (\<lambda>s. s) v \<and> view_own Codex v"
  using adapter_total[OF nfc_law_id refl, of "Inst (utc_of 5)" "(=)" "ActClient (ReadSnapshot \<lparr>lr_snapshot = Alien, lr_freshness = Alien\<rparr>)" Alien]
  by (simp add: dt_of_def utc_of_def utc_us_def in_range_def max_us_def)

text \<open>C33: an expiry of the reset credits is given exactly when every credit is usable and the credits available after now are
  as many as the count, which is positive, and none of the available ones lacks its expiry; it is then the least of theirs.\<close>

theorem reset_expiry_least:
  "((\<exists>d. reset_expiry details count now = Some d) \<longleftrightarrow>
     (\<exists>cs. details = Details cs \<and> list_all credit_ok cs \<and> \<not> list_ex endless cs
        \<and> 0 < count \<and> int (length (List.map_filter (coming now) cs)) = count))
   \<and> (case reset_expiry details count now of None \<Rightarrow> True
      | Some d \<Rightarrow> case details of
          Details cs \<Rightarrow> d \<in> set (List.map_filter (coming now) cs) \<and> list_all (dt_le d) (List.map_filter (coming now) cs)
        | _ \<Rightarrow> False)"
proof (cases details)
  case (Details cs)
  let ?m = "List.map_filter (coming now) cs"
  have e: "reset_expiry details count now =
      (if list_all credit_ok cs \<and> \<not> list_ex endless cs \<and> 0 < count \<and> int (length ?m) = count then earliest ?m else None)"
    using Details by (auto simp: reset_expiry_def expiry_scan_eq)
  have "\<exists>d. earliest ?m = Some d" if "0 < count" "int (length ?m) = count"
    using that by (cases ?m) auto
  then show ?thesis using e Details earliest_least[of ?m] by (auto simp: list_all_iff split: option.split)
qed (auto simp: reset_expiry_def)

theorem reset_expiry_least_witness:
  "\<exists>d. reset_expiry (Details [Inst \<lparr>lc_available = Inst True, lc_expires_at = Some (Inst (utc_of 7))\<rparr>]) 1 (utc_of 5) = Some d"
  using reset_expiry_least[of "Details [Inst \<lparr>lc_available = Inst True, lc_expires_at = Some (Inst (utc_of 7))\<rparr>]" 1 "utc_of 5"]
  by (simp add: credit_ok_def endless_def coming_def dt_of_def aware_def utc_of_def dt_le_def utc_us_def map_filter_simps)

text \<open>A clock at the end of the calendar is not met by the error boundary: its conversion to UTC overflows.\<close>

lemma adapter_clock_overflow:
  "codex_read nf same_id (ActClient (ReadSnapshot r)) (Inr (Inst \<lparr>dt_us = 0, dt_off = Some 3600000000\<rparr>)) = Inl OverflowError"
  by (simp add: codex_read_def api_read_def snapshot_view_def dt_of_def check_aware_def aware_def to_utc_def utc_us_def in_range_def)

end
