(* ===== verification/BoundedFile.thy ===== *)
theory BoundedFile
  imports WinPath Invariants Deadline
begin

text \<open>
  Bounded file I/O (\<open>src/yasb_limitora/path.py\<close>): a file primitive that may block runs in a child process, and the parent
  gives up at its deadline. The child, its Windows Job and the channel to it are owners; one that cannot be closed is kept
  in a pending list of the module and tried again before the next call.

  \<^item> The state is the three pending lists, \<open>owners\<close>. Processes, jobs and channels are objects of the \<open>multiprocessing\<close> library
    and of the Job boundary: references, and every method of theirs is a call of the world, which may raise at any time.
    The closing of a Job (\<open>job_close\<close>) is \<open>close_with_deadline\<close> of the boundary in \<open>JobBoundary\<close>.
  \<^item> The locals of the two bounded calls are \<open>run_vars\<close>, the handler and the \<open>finally\<close> block run on them whatever the body did.
  \<^item> An attribute read with a default (\<open>getattr(x, name, None)\<close>) is a call whose failure is the default. Unpacking the pair
    a child sent is a call too. \<open>queue.Empty\<close> is \<open>queue_empty\<close>.
\<close>

section \<open>Owners\<close>

datatype ipc = Queue val | Receiver val | Sender val | Event val

record owners =
  ow_jobs :: "val list"
  ow_processes :: "(val \<times> bool) list"
  ow_ipc :: "(ipc \<times> bool) list"

type_synonym 'a oprog = "(owners, 'a) prog"

definition ipc_args :: "ipc \<Rightarrow> val list" where
  "ipc_args e = (case e of Queue v \<Rightarrow> [VInt 0, v] | Receiver v \<Rightarrow> [VInt 1, v] | Sender v \<Rightarrow> [VInt 2, v] | Event v \<Rightarrow> [VInt 3, v])"

definition file_failed :: py_exn where "file_failed = FileError ''configuration read failed''"
definition deadline_passed :: py_exn where "deadline_passed = DeadlineError ''configuration deadline exhausted''"
definition queue_empty :: py_exn where "queue_empty = RuntimeError ''queue.Empty''"

text \<open>\<open>try: m except Exception: ok = False\<close>, and an attribute with the default \<open>None\<close>.\<close>

definition tried :: "('o, 'a) prog \<Rightarrow> ('o, bool) prog" where
  "tried m = catch (andthen m (ret True)) (\<lambda>_. ret False)"

definition getattr_none :: "string \<Rightarrow> val list \<Rightarrow> ('o, val) prog" where
  "getattr_none n args = catch (ext (n, args)) (\<lambda>_. ret VNone)"

definition usable_or_fail :: "deadline \<Rightarrow> ('o, unit) prog" where
  "usable_or_fail c = bind clock_ns (\<lambda>now. if usable_ns c now \<le> 0 then fail deadline_passed else ret ())"

text \<open>\<open>max(0.0, n / 1_000_000_000)\<close>, the seconds a join may take. Where the code passes the quotient itself, it is of
  \<open>usable_ns\<close>, which is never negative.\<close>

definition to_seconds :: "int \<Rightarrow> val" where
  "to_seconds n = VFloat (if n \<le> 0 then float_of False 0 1 else float_of False (nat n) 1000000000)"

definition cleanup_seconds :: "deadline \<Rightarrow> ('o, val) prog" where
  "cleanup_seconds c = bind clock_ns (\<lambda>now. ret (to_seconds (cleanup_ns c now)))"

definition usable_seconds :: "deadline \<Rightarrow> ('o, val) prog" where
  "usable_seconds c = bind clock_ns (\<lambda>now. ret (to_seconds (usable_ns c now)))"

section \<open>Closing, and keeping what did not close\<close>

definition retain_job :: "val \<Rightarrow> unit oprog" where
  "retain_job j = update (\<lambda>ow. if j \<in> set (ow_jobs ow) then ow else ow\<lparr>ow_jobs := ow_jobs ow @ [j]\<rparr>)"

definition retain_process :: "val \<Rightarrow> bool \<Rightarrow> unit oprog" where
  "retain_process p started = update (\<lambda>ow. if p \<in> fst ` set (ow_processes ow) then ow
     else ow\<lparr>ow_processes := ow_processes ow @ [(p, started)]\<rparr>)"

definition retain_ipc :: "ipc \<Rightarrow> bool \<Rightarrow> unit oprog" where
  "retain_ipc e output = update (\<lambda>ow. if e \<in> fst ` set (ow_ipc ow) then ow else ow\<lparr>ow_ipc := ow_ipc ow @ [(e, output)]\<rparr>)"

definition close_job_owner :: "val \<Rightarrow> bool oprog" where
  "close_job_owner j = bind (tried (ext (''job_close'', [j]))) (\<lambda>ok. if ok then ret True else andthen (retain_job j) (ret False))"

definition terminate_child :: "val \<Rightarrow> deadline \<Rightarrow> ('o, bool) prog" where
  "terminate_child p c =
     catch
      (bind (ext (''is_alive'', [p])) (\<lambda>a.
       if \<not> truthy a then ret True
       else
         andthen (tried (ext (''terminate'', [p])))
        (bind (cleanup_seconds c) (\<lambda>t.
         andthen (ext (''join'', [p, t]))
        (bind (ext (''is_alive'', [p])) (\<lambda>a.
         andthen
           (if truthy a then
              bind (getattr_none ''kill'' [p]) (\<lambda>k.
              if k \<noteq> VNone then
                andthen (ext (''kill_call'', [p])) (bind (cleanup_seconds c) (\<lambda>t. andthen (ext (''join'', [p, t])) (ret ())))
              else ret ())
            else ret ())
          (bind (ext (''is_alive'', [p])) (\<lambda>a. ret (\<not> truthy a)))))))))
      (\<lambda>_. ret False)"

definition close_process_owner :: "deadline \<Rightarrow> val \<Rightarrow> bool \<Rightarrow> bool oprog" where
  "close_process_owner c p started =
     bind (tried (bind (if started then terminate_child p c else ret True) (\<lambda>ok.
         if ok then ext (''process_close'', [p]) else fail (RuntimeError [])))) (\<lambda>ok.
     if ok then ret True else andthen (retain_process p started) (ret False))"

definition thread_ended :: "deadline \<Rightarrow> ipc \<Rightarrow> val \<Rightarrow> ('o, bool) prog" where
  "thread_ended c e thread =
     catch
      (bind (cleanup_seconds c) (\<lambda>t.
       andthen (ext (''thread_join'', [thread, t]))
      (bind (ext (''thread_alive'', [thread])) (\<lambda>a.
       if truthy a then
         bind (getattr_none ''cancel_join_thread'' (ipc_args e)) (\<lambda>f.
         andthen (if f \<noteq> VNone then tried (ext (''cancel_call'', ipc_args e)) else ret False) (ret False))
       else ret True))))
      (\<lambda>_. ret False)"

definition optional_call :: "string \<Rightarrow> string \<Rightarrow> ipc \<Rightarrow> ('o, bool) prog" where
  "optional_call attribute call e =
     bind (getattr_none attribute (ipc_args e)) (\<lambda>f. if f \<noteq> VNone then tried (ext (call, ipc_args e)) else ret True)"

text \<open>The feeder thread of a queue: joined, or cancelled when there is none or it does not end.\<close>

definition channel_ended :: "deadline \<Rightarrow> ipc \<Rightarrow> val \<Rightarrow> ('o, bool) prog" where
  "channel_ended c e thread =
     (if thread \<noteq> VNone then thread_ended c e thread
      else
        bind (optional_call ''cancel_join_thread'' ''cancel_call'' e) (\<lambda>cancelled.
        bind (optional_call ''join_thread'' ''join_call'' e) (\<lambda>joined. ret (cancelled \<and> joined))))"

definition close_output :: "deadline \<Rightarrow> ipc \<Rightarrow> bool \<Rightarrow> bool oprog" where
  "close_output c e retain =
     bind (tried (ext (''close'', ipc_args e))) (\<lambda>closed.
     bind (getattr_none ''_thread'' (ipc_args e)) (\<lambda>thread.
     bind (channel_ended c e thread) (\<lambda>ended.
     andthen (if \<not> (closed \<and> ended) \<and> retain then retain_ipc e True else ret ()) (ret (closed \<and> ended)))))"

definition close_endpoint :: "bool \<Rightarrow> ipc \<Rightarrow> bool \<Rightarrow> bool oprog" where
  "close_endpoint with_context e retain =
     bind (getattr_none ''close_attribute'' (ipc_args e)) (\<lambda>f.
     if f = VNone then ret True
     else
       bind (tried (ext (''close'', ipc_args e))) (\<lambda>closed.
       bind (if with_context then optional_call ''cancel_join_thread'' ''cancel_call'' e else ret True) (\<lambda>cancelled.
       andthen (if \<not> (closed \<and> cancelled) \<and> retain then retain_ipc e False else ret ()) (ret (closed \<and> cancelled)))))"

primrec retry_each :: "('a \<Rightarrow> bool oprog) \<Rightarrow> 'a list \<Rightarrow> 'a list oprog" where
  "retry_each f [] = ret []"
| "retry_each f (x # xs) = bind (f x) (\<lambda>ok. bind (retry_each f xs) (\<lambda>rest. ret (if ok then rest else x # rest)))"

definition retry_jobs :: "bool oprog" where
  "retry_jobs = bind (field ow_jobs) (\<lambda>js. bind (retry_each close_job_owner js) (\<lambda>rest.
     andthen (update (\<lambda>ow. ow\<lparr>ow_jobs := rest\<rparr>)) (ret (rest = []))))"

definition retry_processes :: "deadline \<Rightarrow> bool oprog" where
  "retry_processes c = bind (field ow_processes) (\<lambda>ps. bind (retry_each (\<lambda>(p, started). close_process_owner c p started) ps) (\<lambda>rest.
     andthen (update (\<lambda>ow. ow\<lparr>ow_processes := rest\<rparr>)) (ret (rest = []))))"

definition retry_ipc :: "deadline \<Rightarrow> bool oprog" where
  "retry_ipc c = bind (field ow_ipc) (\<lambda>es.
     bind (retry_each (\<lambda>(e, output). if output then close_output c e False else close_endpoint True e False) es) (\<lambda>rest.
     andthen (update (\<lambda>ow. ow\<lparr>ow_ipc := rest\<rparr>)) (ret (rest = []))))"

text \<open>\<open>not _retry_pending_process_owners(context) or not _retry_pending_job_owners(context) or ...\<close>: the first that fails ends it.\<close>

definition retry_pending :: "deadline \<Rightarrow> unit oprog" where
  "retry_pending c =
     bind (retry_processes c) (\<lambda>ok. if \<not> ok then fail file_failed else
     bind retry_jobs (\<lambda>ok. if \<not> ok then fail file_failed else
     bind (retry_ipc c) (\<lambda>ok. if \<not> ok then fail file_failed else ret ())))"

section \<open>A bounded call\<close>

record run_vars =
  rv_output :: "ipc option"
  rv_receiver :: "ipc option"
  rv_sender :: "ipc option"
  rv_authorized :: "ipc option"
  rv_process :: "val option"
  rv_job :: "val option"
  rv_started :: bool
  rv_job_tried :: bool
  rv_failed :: bool

type_synonym 'a rprog = "(owners \<times> run_vars, 'a) prog"

definition no_vars :: run_vars where
  "no_vars = \<lparr>rv_output = None, rv_receiver = None, rv_sender = None, rv_authorized = None, rv_process = None, rv_job = None,
     rv_started = False, rv_job_tried = False, rv_failed = False\<rparr>"

definition set_vars :: "(run_vars \<Rightarrow> run_vars) \<Rightarrow> unit rprog" where
  "set_vars f = update (\<lambda>(ow, v). (ow, f v))"

definition vars :: "(run_vars \<Rightarrow> 'a) \<Rightarrow> 'a rprog" where
  "vars f = field (f \<circ> snd)"

text \<open>\<open>_child_process\<close> and \<open>_start_quiet_child\<close>: the process object, and its start with the diagnostics silenced.\<close>

definition new_child :: "string \<Rightarrow> unit rprog" where
  "new_child target = bind (ext (''process_new'', [VStr (u target)])) (\<lambda>p. set_vars (\<lambda>v. v\<lparr>rv_process := Some p\<rparr>))"

definition start_child :: "unit rprog" where
  "start_child = bind (vars rv_process) (\<lambda>p. case p of
     None \<Rightarrow> ret ()
   | Some p \<Rightarrow> andthen (ext (''open_devnull'', [])) (andthen (ext (''start'', [p])) (set_vars (\<lambda>v. v\<lparr>rv_started := True\<rparr>))))"

definition join_child :: "val \<Rightarrow> ('o, bool) prog" where
  "join_child p = bind (ext (''is_alive'', [p])) (\<lambda>a. ret (truthy a))"

definition contain_child :: "bool \<Rightarrow> val \<Rightarrow> unit rprog" where
  "contain_child nt p =
     (if nt then
        bind (ext (''job_new'', [])) (\<lambda>j. andthen (set_vars (\<lambda>v. v\<lparr>rv_job := Some j\<rparr>))
       (bind (ext (''pid'', [p])) (\<lambda>pid. andthen (ext (''job_assign'', [j, pid, VBool True])) (ret ()))))
      else ret ())"

text \<open>The first close of the job, which overwrites \<open>cleanup_failed\<close>.\<close>

definition close_job_in_body :: "unit rprog" where
  "close_job_in_body = bind (vars rv_job) (\<lambda>j. case j of
     None \<Rightarrow> ret ()
   | Some j \<Rightarrow> andthen (set_vars (\<lambda>v. v\<lparr>rv_job_tried := True\<rparr>))
       (bind (on_object (close_job_owner j)) (\<lambda>ok. set_vars (\<lambda>v. v\<lparr>rv_failed := \<not> ok\<rparr>))))"

definition note_closed :: "bool \<Rightarrow> unit rprog" where
  "note_closed ok = set_vars (\<lambda>v. v\<lparr>rv_failed := \<not> ok \<or> rv_failed v\<rparr>)"

definition unpack :: "val \<Rightarrow> ('o, val \<times> val) prog" where
  "unpack m = bind (ext (''item'', [m, VInt 0])) (\<lambda>a. bind (ext (''item'', [m, VInt 1])) (\<lambda>b. ret (a, b)))"

text \<open>The body: the channel and the child are made, the sender's end is given to the child, the child is put in its Job; then
  it is authorized, waited for, and its answer is received.\<close>

definition the_child :: "val rprog" where
  "the_child = bind (vars rv_process) (\<lambda>p. case p of Some p \<Rightarrow> ret p | None \<Rightarrow> fail file_failed)"

definition call_create :: "string \<Rightarrow> (val \<times> val) rprog" where
  "call_create target =
     andthen (ext (''get_context'', []))
    (bind (ext (''Pipe'', [])) (\<lambda>q.
     andthen (set_vars (\<lambda>v. v\<lparr>rv_receiver := Some (Receiver q), rv_sender := Some (Sender q)\<rparr>))
    (bind (ext (''Event'', [])) (\<lambda>ev.
     andthen (set_vars (\<lambda>v. v\<lparr>rv_authorized := Some (Event ev)\<rparr>))
    (andthen (new_child target)
    (andthen start_child (ret (q, ev))))))))"

definition give_sender :: "val \<Rightarrow> unit rprog" where
  "give_sender q =
     bind (on_object (close_endpoint False (Sender q) True)) (\<lambda>ok.
     andthen (note_closed ok) (set_vars (\<lambda>v. v\<lparr>rv_sender := None\<rparr>)))"

definition call_answer :: "deadline \<Rightarrow> val \<Rightarrow> val \<Rightarrow> ('o, val) prog" where
  "call_answer c q p =
     bind (usable_seconds c) (\<lambda>t.
     andthen (ext (''join'', [p, t]))
    (bind (join_child p) (\<lambda>alive.
     if alive then fail deadline_passed
     else
       bind clock_ns (\<lambda>now.
       bind (if usable_ns c now \<le> 0 then ret False else bind (ext (''poll'', [q])) (\<lambda>b. ret (truthy b))) (\<lambda>ready.
       if \<not> ready then fail deadline_passed
       else
         bind (ext (''recv'', [q])) (\<lambda>m.
         bind (unpack m) (\<lambda>(success, x). if \<not> truthy success then fail file_failed else ret x))))))) "

definition file_call_body :: "bool \<Rightarrow> string \<Rightarrow> deadline \<Rightarrow> val rprog" where
  "file_call_body nt target c =
     bind (call_create target) (\<lambda>(q, ev).
     andthen (give_sender q)
    (bind the_child (\<lambda>p.
     andthen (contain_child nt p)
    (andthen (usable_or_fail c)
    (andthen (ext (''set'', [ev]))
    (bind (call_answer c q p) (\<lambda>x. andthen close_job_in_body (ret x))))))))"

text \<open>The \<open>finally\<close> block: the job if the body did not try it, the process, then the channel.\<close>

definition finally_job :: "unit rprog" where
  "finally_job = bind (vars (\<lambda>v. if rv_job_tried v then None else rv_job v)) (\<lambda>j. case j of
     None \<Rightarrow> ret ()
   | Some j \<Rightarrow> andthen (set_vars (\<lambda>v. v\<lparr>rv_job_tried := True\<rparr>)) (bind (on_object (close_job_owner j)) note_closed))"

definition finally_process :: "deadline \<Rightarrow> unit rprog" where
  "finally_process c = bind (vars (\<lambda>v. (rv_process v, rv_started v))) (\<lambda>(p, started). case p of
     None \<Rightarrow> ret ()
   | Some p \<Rightarrow> bind (on_object (close_process_owner c p started)) note_closed)"

definition finally_endpoint :: "bool \<Rightarrow> (run_vars \<Rightarrow> ipc option) \<Rightarrow> unit rprog" where
  "finally_endpoint with_context sel = bind (vars sel) (\<lambda>e. case e of
     None \<Rightarrow> ret ()
   | Some e \<Rightarrow> bind (on_object (close_endpoint with_context e True)) note_closed)"

definition finally_output :: "deadline \<Rightarrow> unit rprog" where
  "finally_output c = bind (vars rv_output) (\<lambda>e. case e of
     None \<Rightarrow> ret ()
   | Some e \<Rightarrow> bind (on_object (close_output c e True)) note_closed)"

text \<open>After the \<open>finally\<close> block: a failed cleanup is the error, else the failure of the body, which is sanitized.\<close>

definition conclude :: "py_exn + 'a \<Rightarrow> 'a rprog" where
  "conclude r = bind (vars rv_failed) (\<lambda>failed.
     if failed then fail file_failed
     else (case r of Inr x \<Rightarrow> ret x | Inl e \<Rightarrow> if is_FileError e then fail e else fail file_failed))"

definition bounded_file_call :: "bool \<Rightarrow> string \<Rightarrow> deadline \<Rightarrow> val oprog" where
  "bounded_file_call nt target c =
     andthen (usable_or_fail c) (andthen (retry_pending c) (with_local no_vars
      (bind (outcome (file_call_body nt target c)) (\<lambda>r.
       andthen finally_job (andthen (finally_process c)
      (andthen (finally_endpoint False rv_receiver) (andthen (finally_endpoint False rv_sender)
      (andthen (finally_endpoint True rv_authorized) (conclude r)))))))))"

section \<open>A bounded read\<close>

definition short_wait :: pyfloat where "short_wait = float_of False 1 10"

definition read_start :: "(val \<times> val) rprog" where
  "read_start =
     andthen (ext (''get_context'', []))
    (bind (ext (''Queue'', [])) (\<lambda>q.
     andthen (set_vars (\<lambda>v. v\<lparr>rv_output := Some (Queue q)\<rparr>))
    (bind (ext (''Event'', [])) (\<lambda>ev.
     andthen (new_child ''_file_read_child'')
    (andthen start_child (ret (q, ev)))))))"

definition read_answer :: "deadline \<Rightarrow> val \<Rightarrow> val \<Rightarrow> (val \<times> val) rprog" where
  "read_answer c q p =
     bind clock_ns (\<lambda>now.
     andthen (ext (''join'', [p, (case to_seconds (usable_ns c now) of VFloat f \<Rightarrow> VFloat (float_min f short_wait) | t \<Rightarrow> t)]))
    (bind (join_child p) (\<lambda>alive.
     if alive then
       bind (catch (bind (usable_seconds c) (\<lambda>t. bind (ext (''get'', [q, t])) unpack))
              (\<lambda>e. if e = queue_empty then andthen close_job_in_body (fail deadline_passed) else fail e)) (\<lambda>m.
       bind (usable_seconds c) (\<lambda>t. andthen (ext (''join'', [p, t])) (ret m)))
     else bind (ext (''get_nowait'', [q])) unpack)))"

definition file_read_body :: "bool \<Rightarrow> deadline \<Rightarrow> val rprog" where
  "file_read_body nt c =
     bind read_start (\<lambda>(q, ev).
     bind the_child (\<lambda>p.
     andthen (contain_child nt p)
    (andthen (usable_or_fail c)
    (andthen (ext (''set'', [ev]))
    (bind (read_answer c q p) (\<lambda>(success, x).
     bind (join_child p) (\<lambda>alive.
     if alive then fail file_failed
     else
       andthen close_job_in_body
      (andthen (usable_or_fail c)
      (if \<not> truthy success then fail file_failed else ret x)))))))))"

definition bounded_file_read :: "bool \<Rightarrow> deadline \<Rightarrow> bytes oprog" where
  "bounded_file_read nt c =
     andthen (usable_or_fail c) (andthen (retry_pending c) (with_local no_vars
      (bind (outcome (file_read_body nt c)) (\<lambda>r.
       andthen finally_job (andthen (finally_process c) (andthen (finally_output c)
      (bind (conclude r) (\<lambda>x. case x of VBytes b \<Rightarrow> ret b | _ \<Rightarrow> fail file_failed))))))))"

section \<open>The children\<close>

definition max_config_bytes :: nat where "max_config_bytes = 16384"
definition config_read_probe :: nat where "config_read_probe = max_config_bytes + 1"

text \<open>\<open>_file_call_child\<close> sends the pair of success and value; \<open>_file_read_child\<close> puts it. \<open>fstat\<close> gives the size of a regular
  file, or nothing for another one.\<close>

definition file_call_child :: "('o, val) prog \<Rightarrow> ('o, unit) prog" where
  "file_call_child function =
     ensure
      (catch (andthen (ext (''wait'', [])) (bind function (\<lambda>x. andthen (ext (''send'', [VBool True, x])) (ret ()))))
        (\<lambda>_. andthen (tried (ext (''send'', [VBool False, VNone]))) (ret ())))
      (bind (getattr_none ''close_attribute'' []) (\<lambda>f. if f \<noteq> VNone then andthen (tried (ext (''close'', []))) (ret ()) else ret ()))"

definition queue_put :: "bool \<Rightarrow> val \<Rightarrow> ('o, unit) prog" where
  "queue_put success x = andthen (tried (ext (''put'', [VBool success, x]))) (ret ())"

definition file_read_child :: "ustr \<Rightarrow> (val option, unit) prog" where
  "file_read_child path =
     ensure
      (catch
        (andthen (ext (''wait'', []))
        (bind (ext (''open'', [VStr path])) (\<lambda>d.
         andthen (update (\<lambda>_. Some d))
        (bind (ext (''fstat'', [d])) (\<lambda>size. case size of
           VInt n \<Rightarrow>
             if int max_config_bytes < n then queue_put False VNone
             else
               bind (ext (''read'', [d, VInt (int config_read_probe)])) (\<lambda>x. case x of
                 VBytes b \<Rightarrow> queue_put (length b \<le> max_config_bytes) x
               | _ \<Rightarrow> queue_put False x)
         | _ \<Rightarrow> queue_put False VNone)))))
        (\<lambda>_. queue_put False VNone))
      (andthen (bind (field id) (\<lambda>d. case d of None \<Rightarrow> ret () | Some d \<Rightarrow> andthen (tried (ext (''close_fd'', [d]))) (ret ())))
        (andthen (tried (ext (''close'', []))) (ret ())))"

section \<open>Rules for the common steps\<close>

lemma tried_wp [wp_simps]: "wp (tried m) Q E s = wp m (\<lambda>_. Q True) (\<lambda>_. Q False) s"
  by (simp add: tried_def andthen_def wp_def catch_def bind_def ret_def split: prod.split sum.split)

lemma getattr_wp [wp_simps]: "wp (getattr_none n args) Q E s =
    (let t = (fst s, logged (n, args) (snd s)) in case answer_of (n, args) (snd s) of Inr v \<Rightarrow> Q v t | Inl _ \<Rightarrow> Q VNone t)"
  by (simp add: getattr_none_def wp_simps split: sum.split)

lemma basics [calls_intros]:
  "calls N m \<Longrightarrow> calls N (tried m)" "n \<in> N \<Longrightarrow> calls N (getattr_none n args)" "''clock_ns'' \<in> N \<Longrightarrow> calls N (usable_or_fail c)"
  "''clock_ns'' \<in> N \<Longrightarrow> calls N (cleanup_seconds c)" "''clock_ns'' \<in> N \<Longrightarrow> calls N (usable_seconds c)" "''is_alive'' \<in> N \<Longrightarrow> calls N (join_child p)"
  "''item'' \<in> N \<Longrightarrow> calls N (unpack x)"
  by (auto simp: tried_def getattr_none_def usable_or_fail_def cleanup_seconds_def usable_seconds_def join_child_def unpack_def intro!: calls_intros)

lemma basics_still [still_intros]:
  "still m \<Longrightarrow> still (tried m)" "still (getattr_none n args)" "still (usable_or_fail c)" "still (cleanup_seconds c)" "still (usable_seconds c)"
  "still (join_child p)" "still (unpack x)"
  by (auto simp: tried_def getattr_none_def usable_or_fail_def cleanup_seconds_def usable_seconds_def join_child_def unpack_def intro!: still_intros)

end
