(* ===== verification/BoundedFacts.thy ===== *)
theory BoundedFacts
  imports BoundedFile Invariants
begin

text \<open>
  No owner of a bounded file call is forgotten (\<open>BoundedFile\<close>): what a call makes (the child process, its Job, the two ends of
  the pipe or the queue) is closed when it ends, or kept in the pending list that the next call works off.
\<close>

section \<open>What is settled\<close>

definition made :: "world \<Rightarrow> world \<Rightarrow> string \<Rightarrow> val \<Rightarrow> bool" where
  "made w0 w n x \<longleftrightarrow> (\<exists>args. since w0 w n args ((=) x))"

definition settled_job :: "world \<Rightarrow> owners \<Rightarrow> world \<Rightarrow> val \<Rightarrow> bool" where
  "settled_job w0 ow w j \<longleftrightarrow> j \<in> set (ow_jobs ow) \<or> since w0 w ''job_close'' [j] (\<lambda>_. True)"

definition settled_process :: "world \<Rightarrow> owners \<Rightarrow> world \<Rightarrow> val \<Rightarrow> bool" where
  "settled_process w0 ow w p \<longleftrightarrow> p \<in> fst ` set (ow_processes ow) \<or> since w0 w ''process_close'' [p] (\<lambda>_. True)"

text \<open>An object without a method \<open>close\<close> has nothing to close.\<close>

definition no_close :: "world \<Rightarrow> world \<Rightarrow> ipc \<Rightarrow> bool" where
  "no_close w0 w e \<longleftrightarrow> (\<exists>r. ((''close_attribute'', ipc_args e), r) \<in> set (recent w0 w) \<and> (r = Inr VNone \<or> isl r))"

definition settled_ipc :: "world \<Rightarrow> owners \<Rightarrow> world \<Rightarrow> ipc \<Rightarrow> bool" where
  "settled_ipc w0 ow w e \<longleftrightarrow> e \<in> fst ` set (ow_ipc ow) \<or> since w0 w ''close'' (ipc_args e) (\<lambda>_. True) \<or> no_close w0 w e"

definition making :: "string set" where
  "making = {''job_new'', ''process_new'', ''Pipe'', ''Queue''}"

definition ow_le :: "owners \<Rightarrow> owners \<Rightarrow> bool" where
  "ow_le ow ow' \<longleftrightarrow> set (ow_jobs ow) \<subseteq> set (ow_jobs ow') \<and> fst ` set (ow_processes ow) \<subseteq> fst ` set (ow_processes ow')
     \<and> fst ` set (ow_ipc ow) \<subseteq> fst ` set (ow_ipc ow')"

definition quiet :: "world \<Rightarrow> world \<Rightarrow> bool" where
  "quiet w w' \<longleftrightarrow> extends w w' \<and> (\<forall>a \<in> set (recent w w'). fst (fst a) \<notin> making)"

lemma ow_le_refl [simp]: "ow_le ow ow"
  by (simp add: ow_le_def)

lemma quiet_refl [simp]: "quiet w w"
  by (simp add: quiet_def)

lemma quiet_logged [simp]: "quiet w w' \<Longrightarrow> fst c \<notin> making \<Longrightarrow> quiet w (logged c w')"
  by (auto simp: quiet_def)

lemma quiet_trans: "quiet w w1 \<Longrightarrow> quiet w1 w2 \<Longrightarrow> quiet w w2"
  unfolding quiet_def using recent_trans[of w w1 w2] extends_trans[of w w1 w2] by auto

lemma quiet_extends: "quiet w w' \<Longrightarrow> extends w w'"
  by (simp add: quiet_def)

lemma made_quiet: "extends w0 w \<Longrightarrow> quiet w w' \<Longrightarrow> n \<in> making \<Longrightarrow> made w0 w' n x \<longleftrightarrow> made w0 w n x"
  unfolding made_def since_recent quiet_def using recent_trans[of w0 w w'] by force

lemma made_logged: "extends w0 w \<Longrightarrow> made w0 (logged c w) n x \<longleftrightarrow> made w0 w n x \<or> fst c = n \<and> answer_of c w = Inr x"
  by (cases c) (auto simp: made_def)

lemma not_made [simp]: "\<not> made w w n x"
  by (simp add: made_def)

lemma no_close_logged [simp]: "extends w0 w \<Longrightarrow> no_close w0 (logged c w) e \<longleftrightarrow> no_close w0 w e
    \<or> c = (''close_attribute'', ipc_args e) \<and> (answer_of c w = Inr VNone \<or> isl (answer_of c w))"
  by (auto simp: no_close_def)

lemma settled_later:
  assumes "extends w0 w" "extends w w'" "ow_le ow ow'"
  shows "settled_job w0 ow w j \<Longrightarrow> settled_job w0 ow' w' j" "settled_process w0 ow w p \<Longrightarrow> settled_process w0 ow' w' p"
    "settled_ipc w0 ow w e \<Longrightarrow> settled_ipc w0 ow' w' e"
proof -
  have g: "since w0 w n a P \<Longrightarrow> since w0 w' n a P" for n a P by (rule since_grows[OF _ assms(1,2)])
  have "no_close w0 w e \<Longrightarrow> no_close w0 w' e"
    using recent_trans[OF assms(1,2)] by (auto simp: no_close_def)
  then show "settled_job w0 ow w j \<Longrightarrow> settled_job w0 ow' w' j" "settled_process w0 ow w p \<Longrightarrow> settled_process w0 ow' w' p"
    "settled_ipc w0 ow w e \<Longrightarrow> settled_ipc w0 ow' w' e"
    using assms(3) by (auto simp: settled_job_def settled_process_def settled_ipc_def ow_le_def dest: g)
qed

lemma settled_from:
  assumes "extends w0 w" "extends w w'"
  shows "settled_job w ow w' j \<Longrightarrow> settled_job w0 ow w' j" "settled_process w ow w' p \<Longrightarrow> settled_process w0 ow w' p"
    "settled_ipc w ow w' e \<Longrightarrow> settled_ipc w0 ow w' e"
proof -
  have g: "since w w' n a P \<Longrightarrow> since w0 w' n a P" for n a P by (rule since_earlier[OF _ assms])
  have "no_close w w' e \<Longrightarrow> no_close w0 w' e"
    using recent_trans[OF assms] by (auto simp: no_close_def)
  then show "settled_job w ow w' j \<Longrightarrow> settled_job w0 ow w' j" "settled_process w ow w' p \<Longrightarrow> settled_process w0 ow w' p"
    "settled_ipc w ow w' e \<Longrightarrow> settled_ipc w0 ow w' e"
    by (auto simp: settled_job_def settled_process_def settled_ipc_def dest: g)
qed

section \<open>The closers\<close>

text \<open>A closer never raises, only adds to the pending lists, and makes nothing.\<close>

definition after :: "owners \<times> world \<Rightarrow> owners \<times> world \<Rightarrow> bool" where
  "after s t \<longleftrightarrow> ow_le (fst s) (fst t) \<and> quiet (snd s) (snd t)"

lemma retain_le [simp]:
  "ow_le ow (if j \<in> set (ow_jobs ow) then ow else ow\<lparr>ow_jobs := ow_jobs ow @ [j]\<rparr>)"
  "ow_le ow (if p \<in> fst ` set (ow_processes ow) then ow else ow\<lparr>ow_processes := ow_processes ow @ [(p, b)]\<rparr>)"
  "ow_le ow (if e \<in> fst ` set (ow_ipc ow) then ow else ow\<lparr>ow_ipc := ow_ipc ow @ [(e, b)]\<rparr>)"
  by (auto simp: ow_le_def)

lemma close_job_owner_wp: "wp (close_job_owner j) (\<lambda>ok t. after s t \<and> settled_job (snd s) (fst t) (snd t) j
    \<and> (ok \<longrightarrow> fst t = fst s \<and> since (snd s) (snd t) ''job_close'' [j] (\<lambda>_. True))) (\<lambda>_ _. False) s"
  by (auto simp: close_job_owner_def retain_job_def wp_simps after_def settled_job_def making_def ow_le_def split: sum.split)

lemma cleanup_seconds_wp: "wp (cleanup_seconds c) (\<lambda>_ t. fst t = fst s \<and> quiet (snd s) (snd t)) (\<lambda>_ t. fst t = fst s \<and> quiet (snd s) (snd t)) s"
  by (auto simp: cleanup_seconds_def wp_simps making_def split: sum.split)

text \<open>Calls that leave the object alone.\<close>

definition resting :: "owners \<times> world \<Rightarrow> owners \<times> world \<Rightarrow> bool" where
  "resting s t \<longleftrightarrow> fst t = fst s \<and> quiet (snd s) (snd t)"

lemma resting_quiet:
  assumes "calls N m" "still m" "N \<inter> making = {}"
  shows "wp m (\<lambda>_ t. fst t = fst s \<and> quiet (snd s) (snd t)) (\<lambda>_ t. fst t = fst s \<and> quiet (snd s) (snd t)) s"
proof -
  obtain r t where e: "m s = (r, t)" by (cases "m s")
  have "fst t = fst s" using assms(2) e unfolding still_def by (metis snd_conv)
  moreover have "quiet (snd s) (snd t)" using callsD[OF assms(1) e] assms(3) by (auto simp: quiet_def)
  ultimately show ?thesis using e by (simp add: wp_def split: sum.split)
qed

definition stopping :: "string set" where
  "stopping = {''is_alive'', ''terminate'', ''join'', ''kill'', ''kill_call'', ''clock_ns''}"

lemma terminate_rests: "calls stopping (terminate_child p c)" "still (terminate_child p c)"
  by (auto simp: terminate_child_def stopping_def intro!: calls_intros still_intros)

lemma terminate_dead: "wp (terminate_child p c) (\<lambda>ok t. ok \<longrightarrow> since (snd s) (snd t) ''is_alive'' [p] (\<lambda>a. \<not> truthy a)) (\<lambda>_ _. False) s"
  unfolding terminate_child_def cleanup_seconds_def
  by (simp add: wp_simps Let_def split: sum.split)

text \<open>A process that was closed had been started and was seen dead, or never started.\<close>

definition reaped :: "bool \<Rightarrow> world \<Rightarrow> world \<Rightarrow> val \<Rightarrow> bool" where
  "reaped started w w' p \<longleftrightarrow> since w w' ''process_close'' [p] (\<lambda>_. True) \<and> (started \<longrightarrow> since w w' ''is_alive'' [p] (\<lambda>a. \<not> truthy a))"

lemma close_process_owner_wp: "wp (close_process_owner c p started) (\<lambda>ok t. after s t \<and> settled_process (snd s) (fst t) (snd t) p
    \<and> (ok \<longrightarrow> fst t = fst s \<and> reaped started (snd s) (snd t) p)) (\<lambda>_ _. False) s"
proof -
  have t: "wp (terminate_child p c) (\<lambda>ok t. (fst t = fst s \<and> quiet (snd s) (snd t)) \<and> (ok \<longrightarrow> since (snd s) (snd t) ''is_alive'' [p] (\<lambda>a. \<not> truthy a)))
      (\<lambda>_ t. (fst t = fst s \<and> quiet (snd s) (snd t)) \<and> False) s"
    by (rule wp_conj[OF resting_quiet[OF terminate_rests] terminate_dead]) (simp add: stopping_def making_def)
  have c: "wp (bind (tried (if ok then ext (''process_close'', [p]) else fail (RuntimeError []))) (\<lambda>ok.
        if ok then ret True else andthen (retain_process p started) (ret False)))
      (\<lambda>ok t. after s t \<and> settled_process (snd s) (fst t) (snd t) p \<and> (ok \<longrightarrow> fst t = fst s \<and> reaped started (snd s) (snd t) p)) (\<lambda>_ _. False) t"
    if "fst t = fst s" "quiet (snd s) (snd t)" "ok \<longrightarrow> started \<longrightarrow> since (snd s) (snd t) ''is_alive'' [p] (\<lambda>a. \<not> truthy a)" for ok t
    using that by (auto simp: retain_process_def wp_simps after_def settled_process_def making_def ow_le_def reaped_def quiet_extends split: sum.split)
  show ?thesis
  proof (cases started)
    case True
    then show ?thesis
      unfolding close_process_owner_def wp_bind tried_wp
      by simp (rule wp_mono[OF t]; use c in \<open>auto simp: wp_bind tried_wp\<close>)
  next
    case False
    then show ?thesis using c[of s True] by (simp add: close_process_owner_def wp_bind tried_wp wp_ret)
  qed
qed

lemma close_endpoint_wp: "wp (close_endpoint b e True) (\<lambda>ok t. after s t \<and> settled_ipc (snd s) (fst t) (snd t) e
    \<and> (ok \<longrightarrow> fst t = fst s) \<and> ow_jobs (fst t) = ow_jobs (fst s) \<and> ow_processes (fst t) = ow_processes (fst s)
    \<and> fst ` set (ow_ipc (fst t)) \<subseteq> insert e (fst ` set (ow_ipc (fst s)))) (\<lambda>_ _. False) s"
  by (auto simp: close_endpoint_def optional_call_def retain_ipc_def wp_simps Let_def after_def settled_ipc_def making_def ow_le_def quiet_extends
      split: sum.split)

definition threading :: "string set" where
  "threading = {''clock_ns'', ''thread_join'', ''thread_alive'', ''cancel_join_thread'', ''cancel_call'', ''join_thread'', ''join_call''}"

lemma channel_rests: "calls threading (channel_ended c e v)" "still (channel_ended c e v)"
  by (auto simp: channel_ended_def thread_ended_def optional_call_def threading_def intro!: calls_intros still_intros)

lemma channel_safe: "wp (channel_ended c e v) (\<lambda>_ _. True) (\<lambda>_ _. False) s"
proof (cases "v = VNone")
  case True
  then show ?thesis by (simp add: channel_ended_def optional_call_def wp_simps Let_def split: sum.split)
next
  case False
  have "wp (catch m (\<lambda>_. ret b)) (\<lambda>_ _. True) (\<lambda>_ _. False) s" for m :: "('x, bool) prog" and b s
    by (simp add: wp_def catch_def ret_def split: sum.split prod.split)
  then show ?thesis using False by (simp add: channel_ended_def thread_ended_def)
qed

lemma channel_wp: "wp (channel_ended c e v) (\<lambda>_ t. (fst t = fst s \<and> quiet (snd s) (snd t)) \<and> True) (\<lambda>_ t. (fst t = fst s \<and> quiet (snd s) (snd t)) \<and> False) s"
  by (rule wp_conj[OF resting_quiet[OF channel_rests] channel_safe]) (simp add: threading_def making_def)

lemma close_output_wp: "wp (close_output c e True) (\<lambda>ok t. after s t \<and> settled_ipc (snd s) (fst t) (snd t) e \<and> (ok \<longrightarrow> fst t = fst s)) (\<lambda>_ _. False) s"
proof -
  have r: "wp (bind (channel_ended c e v) (\<lambda>ended. andthen (if \<not> (closed \<and> ended) \<and> True then retain_ipc e True else ret ()) (ret (closed \<and> ended))))
      (\<lambda>ok t. after s t \<and> settled_ipc (snd s) (fst t) (snd t) e \<and> (ok \<longrightarrow> fst t = fst s)) (\<lambda>_ _. False) t"
    if t: "fst t = fst s" "quiet (snd s) (snd t)" "closed \<longrightarrow> since (snd s) (snd t) ''close'' (ipc_args e) (\<lambda>_. True)" for closed v t
  proof -
    have g: "closed \<longrightarrow> since (snd s) (snd t') ''close'' (ipc_args e) (\<lambda>_. True)" if "quiet (snd t) (snd t')" for t' :: "owners \<times> world"
      using t that since_grows quiet_extends by blast
    show ?thesis
      unfolding wp_bind
      by (rule wp_mono[OF channel_wp])
        (use t g quiet_trans in \<open>auto simp: retain_ipc_def wp_simps after_def settled_ipc_def ow_le_def\<close>)
  qed
  show ?thesis
    unfolding close_output_def wp_bind[of "tried _"] wp_bind[of "getattr_none _ _"] tried_wp getattr_wp wp_ext Let_def
    by (split sum.split; intro conjI allI impI; split sum.split; intro conjI allI impI; rule r; simp add: making_def quiet_extends)
qed

section \<open>The body of a call\<close>

text \<open>What holds of the locals while the body runs: everything made is in them, or settled.\<close>

definition tracked :: "world \<Rightarrow> (owners \<times> run_vars) \<times> world \<Rightarrow> bool" where
  "tracked w0 s \<longleftrightarrow> (let ow = fst (fst s); v = snd (fst s); w = snd s in extends w0 w
     \<and> (\<forall>j. made w0 w ''job_new'' j \<longrightarrow> rv_job v = Some j \<and> (rv_job_tried v \<longrightarrow> settled_job w0 ow w j))
     \<and> (\<forall>p. made w0 w ''process_new'' p \<longrightarrow> rv_process v = Some p)
     \<and> (\<forall>q. made w0 w ''Pipe'' q \<longrightarrow> rv_receiver v = Some (Receiver q) \<and> (rv_sender v = Some (Sender q) \<or> settled_ipc w0 ow w (Sender q)))
     \<and> (\<forall>q. made w0 w ''Queue'' q \<longrightarrow> rv_output v = Some (Queue q)))"

lemma tracked_later:
  assumes "tracked w0 ((ow, v), w)" "ow_le ow ow'" "quiet w w'"
  shows "tracked w0 ((ow', v), w')"
proof -
  have e: "extends w0 w" "extends w w'" using assms by (auto simp: tracked_def quiet_extends)
  have m: "made w0 w' n x \<longleftrightarrow> made w0 w n x" if "n \<in> making" for n x using made_quiet[OF e(1) assms(3) that] .
  show ?thesis
    using assms(1) settled_later[OF e assms(2)] extends_trans[OF e]
    unfolding tracked_def by (auto simp: m making_def Let_def)
qed

lemma tracked_vars: "tracked w0 ((ow, v), w) \<Longrightarrow> rv_job v' = rv_job v \<Longrightarrow> rv_job_tried v' = rv_job_tried v \<Longrightarrow> rv_process v' = rv_process v \<Longrightarrow>
    rv_receiver v' = rv_receiver v \<Longrightarrow> rv_sender v' = rv_sender v \<Longrightarrow> rv_output v' = rv_output v \<Longrightarrow> tracked w0 ((ow, v'), w)"
  by (simp add: tracked_def)

lemma tracked_rest:
  assumes "calls N m" "still m" "N \<inter> making = {}"
  shows "keeps (tracked w0) m"
proof (rule keeps_still[OF assms(1,2)])
  fix x w w' assume t: "tracked w0 (x, w)" "extends w w'" "\<forall>a \<in> set (recent w w'). fst (fst a) \<in> N"
  have "quiet w w'" using t(2,3) assms(3) by (auto simp: quiet_def)
  then show "tracked w0 (x, w')" using tracked_later[OF _ ow_le_refl, of w0 "fst x" "snd x"] t(1) by simp
qed

lemma tracked_close:
  assumes "\<And>s. wp m (\<lambda>_ t. after s t \<and> P s t) (\<lambda>_ _. False) s"
  shows "keeps (tracked w0) (on_object m)"
proof (rule keepsI)
  fix s assume t: "tracked w0 s"
  obtain ow v w where s: "s = ((ow, v), w)" by (metis prod.exhaust)
  show "wp (on_object m) (\<lambda>_. tracked w0) (\<lambda>_. tracked w0) s"
    unfolding wp_within s
    by (rule wp_mono[OF assms]) (use t s tracked_later[of w0 ow v w] in \<open>auto simp: after_def\<close>)
qed

lemma tracked_note: "keeps (tracked w0) (note_closed ok)"
  unfolding note_closed_def set_vars_def by (rule keepsI) (auto simp: wp_simps intro: tracked_vars split: prod.split)

definition jobless :: "(owners \<times> run_vars) \<times> world \<Rightarrow> bool" where
  "jobless s \<longleftrightarrow> rv_job (snd (fst s)) = None \<and> \<not> rv_job_tried (snd (fst s))"

lemma call_create_tracked: "wp (call_create target) (\<lambda>(q, _) t. tracked w t \<and> jobless t \<and> rv_sender (snd (fst t)) = Some (Sender q))
    (\<lambda>_ t. tracked w t \<and> jobless t) ((ow, no_vars), w)"
  by (simp add: call_create_def new_child_def start_child_def set_vars_def vars_def wp_simps tracked_def jobless_def made_logged no_vars_def split: sum.split)

lemma read_start_tracked: "wp read_start (\<lambda>_ t. tracked w t \<and> jobless t)
    (\<lambda>_ t. tracked w t \<and> jobless t) ((ow, no_vars), w)"
  by (simp add: read_start_def new_child_def start_child_def set_vars_def vars_def wp_simps tracked_def jobless_def made_logged no_vars_def split: sum.split)

lemma tracked_sender_closed:
  assumes "tracked w0 ((ow, v), w)" "rv_sender v = Some (Sender q)" "settled_ipc w0 ow w (Sender q)"
  shows "tracked w0 ((ow, v\<lparr>rv_failed := b, rv_sender := None\<rparr>), w)"
  using assms by (auto simp: tracked_def)

lemma give_sender_tracked:
  assumes "tracked w0 s" "jobless s" "rv_sender (snd (fst s)) = Some (Sender q)"
  shows "wp (give_sender q) (\<lambda>_ t. tracked w0 t \<and> jobless t) (\<lambda>_ _. False) s"
proof -
  obtain ow v w where s: "s = ((ow, v), w)" by (metis prod.exhaust)
  have e: "extends w0 w" using assms(1) s by (simp add: tracked_def)
  have k: "tracked w0 ((ow', v\<lparr>rv_failed := b, rv_sender := None\<rparr>), w')"
    if a: "after (ow, w) (ow', w')" "settled_ipc w ow' w' (Sender q)" for ow' w' b
  proof (rule tracked_sender_closed)
    show "tracked w0 ((ow', v), w')" using tracked_later assms(1) s a(1) by (auto simp: after_def)
    show "settled_ipc w0 ow' w' (Sender q)" using settled_from(3)[OF e _ a(2)] a(1) by (simp add: after_def quiet_extends)
  qed (use assms(3) s in simp)
  show ?thesis
    unfolding give_sender_def s wp_bind[of "on_object _"] wp_within
    by (rule wp_mono[OF close_endpoint_wp])
      (use k assms(2) s in \<open>auto simp: note_closed_def set_vars_def wp_simps jobless_def\<close>)
qed

lemma contain_tracked:
  assumes "tracked w0 s" "jobless s"
  shows "wp (contain_child nt p) (\<lambda>_. tracked w0) (\<lambda>_. tracked w0) s"
proof (cases nt)
  case True
  obtain ow v w where s: "s = ((ow, v), w)" by (metis prod.exhaust)
  have e: "extends w0 w" "\<And>j. \<not> made w0 w ''job_new'' j" using assms s by (auto simp: tracked_def jobless_def)
  let ?w = "logged (''job_new'', []) w"
  have l: "settled_ipc w0 ow w x \<Longrightarrow> settled_ipc w0 ow ?w x" for x by (rule settled_later(3)[OF e(1) extends_logged ow_le_refl])
  have k: "keeps (tracked w0) (bind (ext (''pid'', [p])) (\<lambda>pid. andthen (ext (''job_assign'', [j, pid, VBool True])) (ret ())))" for j
    by (rule tracked_rest[of "{''pid'', ''job_assign''}"]) (auto simp: making_def intro!: calls_intros still_intros)
  have "tracked w0 ((ow, v\<lparr>rv_job := Some j\<rparr>), ?w)" if "answer_of (''job_new'', []) w = Inr j" for j
    using that assms s e l by (auto simp: tracked_def jobless_def made_logged Let_def)
  moreover have "tracked w0 ((ow, v), ?w)" if "answer_of (''job_new'', []) w = Inl x" for x
    using that assms s e l by (auto simp: tracked_def jobless_def made_logged Let_def)
  ultimately show ?thesis
    using True keepsD[OF k]
    by (auto simp: s contain_child_def wp_bind[of "ext (''job_new'', [])"] wp_andthen[of "update _"] set_vars_def wp_update wp_ext split: sum.split)
qed (use assms in \<open>simp add: contain_child_def wp_ret\<close>)

lemma body_job_tracked: "keeps (tracked w0) close_job_in_body"
proof (rule keepsI)
  fix s assume t: "tracked w0 s"
  obtain ow v w where s: "s = ((ow, v), w)" by (metis prod.exhaust)
  have e: "extends w0 w" using t s by (simp add: tracked_def)
  have k: "tracked w0 ((ow', v\<lparr>rv_job_tried := True, rv_failed := b\<rparr>), w')"
    if j: "rv_job v = Some j" and a: "after (ow, w) (ow', w')" "settled_job w ow' w' j" for j ow' w' b
  proof -
    have "tracked w0 ((ow', v), w')" using tracked_later t s a(1) by (auto simp: after_def)
    moreover have "settled_job w0 ow' w' j" using settled_from(1)[OF e _ a(2)] a(1) by (simp add: after_def quiet_extends)
    ultimately show ?thesis using j by (auto simp: tracked_def Let_def)
  qed
  show "wp close_job_in_body (\<lambda>_. tracked w0) (\<lambda>_. tracked w0) s"
  proof (cases "rv_job v")
    case None
    then show ?thesis using t s by (simp add: close_job_in_body_def vars_def wp_simps)
  next
    case (Some j)
    have "wp (on_object (close_job_owner j)) (\<lambda>ok. wp (set_vars (\<lambda>v. v\<lparr>rv_failed := \<not> ok\<rparr>)) (\<lambda>_. tracked w0) (\<lambda>_. tracked w0)) (\<lambda>_. tracked w0)
        ((ow, v\<lparr>rv_job_tried := True\<rparr>), w)"
      unfolding wp_within by (rule wp_mono[OF close_job_owner_wp]) (use k[OF Some] in \<open>auto simp: set_vars_def wp_simps\<close>)
    then show ?thesis using Some s by (simp add: close_job_in_body_def vars_def wp_bind wp_field wp_andthen set_vars_def[of "\<lambda>v. v\<lparr>rv_job_tried := True\<rparr>"] wp_update)
  qed
qed

lemma file_call_body_tracked: "wp (file_call_body nt target c) (\<lambda>_. tracked w) (\<lambda>_. tracked w) ((ow, no_vars), w)"
proof -
  have r: "keeps (tracked w) (andthen (usable_or_fail c) (andthen (ext (''set'', [ev])) (bind (call_answer c q p) (\<lambda>x. andthen close_job_in_body (ret x)))))" for ev q p
    by (intro keeps_intros body_job_tracked; rule tracked_rest[of "{''clock_ns'', ''set'', ''join'', ''is_alive'', ''poll'', ''recv'', ''item''}"])
      (auto simp: call_answer_def making_def intro!: calls_intros still_intros)
  have m: "wp (bind the_child (\<lambda>p. andthen (contain_child nt p) (andthen (usable_or_fail c) (andthen (ext (''set'', [ev])) (bind (call_answer c q p)
      (\<lambda>x. andthen close_job_in_body (ret x))))))) (\<lambda>_. tracked w) (\<lambda>_. tracked w) t" if "tracked w t" "jobless t" for ev q t
  proof (cases "rv_process (snd (fst t))")
    case (Some p)
    show ?thesis
      using Some that(1)
      by (simp add: the_child_def vars_def wp_bind[of "bind _ _"] wp_bind[of "field _"] wp_field wp_ret wp_andthen[of "contain_child _ _"])
        (rule wp_mono[OF contain_tracked[OF that]]; (rule keepsD[OF r])?; simp)
  qed (use that in \<open>simp add: the_child_def vars_def wp_simps\<close>)
  show ?thesis
    unfolding file_call_body_def wp_bind[of "call_create _"]
    by (rule wp_mono[OF call_create_tracked])
      (auto simp: wp_andthen[of "give_sender _"] split: prod.split intro!: wp_mono[OF give_sender_tracked] m)
qed

lemma file_read_body_tracked: "wp (file_read_body nt c) (\<lambda>_. tracked w) (\<lambda>_. tracked w) ((ow, no_vars), w)"
proof -
  have q: "keeps (tracked w) m" if "calls {''clock_ns'', ''set'', ''join'', ''is_alive'', ''get'', ''get_nowait'', ''item''} m" "still m" for m :: "'x rprog"
    by (rule tracked_rest[OF that]) (simp add: making_def)
  have a: "keeps (tracked w) (read_answer c x p)" for x p
    unfolding read_answer_def by (intro keeps_intros body_job_tracked; rule q) (auto intro!: calls_intros still_intros split: val.split)
  have r: "keeps (tracked w) (andthen (usable_or_fail c) (andthen (ext (''set'', [ev])) (bind (read_answer c x p) (\<lambda>(success, x).
     bind (join_child p) (\<lambda>alive. if alive then fail file_failed
     else andthen close_job_in_body (andthen (usable_or_fail c) (if \<not> truthy success then fail file_failed else ret x)))))))" for ev x p
    by (intro keeps_intros body_job_tracked a; rule q) (auto intro!: calls_intros still_intros)
  have m: "wp (bind the_child (\<lambda>p. andthen (contain_child nt p) (andthen (usable_or_fail c) (andthen (ext (''set'', [ev])) (bind (read_answer c x p) (\<lambda>(success, x).
     bind (join_child p) (\<lambda>alive. if alive then fail file_failed
     else andthen close_job_in_body (andthen (usable_or_fail c) (if \<not> truthy success then fail file_failed else ret x)))))))))
      (\<lambda>_. tracked w) (\<lambda>_. tracked w) t" if "tracked w t" "jobless t" for ev x t
  proof (cases "rv_process (snd (fst t))")
    case (Some p)
    show ?thesis
      using Some that(1)
      by (simp add: the_child_def vars_def wp_bind[of "bind _ _"] wp_bind[of "field _"] wp_field wp_ret wp_andthen[of "contain_child _ _"])
        (rule wp_mono[OF contain_tracked[OF that]]; (rule keepsD[OF r])?; simp)
  qed (use that in \<open>simp add: the_child_def vars_def wp_simps\<close>)
  show ?thesis
    unfolding file_read_body_def wp_bind[of "read_start"]
    by (rule wp_mono[OF read_start_tracked]) (auto intro: m split: prod.split)
qed

section \<open>The end of a call\<close>

text \<open>Everything made since is settled.\<close>

definition accounted :: "world \<Rightarrow> owners \<times> world \<Rightarrow> bool" where
  "accounted w0 t \<longleftrightarrow>
     (\<forall>j. made w0 (snd t) ''job_new'' j \<longrightarrow> settled_job w0 (fst t) (snd t) j)
     \<and> (\<forall>p. made w0 (snd t) ''process_new'' p \<longrightarrow> settled_process w0 (fst t) (snd t) p)
     \<and> (\<forall>q. made w0 (snd t) ''Pipe'' q \<longrightarrow> settled_ipc w0 (fst t) (snd t) (Receiver q) \<and> settled_ipc w0 (fst t) (snd t) (Sender q))
     \<and> (\<forall>q. made w0 (snd t) ''Queue'' q \<longrightarrow> settled_ipc w0 (fst t) (snd t) (Queue q))"

text \<open>The steps of the \<open>finally\<close> block: each keeps what is tracked, settles its own, and keeps a settled owner settled. \<open>lasting\<close>
  are the predicates the later steps keep.\<close>

definition lasting :: "world \<Rightarrow> (owners \<times> world \<Rightarrow> bool) \<Rightarrow> bool" where
  "lasting w0 P \<longleftrightarrow> (\<forall>ow w ow' w'. P (ow, w) \<longrightarrow> extends w0 w \<longrightarrow> ow_le ow ow' \<longrightarrow> quiet w w' \<longrightarrow> P (ow', w'))"

definition outer :: "(owners \<times> run_vars) \<times> world \<Rightarrow> owners \<times> world" where
  "outer s = (fst (fst s), snd s)"

lemma lasting_made:
  assumes "n \<in> making" "\<And>x ow w ow' w'. extends w0 w \<Longrightarrow> extends w w' \<Longrightarrow> ow_le ow ow' \<Longrightarrow> S ow w x \<Longrightarrow> S ow' w' x"
  shows "lasting w0 (\<lambda>t. \<forall>x. made w0 (snd t) n x \<longrightarrow> S (fst t) (snd t) x)"
  unfolding lasting_def
proof (intro allI impI, goal_cases)
  case (1 ow w ow' w' x)
  then have "S ow w x" using made_quiet[of w0 w w' n x] assms(1) by simp
  then show ?case using assms(2)[of w w' ow ow' x] 1 by (simp add: quiet_extends)
qed

lemma lasting_conj: "lasting w0 P \<Longrightarrow> lasting w0 Q \<Longrightarrow> lasting w0 (\<lambda>t. P t \<and> Q t)"
  unfolding lasting_def by blast

lemma lasting_settled:
  "lasting w0 (\<lambda>t. \<forall>x. made w0 (snd t) ''job_new'' x \<longrightarrow> settled_job w0 (fst t) (snd t) x)"
  "lasting w0 (\<lambda>t. \<forall>x. made w0 (snd t) ''process_new'' x \<longrightarrow> settled_process w0 (fst t) (snd t) x)"
  "lasting w0 (\<lambda>t. \<forall>x. made w0 (snd t) ''Pipe'' x \<longrightarrow> settled_ipc w0 (fst t) (snd t) (Receiver x))"
  "lasting w0 (\<lambda>t. \<forall>x. made w0 (snd t) ''Pipe'' x \<longrightarrow> settled_ipc w0 (fst t) (snd t) (Sender x))"
  "lasting w0 (\<lambda>t. \<forall>x. made w0 (snd t) ''Queue'' x \<longrightarrow> settled_ipc w0 (fst t) (snd t) (Queue x))"
  by (rule lasting_made; (simp add: making_def; fail)?; rule settled_later; assumption)+

text \<open>A \<open>finally\<close> step that closes the local selected by \<open>sel\<close>, if there is one.\<close>

lemma finally_step:
  assumes close: "\<And>x s. wp (f x) (\<lambda>ok t. after s t \<and> S (snd s) (fst t) (snd t) x) (\<lambda>_ _. False) s"
    and base: "\<And>x w w' ow. extends w0 w \<Longrightarrow> extends w w' \<Longrightarrow> S w ow w' x \<Longrightarrow> S w0 ow w' x"
    and t: "tracked w0 s" "P (outer s)" "lasting w0 P"
  shows "wp (case sel of None \<Rightarrow> ret () | Some x \<Rightarrow> bind (on_object (f x)) note_closed)
    (\<lambda>_ t. tracked w0 t \<and> P (outer t) \<and> (\<forall>x. sel = Some x \<longrightarrow> S w0 (fst (fst t)) (snd t) x)
       \<and> (\<exists>b. snd (fst t) = snd (fst s)\<lparr>rv_failed := b\<rparr>)) (\<lambda>_ _. False) s"
proof (cases sel)
  case None
  have "\<exists>b. snd (fst s) = snd (fst s)\<lparr>rv_failed := b\<rparr>" by (rule exI[of _ "rv_failed (snd (fst s))"]) simp
  then show ?thesis using t None by (simp add: wp_ret)
next
  case (Some x)
  obtain ow v w where s: "s = ((ow, v), w)" by (metis prod.exhaust)
  have e: "extends w0 w" using t(1) s by (simp add: tracked_def)
  have k: "tracked w0 ((ow', v\<lparr>rv_failed := b\<rparr>), w') \<and> P (ow', w') \<and> S w0 ow' w' x"
    if a: "after (ow, w) (ow', w')" "S w ow' w' x" for ow' w' b
  proof -
    have "tracked w0 ((ow', v), w')" using tracked_later t(1) s a(1) by (auto simp: after_def)
    moreover have "P (ow', w')" using t(2,3) s e a(1) unfolding lasting_def outer_def after_def by auto
    ultimately show ?thesis using base[OF e _ a(2)] a(1) tracked_vars[of w0 ow' v w' "v\<lparr>rv_failed := b\<rparr>"] by (simp add: after_def quiet_extends)
  qed
  have "wp (bind (on_object (f x)) note_closed) (\<lambda>_ t. tracked w0 t \<and> P (outer t) \<and> S w0 (fst (fst t)) (snd t) x
      \<and> (\<exists>b. snd (fst t) = v\<lparr>rv_failed := b\<rparr>)) (\<lambda>_ _. False) ((ow, v), w)"
    unfolding wp_bind wp_within
    by (rule wp_mono[OF close]) (use k in \<open>auto simp: note_closed_def set_vars_def wp_update outer_def\<close>)
  then show ?thesis using Some s by simp
qed

lemma finally_job_step:
  assumes t: "tracked w0 s"
  shows "wp finally_job (\<lambda>_ t. tracked w0 t \<and> (\<forall>j. made w0 (snd t) ''job_new'' j \<longrightarrow> settled_job w0 (fst (fst t)) (snd t) j)) (\<lambda>_ _. False) s"
proof -
  obtain ow v w where s: "s = ((ow, v), w)" by (metis prod.exhaust)
  have e: "extends w0 w" using t s by (simp add: tracked_def)
  show ?thesis
  proof (cases "rv_job_tried v \<or> rv_job v = None")
    case True
    then show ?thesis using t s by (auto simp: finally_job_def vars_def wp_simps tracked_def)
  next
    case False
    then obtain j where j: "rv_job v = Some j" "\<not> rv_job_tried v" by blast
    have k: "tracked w0 ((ow', v\<lparr>rv_job_tried := True, rv_failed := b\<rparr>), w') \<and> (\<forall>j. made w0 w' ''job_new'' j \<longrightarrow> settled_job w0 ow' w' j)"
      if a: "after (ow, w) (ow', w')" "settled_job w ow' w' j" for ow' w' b
    proof -
      have "tracked w0 ((ow', v), w')" using tracked_later t s a(1) by (auto simp: after_def)
      moreover have "settled_job w0 ow' w' j" using settled_from(1)[OF e _ a(2)] a(1) by (simp add: after_def quiet_extends)
      ultimately show ?thesis using j by (auto simp: tracked_def Let_def)
    qed
    have "wp (bind (on_object (close_job_owner j)) note_closed) (\<lambda>_ t. tracked w0 t \<and> (\<forall>j. made w0 (snd t) ''job_new'' j \<longrightarrow> settled_job w0 (fst (fst t)) (snd t) j))
        (\<lambda>_ _. False) ((ow, v\<lparr>rv_job_tried := True\<rparr>), w)"
      unfolding wp_bind wp_within by (rule wp_mono[OF close_job_owner_wp]) (use k in \<open>auto simp: note_closed_def set_vars_def wp_simps\<close>)
    then show ?thesis using j s by (simp add: finally_job_def vars_def wp_bind[of "field _"] wp_field wp_andthen set_vars_def wp_update)
  qed
qed

definition jobs_settled :: "world \<Rightarrow> owners \<times> world \<Rightarrow> bool" where
  "jobs_settled w0 t \<longleftrightarrow> (\<forall>j. made w0 (snd t) ''job_new'' j \<longrightarrow> settled_job w0 (fst t) (snd t) j)"

definition processes_settled :: "world \<Rightarrow> owners \<times> world \<Rightarrow> bool" where
  "processes_settled w0 t \<longleftrightarrow> (\<forall>p. made w0 (snd t) ''process_new'' p \<longrightarrow> settled_process w0 (fst t) (snd t) p)"

definition ipc_settled :: "string \<Rightarrow> (val \<Rightarrow> ipc) \<Rightarrow> world \<Rightarrow> owners \<times> world \<Rightarrow> bool" where
  "ipc_settled n f w0 t \<longleftrightarrow> (\<forall>q. made w0 (snd t) n q \<longrightarrow> settled_ipc w0 (fst t) (snd t) (f q))"

lemma lasting_all: "lasting w0 (jobs_settled w0)" "lasting w0 (processes_settled w0)" "lasting w0 (ipc_settled ''Pipe'' Receiver w0)"
    "lasting w0 (ipc_settled ''Pipe'' Sender w0)" "lasting w0 (ipc_settled ''Queue'' Queue w0)"
  unfolding jobs_settled_def processes_settled_def ipc_settled_def by (rule lasting_settled)+

lemma finally_process_step:
  assumes "tracked w0 s" "P (outer s)" "lasting w0 P"
  shows "wp (finally_process c) (\<lambda>_ t. tracked w0 t \<and> P (outer t) \<and> processes_settled w0 (outer t)) (\<lambda>_ _. False) s"
proof -
  have "wp (case rv_process (snd (fst s)) of None \<Rightarrow> ret () | Some x \<Rightarrow> bind (on_object (close_process_owner c x (rv_started (snd (fst s))))) note_closed)
    (\<lambda>_ t. tracked w0 t \<and> P (outer t) \<and> (\<forall>x. rv_process (snd (fst s)) = Some x \<longrightarrow> settled_process w0 (fst (fst t)) (snd t) x)
       \<and> (\<exists>b. snd (fst t) = snd (fst s)\<lparr>rv_failed := b\<rparr>)) (\<lambda>_ _. False) s"
    by (rule finally_step[OF _ _ assms]) (rule wp_mono[OF close_process_owner_wp], auto intro: settled_from(2))
  then show ?thesis
    by (simp add: finally_process_def vars_def wp_bind[of "field _"] wp_field)
      (erule wp_mono, auto simp: tracked_def Let_def processes_settled_def outer_def)
qed

lemma finally_endpoint_step:
  assumes "tracked w0 s" "P (outer s)" "lasting w0 P"
  shows "wp (finally_endpoint b sel) (\<lambda>_ t. tracked w0 t \<and> P (outer t) \<and> (\<forall>x. sel (snd (fst s)) = Some x \<longrightarrow> settled_ipc w0 (fst (fst t)) (snd t) x)
      \<and> (\<exists>b. snd (fst t) = snd (fst s)\<lparr>rv_failed := b\<rparr>)) (\<lambda>_ _. False) s"
proof -
  have "wp (case sel (snd (fst s)) of None \<Rightarrow> ret () | Some x \<Rightarrow> bind (on_object (close_endpoint b x True)) note_closed)
    (\<lambda>_ t. tracked w0 t \<and> P (outer t) \<and> (\<forall>x. sel (snd (fst s)) = Some x \<longrightarrow> settled_ipc w0 (fst (fst t)) (snd t) x)
       \<and> (\<exists>b. snd (fst t) = snd (fst s)\<lparr>rv_failed := b\<rparr>)) (\<lambda>_ _. False) s"
    by (rule finally_step[OF _ _ assms]) (rule wp_mono[OF close_endpoint_wp], auto intro: settled_from(3))
  then show ?thesis by (simp add: finally_endpoint_def vars_def wp_bind[of "field _"] wp_field)
qed

lemma finally_output_step:
  assumes "tracked w0 s" "P (outer s)" "lasting w0 P"
  shows "wp (finally_output c) (\<lambda>_ t. tracked w0 t \<and> P (outer t) \<and> ipc_settled ''Queue'' Queue w0 (outer t)) (\<lambda>_ _. False) s"
proof -
  have "wp (case rv_output (snd (fst s)) of None \<Rightarrow> ret () | Some x \<Rightarrow> bind (on_object (close_output c x True)) note_closed)
    (\<lambda>_ t. tracked w0 t \<and> P (outer t) \<and> (\<forall>x. rv_output (snd (fst s)) = Some x \<longrightarrow> settled_ipc w0 (fst (fst t)) (snd t) x)
       \<and> (\<exists>b. snd (fst t) = snd (fst s)\<lparr>rv_failed := b\<rparr>)) (\<lambda>_ _. False) s"
    by (rule finally_step[OF _ _ assms]) (rule wp_mono[OF close_output_wp], auto intro: settled_from(3))
  then show ?thesis
    by (simp add: finally_output_def vars_def wp_bind[of "field _"] wp_field)
      (erule wp_mono, auto simp: tracked_def Let_def ipc_settled_def outer_def)
qed

definition closing :: "string set" where
  "closing = {''clock_ns'', ''job_close'', ''process_close'', ''close_attribute'', ''close'', ''_thread''} \<union> stopping \<union> threading"

lemma closing_has [simp]: "''clock_ns'' \<in> closing" "''job_close'' \<in> closing" "''process_close'' \<in> closing" "''close_attribute'' \<in> closing"
    "''close'' \<in> closing" "''_thread'' \<in> closing" "''cancel_join_thread'' \<in> closing" "''cancel_call'' \<in> closing"
  by (simp_all add: closing_def threading_def)

lemma closer_calls: "calls closing (close_job_owner j)" "calls closing (close_process_owner c p b)" "calls closing (close_output c e r)" "calls closing (close_endpoint x e r)"
proof -
  have t: "calls closing (terminate_child p c)" "calls closing (channel_ended c e v)" for v
    by (rule calls_mono[OF terminate_rests(1)] calls_mono[OF channel_rests(1)], simp add: closing_def le_supI1 le_supI2 subset_insertI2)+
  show "calls closing (close_job_owner j)" "calls closing (close_process_owner c p b)" "calls closing (close_output c e r)" "calls closing (close_endpoint x e r)"
    by (auto simp: close_job_owner_def close_process_owner_def close_output_def close_endpoint_def optional_call_def retain_job_def retain_process_def
        retain_ipc_def intro!: calls_intros t)
qed

lemma retry_each_calls: "(\<And>x. calls closing (f x)) \<Longrightarrow> calls closing (retry_each f xs)"
  by (induction xs) (auto intro!: calls_intros)

lemma retry_calls: "calls closing (retry_pending c)"
  unfolding retry_pending_def retry_processes_def retry_jobs_def retry_ipc_def
  by (intro calls_intros retry_each_calls; (simp add: closer_calls split: prod.split)?)

lemma accounted_nothing: "quiet w0 w \<Longrightarrow> accounted w0 (ow, w)"
  using made_quiet[of w0 w0 w] by (simp add: accounted_def making_def)

lemma accounted_before:
  assumes "quiet w w1" "extends w1 w2" "accounted w1 (ow, w2)"
  shows "accounted w (ow, w2)"
proof -
  have e: "extends w w1" using assms(1) by (simp add: quiet_extends)
  have m: "made w w2 n x \<longleftrightarrow> made w1 w2 n x" if "n \<in> making" for n x
    using assms(1) recent_trans[OF e assms(2)] that by (force simp: made_def since_recent quiet_def)
  show ?thesis
    using assms(3) settled_from[OF e assms(2)] by (auto simp: accounted_def m making_def)
qed

lemma conclude_wp: "wp (conclude r) (\<lambda>_ t. t = s) (\<lambda>_ t. t = s) s"
  by (auto simp: conclude_def vars_def wp_simps split: sum.split)

definition call_end :: "deadline \<Rightarrow> unit rprog" where
  "call_end c = andthen finally_job (andthen (finally_process c) (andthen (finally_endpoint False rv_receiver)
     (andthen (finally_endpoint False rv_sender) (finally_endpoint True rv_authorized))))"

lemma call_end_wp:
  assumes "tracked w0 s"
  shows "wp (call_end c) (\<lambda>_ t. extends w0 (snd t) \<and> jobs_settled w0 (outer t) \<and> processes_settled w0 (outer t)
      \<and> ipc_settled ''Pipe'' Receiver w0 (outer t) \<and> ipc_settled ''Pipe'' Sender w0 (outer t)) (\<lambda>_ _. False) s"
proof -
  let ?J = "jobs_settled w0" and ?P = "processes_settled w0" and ?R = "ipc_settled ''Pipe'' Receiver w0" and ?S = "ipc_settled ''Pipe'' Sender w0"
  have 5: "wp (finally_endpoint True rv_authorized) (\<lambda>_ t. extends w0 (snd t) \<and> ?J (outer t) \<and> ?P (outer t) \<and> ?R (outer t) \<and> ?S (outer t)) (\<lambda>_ _. False) t"
    if "tracked w0 t \<and> ((?J (outer t) \<and> ?P (outer t)) \<and> ?R (outer t)) \<and> ?S (outer t)" for t
    by (rule wp_mono[OF finally_endpoint_step[OF _ _ lasting_conj[OF lasting_conj[OF lasting_conj[OF lasting_all(1,2)] lasting_all(3)] lasting_all(4)]]])
      (use that in \<open>auto simp: tracked_def Let_def\<close>)
  have 4: "wp (finally_endpoint False rv_sender) (\<lambda>_ t. tracked w0 t \<and> ((?J (outer t) \<and> ?P (outer t)) \<and> ?R (outer t)) \<and> ?S (outer t)) (\<lambda>_ _. False) t"
    if "tracked w0 t \<and> (?J (outer t) \<and> ?P (outer t)) \<and> ?R (outer t)" for t
    by (rule wp_mono[OF finally_endpoint_step[OF _ _ lasting_conj[OF lasting_conj[OF lasting_all(1,2)] lasting_all(3)]]])
      (use that in \<open>auto simp: tracked_def Let_def ipc_settled_def outer_def\<close>)
  have 3: "wp (finally_endpoint False rv_receiver) (\<lambda>_ t. tracked w0 t \<and> (?J (outer t) \<and> ?P (outer t)) \<and> ?R (outer t)) (\<lambda>_ _. False) t"
    if "tracked w0 t \<and> ?J (outer t) \<and> ?P (outer t)" for t
    by (rule wp_mono[OF finally_endpoint_step[OF _ _ lasting_conj[OF lasting_all(1,2)]]])
      (use that in \<open>auto simp: tracked_def Let_def ipc_settled_def outer_def\<close>)
  have 2: "wp (finally_process c) (\<lambda>_ t. tracked w0 t \<and> ?J (outer t) \<and> ?P (outer t)) (\<lambda>_ _. False) t" if "tracked w0 t \<and> ?J (outer t)" for t
    by (rule wp_mono[OF finally_process_step[OF _ _ lasting_all(1)]]) (use that in auto)
  have 1: "wp finally_job (\<lambda>_ t. tracked w0 t \<and> ?J (outer t)) (\<lambda>_ _. False) s"
    by (rule wp_mono[OF finally_job_step[OF assms]]) (auto simp: jobs_settled_def outer_def)
  show ?thesis
    unfolding call_end_def wp_andthen
    by (rule wp_mono[OF 1], rule wp_mono[OF 2], assumption, rule wp_mono[OF 3], assumption, rule wp_mono[OF 4], assumption,
        rule wp_mono[OF 5], assumption) auto
qed

lemma closer_others:
  assumes "n \<in> {''Queue'', ''Pipe''}"
  shows "calls (- {n}) (close_job_owner j)" "calls (- {n}) (close_process_owner c p b)" "calls (- {n}) (close_output c e r)"
    "calls (- {n}) (close_endpoint x e r)" "calls (- {n}) (retry_pending c)"
proof -
  have "closing \<subseteq> - {n}" using assms by (auto simp: closing_def stopping_def threading_def)
  then show "calls (- {n}) (close_job_owner j)" "calls (- {n}) (close_process_owner c p b)" "calls (- {n}) (close_output c e r)"
      "calls (- {n}) (close_endpoint x e r)" "calls (- {n}) (retry_pending c)"
    by (blast intro: calls_mono closer_calls retry_calls)+
qed

lemmas step_defs = set_vars_def vars_def note_closed_def new_child_def start_child_def contain_child_def close_job_in_body_def the_child_def
  finally_job_def finally_process_def finally_endpoint_def finally_output_def conclude_def

lemma call_no_queue: "calls (- {''Queue''}) (bounded_file_call nt target c)"
  unfolding bounded_file_call_def file_call_body_def call_create_def give_sender_def call_answer_def step_defs
  by (intro calls_intros closer_others; simp)

lemma read_no_pipe: "calls (- {''Pipe''}) (bounded_file_read nt c)"
  unfolding bounded_file_read_def file_read_body_def read_start_def read_answer_def step_defs
  by (intro calls_intros closer_others; simp)

lemma never_made: "calls (- {n}) m \<Longrightarrow> wp m (\<lambda>_ t. \<forall>x. \<not> made (snd s) (snd t) n x) (\<lambda>_ t. \<forall>x. \<not> made (snd s) (snd t) n x) s"
  by (erule wp_mono[OF calls_wp]) (force simp: made_def since_recent)+

text \<open>What a run leaves, counted from an earlier world between which and the run nothing was made.\<close>

definition call_done :: "world \<Rightarrow> owners \<times> world \<Rightarrow> bool" where
  "call_done w0 t \<longleftrightarrow> extends w0 (snd t) \<and> jobs_settled w0 t \<and> processes_settled w0 t
     \<and> ipc_settled ''Pipe'' Receiver w0 t \<and> ipc_settled ''Pipe'' Sender w0 t"

definition read_done :: "world \<Rightarrow> owners \<times> world \<Rightarrow> bool" where
  "read_done w0 t \<longleftrightarrow> extends w0 (snd t) \<and> jobs_settled w0 t \<and> processes_settled w0 t \<and> ipc_settled ''Queue'' Queue w0 t"

lemma settled_before:
  assumes "quiet w w1" "extends w1 (snd t)"
  shows "jobs_settled w1 t \<Longrightarrow> jobs_settled w t" "processes_settled w1 t \<Longrightarrow> processes_settled w t"
    "n \<in> {''Pipe'', ''Queue''} \<Longrightarrow> ipc_settled n f w1 t \<Longrightarrow> ipc_settled n f w t"
proof -
  have e: "extends w w1" using assms(1) by (simp add: quiet_extends)
  have m: "made w (snd t) n x \<longleftrightarrow> made w1 (snd t) n x" if "n \<in> making" for n x
    using assms(1) recent_trans[OF e assms(2)] that by (force simp: made_def since_recent quiet_def)
  note f = settled_from[OF e assms(2)]
  show "jobs_settled w1 t \<Longrightarrow> jobs_settled w t" "processes_settled w1 t \<Longrightarrow> processes_settled w t"
    "n \<in> {''Pipe'', ''Queue''} \<Longrightarrow> ipc_settled n f w1 t \<Longrightarrow> ipc_settled n f w t"
    using f by (auto simp: jobs_settled_def processes_settled_def ipc_settled_def m making_def)
qed

lemma call_done_before: "quiet w w1 \<Longrightarrow> call_done w1 t \<Longrightarrow> call_done w t"
  using settled_before[of w w1 t] by (auto simp: call_done_def dest: quiet_extends intro: extends_trans)

lemma read_done_before: "quiet w w1 \<Longrightarrow> read_done w1 t \<Longrightarrow> read_done w t"
  using settled_before[of w w1 t] by (auto simp: read_done_def dest: quiet_extends intro: extends_trans)

lemma nothing_done: "quiet w w1 \<Longrightarrow> call_done w (ow, w1) \<and> read_done w (ow, w1)"
  using made_quiet[of w w w1]
  by (simp add: call_done_def read_done_def jobs_settled_def processes_settled_def ipc_settled_def making_def quiet_extends)

lemma call_end_done: "tracked w0 s \<Longrightarrow> wp (call_end c) (\<lambda>_ t. call_done w0 (outer t)) (\<lambda>_ _. False) s"
  by (rule wp_mono[OF call_end_wp]) (auto simp: call_done_def outer_def)

definition read_end :: "deadline \<Rightarrow> unit rprog" where
  "read_end c = andthen finally_job (andthen (finally_process c) (finally_output c))"

lemma read_end_done:
  assumes "tracked w0 s"
  shows "wp (read_end c) (\<lambda>_ t. read_done w0 (outer t)) (\<lambda>_ _. False) s"
proof -
  let ?J = "jobs_settled w0" and ?P = "processes_settled w0"
  have 3: "wp (finally_output c) (\<lambda>_ t. read_done w0 (outer t)) (\<lambda>_ _. False) t" if "tracked w0 t \<and> ?J (outer t) \<and> ?P (outer t)" for t
    by (rule wp_mono[OF finally_output_step[OF _ _ lasting_conj[OF lasting_all(1,2)]]])
      (use that in \<open>auto simp: tracked_def Let_def read_done_def outer_def\<close>)
  have 2: "wp (finally_process c) (\<lambda>_ t. tracked w0 t \<and> ?J (outer t) \<and> ?P (outer t)) (\<lambda>_ _. False) t" if "tracked w0 t \<and> ?J (outer t)" for t
    by (rule wp_mono[OF finally_process_step[OF _ _ lasting_all(1)]]) (use that in auto)
  have 1: "wp finally_job (\<lambda>_ t. tracked w0 t \<and> ?J (outer t)) (\<lambda>_ _. False) s"
    by (rule wp_mono[OF finally_job_step[OF assms]]) (auto simp: jobs_settled_def outer_def)
  show ?thesis
    unfolding read_end_def wp_andthen
    by (rule wp_mono[OF 1], rule wp_mono[OF 2], assumption, rule wp_mono[OF 3], assumption) auto
qed

text \<open>The run of a bounded call: its body, the end, and what follows it without a change.\<close>

lemma run_settled:
  assumes body: "wp body (\<lambda>_. tracked w1) (\<lambda>_. tracked w1) ((ow1, no_vars), w1)"
    and finish: "\<And>s. tracked w1 s \<Longrightarrow> wp finish (\<lambda>_ t. A (outer t)) (\<lambda>_ _. False) s"
    and rest: "\<And>r s. wp (rest r) (\<lambda>_ t. t = s) (\<lambda>_ t. t = s) s"
  shows "wp (with_local no_vars (bind (outcome body) (\<lambda>r. andthen finish (rest r)))) (\<lambda>_. A) (\<lambda>_. A) (ow1, w1)"
proof -
  have f: "wp (andthen finish (rest r)) (\<lambda>_ t. A (outer t)) (\<lambda>_ t. A (outer t)) s" if "tracked w1 s" for r s
    unfolding wp_andthen by (rule wp_mono[OF finish[OF that]]) (auto intro: wp_mono[OF rest])
  show ?thesis
    unfolding wp_with_local wp_bind wp_outcome fst_conv snd_conv outer_def[symmetric]
    by (rule wp_mono[OF body]; rule f; assumption)
qed

lemma prelude_quiet: "wp (andthen (usable_or_fail c) (retry_pending c)) (\<lambda>_ t. quiet w (snd t)) (\<lambda>_ t. quiet w (snd t)) (ow, w)"
proof -
  have "closing \<inter> making = {}" by (auto simp: closing_def stopping_def threading_def making_def)
  moreover have "calls closing (andthen (usable_or_fail c) (retry_pending c) :: unit oprog)" by (intro calls_intros retry_calls) simp
  ultimately show ?thesis using calls_wp[of closing _ "(ow, w)"] by (fastforce simp: quiet_def elim: wp_mono)
qed

lemma call_shape: "bounded_file_call nt target c = andthen (andthen (usable_or_fail c) (retry_pending c))
    (with_local no_vars (bind (outcome (file_call_body nt target c)) (\<lambda>r. andthen (call_end c) (conclude r))))"
  by (simp add: bounded_file_call_def call_end_def andthen_assoc)

lemma read_shape: "bounded_file_read nt c = andthen (andthen (usable_or_fail c) (retry_pending c))
    (with_local no_vars (bind (outcome (file_read_body nt c)) (\<lambda>r. andthen (read_end c)
       (bind (conclude r) (\<lambda>x. case x of VBytes b \<Rightarrow> ret b | _ \<Rightarrow> fail file_failed)))))"
  by (simp add: bounded_file_read_def read_end_def andthen_assoc)

lemma bytes_of_wp: "wp (bind (conclude r) (\<lambda>x. case x of VBytes b \<Rightarrow> ret b | _ \<Rightarrow> fail file_failed)) (\<lambda>_ t. t = s) (\<lambda>_ t. t = s) s"
  unfolding wp_bind by (rule wp_mono[OF conclude_wp]) (auto simp: wp_simps split: val.split)

lemma call_accounted: "wp (bounded_file_call nt target c) (\<lambda>_. accounted w) (\<lambda>_. accounted w) (ow, w)"
proof -
  let ?run = "with_local no_vars (bind (outcome (file_call_body nt target c)) (\<lambda>r. andthen (call_end c) (conclude r)))"
  have "wp ?run (\<lambda>_. call_done w1) (\<lambda>_. call_done w1) (ow1, w1)" for ow1 w1
    by (rule run_settled[OF file_call_body_tracked call_end_done conclude_wp])
  then have r: "wp ?run (\<lambda>_. call_done w) (\<lambda>_. call_done w) (ow1, w1)" if "quiet w w1" for ow1 w1
    by (rule wp_mono) (use call_done_before[OF that] in auto)
  have "wp (bounded_file_call nt target c) (\<lambda>_. call_done w) (\<lambda>_. call_done w) (ow, w)"
    unfolding call_shape wp_andthen[of "andthen _ _"]
    by (rule wp_mono[OF prelude_quiet]) (use r nothing_done in \<open>auto simp: split_paired_all\<close>)
  from wp_conj[OF this never_made[OF call_no_queue]] show ?thesis
    by (rule wp_mono) (auto simp: accounted_def call_done_def jobs_settled_def processes_settled_def ipc_settled_def)
qed

lemma read_accounted: "wp (bounded_file_read nt c) (\<lambda>_. accounted w) (\<lambda>_. accounted w) (ow, w)"
proof -
  let ?run = "with_local no_vars (bind (outcome (file_read_body nt c)) (\<lambda>r. andthen (read_end c) (bind (conclude r) (\<lambda>x. case x of VBytes b \<Rightarrow> ret b | _ \<Rightarrow> fail file_failed))))"
  have "wp ?run (\<lambda>_. read_done w1) (\<lambda>_. read_done w1) (ow1, w1)" for ow1 w1
    by (rule run_settled[OF file_read_body_tracked read_end_done bytes_of_wp])
  then have r: "wp ?run (\<lambda>_. read_done w) (\<lambda>_. read_done w) (ow1, w1)" if "quiet w w1" for ow1 w1
    by (rule wp_mono) (use read_done_before[OF that] in auto)
  have "wp (bounded_file_read nt c) (\<lambda>_. read_done w) (\<lambda>_. read_done w) (ow, w)"
    unfolding read_shape wp_andthen[of "andthen _ _"]
    by (rule wp_mono[OF prelude_quiet]) (use r nothing_done in \<open>auto simp: split_paired_all\<close>)
  from wp_conj[OF this never_made[OF read_no_pipe]] show ?thesis
    by (rule wp_mono) (auto simp: accounted_def read_done_def jobs_settled_def processes_settled_def ipc_settled_def)
qed

section \<open>A successful call\<close>

text \<open>Nothing is pending, but for the sender's end of a pipe.\<close>

definition pending_clear :: "owners \<Rightarrow> bool" where
  "pending_clear ow \<longleftrightarrow> ow_jobs ow = [] \<and> ow_processes ow = [] \<and> fst ` set (ow_ipc ow) \<subseteq> range Sender"

definition clear :: "(owners \<times> run_vars) \<times> world \<Rightarrow> bool" where
  "clear s \<longleftrightarrow> pending_clear (fst (fst s))"

definition clean :: "(owners \<times> run_vars) \<times> world \<Rightarrow> bool" where
  "clean s \<longleftrightarrow> rv_failed (snd (fst s)) \<or> pending_clear (fst (fst s))"

lemma clear_clean: "clear s \<Longrightarrow> clean s"
  by (simp add: clear_def clean_def)

lemma clear_prims [keeps_intros]: "keeps clear (ext c)" "keeps clear (set_vars f)" "keeps clear (vars g)" "keeps clear clock_ns"
  by (auto simp: keeps_def clear_def set_vars_def vars_def wp_simps split: sum.split)

lemma clean_ext [keeps_intros]: "keeps clean (ext c)" "keeps clean clock_ns"
  by (auto simp: keeps_def clean_def wp_simps split: sum.split)

lemma kept_basics [keeps_intros]:
  "keeps clear m \<Longrightarrow> keeps clear (tried m)" "keeps clear (getattr_none n args)" "keeps clear (usable_or_fail c)" "keeps clear (usable_seconds c)"
  "keeps clear (join_child p)" "keeps clear (unpack x)" "keeps clean (usable_or_fail c)"
  unfolding tried_def getattr_none_def usable_or_fail_def usable_seconds_def join_child_def unpack_def by (intro keeps_intros; assumption?)+

lemma clear_sender: "pending_clear ow \<Longrightarrow> ow_jobs ow' = ow_jobs ow \<Longrightarrow> ow_processes ow' = ow_processes ow \<Longrightarrow>
    fst ` set (ow_ipc ow') \<subseteq> insert (Sender q) (fst ` set (ow_ipc ow)) \<Longrightarrow> pending_clear ow'"
  unfolding pending_clear_def by auto

lemma clear_give_sender [keeps_intros]: "keeps clear (give_sender q)"
proof (rule keepsI)
  fix s assume c: "clear s"
  obtain ow v w where s: "s = ((ow, v), w)" by (metis prod.exhaust)
  show "wp (give_sender q) (\<lambda>_. clear) (\<lambda>_. clear) s"
    unfolding give_sender_def s wp_bind[of "on_object _"] wp_within
    by (rule wp_mono[OF close_endpoint_wp])
      (use c s in \<open>auto simp: note_closed_def set_vars_def wp_simps clear_def intro: clear_sender\<close>)
qed

lemma clear_before: "keeps clear (call_create target)" "keeps clear read_start" "keeps clear the_child" "keeps clear (contain_child nt p)" "keeps clear (call_answer c q p)"
  unfolding call_create_def read_start_def new_child_def start_child_def the_child_def contain_child_def call_answer_def by (intro keeps_intros)+

lemma body_job_clean: "clear s \<Longrightarrow> wp close_job_in_body (\<lambda>_. clean) (\<lambda>_. clean) s"
proof -
  assume c: "clear s"
  obtain ow v w where s: "s = ((ow, v), w)" by (metis prod.exhaust)
  have "wp (on_object (close_job_owner j)) (\<lambda>ok. wp (set_vars (\<lambda>v. v\<lparr>rv_failed := \<not> ok\<rparr>)) (\<lambda>_. clean) (\<lambda>_. clean)) (\<lambda>_. clean) ((ow, v'), w)" for j v'
    unfolding wp_within by (rule wp_mono[OF close_job_owner_wp]) (use c s in \<open>auto simp: set_vars_def wp_simps clean_def clear_def\<close>)
  then show ?thesis
    using c s by (auto simp: close_job_in_body_def vars_def wp_bind wp_field wp_andthen set_vars_def[of "\<lambda>v. v\<lparr>rv_job_tried := True\<rparr>"] wp_update
        wp_ret clear_clean split: option.split)
qed

text \<open>A method that keeps the lists clear, and then one that leaves them clean.\<close>

lemma clear_then: "keeps clear m \<Longrightarrow> clear s \<Longrightarrow> (\<And>x t. clear t \<Longrightarrow> wp (f x) (\<lambda>_. clean) (\<lambda>_. clean) t) \<Longrightarrow> wp (bind m f) (\<lambda>_. clean) (\<lambda>_. clean) s"
  unfolding wp_bind by (rule wp_mono[OF keepsD[of clear]]) (auto intro: clear_clean)

lemma clear_then': "keeps clear m \<Longrightarrow> clear s \<Longrightarrow> (\<And>t. clear t \<Longrightarrow> wp n (\<lambda>_. clean) (\<lambda>_. clean) t) \<Longrightarrow> wp (andthen m n) (\<lambda>_. clean) (\<lambda>_. clean) s"
  unfolding andthen_def by (rule clear_then)

lemma clean_then: "wp m (\<lambda>_. clean) (\<lambda>_. clean) s \<Longrightarrow> keeps clean n \<Longrightarrow> wp (andthen m n) (\<lambda>_. clean) (\<lambda>_. clean) s"
  unfolding wp_andthen by (erule wp_mono) (auto dest: keepsD)

lemma call_body_clean:
  assumes "clear s"
  shows "wp (file_call_body nt target c) (\<lambda>_. clean) (\<lambda>_. clean) s"
proof -
  have 1: "wp (andthen close_job_in_body (ret x)) (\<lambda>_. clean) (\<lambda>_. clean) t" if "clear t" for x :: val and t
    by (rule clean_then[OF body_job_clean[OF that]]) (intro keeps_intros)
  have 2: "wp (andthen (contain_child nt p) (andthen (usable_or_fail c) (andthen (ext (''set'', [ev]))
      (bind (call_answer c q p) (\<lambda>x. andthen close_job_in_body (ret x)))))) (\<lambda>_. clean) (\<lambda>_. clean) t" if "clear t" for q ev p t
    by (rule clear_then'[OF clear_before(4) that], rule clear_then'[OF kept_basics(3)], assumption, rule clear_then'[OF clear_prims(1)], assumption,
        rule clear_then[OF clear_before(5)], assumption, erule 1)
  show ?thesis
    unfolding file_call_body_def
    by (rule clear_then[OF clear_before(1) assms]; simp add: split_paired_all, rule clear_then'[OF clear_give_sender], assumption,
        rule clear_then[OF clear_before(3)], assumption, erule 2)
qed

lemma read_body_clean:
  assumes "clear s"
  shows "wp (file_read_body nt c) (\<lambda>_. clean) (\<lambda>_. clean) s"
proof -
  have e: "wp (andthen close_job_in_body (fail deadline_passed)) (\<lambda>_. clear) (\<lambda>_. clean) t" if "clear t" for t :: "(owners \<times> run_vars) \<times> world"
    unfolding wp_andthen by (rule wp_mono[OF body_job_clean[OF that]]) (auto simp: wp_fail)
  have g: "wp (catch (bind (usable_seconds c) (\<lambda>t. bind (ext (''get'', [q, t])) unpack))
      (\<lambda>e. if e = queue_empty then andthen close_job_in_body (fail deadline_passed) else fail e)) (\<lambda>_. clear) (\<lambda>_. clean) t" if "clear t" for q t
  proof -
    have k: "keeps clear (bind (usable_seconds c) (\<lambda>t. bind (ext (''get'', [q, t])) unpack))" by (intro keeps_intros)
    show ?thesis unfolding wp_catch by (rule wp_mono[OF keepsD[OF k that]]) (auto simp: wp_fail clear_clean intro: e)
  qed
  have c: "wp m (\<lambda>_. clear) (\<lambda>_. clean) t" if "keeps clear m" "clear t" for m :: "'x rprog" and t
    by (rule wp_mono[OF keepsD[OF that]]) (auto intro: clear_clean)
  have a: "wp (read_answer c q p) (\<lambda>_. clear) (\<lambda>_. clean) t" if "clear t" for q p t
  proof -
    have j: "keeps clear (bind (usable_seconds c) (\<lambda>t. andthen (ext (''join'', [p, t])) (ret m)))" for m :: "val \<times> val" by (intro keeps_intros)
    have n: "keeps clear (bind (ext (''get_nowait'', [q])) unpack)" by (intro keeps_intros)
    have x: "wp (bind (catch (bind (usable_seconds c) (\<lambda>t. bind (ext (''get'', [q, t])) unpack))
        (\<lambda>e. if e = queue_empty then andthen close_job_in_body (fail deadline_passed) else fail e)) (\<lambda>m. bind (usable_seconds c) (\<lambda>t. andthen (ext (''join'', [p, t])) (ret m))))
        (\<lambda>_. clear) (\<lambda>_. clean) t" if "clear t" for t
      unfolding wp_bind[of "catch _ _"] by (rule wp_mono[OF g[OF that]]) (auto intro: c[OF j])
    show ?thesis
      unfolding read_answer_def wp_bind[of clock_ns] wp_andthen wp_bind[of "join_child _"]
      by (rule wp_mono[OF c[OF clear_prims(4) that]]; (rule wp_mono[OF c[OF clear_prims(1)]])?; (assumption | rule wp_mono[OF c[OF kept_basics(5)]])?;
          auto simp: wp_if intro: x c[OF n])
  qed
  have r: "wp (bind (join_child p) (\<lambda>alive. if alive then fail file_failed
     else andthen close_job_in_body (andthen (usable_or_fail c) (if \<not> truthy b then fail file_failed else ret x)))) (\<lambda>_. clean) (\<lambda>_. clean) t"
    if "clear t" for p b x t
    by (rule clear_then[OF kept_basics(5) that]) (auto simp: wp_fail clear_clean intro!: clean_then body_job_clean keeps_intros)
  show ?thesis
    unfolding file_read_body_def
    by (rule clear_then[OF clear_before(2) assms]; simp add: split_paired_all, rule clear_then[OF clear_before(3)], assumption,
        rule clear_then'[OF clear_before(4)], assumption, rule clear_then'[OF kept_basics(3)], assumption, rule clear_then'[OF clear_prims(1)], assumption,
        simp add: wp_bind[of "read_answer _ _ _"], rule wp_mono[OF a], assumption, auto intro: r)
qed

text \<open>A closer of the \<open>finally\<close> block that succeeds retains nothing, and one that fails is noted.\<close>

lemma clean_note:
  assumes "\<And>s. wp m (\<lambda>ok t. ok \<longrightarrow> fst t = fst s) (\<lambda>_ _. False) s"
  shows "keeps clean (bind (on_object m) note_closed)"
proof (rule keepsI)
  fix s assume c: "clean s"
  obtain ow v w where s: "s = ((ow, v), w)" by (metis prod.exhaust)
  show "wp (bind (on_object m) note_closed) (\<lambda>_. clean) (\<lambda>_. clean) s"
    unfolding wp_bind wp_within s
    by (rule wp_mono[OF assms]) (use c s in \<open>auto simp: note_closed_def set_vars_def wp_update clean_def\<close>)
qed

lemma clean_closers [keeps_intros]:
  "keeps clean (bind (on_object (close_job_owner j)) note_closed)"
  "keeps clean (bind (on_object (close_process_owner c p b)) note_closed)"
  "keeps clean (bind (on_object (close_endpoint x e True)) note_closed)"
  "keeps clean (bind (on_object (close_output c e True)) note_closed)"
  by (rule clean_note, rule wp_mono[OF close_job_owner_wp] wp_mono[OF close_process_owner_wp] wp_mono[OF close_endpoint_wp]
      wp_mono[OF close_output_wp]; simp)+

lemma clean_tried [keeps_intros]: "keeps clean (set_vars (\<lambda>v. v\<lparr>rv_job_tried := True\<rparr>))" "keeps clean (vars g)"
  by (auto simp: keeps_def clean_def set_vars_def vars_def wp_simps)

lemma ends_clean: "keeps clean (call_end c)" "keeps clean (read_end c)"
  unfolding call_end_def read_end_def finally_job_def finally_process_def finally_endpoint_def finally_output_def
  by (intro keeps_intros)+

text \<open>The retry that lets a call start leaves nothing pending.\<close>

lemma retry_wp:
  "wp retry_jobs (\<lambda>ok t. ow_processes (fst t) = ow_processes (fst s) \<and> (ok \<longrightarrow> ow_jobs (fst t) = [])) (\<lambda>_ _. True) s"
  "wp (retry_processes c) (\<lambda>ok t. ok \<longrightarrow> ow_processes (fst t) = []) (\<lambda>_ _. True) s"
  "wp (retry_ipc c) (\<lambda>ok t. ow_processes (fst t) = ow_processes (fst s) \<and> ow_jobs (fst t) = ow_jobs (fst s) \<and> (ok \<longrightarrow> ow_ipc (fst t) = [])) (\<lambda>_ _. True) s"
proof -
  have j: "keeps (\<lambda>t. ow_processes (fst t) = ps) (close_job_owner j)" for ps j
    unfolding keeps_def by (auto simp: close_job_owner_def retain_job_def wp_simps split: sum.split)
  have rj: "keeps (\<lambda>t. ow_processes (fst t) = ps) (retry_each close_job_owner js)" for ps js
    by (induction js) (auto intro!: keeps_intros j)
  have e: "still (close_output c e False)" "still (close_endpoint True e False)" for e :: ipc
    unfolding close_output_def close_endpoint_def optional_call_def by (intro still_intros channel_rests; simp)+
  have re: "still (retry_each (\<lambda>(e, output). if output then close_output c e False else close_endpoint True e False) es)" for es
    by (induction es) (auto intro!: still_intros e)
  have st: "wp m (\<lambda>_ t. fst t = fst s) (\<lambda>_ t. fst t = fst s) s" if "still m" for m :: "'x oprog" and s
    using that[unfolded still_def, rule_format, of s] by (auto simp: wp_def split: prod.split sum.split)
  have tt: "wp m (\<lambda>_ _. True) (\<lambda>_ _. True) s" for m :: "'x oprog" and s
    by (auto simp: wp_def split: prod.split sum.split)
  show "wp retry_jobs (\<lambda>ok t. ow_processes (fst t) = ow_processes (fst s) \<and> (ok \<longrightarrow> ow_jobs (fst t) = [])) (\<lambda>_ _. True) s"
    unfolding retry_jobs_def wp_bind wp_field
    by (rule wp_mono[OF keepsD[OF rj]]) (auto simp: wp_simps)
  show "wp (retry_processes c) (\<lambda>ok t. ok \<longrightarrow> ow_processes (fst t) = []) (\<lambda>_ _. True) s"
    unfolding retry_processes_def wp_bind wp_field
    by (rule wp_mono[OF tt]) (auto simp: wp_simps)
  show "wp (retry_ipc c) (\<lambda>ok t. ow_processes (fst t) = ow_processes (fst s) \<and> ow_jobs (fst t) = ow_jobs (fst s) \<and> (ok \<longrightarrow> ow_ipc (fst t) = [])) (\<lambda>_ _. True) s"
    unfolding retry_ipc_def wp_bind wp_field
    by (rule wp_mono[OF st[OF re]]) (auto simp: wp_simps)
qed

lemma prelude_clear: "wp (andthen (usable_or_fail c) (retry_pending c)) (\<lambda>_ t. pending_clear (fst t)) (\<lambda>_ _. True) s"
proof -
  have i: "wp (bind (retry_ipc c) (\<lambda>ok. if \<not> ok then fail file_failed else ret ())) (\<lambda>_ t. pending_clear (fst t)) (\<lambda>_ _. True) t"
    if "ow_processes (fst t) = []" "ow_jobs (fst t) = []" for t
    unfolding wp_bind by (rule wp_mono[OF retry_wp(3)]) (use that in \<open>auto simp: wp_simps pending_clear_def\<close>)
  have j: "wp (bind retry_jobs (\<lambda>ok. if \<not> ok then fail file_failed else bind (retry_ipc c) (\<lambda>ok. if \<not> ok then fail file_failed else ret ())))
      (\<lambda>_ t. pending_clear (fst t)) (\<lambda>_ _. True) t" if "ow_processes (fst t) = []" for t
    unfolding wp_bind[of retry_jobs] by (rule wp_mono[OF retry_wp(1)]) (use that i in \<open>auto simp: wp_fail\<close>)
  have r: "wp (retry_pending c) (\<lambda>_ t. pending_clear (fst t)) (\<lambda>_ _. True) t" for t
    unfolding retry_pending_def wp_bind[of "retry_processes _"] by (rule wp_mono[OF retry_wp(2)]) (use j in \<open>auto simp: wp_fail\<close>)
  show ?thesis by (simp add: usable_or_fail_def wp_simps r split: sum.split)
qed

lemma run_clean:
  assumes body: "\<And>s. clear s \<Longrightarrow> wp body (\<lambda>_. clean) (\<lambda>_. clean) s"
    and finish: "keeps clean finish"
    and rest: "\<And>r s. clean s \<Longrightarrow> wp (rest r) (\<lambda>_. clear) (\<lambda>_ _. True) s"
    and start: "pending_clear ow1"
  shows "wp (with_local no_vars (bind (outcome body) (\<lambda>r. andthen finish (rest r)))) (\<lambda>_ t. pending_clear (fst t)) (\<lambda>_ _. True) (ow1, w1)"
proof -
  have f: "wp (andthen finish (rest r)) (\<lambda>_. clear) (\<lambda>_ _. True) s" if "clean s" for r s
    unfolding wp_andthen by (rule wp_mono[OF keepsD[OF finish that]]) (auto intro: rest)
  have "wp body (\<lambda>x. wp (andthen finish (rest (Inr x))) (\<lambda>_. clear) (\<lambda>_ _. True)) (\<lambda>e. wp (andthen finish (rest (Inl e))) (\<lambda>_. clear) (\<lambda>_ _. True))
      ((ow1, no_vars), w1)"
    by (rule wp_mono[OF body]) (use start f in \<open>auto simp: clear_def\<close>)
  then show ?thesis unfolding wp_with_local wp_bind wp_outcome by (simp add: clear_def[abs_def])
qed

lemma conclude_clear: "clean s \<Longrightarrow> wp (conclude r) (\<lambda>_. clear) (\<lambda>_ _. True) s"
  by (auto simp: conclude_def vars_def wp_simps clean_def clear_def split: sum.split)

lemma bytes_clear: "clean s \<Longrightarrow> wp (bind (conclude r) (\<lambda>x. case x of VBytes b \<Rightarrow> ret b | _ \<Rightarrow> fail file_failed)) (\<lambda>_. clear) (\<lambda>_ _. True) s"
  unfolding wp_bind by (rule wp_mono[OF conclude_clear]) (auto simp: wp_simps split: val.split)

lemma call_clear: "wp (bounded_file_call nt target c) (\<lambda>_ t. pending_clear (fst t)) (\<lambda>_ _. True) s"
  unfolding call_shape wp_andthen[of "andthen _ _"]
  by (rule wp_mono[OF prelude_clear]; clarsimp) (rule run_clean; (rule ends_clean)?; (erule call_body_clean conclude_clear | assumption)?)

lemma read_clear: "wp (bounded_file_read nt c) (\<lambda>_ t. pending_clear (fst t)) (\<lambda>_ _. True) s"
  unfolding read_shape wp_andthen[of "andthen _ _"]
  by (rule wp_mono[OF prelude_clear]; clarsimp) (rule run_clean; (rule ends_clean)?; (erule read_body_clean bytes_clear | assumption)?)

section \<open>The property\<close>

lemma run_ends: "wp m (\<lambda>_ t. A t \<and> C t) (\<lambda>_ t. A t \<and> True) s \<Longrightarrow> case m s of (r, t) \<Rightarrow> A t \<and> (isl r \<or> C t)"
  by (cases "m s"; cases "fst (m s)") (auto simp: wp_def)

text \<open>C34: however a bounded file call or read ends, each child process, Job, pipe end and queue it made is closed or kept in the
  pending list of the module; and when it returns, no process, no Job and no channel but a sender's end is pending.
\<close>

theorem bounded_accounts:
  "(case bounded_file_call nt target c (ow, w) of (r, t) \<Rightarrow> accounted w t \<and> (isl r \<or> pending_clear (fst t)))
   \<and> (case bounded_file_read nt d (ow, w) of (r, t) \<Rightarrow> accounted w t \<and> (isl r \<or> pending_clear (fst t)))"
  by (rule conjI[OF run_ends[OF wp_conj[OF call_accounted call_clear]] run_ends[OF wp_conj[OF read_accounted read_clear]]])

end
