(* ===== verification/Worker.thy ===== *)
theory Worker
  imports BoundedFile Adapter Document
begin

text \<open>
  The worker process of the OpenCode provider (\<open>OpenCodeWorkerProcess\<close> in \<open>src/yasb_limitora/worker.py\<close>): one read in a child
  process that is contained in a Job, with a record of every resource the read made.

  \<^item> The state is the worker, whose record says of each resource whether it is gone. The locals \<open>queue\<close>, \<open>authorized\<close> and
    \<open>process\<close>, which the \<open>finally\<close> block reads, are \<open>worker_vars\<close>.
  \<^item> Processes, jobs, queues and events are references; what the child put into the queue is an object, and \<open>we_received\<close> is the
    outcome of the two \<open>isinstance\<close> tests on it.
  \<^item> An attribute read with a default is a call whose failure is the default; \<open>None\<close> has none of the attributes that are read.
\<close>

section \<open>Views and records\<close>

definition worker_error :: "provider_key \<Rightarrow> error_code \<Rightarrow> ('o, view) prog" where
  "worker_error p code = lift_result (api_error p code)"

definition not_run :: "provider_key \<Rightarrow> string \<Rightarrow> ('o, view) prog" where
  "not_run p reason = lift_result (not_run_view (u reason) p)"

record read_result =
  rr_view :: view
  rr_evidence :: "failure_evidence option"

datatype received = GotResult read_result | GotView view | GotOther

record worker_record =
  wr_worker :: val
  wr_job :: val
  wr_queue_closed :: bool
  wr_queue :: val
  wr_authorized_closed :: bool
  wr_authorized :: val
  wr_reaped :: bool
  wr_exit_code :: val
  wr_job_zero :: bool
  wr_job_closed :: bool
  wr_process_closed :: bool
  wr_started :: bool

definition new_record :: "val \<Rightarrow> worker_record" where
  "new_record q = \<lparr>wr_worker = VNone, wr_job = VNone, wr_queue_closed = False, wr_queue = q, wr_authorized_closed = False, wr_authorized = VNone,
     wr_reaped = False, wr_exit_code = VNone, wr_job_zero = False, wr_job_closed = False, wr_process_closed = False, wr_started = False\<rparr>"

text \<open>The conditions of \<open>cleanup_complete\<close> on a record.\<close>

definition record_complete :: "worker_record \<Rightarrow> bool" where
  "record_complete r \<longleftrightarrow> wr_reaped r \<and> (wr_exit_code r \<noteq> VNone \<or> \<not> wr_started r)
     \<and> (wr_job r = VNone \<or> wr_job_zero r \<and> wr_job_closed r) \<and> wr_process_closed r \<and> wr_queue_closed r \<and> wr_authorized_closed r"

record worker =
  wk_record :: "worker_record option"
  wk_result :: "read_result option"

record worker_env =
  we_received :: "val \<Rightarrow> received"
  we_factory :: bool
  we_nt :: bool

type_synonym 'a wprog = "(worker, 'a) prog"

definition set_record :: "(worker_record \<Rightarrow> worker_record) \<Rightarrow> unit wprog" where
  "set_record f = update (\<lambda>w. w\<lparr>wk_record := map_option f (wk_record w)\<rparr>)"

definition set_result :: "view \<Rightarrow> failure_evidence \<Rightarrow> unit wprog" where
  "set_result v e = update (\<lambda>w. w\<lparr>wk_result := Some \<lparr>rr_view = v, rr_evidence = Some e\<rparr>\<rparr>)"

section \<open>Closing the resources\<close>

definition attribute_of :: "string \<Rightarrow> val \<Rightarrow> ('o, val) prog" where
  "attribute_of n x = (if x = VNone then ret VNone else getattr_none n [x])"

definition process_alive :: "val \<Rightarrow> ('o, bool) prog" where
  "process_alive p = bind (attribute_of ''is_alive_attribute'' p) (\<lambda>f.
     if f = VNone then ret False else bind (ext (''is_alive'', [p])) (\<lambda>a. ret (truthy a)))"

definition join_cleanup :: "deadline \<Rightarrow> val \<Rightarrow> ('o, unit) prog" where
  "join_cleanup c p = bind (cleanup_seconds c) (\<lambda>t. andthen (ext (''join'', [p, t])) (ret ()))"

definition close_any_job :: "deadline \<Rightarrow> val \<Rightarrow> ('o, unit) prog" where
  "close_any_job c j = bind (attribute_of ''close_with_deadline'' j) (\<lambda>f.
     if f \<noteq> VNone then andthen (ext (''job_close'', [j])) (ret ())
     else bind (cleanup_seconds c) (\<lambda>t. andthen (ext (''job_close_within'', [j, t])) (ret ())))"

definition equals_zero :: "val \<Rightarrow> bool" where
  "equals_zero v = (case v of VInt n \<Rightarrow> n = 0 | VBool b \<Rightarrow> \<not> b | VFloat f \<Rightarrow> float_eq_int f 0 | _ \<Rightarrow> False)"

text \<open>\<open>getattr(job, name, default)\<close>, where any other failure than a missing attribute is raised.\<close>

definition job_attribute :: "string \<Rightarrow> val \<Rightarrow> val \<Rightarrow> ('o, val) prog" where
  "job_attribute n j d = catch (ext (n, [j])) (\<lambda>e. if e = AttributeError then ret d else fail e)"

definition job_zero :: "val \<Rightarrow> ('o, bool) prog" where
  "job_zero j = bind (job_attribute ''active_processes'' j (VInt 0)) (\<lambda>n.
     if equals_zero n then ret True else bind (job_attribute ''job_active_zero'' j (VBool False)) (\<lambda>b. ret (truthy b)))"

definition job_is_closed :: "val \<Rightarrow> ('o, bool) prog" where
  "job_is_closed j = bind (job_attribute ''state'' j VNone) (\<lambda>s.
     if s = VStr (u ''closed'') then ret True else bind (job_attribute ''closed'' j (VBool False)) (\<lambda>b. ret (truthy b)))"

definition close_worker_job :: "deadline \<Rightarrow> val \<Rightarrow> unit wprog" where
  "close_worker_job c j =
     andthen (close_any_job c j)
    (bind (job_zero j) (\<lambda>zero. andthen (set_record (\<lambda>r. r\<lparr>wr_job_zero := zero\<rparr>))
    (bind (job_is_closed j) (\<lambda>closed. set_record (\<lambda>r. r\<lparr>wr_job_closed := closed\<rparr>)))))"

definition close_queue :: "val \<Rightarrow> ('o, unit) prog" where
  "close_queue q =
     bind (attribute_of ''cancel_join_thread'' q) (\<lambda>f.
     andthen (if f \<noteq> VNone then andthen (ext (''cancel_call'', [q])) (ret ()) else ret ())
    (bind (attribute_of ''close_attribute'' q) (\<lambda>g. if g \<noteq> VNone then andthen (ext (''close'', [q])) (ret ()) else ret ())))"

definition close_worker_queue :: "val \<Rightarrow> unit wprog" where
  "close_worker_queue q = andthen (close_queue q) (set_record (\<lambda>r. r\<lparr>wr_queue_closed := True, wr_queue := VNone\<rparr>))"

definition close_worker_event :: "val \<Rightarrow> unit wprog" where
  "close_worker_event ev =
     bind (attribute_of ''close_attribute'' ev) (\<lambda>g.
     andthen (if g \<noteq> VNone then andthen (ext (''close'', [ev])) (ret ()) else ret ())
       (set_record (\<lambda>r. r\<lparr>wr_authorized_closed := True, wr_authorized := VNone\<rparr>)))"

text \<open>\<open>_reap_process\<close>: stop the process, note whether it is gone, and close it only then.\<close>

definition stop_process :: "deadline \<Rightarrow> bool \<Rightarrow> val \<Rightarrow> ('o, bool) prog" where
  "stop_process c terminate p =
     bind (process_alive p) (\<lambda>alive.
     andthen (if alive \<and> terminate then tried (ext (''terminate'', [p])) else ret True)
    (andthen (if alive then tried (join_cleanup c p) else ret True)
    (bind (process_alive p) (\<lambda>alive.
     andthen (if alive then bind (attribute_of ''kill'' p) (\<lambda>k.
                if k \<noteq> VNone then tried (andthen (ext (''kill_call'', [p])) (join_cleanup c p)) else ret True) else ret True)
    (process_alive p)))))"

definition reap_process :: "deadline \<Rightarrow> bool \<Rightarrow> val \<Rightarrow> unit wprog" where
  "reap_process c terminate p =
     bind (field wk_record) (\<lambda>r. case r of
       None \<Rightarrow> ret ()
     | Some r \<Rightarrow>
         bind (if wr_started r then
                 bind (stop_process c terminate p) (\<lambda>alive.
                 bind (attribute_of ''exitcode'' p) (\<lambda>code.
                 andthen (set_record (\<lambda>r. r\<lparr>wr_exit_code := code, wr_reaped := \<not> alive\<rparr>)) (ret (\<not> alive))))
               else andthen (set_record (\<lambda>r. r\<lparr>wr_reaped := True\<rparr>)) (ret True)) (\<lambda>reaped.
         if \<not> reaped then ret ()
         else
           bind (attribute_of ''close_attribute'' p) (\<lambda>f.
           if f = VNone then set_record (\<lambda>r. r\<lparr>wr_process_closed := True\<rparr>)
           else bind (tried (ext (''process_close'', [p]))) (\<lambda>closed. set_record (\<lambda>r. r\<lparr>wr_process_closed := closed\<rparr>)))))"

section \<open>A read\<close>

record worker_vars =
  wv_queue :: "val option"
  wv_authorized :: "val option"
  wv_process :: "val option"

type_synonym 'a vprog = "(worker \<times> worker_vars, 'a) prog"

definition set_worker_vars :: "(worker_vars \<Rightarrow> worker_vars) \<Rightarrow> unit vprog" where
  "set_worker_vars f = update (\<lambda>(w, v). (w, f v))"

definition worker_start :: "(val \<times> val \<times> val) vprog" where
  "worker_start =
     andthen (ext (''context_factory'', [VStr (u ''spawn'')]))
    (bind (ext (''Queue'', [])) (\<lambda>q.
     andthen (set_worker_vars (\<lambda>v. v\<lparr>wv_queue := Some q\<rparr>))
    (andthen (on_object (update (\<lambda>w. w\<lparr>wk_record := Some (new_record q)\<rparr>)))
    (bind (ext (''Event'', [])) (\<lambda>ev.
     andthen (set_worker_vars (\<lambda>v. v\<lparr>wv_authorized := Some ev\<rparr>))
    (andthen (on_object (set_record (\<lambda>r. r\<lparr>wr_authorized := ev\<rparr>)))
    (bind (ext (''process_new'', [VStr (u ''_opencode_bootstrap'')])) (\<lambda>p.
     andthen (set_worker_vars (\<lambda>v. v\<lparr>wv_process := Some p\<rparr>))
    (andthen (on_object (set_record (\<lambda>r. r\<lparr>wr_worker := p\<rparr>)))
    (andthen (ext (''open_devnull'', []))
    (andthen (ext (''start'', [p]))
    (andthen (on_object (set_record (\<lambda>r. r\<lparr>wr_started := True\<rparr>))) (ret (q, ev, p))))))))))))))"

definition is_int :: "val \<Rightarrow> bool" where
  "is_int v = (case v of VInt _ \<Rightarrow> True | VBool _ \<Rightarrow> True | _ \<Rightarrow> False)"

definition worker_contain :: "val \<Rightarrow> val vprog" where
  "worker_contain p =
     bind (ext (''job_new'', [])) (\<lambda>j.
     andthen (on_object (set_record (\<lambda>r. r\<lparr>wr_job := j\<rparr>)))
    (bind (ext (''pid'', [p])) (\<lambda>pid.
     if \<not> is_int pid then fail (TypeError ''worker process has no pid'')
     else andthen (ext (''job_assign'', [j, pid, VBool True])) (ret j))))"

definition worker_timeout :: "view vprog" where
  "worker_timeout = bind (worker_error OpencodeGo ETimeout) (\<lambda>v. andthen (on_object (set_result v EvTimeout)) (ret v))"

definition worker_overdue :: "deadline \<Rightarrow> val \<Rightarrow> val \<Rightarrow> view vprog" where
  "worker_overdue c p j =
     andthen (on_object (close_worker_job c j)) (andthen (on_object (reap_process c True p)) worker_timeout)"

definition worker_answer :: "worker_env \<Rightarrow> deadline \<Rightarrow> val \<Rightarrow> val \<Rightarrow> val \<Rightarrow> view vprog" where
  "worker_answer e c q p j =
     bind (ext (''exitcode'', [p])) (\<lambda>code.
     andthen (on_object (set_record (\<lambda>r. r\<lparr>wr_exit_code := code, wr_reaped := True\<rparr>)))
    (bind (ext (''get_nowait'', [q])) (\<lambda>x.
     andthen (on_object (update (\<lambda>w. w\<lparr>wk_result := (case we_received e x of GotResult r \<Rightarrow> Some r | _ \<Rightarrow> None)\<rparr>)))
    (andthen (on_object (close_worker_job c j))
    (andthen (on_object (reap_process c False p))
    (case we_received e x of GotResult r \<Rightarrow> ret (rr_view r) | GotView v \<Rightarrow> ret v | GotOther \<Rightarrow> worker_error OpencodeGo EProvider))))))"

definition worker_attempt :: "worker_env \<Rightarrow> deadline \<Rightarrow> view vprog" where
  "worker_attempt e c =
     bind worker_start (\<lambda>(q, ev, p).
     bind (worker_contain p) (\<lambda>j.
     bind clock_ns (\<lambda>now.
     if usable_ns c now \<le> 0 then worker_timeout
     else
       andthen (ext (''set'', [ev]))
      (bind (usable_seconds c) (\<lambda>t.
       andthen (ext (''join'', [p, t]))
      (bind (join_child p) (\<lambda>alive. if alive then worker_overdue c p j else worker_answer e c q p j)))))))"

text \<open>The handler of a failed attempt, and the \<open>finally\<close> block.\<close>

definition worker_recover :: "deadline \<Rightarrow> view vprog" where
  "worker_recover c =
     andthen (tried (bind (field (wk_record \<circ> fst)) (\<lambda>r. case r of
         None \<Rightarrow> ret ()
       | Some r \<Rightarrow> if wr_job r = VNone then ret () else on_object (close_worker_job c (wr_job r)))))
    (bind (field (wv_process \<circ> snd)) (\<lambda>p.
     andthen (case p of None \<Rightarrow> ret () | Some p \<Rightarrow> on_object (reap_process c True p))
    (bind (worker_error OpencodeGo EProvider) (\<lambda>v. andthen (on_object (set_result v EvUnavailable)) (ret v)))))"

definition last_reap :: "deadline \<Rightarrow> unit vprog" where
  "last_reap c =
     bind (field id) (\<lambda>(w, v). case (wk_record w, wv_process v) of
       (Some r, Some p) \<Rightarrow> if \<not> wr_reaped r then on_object (reap_process c False p) else ret ()
     | (Some _, None) \<Rightarrow> on_object (set_record (\<lambda>r. r\<lparr>wr_reaped := True, wr_process_closed := True\<rparr>))
     | (None, _) \<Rightarrow> ret ())"

definition last_event_absent :: "unit vprog" where
  "last_event_absent = bind (field (wv_authorized \<circ> snd)) (\<lambda>ev.
     if ev = None then on_object (set_record (\<lambda>r. r\<lparr>wr_authorized_closed := True\<rparr>)) else ret ())"

definition last_queue :: "unit vprog" where
  "last_queue = bind (field (wv_queue \<circ> snd)) (\<lambda>q. case q of
     None \<Rightarrow> ret ()
   | Some q \<Rightarrow> bind (tried (on_object (close_worker_queue q))) (\<lambda>ok.
       if ok then ret () else on_object (set_record (\<lambda>r. r\<lparr>wr_queue_closed := False\<rparr>))))"

definition last_event :: "unit vprog" where
  "last_event = bind (field (wv_authorized \<circ> snd)) (\<lambda>ev. case ev of
     None \<Rightarrow> ret ()
   | Some ev \<Rightarrow> bind (tried (on_object (close_worker_event ev))) (\<lambda>ok.
       if ok then ret () else on_object (set_record (\<lambda>r. r\<lparr>wr_authorized_closed := False\<rparr>))))"

definition run_with_deadline :: "worker_env \<Rightarrow> deadline \<Rightarrow> view wprog" where
  "run_with_deadline e c =
     andthen (update (\<lambda>w. w\<lparr>wk_result := None\<rparr>))
    (bind clock_ns (\<lambda>now.
     if usable_ns c now \<le> 0 then not_run OpencodeGo ''deadline_exhausted''
     else if \<not> we_factory e \<and> \<not> we_nt e then
       bind (worker_error OpencodeGo EProvider) (\<lambda>v. andthen (set_result v EvUnavailable) (ret v))
     else
       with_local \<lparr>wv_queue = None, wv_authorized = None, wv_process = None\<rparr>
        (ensure
          (catch (worker_attempt e c) (\<lambda>_. worker_recover c))
          (andthen (last_reap c) (andthen last_event_absent (andthen last_queue last_event))))))"

text \<open>The child: it waits for the authorization, reads, and puts the answer, or the sanitized failure.\<close>

definition opencode_bootstrap :: "bool \<Rightarrow> ('o, unit) prog" where
  "opencode_bootstrap authorized =
     andthen (catch (andthen (ext (''open_devnull'', [])) (ret ())) (\<lambda>e. if is_OSError e then ret () else fail e))
    (bind (tried (andthen (if authorized then ext (''wait'', []) else ret VNone)
             (bind (ext (''reader'', [])) (\<lambda>x. ext (''put'', [x]))))) (\<lambda>ok.
     if ok then ret () else andthen (tried (ext (''put_unavailable'', []))) (ret ())))"

end
