(* ===== verification/ChildProcess.thy ===== *)
theory ChildProcess
  imports BoundedFile
begin

text \<open>
  How a child process is started on Windows, and the bounded read of the configuration (\<open>path.py\<close>): the environment the child
  gets, the start itself (\<open>_windows_spawn_popen\<close>), and \<open>read_config\<close> with its injectable file functions.

  \<^item> An environment is a dict, an association list in insertion order; its items are values of any type. \<open>str.upper\<close> is the
    argument \<open>upper\<close>, \<open>sys.frozen\<close> the argument \<open>frozen\<close>.
  \<^item> The handles of the start are references; the pair that \<open>CreatePipe\<close> answers is a reference whose ends are told apart by the
    first argument of the calls on them, as for the endpoints of \<open>BoundedFile\<close>. The four handles of \<open>CreateProcess\<close> are its items.
\<close>

section \<open>The environment of a child\<close>

definition public_env_keys :: "string list" where
  "public_env_keys = [''ALLUSERSPROFILE'', ''APPDATA'', ''COMSPEC'', ''HOMEDRIVE'', ''HOMEPATH'', ''LANG'', ''LC_ALL'', ''LC_CTYPE'',
     ''LOCALAPPDATA'', ''NUMBER_OF_PROCESSORS'', ''OS'', ''PATH'', ''PATHEXT'', ''PROCESSOR_ARCHITECTURE'', ''PROCESSOR_IDENTIFIER'',
     ''PROGRAMDATA'', ''SYSTEMDRIVE'', ''SYSTEMROOT'', ''TEMP'', ''TERM'', ''TMP'', ''USERDOMAIN'', ''USERNAME'', ''USERPROFILE'', ''WINDIR'']"

definition pyinstaller_env_keys :: "string list" where
  "pyinstaller_env_keys = [''_PYI_ARCHIVE_FILE'', ''_PYI_APPLICATION_HOME_DIR'', ''_PYI_PARENT_PROCESS_LEVEL'']"

type_synonym env = "(ustr \<times> ustr) list"

definition public_child_environment :: "(ustr \<Rightarrow> ustr) \<Rightarrow> (val \<times> val) list \<Rightarrow> env" where
  "public_child_environment upper items = concat (map (\<lambda>(k, v). case (k, v) of
       (VStr key, VStr x) \<Rightarrow> if upper key \<in> u ` set public_env_keys then [(key, x)] else []
     | _ \<Rightarrow> []) items)"

definition pyinstaller_items :: "(val \<times> val) list \<Rightarrow> env" where
  "pyinstaller_items items = concat (map (\<lambda>(k, v). case (k, v) of
       (VStr key, VStr x) \<Rightarrow> if key \<in> u ` set pyinstaller_env_keys then [(key, x)] else []
     | _ \<Rightarrow> []) items)"

definition private_child_environment :: "(ustr \<Rightarrow> ustr) \<Rightarrow> bool \<Rightarrow> (val \<times> val) list \<Rightarrow> env" where
  "private_child_environment upper frozen items =
     (if frozen then fold (\<lambda>(k, v). dict_put k v) (pyinstaller_items items) (public_child_environment upper items)
      else public_child_environment upper items)"

definition windows_spawn_executable :: "bool \<Rightarrow> val \<Rightarrow> bool \<Rightarrow> val \<Rightarrow> val" where
  "windows_spawn_executable frozen python_exe replace_with_base base_executable =
     (if frozen \<or> \<not> replace_with_base then python_exe else base_executable)"

section \<open>The start of a child\<close>

text \<open>The process object with the environment it was given, and the fields of the \<open>Popen\<close> object.\<close>

record spawn =
  sp_environment :: env
  sp_pid :: "val option"
  sp_handle :: "val option"
  sp_finalizer :: "val option"

type_synonym 'a sprog = "(spawn, 'a) prog"

definition read_end_args :: "val \<Rightarrow> val list" where "read_end_args q = [VInt 0, q]"
definition write_end_args :: "val \<Rightarrow> val list" where "write_end_args q = [VInt 1, q]"

text \<open>\<open>try: m except BaseException: undo; raise\<close>, and \<open>suppress(OSError)\<close>.\<close>

definition undone_by :: "('o, 'a) prog \<Rightarrow> ('o, unit) prog \<Rightarrow> ('o, 'a) prog" where
  "undone_by m undo = catch m (\<lambda>e. andthen undo (fail e))"

definition suppress_OSError :: "('o, 'a) prog \<Rightarrow> ('o, unit) prog" where
  "suppress_OSError m = catch (andthen m (ret ())) (\<lambda>e. if is_OSError e then ret () else fail e)"

definition close_handle :: "val list \<Rightarrow> ('o, unit) prog" where
  "close_handle h = andthen (ext (''CloseHandle'', h)) (ret ())"

definition env_args :: "env \<Rightarrow> val list" where
  "env_args env = concat (map (\<lambda>(k, v). [VStr k, VStr v]) env)"

definition spawn_process :: "val \<Rightarrow> val \<Rightarrow> val \<Rightarrow> env \<Rightarrow> (val \<times> val) sprog" where
  "spawn_process python_exe cmd q env =
     undone_by
      (bind (ext (''CreateProcess'', python_exe # cmd # env_args env)) (\<lambda>r.
       bind (ext (''item'', [r, VInt 0])) (\<lambda>hp.
       bind (ext (''item'', [r, VInt 1])) (\<lambda>ht.
       bind (ext (''item'', [r, VInt 2])) (\<lambda>pid. andthen (close_handle [ht]) (ret (hp, pid)))))))
      (close_handle (read_end_args q))"

definition not_a_number :: "py_exn \<Rightarrow> bool" where
  "not_a_number e \<longleftrightarrow> (case e of TypeError _ \<Rightarrow> True | OverflowError \<Rightarrow> True | _ \<Rightarrow> is_ValueError e)"

definition spawn_numbers :: "val \<Rightarrow> val \<Rightarrow> (val \<times> val) sprog" where
  "spawn_numbers hp q =
     catch
      (bind (ext (''int'', [hp])) (\<lambda>sentinel. bind (ext (''int'', read_end_args q)) (\<lambda>rhandle. ret (sentinel, rhandle))))
      (\<lambda>e. if not_a_number e then andthen (close_handle [hp]) (andthen (close_handle (read_end_args q)) (fail e)) else fail e)"

definition windows_spawn_popen :: "bool \<Rightarrow> bool \<Rightarrow> ustr \<Rightarrow> unit sprog" where
  "windows_spawn_popen frozen winenv executable =
     bind (ext (''get_preparation_data'', [])) (\<lambda>prep.
     bind (ext (''CreatePipe'', [VNone, VInt 0])) (\<lambda>q.
     bind (ext (''open_osfhandle'', write_end_args q)) (\<lambda>wfd.
     bind (ext (''get_command_line'', VInt 2 # read_end_args q)) (\<lambda>cmd.
     bind (ext (''get_executable'', [])) (\<lambda>python_exe.
     bind (field sp_environment) (\<lambda>env.
     bind (if winenv then bind (ext (''_path_eq'', [python_exe, VStr executable])) (\<lambda>b. ret (truthy b)) else ret False) (\<lambda>replace.
     bind (ext (''_base_executable'', [])) (\<lambda>base.
     let python_exe = windows_spawn_executable frozen python_exe replace base;
         env = (if replace \<and> \<not> frozen then dict_put (u ''__PYVENV_LAUNCHER__'') executable env else env) in
     bind (undone_by (ext (''open'', [wfd]))
            (andthen (close_handle (read_end_args q)) (suppress_OSError (ext (''close_fd'', [wfd]))))) (\<lambda>to_child.
     andthen (ensure
      (bind (spawn_process python_exe cmd q env) (\<lambda>(hp, pid).
       bind (spawn_numbers hp q) (\<lambda>(sentinel, rhandle).
       andthen (update (\<lambda>sp. sp\<lparr>sp_pid := Some pid, sp_handle := Some hp\<rparr>))
      (bind (ext (''Finalize'', [sentinel, rhandle])) (\<lambda>f.
       andthen (update (\<lambda>sp. sp\<lparr>sp_finalizer := Some f\<rparr>))
      (andthen (ext (''set_spawning_popen'', [VBool True]))
      (ensure
        (andthen (ext (''dump'', [prep, to_child])) (ext (''dump_process'', [to_child])))
        (ext (''set_spawning_popen'', [VNone])))))))))
      (ext (''close_file'', [to_child]))) (ret ()))))))))))"

text \<open>\<open>_child_process\<close>: a given factory makes the process; the private one, with its own environment, is for a real Windows spawn
  context; any other context makes its own.\<close>

definition is_genuine_windows_spawn_context :: "bool \<Rightarrow> bool \<Rightarrow> bool" where
  "is_genuine_windows_spawn_context nt spawn_context \<longleftrightarrow> nt \<and> spawn_context"

definition child_process :: "bool \<Rightarrow> bool \<Rightarrow> bool \<Rightarrow> (ustr \<Rightarrow> ustr) \<Rightarrow> bool \<Rightarrow> (val \<times> val) list \<Rightarrow> val sprog" where
  "child_process factory nt spawn_context upper frozen items =
     (if factory then ext (''process_factory'', [])
      else if is_genuine_windows_spawn_context nt spawn_context then
        bind (ext (''_WindowsSpawnProcess'', [])) (\<lambda>p.
        andthen (update (\<lambda>sp. sp\<lparr>sp_environment := private_child_environment upper frozen items\<rparr>)) (ret p))
      else ext (''Process'', []))"

section \<open>The bounded read of the configuration\<close>

text \<open>Which of the file functions are those of \<open>os\<close>; an injected one is a call of the same name.\<close>

record file_functions =
  ff_stat :: bool
  ff_open :: bool
  ff_read :: bool
  ff_close :: bool

definition os_functions :: "file_functions \<Rightarrow> bool" where
  "os_functions f \<longleftrightarrow> ff_stat f \<and> ff_open f \<and> ff_read f \<and> ff_close f"

definition val_json :: "val \<Rightarrow> json" where
  "val_json v = (case v of VStr s \<Rightarrow> JStr s | _ \<Rightarrow> JNull)"

text \<open>\<open>os.fspath(path) if isinstance(path, os.PathLike) else path\<close>: a reference is a path-like object.\<close>

definition path_text :: "val \<Rightarrow> val oprog" where
  "path_text path = (case path of VRef _ \<Rightarrow> ext (''fspath'', [path]) | _ \<Rightarrow> ret path)"

definition config_open :: "bool \<Rightarrow> nat \<Rightarrow> full_path_api \<Rightarrow> file_functions \<Rightarrow> deadline \<Rightarrow> val \<Rightarrow> (bytes + val) oprog" where
  "config_open nt fuel api ff c path =
     catch
      (andthen (usable_or_fail c) (andthen (retry_pending c)
      (bind (path_text path) (\<lambda>p.
       bind (lift_result (canonicalize_path fuel api (val_json p))) (\<lambda>canonical.
       if os_functions ff then bind (bounded_file_read nt c) (\<lambda>b. ret (Inl b))
       else
         andthen (usable_or_fail c)
        (bind (ext (''stat'', [VStr canonical])) (\<lambda>size. case size of
           VInt n \<Rightarrow>
             if int max_config_bytes < n then fail file_failed
             else andthen (usable_or_fail c) (bind (ext (''open'', [VStr canonical])) (\<lambda>d. ret (Inr d)))
         | _ \<Rightarrow> fail file_failed)))))))
      (\<lambda>e. if is_FileError e then fail e else fail file_failed)"

definition config_data :: "bool \<Rightarrow> file_functions \<Rightarrow> deadline \<Rightarrow> val \<Rightarrow> bytes oprog" where
  "config_data nt ff c d =
     andthen (usable_or_fail c)
    (bind (if ff_read ff then ext (''read'', [d, VInt (int config_read_probe)]) else bounded_file_call nt ''read'' c) (\<lambda>x. case x of
       VBytes b \<Rightarrow> if max_config_bytes < length b then fail file_failed else ret b
     | _ \<Rightarrow> fail file_failed))"

definition config_close :: "bool \<Rightarrow> file_functions \<Rightarrow> deadline \<Rightarrow> val \<Rightarrow> unit oprog" where
  "config_close nt ff c d =
     andthen
      (if ff_close ff then andthen (ext (''close_fd'', [d])) (ret ())
       else ensure (andthen (usable_or_fail c) (andthen (bounded_file_call nt ''close'' c) (ret ())))
              (suppress_OSError (ext (''close_fd'', [d]))))
      (usable_or_fail c)"

definition read_config :: "bool \<Rightarrow> nat \<Rightarrow> full_path_api \<Rightarrow> file_functions \<Rightarrow> deadline \<Rightarrow> val \<Rightarrow> bytes oprog" where
  "read_config nt fuel api ff c path =
     bind (config_open nt fuel api ff c path) (\<lambda>r. case r of
       Inl b \<Rightarrow> ret b
     | Inr d \<Rightarrow>
         bind (outcome (config_data nt ff c d)) (\<lambda>data.
         bind (outcome (config_close nt ff c d)) (\<lambda>closed.
         case data of
           Inl e \<Rightarrow> if is_FileError e then fail e else fail file_failed
         | Inr b \<Rightarrow> (case closed of
             Inl e \<Rightarrow> if is_FileError e then fail e else fail file_failed
           | Inr _ \<Rightarrow> ret b))))"

section \<open>What a child can see\<close>

definition private_key :: "(ustr \<Rightarrow> ustr) \<Rightarrow> bool \<Rightarrow> ustr \<Rightarrow> bool" where
  "private_key upper frozen k \<longleftrightarrow> upper k \<in> u ` set public_env_keys \<or> frozen \<and> k \<in> u ` set pyinstaller_env_keys"

text \<open>A variable the child may get: one of the parent's under an allowed name, or the launcher of a virtual environment.\<close>

definition inherited :: "(ustr \<Rightarrow> ustr) \<Rightarrow> bool \<Rightarrow> (val \<times> val) list \<Rightarrow> ustr \<Rightarrow> ustr \<times> ustr \<Rightarrow> bool" where
  "inherited upper frozen items executable kv \<longleftrightarrow>
     private_key upper frozen (fst kv) \<and> (VStr (fst kv), VStr (snd kv)) \<in> set items
     \<or> \<not> frozen \<and> kv = (u ''__PYVENV_LAUNCHER__'', executable)"

lemma dict_put_entries: "kv \<in> set (dict_put k v d) \<Longrightarrow> kv \<in> set d \<or> kv = (k, v)"
  by (induction d) (auto split: if_splits)

lemma private_entries:
  assumes "kv \<in> set (private_child_environment upper frozen items)"
  shows "private_key upper frozen (fst kv) \<and> (VStr (fst kv), VStr (snd kv)) \<in> set items"
proof -
  have p: "kv \<in> set (public_child_environment upper items) \<Longrightarrow> private_key upper frozen (fst kv) \<and> (VStr (fst kv), VStr (snd kv)) \<in> set items" for kv
    by (auto simp: public_child_environment_def private_key_def split: val.splits if_splits)
  have f: "kv \<in> set (fold (\<lambda>(k, v). dict_put k v) xs d) \<Longrightarrow> kv \<in> set d \<or> kv \<in> set xs" for kv :: "ustr \<times> ustr" and xs d
    by (induction xs arbitrary: d) (auto dest: dict_put_entries)
  have i: "kv \<in> set (pyinstaller_items items) \<Longrightarrow> fst kv \<in> u ` set pyinstaller_env_keys \<and> (VStr (fst kv), VStr (snd kv)) \<in> set items"
    by (auto simp: pyinstaller_items_def split: val.splits if_splits)
  show ?thesis
    using assms p[of kv] f[of kv] i by (auto simp: private_child_environment_def private_key_def split: if_splits)
qed

definition clean_start :: "(ustr \<Rightarrow> ustr) \<Rightarrow> bool \<Rightarrow> (val \<times> val) list \<Rightarrow> ustr \<Rightarrow> call \<Rightarrow> bool" where
  "clean_start upper frozen items executable c \<longleftrightarrow>
     (\<exists>exe cmd env. snd c = exe # cmd # env_args env \<and> list_all (inherited upper frozen items executable) env)"

lemma keeps_field: "(\<And>s. B s \<Longrightarrow> P (g (fst s))) \<Longrightarrow> (\<And>x. P x \<Longrightarrow> keeps B (f x)) \<Longrightarrow> keeps B (bind (field g) f)"
  unfolding keeps_def by (auto simp: wp_bind wp_field)

definition spawning :: "(ustr \<Rightarrow> ustr) \<Rightarrow> bool \<Rightarrow> (val \<times> val) list \<Rightarrow> ustr \<Rightarrow> world \<Rightarrow> spawn \<times> world \<Rightarrow> bool" where
  "spawning upper frozen items executable w0 s \<longleftrightarrow> extends w0 (snd s) \<and> sp_environment (fst s) = private_child_environment upper frozen items
     \<and> list_all (clean_start upper frozen items executable) (called ''CreateProcess'' (recent w0 (snd s)))"

lemma spawning_ext: "fst c \<noteq> ''CreateProcess'' \<or> clean_start upper frozen items executable c \<Longrightarrow> keeps (spawning upper frozen items executable w0) (ext c)"
  by (auto simp: keeps_def spawning_def wp_ext split: sum.split)

lemma spawning_update [keeps_intros]:
  "(\<And>sp. sp_environment (f sp) = sp_environment sp) \<Longrightarrow> keeps (spawning upper frozen items executable w0) (update f)"
  by (auto simp: keeps_def spawning_def wp_update)

lemma spawn_keeps: "keeps (spawning upper frozen items executable w0) (windows_spawn_popen frozen winenv executable)"
proof -
  have c: "clean_start upper frozen items executable (''CreateProcess'', exe # cmd # env_args (if r \<and> \<not> frozen then dict_put (u ''__PYVENV_LAUNCHER__'') executable env else env))"
    if "env = private_child_environment upper frozen items" for exe cmd r env
    using that private_entries[of _ upper frozen items]
    by (auto simp: clean_start_def list_all_iff inherited_def dest!: dict_put_entries intro!: exI)
  have f: "(\<And>x. x = private_child_environment upper frozen items \<Longrightarrow> keeps (spawning upper frozen items executable w0) (g x)) \<Longrightarrow>
      keeps (spawning upper frozen items executable w0) (bind (field sp_environment) g)" for g :: "env \<Rightarrow> unit sprog"
    by (rule keeps_field) (auto simp: spawning_def)
  show ?thesis
    unfolding windows_spawn_popen_def spawn_process_def spawn_numbers_def undone_by_def close_handle_def suppress_OSError_def Let_def
    by (intro f keeps_intros; (rule spawning_ext; simp add: c)?; simp)
qed

text \<open>C35: whatever the parent's environment holds, a child that is started on Windows sees only variables of the parent with a name
  on the list of public ones (or of PyInstaller's, in a frozen build), and the launcher of a virtual environment.
\<close>

theorem child_environment_clean:
  "list_all (clean_start upper frozen items executable) (called ''CreateProcess'' (recent w (snd (snd
     (andthen (child_process False True True upper frozen items) (windows_spawn_popen frozen winenv executable) (sp, w))))))"
proof -
  have "wp (andthen (child_process False True True upper frozen items) (windows_spawn_popen frozen winenv executable))
      (\<lambda>_ t. list_all (clean_start upper frozen items executable) (called ''CreateProcess'' (recent w (snd t))))
      (\<lambda>_ t. list_all (clean_start upper frozen items executable) (called ''CreateProcess'' (recent w (snd t)))) (sp, w)"
    unfolding child_process_def is_genuine_windows_spawn_context_def
    by (auto simp: wp_bind wp_andthen wp_ext wp_update wp_ret split: sum.split
        intro!: wp_mono[OF keepsD[OF spawn_keeps]] simp: spawning_def)
  then show ?thesis by (auto simp: wp_def split: prod.splits sum.splits)
qed

end
