(* ===== verification/RefreshAttempt.thy ===== *)
theory RefreshAttempt
  imports Worker Guard Config ChildProcess
begin

text \<open>
  One refresh of the providers and the orchestration of refreshes (\<open>RefreshAttempt\<close> and \<open>ExecutionOrchestrator\<close> in
  \<open>src/yasb_limitora/worker.py\<close>): the guard is taken, the enabled providers are read, every resource is cleaned up, and only
  then the guard is given back.

  \<^item> A worker object and its record are one entry of \<open>ra_workers\<close>; \<open>ra_records\<close>, the list \<open>worker_records\<close> of the code, holds the
    indices of the workers whose records are in it. A record belongs to one worker, so the owner the code looks for is that one.
  \<^item> The executor of the Codex provider and its helper objects are references; the view an executor answers is \<open>ae_view\<close> of the
    answer. The guard is the model's own; its lease is a slots class, so the marks the code tries to leave on it are not there.
  \<^item> The workers are the model's own too: another \<open>opencode_factory\<close> is not modelled. \<open>_worker_history\<close>, which only tells the
    tests which workers there were, is left out.
\<close>

section \<open>The state\<close>

record execution =
  ex_document :: document
  ex_evidence :: "failure_evidence option"

record refresh =
  ra_workers :: "worker list"
  ra_records :: "nat list"
  ra_helpers :: "val list"
  ra_unfinalized :: "guard_lease list"
  ra_authority :: bool
  ra_last :: "execution option"

definition new_refresh :: refresh where
  "new_refresh = \<lparr>ra_workers = [], ra_records = [], ra_helpers = [], ra_unfinalized = [], ra_authority = False, ra_last = None\<rparr>"

record refresh_env =
  ae_worker :: worker_env
  ae_guard :: "guard_config option"
  ae_casefold :: "ustr \<Rightarrow> ustr"
  ae_fuel :: nat
  ae_path_api :: full_path_api
  ae_codex :: "val option"
  ae_view :: "val \<Rightarrow> view"

type_synonym 'a aprog = "(refresh, 'a) prog"

definition record_of :: "refresh \<Rightarrow> nat \<Rightarrow> worker_record option" where
  "record_of a i = wk_record (ra_workers a ! i)"

definition on_worker :: "nat \<Rightarrow> (worker, 'a) prog \<Rightarrow> 'a aprog" where
  "on_worker i m = within (\<lambda>a. ra_workers a ! i) (\<lambda>w a. a\<lparr>ra_workers := (ra_workers a)[i := w]\<rparr>) m"

text \<open>A method of a value that is not held by the object: its result and the value after it.\<close>

definition on_value :: "'v \<Rightarrow> ('v, 'a) prog \<Rightarrow> ('o, 'a \<times> 'v) prog" where
  "on_value x m = with_local x (bind (on_local m) (\<lambda>r. bind (field snd) (\<lambda>y. ret (r, y))))"

section \<open>Cleanup\<close>

text \<open>\<open>record not in self.worker_records\<close> compares records by their fields.\<close>

definition register_worker :: "nat \<Rightarrow> refresh \<Rightarrow> refresh" where
  "register_worker i a = (case record_of a i of
     None \<Rightarrow> a
   | Some r \<Rightarrow> if Some r \<in> record_of a ` set (ra_records a) then a else a\<lparr>ra_records := ra_records a @ [i]\<rparr>)"

definition register_all :: "unit aprog" where
  "register_all = update (\<lambda>a. foldl (\<lambda>a i. register_worker i a) a [0..<length (ra_workers a)])"

text \<open>One step on a record: what is not closed yet is closed, and the answer says whether it was.\<close>

definition record_step :: "nat \<Rightarrow> (worker_record \<Rightarrow> unit wprog option) \<Rightarrow> bool aprog" where
  "record_step i f = bind (field (\<lambda>a. record_of a i)) (\<lambda>r. case r of
     None \<Rightarrow> ret True
   | Some r \<Rightarrow> (case f r of None \<Rightarrow> ret True | Some m \<Rightarrow> tried (on_worker i m)))"

definition unfinished :: "worker_record \<Rightarrow> bool" where
  "unfinished r \<longleftrightarrow> \<not> wr_reaped r \<or> \<not> wr_process_closed r \<or> \<not> wr_queue_closed r \<or> \<not> wr_authorized_closed r"

definition clean_record :: "deadline \<Rightarrow> nat \<Rightarrow> bool aprog" where
  "clean_record c i =
     bind (record_step i (\<lambda>r. if \<not> wr_job_closed r \<and> wr_job r \<noteq> VNone then Some (close_worker_job c (wr_job r)) else None)) (\<lambda>job.
     bind (record_step i (\<lambda>r. if \<not> wr_queue_closed r \<and> wr_queue r \<noteq> VNone then Some (close_worker_queue (wr_queue r)) else None)) (\<lambda>queue.
     bind (record_step i (\<lambda>r. if \<not> wr_authorized_closed r \<and> wr_authorized r \<noteq> VNone then Some (close_worker_event (wr_authorized r)) else None)) (\<lambda>event.
     bind (record_step i (\<lambda>r. if \<not> wr_reaped r \<or> \<not> wr_process_closed r then Some (reap_process c (\<not> wr_reaped r) (wr_worker r)) else None)) (\<lambda>reaped.
     bind (field (\<lambda>a. record_of a i)) (\<lambda>r.
     ret (job \<and> queue \<and> event \<and> reaped \<and> (case r of None \<Rightarrow> True | Some r \<Rightarrow> \<not> unfinished r)))))))"

definition clean_helper :: "val \<Rightarrow> bool aprog" where
  "clean_helper h =
     bind (getattr_none ''_pending_supervisor'' [h]) (\<lambda>pending.
     if pending = VNone then ret True
     else
       bind (getattr_none ''_retry_cleanup_with_deadline'' [h]) (\<lambda>retry.
       if retry = VNone then ret False
       else catch (bind (ext (''retry_cleanup'', [h])) (\<lambda>r. ret (truthy r))) (\<lambda>_. ret False)))"

primrec all_of :: "('a \<Rightarrow> ('o, bool) prog) \<Rightarrow> 'a list \<Rightarrow> ('o, bool) prog" where
  "all_of f [] = ret True"
| "all_of f (x # xs) = bind (f x) (\<lambda>ok. bind (all_of f xs) (\<lambda>rest. ret (ok \<and> rest)))"

text \<open>\<open>all(...)\<close> of a generator, which stops at the first that fails.\<close>

primrec all_until :: "('a \<Rightarrow> ('o, bool) prog) \<Rightarrow> 'a list \<Rightarrow> ('o, bool) prog" where
  "all_until f [] = ret True"
| "all_until f (x # xs) = bind (f x) (\<lambda>ok. if ok then all_until f xs else ret False)"

definition supervisor_quiescent :: "val \<Rightarrow> ('o, bool) prog" where
  "supervisor_quiescent s =
     bind (attribute_of ''_state'' s) (\<lambda>state.
     bind (attribute_of ''_state'' s) (\<lambda>default.
     bind (if state = VNone then ret default else catch (ext (''value'', [state])) (\<lambda>_. ret default)) (\<lambda>v.
     if v \<noteq> VStr (u ''closed'') then ret False
     else all_until (\<lambda>n. bind (attribute_of n s) (\<lambda>x. ret (x = VNone))) [''_pending'', ''_prepared'', ''_helper'', ''_gate'', ''_data''])))"

definition helper_quiescent :: "val \<Rightarrow> ('o, bool) prog" where
  "helper_quiescent h =
     bind (attribute_of ''_pending_supervisor'' h) (\<lambda>pending.
     if pending \<noteq> VNone then ret False
     else
       bind (attribute_of ''_active'' h) (\<lambda>active.
       if truthy active then ret False
       else
         bind (attribute_of ''_retrying'' h) (\<lambda>retrying.
         if truthy retrying then ret False
         else
           bind (attribute_of ''_last_supervisor'' h) (\<lambda>last.
           if last \<noteq> VNone then bind (attribute_of ''_last_supervisor'' h) supervisor_quiescent else ret True))))"

definition records_complete :: "refresh \<Rightarrow> bool" where
  "records_complete a \<longleftrightarrow> list_all (\<lambda>i. case record_of a i of None \<Rightarrow> True | Some r \<Rightarrow> record_complete r) (ra_records a)"

definition cleanup_complete :: "bool aprog" where
  "cleanup_complete = bind (field id) (\<lambda>a.
     if ra_records a = [] \<and> ra_helpers a = [] then ret False
     else if \<not> records_complete a then ret False
     else all_until helper_quiescent (ra_helpers a))"

definition cleanup_resources :: "deadline \<Rightarrow> bool aprog" where
  "cleanup_resources c =
     andthen register_all
    (bind (field ra_records) (\<lambda>is.
     bind (all_of (clean_record c) is) (\<lambda>records.
     bind (field ra_helpers) (\<lambda>hs.
     bind (all_of clean_helper hs) (\<lambda>helpers.
     if (is \<noteq> [] \<or> hs \<noteq> []) \<and> records \<and> helpers then catch cleanup_complete (\<lambda>_. ret False)
     else ret (records \<and> helpers))))))"

section \<open>Leases\<close>

definition release_provider_lease :: "(guard_lease, bool) prog" where
  "release_provider_lease =
     bind (field id) (\<lambda>l.
     bind (if gl_owned l then catch lease_release (\<lambda>_. ret False) else ret True) (\<lambda>released.
     bind (if released \<and> \<not> gl_closed l then catch lease_close (\<lambda>_. ret False) else ret (gl_closed l)) (\<lambda>closed.
     ret (released \<and> closed))))"

primrec retry_leases :: "guard_lease list \<Rightarrow> ('o, guard_lease list) prog" where
  "retry_leases [] = ret []"
| "retry_leases (l # ls) =
     bind (on_value l release_provider_lease) (\<lambda>(ok, l'). bind (retry_leases ls) (\<lambda>rest. ret (if ok then rest else l' # rest)))"

definition retry_unfinalized_leases :: "bool aprog" where
  "retry_unfinalized_leases = bind (field ra_unfinalized) (\<lambda>ls. bind (retry_leases ls) (\<lambda>rest.
     andthen (update (\<lambda>a. a\<lparr>ra_unfinalized := rest\<rparr>)) (ret (rest = []))))"

section \<open>A refresh\<close>

type_synonym views = "provider_key \<Rightarrow> view"

definition document_of :: "views \<Rightarrow> error_code option \<Rightarrow> ('o, document) prog" where
  "document_of vs err = lift_result (ordered (vs Codex) (vs OpencodeGo) err)"

record refresh_vars =
  av_views :: views
  av_lease :: "guard_lease option"
  av_result :: "document option"
  av_opencode :: "read_result option"
  av_worker :: "nat option"

type_synonym 'a avprog = "(refresh \<times> refresh_vars, 'a) prog"

definition set_avars :: "(refresh_vars \<Rightarrow> refresh_vars) \<Rightarrow> unit avprog" where
  "set_avars f = update (\<lambda>(a, v). (a, f v))"

definition set_view :: "provider_key \<Rightarrow> view \<Rightarrow> unit avprog" where
  "set_view p x = set_avars (\<lambda>v. v\<lparr>av_views := (av_views v)(p := x)\<rparr>)"

text \<open>\<open>{key: view if key in provider_errors else _not_run(key, reason) ...}\<close>.\<close>

definition not_run_views :: "provider_key set \<Rightarrow> string \<Rightarrow> views \<Rightarrow> ('o, views) prog" where
  "not_run_views keep reason vs =
     bind (if Codex \<in> keep then ret (vs Codex) else not_run Codex reason) (\<lambda>x.
     bind (if OpencodeGo \<in> keep then ret (vs OpencodeGo) else not_run OpencodeGo reason) (\<lambda>y.
     ret (\<lambda>p. if p = Codex then x else y)))"

definition initial_views :: "provider_key set \<Rightarrow> ('o, views) prog" where
  "initial_views errors =
     bind (not_run Codex ''disabled'') (\<lambda>x.
     bind (not_run OpencodeGo ''disabled'') (\<lambda>y.
     bind (if Codex \<in> errors then worker_error Codex EConfiguration else ret x) (\<lambda>x.
     bind (if OpencodeGo \<in> errors then worker_error OpencodeGo EConfiguration else ret y) (\<lambda>y.
     ret (\<lambda>p. if p = Codex then x else y)))))"

definition codex_enabled :: "local_config \<Rightarrow> bool" where
  "codex_enabled g \<longleftrightarrow> cx_enabled (lc_codex g) \<and> cx_runner (lc_codex g) \<notin> {None, Some []}"

definition api_key_text :: "json \<Rightarrow> ustr" where
  "api_key_text key = (case key of JStr s \<Rightarrow> s | _ \<Rightarrow> [])"

definition enabled_providers :: "local_config \<Rightarrow> json \<Rightarrow> provider_key set \<Rightarrow> provider_key list" where
  "enabled_providers g key errors =
     (if Codex \<notin> errors \<and> codex_enabled g then [Codex] else [])
     @ (if OpencodeGo \<notin> errors \<and> oc_enabled (lc_opencode g) \<and> api_key_text key \<noteq> [] then [OpencodeGo] else [])"

definition take_guard :: "refresh_env \<Rightarrow> json \<Rightarrow> deadline \<Rightarrow> unit avprog" where
  "take_guard e path c = (case ae_guard e of
     None \<Rightarrow> ret ()
   | Some g \<Rightarrow>
       andthen (ext (''guard_factory'', []))
      (bind (acquire g (ae_casefold e) (ae_fuel e) (ae_path_api e) path c) (\<lambda>l.
       andthen (set_avars (\<lambda>v. v\<lparr>av_lease := Some l\<rparr>)) (on_object (update (\<lambda>a. a\<lparr>ra_authority := True\<rparr>))))))"

definition read_codex_provider :: "refresh_env \<Rightarrow> local_config \<Rightarrow> deadline \<Rightarrow> unit avprog" where
  "read_codex_provider e g c =
     bind (case ae_codex e of None \<Rightarrow> ext (''CodexHelperExecutor'', []) | Some x \<Rightarrow> ret x) (\<lambda>x.
     andthen (on_object (update (\<lambda>a. if x \<in> set (ra_helpers a) then a else a\<lparr>ra_helpers := ra_helpers a @ [x]\<rparr>)))
    (bind (getattr_none ''run_with_deadline'' [x]) (\<lambda>run.
     case cx_runner (lc_codex g) of
       None \<Rightarrow> bind (worker_error Codex EConfiguration) (set_view Codex)
     | Some r \<Rightarrow>
         if r = [] then bind (worker_error Codex EConfiguration) (set_view Codex)
         else bind (ext ((if run \<noteq> VNone then ''run_with_deadline'' else ''run''), [x, VStr r, VStr (u ''app-server'')]))
                (\<lambda>v. set_view Codex (ae_view e v)))))"

definition seconds_of :: "int \<Rightarrow> pyfloat" where
  "seconds_of n = float_of (n < 0) (nat \<bar>n\<bar>) 1000000000"

definition run_worker :: "refresh_env \<Rightarrow> deadline \<Rightarrow> nat \<Rightarrow> unit avprog" where
  "run_worker e c i =
     bind (on_object (on_worker i (run_with_deadline (ae_worker e) c))) (\<lambda>x.
     andthen (set_view OpencodeGo x)
    (andthen (update (\<lambda>(a, v). (register_worker i a, v\<lparr>av_opencode := wk_result (ra_workers a ! i)\<rparr>))) (ret ())))"

definition read_opencode_provider :: "refresh_env \<Rightarrow> local_config \<Rightarrow> json \<Rightarrow> deadline \<Rightarrow> unit avprog" where
  "read_opencode_provider e g key c =
     bind clock_ns (\<lambda>now.
     let remaining = remaining_ns c now; usable = max 0 (remaining - reserve_ns c) in
     if usable \<le> 0 then
       bind (not_run OpencodeGo ''deadline_exhausted'') (\<lambda>x. andthen (set_view OpencodeGo x)
      (bind (field (av_views \<circ> snd)) (\<lambda>vs. bind (document_of vs (Some EDeadline)) (\<lambda>d. set_avars (\<lambda>v. v\<lparr>av_result := Some d\<rparr>)))))
     else if api_key_text key = [] then bind (worker_error OpencodeGo EConfiguration) (set_view OpencodeGo)
     else
       bind (field (length \<circ> ra_workers \<circ> fst)) (\<lambda>i.
       andthen (update (\<lambda>(a, v). (a\<lparr>ra_workers := ra_workers a @ [\<lparr>wk_record = None, wk_result = None\<rparr>]\<rparr>, v\<lparr>av_worker := Some i\<rparr>)))
      (andthen (bind (lift_result (mk_opencode_request key
          (JFloat (float_min (oc_timeout (lc_opencode g)) (seconds_of usable))) (Some (JFloat (seconds_of remaining))))) (\<lambda>_. ret ()))
        (run_worker e c i))))"

definition execute :: "refresh_env \<Rightarrow> local_config \<Rightarrow> json \<Rightarrow> provider_key set \<Rightarrow> json \<Rightarrow> deadline \<Rightarrow> unit avprog" where
  "execute e g key errors path c =
     andthen (take_guard e path c)
    (bind clock_ns (\<lambda>now.
     andthen
       (if usable_ns c now \<le> 0 then
          bind (field (av_views \<circ> snd)) (\<lambda>vs. bind (not_run_views errors ''deadline_exhausted'' vs) (\<lambda>ws.
          bind (document_of ws (Some EDeadline)) (\<lambda>d. set_avars (\<lambda>v. v\<lparr>av_result := Some d\<rparr>))))
        else if Codex \<in> set (enabled_providers g key errors) then read_codex_provider e g c
        else ret ())
    (andthen
       (bind (field (av_result \<circ> snd)) (\<lambda>r.
        if r = None \<and> OpencodeGo \<in> set (enabled_providers g key errors) then read_opencode_provider e g key c else ret ()))
       (bind (field snd) (\<lambda>v.
        if av_result v = None then bind (document_of (av_views v) None) (\<lambda>d. set_avars (\<lambda>v. v\<lparr>av_result := Some d\<rparr>)) else ret ())))))"

text \<open>After the body: a failure of the guard is a document of its own, any other is raised once everything is cleaned up.\<close>

definition last_result_of :: "unit avprog" where
  "last_result_of = update (\<lambda>(a, v). (a, v\<lparr>av_opencode := (case av_worker v of None \<Rightarrow> None | Some i \<Rightarrow> wk_result (ra_workers a ! i))\<rparr>))"

definition handle_failure :: "provider_key set \<Rightarrow> py_exn + unit \<Rightarrow> py_exn option avprog" where
  "handle_failure errors r = (case r of
     Inr _ \<Rightarrow> ret None
   | Inl x \<Rightarrow>
       if is_GuardError x then
         bind (field (av_views \<circ> snd)) (\<lambda>vs.
         bind (not_run_views {} (if x = wait_timed_out then ''guard_wait_timeout'' else ''document_aborted'') vs) (\<lambda>ws.
         bind (document_of ws (Some (if x = wait_timed_out then EGuardWait else EGuardAcquisition))) (\<lambda>d.
         andthen (set_avars (\<lambda>v. v\<lparr>av_result := Some d\<rparr>)) (ret None))))
       else
         andthen last_result_of
        (bind (field (av_views \<circ> snd)) (\<lambda>vs.
         bind (not_run_views errors ''document_aborted'' vs) (\<lambda>ws.
         andthen (set_avars (\<lambda>v. v\<lparr>av_views := ws\<rparr>)) (ret (Some x))))))"

definition view_of :: "document \<Rightarrow> views \<Rightarrow> views" where
  "view_of d vs p = (case find (\<lambda>v. v_provider v = p) (rev (d_providers d)) of Some v \<Rightarrow> v | None \<Rightarrow> vs p)"

text \<open>The lease of the run, if there is one, is released; the answer says whether nothing is left of it.\<close>

definition give_back :: "bool avprog" where
  "give_back = bind (field (av_lease \<circ> snd)) (\<lambda>l. case l of
     None \<Rightarrow> ret True
   | Some l \<Rightarrow> bind (on_value l release_provider_lease) (\<lambda>(ok, l'). andthen (set_avars (\<lambda>v. v\<lparr>av_lease := Some l'\<rparr>)) (ret ok)))"

definition keep_lease :: "refresh_vars \<Rightarrow> refresh \<Rightarrow> refresh" where
  "keep_lease v a = (case av_lease v of
     None \<Rightarrow> a
   | Some l \<Rightarrow> if l \<in> set (ra_unfinalized a) then a else a\<lparr>ra_unfinalized := ra_unfinalized a @ [l]\<rparr>)"

text \<open>The \<open>finally\<close> block.\<close>

definition settle :: "deadline \<Rightarrow> unit avprog" where
  "settle c =
     bind (on_object (cleanup_resources c)) (\<lambda>safe.
     bind (if safe then give_back else field (\<lambda>(a, v). av_lease v = None)) (\<lambda>released.
     andthen (if released then ret () else update (\<lambda>(a, v). (keep_lease v a, v)))
     (if safe \<and> released then on_object (update (\<lambda>a. a\<lparr>ra_records := [], ra_helpers := []\<rparr>))
      else
        bind (field snd) (\<lambda>v.
        bind (document_of (case av_result v of None \<Rightarrow> av_views v | Some d \<Rightarrow> view_of d (av_views v)) (Some ECleanup)) (\<lambda>d.
        set_avars (\<lambda>v. v\<lparr>av_result := Some d\<rparr>))))))"

definition finish_run :: "py_exn option \<Rightarrow> document avprog" where
  "finish_run err = (case err of
     Some x \<Rightarrow> fail x
   | None \<Rightarrow>
       bind (field snd) (\<lambda>v.
       bind (case av_result v of Some d \<Rightarrow> ret d | None \<Rightarrow> document_of (av_views v) (Some EGuardAcquisition)) (\<lambda>d.
       andthen (on_object (update (\<lambda>a. a\<lparr>ra_last := Some \<lparr>ex_document = d,
           ex_evidence = (case av_opencode v of Some r \<Rightarrow> rr_evidence r | None \<Rightarrow> None)\<rparr>\<rparr>))) (ret d))))"

definition plain_document :: "views \<Rightarrow> error_code option \<Rightarrow> document aprog" where
  "plain_document vs err = bind (document_of vs err) (\<lambda>d.
     andthen (update (\<lambda>a. a\<lparr>ra_last := Some \<lparr>ex_document = d, ex_evidence = None\<rparr>\<rparr>)) (ret d))"

definition has_resources :: "refresh \<Rightarrow> bool" where
  "has_resources a \<longleftrightarrow> ra_records a \<noteq> [] \<or> ra_helpers a \<noteq> []"

definition provider_run ::
  "refresh_env \<Rightarrow> local_config \<Rightarrow> json \<Rightarrow> provider_key set \<Rightarrow> json \<Rightarrow> deadline \<Rightarrow> views \<Rightarrow> document aprog"
where
  "provider_run e g key errors path c vs =
     andthen (update (\<lambda>a. a\<lparr>ra_authority := (ae_guard e = None)\<rparr>))
    (with_local \<lparr>av_views = vs, av_lease = None, av_result = None, av_opencode = None, av_worker = None\<rparr>
      (bind (ensure (bind (outcome (execute e g key errors path c)) (handle_failure errors)) (settle c)) finish_run))"

definition refresh_run ::
  "refresh_env \<Rightarrow> local_config \<Rightarrow> json \<Rightarrow> provider_key set \<Rightarrow> json \<Rightarrow> deadline \<Rightarrow> document aprog"
where
  "refresh_run e g key errors path c =
     andthen (update (\<lambda>a. a\<lparr>ra_last := None\<rparr>))
    (bind (initial_views errors) (\<lambda>vs.
     bind (field has_resources) (\<lambda>has.
     bind (if has then cleanup_resources c else ret True) (\<lambda>clean.
     if \<not> clean then plain_document vs (Some ECleanup)
     else
       bind (field ra_unfinalized) (\<lambda>ls.
       bind (if ls \<noteq> [] then retry_unfinalized_leases else ret True) (\<lambda>finalized.
       if \<not> finalized then plain_document vs (Some ECleanup)
       else
         andthen (update (\<lambda>a. a\<lparr>ra_records := [], ra_helpers := []\<rparr>))
        (if enabled_providers g key errors = [] then plain_document vs None
         else provider_run e g key errors path c vs)))))))"

section \<open>The payload of a refresh\<close>

definition provider_enabled :: "local_config \<Rightarrow> provider_key \<Rightarrow> bool" where
  "provider_enabled g p \<longleftrightarrow> (case p of Codex \<Rightarrow> cx_enabled (lc_codex g) | OpencodeGo \<Rightarrow> oc_enabled (lc_opencode g))"

definition project_refresh :: "platform \<Rightarrow> document \<Rightarrow> provider_key list \<Rightarrow> failure_evidence option \<Rightarrow> py_exn + bytes" where
  "project_refresh px d enabled evidence = rbind (mk_input d (map (JStr \<circ> pk_value) enabled) evidence) (project_bytes px)"

definition refresh_evidence :: "execution option \<Rightarrow> failure_evidence option" where
  "refresh_evidence x = (case x of Some r \<Rightarrow> ex_evidence r | None \<Rightarrow> None)"

text \<open>\<open>RefreshAttempt.run_refresh_attempt\<close>: the document and its bytes, none when the projection fails.\<close>

definition refresh_payload ::
  "platform \<Rightarrow> refresh_env \<Rightarrow> local_config \<Rightarrow> json \<Rightarrow> json \<Rightarrow> deadline \<Rightarrow> (document \<times> bytes option) aprog"
where
  "refresh_payload px e g key path c =
     bind (refresh_run e g key {} path c) (\<lambda>d.
     bind (field ra_last) (\<lambda>x.
     ret (d, case project_refresh px d (filter (provider_enabled g) [Codex, OpencodeGo]) (refresh_evidence x) of
       Inr b \<Rightarrow> Some b | Inl _ \<Rightarrow> None)))"

section \<open>The orchestrator\<close>

record orchestrator =
  eo_attempt :: "refresh option"
  eo_last :: "execution option"

type_synonym 'a eprog = "(orchestrator, 'a) prog"

definition on_attempt :: "'a aprog \<Rightarrow> 'a eprog" where
  "on_attempt m = within (\<lambda>x. case eo_attempt x of Some a \<Rightarrow> a | None \<Rightarrow> new_refresh) (\<lambda>a x. x\<lparr>eo_attempt := Some a\<rparr>) m"

definition previous_cleaned :: "deadline \<Rightarrow> bool eprog" where
  "previous_cleaned c = bind (field eo_attempt) (\<lambda>prev.
     if prev = None then ret True
     else on_attempt (bind (cleanup_resources c) (\<lambda>ok. if ok then retry_unfinalized_leases else ret False)))"

definition orchestrator_run ::
  "refresh_env \<Rightarrow> local_config \<Rightarrow> json \<Rightarrow> provider_key set \<Rightarrow> json \<Rightarrow> deadline \<Rightarrow> document eprog"
where
  "orchestrator_run e g key errors path c =
     bind (previous_cleaned c) (\<lambda>cleaned.
     if \<not> cleaned then
       bind (initial_views errors) (\<lambda>vs. bind (document_of vs (Some ECleanup)) (\<lambda>d.
       andthen (update (\<lambda>x. x\<lparr>eo_last := Some \<lparr>ex_document = d, ex_evidence = None\<rparr>\<rparr>)) (ret d)))
     else
       andthen (update (\<lambda>x. x\<lparr>eo_attempt := Some new_refresh\<rparr>))
      (bind (on_attempt (refresh_run e g key errors path c)) (\<lambda>d.
       andthen (update (\<lambda>x. x\<lparr>eo_last := Option.bind (eo_attempt x) ra_last\<rparr>)) (ret d))))"

text \<open>A document is worth caching when it has no error, no provider failed, and one was read.\<close>

definition cacheable :: "document \<Rightarrow> bool" where
  "cacheable d \<longleftrightarrow> d_error d = None \<and> list_ex (\<lambda>v. v_outcome v \<in> {Some OSnapshot, Some OUndetected}) (d_providers d)
     \<and> list_all (\<lambda>v. v_outcome v \<noteq> Some OExecError) (d_providers d)"

definition orchestrator_payload ::
  "platform \<Rightarrow> refresh_env \<Rightarrow> local_config \<Rightarrow> json \<Rightarrow> provider_key list option \<Rightarrow> provider_key set \<Rightarrow> json \<Rightarrow> deadline \<Rightarrow> (document \<times> bytes option) eprog"
where
  "orchestrator_payload px e g key enabled errors path c =
     bind (orchestrator_run e g key errors path c) (\<lambda>d.
     bind (field eo_last) (\<lambda>x.
     let ps = (case enabled of Some ps \<Rightarrow> ps | None \<Rightarrow> filter (\<lambda>p. provider_enabled g p \<or> p \<in> errors) [Codex, OpencodeGo]) in
     if x \<noteq> None \<and> cacheable d
     then bind (lift_result (project_refresh px d ps (refresh_evidence x))) (\<lambda>b. ret (d, Some b))
     else ret (d, None)))"

end
