(* ===== verification/WorkerFacts.thy ===== *)
theory WorkerFacts
  imports Worker
begin

text \<open>
  The record of a worker tells the truth (\<open>Worker\<close>): a process it calls reaped was seen dead, one it calls closed was closed
  after that, and a Job it calls closed said so itself.
\<close>

definition attribute_missing :: "world \<Rightarrow> world \<Rightarrow> string \<Rightarrow> val \<Rightarrow> bool" where
  "attribute_missing w0 w n x \<longleftrightarrow> x = VNone \<or> (\<exists>r. ((n, [x]), r) \<in> set (recent w0 w) \<and> (r = Inr VNone \<or> isl r))"

definition seen_dead :: "world \<Rightarrow> world \<Rightarrow> val \<Rightarrow> bool" where
  "seen_dead w0 w p \<longleftrightarrow> since w0 w ''is_alive'' [p] (\<lambda>a. \<not> truthy a) \<or> attribute_missing w0 w ''is_alive_attribute'' p"

definition seen_closed :: "world \<Rightarrow> world \<Rightarrow> val \<Rightarrow> bool" where
  "seen_closed w0 w p \<longleftrightarrow> since w0 w ''process_close'' [p] (\<lambda>_. True) \<or> attribute_missing w0 w ''close_attribute'' p"

definition job_seen_closed :: "world \<Rightarrow> world \<Rightarrow> val \<Rightarrow> bool" where
  "job_seen_closed w0 w j \<longleftrightarrow> since w0 w ''state'' [j] (\<lambda>v. v = VStr (u ''closed'')) \<or> since w0 w ''closed'' [j] truthy"

definition record_true :: "world \<Rightarrow> world \<Rightarrow> worker_record \<Rightarrow> bool" where
  "record_true w0 w r \<longleftrightarrow>
     (wr_reaped r \<and> wr_started r \<longrightarrow> seen_dead w0 w (wr_worker r))
     \<and> (wr_process_closed r \<and> wr_started r \<longrightarrow> seen_dead w0 w (wr_worker r) \<and> seen_closed w0 w (wr_worker r))
     \<and> (wr_job_closed r \<longrightarrow> job_seen_closed w0 w (wr_job r))"

definition truthful :: "world \<Rightarrow> worker \<times> world \<Rightarrow> bool" where
  "truthful w0 s \<longleftrightarrow> extends w0 (snd s) \<and> (\<forall>r. wk_record (fst s) = Some r \<longrightarrow> record_true w0 (snd s) r)"

lemma missing_grows: "extends w0 w \<Longrightarrow> extends w w' \<Longrightarrow> attribute_missing w0 w n x \<Longrightarrow> attribute_missing w0 w' n x"
  using recent_trans[of w0 w w'] by (auto simp: attribute_missing_def)

lemma seen_grows:
  assumes "extends w0 w" "extends w w'"
  shows "seen_dead w0 w p \<Longrightarrow> seen_dead w0 w' p" "seen_closed w0 w p \<Longrightarrow> seen_closed w0 w' p" "job_seen_closed w0 w j \<Longrightarrow> job_seen_closed w0 w' j"
  using since_grows[OF _ assms] missing_grows[OF assms] by (auto simp: seen_dead_def seen_closed_def job_seen_closed_def)

lemma record_grows: "extends w0 w \<Longrightarrow> extends w w' \<Longrightarrow> record_true w0 w r \<Longrightarrow> record_true w0 w' r"
  using seen_grows[of w0 w w'] by (auto simp: record_true_def)

text \<open>The record with its process and its Job.\<close>

definition about :: "world \<Rightarrow> val \<Rightarrow> val \<Rightarrow> bool \<Rightarrow> worker \<times> world \<Rightarrow> bool" where
  "about w0 p j st s \<longleftrightarrow> truthful w0 s \<and> (\<forall>r. wk_record (fst s) = Some r \<longrightarrow> wr_worker r = p \<and> wr_job r = j \<and> wr_started r = st)"

lemma about_grows: "about w0 p j st (x, w) \<Longrightarrow> extends w w' \<Longrightarrow> about w0 p j st (x, w')"
  using record_grows[of w0 w w'] extends_trans[of w0 w w'] by (auto simp: about_def truthful_def)

lemma about_still:
  assumes "calls UNIV m" "still m"
  shows "keeps (about w0 p j st) m"
  by (rule keeps_still[OF assms]) (auto intro: about_grows)

lemma worker_calls [calls_intros]:
  "calls UNIV (attribute_of n x)" "calls UNIV (process_alive q)" "calls UNIV (join_cleanup c q)" "calls UNIV (close_any_job c q)" "calls UNIV (job_zero q)" "calls UNIV (job_is_closed q)"
  "calls UNIV (close_queue q)" "calls UNIV (stop_process c b q)"
  unfolding attribute_of_def process_alive_def join_cleanup_def close_any_job_def job_zero_def job_is_closed_def
    job_attribute_def close_queue_def stop_process_def
  by (intro calls_intros; simp)+

lemma worker_still [still_intros]:
  "still (attribute_of n x)" "still (process_alive p)"
  "still (join_cleanup c p)" "still (close_any_job c p)" "still (job_zero p)" "still (job_is_closed p)" "still (close_queue p)" "still (stop_process c b p)"
  unfolding attribute_of_def process_alive_def join_cleanup_def close_any_job_def job_zero_def job_is_closed_def
    job_attribute_def close_queue_def stop_process_def
  by (intro still_intros | assumption)+

lemma about_basics [keeps_intros]:
  "keeps (about w0 p j st) (ext x)" "keeps (about w0 p j st) (attribute_of n q)" "keeps (about w0 p j st) (tried (ext x))" "keeps (about w0 p j st) (close_any_job c q)"
  "keeps (about w0 p j st) (job_zero q)" "keeps (about w0 p j st) (close_queue q)" "keeps (about w0 p j st) (stop_process c b q)"
  by (rule about_still; intro calls_intros still_intros; simp)+

section \<open>The closers\<close>

definition later :: "world \<Rightarrow> 'o \<times> world \<Rightarrow> bool" where
  "later w0 s \<longleftrightarrow> extends w0 (snd s)"

lemma later_calls: "calls UNIV m \<Longrightarrow> keeps (later w0) m"
  unfolding keeps_def later_def using calls_wp[of UNIV m] extends_trans by (fast intro: wp_mono)

lemma process_alive_wp: "later w0 s \<Longrightarrow> wp (process_alive p) (\<lambda>alive t. later w0 t \<and> (\<not> alive \<longrightarrow> seen_dead w0 (snd t) p)) (\<lambda>_. later w0) s"
  by (auto simp: process_alive_def attribute_of_def getattr_none_def wp_simps later_def seen_dead_def attribute_missing_def split: sum.split)

lemma later_then:
  "keeps (later w0) m \<Longrightarrow> (\<And>x t. later w0 t \<Longrightarrow> wp (f x) Q (\<lambda>_. later w0) t) \<Longrightarrow> later w0 s \<Longrightarrow> wp (bind m f) Q (\<lambda>_. later w0) s"
  "keeps (later w0) m \<Longrightarrow> (\<And>t. later w0 t \<Longrightarrow> wp n Q (\<lambda>_. later w0) t) \<Longrightarrow> later w0 s \<Longrightarrow> wp (andthen m n) Q (\<lambda>_. later w0) s"
  unfolding wp_bind wp_andthen by (rule wp_mono[OF keepsD]; assumption?; blast?)+

lemma stop_process_wp: "later w0 s \<Longrightarrow> wp (stop_process c b p) (\<lambda>alive t. later w0 t \<and> (\<not> alive \<longrightarrow> seen_dead w0 (snd t) p)) (\<lambda>_. later w0) s"
  unfolding stop_process_def by (intro later_then later_calls calls_intros process_alive_wp; simp)

lemma attribute_missing_wp: "later w0 s \<Longrightarrow> wp (attribute_of n x) (\<lambda>v t. fst t = fst s \<and> later w0 t \<and> extends (snd s) (snd t)
    \<and> (v = VNone \<longrightarrow> attribute_missing w0 (snd t) n x)) (\<lambda>_ _. False) s"
  by (auto simp: attribute_of_def getattr_none_def wp_simps later_def attribute_missing_def split: sum.split)

lemma about_record:
  assumes "about w0 p j st (x, w)" "\<And>r. record_true w0 w r \<Longrightarrow> wr_worker r = p \<Longrightarrow> wr_job r = j \<Longrightarrow> wr_started r = st \<Longrightarrow>
      record_true w0 w (f r) \<and> wr_worker (f r) = p \<and> wr_job (f r) = j \<and> wr_started (f r) = st"
  shows "about w0 p j st (x\<lparr>wk_record := map_option f (wk_record x)\<rparr>, w)"
  using assms by (auto simp: about_def truthful_def)

lemma about_later: "about w0 p j st s \<Longrightarrow> later w0 s"
  by (simp add: about_def truthful_def later_def)

lemma close_job_true: "keeps (about w0 p j st) (close_worker_job c j)"
proof -
  have z: "keeps (about w0 p j st) (set_record (\<lambda>r. r\<lparr>wr_job_zero := b\<rparr>))" for b
    by (rule keepsI) (auto simp: set_record_def wp_update record_true_def intro!: about_record)
  have c: "wp (bind (job_is_closed j) (\<lambda>b. set_record (\<lambda>r. r\<lparr>wr_job_closed := b\<rparr>))) (\<lambda>_. about w0 p j st) (\<lambda>_. about w0 p j st) s" if a: "about w0 p j st s" for s
  proof -
    have k: "keeps (about w0 p j st) (job_is_closed j)" by (intro about_still calls_intros still_intros)
    have "wp (job_is_closed j) (\<lambda>b t. b \<longrightarrow> job_seen_closed w0 (snd t) j) (\<lambda>_ _. True) s"
      using about_later[OF a]
      by (auto simp: job_is_closed_def job_attribute_def wp_simps later_def job_seen_closed_def truthy_def split: sum.split)
    from wp_conj[OF keepsD[OF k a] this] show ?thesis
      unfolding wp_bind by (rule wp_mono) (auto simp: set_record_def wp_update record_true_def intro!: about_record)
  qed
  then have "keeps (about w0 p j st) (bind (job_is_closed j) (\<lambda>b. set_record (\<lambda>r. r\<lparr>wr_job_closed := b\<rparr>)))" by (rule keepsI)
  then show ?thesis
    unfolding close_worker_job_def by (rule keeps_andthen[OF about_basics(4) keeps_bind[OF about_basics(5) keeps_andthen[OF z]]])
qed

lemma reap_true: "keeps (about w0 p j st) (reap_process c b p)"
proof -
  let ?close = "bind (attribute_of ''close_attribute'' p) (\<lambda>f.
           if f = VNone then set_record (\<lambda>r. r\<lparr>wr_process_closed := True\<rparr>)
           else bind (tried (ext (''process_close'', [p]))) (\<lambda>closed. set_record (\<lambda>r. r\<lparr>wr_process_closed := closed\<rparr>)))"
  let ?gone = "\<lambda>s. \<forall>r. wk_record (fst s) = Some r \<longrightarrow> wr_started r \<longrightarrow> seen_dead w0 (snd s) p"
  have close: "wp ?close (\<lambda>_. about w0 p j st) (\<lambda>_. about w0 p j st) s" if a: "about w0 p j st s" "?gone s" for s
  proof -
    obtain x w where s: "s = (x, w)" by (metis prod.exhaust)
    have k: "about w0 p j st (x\<lparr>wk_record := map_option (\<lambda>r. r\<lparr>wr_process_closed := b\<rparr>) (wk_record x)\<rparr>, w')"
      if "extends w w'" "b \<longrightarrow> seen_closed w0 w' p" for b w'
    proof -
      have e: "about w0 p j st (x, w')" using about_grows a(1) s that(1) by blast
      have "extends w0 w" using about_later[OF a(1)] s by (simp add: later_def)
      then have "\<forall>r. wk_record x = Some r \<longrightarrow> wr_started r \<longrightarrow> seen_dead w0 w' p" using a(2) s that(1) seen_grows(1) by auto
      then show ?thesis using e that(2) by (cases "wk_record x") (auto simp: about_def truthful_def record_true_def)
    qed
    have e: "extends w0 w" using about_later[OF a(1)] s by (simp add: later_def)
    have "wp (attribute_of ''close_attribute'' p) (\<lambda>f. wp (if f = VNone then set_record (\<lambda>r. r\<lparr>wr_process_closed := True\<rparr>)
           else bind (tried (ext (''process_close'', [p]))) (\<lambda>closed. set_record (\<lambda>r. r\<lparr>wr_process_closed := closed\<rparr>))) (\<lambda>_. about w0 p j st) (\<lambda>_. about w0 p j st))
        (\<lambda>_. about w0 p j st) s"
      by (rule wp_mono[OF attribute_missing_wp[OF about_later[OF a(1)]]])
        (use k s in \<open>auto simp: set_record_def wp_update wp_bind tried_def andthen_def wp_catch wp_ext wp_ret seen_closed_def later_def split: sum.split\<close>)
    then show ?thesis unfolding wp_bind[of "attribute_of _ _"] .
  qed
  have st: "wp (bind (stop_process c b p) (\<lambda>alive. bind (attribute_of ''exitcode'' p) (\<lambda>code.
         andthen (set_record (\<lambda>r. r\<lparr>wr_exit_code := code, wr_reaped := \<not> alive\<rparr>)) (ret (\<not> alive)))))
      (\<lambda>reaped t. about w0 p j st t \<and> (reaped \<longrightarrow> ?gone t)) (\<lambda>_. about w0 p j st) s" if a: "about w0 p j st s" for s
  proof -
    have 2: "wp (bind (attribute_of ''exitcode'' p) (\<lambda>code. andthen (set_record (\<lambda>r. r\<lparr>wr_exit_code := code, wr_reaped := \<not> alive\<rparr>)) (ret (\<not> alive))))
        (\<lambda>reaped t. about w0 p j st t \<and> (reaped \<longrightarrow> ?gone t)) (\<lambda>_. about w0 p j st) t"
      if t: "about w0 p j st t" "\<not> alive \<longrightarrow> seen_dead w0 (snd t) p" for alive t
      unfolding wp_bind
    proof (rule wp_mono[OF attribute_missing_wp[OF about_later[OF t(1)]]], goal_cases)
      case (1 code t')
      then have "about w0 p j st (fst t, snd t')" "\<not> alive \<longrightarrow> seen_dead w0 (snd t') p"
        using t about_grows[of w0 p j st "fst t" "snd t"] seen_grows(1)[of w0 "snd t" "snd t'"] about_later[OF t(1)] by (auto simp: later_def)
      then show ?case using 1 by (auto simp: set_record_def wp_simps about_def truthful_def record_true_def)
    qed simp
    have k: "keeps (about w0 p j st) (stop_process c b p)" by (intro keeps_intros)
    show ?thesis
      unfolding wp_bind[of "stop_process _ _ _"]
      by (rule wp_mono[OF wp_conj[OF keepsD[OF k a] stop_process_wp[OF about_later[OF a]]]]) (auto intro: 2)
  qed
  show ?thesis
  proof (rule keepsI)
    fix s assume a: "about w0 p j st s"
    show "wp (reap_process c b p) (\<lambda>_. about w0 p j st) (\<lambda>_. about w0 p j st) s"
    proof (cases "wk_record (fst s)")
      case None
      then show ?thesis using a by (simp add: reap_process_def wp_simps)
    next
      case r: (Some r)
    have n: "wp (andthen (set_record (\<lambda>r. r\<lparr>wr_reaped := True\<rparr>)) (ret True)) (\<lambda>reaped t. about w0 p j st t \<and> (reaped \<longrightarrow> ?gone t)) (\<lambda>_. about w0 p j st) s"
      if "\<not> wr_started r"
      using a that r by (auto simp: set_record_def wp_simps about_def truthful_def record_true_def)
    have "wp (if wr_started r then bind (stop_process c b p) (\<lambda>alive. bind (attribute_of ''exitcode'' p) (\<lambda>code.
         andthen (set_record (\<lambda>r. r\<lparr>wr_exit_code := code, wr_reaped := \<not> alive\<rparr>)) (ret (\<not> alive))))
         else andthen (set_record (\<lambda>r. r\<lparr>wr_reaped := True\<rparr>)) (ret True))
      (\<lambda>reaped t. about w0 p j st t \<and> (reaped \<longrightarrow> ?gone t)) (\<lambda>_. about w0 p j st) s"
      using st[OF a] n by simp
    then show ?thesis
      unfolding reap_process_def wp_bind[of "field _"] wp_field r option.case wp_bind[of "if _ then _ else _"]
      by (elim wp_mono) (use close in \<open>auto simp: wp_ret\<close>)
    qed
  qed
qed

lemma ends_true: "keeps (about w0 p j st) (close_worker_queue q)" "keeps (about w0 p j st) (close_worker_event v)"
proof -
  have "keeps (about w0 p j st) (set_record (\<lambda>r. r\<lparr>wr_queue_closed := a, wr_queue := b\<rparr>))" "keeps (about w0 p j st) (set_record (\<lambda>r. r\<lparr>wr_authorized_closed := a, wr_authorized := b\<rparr>))" for a b
    by (rule keepsI; auto simp: set_record_def wp_update record_true_def intro!: about_record)+
  note q = this
  show "keeps (about w0 p j st) (close_worker_queue q)" "keeps (about w0 p j st) (close_worker_event v)"
    unfolding close_worker_queue_def close_worker_event_def by (intro keeps_intros q)+
qed

section \<open>A read\<close>

text \<open>Between the steps of a read the record belongs to the process in the locals; without a process it was not started.\<close>

definition reading :: "world \<Rightarrow> (worker \<times> worker_vars) \<times> world \<Rightarrow> bool" where
  "reading w0 s \<longleftrightarrow> truthful w0 (fst (fst s), snd s) \<and> (case wk_record (fst (fst s)) of
       None \<Rightarrow> True
     | Some r \<Rightarrow> (case wv_process (snd (fst s)) of None \<Rightarrow> \<not> wr_started r | Some p \<Rightarrow> wr_worker r = p))"

text \<open>The same with a process and a Job that are known.\<close>

definition handling :: "world \<Rightarrow> val \<Rightarrow> val \<Rightarrow> (worker \<times> worker_vars) \<times> world \<Rightarrow> bool" where
  "handling w0 p j s \<longleftrightarrow> about w0 p j True (fst (fst s), snd s) \<and> wv_process (snd (fst s)) = Some p"

lemma handling_reading: "handling w0 p j s \<Longrightarrow> reading w0 s"
  by (auto simp: handling_def reading_def about_def split: option.split)

lemma handling_object: "keeps (about w0 p j True) m \<Longrightarrow> keeps (handling w0 p j) (on_object m)"
proof (rule keepsI)
  fix s assume m: "keeps (about w0 p j True) m" and h: "handling w0 p j s"
  then have a: "about w0 p j True (fst (fst s), snd s)" by (simp add: handling_def)
  show "wp (on_object m) (\<lambda>_. handling w0 p j) (\<lambda>_. handling w0 p j) s"
    unfolding wp_within by (rule wp_mono[OF keepsD[OF m a]]) (use h in \<open>auto simp: handling_def\<close>)
qed

lemma handling_basics [keeps_intros]:
  "keeps (handling w0 p j) (ext x)" "keeps (handling w0 p j) clock_ns" "keeps (handling w0 p j) (usable_seconds c)" "keeps (handling w0 p j) (worker_error k q)"
  "keeps (handling w0 p j) (on_object (set_result v f))"
proof -
  have b: "keeps (handling w0 p j) m" if "calls UNIV m" "still m" for m :: "'x vprog"
    by (rule keeps_still[OF that]) (auto simp: handling_def intro: about_grows)
  show "keeps (handling w0 p j) (ext x)" "keeps (handling w0 p j) clock_ns" "keeps (handling w0 p j) (usable_seconds c)" "keeps (handling w0 p j) (worker_error k q)"
    unfolding usable_seconds_def worker_error_def by (rule b; intro calls_intros still_intros; simp)+
  show "keeps (handling w0 p j) (on_object (set_result v f))"
    by (rule handling_object) (auto simp: keeps_def set_result_def wp_update about_def truthful_def)
qed

lemma overdue_true: "keeps (handling w0 p j) worker_timeout" "keeps (handling w0 p j) (worker_overdue c p j)"
  unfolding worker_overdue_def worker_timeout_def by (intro keeps_intros handling_object close_job_true reap_true)+

lemma answer_true:
  assumes "handling w0 p j s" "seen_dead w0 (snd s) p"
  shows "wp (worker_answer e c q p j) (\<lambda>_. handling w0 p j) (\<lambda>_. handling w0 p j) s"
proof -
  have res: "keeps (handling w0 p j) (on_object (update (\<lambda>w. w\<lparr>wk_result := x\<rparr>)))" for x
    by (rule handling_object) (auto simp: keeps_def wp_update about_def truthful_def)
  have rest: "keeps (handling w0 p j) (bind (ext (''get_nowait'', [q])) (\<lambda>x.
     andthen (on_object (update (\<lambda>w. w\<lparr>wk_result := (case we_received e x of GotResult r \<Rightarrow> Some r | _ \<Rightarrow> None)\<rparr>)))
    (andthen (on_object (close_worker_job c j))
    (andthen (on_object (reap_process c False p))
    (case we_received e x of GotResult r \<Rightarrow> ret (rr_view r) | GotView v \<Rightarrow> ret v | GotOther \<Rightarrow> worker_error OpencodeGo EProvider)))))"
    by (intro keeps_intros res handling_object close_job_true reap_true) (auto split: received.split intro: keeps_intros)
  obtain wk v w where s: "s = ((wk, v), w)" by (metis prod.exhaust)
  have e: "extends w0 w" using assms(1) s by (simp add: handling_def about_def truthful_def)
  let ?w = "logged (''exitcode'', [p]) w"
  have a: "about w0 p j True (wk, ?w)" using about_grows[of w0 p j True wk w] assms(1) s by (simp add: handling_def)
  have d: "seen_dead w0 ?w p" using assms(2) s seen_grows(1)[OF e extends_logged] by simp
  have "about w0 p j True (wk\<lparr>wk_record := map_option (\<lambda>r. r\<lparr>wr_exit_code := code, wr_reaped := True\<rparr>) (wk_record wk)\<rparr>, ?w)" for code
    by (rule about_record[OF a]) (use d in \<open>auto simp: record_true_def\<close>)
  then show ?thesis
    unfolding worker_answer_def wp_bind[of "ext (''exitcode'', [p])"] wp_ext wp_andthen[of "on_object (set_record _)"] wp_within
    using a assms(1) s by (auto simp: set_record_def wp_update handling_def intro!: keepsD[OF rest] split: sum.split)
qed

lemma start_true: "extends w0 w \<Longrightarrow> wp worker_start (\<lambda>(q, ev, p) t. handling w0 p VNone t \<and> (\<forall>r. wk_record (fst (fst t)) = Some r \<longrightarrow> \<not> wr_job_closed r)) (\<lambda>_. reading w0)
    ((\<lparr>wk_record = None, wk_result = x\<rparr>, \<lparr>wv_queue = None, wv_authorized = None, wv_process = None\<rparr>), w)"
  by (simp add: worker_start_def set_worker_vars_def set_record_def new_record_def wp_simps wp_within reading_def handling_def about_def truthful_def record_true_def
      split: sum.split)

lemma contain_true:
  assumes "handling w0 p VNone s" "\<forall>r. wk_record (fst (fst s)) = Some r \<longrightarrow> \<not> wr_job_closed r"
  shows "wp (worker_contain p) (\<lambda>j. handling w0 p j) (\<lambda>_. reading w0) s"
proof -
  obtain wk v w where s: "s = ((wk, v), w)" by (metis prod.exhaust)
  let ?w = "logged (''job_new'', []) w"
  have a: "about w0 p VNone True (wk, ?w)" using about_grows[of w0 p VNone True wk w] assms(1) s by (simp add: handling_def)
  have h: "handling w0 p j ((wk\<lparr>wk_record := map_option (\<lambda>r. r\<lparr>wr_job := j\<rparr>) (wk_record wk)\<rparr>, v), ?w)" for j
    using a assms s by (cases "wk_record wk") (auto simp: handling_def about_def truthful_def record_true_def)
  have k: "wp (bind (ext (''pid'', [p])) (\<lambda>pid. if \<not> is_int pid then fail (TypeError ''worker process has no pid'')
     else andthen (ext (''job_assign'', [j, pid, VBool True])) (ret j))) (\<lambda>i. handling w0 p i) (\<lambda>_. reading w0) t" if "handling w0 p j t" for j t
  proof -
    have "keeps (handling w0 p j) (bind (ext (''pid'', [p])) (\<lambda>pid. if \<not> is_int pid then fail (TypeError ''worker process has no pid'')
     else andthen (ext (''job_assign'', [j, pid, VBool True])) (ret j)))" by (intro keeps_intros)
    from keepsD[OF this that] have "wp (bind (ext (''pid'', [p])) (\<lambda>pid. if \<not> is_int pid then fail (TypeError ''worker process has no pid'')
     else andthen (ext (''job_assign'', [j, pid, VBool True])) (ret j))) (\<lambda>i t. handling w0 p j t \<and> True) (\<lambda>_. handling w0 p j) t" by simp
    then show ?thesis by (auto simp: wp_simps handling_reading split: sum.splits if_splits)
  qed
  show ?thesis
    unfolding worker_contain_def wp_bind[of "ext (''job_new'', [])"] wp_ext wp_andthen[of "on_object (set_record _)"] wp_within
    using h k a assms(1) s handling_reading[of w0 p VNone "((wk, v), ?w)"]
    by (auto simp: set_record_def wp_update handling_def split: sum.split)
qed

lemma attempt_true: "extends w0 w \<Longrightarrow> wp (worker_attempt e c) (\<lambda>_. reading w0) (\<lambda>_. reading w0)
    ((\<lparr>wk_record = None, wk_result = x\<rparr>, \<lparr>wv_queue = None, wv_authorized = None, wv_process = None\<rparr>), w)"
proof -
  assume e: "extends w0 w"
  have k: "wp m (\<lambda>_. reading w0) (\<lambda>_. reading w0) t" if "keeps (handling w0 p j) m" "handling w0 p j t" for m :: "view vprog" and p j t
    by (rule wp_mono[OF keepsD[OF that]]) (auto intro: handling_reading)
  have j: "wp (bind (join_child p) (\<lambda>alive. if alive then worker_overdue c p j else worker_answer e c q p j)) (\<lambda>_. reading w0) (\<lambda>_. reading w0) t"
    if h: "handling w0 p j t" for p j q t
  proof -
    have c: "keeps (handling w0 p j) (join_child p)" unfolding join_child_def by (intro keeps_intros)
    have "extends w0 (snd t)" using h by (simp add: handling_def about_def truthful_def)
    then have "wp (join_child p) (\<lambda>alive t. \<not> alive \<longrightarrow> seen_dead w0 (snd t) p) (\<lambda>_ _. True) t"
      by (auto simp: join_child_def wp_simps seen_dead_def split: sum.split)
    from wp_conj[OF keepsD[OF c h] this] show ?thesis
      unfolding wp_bind by (rule wp_mono) (auto intro: k[OF overdue_true(2)] wp_mono[OF answer_true] handling_reading)
  qed
  have r: "wp (bind clock_ns (\<lambda>now. if usable_ns c now \<le> 0 then worker_timeout else andthen (ext (''set'', [ev])) (bind (usable_seconds c) (\<lambda>t.
       andthen (ext (''join'', [p, t])) (bind (join_child p) (\<lambda>alive. if alive then worker_overdue c p j else worker_answer e c q p j))))))
      (\<lambda>_. reading w0) (\<lambda>_. reading w0) t" if h: "handling w0 p j t" for ev p j q t
  proof -
    have s: "wp (bind m f) (\<lambda>_. reading w0) (\<lambda>_. reading w0) t"
      if "keeps (handling w0 p j) m" "\<And>x t. handling w0 p j t \<Longrightarrow> wp (f x) (\<lambda>_. reading w0) (\<lambda>_. reading w0) t" "handling w0 p j t"
      for m :: "'x vprog" and f :: "'x \<Rightarrow> view vprog" and t
      unfolding wp_bind by (rule wp_mono[OF keepsD[OF that(1,3)]]) (auto intro: that(2) handling_reading)
    show ?thesis
      by (rule s[OF handling_basics(2) _ h]) (auto simp: andthen_def intro!: s[OF handling_basics(1)] s[OF handling_basics(3)] k[OF overdue_true(1)] j)
  qed
  show ?thesis
    unfolding worker_attempt_def wp_bind[of worker_start]
    by (rule wp_mono[OF start_true[OF e]]) (auto simp: wp_bind[of "worker_contain _"] intro!: wp_mono[OF contain_true] r)
qed

lemma reading_object:
  assumes "\<And>p j st. keeps (about w0 p j st) m"
  shows "keeps (reading w0) (on_object m)"
proof (rule keepsI)
  fix s assume r: "reading w0 s"
  obtain wk v w where s: "s = ((wk, v), w)" by (metis prod.exhaust)
  obtain x y w' where e: "m (wk, w) = (x, (y, w'))" by (metis prod.exhaust)
  have k: "about w0 p j st (y, w')" if "about w0 p j st (wk, w)" for p j st
    using keepsD[OF assms that] e by (simp add: wp_def split: sum.splits)
  have "reading w0 ((y, v), w')"
  proof (cases "wk_record wk")
    case None
    then have a: "about w0 p j st (wk, w)" for p j st using r s by (simp add: reading_def about_def)
    have "wk_record y = None"
    proof (rule ccontr)
      assume "wk_record y \<noteq> None"
      then obtain z where "wk_record y = Some z" by blast
      then show False using k[OF a, of "VInt 0" VNone True] k[OF a, of "VInt 1" VNone True] by (auto simp: about_def)
    qed
    then show ?thesis using k[OF a, of VNone VNone True] by (simp add: reading_def about_def)
  next
    case (Some z)
    then have a: "about w0 (wr_worker z) (wr_job z) (wr_started z) (wk, w)" using r s by (simp add: reading_def about_def)
    have y: "about w0 (wr_worker z) (wr_job z) (wr_started z) (y, w')" by (rule k[OF a])
    show ?thesis
    proof (cases "wk_record y")
      case (Some x')
      then show ?thesis using y r s \<open>wk_record wk = Some z\<close> by (cases "wv_process v") (simp_all add: reading_def about_def)
    qed (use y in \<open>simp add: reading_def about_def\<close>)
  qed
  then show "wp (on_object m) (\<lambda>_. reading w0) (\<lambda>_. reading w0) s"
    using s e by (simp add: wp_def within_def split: sum.split)
qed

lemma reading_rest [keeps_intros]:
  "keeps (reading w0) (worker_error k q)" "keeps (reading w0) (on_object (set_result v f))"
  "keeps (reading w0) (on_object (close_worker_queue q'))" "keeps (reading w0) (on_object (close_worker_event x))"
  "keeps (reading w0) (on_object (set_record (\<lambda>r. r\<lparr>wr_queue_closed := b\<rparr>)))" "keeps (reading w0) (on_object (set_record (\<lambda>r. r\<lparr>wr_authorized_closed := b\<rparr>)))"
proof -
  show "keeps (reading w0) (worker_error k q)" by (auto simp: keeps_def worker_error_def wp_simps split: sum.split)
  show "keeps (reading w0) (on_object (set_result v f))"
    by (auto simp: keeps_def set_result_def wp_within wp_update reading_def truthful_def split: option.splits)
  show "keeps (reading w0) (on_object (close_worker_queue q'))" "keeps (reading w0) (on_object (close_worker_event x))"
    by (rule reading_object[OF ends_true(1)] reading_object[OF ends_true(2)])+
  have f: "keeps (about w0 p j st) (set_record (\<lambda>r. r\<lparr>wr_queue_closed := b\<rparr>))" "keeps (about w0 p j st) (set_record (\<lambda>r. r\<lparr>wr_authorized_closed := b\<rparr>))" for p j st
    by (rule keepsI; auto simp: set_record_def wp_update record_true_def intro!: about_record)+
  show "keeps (reading w0) (on_object (set_record (\<lambda>r. r\<lparr>wr_queue_closed := b\<rparr>)))" "keeps (reading w0) (on_object (set_record (\<lambda>r. r\<lparr>wr_authorized_closed := b\<rparr>)))"
    by (rule reading_object[OF f(1)] reading_object[OF f(2)])+
qed

lemma reading_tried [keeps_intros]: "keeps (reading w0) m \<Longrightarrow> keeps (reading w0) (tried m)"
  unfolding tried_def by (intro keeps_intros)

text \<open>A closer of what the record names.\<close>

lemma reading_about:
  assumes r: "reading w0 s" and z: "wk_record (fst (fst s)) = Some z" and m: "\<And>st. keeps (about w0 (wr_worker z) (wr_job z) st) m"
  shows "wp (on_object m) (\<lambda>_. reading w0) (\<lambda>_. reading w0) s"
proof -
  have a: "about w0 (wr_worker z) (wr_job z) (wr_started z) (fst (fst s), snd s)" using r z by (simp add: reading_def about_def)
  have "reading w0 ((fst t, snd (fst s)), snd t)" if "about w0 (wr_worker z) (wr_job z) (wr_started z) t" for t
    using that r z by (cases "wk_record (fst t)"; cases "wv_process (snd (fst s))") (simp_all add: reading_def about_def)
  then show ?thesis unfolding wp_within by (intro wp_mono[OF keepsD[OF m a]]) auto
qed

lemma recover_true: "keeps (reading w0) (worker_recover c)"
proof -
  have j: "keeps (reading w0) (bind (field (wk_record \<circ> fst)) (\<lambda>r. case r of
         None \<Rightarrow> ret () | Some r \<Rightarrow> if wr_job r = VNone then ret () else on_object (close_worker_job c (wr_job r))))"
    by (rule keepsI) (auto simp: wp_bind wp_field wp_ret intro!: reading_about close_job_true split: option.split)
  have p: "keeps (reading w0) (bind (field (wv_process \<circ> snd)) (\<lambda>p. case p of None \<Rightarrow> ret () | Some p \<Rightarrow> on_object (reap_process c True p)))"
  proof (rule keepsI)
    fix s assume r: "reading w0 s"
    show "wp (bind (field (wv_process \<circ> snd)) (\<lambda>p. case p of None \<Rightarrow> ret () | Some p \<Rightarrow> on_object (reap_process c True p))) (\<lambda>_. reading w0) (\<lambda>_. reading w0) s"
    proof (cases "wk_record (fst (fst s))")
      case None
      have "reap_process c True q (fst (fst s), x) = (Inr (), (fst (fst s), x))" for q x
        using None by (simp add: reap_process_def bind_def field_def ret_def)
      then show ?thesis using r by (auto simp: wp_bind wp_field wp_ret wp_def[of "on_object _"] within_def split: option.split)
    next
      case (Some z)
      have "wp (on_object (reap_process c True q)) (\<lambda>_. reading w0) (\<lambda>_. reading w0) s" if "wv_process (snd (fst s)) = Some q" for q
        using r Some that by (intro reading_about[OF r Some]) (auto simp: reading_def intro: reap_true)
      then show ?thesis using r by (auto simp: wp_bind wp_field wp_ret split: option.split)
    qed
  qed
  have e: "keeps (reading w0) (bind (worker_error OpencodeGo EProvider) (\<lambda>v. andthen (on_object (set_result v EvUnavailable)) (ret v)))"
    by (intro keeps_intros)
  have s: "bind (field f) (\<lambda>p. andthen (g p) n) = andthen (bind (field f) g) n" for f :: "worker \<times> worker_vars \<Rightarrow> val option" and g :: "_ \<Rightarrow> unit vprog" and n :: "view vprog"
    by (rule ext) (simp add: bind_def andthen_def field_def)
  show ?thesis unfolding worker_recover_def s by (intro keeps_andthen reading_tried j p e)
qed

lemma last_reap_true: "keeps (reading w0) (last_reap c)"
proof (rule keepsI)
  fix s assume r: "reading w0 s"
  obtain wk v w where s: "s = ((wk, v), w)" by (metis prod.exhaust)
  show "wp (last_reap c) (\<lambda>_. reading w0) (\<lambda>_. reading w0) s"
  proof (cases "wk_record wk")
    case None
    then show ?thesis using r s by (simp add: last_reap_def wp_simps)
  next
    case (Some z)
    show ?thesis
    proof (cases "wv_process v")
      case p: None
      have "reading w0 ((wk\<lparr>wk_record := Some (z\<lparr>wr_reaped := True, wr_process_closed := True\<rparr>)\<rparr>, v), w)"
        using r s Some p by (auto simp: reading_def truthful_def record_true_def)
      then show ?thesis using Some p s by (simp add: last_reap_def wp_bind wp_field set_record_def wp_within wp_update)
    next
      case p: (Some q)
      have "wp (on_object (reap_process c False q)) (\<lambda>_. reading w0) (\<lambda>_. reading w0) s"
        using r s Some p by (intro reading_about[OF r, of z]) (auto simp: reading_def intro: reap_true)
      then show ?thesis using Some p s r by (simp add: last_reap_def wp_bind wp_field wp_ret)
    qed
  qed
qed

lemma last_steps_true: "keeps (reading w0) last_event_absent" "keeps (reading w0) last_queue" "keeps (reading w0) last_event"
  unfolding last_event_absent_def last_queue_def last_event_def by (intro keeps_intros)+

lemma run_true:
  assumes "extends w w0"
  shows "wp (run_with_deadline e c) (\<lambda>_. truthful w) (\<lambda>_. truthful w) (\<lparr>wk_record = None, wk_result = x\<rparr>, w0)"
proof -
  let ?v = "\<lparr>wv_queue = None, wv_authorized = None, wv_process = None\<rparr>"
  have k: "keeps (reading w) (andthen (last_reap c) (andthen last_event_absent (andthen last_queue last_event)))"
    by (intro keeps_intros last_reap_true last_steps_true)
  have t: "truthful w (\<lparr>wk_record = None, wk_result = y\<rparr>, w')" if "extends w w'" for y w'
    using that by (simp add: truthful_def)
  have b: "wp (catch (worker_attempt e c) (\<lambda>_. worker_recover c)) (\<lambda>_. reading w) (\<lambda>_. reading w) ((\<lparr>wk_record = None, wk_result = y\<rparr>, ?v), w')"
    if "extends w w'" for y w'
    unfolding wp_catch by (rule wp_mono[OF attempt_true[OF that]]) (auto intro: keepsD[OF recover_true])
  have "wp (ensure (catch (worker_attempt e c) (\<lambda>_. worker_recover c)) (andthen (last_reap c) (andthen last_event_absent (andthen last_queue last_event))))
      (\<lambda>_. reading w) (\<lambda>_. reading w) ((\<lparr>wk_record = None, wk_result = y\<rparr>, ?v), w')" if "extends w w'" for y w'
    unfolding wp_ensure by (rule wp_mono[OF b[OF that]]) (auto intro: keepsD[OF k])
  note body = this
  have r: "wp (with_local ?v (ensure (catch (worker_attempt e c) (\<lambda>_. worker_recover c)) (andthen (last_reap c) (andthen last_event_absent (andthen last_queue last_event)))))
      (\<lambda>_. truthful w) (\<lambda>_. truthful w) (\<lparr>wk_record = None, wk_result = y\<rparr>, w')" if "extends w w'" for y w'
    unfolding wp_with_local fst_conv snd_conv by (rule wp_mono[OF body[OF that]]) (simp_all add: reading_def)
  have n: "keeps (truthful w) (not_run q y)" "keeps (truthful w) (worker_error q y')" "keeps (truthful w) (set_result v f)" for q y y' v f
    by (auto simp: keeps_def not_run_def worker_error_def set_result_def truthful_def wp_simps split: sum.split)
  have m: "keeps (truthful w) (bind (worker_error OpencodeGo EProvider) (\<lambda>v. andthen (set_result v EvUnavailable) (ret v)))"
    by (intro keeps_intros n)
  show ?thesis
    unfolding run_with_deadline_def wp_andthen[of "update _"] wp_update wp_bind[of clock_ns] clock_ns_wp
    using assms by (auto simp: t r intro: keepsD[OF n(1)] keepsD[OF m] split: sum.split)
qed

text \<open>C37: after a read in a worker process, however it ended, a process the record calls reaped or closed was seen dead if it was
  started, one it calls closed was closed, and a Job it calls closed reported so.
\<close>

theorem worker_record_truthful:
  "truthful w (snd (run_with_deadline e c (\<lparr>wk_record = None, wk_result = x\<rparr>, w)))"
  using run_true[OF extends_refl, where w = w and e = e and c = c and x = x] by (auto simp: wp_def split: prod.splits sum.splits)

end
