(* ===== verification/Traces.thy ===== *)
theory Traces
  imports Effects
begin

text \<open>
  What a method called when it returned: \<open>yields m R\<close> says that whenever \<open>m\<close> returns \<open>x\<close>, having made the calls \<open>tr\<close>, \<open>R x tr\<close> holds,
  whatever the state and the answers. The rules give it for a program from its parts, so a trace is described by cutting it.
\<close>

definition yields :: "('o, 'a) prog \<Rightarrow> ('a \<Rightarrow> answered list \<Rightarrow> bool) \<Rightarrow> bool" where
  "yields m R \<longleftrightarrow> (\<forall>s. wp m (\<lambda>x t. extends (snd s) (snd t) \<and> R x (recent (snd s) (snd t))) (\<lambda>_ t. extends (snd s) (snd t)) s)"

lemma yieldsD: "yields m R \<Longrightarrow> m s = (Inr x, t) \<Longrightarrow> R x (recent (snd s) (snd t))"
  unfolding yields_def wp_def by (drule spec[of _ s]) simp

lemma yields_mono: "yields m R \<Longrightarrow> (\<And>x tr. R x tr \<Longrightarrow> R' x tr) \<Longrightarrow> yields m R'"
  unfolding yields_def by (blast intro: wp_mono)

lemma yields_pure:
  "yields (ret v) (\<lambda>x tr. x = v \<and> tr = [])" "yields (fail e) (\<lambda>_ _. False)" "yields (field f) (\<lambda>_ tr. tr = [])" "yields (update g) (\<lambda>_ tr. tr = [])"
  "yields (lift_result r) (\<lambda>x tr. r = Inr x \<and> tr = [])"
  by (auto simp: yields_def wp_simps split: sum.split)

lemma yields_ext: "yields (ext c) (\<lambda>v tr. tr = [(c, Inr v)])"
  by (auto simp: yields_def wp_simps split: sum.split)

lemma yields_calls: "calls N m \<Longrightarrow> yields m (\<lambda>_ tr. \<forall>a \<in> set tr. fst (fst a) \<in> N)"
  unfolding yields_def using calls_wp by (blast intro: wp_mono)

lemma yields_bind:
  fixes m :: "('o, 'a) prog"
  assumes "yields m R" "\<And>x. yields (f x) (S x)"
  shows "yields (bind m f) (\<lambda>y tr. \<exists>x tr1 tr2. tr = tr1 @ tr2 \<and> R x tr1 \<and> S x y tr2)"
  unfolding yields_def wp_bind
proof (rule allI)
  fix s :: "'o \<times> world"
  have step: "wp (f x) (\<lambda>y t. extends (snd s) (snd t) \<and> (\<exists>x tr1 tr2. recent (snd s) (snd t) = tr1 @ tr2 \<and> R x tr1 \<and> S x y tr2))
      (\<lambda>_ t. extends (snd s) (snd t)) v" if "extends (snd s) (snd v)" "R x (recent (snd s) (snd v))" for x and v :: "'o \<times> world"
    using assms(2)[of x] unfolding yields_def
    by (rule allE[of _ v], elim wp_mono) (use that recent_trans extends_trans in blast)+
  show "wp m (\<lambda>x. wp (f x) (\<lambda>y t. extends (snd s) (snd t) \<and> (\<exists>x tr1 tr2. recent (snd s) (snd t) = tr1 @ tr2 \<and> R x tr1 \<and> S x y tr2))
      (\<lambda>_ t. extends (snd s) (snd t))) (\<lambda>_ t. extends (snd s) (snd t)) s"
    using assms(1) unfolding yields_def by (rule allE[of _ s], elim wp_mono) (use step in blast)+
qed

lemma yields_andthen:
  "yields m R \<Longrightarrow> yields n S \<Longrightarrow> yields (andthen m n) (\<lambda>y tr. \<exists>x tr1 tr2. tr = tr1 @ tr2 \<and> R x tr1 \<and> S y tr2)"
  unfolding andthen_def by (rule yields_bind)

text \<open>A handler that says of every result what the body says of its own.\<close>

lemma yields_catch:
  fixes m :: "('o, 'a) prog"
  assumes "yields m R" "\<And>e. yields (h e) (\<lambda>x _. P x)" "\<And>x tr. P x \<Longrightarrow> R x tr"
  shows "yields (catch m h) R"
  unfolding yields_def wp_catch
proof (rule allI)
  fix s :: "'o \<times> world"
  have step: "wp (h e) (\<lambda>x t. extends (snd s) (snd t) \<and> R x (recent (snd s) (snd t))) (\<lambda>_ t. extends (snd s) (snd t)) v"
    if "extends (snd s) (snd v)" for e and v :: "'o \<times> world"
    using assms(2)[of e] unfolding yields_def
    by (rule allE[of _ v], elim wp_mono) (use that extends_trans assms(3) in blast)+
  show "wp m (\<lambda>x t. extends (snd s) (snd t) \<and> R x (recent (snd s) (snd t)))
      (\<lambda>e. wp (h e) (\<lambda>x t. extends (snd s) (snd t) \<and> R x (recent (snd s) (snd t))) (\<lambda>_ t. extends (snd s) (snd t))) s"
    using assms(1) unfolding yields_def by (rule allE[of _ s], elim wp_mono) (use step in blast)+
qed

lemma yields_ensure:
  fixes m :: "('o, 'a) prog"
  assumes "yields m R" "yields f S"
  shows "yields (ensure m f) (\<lambda>x tr. \<exists>y tr1 tr2. tr = tr1 @ tr2 \<and> R x tr1 \<and> S y tr2)"
  unfolding yields_def wp_ensure
proof (rule allI)
  fix s :: "'o \<times> world"
  have step: "wp f (\<lambda>y t. extends (snd s) (snd t) \<and> (\<exists>y tr1 tr2. recent (snd s) (snd t) = tr1 @ tr2 \<and> R x tr1 \<and> S y tr2))
      (\<lambda>_ t. extends (snd s) (snd t)) v" if "extends (snd s) (snd v)" "R x (recent (snd s) (snd v))" for x and v :: "'o \<times> world"
    using assms(2) unfolding yields_def
    by (rule allE[of _ v], elim wp_mono) (use that recent_trans extends_trans in blast)+
  have bad: "wp f (\<lambda>_ t. extends (snd s) (snd t)) (\<lambda>_ t. extends (snd s) (snd t)) v" if "extends (snd s) (snd v)" for v :: "'o \<times> world"
    using assms(2) unfolding yields_def by (rule allE[of _ v], elim wp_mono) (use that extends_trans in blast)+
  show "wp m (\<lambda>x. wp f (\<lambda>_ t. extends (snd s) (snd t) \<and> (\<exists>y tr1 tr2. recent (snd s) (snd t) = tr1 @ tr2 \<and> R x tr1 \<and> S y tr2))
      (\<lambda>_ t. extends (snd s) (snd t))) (\<lambda>e. wp f (\<lambda>_ t. extends (snd s) (snd t)) (\<lambda>_ t. extends (snd s) (snd t))) s"
    using assms(1) unfolding yields_def by (rule allE[of _ s], elim wp_mono) (use step bad in blast)+
qed

lemma yields_if: "(b \<Longrightarrow> yields m R) \<Longrightarrow> (\<not> b \<Longrightarrow> yields n R) \<Longrightarrow> yields (if b then m else n) R"
  by simp

lemma yields_option: "yields m R \<Longrightarrow> (\<And>y. yields (f y) R) \<Longrightarrow> yields (case z of None \<Rightarrow> m | Some y \<Rightarrow> f y) R"
  by (simp split: option.split)

lemma yields_within: "yields m R \<Longrightarrow> yields (within sel put m) R"
  unfolding yields_def wp_within by simp

lemma yields_with_local: "yields m R \<Longrightarrow> yields (with_local v m) R"
  unfolding yields_def wp_with_local by simp

text \<open>The same rules read forwards: what was called so far is known when the rest is looked at.\<close>

lemma yields_step:
  fixes m :: "('o, 'a) prog"
  assumes "yields m R" "\<And>x tr. R x tr \<Longrightarrow> yields (f x) (\<lambda>y tr'. Q y (tr @ tr'))"
  shows "yields (bind m f) Q"
  unfolding yields_def wp_bind
proof (rule allI)
  fix s :: "'o \<times> world"
  have step: "wp (f x) (\<lambda>y t. extends (snd s) (snd t) \<and> Q y (recent (snd s) (snd t))) (\<lambda>_ t. extends (snd s) (snd t)) v"
    if "extends (snd s) (snd v)" "R x (recent (snd s) (snd v))" for x and v :: "'o \<times> world"
    using assms(2)[OF that(2)] unfolding yields_def
    by (rule allE[of _ v], elim wp_mono) (use that(1) recent_trans extends_trans in \<open>metis+\<close>)
  show "wp m (\<lambda>x. wp (f x) (\<lambda>y t. extends (snd s) (snd t) \<and> Q y (recent (snd s) (snd t))) (\<lambda>_ t. extends (snd s) (snd t)))
      (\<lambda>_ t. extends (snd s) (snd t)) s"
    using assms(1) unfolding yields_def by (rule allE[of _ s], elim wp_mono) (use step in blast)+
qed

lemma yields_ret: "Q v [] \<Longrightarrow> yields (ret v) Q"
  by (simp add: yields_def wp_ret)

lemma yields_wp: "yields m R \<Longrightarrow> wp m (\<lambda>x t. extends (snd s) (snd t) \<and> R x (recent (snd s) (snd t))) (\<lambda>_ t. extends (snd s) (snd t)) s"
  unfolding yields_def by blast

end
