(* ===== verification/RefreshFacts.thy ===== *)
theory RefreshFacts
  imports RefreshAttempt WorkerFacts Traces
begin

text \<open>
  What a refresh leaves behind (\<open>RefreshAttempt\<close>): the guard is given back only when every resource of the refresh is gone, it is
  kept otherwise, and the document says so.
\<close>

section \<open>Methods that never raise\<close>

definition never_fails :: "('o, 'a) prog \<Rightarrow> bool" where
  "never_fails m \<longleftrightarrow> (\<forall>s. \<not> isl (fst (m s)))"

named_theorems never_intros \<open>methods that never raise\<close>

lemma never_pure [never_intros]: "never_fails (ret x)" "never_fails (field f)" "never_fails (update g)"
  by (simp_all add: never_fails_def ret_def field_def update_def)

lemma never_bind [never_intros]: "never_fails m \<Longrightarrow> (\<And>x. never_fails (f x)) \<Longrightarrow> never_fails (bind m f)"
  unfolding never_fails_def bind_def by (auto split: prod.split sum.split) (metis fst_conv isl_def)

lemma never_andthen [never_intros]: "never_fails m \<Longrightarrow> never_fails n \<Longrightarrow> never_fails (andthen m n)"
  by (simp add: andthen_def never_bind)

lemma never_catch [never_intros]: "(\<And>e. never_fails (h e)) \<Longrightarrow> never_fails (catch m h)"
  unfolding never_fails_def catch_def by (auto split: prod.split sum.split)

lemma never_calls [never_intros]: "never_fails (tried m)" "never_fails (getattr_none n args)" "never_fails (attribute_of n x)"
  unfolding tried_def getattr_none_def attribute_of_def by (auto intro: never_intros)

lemma never_if [never_intros]: "(b \<Longrightarrow> never_fails m) \<Longrightarrow> (\<not> b \<Longrightarrow> never_fails n) \<Longrightarrow> never_fails (if b then m else n)"
  by simp

lemma never_cases [never_intros]:
  "never_fails m \<Longrightarrow> (\<And>y. never_fails (f y)) \<Longrightarrow> never_fails (case z of None \<Rightarrow> m | Some y \<Rightarrow> f y)"
  "(\<And>x y. never_fails (k x y)) \<Longrightarrow> never_fails (case p of (x, y) \<Rightarrow> k x y)"
  by (auto split: option.split prod.split)

lemma never_within [never_intros]: "never_fails m \<Longrightarrow> never_fails (within sel put m)"
  by (simp add: never_fails_def within_def split_def del: split_paired_All)

lemma never_local [never_intros]: "never_fails m \<Longrightarrow> never_fails (with_local v m)"
  by (simp add: never_fails_def with_local_def split_def del: split_paired_All)

lemma never_all [never_intros]: "(\<And>x. never_fails (f x)) \<Longrightarrow> never_fails (all_of f xs)" "(\<And>x. never_fails (f x)) \<Longrightarrow> never_fails (all_until f xs)"
  by (induction xs) (auto intro!: never_intros)

lemma never_wp: "never_fails m \<Longrightarrow> wp m Q E s \<Longrightarrow> wp m Q (\<lambda>_ _. False) s"
  unfolding never_fails_def wp_def by (drule spec[of _ s]) (auto split: prod.splits sum.splits)

section \<open>The records that are registered\<close>

definition solo :: "refresh \<Rightarrow> bool" where
  "solo a \<longleftrightarrow> length (ra_workers a) \<le> 1 \<and> set (ra_records a) \<subseteq> {..<length (ra_workers a)}"

text \<open>Every resource of every worker is gone.\<close>

definition settled :: "refresh \<Rightarrow> bool" where
  "settled a \<longleftrightarrow> list_all (\<lambda>w. case wk_record w of None \<Rightarrow> True | Some r \<Rightarrow> record_complete r) (ra_workers a)"

definition registered :: "refresh \<Rightarrow> bool" where
  "registered a \<longleftrightarrow> (\<forall>i < length (ra_workers a). record_of a i \<noteq> None \<longrightarrow> i \<in> set (ra_records a))"

lemma register_fields [simp]:
  "ra_workers (register_worker i a) = ra_workers a" "ra_unfinalized (register_worker i a) = ra_unfinalized a"
  "ra_helpers (register_worker i a) = ra_helpers a" "ra_authority (register_worker i a) = ra_authority a"
  by (auto simp: register_worker_def split: option.split)

lemma register_solo: "solo a \<Longrightarrow> i < length (ra_workers a) \<Longrightarrow> solo (register_worker i a)"
  by (auto simp: register_worker_def solo_def split: option.split)

lemma register_registers:
  assumes "solo a" "i < length (ra_workers a)"
  shows "registered (register_worker i a)"
proof -
  have "ra_records a = [] \<or> i \<in> set (ra_records a)"
    using assms by (cases "ra_records a") (auto simp: solo_def)
  then have "record_of a i \<noteq> None \<longrightarrow> i \<in> set (ra_records (register_worker i a))"
    by (auto simp: register_worker_def split: option.split)
  moreover have "j = i" if "j < length (ra_workers a)" for j using that assms by (simp add: solo_def)
  ultimately show ?thesis unfolding registered_def record_of_def register_fields by metis
qed

lemma register_all_wp:
  assumes "solo (fst s)"
  shows "wp register_all (\<lambda>_ t. solo (fst t) \<and> registered (fst t) \<and> ra_workers (fst t) = ra_workers (fst s) \<and> ra_helpers (fst t) = ra_helpers (fst s)
     \<and> ra_unfinalized (fst t) = ra_unfinalized (fst s) \<and> ra_authority (fst t) = ra_authority (fst s) \<and> snd t = snd s) (\<lambda>_ _. False) s"
proof (cases "ra_workers (fst s)")
  case Nil
  then show ?thesis using assms by (simp add: register_all_def wp_update registered_def)
next
  case (Cons w ws)
  then have "length (ra_workers (fst s)) = 1" using assms by (simp add: solo_def)
  then show ?thesis
    using assms register_solo[of "fst s" 0] register_registers[of "fst s" 0] by (simp add: register_all_def wp_update)
qed

section \<open>Helpers that say they are quiet\<close>

text \<open>What the trace shows of an attribute: its value when it was read, none when reading it raised.\<close>

definition attr_seen :: "string \<Rightarrow> val \<Rightarrow> val \<Rightarrow> answered list \<Rightarrow> bool" where
  "attr_seen n x v tr \<longleftrightarrow> (if x = VNone then v = VNone
     else list_ex (\<lambda>a. fst a = (n, [x]) \<and> v = (case snd a of Inr y \<Rightarrow> y | Inl _ \<Rightarrow> VNone)) tr)"

text \<open>The supervisor of a helper said that it is closed and has nothing left; the helper said that it has no pending
  supervisor, is not active and not retrying, and that its last supervisor is none or is closed.\<close>

definition supervisor_seen_closed :: "val \<Rightarrow> answered list \<Rightarrow> bool" where
  "supervisor_seen_closed s tr \<longleftrightarrow>
     (attr_seen ''_state'' s (VStr (u ''closed'')) tr
      \<or> (\<exists>st. attr_seen ''_state'' s st tr \<and> ((''value'', [st]), Inr (VStr (u ''closed''))) \<in> set tr))
     \<and> list_all (\<lambda>n. attr_seen n s VNone tr) [''_pending'', ''_prepared'', ''_helper'', ''_gate'', ''_data'']"

definition helper_seen_quiet :: "val \<Rightarrow> answered list \<Rightarrow> bool" where
  "helper_seen_quiet h tr \<longleftrightarrow> attr_seen ''_pending_supervisor'' h VNone tr
     \<and> (\<exists>v. attr_seen ''_active'' h v tr \<and> \<not> truthy v) \<and> (\<exists>v. attr_seen ''_retrying'' h v tr \<and> \<not> truthy v)
     \<and> (attr_seen ''_last_supervisor'' h VNone tr
        \<or> (\<exists>s. attr_seen ''_last_supervisor'' h s tr \<and> supervisor_seen_closed s tr))"

lemma attr_seen_mono: "attr_seen n x v tr \<Longrightarrow> set tr \<subseteq> set tr' \<Longrightarrow> attr_seen n x v tr'"
  by (auto simp: attr_seen_def list_ex_iff split: if_splits)

lemma supervisor_seen_mono: "supervisor_seen_closed s tr \<Longrightarrow> set tr \<subseteq> set tr' \<Longrightarrow> supervisor_seen_closed s tr'"
  unfolding supervisor_seen_closed_def list_all_iff by (meson attr_seen_mono subsetD)

lemma helper_seen_mono: "helper_seen_quiet h tr \<Longrightarrow> set tr \<subseteq> set tr' \<Longrightarrow> helper_seen_quiet h tr'"
  unfolding helper_seen_quiet_def by (meson attr_seen_mono supervisor_seen_mono)

lemma seen_append:
  "attr_seen n x v tr \<Longrightarrow> attr_seen n x v (tr @ tr')" "attr_seen n x v tr' \<Longrightarrow> attr_seen n x v (tr @ tr')"
  "helper_seen_quiet h tr \<Longrightarrow> helper_seen_quiet h (tr @ tr')" "helper_seen_quiet h tr' \<Longrightarrow> helper_seen_quiet h (tr @ tr')"
  by (erule attr_seen_mono helper_seen_mono; simp)+

lemma attribute_yields: "yields (attribute_of n x) (\<lambda>v tr. attr_seen n x v tr)"
  unfolding yields_def attribute_of_def getattr_none_def by (auto simp: wp_simps attr_seen_def split: sum.split)

lemma attributes_yield:
  "yields (all_until (\<lambda>n. bind (attribute_of n s) (\<lambda>x. ret (x = VNone))) ns) (\<lambda>ok tr. ok \<longrightarrow> list_all (\<lambda>n. attr_seen n s VNone tr) ns)"
proof (induction ns)
  case (Cons n ns)
  have one: "yields (bind (attribute_of n s) (\<lambda>x. ret (x = VNone))) (\<lambda>ok tr. ok \<longrightarrow> attr_seen n s VNone tr)"
    by (rule yields_step[OF attribute_yields]) (auto intro!: yields_ret)
  show ?case
    unfolding all_until.simps
  proof (rule yields_step[OF one], rule yields_if, goal_cases)
    case (1 ok tr)
    show ?case by (rule yields_mono[OF Cons]) (use 1 in \<open>auto simp: list_all_iff intro: seen_append\<close>)
  qed (auto intro: yields_ret)
qed (auto intro: yields_ret)

lemma state_yields: "yields (if st = VNone then ret dflt else catch (ext (''value'', [st])) (\<lambda>_. ret dflt))
    (\<lambda>v tr. v = dflt \<or> ((''value'', [st]), Inr v) \<in> set tr)"
  unfolding yields_def by (auto simp: wp_simps split: sum.split)

lemma supervisor_yields: "yields (supervisor_quiescent s) (\<lambda>ok tr. ok \<longrightarrow> supervisor_seen_closed s tr)"
  unfolding supervisor_quiescent_def
proof (rule yields_step[OF attribute_yields], rule yields_step[OF attribute_yields], rule yields_step[OF state_yields], rule yields_if, goal_cases)
  case (2 st tr dflt tr1 v tr2)
  have state: "attr_seen ''_state'' s (VStr (u ''closed'')) (tr @ tr1 @ tr2 @ tr')
      \<or> (\<exists>st. attr_seen ''_state'' s st (tr @ tr1 @ tr2 @ tr') \<and> ((''value'', [st]), Inr (VStr (u ''closed''))) \<in> set (tr @ tr1 @ tr2 @ tr'))" for tr'
  proof (cases "v = dflt")
    case True
    have "attr_seen ''_state'' s (VStr (u ''closed'')) tr1" using 2(2,4) True by simp
    then show ?thesis by (intro disjI1, elim attr_seen_mono) auto
  next
    case False
    have m: "((''value'', [st]), Inr (VStr (u ''closed''))) \<in> set tr2" using 2(3,4) False by simp
    have "attr_seen ''_state'' s st (tr @ tr1 @ tr2 @ tr')" by (rule attr_seen_mono[OF 2(1)]) auto
    moreover have "((''value'', [st]), Inr (VStr (u ''closed''))) \<in> set (tr @ tr1 @ tr2 @ tr')" using m by simp
    ultimately show ?thesis by blast
  qed
  show ?case
  proof (rule yields_mono[OF attributes_yield], rule impI)
    fix ok tr' assume a: "ok \<longrightarrow> list_all (\<lambda>n. attr_seen n s VNone tr') [''_pending'', ''_prepared'', ''_helper'', ''_gate'', ''_data'']" ok
    have "attr_seen n s VNone tr' \<Longrightarrow> attr_seen n s VNone (tr @ tr1 @ tr2 @ tr')" for n by (erule attr_seen_mono) auto
    then have "list_all (\<lambda>n. attr_seen n s VNone (tr @ tr1 @ tr2 @ tr')) [''_pending'', ''_prepared'', ''_helper'', ''_gate'', ''_data'']"
      using a unfolding list_all_iff by blast
    then show "supervisor_seen_closed s (tr @ tr1 @ tr2 @ tr')" using state[of tr'] unfolding supervisor_seen_closed_def by blast
  qed
qed (auto intro: yields_ret)

lemma helper_yields: "yields (helper_quiescent h) (\<lambda>ok tr. ok \<longrightarrow> helper_seen_quiet h tr)"
  unfolding helper_quiescent_def
proof (rule yields_step[OF attribute_yields], rule yields_if, (rule yields_ret, simp),
    rule yields_step[OF attribute_yields], rule yields_if, (rule yields_ret, simp),
    rule yields_step[OF attribute_yields], rule yields_if, (rule yields_ret, simp),
    rule yields_step[OF attribute_yields], rule yields_if, goal_cases)
  case (1 p pt a at r rt l lt)
  show ?case
  proof (rule yields_step[OF attribute_yields], rule yields_mono[OF supervisor_yields], rule impI, goal_cases)
    case (1 s st ok tr)
    let ?tr = "pt @ at @ rt @ lt @ st @ tr"
    have "attr_seen ''_pending_supervisor'' h VNone ?tr" "attr_seen ''_active'' h a ?tr" "attr_seen ''_retrying'' h r ?tr"
      using \<open>attr_seen ''_pending_supervisor'' h p pt\<close> \<open>\<not> p \<noteq> VNone\<close> \<open>attr_seen ''_active'' h a at\<close> \<open>attr_seen ''_retrying'' h r rt\<close>
      by (auto elim!: attr_seen_mono)
    moreover have "attr_seen ''_last_supervisor'' h s ?tr" by (rule attr_seen_mono[OF 1(1)]) auto
    moreover have "supervisor_seen_closed s ?tr" by (rule supervisor_seen_mono[of s tr]) (use 1(2,3) in auto)
    ultimately show ?case
      using \<open>\<not> truthy a\<close> \<open>\<not> truthy r\<close> unfolding helper_seen_quiet_def by blast
  qed
next
  case (2 p pt a at r rt l lt)
  have "attr_seen ''_pending_supervisor'' h VNone (pt @ at @ rt @ lt)" "attr_seen ''_active'' h a (pt @ at @ rt @ lt)"
    "attr_seen ''_retrying'' h r (pt @ at @ rt @ lt)" "attr_seen ''_last_supervisor'' h VNone (pt @ at @ rt @ lt)"
    using 2 by (auto elim!: attr_seen_mono)
  then have "helper_seen_quiet h (pt @ at @ rt @ lt)" using 2 unfolding helper_seen_quiet_def by blast
  then show ?case by (intro yields_ret) simp
qed

lemma helpers_yield: "yields (all_until helper_quiescent hs) (\<lambda>ok tr. ok \<longrightarrow> list_all (\<lambda>h. helper_seen_quiet h tr) hs)"
proof (induction hs)
  case (Cons h hs)
  show ?case
    unfolding all_until.simps
  proof (rule yields_step[OF helper_yields], rule yields_if, goal_cases)
    case (1 ok tr)
    show ?case by (rule yields_mono[OF Cons]) (use 1 in \<open>auto simp: list_all_iff intro: seen_append\<close>)
  qed (auto intro: yields_ret)
qed (auto intro: yields_ret)

section \<open>What cleanup keeps\<close>

text \<open>A method on a worker neither makes nor drops its record.\<close>

definition flag_kept :: "'a wprog \<Rightarrow> bool" where
  "flag_kept m \<longleftrightarrow> (\<forall>s. (wk_record (fst (snd (m s))) = None) = (wk_record (fst s) = None))"

named_theorems flag_intros \<open>methods that keep whether there is a record\<close>

lemma flag_still: "still m \<Longrightarrow> flag_kept m"
  by (simp add: still_def flag_kept_def)

lemma flag_set_record [flag_intros]: "flag_kept (set_record f)"
  by (simp add: flag_kept_def set_record_def update_def)

lemma flag_bind [flag_intros]: "flag_kept m \<Longrightarrow> (\<And>x. flag_kept (f x)) \<Longrightarrow> flag_kept (bind m f)"
  unfolding flag_kept_def bind_def by (auto split: prod.split sum.split) (metis fst_conv snd_conv)+

lemma flag_andthen [flag_intros]: "flag_kept m \<Longrightarrow> flag_kept n \<Longrightarrow> flag_kept (andthen m n)"
  by (simp add: andthen_def flag_bind)

lemma flag_if [flag_intros]: "(b \<Longrightarrow> flag_kept m) \<Longrightarrow> (\<not> b \<Longrightarrow> flag_kept n) \<Longrightarrow> flag_kept (if b then m else n)"
  by simp

lemma flag_option [flag_intros]: "flag_kept m \<Longrightarrow> (\<And>y. flag_kept (f y)) \<Longrightarrow> flag_kept (case z of None \<Rightarrow> m | Some y \<Rightarrow> f y)"
  by (auto split: option.split)

text \<open>What no step of the cleanup changes: which workers have records, what is registered, the helpers, the leases.\<close>

definition frame :: "refresh \<Rightarrow> bool list \<times> nat list \<times> val list \<times> guard_lease list \<times> bool" where
  "frame a = (map (\<lambda>w. wk_record w = None) (ra_workers a), ra_records a, ra_helpers a, ra_unfinalized a, ra_authority a)"

definition framed :: "refresh \<Rightarrow> refresh \<times> world \<Rightarrow> bool" where
  "framed a s \<longleftrightarrow> frame (fst s) = frame a"

lemma framed_still: "still m \<Longrightarrow> keeps (framed a) m"
  unfolding keeps_def
proof (intro allI impI)
  fix s assume m: "still m" and f: "framed a s"
  obtain r t where e: "m s = (r, t)" by (cases "m s")
  have "fst t = fst s" using m e unfolding still_def by (metis snd_conv)
  then show "wp m (\<lambda>_. framed a) (\<lambda>_. framed a) s" using f e by (simp add: wp_def framed_def split: sum.split)
qed

lemma framed_worker:
  assumes "flag_kept m"
  shows "keeps (framed a) (on_worker i m)"
proof (rule keepsI)
  fix s assume f: "framed a s"
  obtain r x w where e: "m (ra_workers (fst s) ! i, snd s) = (r, (x, w))" by (metis prod.exhaust)
  have k: "(wk_record x = None) = (wk_record (ra_workers (fst s) ! i) = None)"
    using assms e unfolding flag_kept_def by (metis fst_conv snd_conv)
  have "map (\<lambda>w. wk_record w = None) ((ra_workers (fst s))[i := x]) = map (\<lambda>w. wk_record w = None) (ra_workers (fst s))"
  proof (rule nth_equalityI)
    fix j assume "j < length (map (\<lambda>w. wk_record w = None) ((ra_workers (fst s))[i := x]))"
    then show "map (\<lambda>w. wk_record w = None) ((ra_workers (fst s))[i := x]) ! j = map (\<lambda>w. wk_record w = None) (ra_workers (fst s)) ! j"
      using k by (cases "i = j") auto
  qed simp
  then show "wp (on_worker i m) (\<lambda>_. framed a) (\<lambda>_. framed a) s"
    using f e by (simp add: on_worker_def wp_def within_def framed_def frame_def split: sum.split)
qed

lemma flag_basics [flag_intros]:
  "flag_kept (ret x)" "flag_kept (field f)" "flag_kept (ext e)" "flag_kept (attribute_of n v)" "flag_kept (tried (ext e))" "flag_kept (close_any_job c p)"
  "flag_kept (job_zero p)" "flag_kept (job_is_closed p)" "flag_kept (close_queue p)" "flag_kept (stop_process c b p)"
  by (rule flag_still, intro still_intros)+

lemma flag_steps [flag_intros]:
  "flag_kept (close_worker_job c j)" "flag_kept (close_worker_queue q)" "flag_kept (close_worker_event ev)" "flag_kept (reap_process c b p)"
  unfolding close_worker_job_def close_worker_queue_def close_worker_event_def reap_process_def
  by (intro flag_intros)+

lemma step_framed:
  assumes "\<And>r m. f r = Some m \<Longrightarrow> flag_kept m"
  shows "keeps (framed a) (record_step i f)"
proof -
  have "keeps (framed a) (case r of None \<Rightarrow> ret True | Some r \<Rightarrow> (case f r of None \<Rightarrow> ret True | Some m \<Rightarrow> tried (on_worker i m)))" for r
    using assms by (auto simp: tried_def intro!: keeps_intros framed_worker split: option.split)
  then show ?thesis unfolding record_step_def by (rule keeps_bind[OF keeps_pure(3)])
qed

lemma clean_record_framed: "keeps (framed a) (clean_record c i)"
  unfolding clean_record_def
  by (intro keeps_intros step_framed) (auto split: if_splits intro: flag_intros)

lemma helpers_still: "still (clean_helper h)" "still (helper_quiescent h)"
proof -
  have q: "still (all_until (\<lambda>n. bind (attribute_of n s) (\<lambda>x. ret (x = VNone))) ns)" for s ns
    by (induction ns) (auto intro!: still_intros)
  show "still (clean_helper h)" unfolding clean_helper_def by (intro still_intros)
  show "still (helper_quiescent h)" unfolding helper_quiescent_def supervisor_quiescent_def by (intro still_intros q)
qed

lemma all_keeps: "(\<And>x. keeps B (f x)) \<Longrightarrow> keeps B (all_of f xs)"
  by (induction xs) (auto intro!: keeps_intros)

lemma all_still: "(\<And>x. still (f x)) \<Longrightarrow> still (all_of f xs)" "(\<And>x. still (f x)) \<Longrightarrow> still (all_until f xs)"
  by (induction xs) (auto intro!: still_intros)

lemma still_wp: "still m \<Longrightarrow> wp m (\<lambda>_ t. fst t = fst s) (\<lambda>_ t. fst t = fst s) s"
  unfolding still_def wp_def by (drule spec[of _ s]) (auto split: prod.splits sum.splits)

text \<open>The helpers all said that they are quiet, since a world.\<close>

definition quiet_since :: "val list \<Rightarrow> world \<Rightarrow> world \<Rightarrow> bool" where
  "quiet_since hs w w' \<longleftrightarrow> extends w w' \<and> list_all (\<lambda>h. helper_seen_quiet h (recent w w')) hs"

lemma quiet_since_later: "quiet_since hs w1 w2 \<Longrightarrow> extends w w1 \<Longrightarrow> quiet_since hs w w2"
  using recent_trans[of w w1 w2] extends_trans[of w w1 w2] by (auto simp: quiet_since_def list_all_iff intro: seen_append)

lemma cleanup_complete_wp:
  "wp (catch cleanup_complete (\<lambda>_. ret False)) (\<lambda>ok t. fst t = fst s \<and> extends (snd s) (snd t)
     \<and> (ok \<longrightarrow> records_complete (fst s) \<and> quiet_since (ra_helpers (fst s)) (snd s) (snd t))) (\<lambda>_ _. False) s"
proof -
  have st: "still (all_until helper_quiescent hs)" for hs by (intro all_still helpers_still)
  have "wp (all_until helper_quiescent hs) (\<lambda>ok t. fst t = fst s \<and> extends (snd s) (snd t) \<and> (ok \<longrightarrow> quiet_since hs (snd s) (snd t)))
      (\<lambda>_ t. fst t = fst s \<and> extends (snd s) (snd t)) s" for hs
    by (rule wp_mono[OF wp_conj[OF still_wp[OF st] yields_wp[OF helpers_yield]]]) (auto simp: quiet_since_def)
  then have "wp (all_until helper_quiescent hs) (\<lambda>ok t. fst t = fst s \<and> extends (snd s) (snd t) \<and> (ok \<longrightarrow> quiet_since hs (snd s) (snd t)))
      (\<lambda>e. wp (ret False) (\<lambda>ok t. fst t = fst s \<and> extends (snd s) (snd t) \<and> (ok \<longrightarrow> quiet_since hs (snd s) (snd t))) (\<lambda>_ _. False)) s" for hs
    by (rule wp_mono) (simp_all add: wp_ret)
  note q = this
  show ?thesis
    unfolding cleanup_complete_def wp_catch wp_bind[of "field _"] wp_field id_apply
    by (cases "ra_records (fst s) = [] \<and> ra_helpers (fst s) = []"; cases "records_complete (fst s)")
      (auto simp: wp_ret intro!: wp_mono[OF q])
qed

lemma settled_complete: "registered a \<Longrightarrow> records_complete a \<Longrightarrow> settled a"
  unfolding settled_def list_all_length
proof (intro allI impI)
  fix i assume a: "registered a" "records_complete a" "i < length (ra_workers a)"
  show "case wk_record (ra_workers a ! i) of None \<Rightarrow> True | Some r \<Rightarrow> record_complete r"
  proof (cases "record_of a i")
    case (Some r)
    then have "i \<in> set (ra_records a)" using a by (simp add: registered_def)
    then show ?thesis using a(2) Some by (auto simp: records_complete_def list_all_iff record_of_def)
  qed (simp add: record_of_def)
qed

lemma frame_solo: "frame a = frame b \<Longrightarrow> solo a = solo b" "frame a = frame b \<Longrightarrow> registered a = registered b"
proof -
  assume f: "frame a = frame b"
  then have l: "length (ra_workers a) = length (ra_workers b)" "ra_records a = ra_records b"
    by (auto simp: frame_def dest: map_eq_imp_length_eq)
  then show "solo a = solo b" by (simp add: solo_def)
  have "(record_of a i = None) = (record_of b i = None)" if "i < length (ra_workers b)" for i
    using f l that by (auto simp: frame_def record_of_def list_eq_iff_nth_eq dest!: spec[of _ i])
  then show "registered a = registered b" using l by (simp add: registered_def)
qed

text \<open>The cleanup never raises, and when it answers yes nothing is left.\<close>

definition cleaned_from :: "refresh \<Rightarrow> bool \<Rightarrow> refresh \<Rightarrow> bool" where
  "cleaned_from a ok b \<longleftrightarrow> solo b \<and> ra_unfinalized b = ra_unfinalized a \<and> ra_authority b = ra_authority a \<and> (ok \<longrightarrow> settled b)"

lemma all_calls: "(\<And>x. calls N (f x)) \<Longrightarrow> calls N (all_of f xs)" "(\<And>x. calls N (f x)) \<Longrightarrow> calls N (all_until f xs)"
  by (induction xs) (auto intro!: calls_intros)

lemma extends_wp: "calls N m \<Longrightarrow> wp m (\<lambda>_ t. extends (snd s) (snd t)) (\<lambda>_ t. extends (snd s) (snd t)) s"
  by (rule wp_mono[OF calls_wp]) auto

text \<open>Every call but the release of a mutex and the run of a helper.\<close>

abbreviation run_names :: "string set" where "run_names \<equiv> {''run_with_deadline'', ''run''}"

abbreviation others :: "string set" where "others \<equiv> - insert ''ReleaseMutex'' run_names"

lemma cleanup_steps_calls: "calls others (clean_record c i)" "calls others (clean_helper h)" "calls others (helper_quiescent h)"
proof -
  note ds = tried_def getattr_none_def attribute_of_def process_alive_def cleanup_seconds_def usable_seconds_def join_cleanup_def close_any_job_def job_zero_def
    job_is_closed_def job_attribute_def close_queue_def stop_process_def close_worker_job_def close_worker_queue_def close_worker_event_def reap_process_def
    set_record_def
  have un: "calls others (all_until (\<lambda>n. bind (attribute_of n s) (\<lambda>x. ret (x = VNone))) ns)" if "set ns \<subseteq> others" for s ns
    using that by (induction ns) (auto simp: attribute_of_def getattr_none_def intro!: calls_intros)
  show "calls others (helper_quiescent h)"
    unfolding helper_quiescent_def supervisor_quiescent_def by (intro calls_intros un) (auto simp: ds intro!: calls_intros)
  have steps: "calls others (close_worker_job c j)" "calls others (close_worker_queue p)" "calls others (close_worker_event v)" "calls others (reap_process c b p)" for j p v b
    by (auto simp: ds intro!: calls_intros)
  have step: "calls others (record_step i f)" if f: "\<And>r m. f r = Some m \<Longrightarrow> calls others m" for i f
  proof -
    have "calls others (case r of None \<Rightarrow> ret True | Some r \<Rightarrow> (case f r of None \<Rightarrow> ret True | Some m \<Rightarrow> tried (on_worker i m)))" for r
    proof (cases r)
      case (Some x)
      then show ?thesis using f[of x] by (cases "f x") (auto simp: tried_def on_worker_def intro!: calls_intros)
    qed (simp add: calls_intros)
    then show ?thesis unfolding record_step_def by (rule calls_bind[OF calls_pure(3)])
  qed
  show "calls others (clean_record c i)"
    unfolding clean_record_def by (intro calls_intros; rule step) (auto split: if_splits intro: steps)
  show "calls others (clean_helper h)"
    unfolding clean_helper_def by (auto simp: ds intro!: calls_intros)
qed

lemma cleanup_calls: "calls others (cleanup_resources c)"
  unfolding cleanup_resources_def register_all_def cleanup_complete_def by (intro calls_intros all_calls cleanup_steps_calls)

lemma cleanup_wp:
  assumes "solo (fst s)"
  shows "wp (cleanup_resources c) (\<lambda>ok t. cleaned_from (fst s) ok (fst t)
     \<and> extends (snd s) (snd t) \<and> (ok \<longrightarrow> quiet_since (ra_helpers (fst s)) (snd s) (snd t))) (\<lambda>_ _. False) s"
proof -
  let ?rest = "bind (field ra_records) (\<lambda>is. bind (all_of (clean_record c) is) (\<lambda>records.
     bind (field ra_helpers) (\<lambda>hs. bind (all_of clean_helper hs) (\<lambda>helpers.
     if (is \<noteq> [] \<or> hs \<noteq> []) \<and> records \<and> helpers then catch cleanup_complete (\<lambda>_. ret False)
     else ret (records \<and> helpers)))))"
  have nr: "never_fails (all_of (clean_record c) is)" for "is"
    unfolding clean_record_def record_step_def by (intro never_intros)
  have nh: "never_fails (all_of clean_helper hs)" for hs
    unfolding clean_helper_def by (intro never_intros)
  have r: "wp (all_of (clean_record c) is) (\<lambda>_ u. framed a u \<and> extends (snd t) (snd u)) (\<lambda>_ _. False) t" if "framed a t" for a "is" t
    by (rule never_wp[OF nr wp_conj[OF keepsD[OF all_keeps[OF clean_record_framed] that] extends_wp[OF all_calls(1)[OF cleanup_steps_calls(1)]]]])
  have h: "wp (all_of clean_helper hs) (\<lambda>_ u. fst u = fst t \<and> extends (snd t) (snd u)) (\<lambda>_ _. False) t" for hs t
    by (rule never_wp[OF nh wp_conj[OF still_wp[OF all_still(1)[OF helpers_still(1)]] extends_wp[OF all_calls(1)[OF cleanup_steps_calls(2)]]]])
  have "wp ?rest (\<lambda>ok u. cleaned_from (fst s) ok (fst u) \<and> extends (snd t) (snd u) \<and> (ok \<longrightarrow> quiet_since (ra_helpers (fst t)) (snd t) (snd u))) (\<lambda>_ _. False) t"
    if t: "solo (fst t)" "registered (fst t)" "ra_unfinalized (fst t) = ra_unfinalized (fst s)" "ra_authority (fst t) = ra_authority (fst s)" for t
  proof -
    have f: "cleaned_from (fst s) ok a" if "framed (fst t) (a, w)" "ok \<longrightarrow> records_complete a" for ok a w
      using that t frame_solo[of a "fst t"] settled_complete[of a] by (auto simp: cleaned_from_def framed_def) (auto simp: frame_def)
    have n: "records_complete a" if "framed (fst t) (a, w)" "ra_records (fst t) = []" for a w
      using that by (simp add: framed_def frame_def records_complete_def)
    have hs: "ra_helpers a = ra_helpers (fst t)" if "framed (fst t) (a, w)" for a w using that by (simp add: framed_def frame_def)
    have none: "quiet_since [] w w'" if "extends w w'" for w w' using that by (simp add: quiet_since_def)
    show ?thesis
      unfolding wp_bind[of "field _"] wp_field wp_bind[of "all_of _ _"]
    proof (rule wp_mono[OF r[of "fst t"]], goal_cases)
      case 1
      then show ?case by (simp add: framed_def)
    next
      case (2 records x)
      obtain a w where x: "x = (a, w)" by (cases x)
      show ?case unfolding x fst_conv
      proof (rule wp_mono[OF h], goal_cases)
        case (1 helpers y)
        obtain w' where e: "y = (a, w')" using 1 by (cases y) auto
        have y: "extends (snd t) w'" "framed (fst t) (a, w')"
          using 1 2 x e extends_trans[of "snd t" w w'] by (auto simp: framed_def)
        show ?case
        proof (cases "(ra_records (fst t) \<noteq> [] \<or> ra_helpers a \<noteq> []) \<and> records \<and> helpers")
          case True
          show ?thesis unfolding if_P[OF True]
            by (rule wp_mono[OF cleanup_complete_wp])
              (use y e f hs[OF y(2)] in \<open>auto intro: extends_trans quiet_since_later\<close>)
        next
          case False
          have "records \<and> helpers \<longrightarrow> records_complete a \<and> quiet_since (ra_helpers (fst t)) (snd t) w'"
            using False n[OF y(2)] none[OF y(1)] hs[OF y(2)] by auto
          then show ?thesis unfolding if_not_P[OF False] wp_ret using y(1) f[OF y(2)] e by auto
        qed
      qed simp
    qed simp
  qed
  note rest = this
  show ?thesis
    unfolding cleanup_resources_def wp_andthen
  proof (rule wp_mono[OF register_all_wp[OF assms]], goal_cases)
    case (1 x t)
    then show ?case using rest[of t] by simp
  qed simp
qed

section \<open>The records tell the truth\<close>

definition honest :: "world \<Rightarrow> refresh \<times> world \<Rightarrow> bool" where
  "honest w0 s \<longleftrightarrow> extends w0 (snd s) \<and> list_all (\<lambda>x. truthful w0 (x, snd s)) (ra_workers (fst s))"

lemma truthful_grows: "truthful w0 (x, w) \<Longrightarrow> extends w w' \<Longrightarrow> truthful w0 (x, w')"
  using record_grows[of w0 w w'] extends_trans[of w0 w w'] by (auto simp: truthful_def)

lemma honest_grows: "honest w0 (a, w) \<Longrightarrow> extends w w' \<Longrightarrow> honest w0 (a, w')"
  using extends_trans[of w0 w w'] truthful_grows by (auto simp: honest_def list_all_iff)

lemma honest_fields: "ra_workers a' = ra_workers a \<Longrightarrow> honest w0 (a', w) = honest w0 (a, w)"
  by (simp add: honest_def)

lemma honest_update: "(\<And>a. ra_workers (f a) = ra_workers a) \<Longrightarrow> keeps (honest w0) (update f)"
  by (simp add: keeps_def wp_update honest_def)

lemma honest_still: "calls UNIV m \<Longrightarrow> still m \<Longrightarrow> keeps (honest w0) m"
  by (rule keeps_still[where N = UNIV]) (auto intro: honest_grows)

lemma honest_worker:
  assumes h: "honest w0 s" and u: "calls UNIV m"
    and m: "i < length (ra_workers (fst s)) \<Longrightarrow> wp m (\<lambda>_. truthful w0) (\<lambda>_. truthful w0) (ra_workers (fst s) ! i, snd s)"
  shows "wp (on_worker i m) (\<lambda>_. honest w0) (\<lambda>_. honest w0) s"
proof -
  obtain r x w where e: "m (ra_workers (fst s) ! i, snd s) = (r, (x, w))" by (metis prod.exhaust)
  have g: "extends (snd s) w" using callsD[OF u e] by simp
  have o: "truthful w0 (y, w)" if "y \<in> set (ra_workers (fst s))" for y
    using h truthful_grows[OF _ g] that by (auto simp: honest_def list_all_iff)
  have n: "i < length (ra_workers (fst s)) \<Longrightarrow> truthful w0 (x, w)" using m e by (simp add: wp_def split: sum.splits)
  have "truthful w0 (y, w)" if y: "y \<in> set ((ra_workers (fst s))[i := x])" for y
  proof (cases "i < length (ra_workers (fst s))")
    case True
    then show ?thesis using y n o set_update_subset_insert[of "ra_workers (fst s)" i x] by auto
  qed (use y o in \<open>simp add: list_update_beyond\<close>)
  then have "honest w0 ((fst s)\<lparr>ra_workers := (ra_workers (fst s))[i := x]\<rparr>, w)"
    using h g extends_trans[of w0 "snd s" w] by (auto simp: honest_def list_all_iff)
  then show ?thesis using e by (simp add: on_worker_def wp_def within_def split: sum.split)
qed

text \<open>A closer of what a record names keeps the record true.\<close>

definition closes :: "worker_record \<Rightarrow> unit wprog \<Rightarrow> bool" where
  "closes r m \<longleftrightarrow> calls UNIV m \<and> (\<forall>w0 st. keeps (about w0 (wr_worker r) (wr_job r) st) m)"

lemma closers: "closes r (close_worker_job c (wr_job r))" "closes r (close_worker_queue q)" "closes r (close_worker_event v)" "closes r (reap_process c b (wr_worker r))"
proof -
  have "calls UNIV (set_record f)" for f by (simp add: set_record_def calls_intros)
  then have "calls UNIV (close_worker_job c (wr_job r))" "calls UNIV (close_worker_queue q)" "calls UNIV (close_worker_event v)" "calls UNIV (reap_process c b (wr_worker r))"
    unfolding close_worker_job_def close_worker_queue_def close_worker_event_def reap_process_def by (intro calls_intros; simp)+
  then show "closes r (close_worker_job c (wr_job r))" "closes r (close_worker_queue q)" "closes r (close_worker_event v)" "closes r (reap_process c b (wr_worker r))"
    using close_job_true reap_true ends_true by (auto simp: closes_def)
qed

lemma honest_step:
  assumes "\<And>r m. f r = Some m \<Longrightarrow> closes r m"
  shows "keeps (honest w0) (record_step i f)"
proof (rule keepsI)
  fix s assume h: "honest w0 s"
  show "wp (record_step i f) (\<lambda>_. honest w0) (\<lambda>_. honest w0) s"
  proof (cases "record_of (fst s) i")
    case (Some r)
    show ?thesis
    proof (cases "f r")
      case m: (Some m)
      have "wp m (\<lambda>_. truthful w0) (\<lambda>_. truthful w0) (ra_workers (fst s) ! i, snd s)" if "i < length (ra_workers (fst s))"
      proof -
        have "about w0 (wr_worker r) (wr_job r) (wr_started r) (ra_workers (fst s) ! i, snd s)"
        proof -
          have "truthful w0 (ra_workers (fst s) ! i, snd s)" using h that unfolding honest_def list_all_length by blast
          then show ?thesis using Some by (simp add: about_def record_of_def)
        qed
        moreover have "keeps (about w0 (wr_worker r) (wr_job r) (wr_started r)) m" using assms[OF m] by (simp add: closes_def)
        ultimately have "wp m (\<lambda>_. about w0 (wr_worker r) (wr_job r) (wr_started r)) (\<lambda>_. about w0 (wr_worker r) (wr_job r) (wr_started r))
            (ra_workers (fst s) ! i, snd s)" by (rule keepsD[rotated])
        then show ?thesis by (rule wp_mono) (simp_all add: about_def)
      qed
      then have "wp (on_worker i m) (\<lambda>_. honest w0) (\<lambda>_. honest w0) s"
        by (intro honest_worker[OF h]) (use assms[OF m] in \<open>simp_all add: closes_def\<close>)
      then show ?thesis using Some m by (simp add: record_step_def wp_bind wp_field tried_wp)
    qed (use Some h in \<open>simp add: record_step_def wp_bind wp_field wp_ret\<close>)
  qed (use h in \<open>simp add: record_step_def wp_bind wp_field wp_ret\<close>)
qed

lemma clean_record_honest: "keeps (honest w0) (clean_record c i)"
  unfolding clean_record_def by (intro keeps_intros honest_step) (auto split: if_splits intro: closers)

lemma cleanup_honest: "keeps (honest w0) (cleanup_resources c)"
proof -
  have q: "calls UNIV (helper_quiescent h)" "calls UNIV (clean_helper h)" for h
    unfolding helper_quiescent_def supervisor_quiescent_def clean_helper_def by (intro calls_intros all_calls; simp)+
  have h: "keeps (honest w0) (clean_helper x)" "keeps (honest w0) (all_until helper_quiescent hs)" for x hs
    by (intro honest_still all_calls all_still helpers_still q)+
  have r: "keeps (honest w0) register_all"
    unfolding register_all_def
  proof (rule honest_update)
    have "ra_workers (foldl (\<lambda>a i. register_worker i a) a xs) = ra_workers a" for a xs
      by (induction xs arbitrary: a) simp_all
    then show "ra_workers (foldl (\<lambda>a i. register_worker i a) a [0..<length (ra_workers a)]) = ra_workers a" for a .
  qed
  have "keeps (honest w0) cleanup_complete" unfolding cleanup_complete_def by (intro keeps_intros h)
  then show ?thesis unfolding cleanup_resources_def by (intro keeps_intros all_keeps clean_record_honest h r)
qed

section \<open>The run\<close>

text \<open>Every call but the release of a mutex.\<close>

abbreviation no_release :: "string set" where "no_release \<equiv> - {''ReleaseMutex''}"

definition unreleased :: "world \<Rightarrow> world \<Rightarrow> bool" where
  "unreleased w0 w \<longleftrightarrow> extends w0 w \<and> called ''ReleaseMutex'' (recent w0 w) = []"

lemma unreleased_wp:
  assumes "calls no_release m" "wp m Q E s" "unreleased w0 (snd s)"
  shows "wp m (\<lambda>x t. Q x t \<and> unreleased w0 (snd t)) (\<lambda>e t. E e t \<and> unreleased w0 (snd t)) s"
proof -
  have k: "unreleased w0 w" if "extends (snd s) w \<and> (\<forall>a \<in> set (recent (snd s) w). fst (fst a) \<in> no_release)" for w
  proof -
    have "called ''ReleaseMutex'' (recent (snd s) w) = []" using that by (auto simp: called_def filter_empty_conv)
    then show ?thesis
      using that assms(3) recent_trans[of w0 "snd s" w] extends_trans[of w0 "snd s" w] by (auto simp: unreleased_def)
  qed
  show ?thesis by (rule wp_mono[OF wp_conj[OF assms(2) calls_wp[OF assms(1)]]]) (use k in auto)
qed

text \<open>A guard that was taken is in a lease that still holds it.\<close>

definition leased :: "refresh_env \<Rightarrow> refresh \<times> refresh_vars \<Rightarrow> bool" where
  "leased e x \<longleftrightarrow> (ra_authority (fst x) \<and> ae_guard e \<noteq> None \<longrightarrow> av_lease (snd x) \<noteq> None) \<and> (\<forall>l. av_lease (snd x) = Some l \<longrightarrow> gl_owned l \<and> \<not> gl_closed l)"

definition before :: "refresh_env \<Rightarrow> (refresh \<times> refresh_vars) \<times> world \<Rightarrow> bool" where
  "before e s \<longleftrightarrow> ra_workers (fst (fst s)) = [] \<and> ra_records (fst (fst s)) = [] \<and> ra_unfinalized (fst (fst s)) = [] \<and> leased e (fst s)"

definition running :: "refresh_env \<Rightarrow> (refresh \<times> refresh_vars) \<times> world \<Rightarrow> bool" where
  "running e s \<longleftrightarrow> solo (fst (fst s)) \<and> ra_unfinalized (fst (fst s)) = [] \<and> leased e (fst s)"

lemma before_running: "before e s \<Longrightarrow> running e s"
  by (simp add: before_def running_def solo_def)

lemma acquire_owned: "wp (acquire g cf fuel api path c) (\<lambda>l t. fst t = fst s \<and> gl_owned l \<and> \<not> gl_closed l) (\<lambda>_ t. fst t = fst s) s"
proof -
  have st: "still (acquire g cf fuel api path c)"
    unfolding acquire_def guarded_def name_for_def guard_sid_def acquire_name_def safe_close_def by (intro still_intros)
  have "wp (acquire g cf fuel api path c) (\<lambda>l _. gl_owned l \<and> \<not> gl_closed l) (\<lambda>_ _. True) s"
    unfolding acquire_def guarded_def name_for_def guard_sid_def acquire_name_def safe_close_def lift_result_def
    by (simp add: wp_simps lift_result_def[symmetric] split: sum.split)
  from wp_conj[OF still_wp[OF st] this] show ?thesis by (rule wp_mono) auto
qed

lemma take_guard_wp:
  assumes "before e s"
  shows "wp (take_guard e path c) (\<lambda>_. before e) (\<lambda>_. before e) s"
proof (cases "ae_guard e")
  case (Some g)
  have "wp (acquire g (ae_casefold e) (ae_fuel e) (ae_path_api e) path c)
      (\<lambda>l. wp (andthen (set_avars (\<lambda>v. v\<lparr>av_lease := Some l\<rparr>)) (on_object (update (\<lambda>a. a\<lparr>ra_authority := True\<rparr>)))) (\<lambda>_. before e) (\<lambda>_. before e))
      (\<lambda>_. before e) (fst s, w)" for w
    by (rule wp_mono[OF acquire_owned]) (use assms in \<open>auto simp: set_avars_def wp_simps wp_within before_def leased_def split: prod.split\<close>)
  then show ?thesis
    using assms Some by (auto simp: take_guard_def wp_andthen[of "ext _"] wp_bind[of "acquire _ _ _ _ _ _"] wp_ext before_def split: sum.split)
qed (use assms in \<open>simp add: take_guard_def wp_ret\<close>)

text \<open>Methods on the local variables alone.\<close>

lemma keeps_rest [keeps_intros]:
  "keeps (before e) (ext x)" "keeps (running e) (ext x)" "keeps (before e) clock_ns" "keeps (running e) clock_ns"
  "keeps (before e) (getattr_none n args)" "keeps (running e) (not_run p r)" "keeps (before e) (not_run p r)"
  "keeps (before e) (worker_error p k)" "keeps (running e) (worker_error p k)" "keeps (running e) (document_of vs err)" "keeps (before e) (document_of vs err)"
  unfolding getattr_none_def not_run_def worker_error_def document_of_def
  by (auto simp: keeps_def before_def running_def wp_simps split: sum.split)

lemma keeps_vars:
  "(\<And>v. av_lease (f v) = av_lease v) \<Longrightarrow> keeps (before e) (set_avars f)" "(\<And>v. av_lease (f v) = av_lease v) \<Longrightarrow> keeps (running e) (set_avars f)"
  by (auto simp: keeps_def set_avars_def wp_update before_def running_def leased_def split: prod.split)

lemma keeps_view [keeps_intros]: "keeps (before e) (set_view p x)" "keeps (running e) (set_view p x)"
  unfolding set_view_def by (rule keeps_vars; simp)+

lemma codex_keeps: "keeps (before e) (read_codex_provider e g c)"
proof -
  have "keeps (before e) (on_object (update (\<lambda>a. if x \<in> set (ra_helpers a) then a else a\<lparr>ra_helpers := ra_helpers a @ [x]\<rparr>)))" for x
    by (auto simp: keeps_def before_def leased_def wp_within wp_update)
  then show ?thesis unfolding read_codex_provider_def by (intro keeps_intros)
qed

lemma worker_keeps: "keeps (running e) (on_object (on_worker i m))"
proof (rule keepsI)
  fix s assume r: "running e s"
  obtain a v w where s: "s = ((a, v), w)" by (metis prod.exhaust)
  obtain q x w' where "m (ra_workers a ! i, w) = (q, (x, w'))" by (metis prod.exhaust)
  then show "wp (on_object (on_worker i m)) (\<lambda>_. running e) (\<lambda>_. running e) s"
    using r s by (simp add: on_worker_def wp_def within_def running_def solo_def leased_def split: sum.split)
qed

lemma run_worker_wp:
  assumes "running e s" "i < length (ra_workers (fst (fst s)))"
  shows "wp (run_worker e c i) (\<lambda>_. running e) (\<lambda>_. running e) s"
proof -
  have l: "wp (on_object (on_worker i m)) (\<lambda>_ t. length (ra_workers (fst (fst t))) = length (ra_workers (fst (fst s)))) (\<lambda>_ _. True) s" for m :: "view wprog"
    by (auto simp: on_worker_def wp_def within_def split: prod.split sum.split)
  have "wp (andthen (set_view OpencodeGo x) (andthen (update (\<lambda>(a, v). (register_worker i a, v\<lparr>av_opencode := wk_result (ra_workers a ! i)\<rparr>))) (ret ())))
      (\<lambda>_. running e) (\<lambda>_. running e) t" if "running e t" "length (ra_workers (fst (fst t))) = length (ra_workers (fst (fst s)))" for x t
    using that assms(2) by (auto simp: set_view_def set_avars_def wp_simps running_def leased_def register_solo split: prod.split)
  then show ?thesis
    unfolding run_worker_def wp_bind by (rule wp_mono[OF wp_conj[OF keepsD[OF worker_keeps assms(1)] l]]) auto
qed

lemma opencode_wp:
  assumes "before e s"
  shows "wp (read_opencode_provider e g key c) (\<lambda>_. running e) (\<lambda>_. running e) s"
proof -
  have b: "wp m (\<lambda>_. running e) (\<lambda>_. running e) t" if "keeps (before e) m" "before e t" for m :: "unit avprog" and t
    by (rule wp_mono[OF keepsD[OF that]]) (auto intro: before_running)
  have late: "keeps (before e) (bind (not_run OpencodeGo ''deadline_exhausted'') (\<lambda>x. andthen (set_view OpencodeGo x)
      (bind (field (av_views \<circ> snd)) (\<lambda>vs. bind (document_of vs (Some EDeadline)) (\<lambda>d. set_avars (\<lambda>v. v\<lparr>av_result := Some d\<rparr>))))))"
    by (intro keeps_intros keeps_vars) simp
  have bad: "keeps (before e) (bind (worker_error OpencodeGo EConfiguration) (set_view OpencodeGo))"
    by (intro keeps_intros)
  have go: "wp (andthen (update (\<lambda>(a, v). (a\<lparr>ra_workers := ra_workers a @ [\<lparr>wk_record = None, wk_result = None\<rparr>]\<rparr>, v\<lparr>av_worker := Some i\<rparr>)))
      (andthen (bind (lift_result r) (\<lambda>_. ret ())) (run_worker e c i))) (\<lambda>_. running e) (\<lambda>_. running e) t"
    if "before e t" "i = length (ra_workers (fst (fst t)))" for r :: "py_exn + opencode_request" and i t
  proof -
    obtain a v w where t: "t = ((a, v), w)" by (metis prod.exhaust)
    let ?t = "((a\<lparr>ra_workers := [\<lparr>wk_record = None, wk_result = None\<rparr>]\<rparr>, v\<lparr>av_worker := Some 0\<rparr>), w)"
    have r: "running e ?t" using that t by (simp add: before_def running_def solo_def leased_def)
    show ?thesis
      using that t r run_worker_wp[OF r, of 0]
      by (simp add: wp_andthen wp_update wp_bind wp_ret before_def lift_result_def[abs_def] wp_def[of "\<lambda>s. (r, s)"] split: sum.split)
  qed
  show ?thesis
    unfolding read_opencode_provider_def wp_bind[of clock_ns]
    by (rule wp_mono[OF keepsD[OF keeps_rest(3) assms]])
      (auto simp: Let_def wp_bind[of "field _"] wp_field intro: b[OF late] b[OF bad] go before_running)
qed

lemma not_run_views_keeps [keeps_intros]: "keeps (before e) (not_run_views k r vs)" "keeps (running e) (not_run_views k r vs)"
  unfolding not_run_views_def by (intro keeps_intros)+

lemma execute_wp:
  assumes "before e s"
  shows "wp (execute e g key errors path c) (\<lambda>_. running e) (\<lambda>_. running e) s"
proof -
  have k: "keeps (before e) (if b then
          bind (field (av_views \<circ> snd)) (\<lambda>vs. bind (not_run_views errors ''deadline_exhausted'' vs) (\<lambda>ws.
          bind (document_of ws (Some EDeadline)) (\<lambda>d. set_avars (\<lambda>v. v\<lparr>av_result := Some d\<rparr>))))
        else if Codex \<in> set (enabled_providers g key errors) then read_codex_provider e g c else ret ())" for b
    by (intro keeps_intros keeps_vars codex_keeps) simp
  have o: "wp (bind (field (av_result \<circ> snd)) (\<lambda>r.
        if r = None \<and> OpencodeGo \<in> set (enabled_providers g key errors) then read_opencode_provider e g key c else ret ())) (\<lambda>_. running e) (\<lambda>_. running e) t"
    if "before e t" for t
    using opencode_wp[OF that] before_running[OF that] by (auto simp: wp_bind wp_field wp_ret)
  have d: "keeps (running e) (bind (field snd) (\<lambda>v.
        if av_result v = None then bind (document_of (av_views v) None) (\<lambda>d. set_avars (\<lambda>v. v\<lparr>av_result := Some d\<rparr>)) else ret ()))"
    by (intro keeps_intros keeps_vars) simp
  show ?thesis
    unfolding execute_def wp_andthen wp_bind[of clock_ns]
    by (rule wp_mono[OF take_guard_wp[OF assms]], rule wp_mono[OF keepsD[OF keeps_rest(3)]], assumption,
        rule wp_mono[OF keepsD[OF k]], assumption, rule wp_mono[OF o], assumption, rule keepsD[OF d])
      (auto intro: before_running)
qed

lemma failure_keeps: "keeps (running e) (handle_failure errors r)"
proof -
  have "keeps (running e) last_result_of"
    by (auto simp: keeps_def last_result_of_def wp_update running_def leased_def split: prod.split)
  then show ?thesis unfolding handle_failure_def by (intro keeps_intros keeps_vars) simp_all
qed

lemma others_calls: "calls others (run_with_deadline we c)" "calls others (take_guard e path c)"
proof -
  note ds = tried_def getattr_none_def attribute_of_def process_alive_def cleanup_seconds_def usable_seconds_def join_cleanup_def close_any_job_def job_zero_def
    job_is_closed_def job_attribute_def close_queue_def stop_process_def close_worker_job_def close_worker_queue_def close_worker_event_def reap_process_def
    set_record_def
  have steps: "calls others (close_worker_job c j)" "calls others (close_worker_queue p)" "calls others (close_worker_event v)" "calls others (reap_process c b p)" for j p v b
    by (auto simp: ds intro!: calls_intros)
  show "calls others (take_guard e path c)"
    unfolding take_guard_def acquire_def guarded_def name_for_def guard_sid_def acquire_name_def safe_close_def set_avars_def
    by (intro calls_intros) simp_all
  show "calls others (run_with_deadline we c)"
    unfolding run_with_deadline_def worker_attempt_def worker_start_def worker_contain_def worker_timeout_def worker_overdue_def worker_answer_def worker_recover_def
      last_reap_def last_event_absent_def last_queue_def last_event_def not_run_def worker_error_def set_result_def set_worker_vars_def set_record_def join_child_def
    by (auto simp: ds intro!: calls_intros steps split: received.split option.split)
qed

section \<open>The records of a run\<close>

definition outer_of :: "(refresh \<times> refresh_vars) \<times> world \<Rightarrow> refresh \<times> world" where
  "outer_of s = (fst (fst s), snd s)"

definition hon :: "world \<Rightarrow> (refresh \<times> refresh_vars) \<times> world \<Rightarrow> bool" where
  "hon w0 s \<longleftrightarrow> honest w0 (outer_of s)"

lemma hon_object: "keeps (honest w0) m \<Longrightarrow> keeps (hon w0) (on_object m)"
proof (rule keepsI)
  fix s assume m: "keeps (honest w0) m" and h: "hon w0 s"
  have "wp m (\<lambda>_. honest w0) (\<lambda>_. honest w0) (fst (fst s), snd s)" by (rule keepsD[OF m]) (use h in \<open>simp add: hon_def outer_of_def\<close>)
  then show "wp (on_object m) (\<lambda>_. hon w0) (\<lambda>_. hon w0) s"
    unfolding wp_within by (rule wp_mono) (simp_all add: hon_def outer_of_def)
qed

lemma hon_still: "calls UNIV m \<Longrightarrow> still m \<Longrightarrow> keeps (hon w0) m"
  by (rule keeps_still[where N = UNIV]) (auto simp: hon_def outer_of_def intro: honest_grows)

lemma hon_update: "(\<And>a v. ra_workers (fst (f (a, v))) = ra_workers a) \<Longrightarrow> keeps (hon w0) (update f)"
  by (auto simp: keeps_def wp_update hon_def outer_of_def honest_def)

lemma hon_basics [keeps_intros]:
  "keeps (hon w0) (ext x)" "keeps (hon w0) clock_ns" "keeps (hon w0) (getattr_none n args)" "keeps (hon w0) (not_run p r)" "keeps (hon w0) (worker_error p k)"
  "keeps (hon w0) (document_of vs err)" "keeps (hon w0) (set_avars f)" "keeps (hon w0) (not_run_views ks r vs)" "keeps (hon w0) (set_view p v)"
  "keeps (hon w0) last_result_of"
proof -
  show *: "keeps (hon w0) (ext x)" "keeps (hon w0) clock_ns" "keeps (hon w0) (getattr_none n args)" "keeps (hon w0) (not_run p r)" "keeps (hon w0) (worker_error p k)"
    "keeps (hon w0) (document_of vs err)" for p r
    unfolding not_run_def worker_error_def document_of_def by (rule hon_still; intro calls_intros still_intros; simp)+
  show v: "keeps (hon w0) (set_avars f)" for f unfolding set_avars_def by (rule hon_update) simp
  show "keeps (hon w0) (not_run_views ks r vs)" unfolding not_run_views_def by (intro keeps_intros *)
  show "keeps (hon w0) (set_view p v)" unfolding set_view_def by (rule v)
  show "keeps (hon w0) last_result_of" unfolding last_result_of_def by (rule hon_update) simp
qed

lemma guard_hon: "keeps (hon w0) (take_guard e path c)"
proof -
  have a: "keeps (hon w0) (acquire g cf fuel api path c)" for g cf fuel api
    unfolding acquire_def guarded_def name_for_def guard_sid_def acquire_name_def safe_close_def
    by (rule hon_still; intro calls_intros still_intros; simp)
  have u: "keeps (hon w0) (on_object (update (\<lambda>a. a\<lparr>ra_authority := True\<rparr>)))" by (rule hon_object[OF honest_update]) simp
  show ?thesis unfolding take_guard_def by (intro keeps_intros a u)
qed

lemma opencode_hon: "keeps (hon w0) (read_opencode_provider e g key c)"
proof -
  have late: "keeps (hon w0) (bind (not_run OpencodeGo ''deadline_exhausted'') (\<lambda>x. andthen (set_view OpencodeGo x)
      (bind (field (av_views \<circ> snd)) (\<lambda>vs. bind (document_of vs (Some EDeadline)) (\<lambda>d. set_avars (\<lambda>v. v\<lparr>av_result := Some d\<rparr>))))))"
    by (intro keeps_intros)
  have bad: "keeps (hon w0) (bind (worker_error OpencodeGo EConfiguration) (set_view OpencodeGo))" by (intro keeps_intros)
  have rest: "keeps (hon w0) (andthen (set_view OpencodeGo x)
    (andthen (update (\<lambda>(a, v). (register_worker i a, v\<lparr>av_opencode := wk_result (ra_workers a ! i)\<rparr>))) (ret ())))" for x i
    by (intro keeps_intros hon_update) simp
  have w: "wp (run_worker e c i) (\<lambda>_. hon w0) (\<lambda>_. hon w0) s" if h: "hon w0 s" and n: "wk_record (ra_workers (fst (fst s)) ! i) = None" for i s
  proof -
    have "extends w0 (snd s)" using h by (simp add: hon_def honest_def outer_of_def)
    then have "wp (run_with_deadline (ae_worker e) c) (\<lambda>_. truthful w0) (\<lambda>_. truthful w0) (ra_workers (fst (fst s)) ! i, snd s)"
      using run_true[of w0 "snd s" "ae_worker e" c "wk_result (ra_workers (fst (fst s)) ! i)"] n by (cases "ra_workers (fst (fst s)) ! i") simp
    then have "wp (on_worker i (run_with_deadline (ae_worker e) c)) (\<lambda>_. honest w0) (\<lambda>_. honest w0) (fst (fst s), snd s)"
      by (intro honest_worker) (use h calls_mono[OF others_calls(1)] in \<open>auto simp: hon_def outer_of_def\<close>)
    then have "wp (on_object (on_worker i (run_with_deadline (ae_worker e) c))) (\<lambda>_. hon w0) (\<lambda>_. hon w0) s"
      unfolding wp_within by (rule wp_mono) (simp_all add: hon_def outer_of_def)
    then show ?thesis
      unfolding run_worker_def wp_bind[of "on_object _"] by (rule wp_mono) (auto intro: keepsD[OF rest])
  qed
  have go: "wp (bind (field (length \<circ> ra_workers \<circ> fst)) (\<lambda>i.
       andthen (update (\<lambda>(a, v). (a\<lparr>ra_workers := ra_workers a @ [\<lparr>wk_record = None, wk_result = None\<rparr>]\<rparr>, v\<lparr>av_worker := Some i\<rparr>)))
      (andthen (bind (lift_result r) (\<lambda>_. ret ())) (run_worker e c i)))) (\<lambda>_. hon w0) (\<lambda>_. hon w0) s" if h: "hon w0 s" for r :: "py_exn + opencode_request" and s
  proof -
    obtain a v x where s: "s = ((a, v), x)" by (metis prod.exhaust)
    let ?s = "((a\<lparr>ra_workers := ra_workers a @ [\<lparr>wk_record = None, wk_result = None\<rparr>]\<rparr>, v\<lparr>av_worker := Some (length (ra_workers a))\<rparr>), x)"
    have n: "hon w0 ?s" using h s by (auto simp: hon_def honest_def outer_of_def truthful_def)
    then have "wp (run_worker e c (length (ra_workers a))) (\<lambda>_. hon w0) (\<lambda>_. hon w0) ?s" by (rule w) simp
    then show ?thesis
      using n s by (simp add: wp_andthen wp_update wp_bind wp_field wp_ret lift_result_def[abs_def] wp_def[of "\<lambda>s. (r, s)"] split: sum.split)
  qed
  show ?thesis
    unfolding read_opencode_provider_def
    by (rule keeps_bind[OF hon_basics(2)], rule keepsI) (auto simp: Let_def intro: keepsD[OF late] keepsD[OF bad] go)
qed

lemma execute_hon: "keeps (hon w0) (execute e g key errors path c)" "keeps (hon w0) (handle_failure errors r)"
proof -
  have x: "keeps (hon w0) (on_object (update (\<lambda>a. if x \<in> set (ra_helpers a) then a else a\<lparr>ra_helpers := ra_helpers a @ [x]\<rparr>)))" for x
    by (rule hon_object[OF honest_update]) simp
  show "keeps (hon w0) (execute e g key errors path c)"
    unfolding execute_def read_codex_provider_def by (intro keeps_intros guard_hon opencode_hon x)
  show "keeps (hon w0) (handle_failure errors r)"
    unfolding handle_failure_def by (intro keeps_intros)
qed

section \<open>The helpers of a run\<close>

text \<open>The helpers that a trace has a run of (or a look for the method that runs it).\<close>

definition runs :: "answered list \<Rightarrow> val list" where
  "runs tr = concat (map (\<lambda>a. if fst (fst a) \<in> run_names then take 1 (snd (fst a)) else []) tr)"

lemma runs_simps [simp]: "runs [] = []" "runs (tr @ tr') = runs tr @ runs tr'"
  by (simp_all add: runs_def)

lemma runs_none: "\<forall>a \<in> set tr. fst (fst a) \<in> - run_names \<Longrightarrow> runs tr = []"
  by (auto simp: runs_def)

text \<open>Every helper that ran is among the helpers of the refresh.\<close>

definition listing :: "val set \<Rightarrow> world \<Rightarrow> (refresh \<times> refresh_vars) \<times> world \<Rightarrow> bool" where
  "listing X w0 s \<longleftrightarrow> extends w0 (snd s) \<and> set (runs (recent w0 (snd s))) \<subseteq> set (ra_helpers (fst (fst s))) \<and> X \<subseteq> set (ra_helpers (fst (fst s)))"

lemma listing_step:
  assumes "calls others m" "\<And>hs. keeps (\<lambda>s. ra_helpers (fst (fst s)) = hs) m"
  shows "keeps (listing X w0) m"
proof (rule keepsI)
  fix s assume l: "listing X w0 s"
  have k: "listing X w0 t" if "ra_helpers (fst (fst t)) = ra_helpers (fst (fst s))" "extends (snd s) (snd t) \<and> (\<forall>a \<in> set (recent (snd s) (snd t)). fst (fst a) \<in> others)" for t
  proof -
    have "runs (recent (snd s) (snd t)) = []" using that(2) by (intro runs_none) blast
    then show ?thesis using that l recent_trans[of w0 "snd s" "snd t"] extends_trans[of w0 "snd s" "snd t"] by (auto simp: listing_def)
  qed
  show "wp m (\<lambda>_. listing X w0) (\<lambda>_. listing X w0) s"
    by (rule wp_mono[OF wp_conj[OF keepsD[OF assms(2) refl] calls_wp[OF assms(1)]]]) (use k in auto)
qed

lemma keeps_object:
  fixes m :: "('o, 'a) prog"
  shows "still m \<Longrightarrow> keeps (\<lambda>s. P (fst s)) m"
proof (rule keepsI)
  fix s :: "'o \<times> world" assume "still m" "P (fst s)"
  then show "wp m (\<lambda>_ s. P (fst s)) (\<lambda>_ s. P (fst s)) s" by (intro wp_mono[OF still_wp[of m s]]) simp_all
qed

lemma listing_still: "calls others m \<Longrightarrow> still m \<Longrightarrow> keeps (listing X w0) m"
  using keeps_object[where P = "\<lambda>x. ra_helpers (fst x) = hs" for hs] by (blast intro: listing_step)

text \<open>The helpers are not changed.\<close>

lemma helpers_basics:
  "keeps (\<lambda>s. ra_helpers (fst (fst s)) = hs) (set_avars f)" "keeps (\<lambda>s. ra_helpers (fst (fst s)) = hs) last_result_of"
  "keeps (\<lambda>s. ra_helpers (fst (fst s)) = hs) (on_object (update (\<lambda>a. a\<lparr>ra_authority := True\<rparr>)))"
  "keeps (\<lambda>s. ra_helpers (fst (fst s)) = hs) (on_object (on_worker i m))"
  "keeps (\<lambda>s. ra_helpers (fst (fst s)) = hs) (update (\<lambda>(a, v). (a\<lparr>ra_workers := g a\<rparr>, k a v)))"
  "keeps (\<lambda>s. ra_helpers (fst (fst s)) = hs) (update (\<lambda>(a, v). (register_worker i a, k a v)))"
  by (auto simp: keeps_def set_avars_def last_result_of_def on_worker_def wp_update wp_within split: prod.split)
    (auto simp: wp_def split: prod.split sum.split)

lemma helpers_leaves:
  "keeps (\<lambda>s. ra_helpers (fst (fst s)) = hs) (not_run p r :: view avprog)" "keeps (\<lambda>s. ra_helpers (fst (fst s)) = hs) (worker_error p z :: view avprog)"
  "keeps (\<lambda>s. ra_helpers (fst (fst s)) = hs) (document_of vs err :: document avprog)" "keeps (\<lambda>s. ra_helpers (fst (fst s)) = hs) (ext x :: val avprog)"
  "keeps (\<lambda>s. ra_helpers (fst (fst s)) = hs) (clock_ns :: int avprog)" "keeps (\<lambda>s. ra_helpers (fst (fst s)) = hs) (acquire g cf fuel api path c :: guard_lease avprog)"
proof -
  note st = keeps_object[where P = "\<lambda>x. ra_helpers (fst x) = hs"]
  show "keeps (\<lambda>s. ra_helpers (fst (fst s)) = hs) (not_run p r :: view avprog)" "keeps (\<lambda>s. ra_helpers (fst (fst s)) = hs) (worker_error p z :: view avprog)"
    "keeps (\<lambda>s. ra_helpers (fst (fst s)) = hs) (document_of vs err :: document avprog)" "keeps (\<lambda>s. ra_helpers (fst (fst s)) = hs) (ext x :: val avprog)"
    "keeps (\<lambda>s. ra_helpers (fst (fst s)) = hs) (clock_ns :: int avprog)"
    unfolding not_run_def worker_error_def document_of_def by (intro st still_intros)+
  show "keeps (\<lambda>s. ra_helpers (fst (fst s)) = hs) (acquire g cf fuel api path c :: guard_lease avprog)"
    unfolding acquire_def guarded_def name_for_def guard_sid_def acquire_name_def safe_close_def by (intro st still_intros)
qed

lemma quiet_parts:
  "keeps (listing X w0) (take_guard e path c)" "keeps (listing X w0) (read_opencode_provider e g key c)" "keeps (listing X w0) (handle_failure errors r)"
proof -
  show "keeps (listing X w0) (take_guard e path c)"
    by (rule listing_step[OF others_calls(2)]) (auto simp: take_guard_def intro!: keeps_intros helpers_basics helpers_leaves)
  have "calls others (read_opencode_provider e g key c)"
    unfolding read_opencode_provider_def run_worker_def on_worker_def set_view_def set_avars_def document_of_def not_run_def worker_error_def Let_def
    by (intro calls_intros others_calls) simp_all
  then show "keeps (listing X w0) (read_opencode_provider e g key c)"
    by (rule listing_step) (auto simp: read_opencode_provider_def run_worker_def set_view_def intro!: keeps_intros helpers_basics helpers_leaves)
  have "calls others (handle_failure errors r)"
    unfolding handle_failure_def set_avars_def document_of_def not_run_views_def not_run_def last_result_of_def by (intro calls_intros)
  then show "keeps (listing X w0) (handle_failure errors r)"
    by (rule listing_step) (auto simp: handle_failure_def not_run_views_def intro!: keeps_intros helpers_basics helpers_leaves)
qed

lemma codex_listing: "keeps (listing {} w0) (read_codex_provider e g c)"
proof -
  have v: "keeps (listing X w0) (set_view p y)" "keeps (listing X w0) (worker_error p k)" for X p y k
    unfolding set_view_def by (rule listing_step[OF _ helpers_basics(1)], simp add: set_avars_def calls_intros)
      (rule listing_still, auto simp: worker_error_def intro!: calls_intros still_intros)
  have c: "keeps (listing X w0) (ext (''CodexHelperExecutor'', []))" for X
    by (rule listing_still) (auto intro!: calls_intros still_intros)
  have x: "keeps (listing {x} w0) (ext (n, x # ys))" for x n ys
    by (auto simp: keeps_def wp_ext listing_def runs_def split: sum.split)
  have add: "wp (on_object (update (\<lambda>a. if x \<in> set (ra_helpers a) then a else a\<lparr>ra_helpers := ra_helpers a @ [x]\<rparr>))) (\<lambda>_. listing {x} w0) (\<lambda>_ _. False) s"
    if "listing {} w0 s" for x s
    using that by (auto simp: listing_def wp_within wp_update)
  have rest: "keeps (listing {x} w0) (bind (getattr_none ''run_with_deadline'' [x]) (\<lambda>run.
     case cx_runner (lc_codex g) of
       None \<Rightarrow> bind (worker_error Codex EConfiguration) (set_view Codex)
     | Some r \<Rightarrow>
         if r = [] then bind (worker_error Codex EConfiguration) (set_view Codex)
         else bind (ext ((if run \<noteq> VNone then ''run_with_deadline'' else ''run''), [x, VStr r, VStr (u ''app-server'')]))
                (\<lambda>v. set_view Codex (ae_view e v))))" for x
    unfolding getattr_none_def by (intro keeps_intros v x)
  have weak: "listing {x} w0 s \<Longrightarrow> listing {} w0 s" for x s by (simp add: listing_def)
  show ?thesis
    unfolding read_codex_provider_def
  proof (rule keeps_bind)
    show "keeps (listing {} w0) (case ae_codex e of None \<Rightarrow> ext (''CodexHelperExecutor'', []) | Some x \<Rightarrow> ret x)" by (intro keeps_intros c)
    fix x
    show "keeps (listing {} w0) (andthen (on_object (update (\<lambda>a. if x \<in> set (ra_helpers a) then a else a\<lparr>ra_helpers := ra_helpers a @ [x]\<rparr>)))
        (bind (getattr_none ''run_with_deadline'' [x]) (\<lambda>run.
     case cx_runner (lc_codex g) of
       None \<Rightarrow> bind (worker_error Codex EConfiguration) (set_view Codex)
     | Some r \<Rightarrow>
         if r = [] then bind (worker_error Codex EConfiguration) (set_view Codex)
         else bind (ext ((if run \<noteq> VNone then ''run_with_deadline'' else ''run''), [x, VStr r, VStr (u ''app-server'')]))
                (\<lambda>v. set_view Codex (ae_view e v)))))"
    proof (rule keepsI, unfold wp_andthen, rule wp_mono[OF add], assumption, goal_cases)
      case (1 s y t)
      show ?case by (rule wp_mono[OF keepsD[OF rest 1(2)]]) (simp_all add: weak)
    qed simp
  qed
qed

lemma execute_listing: "keeps (listing {} w0) (execute e g key errors path c)"
proof -
  have l: "keeps (listing {} w0) (clock_ns)" "keeps (listing {} w0) (document_of vs err)" "keeps (listing {} w0) (not_run_views ks r vs)" for vs err ks r
    unfolding document_of_def not_run_views_def not_run_def by (rule listing_still; auto intro!: calls_intros still_intros)+
  have v: "keeps (listing {} w0) (set_avars f)" for f
    by (rule listing_step[OF _ helpers_basics(1)]) (simp add: set_avars_def calls_intros)
  show ?thesis unfolding execute_def by (intro keeps_intros quiet_parts codex_listing l v)
qed

section \<open>What a run leaves\<close>

text \<open>The helpers of a trace are quiet: after the last run of one, every helper that ran said that it is quiet, and its supervisor
  that it is closed.\<close>

definition quiet_at :: "answered list \<Rightarrow> bool" where
  "quiet_at tr \<longleftrightarrow> (\<exists>tb tc. tr = tb @ tc \<and> runs tc = [] \<and> list_all (\<lambda>x. helper_seen_quiet x tc) (runs tb))"

lemma quiet_later: "quiet_at tr \<Longrightarrow> runs tr' = [] \<Longrightarrow> quiet_at (tr @ tr')"
proof -
  assume "quiet_at tr" and r: "runs tr' = []"
  then obtain tb tc where t: "tr = tb @ tc" "runs tc = []" "list_all (\<lambda>x. helper_seen_quiet x tc) (runs tb)" by (auto simp: quiet_at_def)
  then have "tr @ tr' = tb @ (tc @ tr') \<and> runs (tc @ tr') = [] \<and> list_all (\<lambda>x. helper_seen_quiet x (tc @ tr')) (runs tb)"
    using r by (auto simp: list_all_iff intro: seen_append)
  then show ?thesis unfolding quiet_at_def by blast
qed

lemma quiet_earlier: "quiet_at tr \<Longrightarrow> runs tr0 = [] \<Longrightarrow> quiet_at (tr0 @ tr)"
  unfolding quiet_at_def by (metis append.assoc append.left_neutral runs_simps(2))

text \<open>What follows the body of a run. The mutex was released only after every resource of every worker was seen gone and every helper
  quiet, and no helper ran afterwards. A guard that was taken is still in a lease that is kept, or it was given back: the
  system confirmed the release, and its handle is closed or in a lease that is kept. And either nothing is left, or the document
  says that the cleanup failed.\<close>

definition all_gone :: "world \<Rightarrow> refresh \<Rightarrow> world \<Rightarrow> bool" where
  "all_gone w0 a w1 \<longleftrightarrow> settled a \<and> honest w0 (a, w1) \<and> quiet_at (recent w0 w1)"

definition released_settled :: "world \<Rightarrow> refresh \<times> world \<Rightarrow> bool" where
  "released_settled w0 t \<longleftrightarrow> called ''ReleaseMutex'' (recent w0 (snd t)) = []
     \<or> (\<exists>w1. unreleased w0 w1 \<and> extends w1 (snd t) \<and> all_gone w0 (fst t) w1 \<and> runs (recent w1 (snd t)) = [])"

definition given_back :: "world \<Rightarrow> val \<Rightarrow> guard_lease list \<Rightarrow> world \<Rightarrow> bool" where
  "given_back w0 h ls w \<longleftrightarrow> (\<exists>l \<in> set ls. gl_handle l = h \<and> gl_owned l)
     \<or> since w0 w ''ReleaseMutex'' [h] truthy \<and> ((\<exists>l \<in> set ls. gl_handle l = h) \<or> since w0 w ''CloseHandle'' [h] truthy)"

definition lease_kept :: "refresh_env \<Rightarrow> world \<Rightarrow> refresh \<times> world \<Rightarrow> bool" where
  "lease_kept e w0 t \<longleftrightarrow> (if ra_authority (fst t) \<and> ae_guard e \<noteq> None then (\<exists>h. given_back w0 h (ra_unfinalized (fst t)) (snd t)) else True)"

definition tidy :: "world \<Rightarrow> refresh \<times> world \<Rightarrow> bool" where
  "tidy w0 t \<longleftrightarrow> settled (fst t) \<and> ra_unfinalized (fst t) = [] \<and> quiet_at (recent w0 (snd t))"

definition held_to :: "refresh_env \<Rightarrow> world \<Rightarrow> (refresh \<times> refresh_vars) \<times> world \<Rightarrow> bool" where
  "held_to e w0 s \<longleftrightarrow> released_settled w0 (outer_of s) \<and> lease_kept e w0 (outer_of s)"

definition finished :: "refresh_env \<Rightarrow> world \<Rightarrow> (refresh \<times> refresh_vars) \<times> world \<Rightarrow> bool" where
  "finished e w0 s \<longleftrightarrow> held_to e w0 s \<and>
     (tidy w0 (outer_of s) \<or> (\<exists>d. av_result (snd (fst s)) = Some d \<and> d_error d = Some ECleanup))"

lemma document_error: "wp (document_of vs err) (\<lambda>d t. d_error d = err \<and> t = s) (\<lambda>_ t. t = s) s"
  by (auto simp: document_of_def wp_simps ordered_def mk_document_def split: sum.split if_splits)

text \<open>What releasing the lease of a run does to it.\<close>

definition released_lease :: "guard_lease \<Rightarrow> world \<Rightarrow> bool \<Rightarrow> guard_lease \<Rightarrow> world \<Rightarrow> bool" where
  "released_lease l w ok l' w' \<longleftrightarrow> gl_handle l' = gl_handle l
     \<and> (gl_owned l' \<or> since w w' ''ReleaseMutex'' [gl_handle l] truthy)
     \<and> (ok \<longrightarrow> since w w' ''ReleaseMutex'' [gl_handle l] truthy \<and> since w w' ''CloseHandle'' [gl_handle l] truthy)"

lemma release_lease_wp: "wp release_provider_lease
   (\<lambda>ok t. extends w (snd t) \<and> runs (recent w (snd t)) = [] \<and> (gl_owned l \<and> \<not> gl_closed l \<longrightarrow> released_lease l w ok (fst t) (snd t))) (\<lambda>_ _. False) (l, w)"
  unfolding release_provider_lease_def lease_release_def lease_close_def released_lease_def
  by (auto simp: wp_simps runs_def split: sum.split)

lemma give_back_wp:
  assumes "\<And>l. av_lease v = Some l \<Longrightarrow> gl_owned l \<and> \<not> gl_closed l"
  shows "wp give_back (\<lambda>ok t. fst (fst t) = a \<and> extends w (snd t) \<and> runs (recent w (snd t)) = [] \<and> av_result (snd (fst t)) = av_result v
     \<and> (case av_lease v of None \<Rightarrow> ok \<and> snd t = w \<and> av_lease (snd (fst t)) = None
        | Some l \<Rightarrow> (\<exists>l'. av_lease (snd (fst t)) = Some l' \<and> released_lease l w ok l' (snd t)))) (\<lambda>_ _. False) ((a, v), w)"
proof (cases "av_lease v")
  case None
  then show ?thesis by (simp add: give_back_def wp_simps)
next
  case (Some l)
  show ?thesis
    using Some assms[of l] wp_mono[OF release_lease_wp[of w l], of
        "\<lambda>ok t. extends w (snd t) \<and> runs (recent w (snd t)) = [] \<and> released_lease l w ok (fst t) (snd t)" "\<lambda>_ _. False"]
    by (simp add: give_back_def wp_bind[of "field _"] wp_field on_value_def wp_bind[of "with_local _ _"] wp_with_local wp_bind[of "on_local _"] wp_within split_def
        wp_bind[of "field snd"] wp_ret wp_andthen set_avars_def wp_update)
qed

text \<open>The start of the \<open>finally\<close> block.\<close>

definition settling :: "refresh_env \<Rightarrow> world \<Rightarrow> (refresh \<times> refresh_vars) \<times> world \<Rightarrow> bool" where
  "settling e w0 s \<longleftrightarrow> running e s \<and> unreleased w0 (snd s) \<and> hon w0 s \<and> listing {} w0 s"

text \<open>A cleanup that answers yes leaves nothing.\<close>

lemma cleanup_gone:
  assumes "settling e w0 ((a, v), w)"
  shows "wp (cleanup_resources c) (\<lambda>ok t. cleaned_from a ok (fst t) \<and> unreleased w0 (snd t) \<and> (ok \<longrightarrow> all_gone w0 (fst t) (snd t))) (\<lambda>_ _. False) (a, w)"
proof -
  note s = assms[unfolded settling_def]
  have so: "solo (fst (a, w))" using s by (simp add: running_def)
  have h: "honest w0 (a, w)" using s by (simp add: hon_def outer_of_def)
  have un: "unreleased w0 (snd (a, w))" using s by simp
  have k: "quiet_at (recent w0 w')" if "quiet_since (ra_helpers a) w w'" "\<forall>x \<in> set (recent w w'). fst (fst x) \<in> others" for w'
  proof -
    have "recent w0 w' = recent w0 w @ recent w w'" using that(1) s recent_trans[of w0 w w'] by (simp add: quiet_since_def unreleased_def)
    moreover have "runs (recent w w') = []" using that(2) by (intro runs_none) blast
    moreover have "list_all (\<lambda>x. helper_seen_quiet x (recent w w')) (runs (recent w0 w))"
      using that(1) s by (auto simp: quiet_since_def listing_def list_all_iff)
    ultimately show ?thesis unfolding quiet_at_def by blast
  qed
  have r: "calls no_release (cleanup_resources c)" by (rule calls_mono[OF cleanup_calls]) blast
  show ?thesis
    by (rule wp_mono[OF wp_conj[OF unreleased_wp[OF r cleanup_wp[OF so] un] wp_conj[OF keepsD[OF cleanup_honest h] calls_wp[OF cleanup_calls]]]])
      (use k in \<open>auto simp: cleaned_from_def all_gone_def\<close>)
qed

lemma settle_wp:
  assumes u: "settling e w0 s"
  shows "wp (settle c) (\<lambda>_. finished e w0) (\<lambda>_. held_to e w0) s"
proof -
  obtain a v w where s: "s = ((a, v), w)" by (metis prod.exhaust)
  have so: "ra_unfinalized a = []" "leased e (a, v)" using u s by (auto simp: settling_def running_def)
  let ?tail = "\<lambda>safe released. andthen (if released then ret () else update (\<lambda>(a, v). (keep_lease v a, v)))
     (if safe \<and> released then on_object (update (\<lambda>a. a\<lparr>ra_records := [], ra_helpers := []\<rparr>))
      else
        bind (field snd) (\<lambda>v.
        bind (document_of (case av_result v of None \<Rightarrow> av_views v | Some d \<Rightarrow> view_of d (av_views v)) (Some ECleanup)) (\<lambda>d.
        set_avars (\<lambda>v. v\<lparr>av_result := Some d\<rparr>))))"
  have doc: "wp (bind (field snd) (\<lambda>v. bind (document_of (case av_result v of None \<Rightarrow> av_views v | Some d \<Rightarrow> view_of d (av_views v)) (Some ECleanup)) (\<lambda>d.
        set_avars (\<lambda>v. v\<lparr>av_result := Some d\<rparr>)))) (\<lambda>_. finished e w0) (\<lambda>_. held_to e w0) t" if "held_to e w0 t" for t
    unfolding wp_bind wp_field
    by (rule wp_mono[OF document_error]) (use that in \<open>auto simp: set_avars_def wp_update finished_def held_to_def outer_of_def split: prod.split\<close>)
  have kept: "ra_workers (keep_lease v' b) = ra_workers b" "av_lease v' = Some l \<Longrightarrow> l \<in> set (ra_unfinalized (keep_lease v' b))"
      "ra_authority (keep_lease v' b) = ra_authority b" for v' b l
    by (auto simp: keep_lease_def split: option.split)
  have gone: "all_gone w0 b w' \<Longrightarrow> ra_workers b' = ra_workers b \<Longrightarrow> all_gone w0 b' w'" for b b' w'
    by (simp add: all_gone_def settled_def honest_def)
  have yes: "wp (bind give_back (?tail True)) (\<lambda>_. finished e w0) (\<lambda>_. held_to e w0) ((b, v), w')"
    if b: "cleaned_from a True b" "unreleased w0 w'" "all_gone w0 b w'" for b w'
    unfolding wp_bind
  proof (rule wp_mono[OF give_back_wp], goal_cases)
    case (1 l)
    then show ?case using so by (simp add: leased_def)
  next
    case (2 ok t)
    obtain v' w'' where t: "t = ((b, v'), w'')" using 2 by (metis prod.collapse)
    have x: "extends w' w''" "runs (recent w' w'') = []" using 2 t by auto
    have w: "extends w0 w'" using b(2) by (simp add: unreleased_def)
    have rel: "released_settled w0 (b', w'')" if "ra_workers b' = ra_workers b" for b'
      using b(2) x gone[OF b(3) that] by (auto simp: released_settled_def)
    have lk: "lease_kept e w0 (if ok then b else keep_lease v' b, w'')"
    proof (cases "av_lease v")
      case None
      then show ?thesis using b(1) so kept(3)[of v' b] by (auto simp: lease_kept_def cleaned_from_def leased_def)
    next
      case (Some l)
      then obtain l' where l: "av_lease v' = Some l'" "released_lease l w' ok l' w''" using 2 t by auto
      have "given_back w0 (gl_handle l) (ra_unfinalized (if ok then b else keep_lease v' b)) w''"
        using l kept(2)[OF l(1), of b] since_earlier[OF _ w x(1)] by (auto simp: released_lease_def given_back_def)
      then show ?thesis by (auto simp: lease_kept_def)
    qed
    have h: "held_to e w0 ((if ok then b else keep_lease v' b, v'), w'')"
      using rel lk kept(1)[of v' b] by (simp add: held_to_def outer_of_def)
    show ?case
    proof (cases ok)
      case True
      have "quiet_at (recent w0 w'')" using b(3) x w recent_trans[of w0 w' w''] quiet_later by (simp add: all_gone_def)
      then have "tidy w0 (b, w'')" using b so by (simp add: tidy_def all_gone_def cleaned_from_def)
      then show ?thesis
        using True h t rel[of "b\<lparr>ra_records := [], ra_helpers := []\<rparr>"]
        by (auto simp: wp_simps wp_within finished_def held_to_def outer_of_def lease_kept_def tidy_def settled_def)
    next
      case False
      then show ?thesis using doc h t by (simp add: wp_andthen wp_update)
    qed
  qed simp
  have no: "wp (bind (field (\<lambda>(a, v). av_lease v = None)) (?tail False)) (\<lambda>_. finished e w0) (\<lambda>_. held_to e w0) ((b, v), w')"
    if b: "cleaned_from a False b" "unreleased w0 w'" for b w'
  proof -
    have "lease_kept e w0 (if av_lease v = None then b else keep_lease v b, w')"
    proof (cases "av_lease v")
      case None
      then show ?thesis using b(1) so by (auto simp: lease_kept_def cleaned_from_def leased_def)
    next
      case (Some l)
      then have "given_back w0 (gl_handle l) (ra_unfinalized (keep_lease v b)) w'"
        using kept(2)[OF Some, of b] so by (auto simp: given_back_def leased_def)
      then show ?thesis using Some by (auto simp: lease_kept_def)
    qed
    then have "held_to e w0 ((if av_lease v = None then b else keep_lease v b, v), w')"
      using b(2) by (simp add: held_to_def outer_of_def released_settled_def unreleased_def)
    then show ?thesis using doc by (auto simp: wp_bind[of "field _"] wp_field wp_andthen wp_ret wp_update)
  qed
  show ?thesis
    unfolding settle_def wp_bind[of "on_object _"] wp_within s
  proof (simp only: fst_conv snd_conv, rule wp_mono[OF cleanup_gone[OF u[unfolded s]]], goal_cases)
    case (1 ok t)
    then show ?case using yes[of "fst t" "snd t"] no[of "fst t" "snd t"] by (cases ok) simp_all
  qed simp
qed

lemma body_calls: "calls no_release (bind (outcome (execute e g key errors path c)) (handle_failure errors))"
proof -
  have o: "calls no_release m" if "calls others m" for m :: "('o, 'x) prog" by (rule calls_mono[OF that]) blast
  show ?thesis
    unfolding execute_def handle_failure_def read_codex_provider_def read_opencode_provider_def run_worker_def on_worker_def set_view_def set_avars_def
      document_of_def not_run_views_def not_run_def worker_error_def getattr_none_def last_result_of_def Let_def
    by (intro calls_intros o[OF others_calls(1)] o[OF others_calls(2)]) simp_all
qed

lemma finish_run_wp:
  assumes "finished e w0 s"
  shows "wp (finish_run err) (\<lambda>d t. held_to e w0 t \<and> (d_error d = Some ECleanup \<or> tidy w0 (outer_of t))) (\<lambda>_. held_to e w0) s"
proof -
  obtain a v w where s: "s = ((a, v), w)" by (metis prod.exhaust)
  have g: "all_gone w0 (a\<lparr>ra_last := x\<rparr>) w1 = all_gone w0 a w1" for x w1 by (simp add: all_gone_def settled_def honest_def)
  have l: "held_to e w0 ((a\<lparr>ra_last := x\<rparr>, v'), w)" "tidy w0 (a\<lparr>ra_last := x\<rparr>, w) = tidy w0 (a, w)" for x v'
    using assms s by (auto simp: finished_def held_to_def outer_of_def released_settled_def lease_kept_def settled_def tidy_def g)
  have h: "held_to e w0 s" using assms by (simp add: finished_def)
  have "wp (case av_result v of Some d \<Rightarrow> ret d | None \<Rightarrow> document_of (av_views v) (Some EGuardAcquisition))
      (\<lambda>d t. t = s \<and> (d_error d = Some ECleanup \<or> tidy w0 (a, w))) (\<lambda>_ t. t = s) s"
  proof (cases "av_result v")
    case None
    then have "tidy w0 (a, w)" using assms s by (simp add: finished_def outer_of_def)
    then show ?thesis using None by (auto intro: wp_mono[OF document_error])
  next
    case (Some d)
    then show ?thesis using assms s by (auto simp: finished_def outer_of_def wp_ret)
  qed
  note k = this
  show ?thesis
  proof (cases err)
    case None
    show ?thesis
      unfolding finish_run_def None option.case wp_bind[of "field _"] wp_field s fst_conv snd_conv wp_bind
      using k unfolding s
      by (elim wp_mono) (use l h s in \<open>auto simp: wp_andthen wp_within wp_update wp_ret outer_of_def\<close>)
  qed (use h in \<open>simp add: finish_run_def wp_fail\<close>)
qed

definition run_leaves :: "refresh_env \<Rightarrow> world \<Rightarrow> document option \<Rightarrow> refresh \<times> world \<Rightarrow> bool" where
  "run_leaves e w0 d t \<longleftrightarrow> released_settled w0 t \<and> lease_kept e w0 t
     \<and> (case d of None \<Rightarrow> True | Some d \<Rightarrow> d_error d = Some ECleanup \<or> tidy w0 t)"

lemma provider_run_wp:
  assumes "ra_workers a = []" "ra_records a = []" "ra_unfinalized a = []"
  shows "wp (provider_run e g key errors path c vs) (\<lambda>d. run_leaves e w (Some d)) (\<lambda>_. run_leaves e w None) (a, w)"
proof -
  let ?s = "((a\<lparr>ra_authority := (ae_guard e = None)\<rparr>, \<lparr>av_views = vs, av_lease = None, av_result = None, av_opencode = None, av_worker = None\<rparr>), w)"
  let ?body = "bind (outcome (execute e g key errors path c)) (handle_failure errors)"
  have b: "before e ?s" using assms by (cases "ae_guard e") (simp_all add: before_def leased_def)
  have body: "wp ?body (\<lambda>_. running e) (\<lambda>_. running e) ?s"
    unfolding wp_bind wp_outcome by (rule wp_mono[OF execute_wp[OF b]]; rule keepsD[OF failure_keeps]; assumption)
  have h: "hon w ?s" "listing {} w ?s" "unreleased w (snd ?s)"
    using assms by (simp_all add: hon_def honest_def outer_of_def listing_def unreleased_def)
  have kh: "keeps (hon w) ?body" and kl: "keeps (listing {} w) ?body"
    by (intro keeps_intros execute_hon execute_listing quiet_parts)+
  have "wp ?body (\<lambda>_. settling e w) (\<lambda>_. settling e w) ?s"
    by (rule wp_mono[OF wp_conj[OF unreleased_wp[OF body_calls body h(3)] wp_conj[OF keepsD[OF kh h(1)] keepsD[OF kl h(2)]]]])
      (auto simp: settling_def)
  then have "wp (ensure ?body (settle c)) (\<lambda>_. finished e w) (\<lambda>_. held_to e w) ?s"
    unfolding wp_ensure by (elim wp_mono) (auto intro: settle_wp wp_mono[OF settle_wp] simp: finished_def)
  then have "wp (bind (ensure ?body (settle c)) finish_run) (\<lambda>d t. held_to e w t \<and> (d_error d = Some ECleanup \<or> tidy w (outer_of t))) (\<lambda>_. held_to e w) ?s"
    unfolding wp_bind[of "ensure _ _"] by (elim wp_mono) (auto intro: finish_run_wp)
  then show ?thesis
    unfolding provider_run_def wp_andthen wp_update wp_with_local fst_conv snd_conv
    by (elim wp_mono) (auto simp: held_to_def run_leaves_def outer_of_def)
qed

lemma refresh_run_wp: "wp (refresh_run e g key errors path c) (\<lambda>d. run_leaves e w (Some d)) (\<lambda>_. run_leaves e w None) (new_refresh, w)"
proof -
  have f: "run_leaves e w d (new_refresh\<lparr>ra_last := x\<rparr>, w)" for d x
    by (auto simp: run_leaves_def released_settled_def lease_kept_def tidy_def settled_def quiet_at_def new_refresh_def split: option.split)
  have i: "wp (initial_views errors) (\<lambda>_ t. t = s) (\<lambda>_ t. t = s) s" for s :: "refresh \<times> world"
    by (auto simp: initial_views_def not_run_def worker_error_def wp_simps split: sum.split)
  have p: "wp (plain_document vs None) (\<lambda>d. run_leaves e w (Some d)) (\<lambda>_. run_leaves e w None) (new_refresh\<lparr>ra_last := x\<rparr>, w)" for vs x
    unfolding plain_document_def wp_bind by (rule wp_mono[OF document_error]) (use f in \<open>auto simp: wp_simps\<close>)
  have r: "wp (provider_run e g key errors path c vs) (\<lambda>d. run_leaves e w (Some d)) (\<lambda>_. run_leaves e w None) (new_refresh\<lparr>ra_last := x\<rparr>, w)" for vs x
    by (rule provider_run_wp) (simp_all add: new_refresh_def)
  have n: "new_refresh\<lparr>ra_last := None, ra_records := [], ra_helpers := []\<rparr> = new_refresh\<lparr>ra_last := None\<rparr>" "\<not> has_resources (new_refresh\<lparr>ra_last := None\<rparr>)"
      "ra_unfinalized (new_refresh\<lparr>ra_last := None\<rparr>) = []"
    by (simp_all add: new_refresh_def has_resources_def)
  show ?thesis
    unfolding refresh_run_def wp_andthen[of "update _"] wp_update wp_bind[of "initial_views _"] fst_conv snd_conv
    by (rule wp_mono[OF i]) (use p r n f in \<open>auto simp: wp_bind wp_field wp_ret wp_andthen wp_update\<close>)
qed


lemma settle_hon: "keeps (hon w0) (settle c)" "keeps (hon w0) (finish_run err)"
proof -
  have v: "keeps (hon w0) (on_value l release_provider_lease)" for l
  proof (rule hon_still)
    show "calls UNIV (on_value l release_provider_lease :: (refresh \<times> refresh_vars, _) prog)"
      unfolding on_value_def release_provider_lease_def lease_release_def lease_close_def by (intro calls_intros; simp)
    show "still (on_value l release_provider_lease :: (refresh \<times> refresh_vars, _) prog)"
      by (auto simp: still_def on_value_def with_local_def bind_def within_def field_def ret_def split: prod.split sum.split)
  qed
  have b: "keeps (hon w0) give_back" unfolding give_back_def by (intro keeps_intros v)
  have k: "ra_workers (keep_lease v a) = ra_workers a" for v a by (simp add: keep_lease_def split: option.split)
  have u: "keeps (hon w0) (update (\<lambda>(a, v). (keep_lease v a, v)))" by (rule hon_update) (simp add: k)
  have o: "keeps (hon w0) (on_object (update f))" if "\<And>a. ra_workers (f a) = ra_workers a" for f by (rule hon_object[OF honest_update[OF that]])
  show "keeps (hon w0) (settle c)"
    unfolding settle_def by (intro keeps_intros hon_object[OF cleanup_honest] b u o) simp
  show "keeps (hon w0) (finish_run err)" unfolding finish_run_def by (intro keeps_intros o) simp
qed

lemma provider_run_honest: "keeps (honest w0) (provider_run e g key errors path c vs)"
proof -
  have l: "keeps (honest w0) (with_local v m)" if m: "keeps (hon w0) m" for v and m :: "document avprog"
  proof (rule keepsI)
    fix s assume "honest w0 s"
    then have "hon w0 ((fst s, v), snd s)" by (simp add: hon_def outer_of_def)
    from keepsD[OF m this] show "wp (with_local v m) (\<lambda>_. honest w0) (\<lambda>_. honest w0) s"
      unfolding wp_with_local by (rule wp_mono) (simp_all add: hon_def outer_of_def)
  qed
  show ?thesis
    unfolding provider_run_def by (intro keeps_andthen honest_update l keeps_intros execute_hon settle_hon) simp
qed

lemma refresh_honest: "wp (refresh_run e g key errors path c) (\<lambda>_. honest w) (\<lambda>_. honest w) (new_refresh, w)"
proof -
  have b: "keeps (honest w) (not_run p r)" "keeps (honest w) (worker_error p k)" "keeps (honest w) (document_of vs err)" for p r k vs err
    unfolding not_run_def worker_error_def document_of_def by (rule honest_still; intro calls_intros still_intros; simp)+
  have u: "keeps (honest w) (update (\<lambda>a. a\<lparr>ra_last := x\<rparr>))" "keeps (honest w) (update (\<lambda>a. a\<lparr>ra_records := [], ra_helpers := []\<rparr>))"
      "keeps (honest w) (update (\<lambda>a. a\<lparr>ra_unfinalized := y\<rparr>))" for x y
    by (rule honest_update; simp)+
  have r: "calls UNIV (retry_leases ls :: (refresh, _) prog)" "still (retry_leases ls :: (refresh, _) prog)" for ls
  proof (induction ls)
    case (Cons l ls)
    have "calls UNIV (on_value l release_provider_lease :: (refresh, _) prog)" "still (on_value l release_provider_lease :: (refresh, _) prog)"
      unfolding on_value_def release_provider_lease_def lease_release_def lease_close_def
      by (intro calls_intros; simp) (auto simp: still_def with_local_def bind_def within_def field_def ret_def split: prod.split sum.split)
    then show "calls UNIV (retry_leases (l # ls) :: (refresh, _) prog)" "still (retry_leases (l # ls) :: (refresh, _) prog)"
      using Cons by (auto intro!: calls_intros still_intros)
  qed (simp_all add: calls_intros still_intros)
  have "keeps (honest w) (refresh_run e g key errors path c)"
    unfolding refresh_run_def initial_views_def plain_document_def retry_unfinalized_leases_def
    by (intro keeps_intros b u cleanup_honest provider_run_honest honest_still r)
  then show ?thesis by (rule keepsD) (simp add: honest_def new_refresh_def)
qed

lemma wp_true: "wp m (\<lambda>_ _. True) (\<lambda>_ _. True) s"
  by (auto simp: wp_def split: prod.split sum.split)

text \<open>The orchestrator cleans up after the attempt that came before: no helper is run by that.\<close>

lemma previous_calls: "calls (- run_names) (previous_cleaned c)"
proof -
  have r: "calls (- run_names) (on_value l release_provider_lease :: (refresh, _) prog)" for l
    unfolding on_value_def release_provider_lease_def lease_release_def lease_close_def by (intro calls_intros) simp_all
  have "calls (- run_names) (retry_leases ls :: (refresh, _) prog)" for ls
    by (induction ls) (auto intro!: calls_intros r)
  moreover have "calls (- run_names) (cleanup_resources c)" by (rule calls_mono[OF cleanup_calls]) blast
  ultimately show ?thesis
    unfolding previous_cleaned_def on_attempt_def retry_unfinalized_leases_def by (intro calls_intros)
qed

text \<open>The attempt that the orchestrator is left with.\<close>

definition attempt_tidy :: "world \<Rightarrow> orchestrator \<times> world \<Rightarrow> bool" where
  "attempt_tidy w t \<longleftrightarrow> (case eo_attempt (fst t) of None \<Rightarrow> False | Some a \<Rightarrow> tidy w (a, snd t))"

lemma orchestrator_run_wp:
  "wp (orchestrator_run e g key errors path c) (\<lambda>d t. d_error d = Some ECleanup \<or> attempt_tidy w t) (\<lambda>_ _. True) (x, w)"
proof -
  have r: "wp (bind (on_attempt (refresh_run e g key errors path c)) (\<lambda>d. andthen (update (\<lambda>x. x\<lparr>eo_last := Option.bind (eo_attempt x) ra_last\<rparr>)) (ret d)))
      (\<lambda>d t. d_error d = Some ECleanup \<or> attempt_tidy w t) (\<lambda>_ _. True) (x\<lparr>eo_attempt := Some new_refresh\<rparr>, w')"
    if w: "extends w w'" "runs (recent w w') = []" for x w'
  proof -
    have q: "tidy w (a, w'')" if "tidy w' (a, w'')" "extends w' w''" for a w''
      using that w quiet_earlier[of "recent w' w''" "recent w w'"] recent_trans[of w w' w''] by (simp add: tidy_def)
    have "wp (refresh_run e g key errors path c) (\<lambda>d t. (d_error d = Some ECleanup \<or> tidy w' t) \<and> extends w' (snd t)) (\<lambda>_ _. True) (new_refresh, w')"
      by (rule wp_mono[OF wp_conj[OF refresh_run_wp refresh_honest]]) (auto simp: run_leaves_def honest_def)
    then show ?thesis
      unfolding wp_bind on_attempt_def wp_within
      by simp (elim wp_mono, use q in \<open>auto simp: wp_simps attempt_tidy_def\<close>)
  qed
  have d: "wp (bind (initial_views errors) (\<lambda>vs. bind (document_of vs (Some ECleanup)) (\<lambda>d.
       andthen (update (\<lambda>x. x\<lparr>eo_last := Some \<lparr>ex_document = d, ex_evidence = None\<rparr>\<rparr>)) (ret d))))
      (\<lambda>d t. d_error d = Some ECleanup \<or> attempt_tidy w t) (\<lambda>_ _. True) s" for s
    unfolding wp_bind by (rule wp_mono[OF wp_true]; (rule wp_mono[OF document_error])?; simp add: wp_simps)
  show ?thesis
    unfolding orchestrator_run_def wp_bind[of "previous_cleaned _"]
  proof (rule wp_mono[OF calls_wp[OF previous_calls]], goal_cases)
    case (1 ok t)
    have "runs (recent w (snd t)) = []" using 1 by (intro runs_none) simp
    then show ?case using 1 d r[of "snd t" "fst t"] by (auto simp: wp_andthen wp_update)
  qed simp
qed


end
