(* ===== verification/CacheFiles.thy ===== *)
theory CacheFiles
  imports BoundedFile Coordinator Config
begin

text \<open>
  The files of the shared cache on Windows (\<open>src/yasb_limitora/cache.py\<close>): the form of a path that reaches the API, the checks of
  its identity, the child that reads a file and the one that replaces it, the creation token of a process, and the names of
  cache files: \<open>cache_path\<close> and \<open>config_fingerprint\<close>.

  \<^item> \<open>os.path\<close> is \<open>ntpath\<close>; \<open>abspath\<close> is a call. The metadata of a path is an object whose link flag and attributes are read by
    calls; that of a descriptor is its size when it is a regular file, else anything else.
  \<^item> \<open>mkstemp\<close> answers a name, and the descriptor it opened is denoted by that name.
  \<^item> SHA-256 is the parameter \<open>sha\<close>, which gives the hexadecimal digest, and \<open>format(x, ".17g")\<close> the parameter \<open>fmt\<close>.
\<close>

section \<open>Paths\<close>

definition identity_unavailable :: py_exn where "identity_unavailable = FileError ''cache identity unavailable''"
definition os_error :: py_exn where "os_error = OSError ''''"

definition extended_prefix :: ustr where "extended_prefix = [bs, bs, 63, bs]"

definition drive_letter :: "ustr \<Rightarrow> bool" where
  "drive_letter d \<longleftrightarrow> (case d of [c, x] \<Rightarrow> x = 58 \<and> (65 \<le> c \<and> c \<le> 90 \<or> 97 \<le> c \<and> c \<le> 122) | _ \<Rightarrow> False)"

definition cache_fs_path :: "bool \<Rightarrow> ustr \<Rightarrow> py_exn + ustr" where
  "cache_fs_path force path =
     (if \<not> force \<and> utf16_units path < 248 then Inr path
      else if py_startswith path extended_prefix then Inr path
      else
        let normalized = normpath path; (drive, tail) = splitdrive normalized in
        if \<not> drive_letter drive \<or> \<not> py_startswith tail [bs] then Inl identity_unavailable
        else Inr (extended_prefix @ normalized))"

definition fs_path :: "ustr \<Rightarrow> ('o, val) prog" where
  "fs_path p = bind (lift_result (cache_fs_path False p)) (\<lambda>s. ret (VStr s))"

definition reparse_point :: "val \<Rightarrow> bool" where
  "reparse_point v = (case v of VInt a \<Rightarrow> (a div 1024) mod 2 = 1 | _ \<Rightarrow> False)"

text \<open>One component of the path: it may be missing, but it is no link and no reparse point.\<close>

definition check_component :: "ustr \<Rightarrow> ('o, unit) prog" where
  "check_component current =
     bind (outcome (bind (fs_path current) (\<lambda>p. ext (''lstat'', [p])))) (\<lambda>r. case r of
       Inl e \<Rightarrow> if e = FileNotFoundError then ret () else if is_OSError e then fail identity_unavailable else fail e
     | Inr m \<Rightarrow>
         bind (ext (''is_link'', [m])) (\<lambda>link.
         if truthy link then fail identity_unavailable
         else bind (getattr_none ''st_file_attributes'' [m]) (\<lambda>a. if reparse_point a then fail identity_unavailable else ret ())))"

text \<open>The walk to the root, at most 128 components.\<close>

primrec check_components :: "nat \<Rightarrow> ustr \<Rightarrow> ('o, unit) prog" where
  "check_components 0 current = fail identity_unavailable"
| "check_components (Suc n) current =
     andthen (check_component current)
       (if ntdirname current = current then ret () else check_components n (ntdirname current))"

definition validate_identity :: "ustr \<Rightarrow> ('o, unit) prog" where
  "validate_identity path = bind (ext (''abspath'', [VStr path])) (\<lambda>a. case a of
     VStr s \<Rightarrow> check_components 128 s | _ \<Rightarrow> fail (TypeError ''abspath''))"

definition validate_owner :: "ustr \<Rightarrow> ('o, unit) prog" where
  "validate_owner path =
     catch
      (bind (ext (''sid'', [])) (\<lambda>sid.
       if \<not> valid_sid sid then fail os_error
       else bind (fs_path path) (\<lambda>p. bind (ext (''access'', [p])) (\<lambda>ok. if truthy ok then ret () else fail os_error))))
      (\<lambda>_. fail identity_unavailable)"

definition validate_existing :: "string \<Rightarrow> ustr \<Rightarrow> ('o, unit) prog" where
  "validate_existing test path =
     andthen (validate_identity path)
    (bind (fs_path path) (\<lambda>p. bind (ext (test, [p])) (\<lambda>b. if truthy b then validate_owner path else ret ())))"

definition validate_cache_directory :: "ustr \<Rightarrow> ('o, unit) prog" where
  "validate_cache_directory = validate_existing ''isdir''"

definition validate_cache_target :: "ustr \<Rightarrow> ('o, unit) prog" where
  "validate_cache_target = validate_existing ''exists''"

definition directory_of :: "ustr \<Rightarrow> ustr" where
  "directory_of path = (if ntdirname path = [] then [46] else ntdirname path)"

section \<open>The child that reads\<close>

definition read_limited :: "val \<Rightarrow> ('o, bytes) prog" where
  "read_limited d =
     bind (ext (''fstat'', [d])) (\<lambda>size. case size of
       VInt n \<Rightarrow>
         if int max_cache_bytes < n then fail os_error
         else
           bind (ext (''read'', [d, VInt (int max_cache_bytes + 1)])) (\<lambda>x. case x of
             VBytes b \<Rightarrow> if max_cache_bytes < length b then fail os_error else ret b
           | _ \<Rightarrow> fail (TypeError ''read''))
     | _ \<Rightarrow> fail os_error)"

definition cache_read_child :: "ustr \<Rightarrow> ('o, bytes) prog" where
  "cache_read_child path =
     andthen (validate_cache_directory (directory_of path))
    (andthen (validate_cache_target path)
    (bind (fs_path path) (\<lambda>p.
     bind (ext (''open'', [p])) (\<lambda>d. ensure (read_limited d) (ext (''close_fd'', [d]))))))"

definition cache_read_transport :: "(bytes \<Rightarrow> bytes) \<Rightarrow> ustr \<Rightarrow> ('o, bytes) prog" where
  "cache_read_transport compress path = bind (cache_read_child path) (\<lambda>b. ret (compress b))"

section \<open>The child that replaces\<close>

record write_vars =
  wf_open :: bool
  wf_temporary :: bool

type_synonym 'a wfprog = "(write_vars, 'a) prog"

text \<open>The loop over \<open>os.write\<close>, which may write less than it was given.\<close>

function write_all :: "val \<Rightarrow> bytes \<Rightarrow> ('o, unit) prog" where
  "write_all d data =
     (if data = [] then ret ()
      else
        bind (ext (''write'', [d, VBytes data])) (\<lambda>v. case v of
          VInt n \<Rightarrow> if n \<le> 0 then fail os_error else write_all d (drop (nat n) data)
        | _ \<Rightarrow> fail (TypeError ''write'')))"
  by pat_completeness auto
termination by (relation "measure (\<lambda>(_, data). length data)") auto

declare write_all.simps [simp del]

definition replace_body :: "ustr \<Rightarrow> bytes \<Rightarrow> ustr \<Rightarrow> unit wfprog" where
  "replace_body path data t =
     andthen (write_all (VStr t) data)
    (andthen (ext (''fsync'', [VStr t]))
    (andthen (ext (''close_fd'', [VStr t]))
    (andthen (update (\<lambda>v. v\<lparr>wf_open := False\<rparr>))
    (bind (fs_path t) (\<lambda>source_path.
     bind (fs_path path) (\<lambda>target.
     andthen (ext (''replace'', [source_path, target])) (update (\<lambda>v. v\<lparr>wf_temporary := False\<rparr>))))))))"

definition replace_end :: "ustr \<Rightarrow> unit wfprog" where
  "replace_end t =
     bind (field id) (\<lambda>v.
     andthen (if wf_open v then andthen (ext (''close_fd'', [VStr t])) (ret ()) else ret ())
     (if wf_temporary v then
        catch (bind (fs_path t) (\<lambda>p. andthen (ext (''unlink'', [p])) (ret ()))) (\<lambda>e. if is_OSError e then ret () else fail e)
      else ret ()))"

definition cache_prepare :: "ustr \<Rightarrow> ('o, val) prog" where
  "cache_prepare path =
     bind (fs_path (directory_of path)) (\<lambda>p.
     andthen (ext (''makedirs'', [p]))
    (bind (fs_path (directory_of path)) (\<lambda>p.
     bind (ext (''stat_isdir'', [p])) (\<lambda>b.
     if \<not> truthy b then fail os_error
     else
       andthen (validate_cache_directory (directory_of path))
      (andthen (validate_cache_target path)
      (bind (lift_result (cache_fs_path True (directory_of path))) (\<lambda>dir.
       ext (''mkstemp'', [VStr (u ''.quota-v2-''), VStr (u ''.tmp''), VStr dir]))))))))"

definition cache_write_child :: "ustr \<Rightarrow> bytes \<Rightarrow> ('o, unit) prog" where
  "cache_write_child path data =
     bind (cache_prepare path) (\<lambda>m. case m of
       VStr t \<Rightarrow> with_local \<lparr>wf_open = True, wf_temporary = True\<rparr> (on_local (ensure (replace_body path data t) (replace_end t)))
     | _ \<Rightarrow> fail (TypeError ''mkstemp''))"

text \<open>The children of the refresh marker.\<close>

definition max_marker_bytes :: nat where "max_marker_bytes = 4096"

definition marker_read_child :: "ustr \<Rightarrow> ('o, bytes option) prog" where
  "marker_read_child path =
     bind (catch (bind (cache_read_child path) (\<lambda>b. ret (Some b))) (\<lambda>e. if e = FileNotFoundError then ret None else fail e)) (\<lambda>r. case r of
       None \<Rightarrow> ret None
     | Some b \<Rightarrow> if max_marker_bytes < length b then fail os_error else ret (Some b))"

definition marker_write_child :: "ustr \<Rightarrow> bytes \<Rightarrow> ('o, unit) prog" where
  "marker_write_child path data = (if max_marker_bytes < length data then fail os_error else cache_write_child path data)"

section \<open>The creation token of a process\<close>

fun hex_nat :: "nat \<Rightarrow> ustr" where
  "hex_nat n = (if n < 16 then [hex_digit n] else hex_nat (n div 16) @ [hex_digit (n mod 16)])"

declare hex_nat.simps [simp del]

definition token_of_handle :: "val \<Rightarrow> ('o, val) prog" where
  "token_of_handle h =
     bind (ext (''GetProcessTimes'', [h])) (\<lambda>ok.
     if \<not> truthy ok then ret VNone
     else
       bind (ext (''created_high'', [h])) (\<lambda>hi.
       bind (lift_result (as_int hi)) (\<lambda>hi.
       bind (ext (''created_low'', [h])) (\<lambda>lo.
       bind (lift_result (as_int lo)) (\<lambda>lo.
       ret (VStr (hex_nat (nat (hi mod 2 ^ 32) * 2 ^ 32 + nat (lo mod 2 ^ 32)))))))))"

definition process_creation_token :: "val \<Rightarrow> ('o, val) prog" where
  "process_creation_token pid = (case pid of
     VInt n \<Rightarrow>
       if n \<le> 0 then ret VNone
       else
         catch
          (andthen (ext (''WinDLL'', []))
          (bind (ext (''OpenProcess'', [VInt 4096, VBool False, VInt n])) (\<lambda>h.
           if \<not> truthy h then
             catch (bind (ext (''get_last_error'', [])) (\<lambda>code. ret (if val_is code 87 then process_missing else VNone))) (\<lambda>_. ret VNone)
           else
             ensure (catch (token_of_handle h) (\<lambda>_. ret VNone)) (tried (ext (''CloseHandle'', [h]))))))
          (\<lambda>_. ret VNone)
   | _ \<Rightarrow> ret VNone)"

definition owner_token :: "('o, ustr option) prog" where
  "owner_token = bind (ext (''getpid'', [])) (\<lambda>pid. bind (process_creation_token pid) (\<lambda>t.
     ret (case t of VStr s \<Rightarrow> Some s | _ \<Rightarrow> None)))"

section \<open>Names of cache files\<close>

record path_env =
  pe_casefold :: "ustr \<Rightarrow> ustr"
  pe_fuel :: nat
  pe_api :: full_path_api
  pe_sha :: "bytes \<Rightarrow> ustr"

definition identity_of :: "path_env \<Rightarrow> json \<Rightarrow> py_exn + ustr" where
  "identity_of e = path_identity (pe_casefold e) (pe_fuel e) (pe_api e)"

definition canonical_of :: "path_env \<Rightarrow> json \<Rightarrow> py_exn + ustr" where
  "canonical_of e = canonicalize_path (pe_fuel e) (pe_api e)"

definition cache_directory :: "path_env \<Rightarrow> json \<Rightarrow> py_exn + ustr" where
  "cache_directory e localappdata = (case localappdata of
     JStr s \<Rightarrow>
       if py_strip s = [] then Inl (FileError ''missing cache directory'')
       else canonical_of e (JStr (ntjoin s (u ''yasb-limitora'')))
   | _ \<Rightarrow> Inl (FileError ''missing cache directory''))"

definition valid_fingerprint :: "json \<Rightarrow> bool" where
  "valid_fingerprint v = (case v of
     JStr s \<Rightarrow> length s = 64 \<and> list_all (\<lambda>c. 48 \<le> c \<and> c \<le> 57 \<or> 97 \<le> c \<and> c \<le> 102) s | _ \<Rightarrow> False)"

definition fingerprint_text :: "json \<Rightarrow> ustr" where
  "fingerprint_text v = (case v of JStr s \<Rightarrow> s | _ \<Rightarrow> [])"

text \<open>Without an environment (\<open>None\<close>) the file is beside the configuration.\<close>

definition cache_file :: "ustr \<Rightarrow> ustr" where
  "cache_file name = u ''quota-v2-cache-'' @ name @ u ''.json''"

definition cache_path :: "path_env \<Rightarrow> json \<Rightarrow> json option \<Rightarrow> json option \<Rightarrow> py_exn + ustr" where
  "cache_path e config_path localappdata fingerprint =
     rbind (identity_of e config_path) (\<lambda>s.
     rbind (utf8_encode s) (\<lambda>b.
     if (case fingerprint of Some f \<Rightarrow> \<not> valid_fingerprint f | None \<Rightarrow> False) then Inl (ValueError ''invalid cache fingerprint'')
     else
       let name = cache_file (case fingerprint of None \<Rightarrow> pe_sha e b | Some f \<Rightarrow> fingerprint_text f) in
       case localappdata of
         Some l \<Rightarrow> rbind (cache_directory e l) (\<lambda>d. canonical_of e (JStr (ntjoin d name)))
       | None \<Rightarrow>
           rbind (canonical_of e config_path) (\<lambda>canonical.
           if ntdirname canonical = [] then Inl (ValueError ''invalid cache directory'')
           else canonical_of e (JStr (ntjoin (ntdirname canonical) name)))))"

definition account_keys :: "string list" where
  "account_keys = [''USERNAME'', ''USER'', ''USERDOMAIN'', ''LIMITORA_OPENCODE_API_KEY'']"

definition account_values :: "(string \<Rightarrow> json) \<Rightarrow> ustr list" where
  "account_values env = map (\<lambda>k. case env k of JStr s \<Rightarrow> s | _ \<Rightarrow> []) account_keys"

text \<open>\<open>surrogatepass\<close> writes a surrogate like any other character.\<close>

definition account_bytes :: "bytes \<Rightarrow> (string \<Rightarrow> json) \<Rightarrow> bytes" where
  "account_bytes sid env = sid @ [0] @ utf8 (py_join [0] (account_values env))"

definition account_digest :: "path_env \<Rightarrow> (string \<Rightarrow> json) \<Rightarrow> ('o, ustr) prog" where
  "account_digest e env =
     bind (catch (ext (''sid'', [])) (\<lambda>_. fail (FileError ''account identity unavailable''))) (\<lambda>sid.
     if \<not> valid_sid sid then fail (FileError ''account identity unavailable'')
     else ret (pe_sha e (account_bytes (sid_bytes sid) env)))"

definition fingerprint_payload :: "(pyfloat \<Rightarrow> ustr) \<Rightarrow> local_config \<Rightarrow> ustr \<Rightarrow> ustr \<Rightarrow> ustr \<Rightarrow> json" where
  "fingerprint_payload fmt g account directory path =
     JObj [(u ''account'', JStr account), (u ''cache_directory'', JStr directory), (u ''path'', JStr path),
       (u ''codex'', JObj [(u ''enabled'', JBool (cx_enabled (lc_codex g))),
          (u ''runner'', case cx_runner (lc_codex g) of Some r \<Rightarrow> JStr r | None \<Rightarrow> JNull),
          (u ''timeout_seconds'', JStr (fmt (cx_timeout (lc_codex g))))]),
       (u ''opencode_go'', JObj [(u ''enabled'', JBool (oc_enabled (lc_opencode g))), (u ''timeout_seconds'', JStr (fmt (oc_timeout (lc_opencode g))))]),
       (u ''deadline_seconds'', JStr (fmt (lc_deadline g)))]"

definition fingerprint_of :: "path_env \<Rightarrow> (pyfloat \<Rightarrow> ustr) \<Rightarrow> local_config \<Rightarrow> ustr \<Rightarrow> ustr \<Rightarrow> ustr \<Rightarrow> py_exn + ustr" where
  "fingerprint_of e fmt g account directory path =
     rbind (canonical_json (fingerprint_payload fmt g account directory path)) (\<lambda>b. Inr (pe_sha e b))"

definition config_fingerprint :: "path_env \<Rightarrow> (pyfloat \<Rightarrow> ustr) \<Rightarrow> local_config \<Rightarrow> (string \<Rightarrow> json) \<Rightarrow> json \<Rightarrow> ('o, ustr) prog" where
  "config_fingerprint e fmt g env config_path =
     bind (lift_result (identity_of e config_path)) (\<lambda>path.
     bind (lift_result (rbind (cache_directory e (env ''LOCALAPPDATA'')) (\<lambda>d. identity_of e (JStr d)))) (\<lambda>directory.
     bind (account_digest e env) (\<lambda>account.
     lift_result (fingerprint_of e fmt g account directory path))))"

end
