(* ===== verification/CacheFileFacts.thy ===== *)
theory CacheFileFacts
  imports CacheFiles JsonSorted
begin

text \<open>
  Facts about the files of the cache (\<open>CacheFiles\<close>): the file is replaced only by a complete, synchronized copy of the data, and
  a fingerprint determines the configuration it was made from.
\<close>

section \<open>Replacing a file\<close>

text \<open>What a list of calls to \<open>os.write\<close> put into the file \<open>d\<close>, and a file that holds \<open>data\<close>, is synchronized and closed.\<close>

definition writes_to :: "val \<Rightarrow> answered \<Rightarrow> bool" where
  "writes_to d a \<longleftrightarrow> (case a of ((n, [f, VBytes _]), Inr (VInt k)) \<Rightarrow> n = ''write'' \<and> f = d \<and> 0 < k | _ \<Rightarrow> False)"

definition chunk :: "answered \<Rightarrow> bytes" where
  "chunk a = (case a of ((_, [_, VBytes b]), Inr (VInt k)) \<Rightarrow> take (nat k) b | _ \<Rightarrow> [])"

definition durable :: "val \<Rightarrow> bytes \<Rightarrow> answered list \<Rightarrow> bool" where
  "durable d data tr \<longleftrightarrow> (\<exists>ws a b. tr = ws @ [((''fsync'', [d]), Inr a), ((''close_fd'', [d]), Inr b)]
     \<and> list_all (writes_to d) ws \<and> concat (map chunk ws) = data)"

definition no_replace :: "answered list \<Rightarrow> bool" where
  "no_replace tr \<longleftrightarrow> called ''replace'' tr = []"

lemma no_replace_simps [simp]:
  "no_replace []" "no_replace (a # tr) \<longleftrightarrow> fst (fst a) \<noteq> ''replace'' \<and> no_replace tr"
  "no_replace (tr @ tr') \<longleftrightarrow> no_replace tr \<and> no_replace tr'"
  by (simp_all add: no_replace_def)

lemma no_replace_writes: "list_all (writes_to d) ws \<Longrightarrow> no_replace ws"
  by (induction ws) (auto simp: writes_to_def split_def split: list.split_asm val.split_asm sum.split_asm)

lemma no_replace_calls: "\<forall>a \<in> set tr. fst (fst a) \<in> N \<Longrightarrow> ''replace'' \<notin> N \<Longrightarrow> no_replace tr"
  by (induction tr) auto

lemma write_all_wp:
  "wp (write_all d data)
    (\<lambda>_ t. fst t = fst s \<and> extends (snd s) (snd t) \<and> list_all (writes_to d) (recent (snd s) (snd t))
       \<and> concat (map chunk (recent (snd s) (snd t))) = data)
    (\<lambda>_ t. fst t = fst s \<and> extends (snd s) (snd t) \<and> no_replace (recent (snd s) (snd t))) s"
proof (induction data arbitrary: s rule: length_induct)
  case (1 data)
  let ?c = "(''write'', [d, VBytes data])"
  let ?s = "(fst s, logged ?c (snd s))"
  show ?case
  proof (cases "data = []")
    case True
    then show ?thesis by (subst write_all.simps) (simp add: wp_simps)
  next
    case data: False
    have step: "wp (write_all d data) Q E s = (case answer_of ?c (snd s) of
        Inr (VInt n) \<Rightarrow> if n \<le> 0 then E os_error ?s else wp (write_all d (drop (nat n) data)) Q E ?s
      | Inr _ \<Rightarrow> E (TypeError ''write'') ?s | Inl e \<Rightarrow> E e ?s)" for Q E
      using data by (subst write_all.simps) (simp add: wp_simps split: sum.split val.split)
    show ?thesis
    proof (cases "\<exists>n > 0. answer_of ?c (snd s) = Inr (VInt n)")
      case False
      then have "n \<le> 0" if "answer_of ?c (snd s) = Inr (VInt n)" for n using that by force
      then show ?thesis unfolding step by (simp split: sum.split val.split)
    next
      case True
      then obtain n where n: "0 < n" "answer_of ?c (snd s) = Inr (VInt n)" by blast
      have r: "recent (snd s) (snd t) = (?c, Inr (VInt n)) # recent (snd ?s) (snd t)" if "extends (snd ?s) (snd t)" for t :: "'a \<times> world"
        using recent_trans[of "snd s" "snd ?s" "snd t"] that n by simp
      have "length (drop (nat n) data) < length data" using n(1) data by simp
      note IH = 1[rule_format, OF this, of ?s]
      show ?thesis
        unfolding step using n r extends_trans[OF extends_logged]
        by (auto intro!: wp_mono[OF IH] simp: writes_to_def chunk_def)
    qed
  qed
qed

text \<open>The calls of the child: everything it does before it makes the temporary file replaces nothing.\<close>

definition preparing :: "string set" where
  "preparing = {''abspath'', ''lstat'', ''is_link'', ''st_file_attributes'', ''sid'', ''access'', ''isdir'', ''exists'', ''makedirs'', ''stat_isdir''}"

lemma fs_path_calls [calls_intros]: "calls N (fs_path p)"
  unfolding fs_path_def by (intro calls_intros)

lemma check_components_calls [calls_intros]: "calls preparing (check_components n p)"
  by (induction n arbitrary: p) (auto simp: check_component_def preparing_def intro!: calls_intros)

lemma validate_calls [calls_intros]: "calls preparing (validate_cache_directory p)" "calls preparing (validate_cache_target p)"
  unfolding validate_cache_directory_def validate_cache_target_def validate_existing_def validate_identity_def validate_owner_def
  by (auto intro!: calls_intros simp: preparing_def[THEN arg_cong[where f = "\<lambda>N. x \<in> N" for x]])

definition prepared_dir :: "ustr \<Rightarrow> ('o, val) prog" where
  "prepared_dir path =
     bind (fs_path (directory_of path)) (\<lambda>p.
     andthen (ext (''makedirs'', [p]))
    (bind (fs_path (directory_of path)) (\<lambda>p.
     bind (ext (''stat_isdir'', [p])) (\<lambda>b.
     if \<not> truthy b then fail os_error
     else
       andthen (validate_cache_directory (directory_of path))
      (andthen (validate_cache_target path)
      (bind (lift_result (cache_fs_path True (directory_of path))) (\<lambda>dir. ret (VStr dir))))))))"

lemma prepared_dir_calls: "calls preparing (prepared_dir path)"
  unfolding prepared_dir_def by (intro calls_intros) (simp_all add: preparing_def)

lemma still_val_case:
  "still a \<Longrightarrow> (\<And>x. still (b x)) \<Longrightarrow> (\<And>x. still (c x)) \<Longrightarrow> (\<And>x. still (d x)) \<Longrightarrow> (\<And>x. still (e x)) \<Longrightarrow>
   (\<And>x. still (f x)) \<Longrightarrow> (\<And>x. still (g x)) \<Longrightarrow>
   still (case v of VNone \<Rightarrow> a | VBool x \<Rightarrow> b x | VInt x \<Rightarrow> c x | VFloat x \<Rightarrow> d x | VStr x \<Rightarrow> e x | VBytes x \<Rightarrow> f x | VRef x \<Rightarrow> g x)"
  by (cases v) auto

lemma prepared_dir_still: "still (prepared_dir path)"
proof -
  have c: "still (check_components n p)" for n p
    by (induction n arbitrary: p) (auto simp: check_component_def fs_path_def intro!: still_intros)
  show ?thesis
    unfolding prepared_dir_def validate_cache_directory_def validate_cache_target_def validate_existing_def validate_identity_def
      validate_owner_def fs_path_def
    by (intro still_intros still_val_case c)
qed

lemma bind_assoc: "bind (bind m f) g = bind m (\<lambda>x. bind (f x) g)"
  by (rule ext) (simp add: bind_def split: prod.split sum.split)

lemma andthen_bind: "bind (andthen m n) g = andthen m (bind n g)"
  by (simp add: andthen_def bind_assoc)

lemma cache_prepare_split:
  "cache_prepare path = bind (prepared_dir path) (\<lambda>dir. ext (''mkstemp'', [VStr (u ''.quota-v2-''), VStr (u ''.tmp''), dir]))"
proof -
  have [simp]: "bind (fail e) f = fail e" "bind (ret x) g = g x" for e and x :: 'c and f :: "'b \<Rightarrow> ('a, 'd) prog" and g :: "'c \<Rightarrow> ('a, 'd) prog"
    by (auto simp: bind_def fail_def ret_def)
  have [simp]: "bind (if b then m else n) f = (if b then bind m f else bind n f)" for b m n and f :: "'b \<Rightarrow> ('a, 'd) prog" by simp
  show ?thesis unfolding cache_prepare_def prepared_dir_def by (simp add: bind_assoc andthen_bind if_distrib[of "\<lambda>m. bind m _"] cong: if_cong)
qed

lemma cache_prepare_wp:
  "wp (cache_prepare path)
    (\<lambda>m t. fst t = fst s \<and> extends (snd s) (snd t)
       \<and> (\<exists>pre c. recent (snd s) (snd t) = pre @ [((''mkstemp'', c), Inr m)] \<and> no_replace pre))
    (\<lambda>_ t. fst t = fst s \<and> extends (snd s) (snd t) \<and> no_replace (recent (snd s) (snd t))) s"
proof -
  obtain r x w where r: "prepared_dir path s = (r, x, w)" by (metis prod_cases3)
  have "fst (snd (prepared_dir path s)) = fst s" using prepared_dir_still unfolding still_def by blast
  moreover note callsD[OF prepared_dir_calls r]
  ultimately have p: "x = fst s" "extends (snd s) w" "no_replace (recent (snd s) w)"
    using no_replace_calls[of "recent (snd s) w" preparing] r by (simp_all add: preparing_def)
  show ?thesis
    unfolding cache_prepare_split wp_bind
    using p by (simp add: wp_def[of "prepared_dir path"] r wp_ext split: sum.split)
qed

text \<open>The copy: complete, synchronized and closed before the file is replaced by it; and removed when it is not used.\<close>

definition replaced :: "val \<Rightarrow> ustr \<Rightarrow> bytes \<Rightarrow> val \<Rightarrow> answered list \<Rightarrow> bool \<Rightarrow> bool" where
  "replaced t path data tmp tr ok \<longleftrightarrow> (\<exists>body target answer ending. cache_fs_path False path = Inr target
     \<and> tr = body @ ((''replace'', [tmp, VStr target]), answer) # ending \<and> durable t data body \<and> no_replace ending \<and> ok = (\<not> isl answer)
     \<and> (if ok then ending = [] else called ''unlink'' ending = [(''unlink'', [tmp])]))"

lemma replace_end_calls: "calls {''close_fd'', ''unlink''} (replace_end t)"
  unfolding replace_end_def by (intro calls_intros) simp_all

lemma replace_end_early:
  assumes "extends w (snd v)" "no_replace (recent w (snd v))"
  shows "wp (replace_end t) (\<lambda>_ x. extends w (snd x) \<and> (no_replace (recent w (snd x)) \<or> P x))
    (\<lambda>_ x. extends w (snd x) \<and> (no_replace (recent w (snd x)) \<or> R x)) v"
proof -
  have "extends w (snd x) \<and> no_replace (recent w (snd x))"
    if "extends (snd v) (snd x) \<and> (\<forall>a \<in> set (recent (snd v) (snd x)). fst (fst a) \<in> {''close_fd'', ''unlink''})" for x :: "write_vars \<times> world"
    using that recent_trans[of w "snd v" "snd x"] extends_trans[of w "snd v" "snd x"] assms
      no_replace_calls[of "recent (snd v) (snd x)" "{''close_fd'', ''unlink''}"] by simp
  then show ?thesis by (intro wp_mono[OF calls_wp[OF replace_end_calls]]) blast+
qed

text \<open>The part after the loop, from the state the loop leaves.\<close>

definition replace_rest :: "ustr \<Rightarrow> ustr \<Rightarrow> unit wfprog" where
  "replace_rest path t =
     andthen (ext (''fsync'', [VStr t]))
    (andthen (ext (''close_fd'', [VStr t]))
    (andthen (update (\<lambda>v. v\<lparr>wf_open := False\<rparr>))
    (bind (fs_path t) (\<lambda>source_path.
     bind (fs_path path) (\<lambda>target.
     andthen (ext (''replace'', [source_path, target])) (update (\<lambda>v. v\<lparr>wf_temporary := False\<rparr>)))))))"

lemma replace_rest_wp:
  assumes "fst v = \<lparr>wf_open = True, wf_temporary = True\<rparr>" "extends w (snd v)" "list_all (writes_to (VStr t)) (recent w (snd v))"
    "concat (map chunk (recent w (snd v))) = data"
  shows "wp (ensure (replace_rest path t) (replace_end t))
    (\<lambda>_ x. extends w (snd x) \<and> (\<exists>tmp. cache_fs_path False t = Inr tmp \<and> replaced (VStr t) path data (VStr tmp) (recent w (snd x)) True))
    (\<lambda>_ x. extends w (snd x) \<and> (no_replace (recent w (snd x))
       \<or> (\<exists>tmp. cache_fs_path False t = Inr tmp \<and> replaced (VStr t) path data (VStr tmp) (recent w (snd x)) False))) v"
proof -
  let ?f = "(''fsync'', [VStr t])" and ?c = "(''close_fd'', [VStr t])"
  let ?w1 = "logged ?f (snd v)"
  let ?w2 = "logged ?c ?w1"
  note n = no_replace_writes[OF assms(3)]
  show ?thesis
  proof (cases "(\<exists>a. answer_of ?f (snd v) = Inr a) \<and> (\<exists>b. answer_of ?c ?w1 = Inr b)
      \<and> (\<exists>tmp. cache_fs_path False t = Inr tmp) \<and> (\<exists>target. cache_fs_path False path = Inr target)")
    case False
    then have "wp (ensure (replace_rest path t) (replace_end t)) Q (\<lambda>_ x. extends w (snd x) \<and> (no_replace (recent w (snd x)) \<or> R x)) v" for Q R
      unfolding replace_rest_def wp_ensure wp_andthen wp_ext wp_bind fs_path_def wp_lift wp_ret wp_update
      using n assms(2) by (auto intro!: replace_end_early split: sum.split)
    then show ?thesis .
  next
    case True
    then obtain a b tmp target where T: "answer_of ?f (snd v) = Inr a" "answer_of ?c ?w1 = Inr b"
        "cache_fs_path False t = Inr tmp" "cache_fs_path False path = Inr target" by blast
    let ?r = "(''replace'', [VStr tmp, VStr target])"
    let ?w3 = "logged ?r ?w2"
    have rec: "recent w ?w3 = (recent w (snd v) @ [(?f, Inr a), (?c, Inr b)]) @ (?r, answer_of ?r ?w2) # []"
      using assms(2) T by simp
    have dur: "durable (VStr t) data (recent w (snd v) @ [(?f, Inr a), (?c, Inr b)])"
      using assms(3,4) unfolding durable_def by blast
    have R: "replaced (VStr t) path data (VStr tmp) (recent w ?w3) True" if "answer_of ?r ?w2 = Inr y" for y
      unfolding replaced_def rec using T(4) dur that by fastforce
    show ?thesis
    proof (cases "answer_of ?r ?w2")
      case (Inr y)
      then show ?thesis
        unfolding replace_rest_def wp_ensure wp_andthen wp_ext wp_bind fs_path_def wp_lift wp_ret wp_update
        using T assms(1,2) R[OF Inr] by (simp add: replace_end_def wp_simps)
    next
      case (Inl e)
      let ?x = "(''unlink'', [VStr tmp])"
      have "recent w (logged ?x ?w3) = (recent w (snd v) @ [(?f, Inr a), (?c, Inr b)]) @ (?r, answer_of ?r ?w2) # [(?x, answer_of ?x ?w3)]"
        using assms(2) T by simp
      then have E: "replaced (VStr t) path data (VStr tmp) (recent w (logged ?x ?w3)) False"
        unfolding replaced_def using T(4) dur Inl by (intro exI conjI) auto
      show ?thesis
        unfolding replace_rest_def wp_ensure wp_andthen wp_ext wp_bind fs_path_def wp_lift wp_ret wp_update
        using T assms(1,2) E Inl by (cases "answer_of ?x ?w3") (simp_all add: replace_end_def wp_simps fs_path_def)
    qed
  qed
qed

lemma replace_split: "ensure (replace_body path data t) m = ensure (andthen (write_all (VStr t) data) (replace_rest path t)) m"
  by (simp add: replace_body_def replace_rest_def)

lemma replace_wp:
  assumes "fst s = \<lparr>wf_open = True, wf_temporary = True\<rparr>"
  shows "wp (ensure (replace_body path data t) (replace_end t))
    (\<lambda>_ x. extends (snd s) (snd x) \<and> (\<exists>tmp. cache_fs_path False t = Inr tmp \<and> replaced (VStr t) path data (VStr tmp) (recent (snd s) (snd x)) True))
    (\<lambda>_ x. extends (snd s) (snd x) \<and> (no_replace (recent (snd s) (snd x))
       \<or> (\<exists>tmp. cache_fs_path False t = Inr tmp \<and> replaced (VStr t) path data (VStr tmp) (recent (snd s) (snd x)) False))) s"
  unfolding replace_split wp_ensure wp_andthen
  by (rule wp_mono[OF write_all_wp]) (use assms replace_rest_wp[unfolded wp_ensure] in \<open>auto intro!: replace_end_early\<close>)

text \<open>The trace of a call of the child: what it did before the temporary file existed, then the temporary's name and the rest.\<close>

definition written_over :: "ustr \<Rightarrow> bytes \<Rightarrow> answered list \<Rightarrow> bool \<Rightarrow> bool" where
  "written_over path data tr ok \<longleftrightarrow> (\<exists>pre c t tmp rest. tr = pre @ ((''mkstemp'', c), Inr (VStr t)) # rest \<and> no_replace pre
     \<and> cache_fs_path False t = Inr tmp \<and> replaced (VStr t) path data (VStr tmp) rest ok)"

lemma written_overI: "no_replace pre \<Longrightarrow> cache_fs_path False t = Inr tmp \<Longrightarrow> replaced (VStr t) path data (VStr tmp) rest ok
    \<Longrightarrow> written_over path data (pre @ ((''mkstemp'', c), Inr (VStr t)) # rest) ok"
  unfolding written_over_def by blast

lemma cache_write_child_wp:
  "wp (cache_write_child path data)
    (\<lambda>_ x. fst x = fst s \<and> extends (snd s) (snd x) \<and> written_over path data (recent (snd s) (snd x)) True)
    (\<lambda>_ x. fst x = fst s \<and> extends (snd s) (snd x) \<and> (no_replace (recent (snd s) (snd x)) \<or> written_over path data (recent (snd s) (snd x)) False)) s"
  unfolding cache_write_child_def wp_bind
proof (rule wp_mono[OF cache_prepare_wp], goal_cases)
  case (1 m v)
  then obtain pre c where p: "recent (snd s) (snd v) = pre @ [((''mkstemp'', c), Inr m)]" "no_replace pre" and v: "fst v = fst s" "extends (snd s) (snd v)"
    by blast
  show ?case
  proof (cases m)
    case (VStr t)
    let ?l = "(\<lparr>wf_open = True, wf_temporary = True\<rparr>, snd v)"
    have r: "extends (snd v) w \<Longrightarrow> extends (snd s) w \<and> recent (snd s) w = pre @ ((''mkstemp'', c), Inr (VStr t)) # recent (snd v) w" for w
      using recent_trans[OF v(2)] extends_trans[OF v(2)] p VStr by simp
    show ?thesis
      unfolding VStr val.case wp_with_local wp_within
      by (simp, rule wp_mono[OF replace_wp[of ?l path data t]]) (use v p r in \<open>auto intro: written_overI\<close>)
  qed (use v p in \<open>simp_all add: wp_simps\<close>)
qed simp

text \<open>C38: the cache file is replaced as a whole. In every run of the child that writes the cache, whatever the system calls answer, there
  is at most one call that replaces the file, and it comes after all of \<open>data\<close> was written to the temporary file, which was then
  synchronized and closed, both with success. The child returns normally exactly when the replacement succeeded and was its last
  call; when it failed, the child removed the temporary and raised.
\<close>

theorem cache_write_atomic:
  "case cache_write_child path data s of (r, x, w) \<Rightarrow>
     x = fst s \<and> extends (snd s) w
     \<and> (if no_replace (recent (snd s) w) then isl r else written_over path data (recent (snd s) w) (\<not> isl r))"
proof -
  have n: "\<not> no_replace tr" if "written_over path data tr ok" for tr ok
    using that by (auto simp: written_over_def replaced_def)
  obtain r x w where r: "cache_write_child path data s = (r, x, w)" by (metis prod_cases3)
  show ?thesis using cache_write_child_wp[of path data s] by (cases r) (auto simp: wp_def r dest: n)
qed

section \<open>Fingerprints\<close>

lemma sorted_fields:
  assumes "sort_json (JObj d) = sort_json (JObj d')" "distinct (map fst d)" "distinct (map fst d')"
  shows "map_option sort_json (dict_get k d) = map_option sort_json (dict_get k d')"
  using assms dict_get_sorted[of d k] dict_get_sorted[of d' k] by simp

lemma canonical_json_inj:
  assumes "canonical_json v = Inr b" "canonical_json v' = Inr b" "json_plain v" "json_plain v'"
  shows "sort_json v = sort_json v'"
proof -
  have "rbind (utf8_decode b) (loads cache_hooks) = Inr (sort_json x)" if "canonical_json x = Inr b" "json_plain x" for x
    using that read_sorted[of x _ "[10]" b cache_hooks] cache_hooks_ok by (auto simp: canonical_json_def rbind_Inr_iff json_ws_def)
  from this[OF assms(1,3)] this[OF assms(2,4)] show ?thesis by simp
qed

lemma fingerprint_plain: "json_plain (fingerprint_payload fmt g a d p)"
  by (simp add: fingerprint_payload_def u_Cons split: option.split)

lemma payload_separates:
  assumes "sort_json (fingerprint_payload fmt g a d p) = sort_json (fingerprint_payload fmt g' a' d' p')"
  shows "a = a' \<and> d = d' \<and> p = p' \<and> cx_enabled (lc_codex g) = cx_enabled (lc_codex g') \<and> cx_runner (lc_codex g) = cx_runner (lc_codex g')
    \<and> fmt (cx_timeout (lc_codex g)) = fmt (cx_timeout (lc_codex g')) \<and> oc_enabled (lc_opencode g) = oc_enabled (lc_opencode g')
    \<and> fmt (oc_timeout (lc_opencode g)) = fmt (oc_timeout (lc_opencode g')) \<and> fmt (lc_deadline g) = fmt (lc_deadline g')"
proof -
  note [simp] = dict_get_def u_Cons
  note top = sorted_fields[OF assms[unfolded fingerprint_payload_def]]
  have c: "sort_json (JObj [(u ''enabled'', JBool (cx_enabled (lc_codex g))),
          (u ''runner'', case cx_runner (lc_codex g) of Some r \<Rightarrow> JStr r | None \<Rightarrow> JNull),
          (u ''timeout_seconds'', JStr (fmt (cx_timeout (lc_codex g))))])
      = sort_json (JObj [(u ''enabled'', JBool (cx_enabled (lc_codex g'))),
          (u ''runner'', case cx_runner (lc_codex g') of Some r \<Rightarrow> JStr r | None \<Rightarrow> JNull),
          (u ''timeout_seconds'', JStr (fmt (cx_timeout (lc_codex g'))))])"
    using top[of "u ''codex''"] by (simp del: sort_json.simps(2))
  have o: "sort_json (JObj [(u ''enabled'', JBool (oc_enabled (lc_opencode g))), (u ''timeout_seconds'', JStr (fmt (oc_timeout (lc_opencode g))))])
      = sort_json (JObj [(u ''enabled'', JBool (oc_enabled (lc_opencode g'))), (u ''timeout_seconds'', JStr (fmt (oc_timeout (lc_opencode g'))))])"
    using top[of "u ''opencode_go''"] by (simp del: sort_json.simps(2))
  note cx = sorted_fields[OF c] and og = sorted_fields[OF o]
  show ?thesis
    using top[of "u ''account''"] top[of "u ''cache_directory''"] top[of "u ''path''"] top[of "u ''deadline_seconds''"]
      cx[of "u ''enabled''"] cx[of "u ''runner''"] cx[of "u ''timeout_seconds''"] og[of "u ''enabled''"] og[of "u ''timeout_seconds''"]
    by (simp split: option.splits)
qed

text \<open>C39: a fingerprint determines what it was made from. If two configurations have the same fingerprint, and the digest does not
  collide on the two texts that are hashed, then the account digests, the cache directories, the paths of the configurations, the
  switches, the runner, and the timeouts and the deadline as they are written are the same. So a document cached
  under a fingerprint is never served to another configuration, account or path.
\<close>

theorem fingerprint_separates:
  assumes "fingerprint_of e fmt g a d p = Inr f" "fingerprint_of e fmt g' a' d' p' = Inr f"
    and "inj_on (pe_sha e) {b. canonical_json (fingerprint_payload fmt g a d p) = Inr b \<or> canonical_json (fingerprint_payload fmt g' a' d' p') = Inr b}"
  shows "a = a' \<and> d = d' \<and> p = p' \<and> cx_enabled (lc_codex g) = cx_enabled (lc_codex g') \<and> cx_runner (lc_codex g) = cx_runner (lc_codex g')
    \<and> fmt (cx_timeout (lc_codex g)) = fmt (cx_timeout (lc_codex g')) \<and> oc_enabled (lc_opencode g) = oc_enabled (lc_opencode g')
    \<and> fmt (oc_timeout (lc_opencode g)) = fmt (oc_timeout (lc_opencode g')) \<and> fmt (lc_deadline g) = fmt (lc_deadline g')"
proof -
  obtain b b' where b: "canonical_json (fingerprint_payload fmt g a d p) = Inr b" "canonical_json (fingerprint_payload fmt g' a' d' p') = Inr b'"
    "pe_sha e b = pe_sha e b'" using assms(1,2) by (auto simp: fingerprint_of_def rbind_Inr_iff)
  have "b = b'" by (rule inj_onD[OF assms(3) b(3)]) (simp_all add: b)
  then show ?thesis using payload_separates[OF canonical_json_inj[OF b(1) _ fingerprint_plain fingerprint_plain]] b(2) by simp
qed

text \<open>A digest that gives its text, and the defaults of the configuration.\<close>

definition sample_path_env :: path_env where
  "sample_path_env = \<lparr>pe_casefold = id, pe_fuel = 8, pe_api = sample_full_path_api, pe_sha = id\<rparr>"

definition sample_local :: "pyfloat \<Rightarrow> local_config" where
  "sample_local t = \<lparr>lc_codex = default_codex, lc_opencode = default_opencode, lc_deadline = t\<rparr>"

lemma sample_fingerprint:
  "\<exists>f. fingerprint_of sample_path_env (\<lambda>_. u ''8'') (sample_local t) (u ''ab'') (u ''d'') (u ''p'') = Inr f"
proof -
  have "canonical_json (fingerprint_payload (\<lambda>_. u ''8'') (sample_local t) (u ''ab'') (u ''d'') (u ''p'')) \<noteq> Inl x" for x
    unfolding canonical_json_def dumps_sorted fingerprint_payload_def sample_local_def default_codex_def default_opencode_def
    by (simp add: run u_Cons compact_def cong: run_cong)
  then show ?thesis by (metis fingerprint_of_def rbind_simps(2) sum.exhaust)
qed

theorem fingerprint_separates_witness:
  "\<exists>f. fingerprint_of sample_path_env (\<lambda>_. u ''8'') (sample_local (FFin False 8 0)) (u ''ab'') (u ''d'') (u ''p'') = Inr f
     \<and> fingerprint_of sample_path_env (\<lambda>_. u ''8'') (sample_local (FFin False 9 0)) (u ''ab'') (u ''d'') (u ''p'') = Inr f
     \<and> cx_runner (lc_codex (sample_local (FFin False 8 0))) = cx_runner (lc_codex (sample_local (FFin False 9 0)))"
proof -
  obtain f where f: "fingerprint_of sample_path_env (\<lambda>_. u ''8'') (sample_local (FFin False 8 0)) (u ''ab'') (u ''d'') (u ''p'') = Inr f"
    using sample_fingerprint by blast
  moreover from f have g: "fingerprint_of sample_path_env (\<lambda>_. u ''8'') (sample_local (FFin False 9 0)) (u ''ab'') (u ''d'') (u ''p'') = Inr f"
    by (simp add: fingerprint_of_def fingerprint_payload_def sample_local_def)
  ultimately show ?thesis using fingerprint_separates[OF f g] by (auto simp: sample_path_env_def)
qed

end
