(* ===== verification/EnvBlock.thy ===== *)
theory EnvBlock
  imports Config NtPath
begin

text \<open>
  The managed block in YASB's \<open>.env\<close> (\<open>src/yasb_limitora/_env_block.py\<close>), the pure part: the text of the block and how the bytes of
  the file are rewritten (\<open>_rewrite\<close>). What it keeps of the user's bytes, and that it settles, is shown in
  \<open>EnvFacts\<close>.
\<close>

section \<open>Lines\<close>

text \<open>\<open>str.splitlines(keepends=True)\<close>, \<open>line.rstrip("\r\n")\<close>, and \<open>bytes.count\<close> of the two line ends.\<close>

definition line_break :: "nat \<Rightarrow> bool" where
  "line_break c \<longleftrightarrow> 10 \<le> c \<and> c \<le> 13 \<or> 28 \<le> c \<and> c \<le> 30 \<or> c = 133 \<or> c = 8232 \<or> c = 8233"

fun split_lines :: "ustr \<Rightarrow> ustr list" where
  "split_lines [] = []"
| "split_lines [c] = [[c]]"
| "split_lines (c # d # s) =
     (if c = 13 \<and> d = 10 then [c, d] # split_lines s
      else if line_break c then [c] # split_lines (d # s)
      else case split_lines (d # s) of [] \<Rightarrow> [[c]] | l # ls \<Rightarrow> (c # l) # ls)"

definition line_text :: "ustr \<Rightarrow> ustr" where
  "line_text l = rev (dropWhile (\<lambda>c. c = 13 \<or> c = 10) (rev l))"

fun count_crlf :: "bytes \<Rightarrow> nat" where
  "count_crlf [] = 0"
| "count_crlf [c] = 0"
| "count_crlf (c # d # s) = (if c = 13 \<and> d = 10 then Suc (count_crlf s) else count_crlf (d # s))"

definition count_lf :: "bytes \<Rightarrow> nat" where
  "count_lf b = length (filter (\<lambda>c. c = 10) b)"

section \<open>The block\<close>

definition block_start :: ustr where "block_start = u ''# >>> yasb-limitora managed block v1 (id: yasb-limitora) >>>''"
definition block_end :: ustr where "block_end = u ''# <<< yasb-limitora managed block v1 (id: yasb-limitora) <<<''"

definition block_lines :: "ustr \<Rightarrow> ustr list" where
  "block_lines invocation =
     [block_start,
      u ''# Managed by yasb-limitora setup. YASB loads this file at startup.'',
      u ''# This block is documentation only: every line is a comment.'',
      u ''# Private values remain in your own .env entries.'',
      py_join [bs] [u ''# Default configuration location: %LOCALAPPDATA%'', u ''yasb-limitora'', u ''config.json''],
      u ''# M6 no-PATH invocation (short-path alias): '' @ invocation,
      block_end]"

definition block_text :: "ustr \<Rightarrow> ustr \<Rightarrow> ustr" where
  "block_text invocation newline = py_join newline (block_lines invocation) @ newline"

definition render_block :: "ustr \<Rightarrow> ustr \<Rightarrow> py_exn + bytes option" where
  "render_block invocation newline =
     (if credential_key (block_text invocation newline) then Inr None
      else rbind (utf8_encode (block_text invocation newline)) (\<lambda>b. Inr (Some b)))"

section \<open>Rewriting the file\<close>

definition byte_order_mark :: bytes where "byte_order_mark = [239, 187, 191]"

definition newline_of :: "bytes \<Rightarrow> ustr" where
  "newline_of content =
     (if int (count_lf content) - int (count_crlf content) \<le> int (count_crlf content) then [13, 10] else [10])"

definition positions :: "ustr \<Rightarrow> ustr list \<Rightarrow> nat list" where
  "positions marker lines = filter (\<lambda>i. line_text (lines ! i) = marker) [0..<length lines]"

definition ends_line :: "bytes \<Rightarrow> bool" where
  "ends_line b \<longleftrightarrow> b \<noteq> [] \<and> (last b = 10 \<or> last b = 13)"

text \<open>A refusal is its reason, \<open>Inr (Inl reason)\<close>.\<close>

definition rewrite_content :: "bytes \<Rightarrow> ustr \<Rightarrow> py_exn + (string + bytes)" where
  "rewrite_content content invocation = (case utf8_decode content of
     Inl _ \<Rightarrow> Inr (Inl ''env-undecodable'')
   | Inr text \<Rightarrow>
       rbind (render_block invocation (newline_of content)) (\<lambda>rendered. case rendered of
         None \<Rightarrow> Inr (Inl ''env-rendered-credential'')
       | Some block \<Rightarrow>
           let lines = split_lines text; starts = positions block_start lines; ends = positions block_end lines in
           if length starts \<noteq> length ends \<or> 1 < length starts \<or> (starts \<noteq> [] \<and> hd ends \<le> hd starts)
           then Inr (Inl ''env-markers-invalid'')
           else if starts \<noteq> [] then
             rbind (utf8_encode (concat (take (hd starts) lines))) (\<lambda>before.
             rbind (utf8_encode (concat (drop (Suc (hd ends)) lines))) (\<lambda>after.
             Inr (Inr (before @ block @ after))))
           else
             rbind (if content = [] \<or> ends_line content then Inr [] else utf8_encode (newline_of content)) (\<lambda>sep.
             Inr (Inr (content @ sep @ block)))))"

definition rewrite :: "bytes \<Rightarrow> ustr \<Rightarrow> py_exn + (string + bytes)" where
  "rewrite raw invocation =
     (let bom = py_startswith raw byte_order_mark in
      rbind (rewrite_content (if bom then drop 3 raw else raw) invocation) (\<lambda>r.
      Inr (case r of Inl reason \<Rightarrow> Inl reason | Inr out \<Rightarrow> Inr ((if bom then byte_order_mark else []) @ out))))"

definition failure_reason :: "bool \<Rightarrow> string" where
  "failure_reason existed = (if existed then ''env-replace-failed'' else ''env-create-failed'')"

end
