(* ===== verification/EnvApply.thy ===== *)
theory EnvApply
  imports EnvBlock CacheFiles
begin

text \<open>
  The consented rewriting of YASB's \<open>.env\<close> on Windows (\<open>apply\<close> of \<open>src/yasb_limitora/_env_block.py\<close>): the bytes are read through a
  checked handle, backed up, written to a temporary file that replaces the target, and read back; a failure restores
  the backup.

  \<^item> A \<open>Path\<close> is a value, and its attributes and methods are calls: \<open>div\<close> is \<open>path / name\<close>, \<open>parent\<close>, \<open>path_eq\<close> the comparison of two
    paths, \<open>str\<close>, \<open>absolute\<close> the text of the absolute path, and the queries and changes of the file system by their names.
  \<^item> \<open>cf\<close> is \<open>str.casefold\<close>. The walk to the root takes fuel: a path has as many parents as components.
  \<^item> \<open>suppress(OSError)\<close> drops an \<open>OSError\<close> and no other exception.
\<close>

section \<open>Checks\<close>

definition env_unsafe :: py_exn where "env_unsafe = OSError ''unsafe''"

definition suppress_os :: "('o, 'a) prog \<Rightarrow> ('o, unit) prog" where
  "suppress_os m = catch (andthen m (ret ())) (\<lambda>e. if is_OSError e then ret () else fail e)"

definition is_runtime :: "py_exn \<Rightarrow> bool" where
  "is_runtime e = (case e of RuntimeError _ \<Rightarrow> True | _ \<Rightarrow> False)"

definition path_reparse :: "val \<Rightarrow> ('o, bool) prog" where
  "path_reparse p =
     catch (bind (ext (''lstat'', [p])) (\<lambda>m. bind (ext (''st_file_attributes'', [m])) (\<lambda>a. ret (reparse_point a))))
       (\<lambda>e. if e = FileNotFoundError then ret False else if is_OSError e then ret True else fail e)"

definition safe_path :: "nat \<Rightarrow> val \<Rightarrow> ('o, bool) prog" where
  "safe_path n path =
     catch
      (loop n (\<lambda>current.
         bind (path_reparse current) (\<lambda>r.
         if r then ret (Inr False)
         else
           bind (ext (''parent'', [current])) (\<lambda>parent.
           bind (ext (''path_eq'', [parent, current])) (\<lambda>eq.
           ret (if truthy eq then Inr True else Inl parent))))) path)
      (\<lambda>e. if is_OSError e then ret False else fail e)"

definition max_final :: int where "max_final = 32768"

definition raw_handle_final_path :: "val \<Rightarrow> ('o, val) prog" where
  "raw_handle_final_path h =
     catch
      (bind (ext (''GetFinalPathNameByHandleW'', [h, VInt max_final])) (\<lambda>k.
       case k of
         VInt k \<Rightarrow> if 0 < k \<and> k < max_final then ext (''buffer_value'', [h]) else ret VNone
       | _ \<Rightarrow> fail (TypeError ''length'')))
      (\<lambda>e. if is_OSError e then ret VNone else fail e)"

definition handle_final_path :: "val \<Rightarrow> ('o, val) prog" where
  "handle_final_path fd =
     catch (bind (ext (''get_osfhandle'', [fd])) raw_handle_final_path) (\<lambda>e. if is_OSError e \<or> is_ValueError e then ret VNone else fail e)"

definition final_matches :: "(ustr \<Rightarrow> ustr) \<Rightarrow> val \<Rightarrow> val \<Rightarrow> ('o, bool) prog" where
  "final_matches cf final path = (case final of
     VStr f \<Rightarrow> bind (ext (''absolute'', [path])) (\<lambda>a. case a of VStr s \<Rightarrow> ret (cf f = cf (extended_prefix @ s)) | _ \<Rightarrow> fail (TypeError ''path''))
   | _ \<Rightarrow> ret False)"

definition opened_at :: "(ustr \<Rightarrow> ustr) \<Rightarrow> val \<Rightarrow> val \<Rightarrow> ('o, bool) prog" where
  "opened_at cf fd path = bind (handle_final_path fd) (\<lambda>f. final_matches cf f path)"

definition both :: "('o, bool) prog \<Rightarrow> ('o, bool) prog \<Rightarrow> ('o, bool) prog" where
  "both m n = bind m (\<lambda>b. if b then n else ret False)"

definition is_dir :: "val \<Rightarrow> ('o, bool) prog" where "is_dir p = bind (ext (''is_dir'', [p])) (\<lambda>b. ret (truthy b))"
definition is_file :: "val \<Rightarrow> ('o, bool) prog" where "is_file p = bind (ext (''is_file'', [p])) (\<lambda>b. ret (truthy b))"
definition path_exists :: "val \<Rightarrow> ('o, bool) prog" where "path_exists p = bind (ext (''exists'', [p])) (\<lambda>b. ret (truthy b))"

definition require :: "('o, bool) prog \<Rightarrow> ('o, unit) prog" where
  "require m = bind m (\<lambda>b. if b then ret () else fail env_unsafe)"

section \<open>Files\<close>

text \<open>The handle of the directory is held while the body runs. \<open>ctypes.c_void_p(-1).value\<close> is that of a 64-bit process.\<close>

definition no_directory_handle :: val where "no_directory_handle = VInt (2 ^ 64 - 1)"

definition held_destination_directory :: "(ustr \<Rightarrow> ustr) \<Rightarrow> nat \<Rightarrow> val \<Rightarrow> ('o, 'a) prog \<Rightarrow> ('o, 'a) prog" where
  "held_destination_directory cf n path body =
     andthen (require (both (safe_path n path) (is_dir path)))
    (andthen (ext (''WinDLL'', []))
    (bind (ext (''str'', [path])) (\<lambda>name.
     bind (ext (''CreateFileW'', [name])) (\<lambda>h.
     bind (if h = no_directory_handle then ret False else bind (raw_handle_final_path h) (\<lambda>f. final_matches cf f path)) (\<lambda>ok.
     if \<not> ok then
       andthen (if h \<noteq> no_directory_handle then andthen (ext (''CloseHandle'', [h])) (ret ()) else ret ()) (fail env_unsafe)
     else ensure body (ext (''CloseHandle'', [h])))))))"

definition checked_read :: "(ustr \<Rightarrow> ustr) \<Rightarrow> nat \<Rightarrow> val \<Rightarrow> ('o, bytes) prog" where
  "checked_read cf n path =
     andthen (require (both (safe_path n path) (is_file path)))
    (bind (ext (''open_read'', [path])) (\<lambda>fd.
     catch
      (andthen (require (opened_at cf fd path))
      (bind (ext (''fdopen'', [fd])) (\<lambda>stream.
       ensure (bind (ext (''read'', [stream])) (\<lambda>x. case x of VBytes b \<Rightarrow> ret b | _ \<Rightarrow> fail (TypeError ''read''))) (ext (''stream_close'', [stream])))))
      (\<lambda>e. andthen (suppress_os (ext (''close_fd'', [fd]))) (fail e))))"

definition restore_backup :: "(ustr \<Rightarrow> ustr) \<Rightarrow> nat \<Rightarrow> val \<Rightarrow> val \<Rightarrow> ('o, unit) prog" where
  "restore_backup cf n backup target =
     bind (checked_read cf n backup) (\<lambda>raw.
     bind (ext (''open_write'', [target])) (\<lambda>fd.
     andthen
      (ensure
        (andthen (require (opened_at cf fd target))
        (andthen (ext (''ftruncate'', [fd, VInt 0])) (andthen (ext (''write_fd'', [fd, VBytes raw])) (ext (''fsync'', [fd])))))
        (ext (''close_fd'', [fd])))
      (require (bind (checked_read cf n target) (\<lambda>now. ret (now = raw))))))"

definition write_stream :: "val \<Rightarrow> bytes \<Rightarrow> ('o, unit) prog" where
  "write_stream stream data =
     andthen (ext (''write'', [stream, VBytes data])) (andthen (ext (''flush'', [stream]))
    (bind (ext (''fileno'', [stream])) (\<lambda>fd. andthen (ext (''fsync'', [fd])) (ret ()))))"

definition checked_backup :: "(ustr \<Rightarrow> ustr) \<Rightarrow> nat \<Rightarrow> val \<Rightarrow> bytes \<Rightarrow> ('o, val) prog" where
  "checked_backup cf n backups raw =
     bind (ext (''parent'', [backups])) (\<lambda>parent.
     andthen (require (safe_path n parent))
    (andthen (ext (''mkdir_parents'', [backups]))
    (andthen (require (both (safe_path n backups) (is_dir backups)))
    (bind (ext (''uuid4'', [])) (\<lambda>uuid.
     bind (ext (''div_backup'', [backups, uuid])) (\<lambda>backup.
     bind (ext (''open_exclusive'', [backup])) (\<lambda>fd.
     catch
      (andthen (require (both (safe_path n backup) (opened_at cf fd backup)))
      (bind (ext (''fdopen'', [fd])) (\<lambda>stream.
       andthen (ensure (write_stream stream raw) (ext (''stream_close'', [stream]))) (ret backup))))
      (\<lambda>e. andthen (suppress_os (ext (''close_fd'', [fd]))) (andthen (suppress_os (ext (''unlink'', [backup]))) (fail e))))))))))"

section \<open>The transaction\<close>

record env_vars =
  ev_backup :: "val option"
  ev_temporary :: "val option"

type_synonym 'a env_prog = "(env_vars, 'a) prog"

text \<open>\<open>mkstemp\<close> answers the pair as the name; the descriptor it opened is denoted by the name.\<close>

definition write_temporary :: "(ustr \<Rightarrow> ustr) \<Rightarrow> nat \<Rightarrow> val \<Rightarrow> bytes \<Rightarrow> val env_prog" where
  "write_temporary cf n home data =
     bind (ext (''mkstemp'', [VStr (u ''.env.yasb-limitora.tmp-''), home])) (\<lambda>t.
     andthen (update (\<lambda>v. v\<lparr>ev_temporary := Some t\<rparr>))
    (bind (ext (''fdopen'', [t])) (\<lambda>stream.
     andthen
      (ensure
        (andthen (require (both (bind (ext (''Path'', [t])) (safe_path n)) (bind (ext (''Path'', [t])) (opened_at cf t))))
          (write_stream stream data))
        (ext (''stream_close'', [stream])))
      (ret t))))"

definition replace_verified :: "(ustr \<Rightarrow> ustr) \<Rightarrow> nat \<Rightarrow> val \<Rightarrow> val \<Rightarrow> val \<Rightarrow> bytes \<Rightarrow> unit env_prog" where
  "replace_verified cf n home state_root target data =
     bind (write_temporary cf n home data) (\<lambda>t.
     andthen (require (both (safe_path n home) (both (safe_path n target) (safe_path n state_root))))
    (andthen (ext (''replace'', [t, target]))
    (bind (checked_read cf n target) (\<lambda>now. if now \<noteq> data then fail (RuntimeError ''verify'') else ret ()))))"

definition roll_back :: "(ustr \<Rightarrow> ustr) \<Rightarrow> nat \<Rightarrow> val \<Rightarrow> val \<Rightarrow> val \<Rightarrow> bool \<Rightarrow> unit env_prog" where
  "roll_back cf n home state_root target created_home =
     bind (field ev_backup) (\<lambda>backup.
     andthen (require (both (safe_path n home) (both (safe_path n state_root) (case backup of Some b \<Rightarrow> safe_path n b | None \<Rightarrow> ret True))))
    (andthen
      (case backup of
         Some b \<Rightarrow> restore_backup cf n b target
       | None \<Rightarrow> bind (both (path_exists target) (safe_path n target)) (\<lambda>b. if b then andthen (ext (''unlink'', [target])) (ret ()) else ret ()))
      (bind (if created_home then both (safe_path n home) (bind (ext (''iterdir_any'', [home])) (\<lambda>b. ret (\<not> truthy b))) else ret False) (\<lambda>b.
       if b then andthen (ext (''rmdir'', [home])) (ret ()) else ret ()))))"

definition held_attempt :: "(ustr \<Rightarrow> ustr) \<Rightarrow> nat \<Rightarrow> val \<Rightarrow> val \<Rightarrow> val \<Rightarrow> bytes \<Rightarrow> bool \<Rightarrow> bool \<Rightarrow> string option env_prog" where
  "held_attempt cf n home state_root target data created_home existed =
     bind (catch (andthen (replace_verified cf n home state_root target data) (ret None))
       (\<lambda>e. if is_runtime e then ret (Some ''env-verify-failed'') else if is_OSError e then ret (Some (failure_reason existed)) else fail e)) (\<lambda>reason.
     case reason of
       None \<Rightarrow> ret None
     | Some _ \<Rightarrow>
         catch (andthen (roll_back cf n home state_root target created_home) (ret reason))
           (\<lambda>e. if is_OSError e then ret (Some ''env-rollback-failed'') else fail e))"

definition transaction :: "(ustr \<Rightarrow> ustr) \<Rightarrow> nat \<Rightarrow> val \<Rightarrow> val \<Rightarrow> val \<Rightarrow> val \<Rightarrow> bytes \<Rightarrow> bytes \<Rightarrow> bool \<Rightarrow> bool \<Rightarrow> string option env_prog" where
  "transaction cf n home state_root target backups raw data created_home existed =
     ensure
      (catch
        (andthen (if existed then bind (checked_backup cf n backups raw) (\<lambda>b. update (\<lambda>v. v\<lparr>ev_backup := Some b\<rparr>)) else ret ())
        (andthen (require (both (safe_path n home) (safe_path n state_root)))
          (held_destination_directory cf n home (held_attempt cf n home state_root target data created_home existed))))
        (\<lambda>e. if is_OSError e then ret (Some (failure_reason existed)) else fail e))
      (bind (field ev_temporary) (\<lambda>t. case t of
         None \<Rightarrow> ret ()
       | Some t \<Rightarrow> suppress_os (bind (ext (''Path'', [t])) (\<lambda>p. ext (''unlink'', [p])))))"

text \<open>What is read before anything is written: \<open>Inl\<close> is a refusal.\<close>

definition read_target :: "(ustr \<Rightarrow> ustr) \<Rightarrow> nat \<Rightarrow> val \<Rightarrow> val \<Rightarrow> bool \<Rightarrow> bool \<Rightarrow> ('o, string + bytes) prog" where
  "read_target cf n home target created_home existed =
     catch
      (andthen (if created_home then andthen (ext (''mkdir_parents'', [home])) (ret ()) else ret ())
      (bind (safe_path n home) (\<lambda>ok.
       if \<not> ok then ret (Inl ''env-home-unsafe'')
       else if existed then bind (checked_read cf n target) (\<lambda>b. ret (Inr b)) else ret (Inr []))))
      (\<lambda>e. if is_OSError e then ret (Inl ''env-target-unsafe'') else fail e)"

definition apply_env :: "(ustr \<Rightarrow> ustr) \<Rightarrow> nat \<Rightarrow> val \<Rightarrow> val \<Rightarrow> ustr \<Rightarrow> val \<Rightarrow> ('o, string option) prog" where
  "apply_env cf n home state_root invocation consent =
     (if consent \<noteq> VBool True then ret (Some ''env-consent-required'')
      else
        bind (ext (''div'', [home, VStr (u ''.env'')])) (\<lambda>target.
        bind (ext (''div'', [state_root, VStr (u ''backups'')])) (\<lambda>backups.
        bind (safe_path n home) (\<lambda>ok. if \<not> ok then ret (Some ''env-home-unsafe'') else
        bind (safe_path n state_root) (\<lambda>ok. if \<not> ok then ret (Some ''env-state-unsafe'') else
        bind (both (path_exists target) (bind (both (safe_path n target) (is_file target)) (\<lambda>b. ret (\<not> b)))) (\<lambda>bad.
        if bad then ret (Some ''env-target-unsafe'') else
        bind (bind (path_exists home) (\<lambda>b. ret (\<not> b))) (\<lambda>created_home.
        bind (path_exists target) (\<lambda>existed.
        bind (read_target cf n home target created_home existed) (\<lambda>r. case r of
          Inl reason \<Rightarrow> ret (Some reason)
        | Inr raw \<Rightarrow>
            bind (lift_result (rewrite raw invocation)) (\<lambda>r. case r of
              Inl reason \<Rightarrow> ret (Some reason)
            | Inr data \<Rightarrow>
                with_local \<lparr>ev_backup = None, ev_temporary = None\<rparr>
                  (on_local (transaction cf n home state_root target backups raw data created_home existed))))))))))))"

end
