(* ===== verification/EnvFacts.thy ===== *)
theory EnvFacts
  imports EnvBlock CacheSample
begin

text \<open>
  What rewriting the \<open>.env\<close> file changes (\<open>EnvBlock\<close>): only the managed block, and in the end
  nothing when it is done again.
\<close>

section \<open>Strict UTF-8\<close>

text \<open>What decodes is the encoding of what it decodes to.\<close>

lemma utf8_char_exact:
  "y < 64 \<Longrightarrow> 128 \<le> x * 64 + y \<Longrightarrow> x < 32 \<Longrightarrow> utf8_char (x * 64 + y) = [192 + x, 128 + y]"
  "y < 64 \<Longrightarrow> z < 64 \<Longrightarrow> 2048 \<le> x * 4096 + y * 64 + z \<Longrightarrow> x < 16 \<Longrightarrow> utf8_char (x * 4096 + y * 64 + z) = [224 + x, 128 + y, 128 + z]"
  "y < 64 \<Longrightarrow> z < 64 \<Longrightarrow> v < 64 \<Longrightarrow> 65536 \<le> x * 262144 + y * 4096 + z * 64 + v \<Longrightarrow>
     utf8_char (x * 262144 + y * 4096 + z * 64 + v) = [240 + x, 128 + y, 128 + z, 128 + v]"
proof -
  have digit: "(k * m + z) div m = k" "(k * m + z) mod m = z" if "z < m" for k z m :: nat using that by simp_all
  show "y < 64 \<Longrightarrow> 128 \<le> x * 64 + y \<Longrightarrow> x < 32 \<Longrightarrow> utf8_char (x * 64 + y) = [192 + x, 128 + y]"
    by (simp add: utf8_char_def)
  show "utf8_char (x * 4096 + y * 64 + z) = [224 + x, 128 + y, 128 + z]"
    if "y < 64" "z < 64" "2048 \<le> x * 4096 + y * 64 + z" "x < 16"
  proof -
    have e: "x * 4096 + y * 64 + z = (x * 64 + y) * 64 + z" by simp
    have "(x * 4096 + y * 64 + z) div 4096 = x" using that by simp
    moreover have "(x * 4096 + y * 64 + z) div 64 mod 64 = y" by (simp only: e digit that)
    moreover have "(x * 4096 + y * 64 + z) mod 64 = z" by (simp only: e digit that)
    ultimately show ?thesis using that by (simp add: utf8_char_def)
  qed
  show "utf8_char (x * 262144 + y * 4096 + z * 64 + v) = [240 + x, 128 + y, 128 + z, 128 + v]"
    if "y < 64" "z < 64" "v < 64" "65536 \<le> x * 262144 + y * 4096 + z * 64 + v"
  proof -
    have e: "x * 262144 + y * 4096 + z * 64 + v = ((x * 64 + y) * 64 + z) * 64 + v"
      "x * 262144 + y * 4096 + z * 64 + v = (x * 64 + y) * 4096 + (z * 64 + v)" by simp_all
    have "(x * 262144 + y * 4096 + z * 64 + v) div 262144 = x" using that by simp
    moreover have "(x * 262144 + y * 4096 + z * 64 + v) div 4096 mod 64 = y"
    proof -
      have "z * 64 + v < 4096" using that by simp
      then show ?thesis by (simp only: e(2) digit that)
    qed
    moreover have "(x * 262144 + y * 4096 + z * 64 + v) div 64 mod 64 = z" by (simp only: e(1) digit that)
    moreover have "(x * 262144 + y * 4096 + z * 64 + v) mod 64 = v" by (simp only: e(1) digit that)
    ultimately show ?thesis using that by (simp add: utf8_char_def)
  qed
qed

lemma cont_byteE: "cont_byte b \<Longrightarrow> (\<And>y. b = 128 + y \<Longrightarrow> y < 64 \<Longrightarrow> P) \<Longrightarrow> P"
  unfolding cont_byte_def using le_Suc_ex[of 128 b] by fastforce

lemma utf8_of_decoded: "utf8_decode b = Inr s \<Longrightarrow> utf8 s = b \<and> list_all encodable s"
proof (induction b arbitrary: s rule: utf8_decode.induct)
  case (2 b r)
  consider "b < 128" | "128 \<le> b" "b < 192" | x where "b = 192 + x" "x < 32" | x where "b = 224 + x" "x < 16" | x where "b = 240 + x"
    using le_Suc_ex[of 192 b] le_Suc_ex[of 224 b] le_Suc_ex[of 240 b] by fastforce
  then show ?case
  proof cases
    case 1
    then show ?thesis using 2(1,5) by (auto simp: rbind_Inr_iff utf8_char_def encodable_def surrogate_def)
  next
    case (3 x)
    then obtain b1 r1 t where r: "r = b1 # r1" "utf8_decode r1 = Inr t" "cont_byte b1" "128 \<le> x * 64 + (b1 - 128)" "s = (x * 64 + (b1 - 128)) # t"
      using 2(5) by (simp add: rbind_Inr_iff Let_def split: list.split_asm if_split_asm) blast
    then have t: "utf8 t = r1" "list_all encodable t" using 2(2)[of b1 r1 _ t] 3 by simp_all
    obtain y where y: "b1 = 128 + y" "y < 64" using r(3) by (rule cont_byteE)
    have "x * 64 + y < 2048" using y 3 by simp
    then have "encodable (x * 64 + y)" by (simp add: encodable_def surrogate_def)
    then show ?thesis using t r utf8_char_exact(1)[of y x] y 3 by simp
  next
    case (4 x)
    then obtain b1 b2 r2 t where r: "r = b1 # b2 # r2" "utf8_decode r2 = Inr t" "cont_byte b1" "cont_byte b2"
        "2048 \<le> x * 4096 + (b1 - 128) * 64 + (b2 - 128)" "\<not> surrogate (x * 4096 + (b1 - 128) * 64 + (b2 - 128))"
        "s = (x * 4096 + (b1 - 128) * 64 + (b2 - 128)) # t"
      using 2(5) by (simp add: rbind_Inr_iff Let_def split: list.split_asm if_split_asm) blast
    then have t: "utf8 t = r2" "list_all encodable t" using 2(3)[of b1 _ b2 r2 _ t] 4 by simp_all
    obtain y z where y: "b1 = 128 + y" "y < 64" "b2 = 128 + z" "z < 64" using r(3,4) by (metis cont_byteE)
    have "x * 4096 + y * 64 + z < 65536" using y 4 by simp
    then have "encodable (x * 4096 + y * 64 + z)" using r(6) y by (simp add: encodable_def)
    then show ?thesis using t r utf8_char_exact(2)[of y z x] y 4 by simp
  next
    case (5 x)
    then obtain b1 b2 b3 r3 t where r: "r = b1 # b2 # b3 # r3" "utf8_decode r3 = Inr t" "cont_byte b1" "cont_byte b2" "cont_byte b3"
        "65536 \<le> x * 262144 + (b1 - 128) * 4096 + (b2 - 128) * 64 + (b3 - 128)"
        "x * 262144 + (b1 - 128) * 4096 + (b2 - 128) * 64 + (b3 - 128) < 1114112"
        "s = (x * 262144 + (b1 - 128) * 4096 + (b2 - 128) * 64 + (b3 - 128)) # t"
      using 2(5) by (simp add: rbind_Inr_iff Let_def split: list.split_asm if_split_asm) blast
    then have t: "utf8 t = r3" "list_all encodable t" using 2(4)[of b1 _ b2 _ b3 r3 _ t] 5 by simp_all
    obtain y z v where y: "b1 = 128 + y" "y < 64" "b2 = 128 + z" "z < 64" "b3 = 128 + v" "v < 64" using r(3-5) by (metis cont_byteE)
    have "encodable (x * 262144 + y * 4096 + z * 64 + v)" using r(6,7) y by (simp add: encodable_def surrogate_def)
    then show ?thesis using t r utf8_char_exact(3)[of y z v x] y 5 by simp
  qed (use 2(5) in simp)
qed simp

section \<open>Lines\<close>

lemma split_lines_Nil [simp]: "split_lines s = [] \<longleftrightarrow> s = []"
  by (induction s rule: split_lines.induct) (auto split: list.split)

lemma concat_split_lines [simp]: "concat (split_lines s) = s"
proof (induction s rule: split_lines.induct)
  case (3 c d s)
  then show ?case by (cases "split_lines (d # s)") auto
qed auto

text \<open>Lines that end; the lines of a text that starts with such a line.\<close>

definition ended :: "ustr \<Rightarrow> bool" where
  "ended a \<longleftrightarrow> a = [] \<or> line_break (last a)"

lemma split_lines_append:
  "ended a \<Longrightarrow> \<not> (a \<noteq> [] \<and> last a = 13 \<and> b \<noteq> [] \<and> hd b = 10) \<Longrightarrow> split_lines (a @ b) = split_lines a @ split_lines b"
proof (induction a rule: split_lines.induct)
  case (2 c)
  then show ?case by (cases b) (auto simp: ended_def)
next
  case (3 c d s)
  have e: "ended (d # s)" "\<not> (d # s \<noteq> [] \<and> last (d # s) = 13 \<and> b \<noteq> [] \<and> hd b = 10)" "ended s" if "\<not> (c = 13 \<and> d = 10 \<and> s = [])"
    using 3(4,5) by (auto simp: ended_def split: if_splits)
  show ?case
  proof (cases "c = 13 \<and> d = 10")
    case True
    then show ?thesis using 3(1) 3(4,5) by (auto simp: ended_def split: if_splits)
  next
    case False
    obtain l ls where l: "split_lines (d # s) = l # ls" by (cases "split_lines (d # s)") auto
    show ?thesis using 3(2,3) False e l by (cases "line_break c") auto
  qed
qed simp

lemma split_line: "list_all (\<lambda>c. \<not> line_break c) l \<Longrightarrow> nl = [10] \<or> nl = [13, 10] \<Longrightarrow> split_lines (l @ nl) = [l @ nl]"
proof (induction l)
  case (Cons c l)
  then have "split_lines (l @ nl) = [l @ nl]" by simp
  moreover have "\<not> line_break c" "c \<noteq> 13" using Cons.prems by (auto simp: line_break_def)
  ultimately show ?case by (cases "l @ nl") auto
qed (auto simp: line_break_def)

lemma split_line_append:
  assumes "list_all (\<lambda>c. \<not> line_break c) l" "nl = [10] \<or> nl = [13, 10]"
  shows "split_lines ((l @ nl) @ s) = (l @ nl) # split_lines s"
  using split_lines_append[of "l @ nl" s] split_line[OF assms] assms(2) by (auto simp: ended_def line_break_def)

lemma line_text_end: "l = [] \<or> last l \<noteq> 13 \<and> last l \<noteq> 10 \<Longrightarrow> nl = [10] \<or> nl = [13, 10] \<Longrightarrow> line_text (l @ nl) = l"
  by (cases l rule: rev_cases) (auto simp: line_text_def)

text \<open>Line ends are counted on each side of a cut that does not part a CR from its LF.\<close>

lemma count_crlf_append:
  "\<not> (a \<noteq> [] \<and> last a = 13 \<and> b \<noteq> [] \<and> hd b = 10) \<Longrightarrow> count_crlf (a @ b) = count_crlf a + count_crlf b"
proof (induction a rule: count_crlf.induct)
  case (2 c)
  then show ?case by (cases b) auto
next
  case (3 c d s)
  then show ?case by (cases s) (auto split: if_splits)
qed auto

lemma count_lf_append [simp]: "count_lf (a @ b) = count_lf a + count_lf b"
  by (simp add: count_lf_def)

section \<open>The block\<close>

lemma newline_cases: "newline_of c = [10] \<or> newline_of c = [13, 10]"
  by (simp add: newline_of_def)

definition unbroken :: "ustr \<Rightarrow> bool" where
  "unbroken l \<longleftrightarrow> list_all (\<lambda>c. \<not> line_break c) l"

lemma unbroken_append [simp]: "unbroken (a @ b) \<longleftrightarrow> unbroken a \<and> unbroken b"
  by (simp add: unbroken_def)

lemma line_breaks [simp]: "line_break 10" "line_break 13"
  by (simp_all add: line_break_def)

lemma unbroken_ends: "unbroken l \<Longrightarrow> 10 \<notin> set l \<and> 13 \<notin> set l"
  unfolding unbroken_def list_all_iff using line_breaks by blast

lemma block_lines_unbroken: "unbroken invocation \<Longrightarrow> list_all unbroken (block_lines invocation)"
proof -
  assume i: "unbroken invocation"
  have "list_all unbroken (block_lines [])"
    by (simp add: block_lines_def block_start_def block_end_def unbroken_def line_break_def u_def bs_def)
  then show ?thesis using i by (simp add: block_lines_def)
qed

lemma block_text_lines: "block_text invocation nl = concat (map (\<lambda>l. l @ nl) (block_lines invocation))"
proof -
  have "py_join nl ls @ nl = concat (map (\<lambda>l. l @ nl) ls)" if "ls \<noteq> []" for ls
    using that by (induction nl ls rule: py_join.induct) auto
  then show ?thesis by (simp add: block_text_def block_lines_def)
qed

lemma split_lines_lines:
  "list_all unbroken ls \<Longrightarrow> nl = [10] \<or> nl = [13, 10] \<Longrightarrow>
    split_lines (concat (map (\<lambda>l. l @ nl) ls) @ s) = map (\<lambda>l. l @ nl) ls @ split_lines s"
proof (induction ls)
  case (Cons l ls)
  then show ?case using split_line_append[of l nl "concat (map (\<lambda>l. l @ nl) ls) @ s"] by (simp add: unbroken_def)
qed simp

lemma positions_append: "positions m (xs @ ys) = positions m xs @ map (\<lambda>i. i + length xs) (positions m ys)"
proof -
  have "[0..<length (xs @ ys)] = [0..<length xs] @ map (\<lambda>i. i + length xs) [0..<length ys]"
    by (rule nth_equalityI) (auto simp: nth_append)
  moreover have "filter (\<lambda>i. line_text ((xs @ ys) ! i) = m) (map (\<lambda>i. i + length xs) zs)
      = map (\<lambda>i. i + length xs) (filter (\<lambda>i. line_text (ys ! i) = m) zs)" for zs
    by (induction zs) (auto simp: nth_append)
  moreover have "filter (\<lambda>i. line_text ((xs @ ys) ! i) = m) [0..<length xs] = filter (\<lambda>i. line_text (xs ! i) = m) [0..<length xs]"
    by (rule filter_cong) (auto simp: nth_append)
  ultimately show ?thesis by (simp add: positions_def)
qed

lemma positions_simps [simp]: "positions m [] = []"
  "positions m (l # ls) = (if line_text l = m then [0] else []) @ map Suc (positions m ls)"
  using positions_append[of m "[l]" ls] by (simp_all add: positions_def)

lemma positions_block:
  assumes "unbroken invocation" "nl = [10] \<or> nl = [13, 10]"
  shows "positions block_start (map (\<lambda>l. l @ nl) (block_lines invocation)) = [0]"
    "positions block_end (map (\<lambda>l. l @ nl) (block_lines invocation)) = [6]"
proof -
  have t: "line_text (l @ nl) = l" if "unbroken l" for l
    using line_text_end[OF _ assms(2)] unbroken_ends[OF that] by (metis last_in_set)
  then have l: "map line_text (map (\<lambda>l. l @ nl) (block_lines invocation)) = block_lines invocation"
    using block_lines_unbroken[OF assms(1)] by (simp add: list_all_iff map_idI)
  have third: "map (\<lambda>l. l ! 2) (block_lines invocation) = [62, 77, 84, 80, 68, 77, 60]" "block_start ! 2 = 62" "block_end ! 2 = 60"
    by (simp_all add: block_lines_def block_start_def block_end_def u_def nth_append)
  have len: "length (block_lines invocation) = 7" by (simp add: block_lines_def)
  have ends: "block_lines invocation ! 0 = block_start" "block_lines invocation ! 6 = block_end" by (simp_all add: block_lines_def)
  have n: "block_lines invocation ! i ! 2 = [62, 77, 84, 80, 68, 77, 60] ! i" if "i < 7" for i
    using arg_cong[OF third(1), of "\<lambda>xs. xs ! i"] that len by simp
  have p: "positions m (map (\<lambda>l. l @ nl) (block_lines invocation)) = filter (\<lambda>i. block_lines invocation ! i = m) [0..<7]" for m
    unfolding positions_def length_map len
  proof (rule filter_cong[OF refl])
    fix i assume "i \<in> set [0..<7]"
    then have "line_text (map (\<lambda>l. l @ nl) (block_lines invocation) ! i) = map line_text (map (\<lambda>l. l @ nl) (block_lines invocation)) ! i"
      using len by simp
    then show "(line_text (map (\<lambda>l. l @ nl) (block_lines invocation) ! i) = m) = (block_lines invocation ! i = m)" unfolding l by simp
  qed
  have e: "(block_lines invocation ! i = block_start) = (i = 0)" "(block_lines invocation ! i = block_end) = (i = 6)" if "i < 7" for i
  proof -
    have d: "\<forall>k < 7. ([62, 77, 84, 80, 68, 77, 60 :: nat] ! k = 62) = (k = 0)" "\<forall>k < 7. ([62, 77, 84, 80, 68, 77, 60 :: nat] ! k = 60) = (k = 6)"
      by (simp_all add: numeral_eq_Suc All_less_Suc)
    show "(block_lines invocation ! i = block_start) = (i = 0)" using d(1) n[OF that] third(2) ends(1) that by metis
    show "(block_lines invocation ! i = block_end) = (i = 6)" using d(2) n[OF that] third(3) ends(2) that by metis
  qed
  have "filter (\<lambda>i. i = 0) [0..<7] = [0 :: nat]" "filter (\<lambda>i. i = 6) [0..<7] = [6 :: nat]" by (simp_all add: upt_conv_Cons)
  moreover have "filter (\<lambda>i. block_lines invocation ! i = block_start) [0..<7] = filter (\<lambda>i. i = 0) [0..<7]"
    "filter (\<lambda>i. block_lines invocation ! i = block_end) [0..<7] = filter (\<lambda>i. i = 6) [0..<7]"
    by (rule filter_cong[OF refl], metis e atLeastLessThan_iff set_upt)+
  ultimately show "positions block_start (map (\<lambda>l. l @ nl) (block_lines invocation)) = [0]"
    "positions block_end (map (\<lambda>l. l @ nl) (block_lines invocation)) = [6]"
    unfolding p by simp_all
qed

text \<open>The line ends of the block, as bytes.\<close>

lemma utf8_no_ends: "10 \<notin> set l \<Longrightarrow> 13 \<notin> set l \<Longrightarrow> 10 \<notin> set (utf8 l) \<and> 13 \<notin> set (utf8 l)"
proof (induction l)
  case (Cons c l)
  have "10 \<notin> set (utf8_char c) \<and> 13 \<notin> set (utf8_char c)" if "c \<noteq> 10" "c \<noteq> 13"
    using that by (auto simp: utf8_char_def)
  then show ?case using Cons by auto
qed simp

lemma utf8_newline [simp]: "nl = [10] \<or> nl = [13, 10] \<Longrightarrow> utf8 nl = nl"
  by (auto intro!: utf8_ascii)

lemma count_none: "10 \<notin> set b \<Longrightarrow> count_crlf b = 0 \<and> count_lf b = 0"
  by (induction b rule: count_crlf.induct) (auto simp: count_lf_def)

lemma count_lines:
  assumes "list_all unbroken ls" "nl = [10] \<or> nl = [13, 10]"
  shows "count_lf (utf8 (concat (map (\<lambda>l. l @ nl) ls))) = length ls \<and>
    count_crlf (utf8 (concat (map (\<lambda>l. l @ nl) ls))) = (if nl = [10] then 0 else length ls)"
  using assms(1)
proof (induction ls)
  case (Cons l ls)
  let ?b = "utf8 (concat (map (\<lambda>l. l @ nl) ls))"
  have l: "10 \<notin> set (utf8 l)" "13 \<notin> set (utf8 l)" using utf8_no_ends[of l] unbroken_ends[of l] Cons.prems by auto
  have m: "\<not> (utf8 l \<noteq> [] \<and> last (utf8 l) = 13 \<and> nl @ ?b \<noteq> [] \<and> hd (nl @ ?b) = 10)" using l(2) last_in_set by metis
  have "count_crlf (utf8 l @ nl @ ?b) = count_crlf (nl @ ?b)" using count_crlf_append[OF m] count_none[OF l(1)] by simp
  moreover have "count_crlf (nl @ ?b) = (if nl = [10] then 0 else 1) + count_crlf ?b"
    using assms(2) count_crlf_append[of "[10]" ?b] by auto
  moreover have "count_lf (nl @ ?b) = 1 + count_lf ?b" using assms(2) by (auto simp: count_lf_def)
  ultimately show ?case using Cons assms(2) count_none[OF l(1)] by auto
qed (simp add: count_lf_def)

section \<open>Credentials\<close>

text \<open>No pattern matches across a line end, so whether the block looks like a credential does not depend on it.\<close>

fun linewise :: "pat list \<Rightarrow> bool" where
  "linewise [] = True"
| "linewise (Lit p # ps) = (p \<noteq> 10 \<and> p \<noteq> 13 \<and> linewise ps)"
| "linewise (AnyOpt # ps) = (case ps of Lit p # _ \<Rightarrow> linewise ps | _ \<Rightarrow> False)"

lemma re_fold_ends [simp]: "re_fold 10 = 10" "re_fold 13 = 13"
  by (simp_all add: re_fold_def)

lemma prefix_ends: "linewise ps \<Longrightarrow> ps \<noteq> [] \<Longrightarrow> \<not> pat_prefix ps (10 # r) \<and> \<not> pat_prefix ps (13 # 10 # r)"
  by (induction ps rule: linewise.induct) (auto split: list.split_asm pat.split_asm)

lemma prefix_line:
  assumes "nl = [10] \<or> nl = [13, 10]"
  shows "linewise ps \<Longrightarrow> pat_prefix ps (l @ nl @ r) = pat_prefix ps l"
proof (induction ps l rule: pat_prefix.induct)
  case (2 p ps)
  then show ?case using assms by auto
next
  case (4 ps)
  then have "linewise ps" "ps \<noteq> []" by (auto split: list.split_asm pat.split_asm)
  moreover from this have "\<not> pat_prefix ps []" using 4 by (cases ps rule: linewise.cases) (auto split: list.split_asm pat.split_asm)
  ultimately show ?case using prefix_ends[of ps r] assms by auto
next
  case (5 ps c l)
  then have "linewise ps" by (auto split: list.split_asm pat.split_asm)
  then show ?case using 5 by auto
qed auto

lemma search_line:
  assumes "nl = [10] \<or> nl = [13, 10]" "linewise ps" "ps \<noteq> []" "hd ps \<noteq> AnyOpt"
  shows "pat_search ps (l @ nl @ r) \<longleftrightarrow> pat_search ps l \<or> pat_search ps r"
proof (induction l)
  case Nil
  have "\<not> pat_search ps []" using assms(3,4) by (cases ps rule: linewise.cases) auto
  moreover have "pat_search ps (nl @ r) \<longleftrightarrow> pat_search ps r" using assms(1) prefix_ends[OF assms(2,3)] by auto
  ultimately show ?case by simp
next
  case (Cons c l)
  then show ?case using prefix_line[OF assms(1,2), of "c # l" r] by simp
qed

lemma credential_linewise: "w \<in> set credential_words \<Longrightarrow> linewise (word w) \<and> word w \<noteq> [] \<and> hd (word w) \<noteq> AnyOpt"
  by (auto simp: credential_words_def word_def)

lemma credential_lines:
  assumes "nl = [10] \<or> nl = [13, 10]"
  shows "credential_key (concat (map (\<lambda>l. l @ nl) ls)) \<longleftrightarrow> list_ex credential_key ls"
proof -
  have n: "\<not> pat_search (word w) []" if "w \<in> set credential_words" for w
    using credential_linewise[OF that] by (cases "word w" rule: linewise.cases) auto
  have "pat_search (word w) (concat (map (\<lambda>l. l @ nl) ls)) \<longleftrightarrow> (\<exists>l \<in> set ls. pat_search (word w) l)" if "w \<in> set credential_words" for w
    using credential_linewise[OF that] n[OF that] by (induction ls) (simp_all add: search_line[OF assms])
  then show ?thesis by (auto simp: credential_key_def list_ex_iff)
qed

section \<open>Cutting a text into lines\<close>

lemma split_lines_nonempty: "[] \<notin> set (split_lines s)"
  by (induction s rule: split_lines.induct) (auto split: list.split)

lemma split_lines_cut:
  "split_lines s = xs @ ys \<Longrightarrow> ys \<noteq> [] \<Longrightarrow> ended (concat xs) \<and> split_lines (concat xs) = xs \<and> split_lines (concat ys) = ys"
proof (induction s arbitrary: xs rule: split_lines.induct)
  case (2 c)
  then show ?case by (cases xs) (auto simp: ended_def)
next
  case (3 c d s)
  show ?case
  proof (cases xs)
    case Nil
    then show ?thesis using 3(4) concat_split_lines[of "c # d # s"] by (simp add: ended_def del: concat_split_lines)
  next
    case (Cons x xs')
    consider (crlf) "c = 13" "d = 10" | (brk) "\<not> (c = 13 \<and> d = 10)" "line_break c" | (plain) "\<not> (c = 13 \<and> d = 10)" "\<not> line_break c" by blast
    then show ?thesis
    proof cases
      case crlf
      then have x: "x = [13, 10]" "split_lines s = xs' @ ys" using 3(4) Cons by auto
      note IH = 3(1)[OF _ x(2) 3(5)]
      then show ?thesis using crlf x Cons by (auto simp: ended_def)
    next
      case brk
      then have x: "x = [c]" "split_lines (d # s) = xs' @ ys" using 3(4) Cons by auto
      note IH = 3(2)[OF brk x(2) 3(5)]
      have "split_lines (c # concat xs') = [c] # xs'"
      proof (cases "concat xs'")
        case Nil
        then have "xs' = []" using IH by (metis split_lines_Nil)
        then show ?thesis by simp
      next
        case (Cons e t)
        then have "e = d" using concat_split_lines[of "d # s"] x(2) by simp
        then show ?thesis using IH brk Cons by auto
      qed
      then show ?thesis using IH brk x Cons by (auto simp: ended_def)
    next
      case plain
      obtain l ls where l: "split_lines (d # s) = l # ls" by (cases "split_lines (d # s)") auto
      then have x: "x = c # l" "split_lines (d # s) = (l # xs') @ ys" using 3(4) Cons plain by auto
      note IH = 3(3)[OF plain x(2) 3(5)]
      obtain l' where l': "l = d # l'"
        using split_lines_nonempty[of "d # s"] concat_split_lines[of "d # s"] l by (cases l) auto
      then show ?thesis using IH plain x Cons l by (auto simp: ended_def)
    qed
  qed
qed simp

text \<open>A line end after a text that does not end a line goes to its last line.\<close>

lemma split_lines_snoc:
  assumes "nl = [10] \<or> nl = [13, 10]"
  shows "s \<noteq> [] \<Longrightarrow> \<not> line_break (last s) \<Longrightarrow> split_lines (s @ nl) = butlast (split_lines s) @ [last (split_lines s) @ nl]"
proof (induction s rule: split_lines.induct)
  case (2 c)
  then have "c \<noteq> 13" by auto
  then show ?case using 2 assms by auto
next
  case (3 c d s)
  show ?case
  proof (cases "c = 13 \<and> d = 10")
    case True
    then show ?thesis using 3 by (auto split: if_splits)
  next
    case False
    obtain l ls where "split_lines (d # s) = l # ls" by (cases "split_lines (d # s)") auto
    then show ?thesis using 3 False by (cases ls) (auto split: if_splits)
  qed
qed simp

lemma positions_bound: "set (positions m ls) \<subseteq> {..<length ls}"
  by (auto simp: positions_def)

lemma positions_cut:
  assumes "positions m ls = ps" "n \<le> length ls"
  shows "set (positions m (take n ls)) \<subseteq> set ps \<inter> {..<n}" "set (map (\<lambda>i. i + n) (positions m (drop n ls))) \<subseteq> set ps"
proof -
  have "positions m (take n ls) @ map (\<lambda>i. i + n) (positions m (drop n ls)) = ps"
    using positions_append[of m "take n ls" "drop n ls"] assms by simp
  then show "set (positions m (take n ls)) \<subseteq> set ps \<inter> {..<n}" "set (map (\<lambda>i. i + n) (positions m (drop n ls))) \<subseteq> set ps"
    using positions_bound[of m "take n ls"] assms(2) by auto
qed

lemma markers_not_Nil: "block_start \<noteq> []" "block_end \<noteq> []"
  by (simp_all add: block_start_def block_end_def)

lemma positions_snoc:
  assumes "positions m (split_lines s) = []" "m \<noteq> []" "nl = [10] \<or> nl = [13, 10]" "s \<noteq> []" "last s \<noteq> 10" "last s \<noteq> 13"
  shows "positions m (split_lines (s @ nl)) = []"
proof (cases "line_break (last s)")
  case True
  then have "split_lines (s @ nl) = split_lines s @ [nl]"
    using split_lines_append[of s nl] split_line[of "[]" nl] assms(3,6) by (simp add: ended_def)
  then show ?thesis using assms(1-3) by (auto simp: positions_append line_text_def)
next
  case False
  let ?ls = "split_lines s"
  have ls: "?ls = butlast ?ls @ [last ?ls]" using assms(4) by simp
  have "last (last ?ls) = last s" "last ?ls \<noteq> []"
    using concat_split_lines[of s] split_lines_nonempty[of s] ls
    by (metis append_is_Nil_conv concat.simps(1,2) concat_append append_Nil2 last_append last_in_set assms(4) split_lines_Nil)+
  then have "line_text (last ?ls @ nl) = line_text (last ?ls)"
    using line_text_end[of "last ?ls" nl] line_text_def[of "last ?ls"] assms(3,5,6) by (cases "last ?ls" rule: rev_cases) auto
  moreover have "positions m (butlast ?ls @ [last ?ls]) = []" using assms(1) ls by simp
  ultimately show ?thesis using split_lines_snoc[OF assms(3,4) False] by (simp add: positions_append split: if_splits)
qed

section \<open>Rewriting\<close>

definition fit :: "ustr \<Rightarrow> bool" where
  "fit invocation \<longleftrightarrow> \<not> list_ex credential_key (block_lines invocation) \<and> list_all (list_all encodable) (block_lines invocation)"

lemma block_encodable:
  assumes "nl = [10] \<or> nl = [13, 10]"
  shows "list_all encodable (block_text invocation nl) \<longleftrightarrow> list_all (list_all encodable) (block_lines invocation)"
proof -
  have "list_all encodable nl" using assms by (auto simp: encodable_def surrogate_def)
  then show ?thesis unfolding block_text_lines list_all_iff by auto
qed

lemma render_some:
  assumes "nl = [10] \<or> nl = [13, 10]"
  shows "render_block invocation nl = Inr (Some b) \<longleftrightarrow> fit invocation \<and> b = utf8 (block_text invocation nl)"
proof -
  have "credential_key (block_text invocation nl) = list_ex credential_key (block_lines invocation)"
    unfolding block_text_lines by (rule credential_lines[OF assms])
  then show ?thesis using block_encodable[OF assms] by (auto simp: render_block_def fit_def utf8_encode_def)
qed

lemma last_utf8: "t \<noteq> [] \<Longrightarrow> last (utf8 t) < 128 \<Longrightarrow> last t = last (utf8 t)"
proof (cases t rule: rev_cases)
  case (snoc t' c)
  assume "last (utf8 t) < 128"
  then show ?thesis using snoc by (auto simp: utf8_char_def last_append split: if_splits)
qed simp

lemma utf8_Nil [simp]: "utf8 t = [] \<longleftrightarrow> t = []"
  by (cases t) auto

lemma last_utf8_end: "t \<noteq> [] \<Longrightarrow> c < 128 \<Longrightarrow> last (utf8 t) = c \<longleftrightarrow> last t = c"
proof (cases t rule: rev_cases)
  case (snoc t' d)
  assume "c < 128"
  then show ?thesis using snoc by (auto simp: utf8_char_def)
qed simp

text \<open>What a successful rewriting found and made.\<close>

lemma rewrite_content_cases:
  assumes "rewrite_content content invocation = Inr (Inr out)"
  obtains (new) t where "content = utf8 t" "list_all encodable t" "fit invocation"
      "positions block_start (split_lines t) = []" "positions block_end (split_lines t) = []"
      "out = content @ (if content = [] \<or> ends_line content then [] else newline_of content) @ utf8 (block_text invocation (newline_of content))"
  | (old) t i j where "content = utf8 t" "list_all encodable t" "fit invocation" "i < j" "j < length (split_lines t)"
      "positions block_start (split_lines t) = [i]" "positions block_end (split_lines t) = [j]"
      "out = utf8 (concat (take i (split_lines t))) @ utf8 (block_text invocation (newline_of content)) @ utf8 (concat (drop (Suc j) (split_lines t)))"
proof -
  obtain t where t: "utf8_decode content = Inr t" using assms by (auto simp: rewrite_content_def split: sum.split_asm)
  note c = utf8_of_decoded[OF t]
  let ?ls = "split_lines t"
  have enc: "list_all encodable (concat (take n ?ls))" "list_all encodable (concat (drop n ?ls))" for n
    using c concat_split_lines[of t] by (metis append_take_drop_id concat_append list_all_append)+
  obtain b where b: "render_block invocation (newline_of content) = Inr (Some b)"
    using assms t by (auto simp: rewrite_content_def rbind_Inr_iff split: option.split_asm)
  then have f: "fit invocation" "b = utf8 (block_text invocation (newline_of content))"
    using render_some[OF newline_cases[of content]] by auto
  let ?s = "positions block_start ?ls" and ?e = "positions block_end ?ls"
  have ok: "\<not> (length ?s \<noteq> length ?e \<or> 1 < length ?s \<or> (?s \<noteq> [] \<and> hd ?e \<le> hd ?s))"
    using assms t b by (auto simp: rewrite_content_def Let_def split: if_split_asm)
  show ?thesis
  proof (cases "?s = []")
    case True
    then have "?e = []" using ok by simp
    moreover have "utf8_encode (newline_of content) = Inr (newline_of content)"
      using newline_cases[of content] by (auto simp: utf8_encode_def encodable_def surrogate_def)
    ultimately have "out = content @ (if content = [] \<or> ends_line content then [] else newline_of content) @ b"
      using assms t b True by (auto simp: rewrite_content_def Let_def split: if_split_asm)
    then show ?thesis using new[of t] c f True \<open>?e = []\<close> by simp
  next
    case False
    then obtain i j where ij: "?s = [i]" "?e = [j]" "i < j"
      using ok by (cases ?s; cases ?e) auto
    moreover have "j < length ?ls" using positions_bound[of block_end ?ls] ij by simp
    moreover have "out = utf8 (concat (take i ?ls)) @ b @ utf8 (concat (drop (Suc j) ?ls))"
      using assms t b ij enc by (simp add: rewrite_content_def Let_def utf8_encode_def)
    ultimately show ?thesis using old[of t i j] c f by simp
  qed
qed

text \<open>A file that holds one block that was written before.\<close>

definition clear_text :: "ustr \<Rightarrow> bool" where
  "clear_text t \<longleftrightarrow> list_all encodable t \<and> positions block_start (split_lines t) = [] \<and> positions block_end (split_lines t) = []"

lemma block_ends: "nl = [10] \<or> nl = [13, 10] \<Longrightarrow> \<exists>t. block_text invocation nl = 35 # t \<and> last (block_text invocation nl) = 10"
  by (auto simp: block_text_def block_lines_def block_start_def u_Cons)

lemma block_bytes: "nl = [10] \<or> nl = [13, 10] \<Longrightarrow> \<exists>t. utf8 (block_text invocation nl) = 35 # t \<and> last (utf8 (block_text invocation nl)) = 10"
  using block_ends[of nl invocation] last_utf8_end[of "block_text invocation nl" 10] by (auto simp: utf8_char_def)

lemma rewrite_block:
  assumes "clear_text pre" "ended pre" "clear_text post" "fit invocation" "unbroken invocation" "nl = [10] \<or> nl = [13, 10]"
  defines "file \<equiv> utf8 (pre @ block_text invocation nl @ post)"
  shows "rewrite_content file invocation = Inr (Inr (utf8 pre @ utf8 (block_text invocation (newline_of file)) @ utf8 post))"
proof -
  let ?b = "map (\<lambda>l. l @ nl) (block_lines invocation)"
  let ?t = "pre @ block_text invocation nl @ post"
  have enc: "list_all encodable ?t" using assms(1,3,4) block_encodable[OF assms(6)] by (simp add: clear_text_def fit_def)
  have l: "split_lines ?t = split_lines pre @ ?b @ split_lines post"
    using split_lines_append[OF assms(2), of "block_text invocation nl @ post"] block_ends[OF assms(6), of invocation]
      split_lines_lines[OF block_lines_unbroken[OF assms(5)] assms(6)] by (auto simp: block_text_lines)
  let ?n = "length (split_lines pre)"
  have n: "length ?b = 7" by (simp add: block_lines_def)
  have p: "positions block_start (split_lines ?t) = [?n]" "positions block_end (split_lines ?t) = [?n + 6]"
    unfolding l positions_append using assms(1,3) positions_block[OF assms(5,6)] by (simp_all add: clear_text_def)
  have c: "concat (take ?n (split_lines ?t)) = pre" "concat (drop (Suc (?n + 6)) (split_lines ?t)) = post"
    unfolding l using n by simp_all
  have "render_block invocation (newline_of file) = Inr (Some (utf8 (block_text invocation (newline_of file))))"
    using render_some[OF newline_cases[of "file"]] assms(4) by simp
  then show ?thesis
    using utf8_decode_encode[OF enc] enc p c
    by (simp add: rewrite_content_def file_def Let_def utf8_encode_def)
qed

text \<open>The line end of such a file, from the line ends around the block.\<close>

lemma newline_counts:
  assumes "unbroken invocation" "nl = [10] \<or> nl = [13, 10]"
  shows "newline_of (a @ utf8 (block_text invocation nl) @ c) =
    (if int (count_lf a + 7 + count_lf c) - int (count_crlf a + (if nl = [10] then 0 else 7) + count_crlf c)
        \<le> int (count_crlf a + (if nl = [10] then 0 else 7) + count_crlf c) then [13, 10] else [10])"
proof -
  let ?b = "utf8 (block_text invocation nl)"
  obtain t where b: "?b = 35 # t" "last ?b = 10" using block_bytes[OF assms(2), of invocation] by blast
  have n: "count_lf ?b = 7" "count_crlf ?b = (if nl = [10] then 0 else 7)"
    using count_lines[OF block_lines_unbroken[OF assms(1)] assms(2)] unfolding block_text_lines by (simp_all add: block_lines_def)
  have "count_crlf (a @ ?b @ c) = count_crlf a + count_crlf (?b @ c)" using b by (intro count_crlf_append) auto
  also have "count_crlf (?b @ c) = count_crlf ?b + count_crlf c" using b by (intro count_crlf_append) auto
  finally show ?thesis using n by (simp add: newline_of_def)
qed

text \<open>One rewriting of such a file settles the line end.\<close>

lemma newline_settles:
  assumes "unbroken invocation" "nl = [10] \<or> nl = [13, 10]" and "nl' = newline_of (a @ utf8 (block_text invocation nl) @ c)"
  shows "newline_of (a @ utf8 (block_text invocation nl') @ c) = nl'"
proof -
  have "nl' = [10] \<or> nl' = [13, 10]" using newline_cases assms(3) by blast
  note n = newline_counts[OF assms(1) this, of a c]
  show ?thesis unfolding n using newline_counts[OF assms(1,2), of a c, folded assms(3)] assms(2) by (auto split: if_split_asm)
qed

text \<open>A file without a block keeps its line end when the block is added.\<close>

lemma newline_added:
  assumes "unbroken invocation" "nl = newline_of content" "sep = [] \<or> sep = nl"
    "\<not> (content \<noteq> [] \<and> last content = 13 \<and> sep \<noteq> [])"
  shows "newline_of ((content @ sep) @ utf8 (block_text invocation nl)) = nl"
proof -
  have nl: "nl = [10] \<or> nl = [13, 10]" using newline_cases assms(2) by blast
  have "count_crlf (content @ sep) = count_crlf content + count_crlf sep" using assms(4) by (intro count_crlf_append) auto
  then show ?thesis
    using newline_counts[OF assms(1) nl, of "content @ sep" "[]"] assms(2,3) nl
    by (auto simp: newline_of_def count_lf_def split: if_split_asm)
qed

text \<open>The lines before and after the block found in a file, and all lines of a file without one.\<close>

lemma old_parts:
  assumes "list_all encodable t" "positions block_start (split_lines t) = [i]" "positions block_end (split_lines t) = [j]" "i < j"
    "j < length (split_lines t)"
  shows "clear_text (concat (take i (split_lines t)))" "ended (concat (take i (split_lines t)))" "clear_text (concat (drop (Suc j) (split_lines t)))"
proof -
  let ?ls = "split_lines t"
  have enc: "list_all encodable (concat (take n ?ls))" "list_all encodable (concat (drop n ?ls))" for n
    using assms(1) concat_split_lines[of t] by (metis append_take_drop_id concat_append list_all_append)+
  have pre: "ended (concat (take i ?ls))" "split_lines (concat (take i ?ls)) = take i ?ls"
    using split_lines_cut[of t "take i ?ls" "drop i ?ls"] assms(4,5) by simp_all
  have post: "split_lines (concat (drop (Suc j) ?ls)) = drop (Suc j) ?ls"
    using split_lines_cut[of t "take (Suc j) ?ls" "drop (Suc j) ?ls"] by (cases "drop (Suc j) ?ls = []") simp_all
  have "positions block_start (take i ?ls) = []" "positions block_end (take i ?ls) = []"
    using positions_cut(1)[OF assms(2), of i] positions_cut(1)[OF assms(3), of i] assms(4,5) by auto
  moreover have "positions block_start (drop (Suc j) ?ls) = []" "positions block_end (drop (Suc j) ?ls) = []"
    using positions_cut(2)[OF assms(2), of "Suc j"] positions_cut(2)[OF assms(3), of "Suc j"] assms(4,5)
    by (cases "positions block_start (drop (Suc j) ?ls)"; cases "positions block_end (drop (Suc j) ?ls)"; auto)+
  ultimately show "clear_text (concat (take i ?ls))" "ended (concat (take i ?ls))" "clear_text (concat (drop (Suc j) ?ls))"
    using pre post enc by (simp_all add: clear_text_def)
qed

lemma ends_line_utf8: "t \<noteq> [] \<Longrightarrow> ends_line (utf8 t) \<longleftrightarrow> last t = 10 \<or> last t = 13"
  using last_utf8_end[of t 10] last_utf8_end[of t 13] by (auto simp: ends_line_def)

lemma new_part:
  assumes "list_all encodable t" "positions block_start (split_lines t) = []" "positions block_end (split_lines t) = []"
    "nl = [10] \<or> nl = [13, 10]" "sep = (if t = [] \<or> ends_line (utf8 t) then [] else nl)"
  shows "clear_text (t @ sep)" "ended (t @ sep)"
proof -
  have "list_all encodable sep" using assms(4,5) by (auto simp: encodable_def surrogate_def)
  moreover have "t \<noteq> [] \<Longrightarrow> ends_line (utf8 t) \<Longrightarrow> line_break (last t)" using ends_line_utf8[of t] by auto
  moreover have "line_break (last nl)" "nl \<noteq> []" using assms(4) by auto
  ultimately show "clear_text (t @ sep)" "ended (t @ sep)"
    using positions_snoc[OF assms(2) markers_not_Nil(1) assms(4)] positions_snoc[OF assms(3) markers_not_Nil(2) assms(4)] assms(1-3,5)
      ends_line_utf8[of t]
    by (auto simp: clear_text_def ended_def)
qed

section \<open>The byte order mark\<close>

definition content_of :: "bytes \<Rightarrow> bytes" where
  "content_of raw = (if py_startswith raw byte_order_mark then drop 3 raw else raw)"

definition mark_of :: "bytes \<Rightarrow> bytes" where
  "mark_of raw = (if py_startswith raw byte_order_mark then byte_order_mark else [])"

lemma mark_content: "raw = mark_of raw @ content_of raw"
proof (cases "py_startswith raw byte_order_mark")
  case True
  then have "take 3 raw = byte_order_mark" by (simp add: py_startswith_iff byte_order_mark_def numeral_3_eq_3)
  then show ?thesis using append_take_drop_id[of 3 raw] True by (simp add: mark_of_def content_of_def)
qed (simp add: mark_of_def content_of_def)

lemma rewrite_iff: "rewrite raw invocation = Inr (Inr out) \<longleftrightarrow>
    (\<exists>c. rewrite_content (content_of raw) invocation = Inr (Inr c) \<and> out = mark_of raw @ c)"
proof -
  have "rewrite raw invocation = rbind (rewrite_content (content_of raw) invocation)
      (\<lambda>r. Inr (case r of Inl reason \<Rightarrow> Inl reason | Inr c \<Rightarrow> Inr (mark_of raw @ c)))"
    unfolding rewrite_def Let_def content_of_def mark_of_def by (cases "py_startswith raw byte_order_mark") (simp_all only: if_True if_False)
  then show ?thesis
    by (cases "rewrite_content (content_of raw) invocation" rule: sum.exhaust; cases "projr (rewrite_content (content_of raw) invocation)") auto
qed

text \<open>Rewriting neither adds nor removes the mark.\<close>

lemma mark_prefix: "p \<noteq> [] \<Longrightarrow> py_startswith (utf8 p @ x) byte_order_mark = py_startswith (utf8 p @ y) byte_order_mark"
  by (cases p) (auto simp: utf8_char_def byte_order_mark_def)

lemma mark_kept:
  assumes "rewrite_content content invocation = Inr (Inr c)" "\<not> py_startswith content byte_order_mark"
  shows "\<not> py_startswith c byte_order_mark"
  using assms(1)
proof (cases rule: rewrite_content_cases)
  case (new t)
  then show ?thesis
    using assms(2) mark_prefix[of t "[]"] block_bytes[OF newline_cases[of content], of invocation]
    by (cases "t = []") (auto simp: byte_order_mark_def)
next
  case (old t i j)
  let ?p = "concat (take i (split_lines t))"
  have "content = utf8 ?p @ utf8 (concat (drop i (split_lines t)))"
    using old(1) by (metis append_take_drop_id concat_append concat_split_lines utf8_simps(3))
  then show ?thesis
    using assms(2) old(8) mark_prefix[of ?p] block_bytes[OF newline_cases[of content], of invocation]
    by (cases "?p = []") (auto simp: byte_order_mark_def)
qed

lemma content_again:
  assumes "rewrite_content (content_of raw) invocation = Inr (Inr c)"
  shows "content_of (mark_of raw @ c) = c \<and> mark_of (mark_of raw @ c) = mark_of raw"
proof (cases "py_startswith raw byte_order_mark")
  case False
  then show ?thesis using mark_kept[OF assms] by (simp add: content_of_def mark_of_def)
qed (simp add: content_of_def mark_of_def byte_order_mark_def)

section \<open>Properties\<close>

definition has_block :: "bytes \<Rightarrow> bool" where
  "has_block raw = (case utf8_decode (content_of raw) of Inr t \<Rightarrow> positions block_start (split_lines t) \<noteq> [] | Inl _ \<Rightarrow> False)"

lemma rewrite_content_settles:
  assumes "rewrite_content content invocation = Inr (Inr c)" "unbroken invocation"
  shows "if positions block_start (split_lines (case utf8_decode content of Inr t \<Rightarrow> t | Inl _ \<Rightarrow> [])) = []
    then rewrite_content c invocation = Inr (Inr c)
    else \<exists>d. rewrite_content c invocation = Inr (Inr d) \<and> rewrite_content d invocation = Inr (Inr d)"
  using assms(1)
proof (cases rule: rewrite_content_cases)
  case (new t)
  let ?nl = "newline_of content"
  let ?sep = "if t = [] \<or> ends_line (utf8 t) then [] else ?nl"
  note p = new_part[OF new(2,4,5) newline_cases[of content] refl]
  have c: "c = utf8 ((t @ ?sep) @ block_text invocation ?nl @ [])" using new(1,6) newline_cases[of content] by auto
  have "newline_of c = ?nl"
    using newline_added[OF assms(2) refl, of ?sep content] new(1) newline_cases[of content] unfolding c by (auto simp: ends_line_def)
  then show ?thesis
    using rewrite_block[OF p _ new(3) assms(2) newline_cases[of content], of "[]"] utf8_decode_encode[OF new(2)] new(1,4) c
    by (simp add: clear_text_def)
next
  case (old t i j)
  let ?pre = "concat (take i (split_lines t))" and ?post = "concat (drop (Suc j) (split_lines t))" and ?nl = "newline_of content"
  note p = old_parts[OF old(2,6,7,4,5)]
  let ?d = "utf8 ?pre @ utf8 (block_text invocation (newline_of c)) @ utf8 ?post"
  have "newline_of ?d = newline_of c"
    using newline_settles[OF assms(2) newline_cases[of content], of "newline_of c" "utf8 ?pre" "utf8 ?post"] old(8) by simp
  moreover have "rewrite_content c invocation = Inr (Inr ?d)"
    using rewrite_block[OF p old(3) assms(2) newline_cases[of content]] old(8) by simp
  moreover have "rewrite_content ?d invocation = Inr (Inr (utf8 ?pre @ utf8 (block_text invocation (newline_of ?d)) @ utf8 ?post))"
    using rewrite_block[OF p old(3) assms(2) newline_cases[of c]] by simp
  ultimately show ?thesis using utf8_decode_encode[OF old(2)] old(1,6) by simp
qed

text \<open>The lines of the block found in a file.\<close>

definition managed :: "bytes \<Rightarrow> bool" where
  "managed b \<longleftrightarrow> (\<exists>first inner last. b = utf8 (concat (first # inner @ [last])) \<and> line_text first = block_start \<and> line_text last = block_end)"

lemma positions_nth: "positions m ls = [i] \<Longrightarrow> line_text (ls ! i) = m"
proof -
  assume "positions m ls = [i]"
  then have "i \<in> set (filter (\<lambda>i. line_text (ls ! i) = m) [0..<length ls])" by (simp add: positions_def)
  then show ?thesis by simp
qed

lemma cut_block: "i < j \<Longrightarrow> j < length ls \<Longrightarrow> ls = take i ls @ (ls ! i # take (j - Suc i) (drop (Suc i) ls) @ [ls ! j]) @ drop (Suc j) ls"
proof -
  assume ij: "i < j" "j < length ls"
  have "drop (Suc i) ls = take (j - Suc i) (drop (Suc i) ls) @ drop j ls"
    using append_take_drop_id[of "j - Suc i" "drop (Suc i) ls"] ij by simp
  then show ?thesis using ij by (metis (no_types, lifting) Cons_nth_drop_Suc Suc_lessD append_Cons append_assoc append_take_drop_id less_trans_Suc append_Nil)
qed

text \<open>The file with its block replaced, or added at the end on a line of its own.\<close>

definition only_block :: "bytes \<Rightarrow> bytes \<Rightarrow> ustr \<Rightarrow> bool" where
  "only_block raw out invocation \<longleftrightarrow>
     (let content = content_of raw; nl = newline_of content; block = utf8 (block_text invocation nl) in
      \<not> credential_key (block_text invocation nl)
      \<and> (if has_block raw then \<exists>pre found post. raw = pre @ found @ post \<and> managed found \<and> out = pre @ block @ post
         else out = raw @ (if content = [] \<or> ends_line content then [] else nl) @ block))"

lemma rewrite_preserves:
  assumes "rewrite raw invocation = Inr (Inr out)"
  shows "only_block raw out invocation"
proof -
  let ?content = "content_of raw"
  let ?nl = "newline_of ?content"
  obtain c where c: "rewrite_content ?content invocation = Inr (Inr c)" "out = mark_of raw @ c" using assms by (auto simp: rewrite_iff)
  have cred: "\<not> credential_key (block_text invocation ?nl)" if "fit invocation"
    using that credential_lines[OF newline_cases[of ?content]] by (simp add: fit_def block_text_lines)
  show ?thesis using c(1)
  proof (cases rule: rewrite_content_cases)
    case (new t)
    have "\<not> has_block raw" using utf8_decode_encode[OF new(2)] new(1,4) by (simp add: has_block_def)
    moreover have "out = raw @ (if ?content = [] \<or> ends_line ?content then [] else ?nl) @ utf8 (block_text invocation ?nl)"
      using new(6) c(2) mark_content[of raw] by (metis append_assoc)
    ultimately show ?thesis using cred[OF new(3)] by (simp add: only_block_def Let_def)
  next
    case (old t i j)
    let ?ls = "split_lines t"
    let ?found = "concat (?ls ! i # take (j - Suc i) (drop (Suc i) ?ls) @ [?ls ! j])"
    have "concat ?ls = concat (take i ?ls) @ ?found @ concat (drop (Suc j) ?ls)"
      using arg_cong[OF cut_block[OF old(4,5)], of concat] by (simp del: concat_split_lines)
    from arg_cong[OF this, of utf8]
    have "?content = utf8 (concat (take i ?ls)) @ utf8 ?found @ utf8 (concat (drop (Suc j) ?ls))"
      unfolding old(1) concat_split_lines utf8_simps(3) .
    then have "raw = (mark_of raw @ utf8 (concat (take i ?ls))) @ utf8 ?found @ utf8 (concat (drop (Suc j) ?ls))"
      using mark_content[of raw] by simp
    moreover have "managed (utf8 ?found)"
      unfolding managed_def using positions_nth[OF old(6)] positions_nth[OF old(7)] by blast
    moreover have "out = (mark_of raw @ utf8 (concat (take i ?ls))) @ utf8 (block_text invocation ?nl) @ utf8 (concat (drop (Suc j) ?ls))"
      using old(8) c(2) by simp
    moreover have "has_block raw" using utf8_decode_encode[OF old(2)] old(1,6) by (simp add: has_block_def)
    ultimately show ?thesis using cred[OF old(3)] unfolding only_block_def Let_def if_P[OF \<open>has_block raw\<close>] by blast
  qed
qed

lemma rewrite_settles:
  assumes "rewrite raw invocation = Inr (Inr out)" "unbroken invocation"
  shows "if has_block raw then \<exists>again. rewrite out invocation = Inr (Inr again) \<and> rewrite again invocation = Inr (Inr again)
    else rewrite out invocation = Inr (Inr out)"
proof -
  obtain c where c: "rewrite_content (content_of raw) invocation = Inr (Inr c)" "out = mark_of raw @ c" using assms(1) by (auto simp: rewrite_iff)
  have o: "content_of out = c" "mark_of out = mark_of raw" using content_again[OF c(1)] c(2) by simp_all
  have b: "has_block raw \<longleftrightarrow> positions block_start (split_lines (case utf8_decode (content_of raw) of Inr t \<Rightarrow> t | Inl _ \<Rightarrow> [])) \<noteq> []"
    by (simp add: has_block_def split: sum.split)
  show ?thesis
  proof (cases "has_block raw")
    case False
    then show ?thesis using rewrite_content_settles[OF c(1) assms(2)] b o c(2) by (simp add: rewrite_iff)
  next
    case True
    then obtain d where d: "rewrite_content c invocation = Inr (Inr d)" "rewrite_content d invocation = Inr (Inr d)"
      using rewrite_content_settles[OF c(1) assms(2)] b by auto
    have "content_of (mark_of raw @ d) = d" "mark_of (mark_of raw @ d) = mark_of raw"
      using content_again[of out invocation d] d(1) o by simp_all
    then have "rewrite out invocation = Inr (Inr (mark_of raw @ d))" "rewrite (mark_of raw @ d) invocation = Inr (Inr (mark_of raw @ d))"
      using d o by (simp_all add: rewrite_iff)
    then show ?thesis using True by simp
  qed
qed

text \<open>C40: rewriting YASB's file keeps every byte of the user. A file that had no managed block is kept whole and the block is added at
  its end, on a line of its own; of a file that had one the bytes before and after it are kept, a byte order mark
  included, and the block is replaced. No text that looks like a credential is in the new block. Writing the block again
  changes nothing: a file that had no block is a fixed point once it has been rewritten, a file that had one is after the second
  time, since the lines that stood in the old block may have decided the line end.
\<close>

theorem rewrite_sound:
  assumes "rewrite raw invocation = Inr (Inr out)" "unbroken invocation"
  shows "only_block raw out invocation
    \<and> (if has_block raw then \<exists>again. rewrite out invocation = Inr (Inr again) \<and> rewrite again invocation = Inr (Inr again)
       else rewrite out invocation = Inr (Inr out))"
  using rewrite_preserves[OF assms(1)] rewrite_settles[OF assms] by simp

text \<open>A small file, and the words searched one by one.\<close>

lemma credential_key_eval: "credential_key s = list_ex (\<lambda>w. lit_search w (map re_fold s)) (map word credential_words)"
  by (auto simp: credential_key_def list_ex_iff lit_search)

lemma sample_fit: "fit (u ''C:'')"
proof -
  have w: "map word credential_words = [[Lit 97, Lit 117, Lit 116, Lit 104, AnyOpt, Lit 99, Lit 111, Lit 111, Lit 107, Lit 105, Lit 101],
       [Lit 99, Lit 111, Lit 111, Lit 107, Lit 105, Lit 101],
       [Lit 116, Lit 111, Lit 107, Lit 101, Lit 110],
       [Lit 112, Lit 97, Lit 115, Lit 115, Lit 119, Lit 111, Lit 114, Lit 100],
       [Lit 115, Lit 101, Lit 99, Lit 114, Lit 101, Lit 116],
       [Lit 99, Lit 114, Lit 101, Lit 100, Lit 101, Lit 110, Lit 116, Lit 105, Lit 97, Lit 108],
       [Lit 97, Lit 112, Lit 105, AnyOpt, Lit 107, Lit 101, Lit 121],
       [Lit 97, Lit 117, Lit 116, Lit 104, Lit 111, Lit 114, Lit 105, Lit 122, Lit 97, Lit 116, Lit 105, Lit 111, Lit 110]]"
    by (simp add: credential_words_def word_def)
  have "list_all (list_all encodable) (block_lines (u ''C:''))"
    by (simp add: block_lines_def block_start_def block_end_def bs_def encodable_def surrogate_def)
  moreover have "\<not> list_ex credential_key (block_lines (u ''C:''))"
    unfolding block_lines_def block_start_def block_end_def bs_def u_Cons u_Nil py_join.simps append.simps credential_key_eval w
    by (simp add: re_fold_def)
  ultimately show ?thesis by (simp add: fit_def)
qed

lemma sample_rewrite: "\<exists>out. rewrite (u ''A=1'') (u ''C:'') = Inr (Inr out)"
proof -
  have t: "utf8_decode (u ''A=1'') = Inr (u ''A=1'')" "split_lines (u ''A=1'') = [u ''A=1'']"
    by (simp_all add: u_Cons line_break_def)
  have p: "positions block_start [u ''A=1''] = []" "positions block_end [u ''A=1''] = []"
    by (simp_all add: line_text_def u_Cons block_start_def block_end_def)
  have n: "newline_of (u ''A=1'') = [13, 10]" "\<not> ends_line (u ''A=1'')" "u ''A=1'' \<noteq> []"
    by (simp_all add: newline_of_def count_lf_def u_Cons ends_line_def)
  have "render_block (u ''C:'') [13, 10] = Inr (Some (utf8 (block_text (u ''C:'') [13, 10])))" using sample_fit by (simp add: render_some)
  moreover have "utf8_encode [13, 10] = Inr [13, 10]" by (simp add: utf8_encode_def encodable_def surrogate_def utf8_char_def)
  ultimately have "rewrite_content (u ''A=1'') (u ''C:'') = Inr (Inr (u ''A=1'' @ [13, 10] @ utf8 (block_text (u ''C:'') [13, 10])))"
    using n p t by (simp add: rewrite_content_def Let_def del: u_eq_Nil positions_simps)
  moreover have "\<not> py_startswith (u ''A=1'') byte_order_mark" by (simp add: byte_order_mark_def u_Cons)
  ultimately show ?thesis by (simp add: rewrite_def Let_def)
qed

theorem rewrite_sound_witness:
  "\<exists>out. rewrite (u ''A=1'') (u ''C:'') = Inr (Inr out) \<and> only_block (u ''A=1'') out (u ''C:'') \<and> rewrite out (u ''C:'') = Inr (Inr out)"
proof -
  obtain out where r: "rewrite (u ''A=1'') (u ''C:'') = Inr (Inr out)" using sample_rewrite by blast
  have "unbroken (u ''C:'')" by (simp add: unbroken_def u_Cons line_break_def)
  moreover have "\<not> has_block (u ''A=1'')"
    by (simp add: has_block_def content_of_def byte_order_mark_def u_Cons line_break_def line_text_def block_start_def)
  ultimately show ?thesis using rewrite_sound[OF r] r by auto
qed

end
