(* ===== verification/EnvApplyFacts.thy ===== *)
theory EnvApplyFacts
  imports EnvApply EnvFacts Traces
begin

text \<open>
  A consented rewriting that reports success (\<open>EnvApply\<close>) has replaced the file by the bytes it meant, read them back, and kept a
  copy of what was there.
\<close>

section \<open>Calls that write nothing\<close>

definition looking :: "string set" where
  "looking = {''lstat'', ''st_file_attributes'', ''parent'', ''path_eq'', ''GetFinalPathNameByHandleW'', ''buffer_value'', ''get_osfhandle'',
     ''absolute'', ''is_dir'', ''is_file'', ''exists'', ''WinDLL'', ''str'', ''CreateFileW'', ''CloseHandle'', ''open_read'', ''fdopen'',
     ''read'', ''stream_close'', ''close_fd'', ''Path'', ''div'', ''unlink'', ''mkdir_parents''}"

definition looks :: "answered list \<Rightarrow> bool" where
  "looks tr \<longleftrightarrow> (\<forall>a \<in> set tr. fst (fst a) \<in> looking)"

lemma looks_simps [simp]: "looks []" "looks (a # tr) \<longleftrightarrow> fst (fst a) \<in> looking \<and> looks tr" "looks (tr @ tr') \<longleftrightarrow> looks tr \<and> looks tr'"
  by (auto simp: looks_def)

lemma suppress_calls [calls_intros]: "calls N m \<Longrightarrow> calls N (suppress_os m)"
  unfolding suppress_os_def by (intro calls_intros)

lemma both_calls [calls_intros]: "calls N m \<Longrightarrow> calls N n \<Longrightarrow> calls N (both m n)"
  unfolding both_def by (intro calls_intros)

lemma require_calls [calls_intros]: "calls N m \<Longrightarrow> calls N (require m)"
  unfolding require_def by (intro calls_intros)

lemma looking_calls [calls_intros]: "calls looking (safe_path n p)" "calls looking (raw_handle_final_path h)" "calls looking (final_matches cf f p)"
  "calls looking (opened_at cf fd p)" "calls looking (is_dir p)" "calls looking (is_file p)" "calls looking (path_exists p)"
  unfolding safe_path_def path_reparse_def raw_handle_final_path_def final_matches_def opened_at_def handle_final_path_def is_dir_def is_file_def path_exists_def
  by (auto simp: looking_def intro!: calls_intros)

lemma checked_read_calls [calls_intros]: "calls looking (checked_read cf n p)"
  unfolding checked_read_def by (intro calls_intros) (simp_all add: looking_def)

lemma looking_yields: "calls looking m \<Longrightarrow> yields m (\<lambda>_ tr. looks tr)"
  using yields_calls unfolding looks_def .

section \<open>Success\<close>

text \<open>A read through a checked handle gave \<open>b\<close>; a stream got \<open>b\<close> and was synchronized.\<close>

definition has_read :: "bytes \<Rightarrow> answered list \<Rightarrow> bool" where
  "has_read b tr \<longleftrightarrow> (\<exists>st. ((''read'', [st]), Inr (VBytes b)) \<in> set tr)"

definition has_written :: "bytes \<Rightarrow> answered list \<Rightarrow> bool" where
  "has_written b tr \<longleftrightarrow> (\<exists>st r d q before between after. tr = before @ ((''write'', [st, VBytes b]), Inr r) # between @ ((''fsync'', [d]), Inr q) # after)"

lemma has_writtenI: "has_written b (((''write'', [st, VBytes b]), Inr r) # between @ [((''fsync'', [d]), Inr q)])"
  unfolding has_written_def by (metis append_Nil)

lemma has_read_append: "has_read b tr \<Longrightarrow> has_read b (tr1 @ tr @ tr2)"
  by (auto simp: has_read_def)

lemma has_written_append: "has_written b tr \<Longrightarrow> has_written b (tr1 @ tr @ tr2)"
  unfolding has_written_def by (metis append_Cons append_assoc)

lemma read_yields: "yields (checked_read cf n p) (\<lambda>b tr. looks tr \<and> has_read b tr)"
proof -
  have r: "yields (bind (ext (''read'', [st])) (\<lambda>x. case x of VBytes b \<Rightarrow> ret b | _ \<Rightarrow> fail (TypeError ''read'')))
      (\<lambda>b tr. tr = [((''read'', [st]), Inr (VBytes b))])" for st
    by (rule yields_mono[OF yields_bind[OF yields_ext, where S = "\<lambda>x b tr. x = VBytes b \<and> tr = []"]])
      (auto simp: yields_def wp_simps split: val.split)
  have s: "yields (ensure (bind (ext (''read'', [st])) (\<lambda>x. case x of VBytes b \<Rightarrow> ret b | _ \<Rightarrow> fail (TypeError ''read''))) (ext (''stream_close'', [st])))
      (\<lambda>b tr. looks tr \<and> has_read b tr)" for st
    by (rule yields_mono[OF yields_ensure[OF r yields_ext]]) (auto simp: has_read_def looking_def)
  have "yields (andthen (require (opened_at cf fd p)) (bind (ext (''fdopen'', [fd])) (\<lambda>st.
      ensure (bind (ext (''read'', [st])) (\<lambda>x. case x of VBytes b \<Rightarrow> ret b | _ \<Rightarrow> fail (TypeError ''read''))) (ext (''stream_close'', [st])))))
      (\<lambda>b tr. looks tr \<and> has_read b tr)" for fd
    by (rule yields_mono[OF yields_andthen[OF looking_yields[OF require_calls[OF looking_calls(4)]] yields_bind[OF yields_ext s]]])
      (auto simp: has_read_def looking_def)
  then have c: "yields (catch (andthen (require (opened_at cf fd p)) (bind (ext (''fdopen'', [fd])) (\<lambda>st.
      ensure (bind (ext (''read'', [st])) (\<lambda>x. case x of VBytes b \<Rightarrow> ret b | _ \<Rightarrow> fail (TypeError ''read''))) (ext (''stream_close'', [st])))))
      (\<lambda>e. andthen (suppress_os (ext (''close_fd'', [fd]))) (fail e))) (\<lambda>b tr. looks tr \<and> has_read b tr)" for fd
    by (rule yields_catch[where P = "\<lambda>_. False"])
      (rule yields_mono[OF yields_andthen[OF yields_calls[OF suppress_calls[OF calls_ext[OF UNIV_I]]] yields_pure(2)]], auto)
  show ?thesis
    unfolding checked_read_def
    by (rule yields_mono[OF yields_andthen[OF looking_yields[OF require_calls[OF both_calls[OF looking_calls(1,6)]]] yields_bind[OF yields_ext c]]])
      (auto simp: has_read_def looking_def)
qed

lemma write_stream_yields: "yields (write_stream st data) (\<lambda>_ tr. has_written data tr)"
proof -
  have f: "yields (bind (ext (''fileno'', [st])) (\<lambda>fd. andthen (ext (''fsync'', [fd])) (ret ())))
      (\<lambda>_ tr. \<exists>x d q. tr = [x, ((''fsync'', [d]), Inr q)])"
    by (rule yields_mono[OF yields_bind[OF yields_ext yields_andthen[OF yields_ext yields_pure(1)]]]) auto
  show ?thesis
    unfolding write_stream_def
    by (rule yields_mono[OF yields_andthen[OF yields_ext yields_andthen[OF yields_ext f]]]) 
      (auto intro: has_writtenI[where between = "[_, _]", simplified])
qed

lemma stream_yields:
  "yields m (\<lambda>_ tr. True) \<Longrightarrow> yields (ensure (andthen m (write_stream st data)) (ext (''stream_close'', [st]))) (\<lambda>_ tr. has_written data tr)"
  by (rule yields_mono[OF yields_ensure[OF yields_andthen[OF _ write_stream_yields] yields_ext]])
    (auto dest: has_written_append[where ?tr2.0 = "[_]"] simp: append_assoc)

lemma yields_any: "calls UNIV m \<Longrightarrow> yields m (\<lambda>_ _. True)"
  by (erule yields_mono[OF yields_calls]) simp

lemma write_temporary_yields: "yields (write_temporary cf n home data) (\<lambda>_ tr. has_written data tr)"
proof -
  have c: "yields (require (both (bind (ext (''Path'', [t])) (safe_path n)) (bind (ext (''Path'', [t])) (opened_at cf t)))) (\<lambda>_ _. True)" for t
    by (intro yields_any require_calls both_calls calls_bind calls_ext UNIV_I) (rule calls_mono[OF looking_calls(1)] calls_mono[OF looking_calls(4)], simp)+
  show ?thesis
    unfolding write_temporary_def
    by (rule yields_mono[OF yields_bind[OF yields_ext yields_andthen[OF yields_pure(4) yields_bind[OF yields_ext yields_andthen[OF stream_yields[OF c] yields_pure(1)]]]]])
      (auto intro: has_written_append[where ?tr1.0 = "[_, _]" and ?tr2.0 = "[]", simplified])
qed

text \<open>The file was replaced after its bytes were written, and read back after it.\<close>

definition replaced_by :: "bytes \<Rightarrow> answered list \<Rightarrow> bool" where
  "replaced_by data tr \<longleftrightarrow> (\<exists>before t target r after. tr = before @ ((''replace'', [t, target]), Inr r) # after
     \<and> has_written data before \<and> looks after \<and> has_read data after)"

lemma replaced_by_append: "replaced_by data tr \<Longrightarrow> looks tr2 \<Longrightarrow> replaced_by data (tr1 @ tr @ tr2)"
proof -
  assume "replaced_by data tr" and l: "looks tr2"
  then obtain before t target r after where d: "tr = before @ ((''replace'', [t, target]), Inr r) # after"
    "has_written data before" "looks after" "has_read data after" unfolding replaced_by_def by blast
  have "tr1 @ tr @ tr2 = (tr1 @ before) @ ((''replace'', [t, target]), Inr r) # (after @ tr2)" using d by simp
  moreover have "has_written data (tr1 @ before)" using has_written_append[OF d(2), of tr1 "[]"] by simp
  moreover have "has_read data (after @ tr2)" using has_read_append[OF d(4), of "[]" tr2] by simp
  ultimately show ?thesis unfolding replaced_by_def using d(3) l by (metis looks_simps(3))
qed

lemma replace_verified_yields: "yields (replace_verified cf n home state_root target data) (\<lambda>_ tr. replaced_by data tr)"
proof -
  have r: "yields (bind (checked_read cf n target) (\<lambda>now. if now \<noteq> data then fail (RuntimeError ''verify'') else ret ()))
      (\<lambda>_ tr. looks tr \<and> has_read data tr)"
    by (rule yields_mono[OF yields_bind[OF read_yields, where S = "\<lambda>x _ tr. x = data \<and> tr = []"]]) (auto simp: yields_def wp_simps)
  have c: "yields (require (both (safe_path n home) (both (safe_path n target) (safe_path n state_root)))) (\<lambda>_ tr. looks tr)"
    by (intro looking_yields require_calls both_calls looking_calls)
  show ?thesis
    unfolding replace_verified_def
  proof (rule yields_mono[OF yields_bind[OF write_temporary_yields yields_andthen[OF c yields_andthen[OF yields_ext r]]]])
    fix x and tr :: "answered list"
    assume "\<exists>t tr1 tr2. tr = tr1 @ tr2 \<and> has_written data tr1 \<and> (\<exists>x tr1 tr2'. tr2 = tr1 @ tr2' \<and> looks tr1 \<and>
        (\<exists>x tr1 tr2. tr2' = tr1 @ tr2 \<and> tr1 = [((''replace'', [t, target]), Inr x)] \<and> looks tr2 \<and> has_read data tr2))"
    then obtain t a b x e where "tr = a @ b @ ((''replace'', [t, target]), Inr x) # e" "has_written data a" "looks e" "has_read data e" by auto
    then show "replaced_by data tr"
      unfolding replaced_by_def using has_written_append[of data a "[]" b] by (intro exI[of _ "a @ b"] exI[of _ t] exI[of _ target] exI[of _ x] exI[of _ e]) simp
  qed
qed

text \<open>\<open>None\<close> is the report of success.\<close>

lemmas any_calls = looking_calls[THEN calls_mono, OF subset_UNIV] checked_read_calls[THEN calls_mono, OF subset_UNIV]

lemma roll_back_calls: "calls UNIV (roll_back cf n home state_root target created_home)"
  unfolding roll_back_def restore_backup_def
  by (intro calls_bind calls_andthen calls_ensure calls_cases calls_if calls_pure calls_ext both_calls require_calls any_calls UNIV_I)

lemma refusals_yield: "yields (ret (Some x)) (\<lambda>r _. r \<noteq> None)" "yields (fail e) (\<lambda>r _. r \<noteq> None)"
  by (rule yields_mono[OF yields_pure(1)], simp) (rule yields_mono[OF yields_pure(2)], simp)

lemma held_attempt_yields:
  "yields (held_attempt cf n home state_root target data created_home existed) (\<lambda>r tr. if r = None then replaced_by data tr else True)"
proof -
  have first: "yields (catch (andthen (replace_verified cf n home state_root target data) (ret None))
       (\<lambda>e. if is_runtime e then ret (Some ''env-verify-failed'') else if is_OSError e then ret (Some (failure_reason existed)) else fail e))
      (\<lambda>r tr. if r = None then replaced_by data tr else True)"
  proof (rule yields_catch[where P = "\<lambda>r. r \<noteq> None"])
    show "yields (andthen (replace_verified cf n home state_root target data) (ret None)) (\<lambda>r tr. if r = None then replaced_by data tr else True)"
      by (rule yields_mono[OF yields_andthen[OF replace_verified_yields yields_pure(1)]]) auto
    show "yields (if is_runtime e then ret (Some ''env-verify-failed'') else if is_OSError e then ret (Some (failure_reason existed)) else fail e)
        (\<lambda>r _. r \<noteq> None)" for e by (intro yields_if refusals_yield)
  qed auto
  have second: "yields (catch (andthen (roll_back cf n home state_root target created_home) (ret (Some x)))
           (\<lambda>e. if is_OSError e then ret (Some ''env-rollback-failed'') else fail e)) (\<lambda>r _. r \<noteq> None)" for x
  proof (rule yields_catch[where P = "\<lambda>r. r \<noteq> None"])
    show "yields (andthen (roll_back cf n home state_root target created_home) (ret (Some x))) (\<lambda>r _. r \<noteq> None)"
      by (rule yields_mono[OF yields_andthen[OF yields_any[OF roll_back_calls] yields_pure(1)]]) simp
    show "yields (if is_OSError e then ret (Some ''env-rollback-failed'') else fail e) (\<lambda>r _. r \<noteq> None)" for e by (intro yields_if refusals_yield)
  qed
  have third: "yields (case reason of None \<Rightarrow> ret None
     | Some _ \<Rightarrow> catch (andthen (roll_back cf n home state_root target created_home) (ret reason))
           (\<lambda>e. if is_OSError e then ret (Some ''env-rollback-failed'') else fail e)) (\<lambda>r tr. if r = None then reason = None \<and> tr = [] else True)" for reason
    by (cases reason) (auto intro: yields_mono[OF yields_pure(1)] yields_mono[OF second])
  show ?thesis
    unfolding held_attempt_def by (rule yields_mono[OF yields_bind[OF first third]]) (auto split: if_splits)
qed

text \<open>A description of the last part of the calls, whatever was called before it.\<close>

definition ending :: "('a \<Rightarrow> answered list \<Rightarrow> bool) \<Rightarrow> 'a \<Rightarrow> answered list \<Rightarrow> bool" where
  "ending R x tr \<longleftrightarrow> (\<exists>before tr'. tr = before @ tr' \<and> R x tr')"

lemma ending_more: "ending R x tr \<Longrightarrow> ending R x (tr1 @ tr)"
  unfolding ending_def by (metis append_assoc)

lemma ending_bind: "calls UNIV m \<Longrightarrow> (\<And>x. yields (f x) (ending R)) \<Longrightarrow> yields (bind m f) (ending R)"
  by (rule yields_mono[OF yields_bind[OF yields_any]]) (auto intro: ending_more)

lemma ending_andthen: "calls UNIV m \<Longrightarrow> yields n (ending R) \<Longrightarrow> yields (andthen m n) (ending R)"
  unfolding andthen_def by (rule ending_bind)

lemma ending_start: "yields m R \<Longrightarrow> yields m (ending R)"
  by (erule yields_mono) (metis ending_def append_Nil)

definition then_looks :: "('a \<Rightarrow> answered list \<Rightarrow> bool) \<Rightarrow> 'a \<Rightarrow> answered list \<Rightarrow> bool" where
  "then_looks R x tr \<longleftrightarrow> (\<exists>tr' after. tr = tr' @ after \<and> R x tr' \<and> looks after)"

lemma held_yields:
  assumes "yields body R"
  shows "yields (held_destination_directory cf n path body) (ending (then_looks R))"
  unfolding held_destination_directory_def
proof (intro ending_andthen ending_bind calls_ext UNIV_I calls_if calls_pure calls_bind require_calls both_calls any_calls ending_start)
  show "yields (if \<not> ok then andthen (if h \<noteq> no_directory_handle then andthen (ext (''CloseHandle'', [h])) (ret ()) else ret ()) (fail env_unsafe)
      else ensure body (ext (''CloseHandle'', [h]))) (then_looks R)" for ok h
  proof (rule yields_if)
    show "yields (andthen (if h \<noteq> no_directory_handle then andthen (ext (''CloseHandle'', [h])) (ret ()) else ret ()) (fail env_unsafe)) (then_looks R)"
      by (rule yields_mono[OF yields_andthen[OF yields_any yields_pure(2)]]) (auto intro!: calls_intros)
    show "yields (ensure body (ext (''CloseHandle'', [h]))) (then_looks R)"
    proof (rule yields_mono[OF yields_ensure[OF assms yields_ext]])
      fix r and tr :: "answered list"
      assume "\<exists>y tr1 tr2. tr = tr1 @ tr2 \<and> R r tr1 \<and> tr2 = [((''CloseHandle'', [h]), Inr y)]"
      then show "then_looks R r tr" unfolding then_looks_def by (fastforce simp: looking_def)
    qed
  qed
qed

definition success :: "bytes \<Rightarrow> string option \<Rightarrow> answered list \<Rightarrow> bool" where
  "success data r tr \<longleftrightarrow> (if r = None then replaced_by data tr else True)"

lemma success_looks: "then_looks (success data) r tr \<Longrightarrow> success data r tr"
  using replaced_by_append[of data _ _ "[]"] by (auto simp: then_looks_def success_def)

lemma success_ending: "ending (then_looks (success data)) r tr \<Longrightarrow> success data r tr"
  using replaced_by_append[of data _ "[]"] success_looks unfolding ending_def success_def by fastforce

text \<open>The bytes that were there are in the backup before anything else is written.\<close>

lemma backup_yields: "yields (checked_backup cf n backups raw) (\<lambda>_ tr. has_written raw tr)"
proof -
  have c: "yields (require (both (safe_path n b) (opened_at cf fd b))) (\<lambda>_ _. True)" for b fd
    by (intro yields_any require_calls both_calls any_calls)
  have w: "yields (ensure (write_stream st raw) (ext (''stream_close'', [st]))) (\<lambda>_ tr. has_written raw tr)" for st
    by (rule yields_mono[OF yields_ensure[OF write_stream_yields yields_ext]]) (auto intro: has_written_append[where ?tr1.0 = "[]", simplified])
  have e: "yields (catch
      (andthen (require (both (safe_path n b) (opened_at cf fd b)))
      (bind (ext (''fdopen'', [fd])) (\<lambda>stream. andthen (ensure (write_stream stream raw) (ext (''stream_close'', [stream]))) (ret b))))
      (\<lambda>e. andthen (suppress_os (ext (''close_fd'', [fd]))) (andthen (suppress_os (ext (''unlink'', [b]))) (fail e))))
      (ending (\<lambda>_ tr. has_written raw tr))" for b fd
  proof (rule yields_catch[where P = "\<lambda>_. False"])
    show "yields (andthen (require (both (safe_path n b) (opened_at cf fd b)))
      (bind (ext (''fdopen'', [fd])) (\<lambda>stream. andthen (ensure (write_stream stream raw) (ext (''stream_close'', [stream]))) (ret b))))
      (ending (\<lambda>_ tr. has_written raw tr))"
      by (intro ending_andthen ending_bind calls_ext UNIV_I require_calls both_calls any_calls ending_start yields_mono[OF yields_andthen[OF w yields_pure(1)]]) auto
    show "yields (andthen (suppress_os (ext (''close_fd'', [fd]))) (andthen (suppress_os (ext (''unlink'', [b]))) (fail e))) (\<lambda>_ _. False)" for e
      by (rule yields_mono[OF yields_andthen[OF yields_any yields_andthen[OF yields_any yields_pure(2)]]]) (auto intro!: calls_intros)
  qed simp
  have "yields (checked_backup cf n backups raw) (ending (\<lambda>_ tr. has_written raw tr))"
    unfolding checked_backup_def by (intro ending_andthen ending_bind calls_ext UNIV_I require_calls both_calls any_calls e)
  then show ?thesis by (rule yields_mono) (auto simp: ending_def intro: has_written_append[where ?tr2.0 = "[]", simplified])
qed

section \<open>The property\<close>

definition backed_up :: "bytes \<Rightarrow> bool \<Rightarrow> answered list \<Rightarrow> bool" where
  "backed_up raw existed tr \<longleftrightarrow> (if existed then has_written raw tr else True)"

lemma transaction_yields:
  "yields (transaction cf n home state_root target backups raw data created_home existed)
    (\<lambda>r tr. if r = None then \<exists>tr1 tr2. tr = tr1 @ tr2 \<and> backed_up raw existed tr1 \<and> replaced_by data tr2 else True)"
proof -
  let ?R = "\<lambda>r tr. if r = None then \<exists>tr1 tr2. tr = tr1 @ tr2 \<and> backed_up raw existed tr1 \<and> replaced_by data tr2 else True"
  have b: "yields (if existed then bind (checked_backup cf n backups raw) (\<lambda>b. update (\<lambda>v. v\<lparr>ev_backup := Some b\<rparr>)) else ret ())
      (\<lambda>_ tr. backed_up raw existed tr)"
  proof (rule yields_if)
    show "yields (bind (checked_backup cf n backups raw) (\<lambda>b. update (\<lambda>v. v\<lparr>ev_backup := Some b\<rparr>))) (\<lambda>_ tr. backed_up raw existed tr)"
      by (rule yields_mono[OF yields_bind[OF backup_yields yields_pure(4)]]) (auto simp: backed_up_def)
    show "yields (ret ()) (\<lambda>_ tr. backed_up raw existed tr)" if "\<not> existed"
      using that by (intro yields_mono[OF yields_pure(1)]) (simp add: backed_up_def)
  qed
  have c: "yields (require (both (safe_path n home) (safe_path n state_root))) (\<lambda>_ _. True)"
    by (intro yields_any require_calls both_calls any_calls)
  have h: "yields (held_destination_directory cf n home (held_attempt cf n home state_root target data created_home existed))
      (\<lambda>r tr. if r = None then replaced_by data tr else True)"
    using held_yields[OF held_attempt_yields] by (rule yields_mono) (use success_ending in \<open>unfold success_def\<close>)
  have t: "yields (catch (andthen (if existed then bind (checked_backup cf n backups raw) (\<lambda>b. update (\<lambda>v. v\<lparr>ev_backup := Some b\<rparr>)) else ret ())
        (andthen (require (both (safe_path n home) (safe_path n state_root)))
          (held_destination_directory cf n home (held_attempt cf n home state_root target data created_home existed))))
        (\<lambda>e. if is_OSError e then ret (Some (failure_reason existed)) else fail e)) ?R"
  proof (rule yields_catch[where P = "\<lambda>r. r \<noteq> None"])
    show "yields (andthen (if existed then bind (checked_backup cf n backups raw) (\<lambda>b. update (\<lambda>v. v\<lparr>ev_backup := Some b\<rparr>)) else ret ())
        (andthen (require (both (safe_path n home) (safe_path n state_root)))
          (held_destination_directory cf n home (held_attempt cf n home state_root target data created_home existed)))) ?R"
      by (rule yields_mono[OF yields_andthen[OF b yields_andthen[OF c h]]])
        (auto split: if_splits intro: replaced_by_append[where ?tr2.0 = "[]", simplified])
    show "yields (if is_OSError e then ret (Some (failure_reason existed)) else fail e) (\<lambda>r _. r \<noteq> None)" for e by (intro yields_if refusals_yield)
  qed auto
  have f: "yields (bind (field ev_temporary) (\<lambda>t. case t of None \<Rightarrow> ret ()
      | Some t \<Rightarrow> suppress_os (bind (ext (''Path'', [t])) (\<lambda>p. ext (''unlink'', [p]))))) (\<lambda>_ tr. looks tr)"
    by (intro looking_yields calls_intros) (simp_all add: looking_def)
  show ?thesis
    unfolding transaction_def
  proof (rule yields_mono[OF yields_ensure[OF t f]])
    fix r :: "string option" and tr :: "answered list"
    assume "\<exists>y tr1 tr2. tr = tr1 @ tr2 \<and> ?R r tr1 \<and> looks tr2"
    then obtain a b where ab: "tr = a @ b" "?R r a" "looks b" by blast
    show "?R r tr"
    proof (cases r)
      case None
      then obtain a1 a2 where a: "a = a1 @ a2" "backed_up raw existed a1" "replaced_by data a2" using ab(2) by auto
      have "replaced_by data (a2 @ b)" using replaced_by_append[OF a(3) ab(3), of "[]"] by simp
      then show ?thesis using None a ab by auto
    qed simp
  qed
qed

text \<open>A rewriting that reports success had consent; it read the file that was there, rewrote its bytes, backed them up first, and
  replaced the file by the result, which differs from what was there only by the managed block, and read it back.\<close>

definition applied :: "ustr \<Rightarrow> val \<Rightarrow> answered list \<Rightarrow> bool" where
  "applied invocation consent tr \<longleftrightarrow> consent = VBool True
     \<and> (\<exists>raw data existed tr0 tr1 tr2. tr = tr0 @ tr1 @ tr2 \<and> (if existed then has_read raw tr0 else raw = [])
       \<and> rewrite raw invocation = Inr (Inr data) \<and> only_block raw data invocation \<and> backed_up raw existed tr1 \<and> replaced_by data tr2)"

lemma read_target_yields: "yields (read_target cf n home target created_home existed)
    (\<lambda>r tr. case r of Inl _ \<Rightarrow> True | Inr raw \<Rightarrow> if existed then has_read raw tr else raw = [])"
  unfolding read_target_def
proof (rule yields_catch[where P = isl])
  let ?R = "\<lambda>r tr. case r of Inl (_ :: string) \<Rightarrow> True | Inr raw \<Rightarrow> if existed then has_read raw tr else raw = []"
  have r: "yields (if \<not> ok then ret (Inl reason) else if existed then bind (checked_read cf n target) (\<lambda>b. ret (Inr b)) else ret (Inr [])) ?R" for ok reason
    by (intro yields_if yields_mono[OF yields_bind[OF read_yields yields_pure(1)]]) (auto intro!: yields_ret dest: has_read_append[where ?tr1.0 = "[]" and ?tr2.0 = "[]"])
  have m: "calls UNIV (if created_home then andthen (ext (''mkdir_parents'', [home])) (ret ()) else ret ())" by (intro calls_intros) simp_all
  show "yields (andthen (if created_home then andthen (ext (''mkdir_parents'', [home])) (ret ()) else ret ())
      (bind (safe_path n home) (\<lambda>ok. if \<not> ok then ret (Inl ''env-home-unsafe'')
       else if existed then bind (checked_read cf n target) (\<lambda>b. ret (Inr b)) else ret (Inr [])))) ?R"
    by (rule yields_mono[OF yields_andthen[OF yields_any[OF m] yields_bind[OF yields_any r]]]) (auto intro: any_calls simp: has_read_def split: sum.splits if_splits)
  show "yields (if is_OSError e then ret (Inl ''env-target-unsafe'') else fail e) (\<lambda>x _. isl x)" for e
    by (auto simp: yields_def wp_simps)
qed (auto split: sum.split)

lemma appliedI:
  "consent = VBool True \<Longrightarrow> (if existed then has_read raw tr0 else raw = []) \<Longrightarrow> rewrite raw invocation = Inr (Inr data) \<Longrightarrow>
    only_block raw data invocation \<Longrightarrow> backed_up raw existed tr1 \<Longrightarrow> replaced_by data tr2 \<Longrightarrow> applied invocation consent (tr0 @ tr1 @ tr2)"
  unfolding applied_def by blast

lemma apply_env_yields:
  "yields (apply_env cf n home state_root invocation consent) (\<lambda>r tr. if r = None then applied invocation consent tr else True)"
proof (cases "consent = VBool True")
  case False
  then show ?thesis by (auto simp: apply_env_def intro!: yields_ret)
next
  case c: True
  let ?Q = "\<lambda>r tr. if r = None then applied invocation consent tr else True"
  have refuse: "yields (ret (Some x)) ?Q" for x by (auto intro!: yields_ret)
  have look: "calls UNIV (both (path_exists t) (bind (both (safe_path n t) (is_file t)) (\<lambda>b. ret (\<not> b))))" "calls UNIV (bind (path_exists home) (\<lambda>b. ret (\<not> b)))" for t
    by (intro both_calls calls_bind calls_pure any_calls)+
  have more: "yields (bind m f) ?Q" if "calls UNIV m" "\<And>x. yields (f x) ?Q" for m :: "('o, 'x) prog" and f
  proof (rule yields_mono[OF yields_bind[OF yields_any[OF that(1)] that(2)]])
    have a: "applied invocation consent tr \<Longrightarrow> applied invocation consent (tr1 @ tr)" for tr tr1
    proof -
      assume "applied invocation consent tr"
      then obtain raw data existed a b d where "consent = VBool True" "tr = a @ b @ d" "if existed then has_read raw a else raw = []"
        "rewrite raw invocation = Inr (Inr data)" "only_block raw data invocation" "backed_up raw existed b" "replaced_by data d"
        unfolding applied_def by blast
      moreover have "tr1 @ tr = (tr1 @ a) @ b @ d" using calculation(2) by simp
      moreover have "if existed then has_read raw (tr1 @ a) else raw = []" using calculation(3) by (auto simp: has_read_def split: if_splits)
      ultimately show ?thesis unfolding applied_def by blast
    qed
    fix r and tr :: "answered list" assume "\<exists>x tr1 tr2. tr = tr1 @ tr2 \<and> True \<and> ?Q r tr2"
    then show "?Q r tr" using a by auto
  qed
  have rest: "yields (bind (read_target cf n home target created_home existed) (\<lambda>r. case r of
          Inl reason \<Rightarrow> ret (Some reason)
        | Inr raw \<Rightarrow>
            bind (lift_result (rewrite raw invocation)) (\<lambda>r. case r of
              Inl reason \<Rightarrow> ret (Some reason)
            | Inr data \<Rightarrow>
                with_local \<lparr>ev_backup = None, ev_temporary = None\<rparr>
                  (on_local (transaction cf n home state_root target backups raw data created_home existed))))) ?Q" for target backups created_home existed
  proof (rule yields_step[OF read_target_yields], goal_cases)
    case (1 r tr)
    show ?case
    proof (cases r)
      case (Inl reason)
      then show ?thesis by (auto intro!: yields_ret)
    next
      case (Inr raw)
      have rd: "if existed then has_read raw tr else raw = []" using 1 Inr by simp
      show ?thesis
        unfolding Inr sum.case
      proof (rule yields_step[OF yields_pure(5)], goal_cases)
        case (1 q tr')
        show ?case
        proof (cases q)
          case (Inl reason)
          then show ?thesis by (auto intro!: yields_ret)
        next
          case q: (Inr data)
          have rw: "rewrite raw invocation = Inr (Inr data)" "tr' = []" using 1 q by simp_all
          have ob: "only_block raw data invocation" using rewrite_preserves[OF rw(1)] .
          show ?thesis
            unfolding q sum.case
          proof (rule yields_mono[OF yields_with_local[OF yields_within[OF transaction_yields]]])
            fix y and tr2 :: "answered list"
            assume "if y = None then \<exists>tr1 tr2'. tr2 = tr1 @ tr2' \<and> backed_up raw existed tr1 \<and> replaced_by data tr2' else True"
            then show "?Q y (tr @ tr' @ tr2)" using appliedI[OF c rd rw(1) ob] rw(2) by auto
          qed
        qed
      qed
    qed
  qed
  show ?thesis
    unfolding apply_env_def by (intro yields_if refuse rest more calls_ext UNIV_I look any_calls)
qed

end
