(* ===== verification/Spec2Isabelle.thy ===== *)
theory Spec2Isabelle
  imports ProjectionFacts Config Protocol ResourceCore ResourceOwners Guard RefreshMachine Adapter BoundedFacts RefreshFacts CacheFileFacts EnvApplyFacts
begin

text \<open>
  YASB Limitora (\<open>src/yasb_limitora/\<close>, Python): a command that shows the remaining quota of two providers, Codex and OpenCode Go, in
  a status bar. This root theory imports the development; the properties stand in the theories of the components they are about.

  The program. A run reads the local configuration (\<open>config.py\<close>, \<open>path.py\<close>), looks for a cached document (\<open>cache.py\<close>) and refreshes it when
  it is too old (\<open>worker.py\<close>): it takes a mutex per user and path (\<open>guard.py\<close>), reads each enabled provider in a child process
  (\<open>worker.py\<close>, \<open>codex_helper.py\<close>, \<open>limitora_api.py\<close>) that is contained in a Windows Job (\<open>isolation/windows_job.py\<close> and the owners in
  \<open>_codex_resource_core.py\<close>, \<open>codex_job_resources.py\<close>, \<open>codex_process_resources.py\<close>), speaks a framed protocol with it
  (\<open>isolation/protocol.py\<close>), turns the views of the model (\<open>model.py\<close>) into one JSON document (\<open>projection.py\<close>), and publishes it. One
  deadline (\<open>deadline.py\<close>) bounds all of it and keeps a reserve for cleanup. The setup writes a managed block into the \<open>.env\<close> of the
  status bar (\<open>_env_block.py\<close>).

  How the code is modelled.
  \<^item> \<open>Prelude\<close>, \<open>Utf8\<close>, \<open>Json\<close>, \<open>JsonErrors\<close>, \<open>JsonRoundtrip\<close>, \<open>JsonSorted\<close>, \<open>JsonDepth\<close>, \<open>PyNum\<close>, \<open>PyDecimal\<close>, \<open>PyTime\<close>, \<open>NtPath\<close>: what the sources
    use of Python and its standard library. A string is the list of its code points, a dict an association list, a call
    that may raise gives \<open>py_exn + 'a\<close>, a double is a sign, a mantissa and an exponent, \<open>Decimal\<close> has its precision as an argument.
  \<^item> \<open>Effects\<close>: methods with effects. A program is a function of the fields of its object and of the world; a world is
    a function that answers the \<open>n\<close>-th call, and the trace of the calls made. Nothing is assumed of the answers, so a theorem
    holds for every behaviour of the Windows API, the clock, the file system, the other processes and the provider's package,
    unless it has a hypothesis. \<open>wp\<close> is the weakest precondition of a program, \<open>calls\<close> the names it may call, \<open>Invariants\<close> adds
    \<open>keeps\<close> (an invariant) and \<open>still\<close> (the object is not changed), \<open>Traces\<close> adds \<open>yields\<close> (what was called on return).

  Which theory models which part, and what its lemmas show.
  \<^item> \<open>Model\<close> (\<open>model.py\<close>): the vocabularies, the canonical forms and the data classes with their checks. Canonical decimals keep their
    value and read back (\<open>canonical_decimal_correct\<close>), a window adds up exactly within 28 digits (\<open>window_sum_exact\<close>).
  \<^item> \<open>HelperWire\<close> (\<open>codex_helper.py\<close>): the wire format between worker and parent: round trip and soundness of the decoder on any bytes.
  \<^item> \<open>Projection\<close>, \<open>Document\<close>, \<open>DocumentFacts\<close>, \<open>ProjectionFacts\<close> (\<open>projection.py\<close>): the document, its texts and bytes: bounds, one
    line, the fullest document that fits (the search is compared with the greatest limit that fits), the
    percentages, the most depleted window, the three slots of an OpenCode item after the last sort.
  \<^item> \<open>CacheDoc\<close>, \<open>CacheTypes\<close>, \<open>CacheStore\<close>, \<open>CacheSample\<close> (\<open>cache.py\<close>): the validation of a cached document, its type, and the envelope: what
    is published is loaded again, and a load never raises.
  \<^item> \<open>Coordinator\<close>, \<open>CoordFacts\<close>, \<open>RefreshMachine\<close> (\<open>cache.py\<close>, \<open>RefreshCoordinator\<close>): claims on a refresh over a marker file. The sections
    run under the mutex refine an abstract machine (\<open>critical_refines\<close>), by induction over histories claims increase, only
    the authority publishes, and a live owner keeps its claim.
  \<^item> \<open>CacheFiles\<close>, \<open>CacheFileFacts\<close> (\<open>cache.py\<close>): the checks of a path, the children that read and replace a file, the names and
    fingerprints: a file is replaced only by a complete, synchronized copy; a fingerprint determines its configuration.
  \<^item> \<open>Deadline\<close> (\<open>deadline.py\<close>) and \<open>Config\<close> (\<open>config.py\<close>): the budget, and the validated configuration with the errors that get out.
  \<^item> \<open>Protocol\<close> (\<open>isolation/protocol.py\<close>): frames, the transport loops, messages and the session.
  \<^item> \<open>ResourceCore\<close> (\<open>_codex_resource_core.py\<close>), \<open>JobBoundary\<close> (\<open>isolation/windows_job.py\<close>), \<open>ResourceOwners\<close> (\<open>codex_job_resources.py\<close>,
    \<open>codex_process_resources.py\<close>): who may close what, and when. A generation is closed once, a Job is given up
    only when it is seen to be empty, the Job is closed before the process, closing against the deadline ends.
  \<^item> \<open>WinPath\<close>, \<open>BoundedFile\<close>, \<open>BoundedFacts\<close>, \<open>ChildProcess\<close> (\<open>path.py\<close>): canonical paths, file calls in a child process whose owners are
    all closed or kept, the environment of a child, \<open>read_config\<close>.
  \<^item> \<open>Guard\<close> (\<open>guard.py\<close>): the mutex and its lease. The locale \<open>lease_ops\<close> states what the two operations of a lease promise, its
    \<open>close_lease\<close> is the client, and \<open>guard_ops\<close> interprets it on the model.
  \<^item> \<open>Adapter\<close> (\<open>limitora_api.py\<close>): what the provider's package answers becomes a view, whatever it answers or raises.
  \<^item> \<open>Worker\<close>, \<open>WorkerFacts\<close>, \<open>RefreshAttempt\<close>, \<open>RefreshFacts\<close> (\<open>worker.py\<close>): a read in a worker process, whose record tells the truth; the
    refresh and the orchestrator, which give the guard back only when every resource is gone and every helper quiet.
  \<^item> \<open>EnvBlock\<close>, \<open>EnvFacts\<close>, \<open>EnvApply\<close>, \<open>EnvApplyFacts\<close> (\<open>_env_block.py\<close>): the managed block keeps the bytes of the user and settles; an
    application that reports success had consent, kept a copy, replaced the file and read it back.

  Bounds and fuel. Running out of fuel raises \<open>no_fuel\<close>, which the code never raises.
  \<^item> The JSON reader has two units of fuel for each character, which is enough for every text (\<open>loads_fuel\<close>). The recursion limit of the
    interpreter is modelled where nothing catches its error, in \<open>Config\<close>, by the parameters \<open>rooms\<close> of \<open>JsonDepth\<close>; the
    readers of the cache and of the helper's answer run under handlers for every exception, and a frame of \<open>Protocol\<close> that is nested too
    deep is refused in any case, where the code raises \<open>RecursionError\<close> and the model a protocol error.
  \<^item> The loops of the Job boundary take any fuel; \<open>job_close_ends\<close> says how much is enough when the clock passes the deadline. The loop that
    asks for a full path takes any fuel; \<open>full_path_ends_unless_511\<close> says when it ends. The transport loops need none: every call
    moves a byte. The walk to the root of a path checks 128 components in \<open>CacheFiles\<close>, as the code does, and takes any fuel in
    \<open>EnvApply\<close>, where a path has as many parents as components.

  What is built into the model.
  \<^item> A critical section of the coordinator runs alone (\<open>critical\<close>): that is what the system's mutex gives; that the mutex is held
    during the section is the code's own order of calls. The answers inside a section are arbitrary.
  \<^item> \<open>\d\<close> in the patterns of timestamps and decimals is an ASCII digit. The answers of a transport are a list, one for each call.
    \<open>mkstemp\<close> answers a name that also stands for the descriptor it opened. Closers do not call back into what they close. The
    exceptions of a call are those of \<open>Exception\<close>; \<open>KeyboardInterrupt\<close> and \<open>SystemExit\<close> are not.
  \<^item> Parameters: the Unicode tables behind NFC, \<open>casefold\<close>, \<open>upper\<close> and \<open>capitalize\<close>, the time zone and date format of the locale, hashes,
    \<open>zlib\<close>, the format of a double, \<open>GetFullPathNameW\<close>, the objects of the \<open>limitora\<close> package. What is relied on is a named
    hypothesis, and a witness instantiates it.

  What is not modelled: the branches for platforms other than Windows; the bindings of \<open>ctypes\<close>, which are the calls; the redirection of
  a child's diagnostics; the supervisor of the Codex helper (\<open>codex_supervisor.py\<close>) and its executor in \<open>codex_helper.py\<close>, which run threads
  over native handles (their protocol, descriptors and owners are modelled, and the refresh asks them through their attributes);
  the lock of the configuration file (\<open>_config_lock.py\<close>), native calls of the guard's shape; the setup dialogue, the discovery of the
  status bar and the cleanup of the search path (\<open>setup_assist.py\<close>, \<open>discovery.py\<close>, \<open>_path_cleanup.py\<close>), which are registry and file
  input and output; the command line (\<open>cli.py\<close>, \<open>__main__.py\<close>), which wires the parts above; the hooks for the native test harness
  (\<open>_native_proof_observability.py\<close>, \<open>_native_state_cleanup.py\<close>), the fakes of \<open>isolation/fakes.py\<close>, the package files, and the build
  scripts and host tools outside the package.
\<close>

end
